(* ===== verification/Box_Prelude.thy ===== *)
theory Box_Prelude
  imports Main "HOL-Library.Word" "HOL-Library.AList" "HOL-Library.Product_Lexorder"
begin

text \<open>
  Shared vocabulary of the development: the clock and its units, Go maps as
  association lists, the slice helpers of the Go standard library the sources
  use, stable sorting by a \<open>less\<close> function, and the generic notion of a
  transition system with an inductive invariant.
\<close>

section \<open>Names for the model's basic types\<close>

type_synonym tag = string
type_synonym u16 = "16 word"
type_synonym u32 = "32 word"
type_synonym u64 = "64 word"
type_synonym bytes = "8 word list"

named_theorems gomap_simps \<open>lookups in updated Go maps\<close>

section \<open>Time\<close>

text \<open>
  A \<open>time.Time\<close> is the number of nanoseconds since Go's zero time (January 1 of
  year 1), so that \<open>IsZero\<close> is equality with \<open>0\<close>; a \<open>time.Duration\<close>
  is a number of nanoseconds. Both are unbounded here. Go stores a duration in 64
  bits and \<open>Time.Sub\<close> saturates; \<open>time_sub_less_iff\<close> and its companions show that
  every comparison of a saturated difference with a threshold has the outcome of the
  comparison of the exact difference, so the models subtract exactly.
\<close>

type_synonym time = int
type_synonym duration = int

definition millisecond :: duration where
  "millisecond = 1000000"

definition second :: duration where
  "second = 1000 * millisecond"

definition minute :: duration where
  "minute = 60 * second"

definition max_duration :: duration where
  "max_duration = 2 ^ 63 - 1"

definition min_duration :: duration where
  "min_duration = - (2 ^ 63)"

text \<open>The durations the sources compare differences with: a non-negative number of
  nanoseconds below the largest duration.\<close>

definition threshold :: "duration \<Rightarrow> bool" where
  "threshold d \<longleftrightarrow> 0 \<le> d \<and> d < max_duration"

lemmas time_units = millisecond_def second_def minute_def

definition time_sub :: "time \<Rightarrow> time \<Rightarrow> duration" where
  "time_sub t u = max min_duration (min max_duration (t - u))"

lemma time_sub_less_iff: "threshold d \<Longrightarrow> time_sub t u < d \<longleftrightarrow> t - u < d"
  unfolding threshold_def time_sub_def min_duration_def max_duration_def by auto

lemma time_sub_ge_iff: "threshold d \<Longrightarrow> d \<le> time_sub t u \<longleftrightarrow> d \<le> t - u"
  using time_sub_less_iff [of d t u] by linarith

lemma time_sub_greater_iff: "threshold d \<Longrightarrow> d < time_sub t u \<longleftrightarrow> d < t - u"
  unfolding threshold_def time_sub_def min_duration_def max_duration_def by auto

definition unix_epoch :: time where
  "unix_epoch = 62135596800 * second"

definition unix_nano :: "time \<Rightarrow> int" where
  "unix_nano t = t - unix_epoch"

definition from_unix_nano :: "int \<Rightarrow> time" where
  "from_unix_nano n = n + unix_epoch"

lemma from_unix_nano_unix_nano [simp]: "from_unix_nano (unix_nano t) = t"
  by (simp add: from_unix_nano_def unix_nano_def)

section \<open>Go maps\<close>

text \<open>
  A Go map is an association list: reading is \<open>map_of\<close>, assignment \<open>AList.update\<close>
  and \<open>delete\<close> is \<open>AList.delete\<close>. Go leaves the iteration order open; where a
  source loop ranges over a map, the model's loop is shown not to depend on the order or
  takes the order as an argument.
\<close>

type_synonym ('k, 'v) gomap = "('k \<times> 'v) list"

abbreviation gget :: "('k, 'v) gomap \<Rightarrow> 'k \<Rightarrow> 'v option" where
  "gget \<equiv> map_of"

abbreviation gput :: "'k \<Rightarrow> 'v \<Rightarrow> ('k, 'v) gomap \<Rightarrow> ('k, 'v) gomap" where
  "gput \<equiv> AList.update"

abbreviation gdel :: "'k \<Rightarrow> ('k, 'v) gomap \<Rightarrow> ('k, 'v) gomap" where
  "gdel \<equiv> AList.delete"

abbreviation gkeys :: "('k, 'v) gomap \<Rightarrow> 'k list" where
  "gkeys m \<equiv> map fst m"

definition gmap :: "('v \<Rightarrow> 'w) \<Rightarrow> ('k, 'v) gomap \<Rightarrow> ('k, 'w) gomap" where
  "gmap f m = map (\<lambda>(k, v). (k, f v)) m"

lemma gget_gput [gomap_simps, simp]:
  "gget (gput k v m) k' = (if k' = k then Some v else gget m k')"
  by (simp add: update_conv')

lemma gget_gdel [gomap_simps, simp]:
  "gget (gdel k m) k' = (if k' = k then None else gget m k')"
  by (simp add: delete_conv')

lemma gget_gmap [gomap_simps, simp]: "gget (gmap f m) k = map_option f (gget m k)"
  by (induction m) (auto simp: gmap_def)

lemma gkeys_gmap [simp]: "gkeys (gmap f m) = gkeys m"
  by (simp add: gmap_def case_prod_unfold)

lemma gmap_Nil [simp]: "gmap f [] = []"
  by (simp add: gmap_def)

lemma gmap_Cons [simp]: "gmap f (p # m) = (fst p, f (snd p)) # gmap f m"
  by (simp add: gmap_def case_prod_unfold)

lemma distinct_gkeys_gput [simp]:
  "distinct (gkeys m) \<Longrightarrow> distinct (gkeys (gput k v m))"
  by (rule distinct_update)

lemma distinct_gkeys_gdel [simp]:
  "distinct (gkeys m) \<Longrightarrow> distinct (gkeys (gdel k m))"
  by (rule distinct_delete)

lemma set_gkeys_gput [simp]: "set (gkeys (gput k v m)) = insert k (set (gkeys m))"
  by (simp add: dom_update)

lemma set_gkeys_gdel [simp]: "set (gkeys (gdel k m)) = set (gkeys m) - {k}"
  by (metis delete_keys set_removeAll)

lemma gget_None_iff: "gget m k = None \<longleftrightarrow> k \<notin> set (gkeys m)"
  by (simp add: map_of_eq_None_iff)

lemma gget_Some_key: "gget m k = Some v \<Longrightarrow> k \<in> set (gkeys m)"
  by (metis gget_None_iff option.distinct(1))

lemma gget_Some_iff:
  "distinct (gkeys m) \<Longrightarrow> gget m k = Some v \<longleftrightarrow> (k, v) \<in> set m"
  by simp

subsection \<open>Ranging over a map\<close>

text \<open>The order in which a loop visits a map's entries is any order: an argument \<open>order\<close>
  proposes one, and a proposal that is not a rearrangement of the map gives the map's own.\<close>

definition gorange :: "(('k, 'v) gomap \<Rightarrow> ('k, 'v) gomap) \<Rightarrow> ('k, 'v) gomap \<Rightarrow> ('k, 'v) gomap" where
  "gorange order m = (if distinct (gkeys (order m)) \<and> set (order m) = set m then order m else m)"

lemma set_gorange [simp]: "set (gorange order m) = set m"
  by (simp add: gorange_def)

lemma gkeys_gorange [simp]: "set (gkeys (gorange order m)) = set (gkeys m)"
  by (simp add: gorange_def)

lemma distinct_gorange [simp]: "distinct (gkeys m) \<Longrightarrow> distinct (gkeys (gorange order m))"
  by (simp add: gorange_def)

lemma gorange_perm: "distinct (gkeys m') \<Longrightarrow> set m' = set m \<Longrightarrow> gorange (\<lambda>_. m') m = m'"
  by (simp add: gorange_def)

subsection \<open>Counting the entries of a map\<close>

definition gcount :: "('v \<Rightarrow> bool) \<Rightarrow> ('k, 'v) gomap \<Rightarrow> nat" where
  "gcount P m = length (filter (\<lambda>p. P (snd p)) m)"

lemma gcount_Nil [simp]: "gcount P [] = 0"
  by (simp add: gcount_def)

lemma gcount_Cons [simp]:
  "gcount P (p # m) = (if P (snd p) then 1 else 0) + gcount P m"
  by (simp add: gcount_def)

lemma gcount_gput:
  "distinct (gkeys m) \<Longrightarrow>
   gcount P (gput k v m) + (case gget m k of Some w \<Rightarrow> if P w then 1 else 0 | None \<Rightarrow> 0)
     = gcount P m + (if P v then 1 else 0)"
  by (induction m) (auto split: option.splits dest: gget_Some_key)

lemma gcount_gdel:
  "distinct (gkeys m) \<Longrightarrow>
   gcount P (gdel k m) + (case gget m k of Some w \<Rightarrow> if P w then 1 else 0 | None \<Rightarrow> 0)
     = gcount P m"
proof (induction m)
  case (Cons p m)
  then show ?case
    by (cases "fst p = k") (auto simp: gcount_def split: option.splits dest: gget_Some_key)
qed simp

lemma gcount_gmap: "gcount P (gmap f m) = gcount (P \<circ> f) m"
  by (induction m) auto

section \<open>Slices\<close>

text \<open>\<open>slices.IndexFunc\<close>: the first index whose element satisfies the predicate;
  Go's \<open>-1\<close> is \<open>None\<close>.\<close>

fun index_func :: "('a \<Rightarrow> bool) \<Rightarrow> 'a list \<Rightarrow> nat option" where
  "index_func P [] = None"
| "index_func P (x # xs) = (if P x then Some 0 else map_option Suc (index_func P xs))"

lemma index_func_None: "index_func P xs = None \<longleftrightarrow> (\<forall>x \<in> set xs. \<not> P x)"
  by (induction xs) auto

lemma index_func_SomeD:
  "index_func P xs = Some i \<Longrightarrow> i < length xs \<and> P (xs ! i) \<and> (\<forall>j < i. \<not> P (xs ! j))"
proof (induction xs arbitrary: i)
  case (Cons x xs)
  show ?case
  proof (cases "P x")
    case True
    with Cons.prems show ?thesis by simp
  next
    case False
    with Cons.prems obtain k where k: "index_func P xs = Some k" "i = Suc k" by auto
    with Cons.IH [OF k(1)] False show ?thesis
      by (auto simp: less_Suc_eq_0_disj)
  qed
qed simp

lemma drop_index_func:
  "index_func P xs = Some i \<Longrightarrow> drop i xs = dropWhile (\<lambda>x. \<not> P x) xs"
  by (induction xs arbitrary: i) (auto split: if_splits)

subsection \<open>Updating an element\<close>

abbreviation bit1 :: "bool \<Rightarrow> int" where
  "bit1 b \<equiv> if b then 1 else 0"

lemma filter_upd:
  "i < length xs \<Longrightarrow> int (length (filter P (xs[i := y]))) = int (length (filter P xs)) - bit1 (P (xs ! i)) + bit1 (P y)"
proof (induction xs arbitrary: i)
  case (Cons x xs)
  show ?case
  proof (cases i)
    case (Suc j)
    then show ?thesis using Cons.IH [of j] Cons.prems by (simp split: if_splits)
  qed simp
qed simp

lemma filter_none: "int (length (filter P xs)) = 0 \<longleftrightarrow> (\<forall>x \<in> set xs. \<not> P x)"
  by (simp add: filter_empty_conv)

lemma ball_upd: "(\<forall>x \<in> set xs. Q x) \<Longrightarrow> Q y \<Longrightarrow> \<forall>x \<in> set (xs[i := y]). Q x"
  using set_update_subset_insert [of xs i y] by auto

lemma bex_upd:
  "i < length xs \<Longrightarrow> (\<exists>x \<in> set (xs[i := y]). Q x) \<longleftrightarrow> Q y \<or> (\<exists>j < length xs. j \<noteq> i \<and> Q (xs ! j))"
  unfolding in_set_conv_nth Bex_def by (auto simp: nth_list_update)

lemma bex_keep: "i < length xs \<Longrightarrow> Q y \<longleftrightarrow> Q (xs ! i) \<Longrightarrow> (\<exists>x \<in> set (xs[i := y]). Q x) \<longleftrightarrow> (\<exists>x \<in> set xs. Q x)"
  by (simp add: bex_upd) (metis in_set_conv_nth)

lemma bex_other: "i < length xs \<Longrightarrow> \<exists>x \<in> set xs. Q x \<Longrightarrow> Q (xs ! i) \<or> (\<exists>x \<in> set (xs[i := y]). Q x)"
  by (simp add: bex_upd) (metis in_set_conv_nth)

subsection \<open>Stable sorting by a less function\<close>

text \<open>\<open>sort.SliceStable\<close>, as the insertion sort that never moves an element past one it
  is not less than.\<close>

fun insert_stable :: "('a \<Rightarrow> 'a \<Rightarrow> bool) \<Rightarrow> 'a \<Rightarrow> 'a list \<Rightarrow> 'a list" where
  "insert_stable lt x [] = [x]"
| "insert_stable lt x (y # ys) =
     (if lt y x then y # insert_stable lt x ys else x # y # ys)"

definition slice_stable :: "('a \<Rightarrow> 'a \<Rightarrow> bool) \<Rightarrow> 'a list \<Rightarrow> 'a list" where
  "slice_stable lt xs = foldr (insert_stable lt) xs []"

text \<open>A \<open>less\<close> function that compares keys: sorting with it is \<open>sort_key\<close>.\<close>

locale keyed_less =
  fixes lt :: "'a \<Rightarrow> 'a \<Rightarrow> bool" and key :: "'a \<Rightarrow> 'k::linorder"
  assumes less_key: "lt x y \<longleftrightarrow> key x < key y"
begin

lemma insert_stable_key: "insert_stable lt x ys = insort_key key x ys"
  by (induction ys) (auto simp: less_key not_le)

lemma slice_stable_key: "slice_stable lt xs = sort_key key xs"
proof -
  have "insert_stable lt = insort_key key"
    by (intro ext) (rule insert_stable_key)
  then show ?thesis by (simp add: slice_stable_def sort_key_def)
qed

lemma slice_stable_sorted: "sorted (map key (slice_stable lt xs))"
  by (simp add: slice_stable_key)

lemma slice_stable_set: "set (slice_stable lt xs) = set xs"
  by (simp add: slice_stable_key)

lemma slice_stable_ties:
  "filter (\<lambda>x. key x = k) (slice_stable lt xs) = filter (\<lambda>x. key x = k) xs"
  by (simp add: slice_stable_key sort_key_stable)

end

section \<open>Transition systems and inductive invariants\<close>

text \<open>The states reached from an initial state by steps.\<close>

inductive reaches :: "('s \<Rightarrow> bool) \<Rightarrow> ('s \<Rightarrow> 's \<Rightarrow> bool) \<Rightarrow> 's \<Rightarrow> bool"
  for init :: "'s \<Rightarrow> bool" and step :: "'s \<Rightarrow> 's \<Rightarrow> bool" where
  reaches_init: "init s \<Longrightarrow> reaches init step s"
| reaches_step: "reaches init step s \<Longrightarrow> step s t \<Longrightarrow> reaches init step t"

text \<open>What a component promises about its states: the invariant holds initially and every
  step keeps it. It then holds wherever the component can get.\<close>

locale invariant_system =
  fixes init :: "'s \<Rightarrow> bool" and step :: "'s \<Rightarrow> 's \<Rightarrow> bool" and inv :: "'s \<Rightarrow> bool"
  assumes inv_init: "init s \<Longrightarrow> inv s"
    and inv_step: "inv s \<Longrightarrow> step s t \<Longrightarrow> inv t"
begin

lemma reaches_inv: "reaches init step s \<Longrightarrow> inv s"
  by (induction rule: reaches.induct) (auto intro: inv_init inv_step)

end

end
