(* ===== verification/History_Storage.thy ===== *)
theory History_Storage
  imports Box_Prelude
begin

text \<open>
  The persisted per-member history (\<open>adapter/autoselect_history.go\<close>): the failure
  kinds, the snapshot record, its in-memory store with the change hook, and the contract
  \<open>AutoSelectHistoryStorage\<close> states, as a locale the selection group relies on.
\<close>

section \<open>Failure kinds and snapshots\<close>

type_synonym UserFailureKind = string

definition UserFailureDial :: UserFailureKind where
  "UserFailureDial = ''dial''"

definition UserFailureStall :: UserFailureKind where
  "UserFailureStall = ''stall''"

definition UserFailureReset :: UserFailureKind where
  "UserFailureReset = ''reset''"

definition UserFailureUnknown :: UserFailureKind where
  "UserFailureUnknown = ''unknown''"

definition UserFailureNoResponse :: UserFailureKind where
  "UserFailureNoResponse = ''no_response''"

lemmas user_failure_kinds =
  UserFailureDial_def UserFailureStall_def UserFailureReset_def UserFailureUnknown_def
  UserFailureNoResponse_def

record UserFailure =
  uf_at :: time
  uf_kind :: UserFailureKind

definition normalizeUserFailureKind :: "UserFailureKind \<Rightarrow> UserFailureKind" where
  "normalizeUserFailureKind kind =
     (if kind \<in> set [UserFailureDial, UserFailureStall, UserFailureReset, UserFailureNoResponse]
      then kind else UserFailureUnknown)"

text \<open>\<open>UserFailure.UnmarshalJSON\<close>: the two arguments are the JSON package's decoders of a
  bare timestamp and of the object form; each is \<open>None\<close> where decoding fails.\<close>

definition UserFailure_UnmarshalJSON ::
  "('b \<Rightarrow> time option) \<Rightarrow> ('b \<Rightarrow> UserFailure option) \<Rightarrow> 'b \<Rightarrow> UserFailure option" where
  "UserFailure_UnmarshalJSON decodeTime decodeRaw data =
     (case decodeTime data of
        Some at \<Rightarrow> Some \<lparr>uf_at = at, uf_kind = UserFailureUnknown\<rparr>
      | None \<Rightarrow>
          (case decodeRaw data of
             None \<Rightarrow> None
           | Some raw \<Rightarrow> Some (raw\<lparr>uf_kind := normalizeUserFailureKind (uf_kind raw)\<rparr>)))"

lemma normalizeUserFailureKind_idem [simp]:
  "normalizeUserFailureKind (normalizeUserFailureKind k) = normalizeUserFailureKind k"
  by (simp add: normalizeUserFailureKind_def user_failure_kinds)

record TagHistory =
  th_LastSuccessDelayMs :: u32
  th_LastOutcomeAt :: time
  th_ConsecutiveFailures :: u32
  th_UserFailures :: "UserFailure list"
  th_HardDemoted :: bool
  th_UpdatedAt :: time

definition LatestSuccessDelay :: "TagHistory option \<Rightarrow> u32" where
  "LatestSuccessDelay h = (case h of None \<Rightarrow> 0 | Some t \<Rightarrow> th_LastSuccessDelayMs t)"

definition LatestSuccessTime :: "TagHistory option \<Rightarrow> time" where
  "LatestSuccessTime h = (case h of None \<Rightarrow> 0 | Some t \<Rightarrow> th_UpdatedAt t)"

text \<open>A clone copies the failure slice; as a value it is the original.\<close>

definition cloneTagHistory :: "TagHistory option \<Rightarrow> TagHistory option" where
  "cloneTagHistory h =
     (case h of None \<Rightarrow> None
      | Some t \<Rightarrow> Some (if th_UserFailures t \<noteq> []
                       then t\<lparr>th_UserFailures := map (\<lambda>f. f) (th_UserFailures t)\<rparr> else t))"

lemma cloneTagHistory_id [simp]: "cloneTagHistory h = h"
  by (cases h) (simp_all add: cloneTagHistory_def)

section \<open>The in-memory store\<close>

text \<open>
  \<open>memoryAutoSelectHistoryStorage\<close>: \<open>hs_entries = None\<close> is the nil map left by \<open>Close\<close>.
  A hook is named by a number, and \<open>hs_fired\<close> lists the calls made, oldest first.
\<close>

record hstore =
  hs_entries :: "(tag, TagHistory) gomap option"
  hs_hook :: "nat option"
  hs_fired :: "(nat \<times> tag) list"

definition NewAutoSelectHistoryStorage :: hstore where
  "NewAutoSelectHistoryStorage = \<lparr>hs_entries = Some [], hs_hook = None, hs_fired = []\<rparr>"

definition hs_fire :: "tag \<Rightarrow> hstore \<Rightarrow> hstore" where
  "hs_fire tag s =
     (case hs_hook s of None \<Rightarrow> s | Some hook \<Rightarrow> s\<lparr>hs_fired := hs_fired s @ [(hook, tag)]\<rparr>)"

definition hs_Load :: "hstore \<Rightarrow> tag \<Rightarrow> TagHistory option" where
  "hs_Load s tag = cloneTagHistory (case hs_entries s of None \<Rightarrow> None | Some m \<Rightarrow> gget m tag)"

definition hs_Delete :: "tag \<Rightarrow> hstore \<Rightarrow> hstore" where
  "hs_Delete tag s =
     (case hs_entries s of
        None \<Rightarrow> s
      | Some m \<Rightarrow>
          let s' = s\<lparr>hs_entries := Some (gdel tag m)\<rparr> in
          if gget m tag \<noteq> None then hs_fire tag s' else s')"

definition hs_Store :: "tag \<Rightarrow> TagHistory option \<Rightarrow> hstore \<Rightarrow> hstore" where
  "hs_Store tag h s =
     (case h of
        None \<Rightarrow> hs_Delete tag s
      | Some t \<Rightarrow>
          (case hs_entries s of
             None \<Rightarrow> s
           | Some m \<Rightarrow> hs_fire tag (s\<lparr>hs_entries := Some (gput tag (the (cloneTagHistory (Some t))) m)\<rparr>)))"

definition hs_All :: "hstore \<Rightarrow> (tag, TagHistory) gomap" where
  "hs_All s = (case hs_entries s of None \<Rightarrow> [] | Some m \<Rightarrow> gmap (\<lambda>h. the (cloneTagHistory (Some h))) m)"

definition hs_SetHook :: "nat option \<Rightarrow> hstore \<Rightarrow> hstore" where
  "hs_SetHook hook s = s\<lparr>hs_hook := hook\<rparr>"

definition hs_Close :: "hstore \<Rightarrow> hstore" where
  "hs_Close s = s\<lparr>hs_hook := None, hs_entries := None\<rparr>"

definition hs_open :: "hstore \<Rightarrow> bool" where
  "hs_open s \<longleftrightarrow> hs_entries s \<noteq> None"

lemmas hstore_defs =
  NewAutoSelectHistoryStorage_def hs_fire_def hs_Load_def hs_Delete_def hs_Store_def hs_All_def
  hs_SetHook_def hs_Close_def hs_open_def

section \<open>The storage contract\<close>

text \<open>
  What \<open>AutoSelectHistoryStorage\<close> promises the group: a store is visible to the loads
  after it, storing nil deletes, and calls after \<open>Close\<close> are dropped.
\<close>

locale history_storage =
  fixes load :: "'s \<Rightarrow> tag \<Rightarrow> 'h option"
    and store :: "tag \<Rightarrow> 'h option \<Rightarrow> 's \<Rightarrow> 's"
    and delete :: "tag \<Rightarrow> 's \<Rightarrow> 's"
    and contents :: "'s \<Rightarrow> (tag, 'h) gomap"
    and opened :: "'s \<Rightarrow> bool"
  assumes load_store: "opened s \<Longrightarrow> load (store t (Some h) s) = (load s)(t \<mapsto> h)"
    and load_delete: "load (delete t s) = (load s)(t := None)"
    and store_nil: "store t None s = delete t s"
    and load_contents: "load s = gget (contents s)"
    and opened_store: "opened (store t oh s) = opened s"
    and opened_delete: "opened (delete t s) = opened s"
    and closed_store: "\<not> opened s \<Longrightarrow> store t oh s = s"
    and closed_load: "\<not> opened s \<Longrightarrow> load s t = None"
begin

lemma load_store_other: "t' \<noteq> t \<Longrightarrow> load (store t h s) t' = load s t'"
proof (cases "opened s")
  case True
  then show "t' \<noteq> t \<Longrightarrow> load (store t h s) t' = load s t'"
    by (cases h) (simp_all add: load_store store_nil load_delete)
qed (simp add: closed_store)

lemma last_store_wins:
  "opened s \<Longrightarrow> load (store t (Some h) (store t h' s)) = (load s)(t \<mapsto> h)"
  by (cases h') (simp_all add: load_store store_nil load_delete opened_delete opened_store)

lemma opened_fold: "opened (fold (\<lambda>p. store (fst p) (snd p)) ops s) = opened s"
  by (induction ops arbitrary: s) (simp_all add: opened_store)

text \<open>A run of stores leaves every tag it does not mention alone.\<close>

lemma load_fold_other:
  "t \<notin> fst ` set ops \<Longrightarrow> load (fold (\<lambda>p. store (fst p) (snd p)) ops s) t = load s t"
  by (induction ops arbitrary: s) (simp_all add: load_store_other)

lemma closed_fold: "\<not> opened s \<Longrightarrow> fold (\<lambda>p. store (fst p) (snd p)) ops s = s"
  by (induction ops) (simp_all add: closed_store)

end

interpretation memory: history_storage hs_Load hs_Store hs_Delete hs_All hs_open
  by unfold_locales
    (auto simp: hstore_defs Let_def fun_eq_iff option.map_ident split: option.splits)

section \<open>Properties of the store\<close>

lemma hs_Load_NewAutoSelectHistoryStorage [simp]:
  "hs_Load NewAutoSelectHistoryStorage t = None"
  by (simp add: hstore_defs)

lemma hs_Load_Close [simp]: "hs_Load (hs_Close s) t = None"
  by (rule memory.closed_load) (simp add: hstore_defs)

text \<open>When the hook is called: once per store into an open storage, and once per delete of a
  tag that was there.\<close>

lemma hs_fired_Store:
  "hs_fired (hs_Store tag (Some h) s) =
     hs_fired s @ (if hs_open s then (case hs_hook s of None \<Rightarrow> [] | Some k \<Rightarrow> [(k, tag)]) else [])"
  by (auto simp: hstore_defs split: option.splits)

lemma hs_fired_Delete:
  "hs_fired (hs_Delete tag s) =
     hs_fired s @ (if hs_Load s tag \<noteq> None then (case hs_hook s of None \<Rightarrow> [] | Some k \<Rightarrow> [(k, tag)]) else [])"
  by (auto simp: hstore_defs Let_def split: option.splits)

end
