(* ===== verification/Local_History.thy ===== *)
theory Local_History
  imports History_Storage
begin

text \<open>
  The in-memory selection history of one member
  (\<open>protocol/group/mutableautoselect_history.go\<close>): the probe scalars, the sliding
  window of user-traffic failures, the recovery gate, the demotion rule, and the
  conversion to and from the persisted snapshot.
\<close>

section \<open>Parameters\<close>

definition defaultConsecutiveFailLimit :: u32 where
  "defaultConsecutiveFailLimit = 3"

definition defaultSoftFailLimit :: u32 where
  "defaultSoftFailLimit = 2"

definition defaultUserFailureWindow :: duration where
  "defaultUserFailureWindow = 5 * minute"

definition defaultUserFailureDedupeWindow :: duration where
  "defaultUserFailureDedupeWindow = 45 * second"

definition recoveryGateMinDuration :: duration where
  "recoveryGateMinDuration = 5 * minute"

definition switchPenaltyAltFactor :: u32 where
  "switchPenaltyAltFactor = 3"

record historyParams =
  hp_consecutiveFailLimit :: u32
  hp_softFailLimit :: u32
  hp_userFailureWindow :: duration
  hp_userFailureDedupeWindow :: duration

definition defaultHistoryParams :: historyParams where
  "defaultHistoryParams =
     \<lparr>hp_consecutiveFailLimit = defaultConsecutiveFailLimit,
      hp_softFailLimit = defaultSoftFailLimit,
      hp_userFailureWindow = defaultUserFailureWindow,
      hp_userFailureDedupeWindow = defaultUserFailureDedupeWindow\<rparr>"

lemmas history_param_defs =
  defaultConsecutiveFailLimit_def defaultSoftFailLimit_def defaultUserFailureWindow_def
  defaultUserFailureDedupeWindow_def defaultHistoryParams_def

section \<open>The history record and its operations\<close>

record localHistory =
  lh_lastSuccessDelayMs :: u32
  lh_lastOutcomeAt :: time
  lh_consecutiveFailures :: u32
  lh_userFailures :: "UserFailure list"
  lh_recoveryGateStartedAt :: time

definition newLocalHistory :: localHistory where
  "newLocalHistory =
     \<lparr>lh_lastSuccessDelayMs = 0, lh_lastOutcomeAt = 0, lh_consecutiveFailures = 0,
      lh_userFailures = [], lh_recoveryGateStartedAt = 0\<rparr>"

definition ageWithin :: "time \<Rightarrow> time \<Rightarrow> duration \<Rightarrow> bool" where
  "ageWithin now t window \<longleftrightarrow> max 0 (now - t) < window"

definition pruneUserFailures :: "UserFailure list \<Rightarrow> time \<Rightarrow> duration \<Rightarrow> UserFailure list" where
  "pruneUserFailures failures now window =
     (if failures = [] then []
      else if window \<le> 0 then failures
      else (case index_func (\<lambda>f. ageWithin now (uf_at f) window) failures of
              None \<Rightarrow> []
            | Some firstLive \<Rightarrow> drop firstLive failures))"

fun countLive :: "UserFailure list \<Rightarrow> time \<Rightarrow> duration \<Rightarrow> u32 \<Rightarrow> u32" where
  "countLive [] now window n = n"
| "countLive (f # fs) now window n =
     countLive fs now window (if ageWithin now (uf_at f) window then n + 1 else n)"

definition countUserFailuresInWindow :: "UserFailure list \<Rightarrow> time \<Rightarrow> duration \<Rightarrow> u32" where
  "countUserFailuresInWindow failures now window =
     (if window \<le> 0 then of_nat (length failures) else countLive failures now window 0)"

definition recordProbeSuccess :: "u32 \<Rightarrow> time \<Rightarrow> localHistory \<Rightarrow> localHistory" where
  "recordProbeSuccess delayMs now h =
     (let h = h\<lparr>lh_lastSuccessDelayMs := delayMs, lh_lastOutcomeAt := now,
               lh_consecutiveFailures := 0\<rparr> in
      if lh_recoveryGateStartedAt h \<noteq> 0 \<and>
         now - lh_recoveryGateStartedAt h \<ge> recoveryGateMinDuration
      then h\<lparr>lh_recoveryGateStartedAt := 0\<rparr> else h)"

definition recordProbeFailure :: "time \<Rightarrow> localHistory \<Rightarrow> localHistory" where
  "recordProbeFailure now h =
     h\<lparr>lh_consecutiveFailures := lh_consecutiveFailures h + 1, lh_lastOutcomeAt := now\<rparr>"

definition recordProbe :: "bool \<Rightarrow> u32 \<Rightarrow> time \<Rightarrow> localHistory \<Rightarrow> localHistory" where
  "recordProbe success delayMs now h =
     (if success then recordProbeSuccess delayMs now h else recordProbeFailure now h)"

definition startRecoveryGate :: "time \<Rightarrow> localHistory \<Rightarrow> localHistory" where
  "startRecoveryGate now h = h\<lparr>lh_recoveryGateStartedAt := now\<rparr>"

definition addUserFailure ::
  "UserFailure \<Rightarrow> duration \<Rightarrow> duration \<Rightarrow> localHistory \<Rightarrow> bool \<times> localHistory" where
  "addUserFailure failure window dedupe h =
     (if dedupe > 0 \<and> lh_userFailures h \<noteq> [] \<and>
         uf_at failure - uf_at (last (lh_userFailures h)) < dedupe
      then (False, h)
      else (True, h\<lparr>lh_userFailures :=
              pruneUserFailures (lh_userFailures h @ [failure]) (uf_at failure) window\<rparr>))"

definition userFailureCount :: "time \<Rightarrow> duration \<Rightarrow> localHistory \<Rightarrow> u32 \<times> localHistory" where
  "userFailureCount now window h =
     (let h = h\<lparr>lh_userFailures := pruneUserFailures (lh_userFailures h) now window\<rparr> in
      (of_nat (length (lh_userFailures h)), h))"

record hsnapshot =
  sn_lastDelay :: u32
  sn_consec :: u32
  sn_userFails :: "UserFailure list"
  sn_gated :: bool

text \<open>\<open>snapshot\<close> prunes the window in place before it reads it.\<close>

definition lh_snapshot :: "time \<Rightarrow> duration \<Rightarrow> localHistory \<Rightarrow> hsnapshot \<times> localHistory" where
  "lh_snapshot now window h =
     (let h = h\<lparr>lh_userFailures := pruneUserFailures (lh_userFailures h) now window\<rparr> in
      (\<lparr>sn_lastDelay = lh_lastSuccessDelayMs h, sn_consec = lh_consecutiveFailures h,
        sn_userFails = lh_userFailures h, sn_gated = (lh_recoveryGateStartedAt h \<noteq> 0)\<rparr>, h))"

text \<open>The demotion rule: the results are hard, soft and boosted. All arithmetic is 32-bit.\<close>

definition demoted :: "u32 \<Rightarrow> u32 \<Rightarrow> u32 \<Rightarrow> u32 \<Rightarrow> historyParams \<Rightarrow> bool \<times> bool \<times> bool" where
  "demoted consec userFailsInWindow selfMs bestAltMs p =
     (let boosted = (hp_consecutiveFailLimit p > 0 \<and> selfMs > 0 \<and>
                     bestAltMs > selfMs * switchPenaltyAltFactor);
          limit = (if boosted then hp_consecutiveFailLimit p * 2 else hp_consecutiveFailLimit p) in
      if limit > 0 \<and> consec \<ge> limit then (True, False, boosted)
      else if limit > 0 \<and> userFailsInWindow \<ge> limit then (True, False, boosted)
      else if hp_softFailLimit p > 0 \<and> userFailsInWindow \<ge> hp_softFailLimit p
           then (False, True, boosted)
      else (False, False, boosted))"

definition toTagHistory :: "time \<Rightarrow> historyParams \<Rightarrow> localHistory \<Rightarrow> TagHistory \<times> localHistory" where
  "toTagHistory updatedAt p h =
     (let h = h\<lparr>lh_userFailures := pruneUserFailures (lh_userFailures h) updatedAt (hp_userFailureWindow p)\<rparr>;
          hard = fst (demoted (lh_consecutiveFailures h) (of_nat (length (lh_userFailures h))) 0 0 p) in
      (\<lparr>th_LastSuccessDelayMs = lh_lastSuccessDelayMs h, th_LastOutcomeAt = lh_lastOutcomeAt h,
        th_ConsecutiveFailures = lh_consecutiveFailures h, th_UserFailures = lh_userFailures h,
        th_HardDemoted = hard, th_UpdatedAt = updatedAt\<rparr>, h))"

definition hydrateLocalHistory :: "TagHistory option \<Rightarrow> time \<Rightarrow> duration \<Rightarrow> localHistory" where
  "hydrateLocalHistory t now window =
     (case t of
        None \<Rightarrow> newLocalHistory
      | Some t \<Rightarrow>
          newLocalHistory
            \<lparr>lh_lastSuccessDelayMs := th_LastSuccessDelayMs t,
             lh_lastOutcomeAt := th_LastOutcomeAt t,
             lh_consecutiveFailures := th_ConsecutiveFailures t,
             lh_userFailures :=
               (if th_UserFailures t = [] then []
                else pruneUserFailures (sort_key uf_at (th_UserFailures t)) now window)\<rparr>)"

lemmas local_history_ops =
  recordProbe_def recordProbeSuccess_def recordProbeFailure_def startRecoveryGate_def
  addUserFailure_def userFailureCount_def lh_snapshot_def Let_def

section \<open>The sliding window\<close>

text \<open>Windows are kept in time order.\<close>

abbreviation in_order :: "UserFailure list \<Rightarrow> bool" where
  "in_order fs \<equiv> sorted (map uf_at fs)"

lemma pruneUserFailures_dropWhile:
  "window > 0 \<Longrightarrow>
   pruneUserFailures fs now window = dropWhile (\<lambda>f. \<not> ageWithin now (uf_at f) window) fs"
  by (auto simp: pruneUserFailures_def index_func_None drop_index_func split: option.split
      intro: sym [OF dropWhile_eq_Nil_conv [THEN iffD2]])

lemma pruneUserFailures_no_window: "window \<le> 0 \<Longrightarrow> pruneUserFailures fs now window = fs"
  by (simp add: pruneUserFailures_def)

lemma ageWithin_later: "ageWithin now t window \<Longrightarrow> t \<le> u \<Longrightarrow> ageWithin now u window"
  by (simp add: ageWithin_def)

lemma dropWhile_sorted_filter:
  assumes "sorted (map f xs)" and "\<And>x y. P x \<Longrightarrow> f x \<le> f y \<Longrightarrow> P y"
  shows "dropWhile (\<lambda>x. \<not> P x) xs = filter P xs"
  using assms(1)
proof (induction xs)
  case (Cons x xs)
  show ?case
  proof (cases "P x")
    case True
    with Cons.prems assms(2) have "\<forall>y \<in> set xs. P y" by auto
    with True show ?thesis by simp
  next
    case False
    with Cons show ?thesis by simp
  qed
qed simp

lemma pruneUserFailures_filter:
  "in_order fs \<Longrightarrow> window > 0 \<Longrightarrow>
   pruneUserFailures fs now window = filter (\<lambda>f. ageWithin now (uf_at f) window) fs"
  by (simp add: pruneUserFailures_dropWhile dropWhile_sorted_filter [where f = uf_at]
      ageWithin_later)

lemma countLive_eq:
  "countLive fs now window n = n + of_nat (length (filter (\<lambda>f. ageWithin now (uf_at f) window) fs))"
  by (induction fs arbitrary: n) auto

lemma in_order_pruneUserFailures: "in_order fs \<Longrightarrow> in_order (pruneUserFailures fs now window)"
  by (cases "window > 0") (simp_all add: pruneUserFailures_filter sorted_filter pruneUserFailures_no_window)

lemma pruneUserFailures_idem:
  "in_order fs \<Longrightarrow>
   pruneUserFailures (pruneUserFailures fs now window) now window = pruneUserFailures fs now window"
  by (cases "window > 0")
    (simp_all add: pruneUserFailures_filter sorted_filter pruneUserFailures_no_window)

text \<open>The read-only count of the ranking path and the in-place pruning of the write path
  agree on every window kept in time order: \<open>countUserFailuresInWindow\<close> is the length of what
  \<open>pruneUserFailures\<close> keeps, and pruning keeps exactly the live entries, in order.\<close>

lemma prune_count_agree:
  assumes "in_order fs"
  shows "countUserFailuresInWindow fs now window
           = of_nat (length (pruneUserFailures fs now window)) \<and>
         (window > 0 \<longrightarrow>
           pruneUserFailures fs now window = filter (\<lambda>f. ageWithin now (uf_at f) window) fs)"
  using assms
  by (cases "window > 0")
    (simp_all add: countUserFailuresInWindow_def countLive_eq pruneUserFailures_filter
      pruneUserFailures_no_window)

subsection \<open>Deduplication bounds the window\<close>

definition spaced :: "duration \<Rightarrow> UserFailure list \<Rightarrow> bool" where
  "spaced d fs \<longleftrightarrow> sorted_wrt (\<lambda>a b. uf_at a + d \<le> uf_at b) fs"

definition window_inv :: "duration \<Rightarrow> duration \<Rightarrow> UserFailure list \<Rightarrow> bool" where
  "window_inv window d fs \<longleftrightarrow>
     spaced d fs \<and> (\<forall>f \<in> set fs. uf_at (last fs) - uf_at f < window)"

lemma spaced_in_order: "spaced d fs \<Longrightarrow> 0 \<le> d \<Longrightarrow> in_order fs"
  by (induction fs) (auto simp: spaced_def)

lemma spaced_snoc:
  "0 \<le> d \<Longrightarrow> spaced d fs \<Longrightarrow> (fs \<noteq> [] \<Longrightarrow> uf_at (last fs) + d \<le> uf_at f) \<Longrightarrow> spaced d (fs @ [f])"
proof -
  assume d: "0 \<le> d" and s: "spaced d fs" and l: "fs \<noteq> [] \<Longrightarrow> uf_at (last fs) + d \<le> uf_at f"
  have "uf_at g \<le> uf_at (last fs)" if "g \<in> set fs" for g
  proof -
    have "in_order (butlast fs @ [last fs])"
      using spaced_in_order [OF s d] that by (metis append_butlast_last_id empty_iff list.set(1))
    then show ?thesis
      using that by (cases fs rule: rev_cases) (auto simp: sorted_append)
  qed
  with l have "\<forall>g \<in> set fs. uf_at g + d \<le> uf_at f"
    by (metis add_right_mono empty_iff list.set(1) order_trans)
  with s show ?thesis by (simp add: spaced_def sorted_wrt_append)
qed

lemma spaced_filter: "spaced d fs \<Longrightarrow> spaced d (filter P fs)"
  by (simp add: spaced_def sorted_wrt_filter)

lemma spaced_extent:
  "spaced d fs \<Longrightarrow> fs \<noteq> [] \<Longrightarrow> uf_at (hd fs) + (int (length fs) - 1) * d \<le> uf_at (last fs)"
proof (induction fs)
  case (Cons f fs)
  show ?case
  proof (cases fs)
    case (Cons g gs)
    with Cons.prems have "spaced d fs" and "uf_at f + d \<le> uf_at g" by (auto simp: spaced_def)
    with Cons.IH Cons show ?thesis by (simp add: algebra_simps)
  qed simp
qed simp

lemma window_inv_length:
  assumes "window_inv window d fs" and "0 < d" and "fs \<noteq> []"
  shows "(int (length fs) - 1) * d < window"
proof -
  have "uf_at (last fs) - uf_at (hd fs) < window"
    using assms by (simp add: window_inv_def)
  moreover have "uf_at (hd fs) + (int (length fs) - 1) * d \<le> uf_at (last fs)"
    using assms by (intro spaced_extent) (auto simp: window_inv_def)
  ultimately show ?thesis by linarith
qed

lemma addUserFailure_window_inv:
  assumes "window_inv window d (lh_userFailures h)" and "0 < d" and "0 < window"
    and "addUserFailure f window d h = (r, h')"
  shows "window_inv window d (lh_userFailures h')"
proof (cases r)
  case False
  with assms show ?thesis by (auto simp: addUserFailure_def split: if_splits)
next
  case True
  let ?fs = "lh_userFailures h @ [f]" and ?p = "\<lambda>g. ageWithin (uf_at f) (uf_at g) window"
  from True assms(4) have h': "lh_userFailures h' = pruneUserFailures ?fs (uf_at f) window"
    and gap: "lh_userFailures h \<noteq> [] \<Longrightarrow> uf_at (last (lh_userFailures h)) + d \<le> uf_at f"
    using assms(2) by (auto simp: addUserFailure_def split: if_splits)
  have sp: "spaced d ?fs"
    using assms(1,2) gap by (intro spaced_snoc) (auto simp: window_inv_def)
  then have eq: "lh_userFailures h' = filter ?p (lh_userFailures h) @ [f]"
    using h' assms(3) pruneUserFailures_filter [OF spaced_in_order [OF sp] assms(3), of "uf_at f"]
      assms(2) by (simp add: ageWithin_def)
  have "spaced d (lh_userFailures h')"
    using spaced_filter [OF sp, of ?p] assms(3) by (simp add: eq ageWithin_def)
  then show ?thesis
    using assms(3) by (auto simp: window_inv_def eq ageWithin_def)
qed

text \<open>Recording failures one after the other, at whatever times the clock reads.\<close>

primrec addUserFailures ::
  "duration \<Rightarrow> duration \<Rightarrow> UserFailure list \<Rightarrow> localHistory \<Rightarrow> localHistory" where
  "addUserFailures window d [] h = h"
| "addUserFailures window d (f # fs) h =
     addUserFailures window d fs (snd (addUserFailure f window d h))"

lemma addUserFailures_window_inv:
  "window_inv window d (lh_userFailures h) \<Longrightarrow> 0 < d \<Longrightarrow> 0 < window \<Longrightarrow>
   window_inv window d (lh_userFailures (addUserFailures window d fs h))"
  by (induction fs arbitrary: h) (auto intro: addUserFailure_window_inv [OF _ _ _ prod.collapse [symmetric]])

text \<open>Whatever failures are reported at whatever times (a clock that steps back included),
  the dedupe window keeps the recorded entries at least \<open>dedupe\<close> apart and in time order, and the
  sliding window holds so few that all but the first take less than \<open>window\<close>: at most seven with
  the defaults of 300 and 45 seconds.\<close>

lemma user_failures_bounded:
  assumes "0 < d" and "0 < window"
  shows "let kept = lh_userFailures (addUserFailures window d fs newLocalHistory) in
         spaced d kept \<and> in_order kept \<and>
         (kept \<noteq> [] \<longrightarrow> (int (length kept) - 1) * d < window)"
proof -
  have "window_inv window d (lh_userFailures (addUserFailures window d fs newLocalHistory))"
    using assms by (intro addUserFailures_window_inv)
      (simp_all add: newLocalHistory_def window_inv_def spaced_def)
  then show ?thesis
    using assms(1) window_inv_length unfolding Let_def
    by (auto simp: window_inv_def spaced_in_order)
qed

section \<open>Persistence\<close>

lemma pruneUserFailures_later:
  assumes "in_order fs" and "now \<le> later"
  shows "pruneUserFailures (pruneUserFailures fs now window) later window
           = pruneUserFailures fs later window"
proof (cases "window > 0")
  case True
  have "filter (\<lambda>f. ageWithin later (uf_at f) window \<and> ageWithin now (uf_at f) window) fs
          = filter (\<lambda>f. ageWithin later (uf_at f) window) fs"
    using assms(2) by (intro filter_cong) (auto simp: ageWithin_def)
  with True assms(1) show ?thesis
    by (simp add: pruneUserFailures_filter sorted_filter conj_commute)
qed (simp add: pruneUserFailures_no_window)

lemma hydrate_fields:
  "lh_lastSuccessDelayMs (hydrateLocalHistory (Some t) now w) = th_LastSuccessDelayMs t"
  "lh_lastOutcomeAt (hydrateLocalHistory (Some t) now w) = th_LastOutcomeAt t"
  "lh_consecutiveFailures (hydrateLocalHistory (Some t) now w) = th_ConsecutiveFailures t"
  "lh_recoveryGateStartedAt (hydrateLocalHistory (Some t) now w) = 0"
  by (simp_all add: hydrateLocalHistory_def newLocalHistory_def)

lemma hydrate_userFailures:
  "in_order (th_UserFailures t) \<Longrightarrow>
   lh_userFailures (hydrateLocalHistory (Some t) now w) = pruneUserFailures (th_UserFailures t) now w"
  by (auto simp: hydrateLocalHistory_def sort_key_id_if_sorted pruneUserFailures_def)

text \<open>Writing a history out and hydrating it later gives back the history as it would
  have aged in memory, the probe scalars unchanged and the failure window pruned to the later
  time; only the recovery gate, which is not persisted, is lost.\<close>

lemma hydrate_toTagHistory:
  assumes "in_order (lh_userFailures h)" and "now \<le> later"
  shows "hydrateLocalHistory (Some (fst (toTagHistory now p h))) later (hp_userFailureWindow p)
           = (snd (lh_snapshot later (hp_userFailureWindow p) h))\<lparr>lh_recoveryGateStartedAt := 0\<rparr>"
  using assms
  by (intro localHistory.equality)
    (simp_all add: hydrate_fields hydrate_userFailures toTagHistory_def lh_snapshot_def Let_def
      in_order_pruneUserFailures pruneUserFailures_later)

section \<open>Demotion\<close>

lemma demoted_hard_iff:
  "fst (demoted c u self alt p) \<longleftrightarrow>
     (let boosted = snd (snd (demoted c u self alt p));
          limit = (if boosted then hp_consecutiveFailLimit p * 2 else hp_consecutiveFailLimit p)
      in limit > 0 \<and> (c \<ge> limit \<or> u \<ge> limit))"
  by (simp add: demoted_def Let_def)

lemma demoted_boosted_iff:
  "snd (snd (demoted c u self alt p)) \<longleftrightarrow>
     hp_consecutiveFailLimit p > 0 \<and> self > 0 \<and> alt > self * switchPenaltyAltFactor"
  by (simp add: demoted_def Let_def)

lemma unat_double: "unat (x :: u32) < 2 ^ 31 \<Longrightarrow> unat (x * 2) = 2 * unat x"
  by (simp add: unat_word_ariths)

text \<open>More recorded failures never make a member look healthier: a member that is
  hard-demoted stays so when either count grows, one that is soft-demoted is then at least
  soft-demoted, and a member is never reported both hard- and soft-demoted.\<close>

lemma demoted_mono:
  assumes "c \<le> c'" and "u \<le> u'"
  shows "(fst (demoted c u self alt p) \<longrightarrow> fst (demoted c' u' self alt p)) \<and>
         (fst (snd (demoted c u self alt p)) \<longrightarrow>
            fst (demoted c' u' self alt p) \<or> fst (snd (demoted c' u' self alt p))) \<and>
         \<not> (fst (demoted c u self alt p) \<and> fst (snd (demoted c u self alt p)))"
  using assms by (auto simp: demoted_def Let_def dest: order_trans)

text \<open>The switch penalty. For a limit below half the 32-bit range, a member much faster
  than its best alternative is hard-demoted exactly at twice the limit, so the boost only ever
  postpones hard demotion.\<close>

lemma demoted_boost_doubles:
  assumes "unat (hp_consecutiveFailLimit p) < 2 ^ 31"
    and "0 < hp_consecutiveFailLimit p" and "0 < self" and "alt > self * switchPenaltyAltFactor"
  shows "(fst (demoted c u self alt p) \<longleftrightarrow>
            2 * unat (hp_consecutiveFailLimit p) \<le> unat c \<or> 2 * unat (hp_consecutiveFailLimit p) \<le> unat u) \<and>
         (fst (demoted c u self alt p) \<longrightarrow> fst (demoted c u 0 0 p))"
proof -
  let ?l = "hp_consecutiveFailLimit p"
  have d: "unat (?l * 2) = 2 * unat ?l" using assms(1) by (rule unat_double)
  have l0: "0 < unat ?l" using assms(2) by (simp add: word_less_nat_alt)
  have boosted: "snd (snd (demoted c u self alt p))"
    using assms(2-4) by (simp add: demoted_boosted_iff)
  have hard: "fst (demoted c u self alt p) \<longleftrightarrow> ?l * 2 > 0 \<and> (c \<ge> ?l * 2 \<or> u \<ge> ?l * 2)"
    using boosted by (subst demoted_hard_iff) (simp add: Let_def)
  have plain: "fst (demoted c u 0 0 p) \<longleftrightarrow> c \<ge> ?l \<or> u \<ge> ?l"
    using assms(2) by (subst demoted_hard_iff) (simp add: demoted_boosted_iff Let_def)
  show ?thesis
    unfolding hard plain using l0 by (auto simp: word_less_nat_alt word_le_nat_alt d)
qed

section \<open>Separate tracks and the recovery gate\<close>

datatype hist_op =
    ProbeOutcome bool u32 time
  | UserTraffic UserFailure
  | Snapshot time

fun hist_step :: "historyParams \<Rightarrow> hist_op \<Rightarrow> localHistory \<Rightarrow> localHistory" where
  "hist_step p (ProbeOutcome success delayMs now) h = recordProbe success delayMs now h"
| "hist_step p (UserTraffic f) h =
     snd (addUserFailure f (hp_userFailureWindow p) (hp_userFailureDedupeWindow p) h)"
| "hist_step p (Snapshot now) h = snd (lh_snapshot now (hp_userFailureWindow p) h)"

lemma hist_step_probe_failures [simp]:
  "lh_userFailures (recordProbe success d now h) = lh_userFailures h"
  by (simp add: recordProbe_def recordProbeSuccess_def recordProbeFailure_def Let_def)

lemma hist_step_gate:
  "lh_recoveryGateStartedAt h = t0 \<Longrightarrow>
   (\<And>d now. op = ProbeOutcome True d now \<Longrightarrow> now < t0 + recoveryGateMinDuration) \<Longrightarrow>
   lh_recoveryGateStartedAt (hist_step p op h) = t0"
  by (cases op)
    (auto simp: recordProbe_def recordProbeSuccess_def recordProbeFailure_def addUserFailure_def
      lh_snapshot_def Let_def)

lemma hist_run_gate:
  "lh_recoveryGateStartedAt h = t0 \<Longrightarrow>
   (\<forall>op \<in> set ops. \<forall>d now. op = ProbeOutcome True d now \<longrightarrow> now < t0 + recoveryGateMinDuration) \<Longrightarrow>
   lh_recoveryGateStartedAt (fold (hist_step p) ops h) = t0"
  by (induction ops arbitrary: h) (auto simp: hist_step_gate)

text \<open>A recovery gate started at \<open>t0\<close> survives any sequence of probe outcomes, user failures
  and snapshots until a probe succeeds at least five minutes after \<open>t0\<close>; such a success lifts it.
  Elapsed time alone does not.\<close>

lemma recovery_gate_lifted_only_by_late_success:
  assumes "t0 \<noteq> 0"
    and "\<forall>op \<in> set ops. \<forall>d now. op = ProbeOutcome True d now \<longrightarrow> now < t0 + recoveryGateMinDuration"
    and "t0 + recoveryGateMinDuration \<le> now"
  shows "lh_recoveryGateStartedAt (fold (hist_step p) ops (startRecoveryGate t0 h)) = t0 \<and>
         lh_recoveryGateStartedAt
           (fold (hist_step p) (ops @ [ProbeOutcome True d now]) (startRecoveryGate t0 h)) = 0"
proof -
  have gate: "lh_recoveryGateStartedAt (fold (hist_step p) ops (startRecoveryGate t0 h)) = t0"
    using assms(2) by (intro hist_run_gate) (simp_all add: startRecoveryGate_def)
  then show ?thesis
    using assms(1,3) by (simp add: recordProbe_def recordProbeSuccess_def Let_def)
qed

text \<open>The anti-laundering rule. No sequence of probe outcomes, however successful, removes a
  user-traffic failure: the window afterwards is the window before.\<close>

lemma probes_never_clear_user_failures:
  "lh_userFailures (fold (\<lambda>(ok, d, now). recordProbe ok d now) outcomes h) = lh_userFailures h"
  by (induction outcomes arbitrary: h) auto

end
