(* ===== verification/Auto_Config.thy ===== *)
theory Auto_Config
  imports Local_History
begin

text \<open>
  The configuration of the auto-select group: its options (\<open>option/group.go\<close>), their
  resolution to durations and limits, and the per-protocol probing behaviour with the
  runtime timeout overrides (\<open>mutableautoselect_protocols.go\<close> and
  \<open>SetProbeTimeouts\<close>, \<open>behavior\<close> of \<open>mutableautoselect.go\<close>).
\<close>

section \<open>Protocol behaviour\<close>

text \<open>The outbound types \<open>behaviorFor\<close> distinguishes, named after the constants its switch
  uses, some of which are sing-box's. A Go switch has no two equal labels, so the types are
  distinct constructors.\<close>

datatype outboundType =
    TypeALGeneva | TypeAmnezia | TypeHTTP | TypeHysteria | TypeHysteria2 | TypeHysteria2X
  | TypeOutline | TypeReflex | TypeSamizdat | TypeShadowsocks | TypeShadowTLS | TypeSOCKS
  | TypeSSH | TypeTor | TypeTrojan | TypeTUIC | TypeUnbounded | TypeVLESS | TypeVMess
  | TypeWireGuard | TypeOther string

record protocolBehavior =
  pb_probeTimeout :: duration
  pb_excludeFromPool :: bool
  pb_lastResort :: bool

definition probed_within :: "int \<Rightarrow> protocolBehavior" where
  "probed_within ms =
     \<lparr>pb_probeTimeout = ms * millisecond, pb_excludeFromPool = False, pb_lastResort = False\<rparr>"

definition behaviorFor :: "outboundType \<Rightarrow> protocolBehavior" where
  "behaviorFor outboundType =
     (case outboundType of
        TypeALGeneva \<Rightarrow> probed_within 3000
      | TypeAmnezia \<Rightarrow> probed_within 1500
      | TypeHTTP \<Rightarrow> probed_within 2000
      | TypeHysteria \<Rightarrow> probed_within 1500
      | TypeHysteria2 \<Rightarrow> probed_within 1500
      | TypeHysteria2X \<Rightarrow> probed_within 1500
      | TypeOutline \<Rightarrow> probed_within 10000
      | TypeReflex \<Rightarrow> probed_within 3000
      | TypeSamizdat \<Rightarrow> probed_within 3000
      | TypeShadowsocks \<Rightarrow> probed_within 2000
      | TypeShadowTLS \<Rightarrow> probed_within 3000
      | TypeSOCKS \<Rightarrow> probed_within 2000
      | TypeSSH \<Rightarrow> probed_within 3000
      | TypeTor \<Rightarrow> \<lparr>pb_probeTimeout = 0, pb_excludeFromPool = True, pb_lastResort = False\<rparr>
      | TypeTrojan \<Rightarrow> probed_within 3000
      | TypeTUIC \<Rightarrow> probed_within 1500
      | TypeUnbounded \<Rightarrow>
          \<lparr>pb_probeTimeout = 60 * second, pb_excludeFromPool = False, pb_lastResort = True\<rparr>
      | TypeVLESS \<Rightarrow> probed_within 2000
      | TypeVMess \<Rightarrow> probed_within 2000
      | TypeWireGuard \<Rightarrow> probed_within 1500
      | TypeOther _ \<Rightarrow> probed_within 2000)"

definition minProbeTimeoutOverride :: duration where
  "minProbeTimeoutOverride = 250 * millisecond"

definition maxProbeTimeoutOverride :: duration where
  "maxProbeTimeoutOverride = 60 * second"

text \<open>\<open>SetProbeTimeouts\<close>: the overrides it installs, out-of-range entries left out.\<close>

fun probeTimeoutOverrides ::
  "(outboundType, u32) gomap \<Rightarrow> (outboundType, duration) gomap \<Rightarrow> (outboundType, duration) gomap" where
  "probeTimeoutOverrides [] overrides = overrides"
| "probeTimeoutOverrides ((typ, ms) # rest) overrides =
     (let d = uint ms * millisecond in
      if d < minProbeTimeoutOverride \<or> d > maxProbeTimeoutOverride
      then probeTimeoutOverrides rest overrides
      else probeTimeoutOverrides rest (gput typ d overrides))"

definition behavior_with :: "(outboundType, duration) gomap option \<Rightarrow> outboundType \<Rightarrow> protocolBehavior" where
  "behavior_with overrides outboundType =
     (let beh = behaviorFor outboundType in
      case overrides of
        None \<Rightarrow> beh
      | Some p \<Rightarrow>
          (case gget p outboundType of
             Some d \<Rightarrow> if \<not> pb_excludeFromPool beh then beh\<lparr>pb_probeTimeout := d\<rparr> else beh
           | None \<Rightarrow> beh))"

definition probeBound :: "protocolBehavior \<Rightarrow> duration" where
  "probeBound beh = pb_probeTimeout beh + 5 * second"

text \<open>\<open>ProbeTimeoutsMs.UnmarshalJSON\<close>: \<open>decodeObject\<close> and \<open>decodeUint32\<close> are the JSON
  package's decoders of an object's raw members and of a \<open>*uint32\<close> (\<open>Some None\<close> for null).
  The result \<open>None\<close> is the nil map.\<close>

definition ProbeTimeoutsMs_UnmarshalJSON ::
  "('b \<Rightarrow> (string, 'b) gomap option) \<Rightarrow> ('b \<Rightarrow> u32 option option) \<Rightarrow> 'b \<Rightarrow> (string, u32) gomap option" where
  "ProbeTimeoutsMs_UnmarshalJSON decodeObject decodeUint32 b =
     (case decodeObject b of
        None \<Rightarrow> None
      | Some raw \<Rightarrow>
          Some (fold (\<lambda>(typ, v) out.
                  case decodeUint32 v of
                    Some (Some ms) \<Rightarrow> gput typ ms out
                  | _ \<Rightarrow> out) raw []))"

section \<open>Options and their resolution\<close>

record MutableAutoSelectOutboundOptions =
  op_Outbounds :: "tag list"
  op_URL :: string
  op_URLOverrides :: "(tag, string) gomap"
  op_ProbeTimeoutsMs :: "(outboundType, u32) gomap"
  op_SwitchToleranceMs :: u32
  op_SwitchTolerancePercent :: "u32 option"
  op_ConsecutiveFailureLimit :: u32
  op_SoftDemoteLimit :: u32
  op_UserFailureWindowSeconds :: u32
  op_UserFailureDedupeWindowSeconds :: u32
  op_MaxPersistedAgeSeconds :: u32
  op_BackgroundIntervalSeconds :: u32
  op_IdleThresholdSeconds :: u32
  op_LadderTotalBudgetSeconds :: u32
  op_LadderCooldownSeconds :: u32
  op_ConfirmedFailureSwitchCooldownSeconds :: u32
  op_DataPlaneIdleSeconds :: u32
  op_DataPlaneProvedReadBytes :: u32
  op_DemoteOnlySelectedTag :: "bool option"
  op_ProbeConcurrency :: u32

record mutableAutoSelectConfig =
  cf_switchTolerance :: duration
  cf_switchTolerancePercent :: u32
  cf_activeInterval :: duration
  cf_idleThreshold :: duration
  cf_ladderTotalBudget :: duration
  cf_ladderCooldown :: duration
  cf_confirmedFailureSwitchCooldown :: duration
  cf_dataPlaneIdle :: duration
  cf_dataPlaneFirstResponseTimeout :: duration
  cf_dataPlaneProvedRead :: nat
  cf_demoteOnlySelected :: bool
  cf_maxPersistedAge :: duration
  cf_probeConcurrency :: int

definition defaultDataPlaneIdle :: duration where
  "defaultDataPlaneIdle = 60 * second"

definition defaultDataPlaneProvedReadBytes :: nat where
  "defaultDataPlaneProvedReadBytes = 4096"

definition defaultMaxPersistedAge :: duration where
  "defaultMaxPersistedAge = 15 * minute"

definition defaultProbeConcurrency :: int where
  "defaultProbeConcurrency = 6"

definition defaultSwitchTolerance :: duration where
  "defaultSwitchTolerance = 100 * millisecond"

definition defaultSwitchTolerancePercent :: u32 where
  "defaultSwitchTolerancePercent = 30"

definition defaultConfirmedFailureSwitchCooldown :: duration where
  "defaultConfirmedFailureSwitchCooldown = minute"

definition defaultFirstResponseTimeout :: duration where
  "defaultFirstResponseTimeout = 10 * second"

lemmas config_default_defs =
  defaultDataPlaneIdle_def defaultDataPlaneProvedReadBytes_def defaultMaxPersistedAge_def
  defaultProbeConcurrency_def defaultSwitchTolerance_def defaultSwitchTolerancePercent_def
  defaultConfirmedFailureSwitchCooldown_def defaultFirstResponseTimeout_def

definition or_default :: "'a \<Rightarrow> 'a::zero \<Rightarrow> 'a" where
  "or_default d x = (if x = 0 then d else x)"

definition resolveMutableAutoSelectOptions ::
  "MutableAutoSelectOutboundOptions \<Rightarrow> mutableAutoSelectConfig \<times> historyParams" where
  "resolveMutableAutoSelectOptions opts =
     (\<lparr>cf_switchTolerance =
         or_default defaultSwitchTolerance (uint (op_SwitchToleranceMs opts) * millisecond),
       cf_switchTolerancePercent =
         (case op_SwitchTolerancePercent opts of
            None \<Rightarrow> defaultSwitchTolerancePercent | Some p \<Rightarrow> p),
       cf_activeInterval =
         or_default (180 * second) (uint (op_BackgroundIntervalSeconds opts) * second),
       cf_idleThreshold =
         or_default (900 * second) (uint (op_IdleThresholdSeconds opts) * second),
       cf_ladderTotalBudget =
         or_default (15 * second) (uint (op_LadderTotalBudgetSeconds opts) * second),
       cf_ladderCooldown =
         or_default minute (uint (op_LadderCooldownSeconds opts) * second),
       cf_confirmedFailureSwitchCooldown =
         or_default defaultConfirmedFailureSwitchCooldown
           (uint (op_ConfirmedFailureSwitchCooldownSeconds opts) * second),
       cf_dataPlaneIdle =
         or_default defaultDataPlaneIdle (uint (op_DataPlaneIdleSeconds opts) * second),
       cf_dataPlaneFirstResponseTimeout = defaultFirstResponseTimeout,
       cf_dataPlaneProvedRead =
         or_default defaultDataPlaneProvedReadBytes (unat (op_DataPlaneProvedReadBytes opts)),
       cf_demoteOnlySelected =
         (case op_DemoteOnlySelectedTag opts of None \<Rightarrow> True | Some b \<Rightarrow> b),
       cf_maxPersistedAge =
         or_default defaultMaxPersistedAge (uint (op_MaxPersistedAgeSeconds opts) * second),
       cf_probeConcurrency =
         or_default defaultProbeConcurrency (uint (op_ProbeConcurrency opts))\<rparr>,
      \<lparr>hp_consecutiveFailLimit =
         (if op_ConsecutiveFailureLimit opts > 0 then op_ConsecutiveFailureLimit opts
          else hp_consecutiveFailLimit defaultHistoryParams),
       hp_softFailLimit =
         (if op_SoftDemoteLimit opts > 0 then op_SoftDemoteLimit opts
          else hp_softFailLimit defaultHistoryParams),
       hp_userFailureWindow =
         (if op_UserFailureWindowSeconds opts > 0 then uint (op_UserFailureWindowSeconds opts) * second
          else hp_userFailureWindow defaultHistoryParams),
       hp_userFailureDedupeWindow =
         (if op_UserFailureDedupeWindowSeconds opts > 0
          then uint (op_UserFailureDedupeWindowSeconds opts) * second
          else hp_userFailureDedupeWindow defaultHistoryParams)\<rparr>)"

section \<open>Well-formed configurations\<close>

definition positive_threshold :: "duration \<Rightarrow> bool" where
  "positive_threshold d \<longleftrightarrow> 0 < d \<and> threshold d"

definition config_wf :: "mutableAutoSelectConfig \<Rightarrow> bool" where
  "config_wf c \<longleftrightarrow>
     list_all positive_threshold
       [cf_switchTolerance c, cf_activeInterval c, cf_idleThreshold c, cf_ladderTotalBudget c,
        cf_ladderCooldown c, cf_confirmedFailureSwitchCooldown c, cf_dataPlaneIdle c,
        cf_dataPlaneFirstResponseTimeout c, cf_maxPersistedAge c] \<and>
     0 < cf_dataPlaneProvedRead c \<and> 0 < cf_probeConcurrency c"

definition params_wf :: "historyParams \<Rightarrow> bool" where
  "params_wf p \<longleftrightarrow>
     0 < hp_consecutiveFailLimit p \<and> 0 < hp_softFailLimit p \<and>
     positive_threshold (hp_userFailureWindow p) \<and> positive_threshold (hp_userFailureDedupeWindow p)"

lemma or_default_seconds:
  "positive_threshold d \<Longrightarrow> positive_threshold (or_default d (uint (x :: u32) * second))"
  using uint_lt2p [of x]
  by (auto simp: or_default_def positive_threshold_def threshold_def max_duration_def time_units
      less_le)

lemma or_default_millis:
  "positive_threshold d \<Longrightarrow> positive_threshold (or_default d (uint (x :: u32) * millisecond))"
  using uint_lt2p [of x]
  by (auto simp: or_default_def positive_threshold_def threshold_def max_duration_def time_units
      less_le)

lemma or_default_pos_int: "0 < d \<Longrightarrow> 0 < or_default d (uint (x :: u32))"
  using uint_ge_0 [of x] by (auto simp: or_default_def less_le)

lemma or_default_pos_nat: "0 < d \<Longrightarrow> 0 < or_default d (unat (x :: u32))"
  by (simp add: or_default_def)

lemma seconds_threshold: "0 < (x :: u32) \<Longrightarrow> positive_threshold (uint x * second)"
  using or_default_seconds [of 1 x]
  by (auto simp: or_default_def positive_threshold_def threshold_def max_duration_def time_units
      word_less_def split: if_splits)

text \<open>C32: whatever the options, the resolved configuration is usable: every duration is
  positive and a 64-bit number of nanoseconds (so the conversion from 32-bit seconds does not
  overflow), the probe concurrency and the byte threshold are positive, and so are the limits
  and windows of the demotion rule; zero means the default.\<close>

theorem resolved_options_wf:
  "config_wf (fst (resolveMutableAutoSelectOptions opts)) \<and>
   params_wf (snd (resolveMutableAutoSelectOptions opts))"
proof
  have defaults: "positive_threshold defaultSwitchTolerance" "positive_threshold (180 * second)"
    "positive_threshold (900 * second)" "positive_threshold (15 * second)" "positive_threshold minute"
    "positive_threshold defaultConfirmedFailureSwitchCooldown" "positive_threshold defaultDataPlaneIdle"
    "positive_threshold defaultFirstResponseTimeout" "positive_threshold defaultMaxPersistedAge"
    "positive_threshold defaultUserFailureWindow" "positive_threshold defaultUserFailureDedupeWindow"
    by (simp_all add: positive_threshold_def threshold_def max_duration_def time_units
        config_default_defs history_param_defs)
  show "config_wf (fst (resolveMutableAutoSelectOptions opts))"
    unfolding config_wf_def resolveMutableAutoSelectOptions_def
    by (simp add: defaults or_default_seconds or_default_millis or_default_pos_int
        or_default_pos_nat defaultProbeConcurrency_def defaultDataPlaneProvedReadBytes_def)
  show "params_wf (snd (resolveMutableAutoSelectOptions opts))"
    unfolding params_wf_def resolveMutableAutoSelectOptions_def
    by (simp add: seconds_threshold defaults defaultHistoryParams_def defaultConsecutiveFailLimit_def
        defaultSoftFailLimit_def)
qed

section \<open>Behaviour under overrides\<close>

lemma behaviorFor_timeout:
  "\<not> pb_excludeFromPool (behaviorFor ty) \<Longrightarrow>
   0 < pb_probeTimeout (behaviorFor ty) \<and> pb_probeTimeout (behaviorFor ty) \<le> maxProbeTimeoutOverride"
  by (cases ty) (simp_all add: behaviorFor_def probed_within_def maxProbeTimeoutOverride_def time_units)

lemma probeTimeoutOverrides_range:
  "(\<And>ty d. gget acc ty = Some d \<Longrightarrow> minProbeTimeoutOverride \<le> d \<and> d \<le> maxProbeTimeoutOverride) \<Longrightarrow>
   gget (probeTimeoutOverrides ms acc) ty = Some d \<Longrightarrow>
   minProbeTimeoutOverride \<le> d \<and> d \<le> maxProbeTimeoutOverride"
proof (induction ms acc rule: probeTimeoutOverrides.induct)
  case (2 ty0 ms rest acc)
  show ?case
  proof (cases "uint ms * millisecond < minProbeTimeoutOverride \<or>
                uint ms * millisecond > maxProbeTimeoutOverride")
    case True
    with 2 show ?thesis by (simp add: Let_def)
  next
    case False
    then have "gget (gput ty0 (uint ms * millisecond) acc) ty' = Some d' \<Longrightarrow>
      minProbeTimeoutOverride \<le> d' \<and> d' \<le> maxProbeTimeoutOverride" for ty' d'
      using "2.prems"(1) by (auto split: if_splits)
    with False 2 show ?thesis by (simp add: Let_def)
  qed
qed auto

lemma behavior_with_flags [simp]:
  "pb_excludeFromPool (behavior_with ov ty) = pb_excludeFromPool (behaviorFor ty)"
  "pb_lastResort (behavior_with ov ty) = pb_lastResort (behaviorFor ty)"
  by (auto simp: behavior_with_def Let_def split: option.splits)

text \<open>No set of timeout overrides a server sends can make a pool member's probe
  unusable: its timeout stays positive and at most 60 seconds, an override outside 250 ms to
  60 s is ignored, and the override never changes which protocols are excluded or kept as a
  last resort.\<close>

lemma probe_timeout_overrides_safe:
  assumes "\<not> pb_excludeFromPool (behaviorFor ty)"
  shows "let beh = behavior_with (Some (probeTimeoutOverrides ms [])) ty in
         0 < pb_probeTimeout beh \<and> pb_probeTimeout beh \<le> maxProbeTimeoutOverride \<and>
         (pb_probeTimeout beh < minProbeTimeoutOverride \<longrightarrow> beh = behaviorFor ty) \<and>
         \<not> pb_excludeFromPool beh \<and> pb_lastResort beh = pb_lastResort (behaviorFor ty)"
  using assms behaviorFor_timeout [OF assms] probeTimeoutOverrides_range [of "[]" ms ty]
  by (auto simp: behavior_with_def Let_def minProbeTimeoutOverride_def time_units split: option.splits)

end
