(* ===== verification/Auto_State.thy ===== *)
theory Auto_State
  imports Auto_Config
begin

text \<open>
  The state of the auto-select group (\<open>MutableAutoSelect\<close> of \<open>mutableautoselect.go\<close> and the
  probe bookkeeping types of \<open>mutableautoselect_scheduler.go\<close>), what a critical section
  observes of its surroundings, and the small accessors every other part uses.
\<close>

section \<open>What a critical section observes\<close>

text \<open>
  Everything the group does to its state happens with \<open>s.access\<close> held. A critical section
  reads the clock and the pause manager; both are arguments: \<open>ev_now\<close> is what \<open>time.Now\<close>
  returns throughout the section and \<open>ev_pause\<close> the device and network flags of the pause
  manager, \<open>None\<close> when the context carries none.
\<close>

record env =
  ev_now :: time
  ev_pause :: "(bool \<times> bool) option"

definition paused :: "env \<Rightarrow> bool" where
  "paused e = (case ev_pause e of None \<Rightarrow> False | Some (device, network) \<Rightarrow> device \<or> network)"

section \<open>Members and probe bookkeeping\<close>

text \<open>An \<open>adapter.Outbound\<close>: \<open>ob_id\<close> is the object's identity, so that two objects created
  under one tag differ.\<close>

record outbound =
  ob_id :: nat
  ob_tag :: tag
  ob_type :: outboundType
  ob_network :: "string list"

datatype probeNeed = probeNotNeeded | probeIfStale | probeForced

fun need_rank :: "probeNeed \<Rightarrow> nat" where
  "need_rank probeNotNeeded = 0"
| "need_rank probeIfStale = 1"
| "need_rank probeForced = 2"

instantiation probeNeed :: linorder
begin

definition less_eq_probeNeed :: "probeNeed \<Rightarrow> probeNeed \<Rightarrow> bool" where
  "less_eq_probeNeed a b \<longleftrightarrow> need_rank a \<le> need_rank b"

definition less_probeNeed :: "probeNeed \<Rightarrow> probeNeed \<Rightarrow> bool" where
  "less_probeNeed a b \<longleftrightarrow> need_rank a < need_rank b"

instance
proof
  fix x y :: probeNeed
  show "x \<le> y \<Longrightarrow> y \<le> x \<Longrightarrow> x = y"
    by (cases x; cases y) (simp_all add: less_eq_probeNeed_def)
qed (auto simp: less_eq_probeNeed_def less_probeNeed_def)

end

lemmas need_order = less_eq_probeNeed_def less_probeNeed_def

lemma probeNotNeeded_least [simp]: "probeNotNeeded \<le> n"
  by (simp add: need_order)

record probeOutcome =
  po_sequence :: nat
  po_success :: bool
  po_delayMs :: u32
  po_completed :: time
  po_generation :: nat
  po_url :: string
  po_lastResort :: bool

record memberProbeState =
  ms_membershipID :: nat
  ms_need :: probeNeed
  ms_confirmationPending :: bool
  ms_confirmSequence :: nat
  ms_replacement :: tag
  ms_outcome :: "probeOutcome option"

text \<open>A running attempt. The goroutine and the watchdog name it by its outbound and its
  sequence number, which no other attempt has.\<close>

record probeAttempt =
  pa_sequence :: nat
  pa_tag :: tag
  pa_outbound :: outbound
  pa_membershipID :: nat
  pa_generation :: nat
  pa_url :: string
  pa_deadline :: time
  pa_lastResort :: bool
  pa_finalized :: bool
  pa_stuck :: bool
  pa_holdsSlot :: bool
  pa_canceled :: bool
  pa_watchdogStopped :: bool

record probeWaitMember =
  wm_membershipID :: nat
  wm_fresh :: "probeOutcome option"

text \<open>\<open>pw_deadline = 0\<close> is the zero time, \<open>pw_successes\<close> is \<open>Some\<close> for a URL-test waiter only.\<close>

record probeWaiter =
  pw_source :: string
  pw_evaluated :: bool
  pw_counted :: bool
  pw_successes :: "(tag, probeOutcome) gomap option"
  pw_sequence :: nat
  pw_generation :: nat
  pw_pauseEpoch :: nat
  pw_members :: "(tag, probeWaitMember) gomap"
  pw_deadline :: time
  pw_timer :: bool

section \<open>The group\<close>

text \<open>
  One field per field of \<open>MutableAutoSelect\<close> that the group writes after construction, and its
  configuration. \<open>m_closed\<close> is \<open>s.ctx.Done()\<close>; \<open>m_probeChanged\<close> counts how often the
  notification channel was closed and replaced; \<open>m_exhaustion\<close> is whether the one-slot channel
  holds a signal; timers are the times they are armed for; \<open>m_urlWaiters\<close> names waiters by
  numbers. The 64-bit counters (sequence, generation, membership) are natural numbers.
\<close>

record mas =
  m_closed :: bool
  m_tags :: "tag list"
  m_members :: "(tag, outbound) gomap"
  m_urlOverrides :: "(tag, string) gomap"
  m_defaultURL :: string
  m_probeTimeouts :: "(outboundType, duration) gomap option"
  m_histories :: "(tag, localHistory) gomap"
  m_cfg :: mutableAutoSelectConfig
  m_hist :: historyParams
  m_history :: "hstore option"
  m_stickyTcp :: tag
  m_stickyUdp :: tag
  m_probeMembers :: "(tag, memberProbeState) gomap"
  m_inFlight :: "(outbound, probeAttempt) gomap"
  m_slotsUsed :: int
  m_sequence :: nat
  m_nextMembershipID :: nat
  m_probeChanged :: nat
  m_periodicWaiter :: "probeWaiter option"
  m_urlWaiters :: "(nat, probeWaiter) gomap"
  m_nextWaiter :: nat
  m_ladderWaiter :: "probeWaiter option"
  m_periodicTimer :: "time option"
  m_idleTimer :: "time option"
  m_pauseEpoch :: nat
  m_pauseCallback :: bool
  m_lastLadderAt :: int
  m_lastNetworkAdvanceAt :: time
  m_exhaustion :: bool
  m_switchAt :: time
  m_switchTag :: tag
  m_lastActive :: time
  m_probing :: bool
  m_lastDataAt :: int
  m_generation :: nat
  m_started :: bool

definition isClosed :: "mas \<Rightarrow> bool" where
  "isClosed s = m_closed s"

definition probeLimit :: "mas \<Rightarrow> int" where
  "probeLimit s = cf_probeConcurrency (m_cfg s)"

definition SetProbeTimeouts :: "(outboundType, u32) gomap \<Rightarrow> mas \<Rightarrow> mas" where
  "SetProbeTimeouts timeoutsMs s =
     s\<lparr>m_probeTimeouts := Some (probeTimeoutOverrides timeoutsMs [])\<rparr>"

definition behavior :: "mas \<Rightarrow> outboundType \<Rightarrow> protocolBehavior" where
  "behavior s ty = behavior_with (m_probeTimeouts s) ty"

definition matchesGenerationLocked :: "nat \<Rightarrow> mas \<Rightarrow> bool" where
  "matchesGenerationLocked generation s \<longleftrightarrow> generation = m_generation s"

definition probeURLForLocked :: "tag \<Rightarrow> mas \<Rightarrow> string" where
  "probeURLForLocked tag s =
     (case gget (m_urlOverrides s) tag of
        Some u \<Rightarrow> if u \<noteq> '''' then u else m_defaultURL s
      | None \<Rightarrow> m_defaultURL s)"

definition stuckProbeLocked :: "outbound \<Rightarrow> mas \<Rightarrow> bool" where
  "stuckProbeLocked out s =
     (case gget (m_inFlight s) out of None \<Rightarrow> False | Some attempt \<Rightarrow> pa_stuck attempt)"

definition sameMembershipLocked :: "tag \<Rightarrow> nat \<Rightarrow> mas \<Rightarrow> bool" where
  "sameMembershipLocked tag membershipID s =
     (case gget (m_probeMembers s) tag of
        None \<Rightarrow> False | Some state \<Rightarrow> ms_membershipID state = membershipID)"

definition scopeCurrentLocked :: "tag \<Rightarrow> string \<Rightarrow> nat \<Rightarrow> bool \<Rightarrow> mas \<Rightarrow> bool" where
  "scopeCurrentLocked tag url generation lastResort s \<longleftrightarrow>
     url = probeURLForLocked tag s \<and> (lastResort \<or> matchesGenerationLocked generation s)"

definition outcomeCurrentLocked :: "tag \<Rightarrow> probeOutcome \<Rightarrow> mas \<Rightarrow> bool" where
  "outcomeCurrentLocked tag oc s \<longleftrightarrow>
     scopeCurrentLocked tag (po_url oc) (po_generation oc) (po_lastResort oc) s"

definition probeFreshnessWindow :: duration where
  "probeFreshnessWindow = 30 * second"

definition hasFreshProbeOutcomeLocked :: "tag \<Rightarrow> time \<Rightarrow> mas \<Rightarrow> bool" where
  "hasFreshProbeOutcomeLocked tag now s =
     (case gget (m_probeMembers s) tag of
        None \<Rightarrow> False
      | Some state \<Rightarrow>
          (case ms_outcome state of
             None \<Rightarrow> False
           | Some oc \<Rightarrow> now - po_completed oc < probeFreshnessWindow \<and> outcomeCurrentLocked tag oc s))"

definition notifyProbesLocked :: "mas \<Rightarrow> mas" where
  "notifyProbesLocked s = s\<lparr>m_probeChanged := m_probeChanged s + 1\<rparr>"

definition clearStickyTagLocked :: "tag \<Rightarrow> mas \<Rightarrow> mas" where
  "clearStickyTagLocked tag s =
     (let s = (if m_stickyTcp s = tag then s\<lparr>m_stickyTcp := ''''\<rparr> else s) in
      if m_stickyUdp s = tag then s\<lparr>m_stickyUdp := ''''\<rparr> else s)"

definition Now :: "mas \<Rightarrow> tag" where
  "Now s = (if m_stickyTcp s \<noteq> '''' then m_stickyTcp s else m_stickyUdp s)"

definition historyForLocked :: "tag \<Rightarrow> mas \<Rightarrow> localHistory" where
  "historyForLocked tag s =
     (case gget (m_histories s) tag of None \<Rightarrow> newLocalHistory | Some h \<Rightarrow> h)"

text \<open>\<open>mutateHistoryLocked\<close>: \<open>historyForLocked\<close> enters a fresh history when there is none, even
  when the mutation then reports no change; a change is persisted.\<close>

definition mutateHistoryLocked ::
  "env \<Rightarrow> tag \<Rightarrow> (localHistory \<Rightarrow> time \<Rightarrow> bool \<times> localHistory) \<Rightarrow> mas \<Rightarrow> bool \<times> mas" where
  "mutateHistoryLocked e tag fn s =
     (case fn (historyForLocked tag s) (ev_now e) of
        (changed, h) \<Rightarrow>
          if \<not> changed then (False, s\<lparr>m_histories := gput tag h (m_histories s)\<rparr>)
          else (case m_history s of
                  None \<Rightarrow> (True, s\<lparr>m_histories := gput tag h (m_histories s)\<rparr>)
                | Some store \<Rightarrow>
                    let (t, h') = toTagHistory (ev_now e) (m_hist s) h in
                    (True, s\<lparr>m_histories := gput tag h' (m_histories s),
                            m_history := Some (hs_Store tag (Some t) store)\<rparr>)))"

definition mutateHistory ::
  "env \<Rightarrow> tag \<Rightarrow> nat \<Rightarrow> (localHistory \<Rightarrow> time \<Rightarrow> bool \<times> localHistory) \<Rightarrow> mas \<Rightarrow> bool \<times> mas" where
  "mutateHistory e tag generation fn s =
     (if gget (m_members s) tag = None then (False, s)
      else if \<not> matchesGenerationLocked generation s then (False, s)
      else mutateHistoryLocked e tag fn s)"

definition recordUserFailure :: "env \<Rightarrow> tag \<Rightarrow> UserFailureKind \<Rightarrow> nat \<Rightarrow> mas \<Rightarrow> bool \<times> mas" where
  "recordUserFailure e tag kind generation s =
     mutateHistory e tag generation
       (\<lambda>h now. addUserFailure \<lparr>uf_at = now, uf_kind = kind\<rparr>
                  (hp_userFailureWindow (m_hist s)) (hp_userFailureDedupeWindow (m_hist s)) h) s"

definition addProbeMemberLocked :: "tag \<Rightarrow> mas \<Rightarrow> mas" where
  "addProbeMemberLocked tag s =
     (if gget (m_probeMembers s) tag = None
      then let next = m_nextMembershipID s + 1 in
           s\<lparr>m_nextMembershipID := next,
             m_probeMembers := gput tag
               \<lparr>ms_membershipID = next, ms_need = probeNotNeeded, ms_confirmationPending = False,
                ms_confirmSequence = 0, ms_replacement = '''', ms_outcome = None\<rparr> (m_probeMembers s)\<rparr>
      else s)"

definition hydrateHistoryLocked :: "env \<Rightarrow> tag \<Rightarrow> mas \<Rightarrow> mas" where
  "hydrateHistoryLocked e tag s =
     (case gget (m_histories s) tag of
        Some _ \<Rightarrow> s
      | None \<Rightarrow>
          (case m_history s of
             None \<Rightarrow> s
           | Some store \<Rightarrow>
               (case hs_Load store tag of
                  None \<Rightarrow> s
                | Some snap \<Rightarrow>
                    if th_UpdatedAt snap \<noteq> 0 \<and>
                       ev_now e - th_UpdatedAt snap > cf_maxPersistedAge (m_cfg s)
                    then s\<lparr>m_history := Some (hs_Delete tag store)\<rparr>
                    else s\<lparr>m_histories := gput tag
                            (hydrateLocalHistory (Some snap) (ev_now e) (hp_userFailureWindow (m_hist s)))
                            (m_histories s)\<rparr>)))"

definition addMemberLocked :: "env \<Rightarrow> tag \<Rightarrow> outbound \<Rightarrow> mas \<Rightarrow> mas" where
  "addMemberLocked e tag out s =
     addProbeMemberLocked tag
       (hydrateHistoryLocked e tag (s\<lparr>m_members := gput tag out (m_members s)\<rparr>))"

definition noteDataActivity :: "time \<Rightarrow> mas \<Rightarrow> mas" where
  "noteDataActivity now s =
     (let n = unix_nano now in
      if n - m_lastDataAt s \<ge> second then s\<lparr>m_lastDataAt := n\<rparr> else s)"

definition emitExhaustionLocked :: "mas \<Rightarrow> mas" where
  "emitExhaustionLocked s = (if isClosed s then s else s\<lparr>m_exhaustion := True\<rparr>)"

section \<open>Construction\<close>

text \<open>The errors the group returns.\<close>

datatype groupError =
    ErrTolerancePercent u32
  | ErrGroupClosed
  | ErrOutboundNotFound tag
  | ErrOutboundsNotFound "tag list"
  | ErrNetworkNotSupported string
  | ErrNoOutbound
  | ErrDial

text \<open>The options as Go's zero value, from which every default is resolved.\<close>

definition zeroOptions :: MutableAutoSelectOutboundOptions where
  "zeroOptions =
     \<lparr>op_Outbounds = [], op_URL = '''', op_URLOverrides = [], op_ProbeTimeoutsMs = [],
      op_SwitchToleranceMs = 0, op_SwitchTolerancePercent = None, op_ConsecutiveFailureLimit = 0,
      op_SoftDemoteLimit = 0, op_UserFailureWindowSeconds = 0, op_UserFailureDedupeWindowSeconds = 0,
      op_MaxPersistedAgeSeconds = 0, op_BackgroundIntervalSeconds = 0, op_IdleThresholdSeconds = 0,
      op_LadderTotalBudgetSeconds = 0, op_LadderCooldownSeconds = 0,
      op_ConfirmedFailureSwitchCooldownSeconds = 0, op_DataPlaneIdleSeconds = 0,
      op_DataPlaneProvedReadBytes = 0, op_DemoteOnlySelectedTag = None, op_ProbeConcurrency = 0\<rparr>"

definition resolveHistoryStorage :: "hstore option \<Rightarrow> hstore" where
  "resolveHistoryStorage ctx =
     (case ctx of Some h \<Rightarrow> h | None \<Rightarrow> NewAutoSelectHistoryStorage)"

text \<open>The struct literal of \<open>NewMutableAutoSelect\<close> with \<open>initProbeState\<close>; fields it does not name
  have Go's zero values.\<close>

definition newGroup :: "hstore option \<Rightarrow> MutableAutoSelectOutboundOptions \<Rightarrow> mas" where
  "newGroup ctxHistory opts =
     (let (cfg, hp) = resolveMutableAutoSelectOptions opts in
      \<lparr>m_closed = False, m_tags = op_Outbounds opts, m_members = [],
       m_urlOverrides = op_URLOverrides opts, m_defaultURL = op_URL opts, m_probeTimeouts = None,
       m_histories = [], m_cfg = cfg, m_hist = hp,
       m_history = Some (resolveHistoryStorage ctxHistory), m_stickyTcp = '''', m_stickyUdp = '''',
       m_probeMembers = [], m_inFlight = [], m_slotsUsed = 0, m_sequence = 0, m_nextMembershipID = 0,
       m_probeChanged = 0, m_periodicWaiter = None, m_urlWaiters = [], m_nextWaiter = 0,
       m_ladderWaiter = None, m_periodicTimer = None, m_idleTimer = None, m_pauseEpoch = 0,
       m_pauseCallback = False, m_lastLadderAt = 0, m_lastNetworkAdvanceAt = 0, m_exhaustion = False,
       m_switchAt = 0, m_switchTag = '''', m_lastActive = 0, m_probing = False, m_lastDataAt = 0,
       m_generation = 0, m_started = False\<rparr>)"

lemma newGroup_sel [simp]:
  "m_closed (newGroup c opts) = False" "m_tags (newGroup c opts) = op_Outbounds opts"
  "m_members (newGroup c opts) = []" "m_urlOverrides (newGroup c opts) = op_URLOverrides opts"
  "m_defaultURL (newGroup c opts) = op_URL opts" "m_probeTimeouts (newGroup c opts) = None"
  "m_histories (newGroup c opts) = []"
  "m_cfg (newGroup c opts) = fst (resolveMutableAutoSelectOptions opts)"
  "m_hist (newGroup c opts) = snd (resolveMutableAutoSelectOptions opts)"
  "m_history (newGroup c opts) = Some (resolveHistoryStorage c)"
  "m_stickyTcp (newGroup c opts) = ''''" "m_stickyUdp (newGroup c opts) = ''''"
  "m_probeMembers (newGroup c opts) = []" "m_inFlight (newGroup c opts) = []"
  "m_slotsUsed (newGroup c opts) = 0" "m_sequence (newGroup c opts) = 0"
  "m_nextMembershipID (newGroup c opts) = 0" "m_periodicWaiter (newGroup c opts) = None"
  "m_urlWaiters (newGroup c opts) = []" "m_nextWaiter (newGroup c opts) = 0"
  "m_ladderWaiter (newGroup c opts) = None" "m_periodicTimer (newGroup c opts) = None"
  "m_idleTimer (newGroup c opts) = None" "m_pauseEpoch (newGroup c opts) = 0"
  "m_pauseCallback (newGroup c opts) = False" "m_exhaustion (newGroup c opts) = False"
  "m_lastLadderAt (newGroup c opts) = 0" "m_switchAt (newGroup c opts) = 0"
  "m_switchTag (newGroup c opts) = ''''" "m_probing (newGroup c opts) = False"
  "m_generation (newGroup c opts) = 0" "m_started (newGroup c opts) = False"
  by (simp_all add: newGroup_def Let_def case_prod_unfold)

definition registerProbePauseCallback :: "env \<Rightarrow> mas \<Rightarrow> mas" where
  "registerProbePauseCallback e s =
     (if m_pauseCallback s \<or> isClosed s \<or> ev_pause e = None then s
      else s\<lparr>m_pauseCallback := True\<rparr>)"

definition unregisterProbePauseCallback :: "mas \<Rightarrow> mas" where
  "unregisterProbePauseCallback s =
     (if m_pauseCallback s then s\<lparr>m_pauseCallback := False\<rparr> else s)"

definition NewMutableAutoSelect ::
  "env \<Rightarrow> hstore option \<Rightarrow> MutableAutoSelectOutboundOptions \<Rightarrow> groupError + mas" where
  "NewMutableAutoSelect e ctxHistory opts =
     (case op_SwitchTolerancePercent opts of
        Some p \<Rightarrow>
          if p > 100 then Inl (ErrTolerancePercent p)
          else Inr (SetProbeTimeouts (op_ProbeTimeoutsMs opts)
                     (registerProbePauseCallback e (newGroup ctxHistory opts)))
      | None \<Rightarrow>
          Inr (SetProbeTimeouts (op_ProbeTimeoutsMs opts)
                (registerProbePauseCallback e (newGroup ctxHistory opts))))"

end
