(* ===== verification/Auto_Rank.thy ===== *)
theory Auto_Rank
  imports Auto_State "HOL-Library.Multiset" "HOL-Library.Sublist"
begin

text \<open>
  Ranking and choosing members: \<open>rankLocked\<close>, \<open>splitHealthyForLocked\<close>,
  \<open>applyStickiness\<close>, \<open>beatsOnDelay\<close> and the replacement search of
  \<open>mutableautoselect.go\<close>.
\<close>

section \<open>Demotion tiers\<close>

datatype demoteLevel = demoteClean | demoteSoft | demoteLastResort | demoteHard

fun level_rank :: "demoteLevel \<Rightarrow> nat" where
  "level_rank demoteClean = 0"
| "level_rank demoteSoft = 1"
| "level_rank demoteLastResort = 2"
| "level_rank demoteHard = 3"

instantiation demoteLevel :: linorder
begin

definition less_eq_demoteLevel :: "demoteLevel \<Rightarrow> demoteLevel \<Rightarrow> bool" where
  "less_eq_demoteLevel a b \<longleftrightarrow> level_rank a \<le> level_rank b"

definition less_demoteLevel :: "demoteLevel \<Rightarrow> demoteLevel \<Rightarrow> bool" where
  "less_demoteLevel a b \<longleftrightarrow> level_rank a < level_rank b"

instance
proof
  fix x y :: demoteLevel
  show "x \<le> y \<Longrightarrow> y \<le> x \<Longrightarrow> x = y"
    by (cases x; cases y) (simp_all add: less_eq_demoteLevel_def)
qed (auto simp: less_eq_demoteLevel_def less_demoteLevel_def)

end

lemmas level_order = less_eq_demoteLevel_def less_demoteLevel_def

lemma level_extremes [simp]: "demoteClean \<le> l" "l \<le> demoteHard"
  by (cases l; simp add: level_order)+

lemma level_strict [simp]:
  "demoteSoft \<le> l \<longleftrightarrow> l \<noteq> demoteClean"
  "l < demoteHard \<longleftrightarrow> l \<noteq> demoteHard"
  "l < demoteLastResort \<longleftrightarrow> l = demoteClean \<or> l = demoteSoft"
  by (cases l; simp add: level_order)+

section \<open>Candidates\<close>

record rankedCandidate =
  rc_outbound :: outbound
  rc_tag :: tag
  rc_delayMs :: u32
  rc_demote :: demoteLevel
  rc_userFails :: u32
  rc_lastResort :: bool
  rc_hasRecoveryGate :: bool

record preCandidate =
  pc_o :: outbound
  pc_tag :: tag
  pc_delayMs :: u32
  pc_consec :: u32
  pc_userFails :: u32
  pc_lastResort :: bool
  pc_hasRecoveryGate :: bool

text \<open>A member's state before demotion: from its in-memory history, whose window is pruned in
  place, or from the persisted snapshot when there is none.\<close>

definition preCandidateFor ::
  "time \<Rightarrow> tag \<Rightarrow> outbound \<Rightarrow> bool \<Rightarrow> mas \<Rightarrow> preCandidate \<times> mas" where
  "preCandidateFor now tag o' lastResort s =
     (case gget (m_histories s) tag of
        Some h \<Rightarrow>
          (case lh_snapshot now (hp_userFailureWindow (m_hist s)) h of (sn, h') \<Rightarrow>
             (\<lparr>pc_o = o', pc_tag = tag, pc_delayMs = sn_lastDelay sn, pc_consec = sn_consec sn,
               pc_userFails = of_nat (length (sn_userFails sn)), pc_lastResort = lastResort,
               pc_hasRecoveryGate = sn_gated sn\<rparr>,
              s\<lparr>m_histories := gput tag h' (m_histories s)\<rparr>))
      | None \<Rightarrow>
          let none = \<lparr>pc_o = o', pc_tag = tag, pc_delayMs = 0, pc_consec = 0, pc_userFails = 0,
                      pc_lastResort = lastResort, pc_hasRecoveryGate = False\<rparr> in
          (case Option.bind (m_history s) (\<lambda>store. hs_Load store tag) of
             None \<Rightarrow> (none, s)
           | Some seed \<Rightarrow>
               if th_UpdatedAt seed = 0 \<or> now - th_UpdatedAt seed \<le> cf_maxPersistedAge (m_cfg s)
               then (none\<lparr>pc_delayMs := th_LastSuccessDelayMs seed,
                          pc_consec := th_ConsecutiveFailures seed,
                          pc_userFails := countUserFailuresInWindow (th_UserFailures seed) now
                                            (hp_userFailureWindow (m_hist s))\<rparr>, s)
               else (none, s)))"

fun preCandidates :: "time \<Rightarrow> tag list \<Rightarrow> mas \<Rightarrow> preCandidate list \<times> mas" where
  "preCandidates now [] s = ([], s)"
| "preCandidates now (tag # tags) s =
     (case gget (m_members s) tag of
        None \<Rightarrow> preCandidates now tags s
      | Some o' \<Rightarrow>
          let beh = behavior s (ob_type o') in
          if pb_excludeFromPool beh then preCandidates now tags s
          else let (p, s1) = preCandidateFor now tag o' (pb_lastResort beh) s;
                   (ps, s2) = preCandidates now tags s1
               in (p # ps, s2))"

text \<open>The two smallest measured delays of regular members; \<open>0\<close> where there is none.\<close>

fun best_two :: "preCandidate list \<Rightarrow> u32 \<times> u32 \<Rightarrow> u32 \<times> u32" where
  "best_two [] (min1, min2) = (min1, min2)"
| "best_two (p # ps) (min1, min2) =
     (if pc_delayMs p = 0 \<or> pc_lastResort p then best_two ps (min1, min2)
      else if min1 = 0 \<or> pc_delayMs p < min1 then best_two ps (pc_delayMs p, min1)
      else if min2 = 0 \<or> pc_delayMs p < min2 then best_two ps (min1, pc_delayMs p)
      else best_two ps (min1, min2))"

definition bestAltFor :: "u32 \<times> u32 \<Rightarrow> preCandidate \<Rightarrow> u32" where
  "bestAltFor mins p = (if pc_delayMs p = fst mins then snd mins else fst mins)"

definition rankCandidate :: "mas \<Rightarrow> u32 \<times> u32 \<Rightarrow> preCandidate \<Rightarrow> rankedCandidate" where
  "rankCandidate s mins p =
     (let competes = (pc_delayMs p > 0 \<and> \<not> pc_lastResort p);
          selfMs = (if competes then pc_delayMs p else 0);
          bestAlt = (if competes then bestAltFor mins p else 0);
          (hard, soft, _) = demoted (pc_consec p) (pc_userFails p) selfMs bestAlt (m_hist s);
          level = (if hard \<or> stuckProbeLocked (pc_o p) s then demoteHard
                   else if pc_lastResort p then demoteLastResort
                   else if soft then demoteSoft else demoteClean) in
      \<lparr>rc_outbound = pc_o p, rc_tag = pc_tag p, rc_delayMs = pc_delayMs p, rc_demote = level,
       rc_userFails = pc_userFails p, rc_lastResort = pc_lastResort p,
       rc_hasRecoveryGate = pc_hasRecoveryGate p\<rparr>)"

definition rankLess :: "rankedCandidate \<Rightarrow> rankedCandidate \<Rightarrow> bool" where
  "rankLess a b =
     (if rc_demote a \<noteq> rc_demote b then rc_demote a < rc_demote b
      else if rc_lastResort a \<noteq> rc_lastResort b then \<not> rc_lastResort a
      else if (rc_delayMs a = 0) \<noteq> (rc_delayMs b = 0) then rc_delayMs a \<noteq> 0
      else rc_delayMs a < rc_delayMs b)"

definition rankLocked :: "time \<Rightarrow> mas \<Rightarrow> rankedCandidate list \<times> mas" where
  "rankLocked now s =
     (let (pres, s') = preCandidates now (m_tags s) s;
          mins = best_two pres (0, 0) in
      (slice_stable rankLess (map (rankCandidate s' mins) pres), s'))"

section \<open>The pool of a network\<close>

text \<open>The members of a network that remain eligible: gated members only when no usable member is
  ungated (and, when none is usable at all, only when all are gated).\<close>

definition eligibleFor :: "rankedCandidate list \<Rightarrow> string \<Rightarrow> rankedCandidate list" where
  "eligibleFor ranked network =
     (let out = filter (\<lambda>c. network \<in> set (ob_network (rc_outbound c))) ranked;
          usable = (\<lambda>c. rc_demote c < demoteHard);
          ungated = list_ex (\<lambda>c. \<not> rc_hasRecoveryGate c) out;
          ungatedUsable = list_ex (\<lambda>c. \<not> rc_hasRecoveryGate c \<and> usable c) out;
          gatedUsable = list_ex (\<lambda>c. rc_hasRecoveryGate c \<and> usable c) out in
      if ungatedUsable \<or> (ungated \<and> \<not> gatedUsable)
      then filter (\<lambda>c. \<not> rc_hasRecoveryGate c) out else out)"

text \<open>The slice of the ranking the tier counters delimit.\<close>

definition cleanestTier :: "rankedCandidate list \<Rightarrow> rankedCandidate list" where
  "cleanestTier out =
     (let nClean = length (filter (\<lambda>c. rc_demote c = demoteClean) out);
          nSoft = length (filter (\<lambda>c. rc_demote c = demoteSoft) out);
          nLast = length (filter (\<lambda>c. rc_demote c = demoteLastResort) out) in
      if nClean > 0 then take nClean out
      else if nSoft > 0 then take nSoft (drop nClean out)
      else if nLast > 0 then take nLast (drop (nClean + nSoft) out)
      else out)"

definition splitHealthyForLocked ::
  "rankedCandidate list \<Rightarrow> string \<Rightarrow> rankedCandidate list \<times> rankedCandidate list" where
  "splitHealthyForLocked ranked network =
     (let out = eligibleFor ranked network in (cleanestTier out, out))"

definition beatsOnDelay :: "mas \<Rightarrow> u32 \<Rightarrow> u32 \<Rightarrow> bool" where
  "beatsOnDelay s candidateMs stickyMs =
     (if candidateMs \<ge> stickyMs then False
      else let gain = uint (stickyMs - candidateMs) in
           gain \<ge> cf_switchTolerance (m_cfg s) div millisecond \<and>
           gain * 100 \<ge> uint stickyMs * uint (cf_switchTolerancePercent (m_cfg s)))"

definition applyStickiness ::
  "mas \<Rightarrow> tag \<Rightarrow> rankedCandidate \<Rightarrow> rankedCandidate list \<Rightarrow> rankedCandidate" where
  "applyStickiness s sticky best forNetwork =
     (if sticky = '''' \<or> sticky = rc_tag best then best
      else case index_func (\<lambda>c. rc_tag c = sticky) forNetwork of
        None \<Rightarrow> best
      | Some idx \<Rightarrow>
          let c = forNetwork ! idx in
          if (rc_delayMs c = 0) \<noteq> (rc_delayMs best = 0) then best
          else if rc_demote c = demoteHard \<and> rc_demote best < demoteHard then best
          else if rc_lastResort c \<and> \<not> rc_lastResort best \<and> rc_demote best \<le> rc_demote c then best
          else if rc_demote c > rc_demote best \<and> rc_userFails c > hp_softFailLimit (m_hist s) then best
          else if beatsOnDelay s (rc_delayMs best) (rc_delayMs c) then best
          else c)"

section \<open>Replacement after a confirmed failure\<close>

definition eligibleReplacementLocked :: "time \<Rightarrow> tag \<Rightarrow> mas \<Rightarrow> bool \<times> mas" where
  "eligibleReplacementLocked now tag s =
     (case gget (m_members s) tag of
        None \<Rightarrow> (False, s)
      | Some out \<Rightarrow>
          if stuckProbeLocked out s then (False, s)
          else (case gget (m_histories s) tag of
                  None \<Rightarrow> (False, s)
                | Some h \<Rightarrow>
                    (case lh_snapshot now (hp_userFailureWindow (m_hist s)) h of (sn, h') \<Rightarrow>
                       (sn_lastDelay sn > 0 \<and> sn_consec sn = 0 \<and> \<not> sn_gated sn,
                        s\<lparr>m_histories := gput tag h' (m_histories s)\<rparr>))))"

fun firstEligible :: "time \<Rightarrow> rankedCandidate list \<Rightarrow> mas \<Rightarrow> tag \<times> mas" where
  "firstEligible now [] s = ('''', s)"
| "firstEligible now (c # cs) s =
     (case eligibleReplacementLocked now (rc_tag c) s of
        (True, s') \<Rightarrow> (rc_tag c, s')
      | (False, s') \<Rightarrow> firstEligible now cs s')"

definition findProbedReplacementLocked :: "time \<Rightarrow> string \<Rightarrow> tag \<Rightarrow> mas \<Rightarrow> tag \<times> mas" where
  "findProbedReplacementLocked now network excludeTag s =
     (let (ranked, s) = rankLocked now s;
          (pool, _) = splitHealthyForLocked (filter (\<lambda>c. rc_tag c \<noteq> excludeTag) ranked) network in
      firstEligible now pool s)"

definition trySwitchAfterConfirmedFailureLocked :: "env \<Rightarrow> tag \<Rightarrow> tag \<Rightarrow> mas \<Rightarrow> mas" where
  "trySwitchAfterConfirmedFailureLocked e failedTag replacementTag s =
     (let now = ev_now e; window = hp_userFailureWindow (m_hist s) in
      if m_stickyTcp s \<noteq> failedTag then s
      else if gget (m_members s) failedTag = None then s
      else case gget (m_histories s) failedTag of
        None \<Rightarrow> s
      | Some h \<Rightarrow>
          (case lh_snapshot now window h of (sn, h1) \<Rightarrow>
             let s = s\<lparr>m_histories := gput failedTag h1 (m_histories s)\<rparr> in
             if sn_consec sn = 0 then s
             else
               let (ok, s) = (if replacementTag = '''' then (False, s)
                              else eligibleReplacementLocked now replacementTag s);
                   (replacementTag, s) =
                     (if \<not> ok then findProbedReplacementLocked now ''tcp'' failedTag s
                      else (replacementTag, s)) in
               if replacementTag = '''' then s
               else if m_switchAt s \<noteq> 0 \<and>
                       now - m_switchAt s < cf_confirmedFailureSwitchCooldown (m_cfg s) \<and>
                       m_switchTag s \<noteq> failedTag then s
               else
                 let h = historyForLocked failedTag s in
                 s\<lparr>m_stickyTcp := replacementTag,
                   m_histories := gput failedTag (startRecoveryGate now h) (m_histories s),
                   m_switchAt := now, m_switchTag := replacementTag\<rparr>))"

section \<open>Frame: ranking only prunes histories\<close>

definition only_histories :: "mas \<Rightarrow> mas \<Rightarrow> bool" where
  "only_histories s s' \<longleftrightarrow> s' = s\<lparr>m_histories := m_histories s'\<rparr>"

lemma only_histories_refl [simp]: "only_histories s s"
  by (simp add: only_histories_def)

lemma only_histories_trans: "only_histories s t \<Longrightarrow> only_histories t u \<Longrightarrow> only_histories s u"
  unfolding only_histories_def by (metis (no_types, lifting) mas.surjective mas.update_convs(7))

lemma only_histories_upd [simp]: "only_histories s (s\<lparr>m_histories := h\<rparr>)"
  by (simp add: only_histories_def)

lemma only_historiesE:
  assumes "only_histories s s'"
  obtains h where "s' = s\<lparr>m_histories := h\<rparr>"
  using assms unfolding only_histories_def by blast

lemma preCandidateFor_frame: "only_histories s (snd (preCandidateFor now tag o' lr s))"
  by (auto simp: preCandidateFor_def Let_def split: option.split prod.split)

lemma preCandidates_frame: "only_histories s (snd (preCandidates now tags s))"
proof (induction now tags s rule: preCandidates.induct)
  case (2 now tag tags s)
  then show ?case
    by (auto simp: Let_def split: option.split prod.splits
        intro: only_histories_trans preCandidateFor_frame [where o' = x and lr = y for x y])
      (metis only_histories_trans preCandidateFor_frame snd_conv)
qed simp

lemma rankLocked_frame: "only_histories s (snd (rankLocked now s))"
  using preCandidates_frame [of s now "m_tags s"]
  by (simp add: rankLocked_def Let_def case_prod_unfold)

section \<open>What is ranked\<close>

text \<open>The members of the pool in registration order: the tags with a member whose protocol is
  not excluded.\<close>

definition poolEntry :: "mas \<Rightarrow> tag \<Rightarrow> (tag \<times> outbound \<times> bool) option" where
  "poolEntry s tag =
     (case gget (m_members s) tag of
        None \<Rightarrow> None
      | Some out \<Rightarrow>
          if pb_excludeFromPool (behavior s (ob_type out)) then None
          else Some (tag, out, pb_lastResort (behavior s (ob_type out))))"

definition poolOf :: "mas \<Rightarrow> tag list \<Rightarrow> (tag \<times> outbound \<times> bool) list" where
  "poolOf s tags = List.map_filter (poolEntry s) tags"

lemma poolOf_simps [simp]:
  "poolOf s [] = []"
  "poolOf s (t # ts) = (case poolEntry s t of None \<Rightarrow> poolOf s ts | Some x \<Rightarrow> x # poolOf s ts)"
  by (simp_all add: poolOf_def List.map_filter_def split: option.split)

lemma poolEntry_upd_histories [simp]: "poolEntry (s\<lparr>m_histories := h\<rparr>) = poolEntry s"
  by (rule ext) (simp add: poolEntry_def behavior_def split: option.split)

lemma poolOf_upd_histories [simp]: "poolOf (s\<lparr>m_histories := h\<rparr>) tags = poolOf s tags"
  by (simp add: poolOf_def)

lemma preCandidateFor_fields:
  "pc_tag (fst (preCandidateFor now tag o' lr s)) = tag"
  "pc_o (fst (preCandidateFor now tag o' lr s)) = o'"
  "pc_lastResort (fst (preCandidateFor now tag o' lr s)) = lr"
  by (auto simp: preCandidateFor_def Let_def split: option.split prod.split)

abbreviation pre_ident :: "preCandidate \<Rightarrow> tag \<times> outbound \<times> bool" where
  "pre_ident p \<equiv> (pc_tag p, pc_o p, pc_lastResort p)"

lemma preCandidates_pool: "map pre_ident (fst (preCandidates now tags s)) = poolOf s tags"
proof (induction now tags s rule: preCandidates.induct)
  case (2 now tag tags s)
  show ?case
  proof (cases "poolEntry s tag")
    case None
    with 2 show ?thesis
      by (auto simp: poolEntry_def Let_def split: option.splits if_splits)
  next
    case (Some x)
    then obtain out where out: "gget (m_members s) tag = Some out"
      "\<not> pb_excludeFromPool (behavior s (ob_type out))"
      "x = (tag, out, pb_lastResort (behavior s (ob_type out)))"
      by (auto simp: poolEntry_def split: option.splits if_splits)
    obtain p s1 where p: "preCandidateFor now tag out (pb_lastResort (behavior s (ob_type out))) s = (p, s1)"
      by force
    have s1: "only_histories s s1" and ident: "pre_ident p = x"
      using preCandidateFor_frame [of s now tag out "pb_lastResort (behavior s (ob_type out))"]
        preCandidateFor_fields [of now tag out "pb_lastResort (behavior s (ob_type out))" s] out(3)
      by (simp_all add: p)
    from s1 have "poolOf s1 tags = poolOf s tags"
      by (elim only_historiesE) simp
    moreover have "map pre_ident (fst (preCandidates now tags s1)) = poolOf s1 tags"
      by (rule "2.IH"(3) [OF out(1) refl out(2)]) (simp_all add: p)
    ultimately show ?thesis
      using Some out p ident by (simp add: case_prod_unfold Let_def)
  qed
qed simp

section \<open>The order of the ranking\<close>

definition rankKey :: "rankedCandidate \<Rightarrow> demoteLevel \<times> bool \<times> bool \<times> u32" where
  "rankKey c = (rc_demote c, rc_lastResort c, rc_delayMs c = 0, rc_delayMs c)"

interpretation rank: keyed_less rankLess rankKey
  by unfold_locales (auto simp: rankLess_def rankKey_def less_prod_def less_eq_prod_def)

lemma rankCandidate_fields [simp]:
  "rc_tag (rankCandidate s mins p) = pc_tag p"
  "rc_outbound (rankCandidate s mins p) = pc_o p"
  "rc_lastResort (rankCandidate s mins p) = pc_lastResort p"
  "rc_delayMs (rankCandidate s mins p) = pc_delayMs p"
  "rc_userFails (rankCandidate s mins p) = pc_userFails p"
  "rc_hasRecoveryGate (rankCandidate s mins p) = pc_hasRecoveryGate p"
  by (simp_all add: rankCandidate_def Let_def case_prod_unfold)

abbreviation rc_ident :: "rankedCandidate \<Rightarrow> tag \<times> outbound \<times> bool" where
  "rc_ident c \<equiv> (rc_tag c, rc_outbound c, rc_lastResort c)"

lemma rankLocked_set: "rc_ident ` set (fst (rankLocked now s)) = set (poolOf s (m_tags s))"
proof -
  have "rc_ident ` set (fst (rankLocked now s)) = pre_ident ` set (fst (preCandidates now (m_tags s) s))"
    by (simp add: rankLocked_def Let_def case_prod_unfold rank.slice_stable_set image_image)
  also have "\<dots> = set (poolOf s (m_tags s))"
    by (simp only: preCandidates_pool flip: set_map)
  finally show ?thesis .
qed

lemma rankLocked_sorted_key: "sorted (map rankKey (fst (rankLocked now s)))"
  by (simp add: rankLocked_def Let_def case_prod_unfold rank.slice_stable_sorted)

lemma rankLocked_sorted_demote: "sorted (map rc_demote (fst (rankLocked now s)))"
proof -
  have "sorted_wrt (\<lambda>a b. rankKey a \<le> rankKey b) (fst (rankLocked now s))"
    using rankLocked_sorted_key by (simp add: sorted_map)
  then have "sorted_wrt (\<lambda>a b. rc_demote a \<le> rc_demote b) (fst (rankLocked now s))"
    by (rule sorted_wrt_mono_rel [rotated]) (auto simp: rankKey_def less_eq_prod_def)
  then show ?thesis by (simp add: sorted_map)
qed

subsection \<open>The best alternative\<close>

abbreviation competes :: "preCandidate \<Rightarrow> bool" where
  "competes p \<equiv> pc_delayMs p \<noteq> 0 \<and> \<not> pc_lastResort p"

definition two_least :: "u32 list \<Rightarrow> u32 \<times> u32" where
  "two_least xs = (case sort xs of [] \<Rightarrow> (0, 0) | [a] \<Rightarrow> (a, 0) | a # b # _ \<Rightarrow> (a, b))"

lemma two_least_Cons:
  assumes "d \<noteq> 0" and "0 \<notin> set xs"
  shows "two_least (d # xs) =
    (case two_least xs of (m1, m2) \<Rightarrow>
       if m1 = 0 \<or> d < m1 then (d, m1) else if m2 = 0 \<or> d < m2 then (m1, d) else (m1, m2))"
proof -
  have nz: "0 \<notin> set (sort xs)" using assms(2) by simp
  show ?thesis
  proof (cases "sort xs")
    case Nil
    then show ?thesis by (simp add: two_least_def)
  next
    case c1: (Cons a as)
    show ?thesis
    proof (cases as)
      case Nil
      with c1 nz show ?thesis by (auto simp: two_least_def)
    next
      case (Cons b bs)
      have "a \<le> b" using sorted_sort [of xs] c1 Cons by simp
      with c1 Cons nz show ?thesis by (auto simp: two_least_def)
    qed
  qed
qed

lemma best_two_least:
  "0 \<notin> set xs \<Longrightarrow>
   best_two ps (two_least xs) = two_least (rev (map pc_delayMs (filter competes ps)) @ xs)"
proof (induction ps arbitrary: xs)
  case Nil
  then show ?case by (cases "two_least xs") simp
next
  case (Cons p ps)
  show ?case
  proof (cases "competes p")
    case True
    have "best_two (p # ps) (two_least xs) = best_two ps (two_least (pc_delayMs p # xs))"
      using True Cons.prems by (cases "two_least xs") (simp add: two_least_Cons)
    with True Cons.IH [of "pc_delayMs p # xs"] Cons.prems show ?thesis by simp
  next
    case False
    then have "best_two (p # ps) (two_least xs) = best_two ps (two_least xs)"
      by (cases "two_least xs") auto
    with False Cons show ?thesis by auto
  qed
qed

text \<open>The reference: the least measured delay among the other regular members.\<close>

definition leastOther :: "preCandidate list \<Rightarrow> preCandidate \<Rightarrow> u32" where
  "leastOther ps p =
     (let ds = map pc_delayMs (filter competes (remove1 p ps)) in
      if ds = [] then 0 else Min (set ds))"

lemma two_least_other:
  assumes "d \<in> set xs"
  shows "(if d = fst (two_least xs) then snd (two_least xs) else fst (two_least xs))
           = (if remove1 d xs = [] then 0 else Min (set (remove1 d xs)))"
proof -
  have sr: "sort (remove1 d xs) = remove1 d (sort xs)"
    by (rule properties_for_sort) (simp_all add: sorted_remove1)
  have min: "Min (set ys) = hd (sort ys)" if "ys \<noteq> []" for ys :: "u32 list"
  proof -
    have "sort ys \<noteq> []" using that by (metis length_0_conv length_sort)
    then obtain a as where ys: "sort ys = a # as" by (cases "sort ys") auto
    then have "\<forall>x \<in> set as. a \<le> x" using sorted_sort [of ys] by simp
    then have "Min (set (sort ys)) = a" unfolding ys by (intro Min_eqI) auto
    then have "Min (set ys) = a" by simp
    with ys show ?thesis by simp
  qed
  have nil: "remove1 d xs = [] \<longleftrightarrow> remove1 d (sort xs) = []"
    using sr by (metis sort_key_simps(1) length_0_conv length_sort)
  show ?thesis
  proof (cases "sort xs")
    case Nil
    with assms have False by (metis empty_iff list.set(1) set_sort)
    then show ?thesis ..
  next
    case c1: (Cons a as)
    have d: "d \<in> set (a # as)" using assms by (metis c1 set_sort)
    show ?thesis
    proof (cases as)
      case Nil
      with c1 d nil show ?thesis by (simp add: two_least_def)
    next
      case (Cons b bs)
      have "Min (set (remove1 d xs)) = hd (remove1 d (sort xs))"
        using c1 Cons nil by (subst min) (auto simp: sr)
      with c1 Cons nil show ?thesis by (auto simp: two_least_def)
    qed
  qed
qed

lemma map_remove1_delay:
  "p \<in> set ps \<Longrightarrow> competes p \<Longrightarrow>
   mset (map pc_delayMs (filter competes (remove1 p ps)))
     = mset (remove1 (pc_delayMs p) (map pc_delayMs (filter competes ps)))"
  by (induction ps) auto

text \<open>The single pass that keeps the two smallest delays computes, for every measured
  regular member, the delay of its best alternative: the least measured delay among the other
  regular members, or zero when there is none.\<close>

lemma bestAlt_is_least_other:
  assumes "p \<in> set pres" and "pc_delayMs p \<noteq> 0" and "\<not> pc_lastResort p"
  shows "bestAltFor (best_two pres (0, 0)) p = leastOther pres p"
proof -
  let ?ds = "map pc_delayMs (filter competes pres)"
  have d: "pc_delayMs p \<in> set ?ds" using assms by auto
  have "two_least [] = (0, 0)" by (simp add: two_least_def)
  then have "best_two pres (0, 0) = two_least (rev ?ds)"
    using best_two_least [of "[]" pres] by simp
  also have "\<dots> = two_least ?ds"
  proof -
    have "sort (rev ?ds) = sort ?ds" by (rule properties_for_sort) simp_all
    then show ?thesis by (simp add: two_least_def)
  qed
  finally have "bestAltFor (best_two pres (0, 0)) p
      = (if remove1 (pc_delayMs p) ?ds = [] then 0 else Min (set (remove1 (pc_delayMs p) ?ds)))"
    using two_least_other [OF d] by (simp add: bestAltFor_def)
  moreover have m: "mset (map pc_delayMs (filter competes (remove1 p pres))) = mset (remove1 (pc_delayMs p) ?ds)"
    using assms by (intro map_remove1_delay) simp_all
  note mset_eq_setD [OF m] mset_eq_length [OF m]
  ultimately show ?thesis
    unfolding leastOther_def Let_def by (simp only: flip: length_0_conv)
qed

subsection \<open>The pool is the cleanest tier\<close>

abbreviation supports :: "string \<Rightarrow> rankedCandidate \<Rightarrow> bool" where
  "supports network c \<equiv> network \<in> set (ob_network (rc_outbound c))"

abbreviation usable :: "rankedCandidate \<Rightarrow> bool" where
  "usable c \<equiv> rc_demote c < demoteHard"

lemma take_least_tier:
  fixes f :: "'a \<Rightarrow> 'k::linorder"
  shows "sorted (map f xs) \<Longrightarrow> \<forall>x \<in> set xs. k \<le> f x \<Longrightarrow>
    take (length (filter (\<lambda>x. f x = k) xs)) xs = filter (\<lambda>x. f x = k) xs"
proof (induction xs)
  case (Cons x xs)
  show ?case
  proof (cases "f x = k")
    case True
    with Cons show ?thesis by simp
  next
    case False
    with Cons.prems have "\<forall>y \<in> set (x # xs). f y \<noteq> k" by auto
    then have "filter (\<lambda>x. f x = k) (x # xs) = []" by (simp add: filter_empty_conv)
    then show ?thesis by simp
  qed
qed simp

lemma eligibleFor_eq:
  "eligibleFor ranked network =
     (let out = filter (supports network) ranked in
      if (\<exists>c \<in> set out. \<not> rc_hasRecoveryGate c \<and> usable c) \<or>
         ((\<exists>c \<in> set out. \<not> rc_hasRecoveryGate c) \<and> \<not> (\<exists>c \<in> set out. rc_hasRecoveryGate c \<and> usable c))
      then filter (\<lambda>c. \<not> rc_hasRecoveryGate c) out else out)"
  by (simp add: eligibleFor_def Let_def list_ex_iff)

lemma level_last:
  "l \<noteq> demoteClean \<Longrightarrow> l \<noteq> demoteSoft \<Longrightarrow> l \<noteq> demoteLastResort \<Longrightarrow> l = demoteHard"
  by (cases l) simp_all

lemma eligibleFor_sorted: "sorted (map rc_demote ranked) \<Longrightarrow> sorted (map rc_demote (eligibleFor ranked network))"
  by (simp add: eligibleFor_def Let_def sorted_filter)

lemma cleanestTier_is_tier:
  assumes sorted: "sorted (map rc_demote out)"
  shows "\<exists>tier. cleanestTier out = filter (\<lambda>c. rc_demote c = tier) out \<and>
           (\<forall>c \<in> set out. tier \<le> rc_demote c) \<and> (out \<noteq> [] \<longrightarrow> cleanestTier out \<noteq> [])"
proof -
  let ?has = "\<lambda>l. \<exists>c \<in> set out. rc_demote c = l"
  have tier: "?thesis" if least: "\<forall>c \<in> set out. l \<le> rc_demote c" and some: "?has l"
    and eq: "cleanestTier out = take (length (filter (\<lambda>c. rc_demote c = l) out)) out" for l
    using take_least_tier [OF sorted least] least some eq
    by (intro exI [of _ l]) (auto simp: filter_empty_conv)
  consider "?has demoteClean" | "\<not> ?has demoteClean" "?has demoteSoft"
    | "\<not> ?has demoteClean" "\<not> ?has demoteSoft" "?has demoteLastResort"
    | "\<forall>c \<in> set out. rc_demote c = demoteHard"
    using level_last by blast
  then show ?thesis
  proof cases
    case 1
    then have "0 < length (filter (\<lambda>c. rc_demote c = demoteClean) out)"
      by (auto simp: filter_empty_conv)
    with 1 show ?thesis by (intro tier [of demoteClean]) (simp_all add: cleanestTier_def)
  next
    case 2
    then have "filter (\<lambda>c. rc_demote c = demoteClean) out = []"
      "0 < length (filter (\<lambda>c. rc_demote c = demoteSoft) out)"
      by (auto simp: filter_empty_conv)
    with 2 show ?thesis by (intro tier [of demoteSoft]) (auto simp: cleanestTier_def)
  next
    case 3
    then have "filter (\<lambda>c. rc_demote c = demoteClean) out = []"
      "filter (\<lambda>c. rc_demote c = demoteSoft) out = []"
      "0 < length (filter (\<lambda>c. rc_demote c = demoteLastResort) out)"
      by (auto simp: filter_empty_conv)
    moreover have "demoteLastResort \<le> l" if "l \<noteq> demoteClean" "l \<noteq> demoteSoft" for l
      using that by (cases l) (simp_all add: level_order)
    ultimately show ?thesis using 3 by (intro tier [of demoteLastResort]) (auto simp: cleanestTier_def)
  next
    case 4
    then have "filter (\<lambda>c. rc_demote c = demoteHard) out = out"
      and none: "l \<noteq> demoteHard \<Longrightarrow> filter (\<lambda>c. rc_demote c = l) out = []" for l
      by (auto simp: filter_empty_conv)
    moreover have "cleanestTier out = out" by (simp add: cleanestTier_def none)
    ultimately show ?thesis using 4 by (intro exI [of _ demoteHard]) simp
  qed
qed

lemma eligibleFor_subset: "set (eligibleFor ranked network) \<subseteq> {c \<in> set ranked. supports network c}"
  by (auto simp: eligibleFor_eq Let_def split: if_splits)

lemma eligibleFor_Nil: "eligibleFor ranked network = [] \<longleftrightarrow> (\<forall>c \<in> set ranked. \<not> supports network c)"
  by (auto simp: eligibleFor_eq Let_def filter_empty_conv split: if_splits)

lemma eligibleFor_gate:
  "c \<in> set (eligibleFor ranked network) \<Longrightarrow> rc_hasRecoveryGate c \<Longrightarrow>
   d \<in> set ranked \<Longrightarrow> supports network d \<Longrightarrow> usable d \<Longrightarrow> rc_hasRecoveryGate d"
  by (auto simp: eligibleFor_eq Let_def split: if_splits)

lemma eligibleFor_usable:
  "d \<in> set ranked \<Longrightarrow> supports network d \<Longrightarrow> usable d \<Longrightarrow>
   \<exists>c \<in> set (eligibleFor ranked network). usable c"
  by (auto simp: eligibleFor_eq Let_def)

text \<open>The pool a network's dials choose from. For a ranking in tier order it is exactly
  the cleanest tier present among the eligible members of the network, it is empty only when no
  member supports the network, a member under a recovery gate is eligible only when every usable
  member is gated too, and the gate never forces a hard-demoted choice while any usable member
  supports the network.\<close>

lemma pool_is_cleanest_tier:
  assumes "sorted (map rc_demote ranked)"
  shows "let (pool, forNetwork) = splitHealthyForLocked ranked network in
    (\<exists>tier. pool = filter (\<lambda>c. rc_demote c = tier) forNetwork \<and>
            (\<forall>c \<in> set forNetwork. tier \<le> rc_demote c)) \<and>
    set forNetwork \<subseteq> {c \<in> set ranked. supports network c} \<and>
    (pool = [] \<longleftrightarrow> (\<forall>c \<in> set ranked. \<not> supports network c)) \<and>
    (\<forall>c \<in> set forNetwork. rc_hasRecoveryGate c \<longrightarrow>
       (\<forall>d \<in> set ranked. supports network d \<and> usable d \<longrightarrow> rc_hasRecoveryGate d)) \<and>
    ((\<exists>d \<in> set ranked. supports network d \<and> usable d) \<longrightarrow> (\<forall>c \<in> set pool. usable c))"
proof -
  let ?fn = "eligibleFor ranked network"
  obtain tier where tier: "cleanestTier ?fn = filter (\<lambda>c. rc_demote c = tier) ?fn"
    "\<forall>c \<in> set ?fn. tier \<le> rc_demote c" "?fn \<noteq> [] \<longrightarrow> cleanestTier ?fn \<noteq> []"
    using cleanestTier_is_tier [OF eligibleFor_sorted [OF assms]] by blast
  have usable: "usable c" if c: "c \<in> set (cleanestTier ?fn)"
    and d: "d \<in> set ranked" "supports network d" "usable d" for c d
  proof -
    obtain b where b: "b \<in> set ?fn" "usable b" using eligibleFor_usable [OF d] by auto
    have "rc_demote c = tier" using c tier(1) by simp
    then show ?thesis using tier(2) b by (metis le_less_trans)
  qed
  have empty: "cleanestTier ?fn = [] \<longleftrightarrow> ?fn = []" using tier by auto
  show ?thesis
    unfolding splitHealthyForLocked_def Let_def prod.case
    using tier(1,2) empty usable eligibleFor_subset [of ranked network]
      eligibleFor_Nil [of ranked network] eligibleFor_gate [of _ ranked network]
    by (intro conjI) blast+
qed

section \<open>Ranking\<close>

lemma rankLocked_map_pool:
  "\<exists>cs. map rc_ident cs = poolOf s (m_tags s) \<and> fst (rankLocked now s) = slice_stable rankLess cs"
proof -
  let ?pres = "fst (preCandidates now (m_tags s) s)" and ?s' = "snd (preCandidates now (m_tags s) s)"
  let ?cs = "map (rankCandidate ?s' (best_two ?pres (0, 0))) ?pres"
  have "map rc_ident ?cs = poolOf s (m_tags s)"
    by (simp add: comp_def flip: preCandidates_pool [of now])
  then show ?thesis by (intro exI [of _ ?cs]) (simp add: rankLocked_def Let_def case_prod_unfold)
qed

lemma poolOf_subseq: "subseq (map fst (poolOf s tags)) tags"
  by (induction tags) (auto simp: poolEntry_def split: option.splits if_splits)

text \<open>C28: what \<open>rankLocked\<close> returns. The ranking is a permutation of the pool (the tags with a
  member whose protocol is not excluded); it is ordered by tier, then regular members before last
  resorts, then measured before unmeasured, then by delay; members that tie keep their
  registration order; and ranking changes nothing of the group but the failure windows it prunes.\<close>

theorem ranking_stable_order:
  "let (ranked, s') = rankLocked now s in
     mset (map rc_ident ranked) = mset (poolOf s (m_tags s)) \<and>
     sorted (map rankKey ranked) \<and>
     (\<forall>k. subseq (map rc_tag (filter (\<lambda>c. rankKey c = k) ranked)) (m_tags s)) \<and>
     s' = s\<lparr>m_histories := m_histories s'\<rparr>"
proof -
  obtain cs where cs: "map rc_ident cs = poolOf s (m_tags s)"
    and ranked: "fst (rankLocked now s) = slice_stable rankLess cs"
    using rankLocked_map_pool by blast
  have "mset (map rc_ident (fst (rankLocked now s))) = mset (poolOf s (m_tags s))"
    unfolding ranked rank.slice_stable_key by (simp flip: cs)
  moreover have "subseq (map rc_tag (filter (\<lambda>c. rankKey c = k) (fst (rankLocked now s)))) (m_tags s)" for k
  proof -
    have "map rc_tag cs = map fst (poolOf s (m_tags s))" by (simp flip: cs)
    moreover have "subseq (map rc_tag (filter (\<lambda>c. rankKey c = k) cs)) (map rc_tag cs)"
      by (simp add: subseq_map subseq_filter_left)
    ultimately show ?thesis
      unfolding ranked rank.slice_stable_ties using poolOf_subseq [of s "m_tags s"]
      by (metis subseq_order.order_trans)
  qed
  ultimately show ?thesis
    using rankLocked_sorted_key [of now s] rankLocked_frame [of s now]
    by (simp add: case_prod_unfold Let_def only_histories_def)
qed

section \<open>Stickiness\<close>

lemma index_func_nth: "index_func P xs = Some i \<Longrightarrow> P (xs ! i) \<and> xs ! i \<in> set xs"
  using index_func_SomeD [of P xs i] by (auto intro: nth_mem)

lemma applyStickiness_cases:
  "applyStickiness s sticky best fn = best \<or>
   (\<exists>i. index_func (\<lambda>c. rc_tag c = sticky) fn = Some i \<and> applyStickiness s sticky best fn = fn ! i)"
  by (auto simp: applyStickiness_def Let_def split: option.split)

text \<open>Stickiness. The choice is the best of the pool or the sticky member itself; choosing
  again with the choice as the sticky tag repeats it; and the sticky member displaces a different
  best only when both are measured or neither is, when it is not hard-demoted next to a usable
  best, when it is not a last resort beside a regular best of no worse tier, and when the best does
  not beat it on delay.\<close>

lemma stickiness_sound:
  "let c = applyStickiness s sticky best forNetwork in
     applyStickiness s (rc_tag c) best forNetwork = c \<and>
     (c = best \<or>
      (c \<in> set forNetwork \<and> rc_tag c = sticky \<and> sticky \<noteq> rc_tag best \<and>
       ((rc_delayMs c = 0) = (rc_delayMs best = 0)) \<and>
       \<not> (rc_demote c = demoteHard \<and> rc_demote best \<noteq> demoteHard) \<and>
       \<not> (rc_lastResort c \<and> \<not> rc_lastResort best \<and> rc_demote best \<le> rc_demote c) \<and>
       \<not> beatsOnDelay s (rc_delayMs best) (rc_delayMs c)))"
proof (cases "applyStickiness s sticky best forNetwork = best")
  case True
  then show ?thesis by (simp add: applyStickiness_def)
next
  case False
  then obtain i where i: "index_func (\<lambda>c. rc_tag c = sticky) forNetwork = Some i"
    and c: "applyStickiness s sticky best forNetwork = forNetwork ! i"
    using applyStickiness_cases [of s sticky best forNetwork] by blast
  note nth = index_func_nth [OF i]
  have "sticky \<noteq> rc_tag best" using False by (auto simp: applyStickiness_def)
  moreover have "((rc_delayMs (forNetwork ! i) = 0) = (rc_delayMs best = 0)) \<and>
       \<not> (rc_demote (forNetwork ! i) = demoteHard \<and> rc_demote best \<noteq> demoteHard) \<and>
       \<not> (rc_lastResort (forNetwork ! i) \<and> \<not> rc_lastResort best \<and> rc_demote best \<le> rc_demote (forNetwork ! i)) \<and>
       \<not> beatsOnDelay s (rc_delayMs best) (rc_delayMs (forNetwork ! i))"
    using False by (auto simp: applyStickiness_def i Let_def split: if_splits)
  ultimately show ?thesis using nth c by (simp add: Let_def)
qed

text \<open>Hysteresis on delay. Whatever the configured tolerances are (as long as the absolute one
  is not negative), a switch on delay strictly improves the delay, by at least the whole milliseconds
  of the tolerance and by at least its percentage, so no chain of such switches returns to where it
  began.\<close>

lemma delay_switch_improves:
  assumes "beatsOnDelay s candidateMs stickyMs"
  shows "uint candidateMs + cf_switchTolerance (m_cfg s) div millisecond \<le> uint stickyMs \<and>
     uint candidateMs * 100 \<le> uint stickyMs * (100 - uint (cf_switchTolerancePercent (m_cfg s))) \<and>
     candidateMs < stickyMs \<and> \<not> beatsOnDelay s stickyMs candidateMs"
proof -
  have lt: "candidateMs < stickyMs" using assms by (auto simp: beatsOnDelay_def split: if_splits)
  then have gain: "uint (stickyMs - candidateMs) = uint stickyMs - uint candidateMs"
    by (simp add: uint_minus_simple_alt [THEN iffD1] order_less_imp_le word_less_def word_le_def)
  from assms lt have "uint stickyMs - uint candidateMs \<ge> cf_switchTolerance (m_cfg s) div millisecond"
    "(uint stickyMs - uint candidateMs) * 100 \<ge> uint stickyMs * uint (cf_switchTolerancePercent (m_cfg s))"
    by (auto simp: beatsOnDelay_def Let_def gain split: if_splits)
  then show ?thesis using lt by (auto simp: beatsOnDelay_def algebra_simps)
qed

section \<open>Switching after a confirmed failure\<close>

text \<open>A replacement worth switching to: a member whose probe is not stuck and whose latest probe
  passed, with no recovery gate.\<close>

definition replacementReady :: "tag \<Rightarrow> mas \<Rightarrow> bool" where
  "replacementReady tag s \<longleftrightarrow>
     (\<exists>out h. gget (m_members s) tag = Some out \<and> \<not> stuckProbeLocked out s \<and>
        gget (m_histories s) tag = Some h \<and> 0 < lh_lastSuccessDelayMs h \<and>
        lh_consecutiveFailures h = 0 \<and> lh_recoveryGateStartedAt h = 0)"

text \<open>Two states that differ in pruned windows only.\<close>

abbreviation hcore :: "localHistory \<Rightarrow> u32 \<times> time \<times> u32 \<times> time" where
  "hcore h \<equiv> (lh_lastSuccessDelayMs h, lh_lastOutcomeAt h, lh_consecutiveFailures h,
              lh_recoveryGateStartedAt h)"

definition prunes :: "mas \<Rightarrow> mas \<Rightarrow> bool" where
  "prunes s s' \<longleftrightarrow> only_histories s s' \<and>
     (\<forall>t. map_option hcore (gget (m_histories s') t) = map_option hcore (gget (m_histories s) t))"

lemma prunes_refl [simp]: "prunes s s"
  by (simp add: prunes_def)

lemma prunes_trans: "prunes s t \<Longrightarrow> prunes t u \<Longrightarrow> prunes s u"
  unfolding prunes_def using only_histories_trans by metis

lemma lh_snapshot_fields [simp]:
  "sn_lastDelay (fst (lh_snapshot now w h)) = lh_lastSuccessDelayMs h"
  "sn_consec (fst (lh_snapshot now w h)) = lh_consecutiveFailures h"
  "sn_gated (fst (lh_snapshot now w h)) = (lh_recoveryGateStartedAt h \<noteq> 0)"
  "hcore (snd (lh_snapshot now w h)) = hcore h"
  by (simp_all add: lh_snapshot_def Let_def)

lemma prunes_snapshot:
  "gget (m_histories s) tag = Some h \<Longrightarrow>
   prunes s (s\<lparr>m_histories := gput tag (snd (lh_snapshot now w h)) (m_histories s)\<rparr>)"
  by (simp add: prunes_def lh_snapshot_def Let_def)

lemma prunes_history:
  "prunes s s' \<Longrightarrow> gget (m_histories s) tag = Some h \<Longrightarrow>
   \<exists>h'. gget (m_histories s') tag = Some h' \<and> hcore h' = hcore h"
  by (auto simp: prunes_def dest: spec [of _ tag])

lemma prunes_history':
  assumes "prunes s s'" and "gget (m_histories s') tag = Some h'"
  shows "\<exists>h. gget (m_histories s) tag = Some h \<and> hcore h' = hcore h"
proof -
  have "map_option hcore (gget (m_histories s) tag) = Some (hcore h')"
    using assms(2) spec [OF conjunct2 [OF assms(1) [unfolded prunes_def]], of tag] by simp
  then show ?thesis by auto
qed

lemma prunes_state: "prunes s s' \<Longrightarrow> s' = s\<lparr>m_histories := m_histories s'\<rparr>"
  by (simp add: prunes_def only_histories_def)

lemma prunes_frame:
  assumes "prunes s s'"
  shows "m_members s' = m_members s" "m_inFlight s' = m_inFlight s" "m_tags s' = m_tags s"
    "m_stickyTcp s' = m_stickyTcp s" "m_switchAt s' = m_switchAt s" "m_switchTag s' = m_switchTag s"
    "m_cfg s' = m_cfg s" "m_hist s' = m_hist s" "stuckProbeLocked out s' = stuckProbeLocked out s"
  by (subst prunes_state [OF assms], simp add: stuckProbeLocked_def)+

lemma prunes_ready: "prunes s s' \<Longrightarrow> replacementReady tag s' \<longleftrightarrow> replacementReady tag s"
  by (fastforce simp: replacementReady_def prunes_frame dest: prunes_history prunes_history')

lemma eligible_prunes: "prunes s (snd (eligibleReplacementLocked now tag s))"
  using prunes_snapshot
  by (auto simp: eligibleReplacementLocked_def case_prod_unfold split: option.split)

lemma eligible_ready: "fst (eligibleReplacementLocked now tag s) \<longleftrightarrow> replacementReady tag s"
  by (auto simp: eligibleReplacementLocked_def replacementReady_def case_prod_unfold
      split: option.split)

lemma firstEligible_prunes: "prunes s (snd (firstEligible now cs s))"
proof (induction now cs s rule: firstEligible.induct)
  case (2 now c cs s)
  obtain ok s' where r: "eligibleReplacementLocked now (rc_tag c) s = (ok, s')" by force
  have "prunes s s'" using eligible_prunes [of s now "rc_tag c"] r by simp
  then show ?case using r 2 by (cases ok) (auto intro: prunes_trans)
qed simp

lemma firstEligible_ready:
  "fst (firstEligible now cs s) \<noteq> '''' \<Longrightarrow>
   replacementReady (fst (firstEligible now cs s)) s \<and> fst (firstEligible now cs s) \<in> rc_tag ` set cs"
proof (induction now cs s rule: firstEligible.induct)
  case (2 now c cs s)
  obtain ok s' where r: "eligibleReplacementLocked now (rc_tag c) s = (ok, s')" by force
  show ?case
  proof (cases ok)
    case True
    with r eligible_ready [of now "rc_tag c" s] show ?thesis by simp
  next
    case False
    have "prunes s s'" using eligible_prunes [of s now "rc_tag c"] r by simp
    with False r 2 show ?thesis by (auto simp: prunes_ready)
  qed
qed simp

lemma preCandidateFor_prunes: "prunes s (snd (preCandidateFor now tag out lr s))"
  using prunes_snapshot by (auto simp: preCandidateFor_def Let_def case_prod_unfold split: option.split)

lemma preCandidates_prunes: "prunes s (snd (preCandidates now tags s))"
proof (induction now tags s rule: preCandidates.induct)
  case (2 now tag tags s)
  show ?case
  proof (cases "gget (m_members s) tag")
    case (Some out)
    let ?beh = "behavior s (ob_type out)"
    show ?thesis
    proof (cases "pb_excludeFromPool ?beh")
      case False
      obtain p s1 where p: "preCandidateFor now tag out (pb_lastResort ?beh) s = (p, s1)" by force
      have "prunes s1 (snd (preCandidates now tags s1))"
        by (rule "2.IH"(3) [OF Some refl False]) (simp_all add: p)
      moreover have "prunes s s1"
        using preCandidateFor_prunes [of s now tag out "pb_lastResort ?beh"] by (simp add: p)
      ultimately show ?thesis
        using Some False p by (auto simp: case_prod_unfold Let_def intro: prunes_trans)
    qed (use 2 Some in \<open>simp add: Let_def\<close>)
  qed (use 2 in simp)
qed simp

lemma rankLocked_prunes: "prunes s (snd (rankLocked now s))"
  by (simp add: rankLocked_def Let_def case_prod_unfold preCandidates_prunes)

lemma cleanestTier_subset: "set (cleanestTier out) \<subseteq> set out"
  by (auto simp: cleanestTier_def Let_def dest: in_set_takeD in_set_dropD)

lemma split_subset:
  "set (fst (splitHealthyForLocked ranked network)) \<subseteq> set (snd (splitHealthyForLocked ranked network))"
  "set (snd (splitHealthyForLocked ranked network)) \<subseteq> set ranked"
  using cleanestTier_subset [of "eligibleFor ranked network"] eligibleFor_subset [of ranked network]
  by (auto simp: splitHealthyForLocked_def Let_def)

lemma findProbed_prunes: "prunes s (snd (findProbedReplacementLocked now network x s))"
  using prunes_trans [OF rankLocked_prunes firstEligible_prunes]
  by (simp add: findProbedReplacementLocked_def Let_def case_prod_unfold)

lemma findProbed_ready:
  assumes "fst (findProbedReplacementLocked now network x s) = t" and "t \<noteq> ''''"
  shows "replacementReady t s \<and> t \<noteq> x"
proof -
  let ?ranked = "filter (\<lambda>c. rc_tag c \<noteq> x) (fst (rankLocked now s))"
  let ?pool = "fst (splitHealthyForLocked ?ranked network)"
  have t: "t = fst (firstEligible now ?pool (snd (rankLocked now s)))"
    using assms(1) by (simp add: findProbedReplacementLocked_def Let_def case_prod_unfold)
  with assms(2) have ready: "replacementReady t (snd (rankLocked now s))" "t \<in> rc_tag ` set ?pool"
    using firstEligible_ready by blast+
  moreover have "set ?pool \<subseteq> set ?ranked" using split_subset by blast
  ultimately show ?thesis by (auto simp: prunes_ready [OF rankLocked_prunes])
qed

text \<open>The replacement a switch uses: the proposed one when it is ready, else the best probed one.\<close>

definition chosenReplacement :: "time \<Rightarrow> tag \<Rightarrow> tag \<Rightarrow> mas \<Rightarrow> tag \<times> mas" where
  "chosenReplacement now failedTag replacementTag s =
     (let (ok, s) = (if replacementTag = '''' then (False, s)
                     else eligibleReplacementLocked now replacementTag s) in
      if \<not> ok then findProbedReplacementLocked now ''tcp'' failedTag s else (replacementTag, s))"

lemma chosen_prunes: "prunes s (snd (chosenReplacement now f r s))"
  using eligible_prunes [of s now r] findProbed_prunes
  by (auto simp: chosenReplacement_def Let_def case_prod_unfold intro: prunes_trans)

lemma chosen_proposed: "replacementReady r s \<Longrightarrow> r \<noteq> '''' \<Longrightarrow> fst (chosenReplacement now f r s) = r"
  using eligible_ready [of now r s] by (simp add: chosenReplacement_def Let_def case_prod_unfold)

lemma chosen_ready:
  assumes "fst (chosenReplacement now f r s) \<noteq> ''''" and "\<not> replacementReady f s"
  shows "replacementReady (fst (chosenReplacement now f r s)) s \<and> fst (chosenReplacement now f r s) \<noteq> f"
proof (cases "r \<noteq> '''' \<and> replacementReady r s")
  case True
  with assms chosen_proposed [of r s now f] show ?thesis by auto
next
  case False
  let ?s = "if r = '''' then s else snd (eligibleReplacementLocked now r s)"
  have eq: "chosenReplacement now f r s = findProbedReplacementLocked now ''tcp'' f ?s"
    using False eligible_ready [of now r s]
    by (auto simp: chosenReplacement_def Let_def case_prod_unfold)
  have "prunes s ?s" using eligible_prunes by simp
  with findProbed_ready [OF refl assms(1) [unfolded eq]] show ?thesis
    by (simp add: eq prunes_ready)
qed

lemma trySwitch_eq:
  "trySwitchAfterConfirmedFailureLocked e f r s =
     (if m_stickyTcp s \<noteq> f \<or> gget (m_members s) f = None then s
      else case gget (m_histories s) f of
        None \<Rightarrow> s
      | Some h \<Rightarrow>
          let s1 = s\<lparr>m_histories := gput f (snd (lh_snapshot (ev_now e) (hp_userFailureWindow (m_hist s)) h))
                                      (m_histories s)\<rparr>;
              t = fst (chosenReplacement (ev_now e) f r s1);
              s2 = snd (chosenReplacement (ev_now e) f r s1) in
          if lh_consecutiveFailures h = 0 then s1
          else if t = '''' \<or> (m_switchAt s2 \<noteq> 0 \<and> m_switchTag s2 \<noteq> f \<and>
                    ev_now e - m_switchAt s2 < cf_confirmedFailureSwitchCooldown (m_cfg s2)) then s2
          else s2\<lparr>m_stickyTcp := t,
                  m_histories := gput f (startRecoveryGate (ev_now e) (historyForLocked f s2)) (m_histories s2),
                  m_switchAt := ev_now e, m_switchTag := t\<rparr>)"
  by (auto simp: trySwitchAfterConfirmedFailureLocked_def chosenReplacement_def Let_def
      case_prod_unfold split: option.split)

text \<open>A confirmed failure moves TCP traffic only as intended. Either nothing changes but
  pruned windows, or all of this holds: the failed member was the TCP selection and has failed
  its latest probe; the new selection is another member, whose probe is not stuck, whose latest
  probe passed and which is under no recovery gate; the failed member starts its recovery gate
  now; the switch is recorded as the latest one; and the previous switch was not one made within
  the cooldown to some other member.\<close>

lemma confirmed_failure_switch_sound:
  "let s' = trySwitchAfterConfirmedFailureLocked e failed proposed s in
     prunes s s' \<or>
     (m_stickyTcp s = failed \<and> 0 < lh_consecutiveFailures (historyForLocked failed s) \<and>
      m_stickyTcp s' \<noteq> failed \<and> replacementReady (m_stickyTcp s') s \<and>
      lh_recoveryGateStartedAt (historyForLocked failed s') = ev_now e \<and>
      m_switchAt s' = ev_now e \<and> m_switchTag s' = m_stickyTcp s' \<and>
      (m_switchAt s = 0 \<or> m_switchTag s = failed \<or>
       cf_confirmedFailureSwitchCooldown (m_cfg s) \<le> ev_now e - m_switchAt s))"
proof (cases "m_stickyTcp s \<noteq> failed \<or> gget (m_members s) failed = None \<or>
              gget (m_histories s) failed = None")
  case True
  then show ?thesis by (auto simp: trySwitch_eq)
next
  case False
  then obtain h where sticky: "m_stickyTcp s = failed" and mem: "gget (m_members s) failed \<noteq> None"
    and h: "gget (m_histories s) failed = Some h" by auto
  define s1 where "s1 = s\<lparr>m_histories := gput failed (snd (lh_snapshot (ev_now e)
    (hp_userFailureWindow (m_hist s)) h)) (m_histories s)\<rparr>"
  define t s2 where "t = fst (chosenReplacement (ev_now e) failed proposed s1)"
    and "s2 = snd (chosenReplacement (ev_now e) failed proposed s1)"
  have p1: "prunes s s1" unfolding s1_def by (rule prunes_snapshot [OF h])
  then have p2: "prunes s s2" unfolding s2_def by (rule prunes_trans [OF _ chosen_prunes])
  note eq = trySwitch_eq [of e failed proposed s, folded s1_def]
  show ?thesis
  proof (cases "lh_consecutiveFailures h = 0 \<or> t = '''' \<or> (m_switchAt s \<noteq> 0 \<and> m_switchTag s \<noteq> failed \<and>
           ev_now e - m_switchAt s < cf_confirmedFailureSwitchCooldown (m_cfg s))")
    case True
    then have "trySwitchAfterConfirmedFailureLocked e failed proposed s \<in> {s1, s2}"
      using sticky mem h prunes_frame [OF p2]
      by (auto simp: eq Let_def simp flip: s1_def t_def s2_def)
    then show ?thesis using p1 p2 by auto
  next
    case False
    then have "\<not> replacementReady failed s1"
      using h by (simp add: prunes_ready [OF p1]) (simp add: replacementReady_def)
    with False have ready: "replacementReady t s \<and> t \<noteq> failed"
      using chosen_ready [of "ev_now e" failed proposed s1]
      by (simp add: prunes_ready [OF p1] flip: t_def)
    have "trySwitchAfterConfirmedFailureLocked e failed proposed s =
      s2\<lparr>m_stickyTcp := t,
         m_histories := gput failed (startRecoveryGate (ev_now e) (historyForLocked failed s2)) (m_histories s2),
         m_switchAt := ev_now e, m_switchTag := t\<rparr>"
      using False sticky mem h prunes_frame [OF p2]
      by (auto simp: eq Let_def simp flip: s1_def t_def s2_def)
    then show ?thesis
      using ready sticky h False
      by (simp add: historyForLocked_def startRecoveryGate_def Let_def word_gt_0) linarith
  qed
qed

text \<open>A confirmed failure does move traffic when it can: if the failed member is the TCP
  selection, its latest probe failed, the proposed replacement is ready and no other member was
  switched to within the cooldown, then the replacement is the TCP selection afterwards.\<close>

lemma confirmed_failure_switches:
  assumes "m_stickyTcp s = failed" and "gget (m_members s) failed = Some out"
    and "gget (m_histories s) failed = Some h" and "0 < lh_consecutiveFailures h"
    and "proposed \<noteq> ''''" and "replacementReady proposed s"
    and "m_switchAt s = 0 \<or> m_switchTag s = failed \<or>
         cf_confirmedFailureSwitchCooldown (m_cfg s) \<le> ev_now e - m_switchAt s"
  shows "m_stickyTcp (trySwitchAfterConfirmedFailureLocked e failed proposed s) = proposed"
proof -
  let ?s1 = "s\<lparr>m_histories := gput failed (snd (lh_snapshot (ev_now e)
    (hp_userFailureWindow (m_hist s)) h)) (m_histories s)\<rparr>"
  have p1: "prunes s ?s1" by (rule prunes_snapshot [OF assms(3)])
  then have t: "fst (chosenReplacement (ev_now e) failed proposed ?s1) = proposed"
    using assms(5,6) by (intro chosen_proposed) (simp_all add: prunes_ready)
  have "prunes s (snd (chosenReplacement (ev_now e) failed proposed ?s1))"
    by (rule prunes_trans [OF p1 chosen_prunes])
  note frame = prunes_frame [OF this]
  have "\<not> (m_switchAt s \<noteq> 0 \<and> m_switchTag s \<noteq> failed \<and>
           ev_now e - m_switchAt s < cf_confirmedFailureSwitchCooldown (m_cfg s))"
    using assms(7) by linarith
  then show ?thesis
    unfolding trySwitch_eq Let_def
    using assms(1-5) by (auto simp: t frame)
qed

end
