(* ===== verification/Auto_Probe.thy ===== *)
theory Auto_Probe
  imports Auto_Rank
begin

text \<open>
  The probe scheduler (\<open>mutableautoselect_scheduler.go\<close>): requesting and dispatching probes,
  their completion, watchdog and cancellation, the waiters of cycles, ladders and URL tests, the
  exhaustion signal, pause and network changes, and the background timers.

  Every definition is one critical section, or a part of one. A goroutine that waits (a ladder, a
  cycle, a URL test) is the two critical sections around its wait. A timer callback and the return
  of a probe name the attempt they belong to by its sequence number.
\<close>

section \<open>Waiters\<close>

definition pastDeadline :: "time \<Rightarrow> probeWaiter \<Rightarrow> bool" where
  "pastDeadline now w \<longleftrightarrow> pw_deadline w \<noteq> 0 \<and> \<not> now < pw_deadline w"

definition successWithinBudget :: "probeOutcome \<Rightarrow> probeWaiter \<Rightarrow> bool" where
  "successWithinBudget oc w \<longleftrightarrow>
     po_success oc \<and> (pw_deadline w = 0 \<or> \<not> po_completed oc > pw_deadline w)"

fun waiterMembers ::
  "time \<Rightarrow> bool \<Rightarrow> mas \<Rightarrow> tag list \<Rightarrow> (tag, probeWaitMember) gomap \<Rightarrow> (tag, probeWaitMember) gomap" where
  "waiterMembers now filtered s [] ms = ms"
| "waiterMembers now filtered s (tag # tags) ms =
     waiterMembers now filtered s tags
       (case gget (m_members s) tag of
          None \<Rightarrow> ms
        | Some out \<Rightarrow>
            let beh = behavior s (ob_type out) in
            (case gget (m_probeMembers s) tag of
               None \<Rightarrow> ms
             | Some state \<Rightarrow>
                 if pb_excludeFromPool beh \<or> pb_lastResort beh then ms
                 else gput tag
                   \<lparr>wm_membershipID = ms_membershipID state,
                    wm_fresh = (if filtered \<and> hasFreshProbeOutcomeLocked tag now s
                                then ms_outcome state else None)\<rparr> ms))"

definition newProbeWaiterLocked :: "env \<Rightarrow> bool \<Rightarrow> mas \<Rightarrow> probeWaiter" where
  "newProbeWaiterLocked e filtered s =
     \<lparr>pw_source = '''', pw_evaluated = False, pw_counted = False, pw_successes = None,
      pw_sequence = m_sequence s, pw_generation = m_generation s, pw_pauseEpoch = m_pauseEpoch s,
      pw_members = waiterMembers (ev_now e) filtered s (m_tags s) [],
      pw_deadline = 0, pw_timer = False\<rparr>"

text \<open>Outcomes are compared as pointers in the source; a recorded outcome has a sequence number of
  its own, so equal values are the same outcome.\<close>

definition waiterOutcomeLocked ::
  "probeWaiter \<Rightarrow> tag \<Rightarrow> probeWaitMember \<Rightarrow> mas \<Rightarrow> probeOutcome option" where
  "waiterOutcomeLocked w tag m s =
     (if \<not> sameMembershipLocked tag (wm_membershipID m) s then None
      else case gget (m_probeMembers s) tag of
        None \<Rightarrow> None
      | Some state \<Rightarrow>
          (case ms_outcome state of
             None \<Rightarrow> None
           | Some oc \<Rightarrow>
               if \<not> outcomeCurrentLocked tag oc s then None
               else if Some oc = wm_fresh m \<or> po_sequence oc > pw_sequence w then Some oc
               else None))"

definition waiterFinishedLocked :: "probeWaiter \<Rightarrow> mas \<Rightarrow> bool" where
  "waiterFinishedLocked w s \<longleftrightarrow>
     list_all (\<lambda>(tag, m).
       (case gget (m_members s) tag of
          None \<Rightarrow> True
        | Some out \<Rightarrow> \<not> sameMembershipLocked tag (wm_membershipID m) s \<or> stuckProbeLocked out s) \<or>
       waiterOutcomeLocked w tag m s \<noteq> None) (pw_members w)"

definition waiterScopeChangedLocked :: "probeWaiter \<Rightarrow> mas \<Rightarrow> bool" where
  "waiterScopeChangedLocked w s \<longleftrightarrow>
     \<not> matchesGenerationLocked (pw_generation w) s \<or> pw_pauseEpoch w \<noteq> m_pauseEpoch s"

definition waiterDoneLocked :: "env \<Rightarrow> probeWaiter \<Rightarrow> mas \<Rightarrow> bool" where
  "waiterDoneLocked e w s =
     (if isClosed s then True
      else if pw_successes w = None \<and> waiterScopeChangedLocked w s then True
      else if pastDeadline (ev_now e) w then True
      else waiterFinishedLocked w s)"

section \<open>Evaluating reachability\<close>

definition lastResortSuccessFreshness :: duration where
  "lastResortSuccessFreshness = 5 * minute"

text \<open>A regular member whose probe, sequenced after the waiter or accepted as fresh, succeeded in
  time.\<close>

definition countsOrdinary :: "probeWaiter \<Rightarrow> mas \<Rightarrow> tag \<Rightarrow> bool" where
  "countsOrdinary w s tag =
     (case (gget (m_members s) tag, gget (m_probeMembers s) tag) of
        (Some out, Some state) \<Rightarrow>
          (case ms_outcome state of
             None \<Rightarrow> False
           | Some oc \<Rightarrow>
               if pb_lastResort (behavior s (ob_type out)) \<or> stuckProbeLocked out s then False
               else
                 let acceptedFresh =
                       (case gget (pw_members w) tag of
                          None \<Rightarrow> False
                        | Some m \<Rightarrow> wm_membershipID m = ms_membershipID state \<and> wm_fresh m = Some oc) in
                 (acceptedFresh \<or> po_sequence oc > pw_sequence w) \<and>
                 outcomeCurrentLocked tag oc s \<and> successWithinBudget oc w)
      | _ \<Rightarrow> False)"

definition countsLastResort :: "env \<Rightarrow> probeWaiter \<Rightarrow> mas \<Rightarrow> rankedCandidate \<Rightarrow> bool" where
  "countsLastResort e w s c =
     (if rc_demote c \<noteq> demoteLastResort then False
      else case gget (m_probeMembers s) (rc_tag c) of
        None \<Rightarrow> False
      | Some state \<Rightarrow>
          (case ms_outcome state of
             None \<Rightarrow> False
           | Some oc \<Rightarrow>
               outcomeCurrentLocked (rc_tag c) oc s \<and>
               ev_now e - po_completed oc \<le> lastResortSuccessFreshness \<and>
               successWithinBudget oc w))"

definition evaluateProbesLocked :: "env \<Rightarrow> probeWaiter \<Rightarrow> mas \<Rightarrow> probeWaiter \<times> mas" where
  "evaluateProbesLocked e w s =
     (if pw_evaluated w then (w, s)
      else
        let w = w\<lparr>pw_evaluated := True\<rparr> in
        if isClosed s \<or> paused e \<or> waiterScopeChangedLocked w s then (w, s)
        else
          let w = w\<lparr>pw_counted := True\<rparr>;
              ordinary = length (filter (countsOrdinary w s) (m_tags s));
              (ranked, s) = rankLocked (ev_now e) s;
              reachable = ordinary + length (filter (countsLastResort e w s) ranked) in
          (w, if reachable = 0 then emitExhaustionLocked s else s))"

section \<open>The ladder's budget\<close>

definition startLadderBudgetLocked :: "env \<Rightarrow> mas \<Rightarrow> mas" where
  "startLadderBudgetLocked e s =
     (case m_ladderWaiter s of
        None \<Rightarrow> s
      | Some w \<Rightarrow>
          if pw_deadline w \<noteq> 0 \<or> m_slotsUsed s \<ge> probeLimit s then s
          else s\<lparr>m_ladderWaiter := Some (w\<lparr>pw_deadline := ev_now e + cf_ladderTotalBudget (m_cfg s),
                                           pw_timer := True\<rparr>)\<rparr>)"

definition expireLadderLocked :: "env \<Rightarrow> mas \<Rightarrow> mas" where
  "expireLadderLocked e s =
     (case m_ladderWaiter s of
        None \<Rightarrow> s
      | Some w \<Rightarrow>
          if pastDeadline (ev_now e) w
          then let (w, s) = evaluateProbesLocked e w s in s\<lparr>m_ladderWaiter := Some w\<rparr>
          else s)"

text \<open>The ladder's timer: evaluates the ladder it was armed for, unless that one is over, and
  wakes the waiters.\<close>

definition ladderTimerFired :: "env \<Rightarrow> mas \<Rightarrow> mas" where
  "ladderTimerFired e s =
     (case m_ladderWaiter s of
        None \<Rightarrow> notifyProbesLocked s
      | Some w \<Rightarrow>
          if pw_timer w
          then let (w, s) = evaluateProbesLocked e w s in
               notifyProbesLocked (s\<lparr>m_ladderWaiter := Some w\<rparr>)
          else notifyProbesLocked s)"

section \<open>Requesting probes\<close>

definition raiseNeed :: "probeNeed \<Rightarrow> memberProbeState \<Rightarrow> memberProbeState" where
  "raiseNeed need st = (if need > ms_need st then st\<lparr>ms_need := need\<rparr> else st)"

definition requestProbe :: "probeNeed \<Rightarrow> bool \<Rightarrow> tag \<Rightarrow> mas \<Rightarrow> mas" where
  "requestProbe need ordinaryOnly tag s =
     (case gget (m_members s) tag of
        None \<Rightarrow> s
      | Some out \<Rightarrow>
          let beh = behavior s (ob_type out) in
          if pb_excludeFromPool beh \<or> (ordinaryOnly \<and> pb_lastResort beh) then s
          else (case gget (m_probeMembers s) tag of
                  None \<Rightarrow> s
                | Some st \<Rightarrow> s\<lparr>m_probeMembers := gput tag (raiseNeed need st) (m_probeMembers s)\<rparr>))"

definition requestProbesLocked :: "tag list option \<Rightarrow> probeNeed \<Rightarrow> bool \<Rightarrow> mas \<Rightarrow> mas" where
  "requestProbesLocked tags need ordinaryOnly s =
     fold (requestProbe need ordinaryOnly) (case tags of None \<Rightarrow> m_tags s | Some ts \<Rightarrow> ts) s"

section \<open>Dispatching\<close>

definition startProbeLocked ::
  "env \<Rightarrow> tag \<Rightarrow> outbound \<Rightarrow> protocolBehavior \<Rightarrow> memberProbeState \<Rightarrow> bool \<Rightarrow> mas \<Rightarrow> mas" where
  "startProbeLocked e tag out beh state holdsSlot s =
     (let sequence = m_sequence s + 1;
          attempt = \<lparr>pa_sequence = sequence, pa_tag = tag, pa_outbound = out,
                     pa_membershipID = ms_membershipID state, pa_generation = m_generation s,
                     pa_url = probeURLForLocked tag s, pa_deadline = ev_now e + probeBound beh,
                     pa_lastResort = pb_lastResort beh, pa_finalized = False, pa_stuck = False,
                     pa_holdsSlot = holdsSlot, pa_canceled = False, pa_watchdogStopped = False\<rparr> in
      s\<lparr>m_sequence := sequence, m_inFlight := gput out attempt (m_inFlight s),
        m_slotsUsed := (if holdsSlot then m_slotsUsed s + 1 else m_slotsUsed s)\<rparr>)"

text \<open>One iteration of the loop over the tags.\<close>

definition dispatchTag :: "env \<Rightarrow> tag \<Rightarrow> mas \<Rightarrow> mas" where
  "dispatchTag e tag s =
     (case gget (m_probeMembers s) tag of
        None \<Rightarrow> s
      | Some state \<Rightarrow>
          if ms_need state = probeNotNeeded then s
          else case gget (m_members s) tag of
            None \<Rightarrow> s
          | Some out \<Rightarrow>
              let beh = behavior s (ob_type out);
                  clearNeed = s\<lparr>m_probeMembers :=
                    gput tag (state\<lparr>ms_need := probeNotNeeded\<rparr>) (m_probeMembers s)\<rparr> in
              if pb_excludeFromPool beh then clearNeed
              else if ms_need state = probeIfStale \<and> hasFreshProbeOutcomeLocked tag (ev_now e) s
                   then clearNeed
              else
                let needsSlot = (\<not> pb_lastResort beh \<and> \<not> ms_confirmationPending state) in
                if gget (m_inFlight s) out \<noteq> None \<or> (needsSlot \<and> m_slotsUsed s \<ge> probeLimit s) then s
                else startProbeLocked e tag out beh state needsSlot s)"

definition dispatchProbesLocked :: "env \<Rightarrow> mas \<Rightarrow> mas" where
  "dispatchProbesLocked e s =
     (if isClosed s \<or> paused e then s
      else let s = startLadderBudgetLocked e s in fold (dispatchTag e) (m_tags s) s)"

section \<open>The end of an attempt\<close>

definition validProbeLocked :: "env \<Rightarrow> probeAttempt \<Rightarrow> mas \<Rightarrow> bool" where
  "validProbeLocked e a s \<longleftrightarrow>
     \<not> (isClosed s \<or> paused e) \<and> gget (m_members s) (pa_tag a) = Some (pa_outbound a) \<and>
     sameMembershipLocked (pa_tag a) (pa_membershipID a) s \<and>
     scopeCurrentLocked (pa_tag a) (pa_url a) (pa_generation a) (pa_lastResort a) s"

text \<open>The attempts live in \<open>inFlightProbes\<close>, so a change of an attempt is a change of its entry.\<close>

definition updAttempt :: "outbound \<Rightarrow> (probeAttempt \<Rightarrow> probeAttempt) \<Rightarrow> mas \<Rightarrow> mas" where
  "updAttempt out f s =
     (case gget (m_inFlight s) out of
        None \<Rightarrow> s
      | Some a \<Rightarrow> s\<lparr>m_inFlight := gput out (f a) (m_inFlight s)\<rparr>)"

definition updMember :: "tag \<Rightarrow> (memberProbeState \<Rightarrow> memberProbeState) \<Rightarrow> mas \<Rightarrow> mas" where
  "updMember tag f s =
     (case gget (m_probeMembers s) tag of
        None \<Rightarrow> s
      | Some st \<Rightarrow> s\<lparr>m_probeMembers := gput tag (f st) (m_probeMembers s)\<rparr>)"

definition releaseProbeSlotLocked :: "env \<Rightarrow> outbound \<Rightarrow> mas \<Rightarrow> mas" where
  "releaseProbeSlotLocked e out s =
     startLadderBudgetLocked e
       (case gget (m_inFlight s) out of
          None \<Rightarrow> s
        | Some a \<Rightarrow>
            if pa_holdsSlot a
            then updAttempt out (\<lambda>a. a\<lparr>pa_holdsSlot := False\<rparr>) (s\<lparr>m_slotsUsed := m_slotsUsed s - 1\<rparr>)
            else s)"

definition recordProbeOutcomeLocked :: "env \<Rightarrow> tag \<Rightarrow> probeOutcome \<Rightarrow> mas \<Rightarrow> probeOutcome \<times> mas" where
  "recordProbeOutcomeLocked e tag oc s =
     (let sequence = m_sequence s + 1;
          oc = oc\<lparr>po_sequence := sequence, po_completed := ev_now e\<rparr>;
          s = updMember tag (\<lambda>st. st\<lparr>ms_outcome := Some oc\<rparr>) (s\<lparr>m_sequence := sequence\<rparr>);
          (_, s) = mutateHistoryLocked e tag
                     (\<lambda>h now. (True, recordProbe (po_success oc) (po_delayMs oc) now h)) s in
      (oc, s))"

definition collectSuccess :: "probeAttempt \<Rightarrow> probeOutcome \<Rightarrow> probeWaiter \<Rightarrow> probeWaiter" where
  "collectSuccess a oc w =
     (case gget (pw_members w) (pa_tag a) of
        None \<Rightarrow> w
      | Some m \<Rightarrow>
          if wm_membershipID m = pa_membershipID a \<and> po_sequence oc > pw_sequence w
          then w\<lparr>pw_successes := map_option (gput (pa_tag a) oc) (pw_successes w)\<rparr> else w)"

text \<open>What an accepted outcome makes of the member's need and of a pending confirmation. A
  confirmation is settled only by an attempt sequenced after the request.\<close>

definition settleMember :: "env \<Rightarrow> probeAttempt \<Rightarrow> bool \<Rightarrow> mas \<Rightarrow> mas" where
  "settleMember e a success s =
     (case gget (m_probeMembers s) (pa_tag a) of
        None \<Rightarrow> s
      | Some state \<Rightarrow>
          if \<not> ms_confirmationPending state
          then updMember (pa_tag a) (\<lambda>st. st\<lparr>ms_need := probeNotNeeded\<rparr>) s
          else if \<not> pa_sequence a > ms_confirmSequence state then s
          else
            let s = updMember (pa_tag a) (\<lambda>st. st\<lparr>ms_need := probeNotNeeded,
                      ms_confirmationPending := False, ms_replacement := ''''\<rparr>) s in
            if \<not> success then trySwitchAfterConfirmedFailureLocked e (pa_tag a) (ms_replacement state) s
            else s)"

definition collectSuccesses :: "probeAttempt \<Rightarrow> bool \<Rightarrow> probeOutcome \<Rightarrow> mas \<Rightarrow> mas" where
  "collectSuccesses a success oc s =
     (if success \<and> \<not> pa_lastResort a
      then s\<lparr>m_urlWaiters := gmap (collectSuccess a oc) (m_urlWaiters s)\<rparr> else s)"

definition acceptProbeLocked :: "env \<Rightarrow> probeAttempt \<Rightarrow> bool \<Rightarrow> u32 \<Rightarrow> mas \<Rightarrow> mas" where
  "acceptProbeLocked e a success delayMs s =
     (let s = expireLadderLocked e s in
      if \<not> validProbeLocked e a s then s
      else
        let (oc, s) = recordProbeOutcomeLocked e (pa_tag a)
               \<lparr>po_sequence = 0, po_success = success, po_delayMs = delayMs, po_completed = 0,
                po_generation = pa_generation a, po_url = pa_url a, po_lastResort = pa_lastResort a\<rparr> s in
        notifyProbesLocked (settleMember e a success (collectSuccesses a success oc s)))"

definition finishProbeLocked :: "env \<Rightarrow> outbound \<Rightarrow> bool \<Rightarrow> u32 \<Rightarrow> mas \<Rightarrow> mas" where
  "finishProbeLocked e out success delayMs s =
     (case gget (m_inFlight s) out of
        None \<Rightarrow> s
      | Some a \<Rightarrow>
          let s = (if \<not> pa_finalized a
                   then acceptProbeLocked e a success delayMs
                          (updAttempt out (\<lambda>a. a\<lparr>pa_finalized := True\<rparr>) s)
                   else s) in
          releaseProbeSlotLocked e out (updAttempt out (\<lambda>a. a\<lparr>pa_canceled := True\<rparr>) s))"

definition timeoutProbeLocked :: "env \<Rightarrow> outbound \<Rightarrow> mas \<Rightarrow> mas" where
  "timeoutProbeLocked e out s =
     (let s = expireLadderLocked e s in
      case gget (m_inFlight s) out of
        None \<Rightarrow> s
      | Some a \<Rightarrow>
          if pa_stuck a then s
          else notifyProbesLocked
                 (finishProbeLocked e out False 0 (updAttempt out (\<lambda>a. a\<lparr>pa_stuck := True\<rparr>) s)))"

definition isAttempt :: "outbound \<Rightarrow> nat \<Rightarrow> mas \<Rightarrow> bool" where
  "isAttempt out sequence s =
     (case gget (m_inFlight s) out of None \<Rightarrow> False | Some a \<Rightarrow> pa_sequence a = sequence)"

text \<open>The watchdog's callback.\<close>

definition watchdogFired :: "env \<Rightarrow> outbound \<Rightarrow> nat \<Rightarrow> mas \<Rightarrow> mas" where
  "watchdogFired e out sequence s =
     (if \<not> isAttempt out sequence s then s
      else dispatchProbesLocked e (timeoutProbeLocked e out s))"

definition completeProbe :: "env \<Rightarrow> outbound \<Rightarrow> nat \<Rightarrow> bool \<Rightarrow> u32 \<Rightarrow> mas \<Rightarrow> mas" where
  "completeProbe e out sequence success delayMs s =
     (case gget (m_inFlight s) out of
        None \<Rightarrow> s
      | Some a \<Rightarrow>
          if pa_sequence a \<noteq> sequence then s
          else
            let s = (if \<not> ev_now e < pa_deadline a then timeoutProbeLocked e out s else s);
                s = finishProbeLocked e out success delayMs s;
                s = s\<lparr>m_inFlight := gdel out (m_inFlight s)\<rparr> in
            dispatchProbesLocked e (notifyProbesLocked s))"

text \<open>What the probe's goroutine reports: the delay in whole milliseconds, at least 1.\<close>

definition probeDelayMs :: "duration \<Rightarrow> u32" where
  "probeDelayMs delay = word_of_int (max 1 (delay div millisecond))"

definition cancelProbeLocked :: "probeAttempt \<Rightarrow> probeAttempt" where
  "cancelProbeLocked a = a\<lparr>pa_finalized := True, pa_canceled := True\<rparr>"

definition cancelProbesLocked :: "bool \<Rightarrow> mas \<Rightarrow> mas" where
  "cancelProbesLocked ordinaryOnly s =
     notifyProbesLocked
       (s\<lparr>m_inFlight := gmap (\<lambda>a. if pa_finalized a \<or> (ordinaryOnly \<and> pa_lastResort a) then a
                                     else cancelProbeLocked a) (m_inFlight s)\<rparr>)"

section \<open>Ladders, cycles and URL tests\<close>

definition runLadder :: "env \<Rightarrow> nat \<Rightarrow> mas \<Rightarrow> mas" where
  "runLadder e generation s =
     (if isClosed s \<or> paused e \<or> m_ladderWaiter s \<noteq> None \<or> \<not> matchesGenerationLocked generation s then s
      else if m_lastLadderAt s \<noteq> 0 \<and>
              ev_now e - from_unix_nano (m_lastLadderAt s) < cf_ladderCooldown (m_cfg s) then s
      else
        let w = (newProbeWaiterLocked e False s)\<lparr>pw_source := ''ladder''\<rparr>;
            s = s\<lparr>m_ladderWaiter := Some w\<rparr> in
        dispatchProbesLocked e (requestProbesLocked None probeForced False s))"

definition finishLadder :: "env \<Rightarrow> mas \<Rightarrow> mas" where
  "finishLadder e s =
     (case m_ladderWaiter s of
        None \<Rightarrow> s
      | Some w \<Rightarrow>
          let (w, s) = evaluateProbesLocked e (w\<lparr>pw_timer := False\<rparr>) s;
              s = (if pw_counted w \<and> \<not> waiterScopeChangedLocked w s
                   then s\<lparr>m_lastLadderAt := unix_nano (ev_now e)\<rparr> else s) in
          s\<lparr>m_ladderWaiter := None\<rparr>)"

definition runProbeCycle :: "env \<Rightarrow> mas \<Rightarrow> mas" where
  "runProbeCycle e s =
     (if isClosed s \<or> paused e \<or> m_periodicWaiter s \<noteq> None then s
      else
        let w = (newProbeWaiterLocked e True s)\<lparr>pw_source := ''cycle''\<rparr> in
        dispatchProbesLocked e
          (requestProbesLocked None probeIfStale False (s\<lparr>m_periodicWaiter := Some w\<rparr>)))"

definition finishProbeCycle :: "env \<Rightarrow> mas \<Rightarrow> mas" where
  "finishProbeCycle e s =
     (case m_periodicWaiter s of
        None \<Rightarrow> s
      | Some w \<Rightarrow> (snd (evaluateProbesLocked e w s))\<lparr>m_periodicWaiter := None\<rparr>)"

definition CheckOutbounds :: "env \<Rightarrow> mas \<Rightarrow> mas" where
  "CheckOutbounds e s = dispatchProbesLocked e (requestProbesLocked None probeIfStale False s)"

text \<open>\<open>outboundMgr\<close> is the outbound manager's lookup.\<close>

definition lateMember :: "env \<Rightarrow> (tag \<Rightarrow> outbound option) \<Rightarrow> tag \<Rightarrow> mas \<Rightarrow> mas" where
  "lateMember e outboundMgr tag s =
     (if gget (m_members s) tag \<noteq> None then s
      else case outboundMgr tag of None \<Rightarrow> s | Some out \<Rightarrow> addMemberLocked e tag out s)"

definition beginURLTest :: "env \<Rightarrow> (tag \<Rightarrow> outbound option) \<Rightarrow> mas \<Rightarrow> nat \<times> mas" where
  "beginURLTest e outboundMgr s =
     (let s = fold (lateMember e outboundMgr) (m_tags s) s;
          w = (newProbeWaiterLocked e False s)\<lparr>pw_successes := Some []\<rparr>;
          i = m_nextWaiter s;
          s = s\<lparr>m_urlWaiters := gput i w (m_urlWaiters s), m_nextWaiter := i + 1\<rparr> in
      (i, dispatchProbesLocked e (requestProbesLocked None probeForced False s)))"

definition urlResults :: "probeWaiter \<Rightarrow> mas \<Rightarrow> (tag, u16) gomap" where
  "urlResults w s =
     (case pw_successes w of
        None \<Rightarrow> []
      | Some successes \<Rightarrow>
          map (\<lambda>(tag, oc). (tag, ucast (min 65535 (po_delayMs oc))))
            (filter (\<lambda>(tag, oc).
               (case gget (pw_members w) tag of
                  None \<Rightarrow> sameMembershipLocked tag 0 s
                | Some m \<Rightarrow> sameMembershipLocked tag (wm_membershipID m) s) \<and>
               outcomeCurrentLocked tag oc s) successes))"

definition finishURLTest :: "nat \<Rightarrow> mas \<Rightarrow> (tag, u16) gomap \<times> mas" where
  "finishURLTest i s =
     (case gget (m_urlWaiters s) i of
        None \<Rightarrow> ([], s)
      | Some w \<Rightarrow> (urlResults w s, s\<lparr>m_urlWaiters := gdel i (m_urlWaiters s)\<rparr>))"

section \<open>Confirmations\<close>

text \<open>\<open>urlValid\<close> is \<open>probe.ValidateURL\<close> returning no error.\<close>

definition requestFailureConfirmation ::
  "env \<Rightarrow> (string \<Rightarrow> bool) \<Rightarrow> tag \<Rightarrow> tag \<Rightarrow> nat \<Rightarrow> mas \<Rightarrow> mas" where
  "requestFailureConfirmation e urlValid tag replacement generation s =
     (if isClosed s \<or> paused e \<or> \<not> matchesGenerationLocked generation s \<or> m_stickyTcp s \<noteq> tag then s
      else case gget (m_members s) tag of
        None \<Rightarrow> s
      | Some out \<Rightarrow>
          if pb_excludeFromPool (behavior s (ob_type out)) \<or> \<not> urlValid (probeURLForLocked tag s) then s
          else
            let s = requestProbesLocked (Some [tag]) probeForced False s in
            (case gget (m_probeMembers s) tag of
               None \<Rightarrow> s
             | Some state \<Rightarrow>
                 dispatchProbesLocked e
                   (if \<not> ms_confirmationPending state
                    then updMember tag (\<lambda>st. st\<lparr>ms_confirmationPending := True,
                             ms_confirmSequence := m_sequence s + 1, ms_replacement := replacement\<rparr>)
                           (s\<lparr>m_sequence := m_sequence s + 1\<rparr>)
                    else if replacement \<noteq> ''''
                    then updMember tag (\<lambda>st. st\<lparr>ms_replacement := replacement\<rparr>) s
                    else s)))"

section \<open>Pause, background probing and network changes\<close>

definition armPeriodicLocked :: "env \<Rightarrow> mas \<Rightarrow> mas" where
  "armPeriodicLocked e s =
     (if \<not> m_probing s \<or> paused e \<or> isClosed s then s
      else s\<lparr>m_periodicTimer := Some (ev_now e + cf_activeInterval (m_cfg s))\<rparr>)"

text \<open>The periodic timer's callback arms the next and runs a cycle.\<close>

definition periodicTimerFired :: "env \<Rightarrow> mas \<Rightarrow> mas" where
  "periodicTimerFired e s =
     (if \<not> m_probing s \<or> paused e \<or> isClosed s then s
      else runProbeCycle e (armPeriodicLocked e s))"

datatype pauseEvent = EventDevicePaused | EventNetworkPause | EventDeviceWake | EventNetworkWake

definition onProbePause :: "env \<Rightarrow> pauseEvent \<Rightarrow> mas \<Rightarrow> mas" where
  "onProbePause e event s =
     (if isClosed s then s
      else if event = EventDevicePaused \<or> event = EventNetworkPause
      then (cancelProbesLocked False (s\<lparr>m_pauseEpoch := m_pauseEpoch s + 1\<rparr>))\<lparr>m_periodicTimer := None\<rparr>
      else if \<not> paused e then dispatchProbesLocked e (armPeriodicLocked e s)
      else s)"

definition armIdleLocked :: "env \<Rightarrow> duration \<Rightarrow> mas \<Rightarrow> mas" where
  "armIdleLocked e delay s = s\<lparr>m_idleTimer := Some (ev_now e + delay)\<rparr>"

definition keepAliveLocked :: "env \<Rightarrow> mas \<Rightarrow> mas" where
  "keepAliveLocked e s =
     (if \<not> m_started s \<or> isClosed s then s
      else
        let s = s\<lparr>m_lastActive := ev_now e\<rparr> in
        if m_probing s then s
        else
          let s = requestProbesLocked None probeIfStale False (s\<lparr>m_probing := True\<rparr>);
              s = armPeriodicLocked e (dispatchProbesLocked e s) in
          armIdleLocked e (cf_idleThreshold (m_cfg s)) s)"

definition idleTimerFired :: "env \<Rightarrow> mas \<Rightarrow> mas" where
  "idleTimerFired e s =
     (if isClosed s \<or> \<not> m_probing s then s
      else
        let data = from_unix_nano (m_lastDataAt s);
            lastUse = (if data > m_lastActive s then data else m_lastActive s);
            remaining = cf_idleThreshold (m_cfg s) - (ev_now e - lastUse) in
        if remaining > 0 then armIdleLocked e remaining s
        else s\<lparr>m_probing := False, m_periodicTimer := None\<rparr>)"

definition closeProbesLocked :: "mas \<Rightarrow> mas" where
  "closeProbesLocked s =
     (let s = cancelProbesLocked False s;
          s = s\<lparr>m_inFlight := gmap (\<lambda>a. a\<lparr>pa_watchdogStopped := True\<rparr>) (m_inFlight s),
                m_periodicTimer := None, m_idleTimer := None,
                m_ladderWaiter := map_option (\<lambda>w. w\<lparr>pw_timer := False\<rparr>) (m_ladderWaiter s)\<rparr> in
      notifyProbesLocked s)"

definition urlRequested :: "mas \<Rightarrow> tag list" where
  "urlRequested s =
     concat (map (\<lambda>(_, w). map fst (filter (\<lambda>(tag, m). sameMembershipLocked tag (wm_membershipID m) s)
                                            (pw_members w))) (m_urlWaiters s))"

definition advanceNetworkLocked :: "env \<Rightarrow> mas \<Rightarrow> mas" where
  "advanceNetworkLocked e s =
     (let s = s\<lparr>m_generation := m_generation s + 1\<rparr>;
          s = (if ev_now e - m_lastNetworkAdvanceAt s \<ge> cf_ladderCooldown (m_cfg s)
               then s\<lparr>m_lastLadderAt := 0\<rparr> else s);
          s = cancelProbesLocked True (s\<lparr>m_lastNetworkAdvanceAt := ev_now e\<rparr>);
          s = s\<lparr>m_probeMembers := gmap (\<lambda>st. st\<lparr>ms_confirmationPending := False\<rparr>) (m_probeMembers s)\<rparr>;
          s = (if m_probing s then requestProbesLocked None probeForced True s else s) in
      if urlRequested s \<noteq> [] then requestProbesLocked (Some (urlRequested s)) probeForced True s else s)"

end
