(* ===== verification/Data_Plane.thy ===== *)
theory Data_Plane
  imports Auto_Config
begin

text \<open>
  The data-plane watchdog of a connection (\<open>mutableautoselect_dataplane.go\<close>): which reads,
  writes, errors and timer expiries charge a failure to the member that carries the connection.

  The watchdog's fields are atomics or guarded by \<open>ioMu\<close>, and reads, writes, timers and
  \<open>Close\<close> run concurrently. Each definition that changes the state is one such atomic section;
  \<open>noteIO\<close> composes them in program order, and the step relation interleaves them freely.
\<close>

section \<open>Errors and state\<close>

text \<open>An error, by the tests the code makes on it (\<open>errors.Is\<close> and \<open>errors.As\<close>).\<close>

record ioError =
  er_eof :: bool
  er_canceled :: bool
  er_timeout :: bool

definition defaultDataPlaneResetQuiet :: duration where
  "defaultDataPlaneResetQuiet = 5 * second"

record dataPlaneIO =
  dp_hasIO :: bool
  dp_lastWasWrite :: bool
  dp_quiet :: duration
  dp_proven :: bool

text \<open>\<open>wd_timer\<close> and \<open>wd_firstResponseTimer\<close> hold the times the timers are armed for;
  \<open>wd_firstResponseStarted\<close> is that the latter's pointer is not nil. \<open>wd_charges\<close> are the kinds
  passed to \<open>onFailure\<close> and \<open>wd_activity\<close> the times passed to \<open>onActivity\<close>, latest first.\<close>

record dataPlaneWatchdog =
  wd_idle :: duration
  wd_firstResponseTimeout :: duration
  wd_provedReadBytes :: nat
  wd_born :: time
  wd_lastIO :: time
  wd_lastWasWrite :: bool
  wd_firstResponseStarted :: bool
  wd_firstResponseTimer :: "time option"
  wd_readBytes :: u64
  wd_responded :: bool
  wd_proven :: bool
  wd_stalled :: bool
  wd_fired :: bool
  wd_timer :: "time option"
  wd_closed :: bool
  wd_charges :: "UserFailureKind list"
  wd_activity :: "time list"

definition wd_init :: "time \<Rightarrow> duration \<Rightarrow> nat \<Rightarrow> duration \<Rightarrow> dataPlaneWatchdog" where
  "wd_init now idle provedReadBytes firstResponseTimeout =
     \<lparr>wd_idle = idle, wd_firstResponseTimeout = firstResponseTimeout,
      wd_provedReadBytes = provedReadBytes, wd_born = now, wd_lastIO = 0, wd_lastWasWrite = False,
      wd_firstResponseStarted = False, wd_firstResponseTimer = None, wd_readBytes = 0,
      wd_responded = False, wd_proven = False, wd_stalled = False, wd_fired = False,
      wd_timer = Some (now + idle), wd_closed = False, wd_charges = [], wd_activity = []\<rparr>"

definition isTimeout :: "ioError option \<Rightarrow> bool" where
  "isTimeout err = (case err of None \<Rightarrow> False | Some er \<Rightarrow> er_timeout er)"

definition isDataPlaneFailure :: "ioError option \<Rightarrow> bool" where
  "isDataPlaneFailure err =
     (case err of
        None \<Rightarrow> False
      | Some er \<Rightarrow> if er_eof er \<or> er_canceled er then False else \<not> isTimeout err)"

definition endsQuietRead :: "bool \<Rightarrow> int \<Rightarrow> dataPlaneIO \<Rightarrow> bool" where
  "endsQuietRead isRead n st \<longleftrightarrow>
     isRead \<and> n = 0 \<and> dp_hasIO st \<and> \<not> dp_lastWasWrite st \<and> dp_quiet st \<ge> defaultDataPlaneResetQuiet"

section \<open>Atomic sections\<close>

definition snapshotIO :: "time \<Rightarrow> dataPlaneWatchdog \<Rightarrow> dataPlaneIO" where
  "snapshotIO now w =
     (let hasIO = (wd_lastIO w \<noteq> 0); lst = (if hasIO then wd_lastIO w else wd_born w) in
      \<lparr>dp_hasIO = hasIO, dp_lastWasWrite = wd_lastWasWrite w, dp_quiet = now - lst,
       dp_proven = wd_proven w\<rparr>)"

definition onActivity :: "time \<Rightarrow> dataPlaneWatchdog \<Rightarrow> dataPlaneWatchdog" where
  "onActivity now w = w\<lparr>wd_activity := now # wd_activity w\<rparr>"

definition needsResponseTracking :: "dataPlaneWatchdog \<Rightarrow> bool" where
  "needsResponseTracking w \<longleftrightarrow> wd_firstResponseTimeout w > 0 \<and> \<not> wd_responded w"

definition startFirstResponseTimer :: "time \<Rightarrow> dataPlaneWatchdog \<Rightarrow> dataPlaneWatchdog" where
  "startFirstResponseTimer now w =
     (if wd_firstResponseStarted w \<or> wd_responded w \<or> wd_stalled w then w
      else w\<lparr>wd_firstResponseStarted := True,
             wd_firstResponseTimer := Some (now + wd_firstResponseTimeout w)\<rparr>)"

definition markResponded :: "dataPlaneWatchdog \<Rightarrow> dataPlaneWatchdog" where
  "markResponded w = w\<lparr>wd_responded := True, wd_firstResponseTimer := None\<rparr>"

definition stopFirstResponseTimer :: "dataPlaneWatchdog \<Rightarrow> dataPlaneWatchdog" where
  "stopFirstResponseTimer w = w\<lparr>wd_firstResponseTimer := None\<rparr>"

text \<open>The two compare-and-swaps and the hook. Only the section that wins the first touches
  \<open>fired\<close>, so they are one section.\<close>

definition charge :: "UserFailureKind \<Rightarrow> dataPlaneWatchdog \<Rightarrow> dataPlaneWatchdog" where
  "charge kind w =
     (if wd_stalled w then w
      else
        let w = w\<lparr>wd_stalled := True\<rparr> in
        if wd_fired w then w
        else w\<lparr>wd_fired := True, wd_charges := kind # wd_charges w\<rparr>)"

definition fireNoResponse :: "dataPlaneWatchdog \<Rightarrow> dataPlaneWatchdog" where
  "fireNoResponse w = (if wd_responded w then w else charge UserFailureNoResponse w)"

definition fireStall :: "time \<Rightarrow> dataPlaneWatchdog \<Rightarrow> dataPlaneWatchdog" where
  "fireStall now w =
     (if \<not> wd_proven w then w
      else if \<not> dp_lastWasWrite (snapshotIO now w) then w
      else charge UserFailureStall w)"

definition fireResetFailure :: "dataPlaneWatchdog \<Rightarrow> dataPlaneWatchdog" where
  "fireResetFailure w = charge UserFailureReset w"

text \<open>Publishing a non-empty IO and re-arming the idle timer.\<close>

definition publishIO :: "time \<Rightarrow> bool \<Rightarrow> dataPlaneWatchdog \<Rightarrow> dataPlaneWatchdog" where
  "publishIO now isRead w =
     w\<lparr>wd_lastIO := now, wd_lastWasWrite := \<not> isRead, wd_timer := Some (now + wd_idle w)\<rparr>"

definition countRead :: "int \<Rightarrow> dataPlaneWatchdog \<Rightarrow> dataPlaneWatchdog" where
  "countRead n w =
     (if wd_proven w then w
      else
        let total = wd_readBytes w + word_of_int n; w = w\<lparr>wd_readBytes := total\<rparr> in
        if unat total \<ge> wd_provedReadBytes w then w\<lparr>wd_proven := True\<rparr> else w)"

definition closeWatchdog :: "dataPlaneWatchdog \<Rightarrow> bool \<times> dataPlaneWatchdog" where
  "closeWatchdog w =
     (if wd_closed w then (False, w)
      else (True, stopFirstResponseTimer
                    (w\<lparr>wd_closed := True, wd_stalled := True, wd_timer := None\<rparr>)))"

section \<open>Reporting an IO\<close>

definition trackResponse :: "time \<Rightarrow> int \<Rightarrow> ioError option \<Rightarrow> bool \<Rightarrow> dataPlaneWatchdog \<Rightarrow> dataPlaneWatchdog" where
  "trackResponse now n err isRead w =
     (if \<not> needsResponseTracking w then w
      else if isRead \<and> (n > 0 \<or> (err \<noteq> None \<and> \<not> isTimeout err)) then markResponded w
      else if \<not> isRead \<and> n > 0 then startFirstResponseTimer now w
      else w)"

definition noteIO :: "time \<Rightarrow> int \<Rightarrow> ioError option \<Rightarrow> bool \<Rightarrow> dataPlaneWatchdog \<Rightarrow> dataPlaneWatchdog" where
  "noteIO now n err isRead w =
     (let w = (if n > 0 \<and> err = None then onActivity now w else w) in
      if wd_stalled w then w
      else
        let w = trackResponse now n err isRead w in
        if isDataPlaneFailure err
        then (if endsQuietRead isRead n (snapshotIO now w) then w else fireResetFailure w)
        else if n \<le> 0 \<or> err \<noteq> None then w
        else
          let w = publishIO now isRead w in
          if \<not> isRead then w else countRead n w)"

text \<open>The wrappers' operations; \<open>Close\<close> also says whether it closes the underlying connection.\<close>

definition stream_Read :: "time \<Rightarrow> int \<Rightarrow> ioError option \<Rightarrow> dataPlaneWatchdog \<Rightarrow> dataPlaneWatchdog" where
  "stream_Read now n err w = noteIO now n err True w"

definition stream_Write :: "time \<Rightarrow> int \<Rightarrow> ioError option \<Rightarrow> dataPlaneWatchdog \<Rightarrow> dataPlaneWatchdog" where
  "stream_Write now n err w = noteIO now n err False w"

definition packet_WritePacket :: "time \<Rightarrow> nat \<Rightarrow> ioError option \<Rightarrow> dataPlaneWatchdog \<Rightarrow> dataPlaneWatchdog" where
  "packet_WritePacket now len err w = noteIO now (int len) err False w"

definition stream_Close :: "dataPlaneWatchdog \<Rightarrow> bool \<times> dataPlaneWatchdog" where
  "stream_Close w = closeWatchdog w"

section \<open>Interleavings\<close>

text \<open>Any section may run at any time, with any clock reading: two reads and a write may be in
  progress, a stopped timer's callback may already have been running. The publishing sections run
  only in a \<open>noteIO\<close> that saw the connection not stalled, but other sections may have stalled it
  since, so they have no guard. Likewise \<open>fireStall\<close> checks the last IO before it charges, and an IO
  may come between the two.\<close>

inductive wd_step :: "dataPlaneWatchdog \<Rightarrow> dataPlaneWatchdog \<Rightarrow> bool" where
  activity: "wd_step w (onActivity now w)"
| responded: "wd_step w (markResponded w)"
| first_write: "wd_firstResponseTimeout w > 0 \<Longrightarrow> wd_step w (startFirstResponseTimer now w)"
| no_response: "wd_firstResponseStarted w \<Longrightarrow> wd_step w (fireNoResponse w)"
| stall: "wd_step w (fireStall now w)"
| stall_decided: "wd_proven w \<Longrightarrow> wd_step w (charge UserFailureStall w)"
| reset: "wd_step w (fireResetFailure w)"
| publish: "now \<noteq> 0 \<Longrightarrow> wd_step w (publishIO now isRead w)"
| count: "wd_step w (countRead n w)"
| close: "wd_step w (snd (closeWatchdog w))"

lemmas wd_sections =
  onActivity_def startFirstResponseTimer_def markResponded_def stopFirstResponseTimer_def charge_def
  fireNoResponse_def fireStall_def fireResetFailure_def publishIO_def countRead_def closeWatchdog_def
  snapshotIO_def Let_def

definition wd_inv :: "dataPlaneWatchdog \<Rightarrow> bool" where
  "wd_inv w \<longleftrightarrow>
     (wd_fired w \<longrightarrow> wd_stalled w) \<and> (wd_closed w \<longrightarrow> wd_stalled w) \<and>
     length (wd_charges w) = (if wd_fired w then 1 else 0) \<and>
     (UserFailureNoResponse \<in> set (wd_charges w) \<longrightarrow>
        wd_firstResponseStarted w \<and> wd_firstResponseTimeout w > 0) \<and>
     (UserFailureStall \<in> set (wd_charges w) \<longrightarrow> wd_proven w) \<and>
     (wd_firstResponseStarted w \<longrightarrow> wd_firstResponseTimeout w > 0)"

lemmas failure_kind_defs = UserFailureNoResponse_def UserFailureStall_def UserFailureReset_def

lemma wd_step_inv: "wd_step w w' \<Longrightarrow> wd_inv w \<Longrightarrow> wd_inv w'"
  by (induction rule: wd_step.induct)
    (auto simp: wd_inv_def wd_sections failure_kind_defs split: if_splits)

lemma wd_init_inv: "wd_inv (wd_init now idle p frt)"
  by (simp add: wd_inv_def wd_init_def)

interpretation watchdog: invariant_system "\<lambda>w. \<exists>now idle p frt. w = wd_init now idle p frt" wd_step wd_inv
  by unfold_locales (auto intro: wd_step_inv wd_init_inv)

abbreviation wd_reaches :: "dataPlaneWatchdog \<Rightarrow> bool" where
  "wd_reaches \<equiv> reaches (\<lambda>w. \<exists>now idle p frt. w = wd_init now idle p frt) wd_step"

lemma wd_steps_inv: "wd_step\<^sup>*\<^sup>* w w' \<Longrightarrow> wd_inv w \<Longrightarrow> wd_inv w'"
  by (induction rule: rtranclp_induct) (auto intro: wd_step_inv)

text \<open>What a step never undoes.\<close>

lemma wd_step_mono:
  "wd_step w w' \<Longrightarrow>
   (wd_stalled w \<longrightarrow> wd_stalled w' \<and> wd_charges w' = wd_charges w) \<and>
   (wd_responded w \<longrightarrow> wd_responded w' \<and>
      (UserFailureNoResponse \<in> set (wd_charges w') \<longrightarrow> UserFailureNoResponse \<in> set (wd_charges w)))"
  by (induction rule: wd_step.induct) (auto simp: wd_sections failure_kind_defs)

lemma wd_steps_stalled:
  "wd_step\<^sup>*\<^sup>* w w' \<Longrightarrow> wd_stalled w \<Longrightarrow> wd_stalled w' \<and> wd_charges w' = wd_charges w"
  by (induction rule: rtranclp_induct) (auto dest: wd_step_mono)

lemma wd_steps_responded:
  "wd_step\<^sup>*\<^sup>* w w' \<Longrightarrow> wd_responded w \<Longrightarrow> wd_responded w' \<and>
   (UserFailureNoResponse \<in> set (wd_charges w') \<longrightarrow> UserFailureNoResponse \<in> set (wd_charges w))"
  by (induction rule: rtranclp_induct) (auto dest: wd_step_mono)

text \<open>C23: however reads, writes, timers and the close of a connection interleave, at most one
  failure is charged to its member; a no-response failure only after a non-empty write started the
  first-response timer on a connection that tracks responses; and a stall only on a connection
  that was proven.\<close>

theorem at_most_one_charge:
  assumes "wd_reaches w"
  shows "length (wd_charges w) \<le> 1 \<and>
    (UserFailureNoResponse \<in> set (wd_charges w) \<longrightarrow>
       wd_firstResponseStarted w \<and> wd_firstResponseTimeout w > 0) \<and>
    (UserFailureStall \<in> set (wd_charges w) \<longrightarrow> wd_proven w)"
  using watchdog.reaches_inv [OF assms] by (auto simp: wd_inv_def)

theorem at_most_one_charge_witness:
  "length (wd_charges (fireStall 9 (fireResetFailure (wd_init 1 60 4096 10)))) \<le> 1"
proof -
  have "wd_reaches (wd_init 1 60 4096 10)" by (rule reaches_init) blast
  then have "wd_reaches (fireStall 9 (fireResetFailure (wd_init 1 60 4096 10)))"
    by (meson reaches_step wd_step.reset wd_step.stall)
  from at_most_one_charge [OF this] show ?thesis by blast
qed

text \<open>After \<open>Close\<close> nothing is charged, whatever read, write or timer was in progress, and
  only the first \<open>Close\<close> closes the underlying connection.\<close>

lemma closed_never_charges:
  assumes "wd_reaches w" and "wd_step\<^sup>*\<^sup>* (snd (closeWatchdog w)) w'"
  shows "wd_charges w' = wd_charges w \<and> wd_stalled w' \<and>
         (fst (closeWatchdog w) \<longleftrightarrow> \<not> wd_closed w) \<and> \<not> fst (closeWatchdog (snd (closeWatchdog w)))"
proof -
  have "wd_stalled (snd (closeWatchdog w))" "wd_charges (snd (closeWatchdog w)) = wd_charges w"
    using watchdog.reaches_inv [OF assms(1)] by (auto simp: wd_inv_def wd_sections)
  with wd_steps_stalled [OF assms(2)] show ?thesis by (auto simp: wd_sections)
qed

section \<open>What one IO does\<close>

lemma trackResponse_sel [simp]:
  "wd_charges (trackResponse now n err isRead w) = wd_charges w"
  "wd_stalled (trackResponse now n err isRead w) = wd_stalled w"
  "wd_fired (trackResponse now n err isRead w) = wd_fired w"
  "wd_lastIO (trackResponse now n err isRead w) = wd_lastIO w"
  "wd_lastWasWrite (trackResponse now n err isRead w) = wd_lastWasWrite w"
  by (simp_all add: trackResponse_def markResponded_def startFirstResponseTimer_def)

lemma excused_iff:
  "endsQuietRead isRead n (snapshotIO now w) \<longleftrightarrow>
     isRead \<and> n = 0 \<and> wd_lastIO w \<noteq> 0 \<and> \<not> wd_lastWasWrite w \<and> 5 * second \<le> now - wd_lastIO w"
  by (auto simp: endsQuietRead_def snapshotIO_def Let_def defaultDataPlaneResetQuiet_def)

text \<open>Exactly the errors meant to demote a member do. An IO on a live connection charges a
  reset if and only if its error is neither end of file, nor cancellation, nor a timeout, and it is
  not an empty read that ends a quiet period of at least five seconds after a read; it charges
  nothing else, and on a stalled or closed connection it charges nothing.\<close>

lemma noteIO_charges:
  assumes "wd_inv w"
  shows "wd_charges (noteIO now n err isRead w) =
     (if \<not> wd_stalled w \<and> isDataPlaneFailure err \<and>
         \<not> (isRead \<and> n = 0 \<and> wd_lastIO w \<noteq> 0 \<and> \<not> wd_lastWasWrite w \<and> 5 * second \<le> now - wd_lastIO w)
      then [UserFailureReset] else wd_charges w)"
proof -
  have act: "wd_charges (onActivity now w) = wd_charges w \<and> wd_stalled (onActivity now w) = wd_stalled w"
    by (simp add: onActivity_def)
  have quiet: "isDataPlaneFailure err \<Longrightarrow> \<not> (n > 0 \<and> err = None)"
    by (cases err) (simp_all add: isDataPlaneFailure_def)
  have fresh: "\<not> wd_stalled w \<Longrightarrow> \<not> wd_fired w \<and> wd_charges w = []"
    using assms by (auto simp: wd_inv_def split: if_splits)
  show ?thesis
  proof (cases "isDataPlaneFailure err")
    case True
    with quiet have "noteIO now n err isRead w = (if wd_stalled w then w
        else if endsQuietRead isRead n (snapshotIO now (trackResponse now n err isRead w))
        then trackResponse now n err isRead w else fireResetFailure (trackResponse now n err isRead w))"
      by (auto simp: noteIO_def Let_def)
    then show ?thesis using True fresh
      by (simp add: excused_iff fireResetFailure_def charge_def)
  next
    case False
    have pub: "wd_charges (publishIO now b v) = wd_charges v" "wd_charges (countRead n v) = wd_charges v" for b v
      by (simp_all add: publishIO_def countRead_def Let_def)
    from False show ?thesis by (simp add: noteIO_def Let_def act pub)
  qed
qed

text \<open>A reply is never charged as missing. Once a read returned bytes, or an error other than
  a timeout, on a live connection that tracks responses, no interleaving of later sections charges
  a no-response failure that was not charged before.\<close>

lemma reply_disarms_no_response:
  assumes "wd_firstResponseTimeout w > 0" and "\<not> wd_stalled w" and "wd_inv w"
    and "n > 0 \<or> (err \<noteq> None \<and> \<not> isTimeout err)"
    and "wd_step\<^sup>*\<^sup>* (noteIO now n err True w) w'"
  shows "UserFailureNoResponse \<notin> set (wd_charges w')"
proof -
  define v where "v = (if n > 0 \<and> err = None then onActivity now w else w)"
  have v: "wd_firstResponseTimeout v > 0" "\<not> wd_stalled v" "wd_responded v = wd_responded w"
    using assms(1,2) by (simp_all add: v_def onActivity_def)
  then have "wd_responded (trackResponse now n err True v)"
    using assms(4) by (auto simp: trackResponse_def needsResponseTracking_def markResponded_def)
  moreover have "wd_responded (fireResetFailure u) = wd_responded u"
    "wd_responded (countRead n (publishIO now True u)) = wd_responded u" for u
    by (simp_all add: fireResetFailure_def charge_def publishIO_def countRead_def Let_def)
  ultimately have "wd_responded (noteIO now n err True w)"
    using v(2) by (auto simp: noteIO_def Let_def simp flip: v_def)
  then have "UserFailureNoResponse \<in> set (wd_charges w') \<Longrightarrow>
      UserFailureNoResponse \<in> set (wd_charges (noteIO now n err True w))"
    using wd_steps_responded [OF assms(5)] by blast
  moreover have "wd_charges w = []"
    using assms(2,3) by (auto simp: wd_inv_def split: if_splits)
  ultimately show ?thesis
    by (auto simp: noteIO_charges [OF assms(3)] failure_kind_defs split: if_splits)
qed

section \<open>Proving a connection\<close>

text \<open>A connection is proven exactly when the bytes read reach the threshold: after successful
  non-empty reads whose total fits 64 bits, on a connection that was live and new, the watchdog is
  proven if and only if there was a read and the total is at least \<open>provedReadBytes\<close>.\<close>

lemma proven_iff_threshold:
  assumes "list_all (\<lambda>n. 0 < n) ns" and "sum_list ns < 2 ^ 64"
  shows "wd_proven (fold (\<lambda>n. noteIO now n None True) ns (wd_init born idle proved frt)) \<longleftrightarrow>
         ns \<noteq> [] \<and> int proved \<le> sum_list ns"
proof -
  have "0 \<le> sum_list ns \<and>
    (let w = fold (\<lambda>n. noteIO now n None True) ns (wd_init born idle proved frt) in
     \<not> wd_stalled w \<and> wd_provedReadBytes w = proved \<and>
     (wd_proven w \<longleftrightarrow> ns \<noteq> [] \<and> int proved \<le> sum_list ns) \<and>
     (\<not> wd_proven w \<longrightarrow> uint (wd_readBytes w) = sum_list ns))"
    using assms
  proof (induction ns rule: rev_induct)
    case Nil
    then show ?case by (simp add: wd_init_def)
  next
    case (snoc n ns)
    let ?w = "fold (\<lambda>n. noteIO now n None True) ns (wd_init born idle proved frt)"
    let ?v = "publishIO now True (trackResponse now n None True (onActivity now ?w))"
    from snoc have IH: "0 \<le> sum_list ns" "\<not> wd_stalled ?w" "wd_provedReadBytes ?w = proved"
      "wd_proven ?w \<longleftrightarrow> ns \<noteq> [] \<and> int proved \<le> sum_list ns"
      "\<not> wd_proven ?w \<longrightarrow> uint (wd_readBytes ?w) = sum_list ns"
      and n: "0 < n" and total: "sum_list ns + n < 2 ^ 64"
      by (auto simp: Let_def)
    have step: "noteIO now n None True ?w = countRead n ?v"
      using n IH(2) by (simp add: noteIO_def isDataPlaneFailure_def Let_def onActivity_def)
    have v: "wd_provedReadBytes ?v = proved" "wd_proven ?v = wd_proven ?w"
      "wd_readBytes ?v = wd_readBytes ?w" "\<not> wd_stalled ?v"
      using IH(2,3) by (simp_all add: publishIO_def trackResponse_def markResponded_def
          startFirstResponseTimer_def onActivity_def)
    show ?case
    proof (cases "wd_proven ?w")
      case True
      with IH v n show ?thesis by (auto simp: step countRead_def Let_def)
    next
      case False
      with IH(5) have "uint (wd_readBytes ?w + word_of_int n) = sum_list ns + n"
        using n total IH(1) by (simp add: uint_word_ariths uint_word_of_int)
      then have "unat (wd_readBytes ?w + word_of_int n) \<ge> proved \<longleftrightarrow> int proved \<le> sum_list ns + n"
        by (metis of_nat_le_iff uint_nat)
      with False IH v n \<open>uint (wd_readBytes ?w + word_of_int n) = sum_list ns + n\<close>
      show ?thesis by (simp add: step countRead_def Let_def)
    qed
  qed
  then show ?thesis by (simp add: Let_def)
qed



end
