(* ===== verification/Auto_Select.thy ===== *)
theory Auto_Select
  imports Auto_Probe Data_Plane
begin

text \<open>
  The operations of the auto-select group (\<open>mutableautoselect.go\<close>): its life cycle, its
  membership, selection, and the dials that fail over. The outbound manager's lookup is a
  parameter \<open>outboundMgr\<close>, \<open>probe.ValidateURL\<close> a parameter \<open>urlValid\<close>.
\<close>

section \<open>Life cycle\<close>

fun resolveTags ::
  "(tag \<Rightarrow> outbound option) \<Rightarrow> tag list \<Rightarrow> (tag, outbound) gomap \<Rightarrow> groupError + (tag, outbound) gomap" where
  "resolveTags outboundMgr [] loaded = Inr loaded"
| "resolveTags outboundMgr (tag # tags) loaded =
     (case outboundMgr tag of
        None \<Rightarrow> Inl (ErrOutboundNotFound tag)
      | Some o' \<Rightarrow> resolveTags outboundMgr tags (gput tag o' loaded))"

text \<open>\<open>start\<close>: the error, if any, and the state. The members are entered in the order of the
  resolved map, which Go leaves open.\<close>

definition start :: "env \<Rightarrow> (tag \<Rightarrow> outbound option) \<Rightarrow> mas \<Rightarrow> groupError option \<times> mas" where
  "start e outboundMgr s =
     (if m_tags s = [] then (None, s)
      else case resolveTags outboundMgr (m_tags s) [] of
        Inl err \<Rightarrow> (Some err, s)
      | Inr loaded \<Rightarrow> (None, fold (\<lambda>(tag, o'). addMemberLocked e tag o') loaded s))"

definition Start :: "env \<Rightarrow> (tag \<Rightarrow> outbound option) \<Rightarrow> mas \<Rightarrow> groupError option \<times> mas" where
  "Start e outboundMgr s =
     (case start e outboundMgr s of
        (Some err, s) \<Rightarrow> (Some err, unregisterProbePauseCallback s)
      | (None, s) \<Rightarrow> (None, s))"

definition PostStart :: "env \<Rightarrow> mas \<Rightarrow> mas" where
  "PostStart e s =
     (if m_started s then s
      else CheckOutbounds e (s\<lparr>m_started := True, m_lastActive := ev_now e\<rparr>))"

definition Close :: "mas \<Rightarrow> mas" where
  "Close s =
     (if isClosed s then s
      else unregisterProbePauseCallback (closeProbesLocked (s\<lparr>m_closed := True\<rparr>)))"

definition InterfaceUpdated :: "env \<Rightarrow> mas \<Rightarrow> mas" where
  "InterfaceUpdated e s =
     (if isClosed s then s else dispatchProbesLocked e (advanceNetworkLocked e s))"

definition All :: "mas \<Rightarrow> tag list" where
  "All s = m_tags s"

section \<open>Membership\<close>

record addAcc =
  aa_missing :: "tag list"
  aa_added :: "tag list"
  aa_n :: int

definition addTag ::
  "env \<Rightarrow> (tag \<Rightarrow> outbound option) \<Rightarrow> tag \<Rightarrow> addAcc \<times> mas \<Rightarrow> addAcc \<times> mas" where
  "addTag e outboundMgr tag = (\<lambda>(acc, s).
     if gget (m_members s) tag \<noteq> None then (acc, s)
     else case outboundMgr tag of
       None \<Rightarrow> (acc\<lparr>aa_missing := aa_missing acc @ [tag]\<rparr>, s)
     | Some o' \<Rightarrow>
         let alreadyListed = (tag \<in> set (m_tags s));
             s = addMemberLocked e tag o' s;
             s = (if \<not> alreadyListed then s\<lparr>m_tags := m_tags s @ [tag]\<rparr> else s) in
         (acc\<lparr>aa_added := aa_added acc @ [tag], aa_n := aa_n acc + 1\<rparr>, s))"

definition Add ::
  "env \<Rightarrow> (tag \<Rightarrow> outbound option) \<Rightarrow> tag list \<Rightarrow> mas \<Rightarrow> (int \<times> groupError option) \<times> mas" where
  "Add e outboundMgr tags s =
     (if isClosed s then ((0, Some ErrGroupClosed), s)
      else
        let (acc, s) = fold (addTag e outboundMgr) tags (\<lparr>aa_missing = [], aa_added = [], aa_n = 0\<rparr>, s);
            s = (if aa_added acc \<noteq> []
                 then dispatchProbesLocked e (notifyProbesLocked
                        (requestProbesLocked (Some (aa_added acc)) probeIfStale False s))
                 else s) in
        ((aa_n acc,
          if aa_missing acc \<noteq> [] then Some (ErrOutboundsNotFound (aa_missing acc)) else None), s))"

definition removeTag :: "tag \<Rightarrow> tag list \<times> int \<times> mas \<Rightarrow> tag list \<times> int \<times> mas" where
  "removeTag tag = (\<lambda>(removed, n, s).
     case gget (m_members s) tag of
       None \<Rightarrow> (removed, n, s)
     | Some out \<Rightarrow>
         let s = (case gget (m_inFlight s) out of
                    Some a \<Rightarrow> if pa_tag a = tag then updAttempt out cancelProbeLocked s else s
                  | None \<Rightarrow> s);
             s = s\<lparr>m_members := gdel tag (m_members s), m_probeMembers := gdel tag (m_probeMembers s),
                   m_urlOverrides := gdel tag (m_urlOverrides s),
                   m_histories := gdel tag (m_histories s),
                   m_history := map_option (hs_Delete tag) (m_history s)\<rparr> in
         (tag # removed, n + 1, clearStickyTagLocked tag s))"

definition Remove :: "env \<Rightarrow> tag list \<Rightarrow> mas \<Rightarrow> (int \<times> groupError option) \<times> mas" where
  "Remove e tags s =
     (if isClosed s then ((0, Some ErrGroupClosed), s)
      else
        let (removed, n, s) = fold removeTag tags ([], 0, s);
            s = (if n > 0
                 then dispatchProbesLocked e (notifyProbesLocked
                        (s\<lparr>m_tags := filter (\<lambda>tag. tag \<notin> set removed) (m_tags s)\<rparr>))
                 else s) in
        ((n, None), s))"

definition overrideURL :: "tag \<times> string \<Rightarrow> mas \<Rightarrow> mas" where
  "overrideURL = (\<lambda>(tag, u) s.
     if (case gget (m_urlOverrides s) tag of None \<Rightarrow> '''' | Some v \<Rightarrow> v) = u then s
     else requestProbesLocked (Some [tag]) probeForced False
            (s\<lparr>m_urlOverrides := gput tag u (m_urlOverrides s)\<rparr>))"

definition SetURLOverrides :: "env \<Rightarrow> (tag, string) gomap \<Rightarrow> mas \<Rightarrow> mas" where
  "SetURLOverrides e overrides s =
     dispatchProbesLocked e (notifyProbesLocked (fold overrideURL overrides s))"

section \<open>Selection\<close>

definition stickyFor :: "string \<Rightarrow> mas \<Rightarrow> tag" where
  "stickyFor network s = (if network = ''tcp'' then m_stickyTcp s else m_stickyUdp s)"

definition setSticky :: "string \<Rightarrow> tag \<Rightarrow> mas \<Rightarrow> mas" where
  "setSticky network tag s =
     (if network = ''tcp'' then s\<lparr>m_stickyTcp := tag\<rparr> else s\<lparr>m_stickyUdp := tag\<rparr>)"

text \<open>What remains of the ranking for a failover dial: not the excluded member and, while a regular
  member of the network is still clean or soft-demoted, no last resort.\<close>

definition failoverCandidates :: "string \<Rightarrow> tag \<Rightarrow> rankedCandidate list \<Rightarrow> rankedCandidate list" where
  "failoverCandidates network excludeTag ranked =
     (let regularHealthy = list_ex (\<lambda>c. rc_demote c < demoteLastResort \<and>
                                        network \<in> set (ob_network (rc_outbound c))) ranked in
      filter (\<lambda>c. \<not> (rc_tag c = excludeTag \<or> (regularHealthy \<and> rc_lastResort c))) ranked)"

definition selectOutbound ::
  "env \<Rightarrow> string \<Rightarrow> tag \<Rightarrow> mas \<Rightarrow> (groupError + outbound \<times> nat) \<times> mas" where
  "selectOutbound e network excludeTag s =
     (if network \<noteq> ''tcp'' \<and> network \<noteq> ''udp'' then (Inl (ErrNetworkNotSupported network), s)
      else
        let s = (if excludeTag = '''' then keepAliveLocked e s else s);
            (ranked, s) = rankLocked (ev_now e) s;
            generation = m_generation s;
            ranked = (if excludeTag \<noteq> '''' then failoverCandidates network excludeTag ranked else ranked);
            (pool, forNetwork) = splitHealthyForLocked ranked network in
        case pool of
          [] \<Rightarrow>
            (Inl ErrNoOutbound,
             if excludeTag = ''''
             then dispatchProbesLocked e (requestProbesLocked None probeIfStale False s) else s)
        | best # _ \<Rightarrow>
            if excludeTag = ''''
            then let winner = applyStickiness s (stickyFor network s) best forNetwork in
                 (Inr (rc_outbound winner, generation),
                  if stickyFor network s \<noteq> rc_tag winner then setSticky network (rc_tag winner) s else s)
            else (Inr (rc_outbound best, generation), s))"

section \<open>Dialing with failover\<close>

datatype routeKind = primaryRoute | fallbackRoute

definition chargeable :: "tag \<Rightarrow> routeKind \<Rightarrow> mas \<Rightarrow> bool" where
  "chargeable tag route s \<longleftrightarrow>
     \<not> cf_demoteOnlySelected (m_cfg s) \<or> route = fallbackRoute \<or>
     m_stickyTcp s = tag \<or> m_stickyUdp s = tag"

text \<open>A connection handed out: the member that carries it, what its hooks were made for, and its
  watchdog.\<close>

record groupConn =
  gc_outbound :: outbound
  gc_network :: string
  gc_route :: routeKind
  gc_generation :: nat
  gc_watchdog :: dataPlaneWatchdog

text \<open>\<open>N.NetworkName\<close> of the two networks the group supports is the network itself.\<close>

definition wrapStream :: "env \<Rightarrow> string \<Rightarrow> outbound \<Rightarrow> routeKind \<Rightarrow> nat \<Rightarrow> mas \<Rightarrow> groupConn" where
  "wrapStream e network o' route generation s =
     \<lparr>gc_outbound = o', gc_network = network, gc_route = route, gc_generation = generation,
      gc_watchdog = wd_init (ev_now e) (cf_dataPlaneIdle (m_cfg s)) (cf_dataPlaneProvedRead (m_cfg s))
        (if network = ''tcp'' then cf_dataPlaneFirstResponseTimeout (m_cfg s) else 0)\<rparr>"

definition wrapPacket :: "env \<Rightarrow> outbound \<Rightarrow> routeKind \<Rightarrow> nat \<Rightarrow> mas \<Rightarrow> groupConn" where
  "wrapPacket e o' route generation s =
     \<lparr>gc_outbound = o', gc_network = ''udp'', gc_route = route, gc_generation = generation,
      gc_watchdog = wd_init (ev_now e) (cf_dataPlaneIdle (m_cfg s)) (cf_dataPlaneProvedRead (m_cfg s)) 0\<rparr>"

text \<open>The \<open>onFailure\<close> hook of \<open>makeHooks\<close>.\<close>

definition onFailure ::
  "env \<Rightarrow> (string \<Rightarrow> bool) \<Rightarrow> groupConn \<Rightarrow> UserFailureKind \<Rightarrow> mas \<Rightarrow> mas" where
  "onFailure e urlValid c kind s =
     (let outerTag = ob_tag (gc_outbound c);
          confirms = (gc_network c = ''tcp'' \<and> gc_route c = primaryRoute) in
      if \<not> chargeable outerTag (gc_route c) s then s
      else
        let (recorded, s) = recordUserFailure e outerTag kind (gc_generation c) s in
        if \<not> recorded then s
        else if confirms \<and> (kind = UserFailureReset \<or> kind = UserFailureNoResponse)
        then requestFailureConfirmation e urlValid outerTag '''' (gc_generation c) s
        else s)"

text \<open>\<open>DialContext\<close>. A dial through a member takes time without the lock: \<open>dial i o\<close> says of the
  i-th dial whether it succeeds and what the rest of the program makes of the group meanwhile, and
  \<open>e i\<close> is what the i-th critical section observes. The result also says whether a ladder is
  started, for which tag and generation.\<close>

definition DialContext ::
  "(nat \<Rightarrow> env) \<Rightarrow> (string \<Rightarrow> bool) \<Rightarrow> (nat \<Rightarrow> outbound \<Rightarrow> mas \<Rightarrow> bool \<times> mas) \<Rightarrow> string \<Rightarrow> mas \<Rightarrow>
   (groupError + groupConn) \<times> (tag \<times> nat) option \<times> mas" where
  "DialContext e urlValid dial network s =
     (case selectOutbound (e 0) network '''' s of
        (Inl err, s) \<Rightarrow> (Inl err, None, s)
      | (Inr (o', generation), s) \<Rightarrow>
          let outerTag = ob_tag o'; (ok, s) = dial 0 o' s in
          if ok then (Inr (wrapStream (e 1) network o' primaryRoute generation s), None, s)
          else
            let s = snd (recordUserFailure (e 1) outerTag UserFailureDial generation s) in
            (case selectOutbound (e 2) network outerTag s of
               (Inl _, s) \<Rightarrow> (Inl ErrDial, Some (outerTag, generation), s)
             | (Inr (alt, altGeneration), s) \<Rightarrow>
                 let replacementTag = ob_tag alt; (ok, s) = dial 1 alt s in
                 if ok
                 then let s = (if network = ''tcp''
                               then requestFailureConfirmation (e 3) urlValid outerTag replacementTag generation s
                               else s) in
                      (Inr (wrapStream (e 3) network alt fallbackRoute altGeneration s), None, s)
                 else (Inl ErrDial, Some (replacementTag, altGeneration),
                       snd (recordUserFailure (e 3) replacementTag UserFailureDial altGeneration s))))"

definition ListenPacket ::
  "(nat \<Rightarrow> env) \<Rightarrow> (nat \<Rightarrow> outbound \<Rightarrow> mas \<Rightarrow> bool \<times> mas) \<Rightarrow> mas \<Rightarrow>
   (groupError + groupConn) \<times> (tag \<times> nat) option \<times> mas" where
  "ListenPacket e listen s =
     (case selectOutbound (e 0) ''udp'' '''' s of
        (Inl err, s) \<Rightarrow> (Inl err, None, s)
      | (Inr (o', generation), s) \<Rightarrow>
          let outerTag = ob_tag o'; (ok, s) = listen 0 o' s in
          if ok then (Inr (wrapPacket (e 1) o' primaryRoute generation s), None, s)
          else
            let s = snd (recordUserFailure (e 1) outerTag UserFailureDial generation s) in
            (case selectOutbound (e 2) ''udp'' outerTag s of
               (Inl _, s) \<Rightarrow> (Inl ErrDial, Some (outerTag, generation), s)
             | (Inr (alt, altGeneration), s) \<Rightarrow>
                 let replacementTag = ob_tag alt; (ok, s) = listen 1 alt s in
                 if ok then (Inr (wrapPacket (e 3) alt fallbackRoute altGeneration s), None, s)
                 else (Inl ErrDial, Some (replacementTag, altGeneration),
                       snd (recordUserFailure (e 3) replacementTag UserFailureDial altGeneration s))))"

end
