(* ===== verification/Auto_Invariant.thy ===== *)
theory Auto_Invariant
  imports Auto_Select
begin

text \<open>
  The scheduler's invariant: the concurrency slots in use are exactly those held by attempts in
  flight and never exceed the limit, an outbound has at most one attempt, a stuck attempt has ended
  and holds no slot, sequence numbers only grow, and every member has probe state under a
  membership number of its own. Every operation keeps it, so it holds in every state the group
  reaches.
\<close>

section \<open>The part of the state the scheduler's invariant reads\<close>

definition sched where
  "sched s = (m_closed s, m_tags s, m_members s, m_urlOverrides s, m_defaultURL s, m_probeTimeouts s,
     m_cfg s, m_probeMembers s, m_inFlight s, m_slotsUsed s, m_sequence s, m_nextMembershipID s,
     m_generation s)"

lemma schedD:
  assumes "sched s = sched t"
  shows "m_closed s = m_closed t" "m_tags s = m_tags t" "m_members s = m_members t"
    "m_urlOverrides s = m_urlOverrides t" "m_defaultURL s = m_defaultURL t"
    "m_probeTimeouts s = m_probeTimeouts t" "m_cfg s = m_cfg t" "m_probeMembers s = m_probeMembers t"
    "m_inFlight s = m_inFlight t" "m_slotsUsed s = m_slotsUsed t" "m_sequence s = m_sequence t"
    "m_nextMembershipID s = m_nextMembershipID t" "m_generation s = m_generation t"
  using assms by (simp_all add: sched_def)

lemma sched_updates [simp]:
  "sched (s\<lparr>m_histories := a\<rparr>) = sched s" "sched (s\<lparr>m_history := b\<rparr>) = sched s"
  "sched (s\<lparr>m_stickyTcp := c\<rparr>) = sched s" "sched (s\<lparr>m_stickyUdp := c\<rparr>) = sched s"
  "sched (s\<lparr>m_probeChanged := d\<rparr>) = sched s" "sched (s\<lparr>m_periodicWaiter := f\<rparr>) = sched s"
  "sched (s\<lparr>m_urlWaiters := g\<rparr>) = sched s" "sched (s\<lparr>m_nextWaiter := d\<rparr>) = sched s"
  "sched (s\<lparr>m_ladderWaiter := f\<rparr>) = sched s" "sched (s\<lparr>m_periodicTimer := h\<rparr>) = sched s"
  "sched (s\<lparr>m_idleTimer := h\<rparr>) = sched s" "sched (s\<lparr>m_pauseEpoch := d\<rparr>) = sched s"
  "sched (s\<lparr>m_pauseCallback := i\<rparr>) = sched s" "sched (s\<lparr>m_lastLadderAt := j\<rparr>) = sched s"
  "sched (s\<lparr>m_lastNetworkAdvanceAt := k\<rparr>) = sched s" "sched (s\<lparr>m_exhaustion := i\<rparr>) = sched s"
  "sched (s\<lparr>m_switchAt := k\<rparr>) = sched s" "sched (s\<lparr>m_switchTag := c\<rparr>) = sched s"
  "sched (s\<lparr>m_lastActive := k\<rparr>) = sched s" "sched (s\<lparr>m_probing := i\<rparr>) = sched s"
  "sched (s\<lparr>m_lastDataAt := j\<rparr>) = sched s" "sched (s\<lparr>m_started := i\<rparr>) = sched s"
  by (simp_all add: sched_def)

subsection \<open>Operations that leave it alone\<close>

lemma sched_notify [simp]: "sched (notifyProbesLocked s) = sched s"
  by (simp add: notifyProbesLocked_def)

lemma sched_prunes: "prunes s s' \<Longrightarrow> sched s' = sched s"
  by (metis prunes_state sched_updates(1))

lemma sched_rank [simp]: "sched (snd (rankLocked now s)) = sched s"
  by (rule sched_prunes [OF rankLocked_prunes])

lemma sched_emit [simp]: "sched (emitExhaustionLocked s) = sched s"
  by (simp add: emitExhaustionLocked_def)

lemma sched_evaluate [simp]: "sched (snd (evaluateProbesLocked e w s)) = sched s"
  by (simp add: evaluateProbesLocked_def Let_def case_prod_unfold)

lemma sched_budget [simp]: "sched (startLadderBudgetLocked e s) = sched s"
  by (simp add: startLadderBudgetLocked_def split: option.split)

lemma sched_expire [simp]: "sched (expireLadderLocked e s) = sched s"
  by (simp add: expireLadderLocked_def Let_def case_prod_unfold split: option.split)

lemma sched_ladderTimer [simp]: "sched (ladderTimerFired e s) = sched s"
  by (simp add: ladderTimerFired_def Let_def case_prod_unfold split: option.split)

lemma sched_mutateHistoryLocked [simp]: "sched (snd (mutateHistoryLocked e tag fn s)) = sched s"
  by (simp add: mutateHistoryLocked_def Let_def case_prod_unfold split: option.split)

lemma sched_recordUserFailure [simp]: "sched (snd (recordUserFailure e tag kind g s)) = sched s"
  by (simp add: recordUserFailure_def mutateHistory_def)

lemma sched_hydrate [simp]: "sched (hydrateHistoryLocked e tag s) = sched s"
  by (simp add: hydrateHistoryLocked_def split: option.split)

lemma sched_trySwitch [simp]: "sched (trySwitchAfterConfirmedFailureLocked e f r s) = sched s"
  by (simp add: trySwitch_eq Let_def sched_prunes [OF chosen_prunes] split: option.split)

lemma sched_finishLadder [simp]: "sched (finishLadder e s) = sched s"
  by (simp add: finishLadder_def Let_def case_prod_unfold split: option.split)

lemma sched_finishCycle [simp]: "sched (finishProbeCycle e s) = sched s"
  by (simp add: finishProbeCycle_def split: option.split)

lemma sched_finishURLTest [simp]: "sched (snd (finishURLTest i s)) = sched s"
  by (simp add: finishURLTest_def split: option.split)

lemma sched_armPeriodic [simp]: "sched (armPeriodicLocked e s) = sched s"
  by (simp add: armPeriodicLocked_def)

lemma sched_armIdle [simp]: "sched (armIdleLocked e d s) = sched s"
  by (simp add: armIdleLocked_def)

lemma sched_idleTimer [simp]: "sched (idleTimerFired e s) = sched s"
  by (simp add: idleTimerFired_def Let_def)

lemma sched_unregister [simp]: "sched (unregisterProbePauseCallback s) = sched s"
  by (simp add: unregisterProbePauseCallback_def)

lemma sched_clearSticky [simp]: "sched (clearStickyTagLocked tag s) = sched s"
  by (simp add: clearStickyTagLocked_def Let_def)

lemma sched_noteData [simp]: "sched (noteDataActivity now s) = sched s"
  by (simp add: noteDataActivity_def Let_def)

lemma sched_setSticky [simp]: "sched (setSticky network t s) = sched s"
  by (simp add: setSticky_def)

section \<open>Slots and attempts\<close>

declare map_of_eq_Some_iff [simp del]

definition attempt_ok :: "nat \<Rightarrow> outbound \<Rightarrow> probeAttempt \<Rightarrow> bool" where
  "attempt_ok sequence out a \<longleftrightarrow>
     pa_outbound a = out \<and> pa_sequence a \<le> sequence \<and> (pa_holdsSlot a \<longrightarrow> \<not> pa_lastResort a)"

definition stuck_ok :: "probeAttempt \<Rightarrow> bool" where
  "stuck_ok a \<longleftrightarrow> (pa_stuck a \<longrightarrow> pa_finalized a \<and> \<not> pa_holdsSlot a)"

text \<open>\<open>X\<close> are outbounds whose attempt is just being marked stuck.\<close>

definition slots_inv :: "outbound set \<Rightarrow> mas \<Rightarrow> bool" where
  "slots_inv X s \<longleftrightarrow>
     distinct (gkeys (m_inFlight s)) \<and>
     m_slotsUsed s = int (gcount pa_holdsSlot (m_inFlight s)) \<and> m_slotsUsed s \<le> probeLimit s \<and>
     (\<forall>out a. gget (m_inFlight s) out = Some a \<longrightarrow>
        attempt_ok (m_sequence s) out a \<and> (out \<notin> X \<longrightarrow> stuck_ok a))"

definition slotview where
  "slotview s = (m_inFlight s, m_slotsUsed s, m_cfg s)"

lemma slotview_updates [simp]:
  "slotview (s\<lparr>m_sequence := n\<rparr>) = slotview s" "slotview (s\<lparr>m_probeMembers := p\<rparr>) = slotview s"
  "slotview (s\<lparr>m_urlWaiters := u\<rparr>) = slotview s" "slotview (s\<lparr>m_members := q\<rparr>) = slotview s"
  "slotview (s\<lparr>m_nextMembershipID := n\<rparr>) = slotview s" "slotview (s\<lparr>m_generation := n\<rparr>) = slotview s"
  "slotview (s\<lparr>m_urlOverrides := v\<rparr>) = slotview s" "slotview (s\<lparr>m_tags := w\<rparr>) = slotview s"
  "slotview (s\<lparr>m_closed := b\<rparr>) = slotview s" "slotview (s\<lparr>m_histories := h\<rparr>) = slotview s"
  "slotview (s\<lparr>m_history := hh\<rparr>) = slotview s"
  by (simp_all add: slotview_def)

lemma slotview_sched: "sched s = sched t \<Longrightarrow> slotview s = slotview t"
  by (simp add: slotview_def sched_def)

lemmas slotview_frame [simp] =
  slotview_sched [OF sched_notify] slotview_sched [OF sched_budget] slotview_sched [OF sched_expire]
  slotview_sched [OF sched_trySwitch] slotview_sched [OF sched_mutateHistoryLocked]
  slotview_sched [OF sched_hydrate] slotview_sched [OF sched_clearSticky]

lemma slotview_updMember [simp]: "slotview (updMember tag f s) = slotview s"
  by (simp add: updMember_def split: option.split)

lemma sequence_sched: "sched s = sched t \<Longrightarrow> m_sequence s = m_sequence t"
  by (simp add: sched_def)

lemmas sequence_frame [simp] =
  sequence_sched [OF sched_notify] sequence_sched [OF sched_budget] sequence_sched [OF sched_expire]
  sequence_sched [OF sched_trySwitch] sequence_sched [OF sched_mutateHistoryLocked]
  sequence_sched [OF sched_hydrate] sequence_sched [OF sched_clearSticky]

lemma sequence_updMember [simp]: "m_sequence (updMember tag f s) = m_sequence s"
  by (simp add: updMember_def split: option.split)

lemma slots_inv_mono:
  "slots_inv X s \<Longrightarrow> slotview s' = slotview s \<Longrightarrow> m_sequence s \<le> m_sequence s' \<Longrightarrow> slots_inv X s'"
  by (fastforce simp: slots_inv_def slotview_def probeLimit_def attempt_ok_def)

lemma slots_inv_sched: "sched s = sched t \<Longrightarrow> slots_inv X s \<longleftrightarrow> slots_inv X t"
  using slots_inv_mono [of X s t] slots_inv_mono [of X t s] slotview_sched [of s t] sequence_sched [of s t]
  by auto

lemma slots_inv_weaken: "slots_inv X s \<Longrightarrow> X \<subseteq> Y \<Longrightarrow> slots_inv Y s"
  by (auto simp: slots_inv_def)

lemma slots_updAttempt:
  assumes "slots_inv X s" and "\<And>a. gget (m_inFlight s) out = Some a \<Longrightarrow>
     pa_outbound (f a) = pa_outbound a \<and> pa_sequence (f a) = pa_sequence a \<and>
     pa_lastResort (f a) = pa_lastResort a \<and> pa_holdsSlot (f a) = pa_holdsSlot a \<and>
     (out \<notin> Y \<longrightarrow> stuck_ok (f a))"
    and "X \<subseteq> insert out Y"
  shows "slots_inv Y (updAttempt out f s)"
proof (cases "gget (m_inFlight s) out")
  case None
  with assms(1,3) show ?thesis
    by (simp add: slots_inv_def updAttempt_def) (metis insertE option.distinct(1) subsetD)
next
  case (Some a)
  have "gcount pa_holdsSlot (gput out (f a) (m_inFlight s)) = gcount pa_holdsSlot (m_inFlight s)"
    using gcount_gput [of "m_inFlight s" pa_holdsSlot out "f a"] Some assms(1,2)
    by (auto simp: slots_inv_def split: if_splits)
  with Some assms show ?thesis
    by (auto simp: slots_inv_def updAttempt_def probeLimit_def attempt_ok_def)
qed

lemma slots_release:
  assumes "slots_inv X s"
    and "\<And>a. gget (m_inFlight s) out = Some a \<Longrightarrow> pa_finalized a \<or> \<not> pa_stuck a"
  shows "slots_inv (X - {out}) (releaseProbeSlotLocked e out s)"
proof (cases "\<exists>a. gget (m_inFlight s) out = Some a \<and> pa_holdsSlot a")
  case False
  then have "sched (releaseProbeSlotLocked e out s) = sched s"
    by (simp add: releaseProbeSlotLocked_def split: option.split)
  moreover have "slots_inv (X - {out}) s"
    using False assms by (fastforce simp: slots_inv_def stuck_ok_def)
  ultimately show ?thesis using slots_inv_sched by blast
next
  case True
  then obtain a where a: "gget (m_inFlight s) out = Some a" "pa_holdsSlot a" by blast
  let ?s = "updAttempt out (\<lambda>a. a\<lparr>pa_holdsSlot := False\<rparr>) (s\<lparr>m_slotsUsed := m_slotsUsed s - 1\<rparr>)"
  have count: "gcount pa_holdsSlot (gput out (a\<lparr>pa_holdsSlot := False\<rparr>) (m_inFlight s)) + 1
      = gcount pa_holdsSlot (m_inFlight s)"
    using gcount_gput [of "m_inFlight s" pa_holdsSlot out "a\<lparr>pa_holdsSlot := False\<rparr>"] a assms(1)
    by (simp add: slots_inv_def)
  have "slots_inv (X - {out}) ?s"
    using assms a count
    by (auto simp: slots_inv_def updAttempt_def probeLimit_def attempt_ok_def stuck_ok_def)
  moreover have "sched (releaseProbeSlotLocked e out s) = sched ?s"
    using a by (simp add: releaseProbeSlotLocked_def)
  ultimately show ?thesis using slots_inv_sched by blast
qed

subsection \<open>Accepting an outcome touches no attempt\<close>

lemma recordOutcome_frame [simp]:
  "slotview (snd (recordProbeOutcomeLocked e tag oc s)) = slotview s"
  "m_sequence (snd (recordProbeOutcomeLocked e tag oc s)) = m_sequence s + 1"
  by (simp_all add: recordProbeOutcomeLocked_def Let_def case_prod_unfold)

lemma settle_frame [simp]:
  "slotview (settleMember e a ok s) = slotview s" "m_sequence (settleMember e a ok s) = m_sequence s"
  by (simp_all add: settleMember_def Let_def split: option.split)

lemma collect_frame [simp]:
  "slotview (collectSuccesses a ok oc s) = slotview s"
  "m_sequence (collectSuccesses a ok oc s) = m_sequence s"
  by (simp_all add: collectSuccesses_def)

lemma accept_frame:
  "slotview (acceptProbeLocked e a ok d s) = slotview s"
  "m_sequence s \<le> m_sequence (acceptProbeLocked e a ok d s)"
  by (simp_all add: acceptProbeLocked_def Let_def case_prod_unfold)

lemma inFlight_slotview: "slotview s = slotview t \<Longrightarrow> m_inFlight s = m_inFlight t"
  by (simp add: slotview_def)

lemma slots_finish:
  assumes "slots_inv X s"
  shows "slots_inv (X - {out}) (finishProbeLocked e out ok d s)"
proof (cases "gget (m_inFlight s) out")
  case None
  with assms show ?thesis by (auto simp: finishProbeLocked_def slots_inv_def)
next
  case (Some a)
  let ?fin = "\<lambda>a. a\<lparr>pa_finalized := True\<rparr>"
  let ?s1 = "if \<not> pa_finalized a then acceptProbeLocked e a ok d (updAttempt out ?fin s) else s"
  have fl: "gget (m_inFlight ?s1) out = Some (?fin a)"
    using Some inFlight_slotview [OF accept_frame(1), of e a ok d "updAttempt out ?fin s"]
    by (auto simp: updAttempt_def)
  have "slots_inv (X \<union> {out}) (updAttempt out ?fin s)"
    by (rule slots_updAttempt [OF assms]) auto
  then have "slots_inv (X \<union> {out}) ?s1"
    using slots_inv_weaken [OF assms, of "X \<union> {out}"] slots_inv_mono [OF _ accept_frame]
    by (cases "pa_finalized a") auto
  then have "slots_inv (X \<union> {out}) (updAttempt out (\<lambda>a. a\<lparr>pa_canceled := True\<rparr>) ?s1)"
    by (rule slots_updAttempt) auto
  then have "slots_inv (X \<union> {out} - {out})
      (releaseProbeSlotLocked e out (updAttempt out (\<lambda>a. a\<lparr>pa_canceled := True\<rparr>) ?s1))"
    by (rule slots_release) (use fl in \<open>auto simp: updAttempt_def\<close>)
  moreover have "X \<union> {out} - {out} = X - {out}" by blast
  ultimately show ?thesis using Some by (simp add: finishProbeLocked_def Let_def)
qed

lemma finish_releases:
  "gget (m_inFlight (finishProbeLocked e out ok d s)) out = Some a \<Longrightarrow> \<not> pa_holdsSlot a \<and> pa_finalized a"
proof (cases "gget (m_inFlight s) out")
  case (Some b)
  let ?t = "acceptProbeLocked e b ok d (updAttempt out (\<lambda>a. a\<lparr>pa_finalized := True\<rparr>) s)"
  have t: "m_inFlight ?t = gput out (b\<lparr>pa_finalized := True\<rparr>) (m_inFlight s)"
    using Some inFlight_slotview [OF accept_frame(1), of e b ok d "updAttempt out (\<lambda>a. a\<lparr>pa_finalized := True\<rparr>) s"]
    by (simp add: updAttempt_def)
  have bud: "m_inFlight (startLadderBudgetLocked e u) = m_inFlight u" for u
    by (rule schedD(9) [OF sched_budget])
  assume "gget (m_inFlight (finishProbeLocked e out ok d s)) out = Some a"
  then show ?thesis using Some t
    by (cases "pa_finalized b")
      (auto simp: finishProbeLocked_def releaseProbeSlotLocked_def updAttempt_def Let_def bud split: if_splits)
qed (simp add: finishProbeLocked_def)

lemma slots_timeout: "slots_inv {} s \<Longrightarrow> slots_inv {} (timeoutProbeLocked e out s)"
proof -
  assume "slots_inv {} s"
  then have s: "slots_inv {} (expireLadderLocked e s)" using slots_inv_sched [OF sched_expire] by blast
  then have "slots_inv {out} (updAttempt out (\<lambda>a. a\<lparr>pa_stuck := True\<rparr>) (expireLadderLocked e s))"
    by (rule slots_updAttempt) auto
  from slots_finish [OF this, of out e False 0] show ?thesis
    using s slots_inv_sched [OF sched_notify]
    by (auto simp: timeoutProbeLocked_def Let_def split: option.split)
qed

lemma slots_delete:
  assumes "slots_inv {} s" and "\<And>a. gget (m_inFlight s) out = Some a \<Longrightarrow> \<not> pa_holdsSlot a"
  shows "slots_inv {} (s\<lparr>m_inFlight := gdel out (m_inFlight s)\<rparr>)"
proof -
  have "gcount pa_holdsSlot (gdel out (m_inFlight s)) = gcount pa_holdsSlot (m_inFlight s)"
    using gcount_gdel [of "m_inFlight s" pa_holdsSlot out] assms
    by (auto simp: slots_inv_def split: option.splits)
  with assms show ?thesis by (auto simp: slots_inv_def probeLimit_def)
qed

lemma slots_start:
  assumes "slots_inv {} s" and "gget (m_inFlight s) out = None"
    and "holds \<longrightarrow> m_slotsUsed s < probeLimit s \<and> \<not> pb_lastResort beh"
  shows "slots_inv {} (startProbeLocked e tag out beh st holds s)"
proof -
  have "gcount pa_holdsSlot (gput out a (m_inFlight s)) = gcount pa_holdsSlot (m_inFlight s) +
      (if pa_holdsSlot a then 1 else 0)" for a
    using gcount_gput [of "m_inFlight s" pa_holdsSlot out a] assms by (simp add: slots_inv_def)
  with assms show ?thesis
    by (auto simp: slots_inv_def startProbeLocked_def Let_def probeLimit_def attempt_ok_def stuck_ok_def
        intro: le_SucI)
qed

lemma slots_dispatchTag: "slots_inv {} s \<Longrightarrow> slots_inv {} (dispatchTag e tag s)"
proof -
  assume s: "slots_inv {} s"
  have pm: "slots_inv {} (s\<lparr>m_probeMembers := p\<rparr>)" for p
    by (rule slots_inv_mono [OF s]) simp_all
  show ?thesis
    using s pm by (auto simp: dispatchTag_def Let_def intro!: slots_start split: option.split)
qed

lemma slots_fold: "(\<And>x t. slots_inv {} t \<Longrightarrow> slots_inv {} (f x t)) \<Longrightarrow> slots_inv {} s \<Longrightarrow> slots_inv {} (fold f xs s)"
  by (induction xs arbitrary: s) auto

lemma slots_dispatch: "slots_inv {} s \<Longrightarrow> slots_inv {} (dispatchProbesLocked e s)"
  using slots_inv_sched [OF sched_budget]
  by (auto simp: dispatchProbesLocked_def Let_def intro!: slots_fold slots_dispatchTag)

lemma slots_finish_delete:
  assumes "slots_inv {} s"
  shows "slots_inv {} ((finishProbeLocked e out ok d s)\<lparr>m_inFlight :=
           gdel out (m_inFlight (finishProbeLocked e out ok d s))\<rparr>)"
proof (rule slots_delete)
  show "slots_inv {} (finishProbeLocked e out ok d s)"
    using slots_finish [OF assms, of out] by simp
qed (auto dest: finish_releases)

lemma slots_complete: "slots_inv {} s \<Longrightarrow> slots_inv {} (completeProbe e out n ok d s)"
  by (simp add: completeProbe_def Let_def slots_dispatch slots_finish_delete slots_timeout
      slots_inv_sched [OF sched_notify] split: option.split)

lemma slots_gmap:
  assumes "slots_inv {} s"
    and "\<And>a. pa_outbound (f a) = pa_outbound a \<and> pa_sequence (f a) = pa_sequence a \<and>
              pa_lastResort (f a) = pa_lastResort a \<and> pa_holdsSlot (f a) = pa_holdsSlot a \<and>
              pa_stuck (f a) = pa_stuck a \<and> (pa_finalized a \<longrightarrow> pa_finalized (f a))"
  shows "slots_inv {} (s\<lparr>m_inFlight := gmap f (m_inFlight s)\<rparr>)"
proof -
  have "pa_holdsSlot \<circ> f = pa_holdsSlot" using assms(2) by auto
  with assms show ?thesis
    by (auto simp: slots_inv_def gcount_gmap probeLimit_def attempt_ok_def stuck_ok_def)
qed

lemma slots_cancel: "slots_inv {} s \<Longrightarrow> slots_inv {} (cancelProbesLocked ord s)"
  unfolding cancelProbesLocked_def slots_inv_sched [OF sched_notify]
  by (rule slots_gmap) (auto simp: cancelProbeLocked_def)

section \<open>Members and their probe state\<close>

definition member_ok :: "nat \<Rightarrow> nat \<Rightarrow> memberProbeState \<Rightarrow> bool" where
  "member_ok sequence nextID st \<longleftrightarrow>
     0 < ms_membershipID st \<and> ms_membershipID st \<le> nextID \<and> ms_confirmSequence st \<le> sequence \<and>
     (case ms_outcome st of None \<Rightarrow> True | Some oc \<Rightarrow> po_sequence oc \<le> sequence)"

definition members_inv :: "mas \<Rightarrow> bool" where
  "members_inv s \<longleftrightarrow>
     (\<forall>t. gget (m_members s) t = None \<longleftrightarrow> gget (m_probeMembers s) t = None) \<and>
     (\<forall>t st. gget (m_probeMembers s) t = Some st \<longrightarrow>
        member_ok (m_sequence s) (m_nextMembershipID s) st) \<and>
     (\<forall>t u st su. gget (m_probeMembers s) t = Some st \<and> gget (m_probeMembers s) u = Some su \<and>
        ms_membershipID st = ms_membershipID su \<longrightarrow> t = u)"

lemma member_ok_mono:
  "member_ok q n st \<Longrightarrow> q \<le> q' \<Longrightarrow> n \<le> n' \<Longrightarrow> member_ok q' n' st"
  by (auto simp: member_ok_def split: option.splits)

lemma members_inv_sched: "sched s = sched t \<Longrightarrow> members_inv s \<longleftrightarrow> members_inv t"
  by (simp add: sched_def members_inv_def)

text \<open>Only these four fields matter, and the sequence only grows.\<close>

lemma members_inv_mono:
  assumes "members_inv s" and "m_members s' = m_members s" and "m_probeMembers s' = m_probeMembers s"
    and "m_nextMembershipID s' = m_nextMembershipID s" and "m_sequence s \<le> m_sequence s'"
  shows "members_inv s'"
  using assms member_ok_mono [of "m_sequence s" "m_nextMembershipID s" _ "m_sequence s'" "m_nextMembershipID s"]
  unfolding members_inv_def by auto

lemma members_put:
  assumes "members_inv s" and "gget (m_probeMembers s) tag = Some st"
    and "ms_membershipID st' = ms_membershipID st" and "member_ok (m_sequence s) (m_nextMembershipID s) st'"
  shows "members_inv (s\<lparr>m_probeMembers := gput tag st' (m_probeMembers s)\<rparr>)"
proof -
  have "gget (m_members s) tag \<noteq> None" using assms(1,2) by (auto simp: members_inv_def)
  with assms show ?thesis unfolding members_inv_def by (simp split: if_split) metis
qed

lemma members_upd:
  assumes "members_inv s"
    and "\<And>st. gget (m_probeMembers s) tag = Some st \<Longrightarrow> ms_membershipID (f st) = ms_membershipID st \<and>
           ms_confirmSequence (f st) \<le> m_sequence s \<and>
           (case ms_outcome (f st) of None \<Rightarrow> True | Some oc \<Rightarrow> po_sequence oc \<le> m_sequence s)"
  shows "members_inv (updMember tag f s)"
proof (cases "gget (m_probeMembers s) tag")
  case (Some st)
  then have "member_ok (m_sequence s) (m_nextMembershipID s) st"
    using assms(1) by (simp add: members_inv_def)
  with Some assms show ?thesis
    using members_put [OF assms(1) Some, of "f st"] by (simp add: updMember_def member_ok_def)
qed (use assms in \<open>simp add: updMember_def\<close>)

lemma members_ok: "members_inv s \<Longrightarrow> gget (m_probeMembers s) tag = Some st \<Longrightarrow>
   ms_confirmSequence st \<le> m_sequence s \<and>
   (case ms_outcome st of None \<Rightarrow> True | Some oc \<Rightarrow> po_sequence oc \<le> m_sequence s)"
  by (simp add: members_inv_def member_ok_def)

lemma members_sequence: "members_inv s \<Longrightarrow> members_inv (s\<lparr>m_sequence := Suc (m_sequence s)\<rparr>)"
  by (erule members_inv_mono) simp_all

lemma members_inFlight [simp]:
  "members_inv (s\<lparr>m_inFlight := f\<rparr>) = members_inv s" "members_inv (s\<lparr>m_slotsUsed := n\<rparr>) = members_inv s"
  "members_inv (s\<lparr>m_tags := ts\<rparr>) = members_inv s" "members_inv (s\<lparr>m_closed := b\<rparr>) = members_inv s"
  "members_inv (s\<lparr>m_generation := n'\<rparr>) = members_inv s" "members_inv (s\<lparr>m_urlOverrides := u\<rparr>) = members_inv s"
  by (simp_all add: members_inv_def)

lemma members_updAttempt [simp]: "members_inv (updAttempt out f s) = members_inv s"
  by (simp add: updAttempt_def split: option.split)

lemmas members_frame [simp] =
  members_inv_sched [OF sched_notify] members_inv_sched [OF sched_budget] members_inv_sched [OF sched_expire]
  members_inv_sched [OF sched_trySwitch] members_inv_sched [OF sched_mutateHistoryLocked]
  members_inv_sched [OF sched_hydrate] members_inv_sched [OF sched_clearSticky]
  sched_updates [THEN members_inv_sched]

lemma requestProbe_cases:
  "requestProbe need ord tag s = s \<or> requestProbe need ord tag s = updMember tag (raiseNeed need) s"
  by (auto simp: requestProbe_def updMember_def Let_def split: option.split)

lemma raiseNeed_sel [simp]:
  "ms_membershipID (raiseNeed need st) = ms_membershipID st"
  "ms_confirmSequence (raiseNeed need st) = ms_confirmSequence st"
  "ms_confirmationPending (raiseNeed need st) = ms_confirmationPending st"
  "ms_replacement (raiseNeed need st) = ms_replacement st"
  "ms_outcome (raiseNeed need st) = ms_outcome st"
  "ms_need (raiseNeed need st) = max need (ms_need st)"
  by (auto simp: raiseNeed_def max_def)

lemma members_request: "members_inv s \<Longrightarrow> members_inv (requestProbe need ord tag s)"
  using requestProbe_cases [of need ord tag s] members_upd [of s tag "raiseNeed need"] members_ok [of s tag]
  by auto

lemma members_requests: "members_inv s \<Longrightarrow> members_inv (requestProbesLocked tags need ord s)"
proof -
  have "members_inv t \<Longrightarrow> members_inv (fold (requestProbe need ord) ts t)" for ts t
    by (induction ts arbitrary: t) (auto intro: members_request)
  then show "members_inv s \<Longrightarrow> ?thesis" by (simp add: requestProbesLocked_def)
qed

lemma members_record: "members_inv s \<Longrightarrow> members_inv (snd (recordProbeOutcomeLocked e tag oc s))"
  by (auto simp: recordProbeOutcomeLocked_def Let_def case_prod_unfold
      intro!: members_upd members_sequence) (auto dest!: members_ok intro: le_SucI)

lemma members_settle: "members_inv s \<Longrightarrow> members_inv (settleMember e a ok s)"
  using members_ok [of s "pa_tag a"]
  by (auto simp: settleMember_def Let_def intro!: members_upd split: option.split)

lemma members_accept: "members_inv s \<Longrightarrow> members_inv (acceptProbeLocked e a ok d s)"
  by (simp add: acceptProbeLocked_def collectSuccesses_def Let_def case_prod_unfold members_settle members_record)

lemma members_release [simp]: "members_inv (releaseProbeSlotLocked e out s) = members_inv s"
  by (simp add: releaseProbeSlotLocked_def split: option.split)

lemma members_finish: "members_inv s \<Longrightarrow> members_inv (finishProbeLocked e out ok d s)"
  by (simp add: finishProbeLocked_def Let_def members_accept split: option.split)

lemma members_timeout: "members_inv s \<Longrightarrow> members_inv (timeoutProbeLocked e out s)"
  by (simp add: timeoutProbeLocked_def Let_def members_finish split: option.split)

lemma members_startProbe: "members_inv s \<Longrightarrow> members_inv (startProbeLocked e tag out beh st h s)"
  by (erule members_inv_mono) (simp_all add: startProbeLocked_def Let_def)

lemma members_clearNeed:
  "members_inv s \<Longrightarrow> gget (m_probeMembers s) tag = Some st \<Longrightarrow>
   members_inv (s\<lparr>m_probeMembers := gput tag (st\<lparr>ms_need := n\<rparr>) (m_probeMembers s)\<rparr>)"
  by (rule members_put) (simp_all add: members_inv_def member_ok_def)

lemma members_dispatchTag: "members_inv s \<Longrightarrow> members_inv (dispatchTag e tag s)"
  by (simp add: dispatchTag_def Let_def members_startProbe members_clearNeed split: option.split)

lemma members_dispatch: "members_inv s \<Longrightarrow> members_inv (dispatchProbesLocked e s)"
proof -
  have "members_inv t \<Longrightarrow> members_inv (fold (dispatchTag e) ts t)" for ts t
    by (induction ts arbitrary: t) (auto intro: members_dispatchTag)
  then show "members_inv s \<Longrightarrow> ?thesis" by (simp add: dispatchProbesLocked_def Let_def)
qed

lemma members_complete: "members_inv s \<Longrightarrow> members_inv (completeProbe e out n ok d s)"
  by (simp add: completeProbe_def Let_def members_dispatch members_finish members_timeout split: option.split)

lemma members_cancel [simp]: "members_inv (cancelProbesLocked ord s) = members_inv s"
  by (simp add: cancelProbesLocked_def)

lemma members_gmap:
  assumes "members_inv s" and "\<And>st. ms_membershipID (f st) = ms_membershipID st \<and>
     ms_confirmSequence (f st) = ms_confirmSequence st \<and> ms_outcome (f st) = ms_outcome st"
  shows "members_inv (s\<lparr>m_probeMembers := gmap f (m_probeMembers s)\<rparr>)"
  using assms unfolding members_inv_def by (auto simp: member_ok_def)

lemma members_add: "members_inv s \<Longrightarrow> members_inv (addMemberLocked e tag out s)"
proof -
  assume s: "members_inv s"
  let ?t = "hydrateHistoryLocked e tag (s\<lparr>m_members := gput tag out (m_members s)\<rparr>)"
  have t: "m_members ?t = gput tag out (m_members s)" "m_probeMembers ?t = m_probeMembers s"
    "m_sequence ?t = m_sequence s" "m_nextMembershipID ?t = m_nextMembershipID s"
    using schedD [OF sched_hydrate, of e tag "s\<lparr>m_members := gput tag out (m_members s)\<rparr>"] by simp_all
  have fresh: "ms_membershipID st \<noteq> Suc (m_nextMembershipID s)" if "gget (m_probeMembers s) u = Some st" for u st
    using s that by (force simp: members_inv_def member_ok_def)
  show ?thesis
  proof (cases "gget (m_probeMembers s) tag")
    case None
    have ok: "member_ok (m_sequence s) (Suc (m_nextMembershipID s)) st"
      if "gget (m_probeMembers s) u = Some st" for u st
      using s that member_ok_mono [of "m_sequence s" "m_nextMembershipID s" st] by (simp add: members_inv_def)
    show ?thesis
      using s None fresh ok unfolding members_inv_def addMemberLocked_def addProbeMemberLocked_def Let_def
      by (auto simp: t member_ok_def [of _ _ "\<lparr>ms_membershipID = x, ms_need = n, ms_confirmationPending = b,
        ms_confirmSequence = c, ms_replacement = r, ms_outcome = oc\<rparr>" for x n b c r oc]
          dest: fresh sym)
  next
    case (Some st)
    with s show ?thesis
      unfolding members_inv_def addMemberLocked_def addProbeMemberLocked_def by (auto simp: t)
  qed
qed

section \<open>Every operation keeps the invariant\<close>

definition group_inv :: "mas \<Rightarrow> bool" where
  "group_inv s \<longleftrightarrow> slots_inv {} s \<and> members_inv s"

lemma group_inv_sched: "sched s = sched t \<Longrightarrow> group_inv s \<longleftrightarrow> group_inv t"
  by (simp add: group_inv_def slots_inv_sched [of s t] members_inv_sched [of s t])

lemmas group_frame [simp] =
  group_inv_sched [OF sched_notify] group_inv_sched [OF sched_ladderTimer] group_inv_sched [OF sched_finishLadder]
  group_inv_sched [OF sched_finishCycle] group_inv_sched [OF sched_finishURLTest]
  group_inv_sched [OF sched_armPeriodic] group_inv_sched [OF sched_armIdle] group_inv_sched [OF sched_idleTimer]
  group_inv_sched [OF sched_unregister] group_inv_sched [OF sched_clearSticky] group_inv_sched [OF sched_rank]
  group_inv_sched [OF sched_noteData] group_inv_sched [OF sched_setSticky]
  group_inv_sched [OF sched_recordUserFailure] sched_updates [THEN group_inv_sched]

lemma slotview_request [simp]: "slotview (requestProbesLocked tags need ord s) = slotview s"
  "m_sequence (requestProbesLocked tags need ord s) = m_sequence s"
proof -
  have "slotview (fold (requestProbe need ord) ts t) = slotview t \<and>
        m_sequence (fold (requestProbe need ord) ts t) = m_sequence t" for ts t
  proof (induction ts arbitrary: t)
    case (Cons tag ts)
    then show ?case using requestProbe_cases [of need ord tag t] by auto
  qed simp
  then show "slotview (requestProbesLocked tags need ord s) = slotview s"
    "m_sequence (requestProbesLocked tags need ord s) = m_sequence s"
    by (simp_all add: requestProbesLocked_def)
qed

lemma inv_request: "group_inv s \<Longrightarrow> group_inv (requestProbesLocked tags need ord s)"
  by (auto simp: group_inv_def intro: members_requests elim: slots_inv_mono)

lemma inv_dispatch: "group_inv s \<Longrightarrow> group_inv (dispatchProbesLocked e s)"
  by (simp add: group_inv_def slots_dispatch members_dispatch)

lemma inv_complete: "group_inv s \<Longrightarrow> group_inv (completeProbe e out n ok d s)"
  by (simp add: group_inv_def slots_complete members_complete)

lemma inv_watchdog: "group_inv s \<Longrightarrow> group_inv (watchdogFired e out n s)"
  by (simp add: watchdogFired_def group_inv_def slots_timeout slots_dispatch members_timeout members_dispatch)

lemma inv_cancel: "group_inv s \<Longrightarrow> group_inv (cancelProbesLocked ord s)"
  by (simp add: group_inv_def slots_cancel)

lemma inv_ladder: "group_inv s \<Longrightarrow> group_inv (runLadder e g s)"
  by (simp add: runLadder_def Let_def inv_dispatch inv_request)

lemma inv_cycle: "group_inv s \<Longrightarrow> group_inv (runProbeCycle e s)"
  by (simp add: runProbeCycle_def Let_def inv_dispatch inv_request)

lemma inv_check: "group_inv s \<Longrightarrow> group_inv (CheckOutbounds e s)"
  by (simp add: CheckOutbounds_def inv_dispatch inv_request)

lemma inv_periodic: "group_inv s \<Longrightarrow> group_inv (periodicTimerFired e s)"
  by (simp add: periodicTimerFired_def inv_cycle)

lemma inv_pause: "group_inv s \<Longrightarrow> group_inv (onProbePause e ev s)"
  by (simp add: onProbePause_def inv_dispatch inv_cancel)

lemma inv_keepAlive: "group_inv s \<Longrightarrow> group_inv (keepAliveLocked e s)"
  by (simp add: keepAliveLocked_def Let_def inv_dispatch inv_request)

lemma slotview_addMember [simp]:
  "slotview (addMemberLocked e tag out s) = slotview s" "m_sequence (addMemberLocked e tag out s) = m_sequence s"
  by (simp_all add: addMemberLocked_def addProbeMemberLocked_def Let_def)

lemma inv_addMember: "group_inv s \<Longrightarrow> group_inv (addMemberLocked e tag out s)"
  by (auto simp: group_inv_def members_add elim: slots_inv_mono)

lemma inv_fold: "(\<And>x t. group_inv t \<Longrightarrow> group_inv (f x t)) \<Longrightarrow> group_inv s \<Longrightarrow> group_inv (fold f xs s)"
  by (induction xs arbitrary: s) auto

lemma inv_lateMember: "group_inv s \<Longrightarrow> group_inv (lateMember e mgr tag s)"
  by (simp add: lateMember_def inv_addMember split: option.split)

lemma inv_urlTest: "group_inv s \<Longrightarrow> group_inv (snd (beginURLTest e mgr s))"
  by (simp add: beginURLTest_def Let_def inv_dispatch inv_request inv_fold inv_lateMember)

lemma inv_updMember:
  assumes "group_inv s"
    and "\<And>st. ms_membershipID (f st) = ms_membershipID st \<and> ms_outcome (f st) = ms_outcome st \<and>
           (ms_confirmSequence (f st) = ms_confirmSequence st \<or> ms_confirmSequence (f st) \<le> m_sequence s)"
  shows "group_inv (updMember tag f s)"
proof -
  have "members_inv (updMember tag f s)"
    using assms members_ok [of s tag] by (intro members_upd) (auto simp: group_inv_def, metis)
  then show ?thesis using assms(1) by (auto simp: group_inv_def elim: slots_inv_mono)
qed

lemma inv_sequence: "group_inv s \<Longrightarrow> m_sequence s \<le> n \<Longrightarrow> group_inv (s\<lparr>m_sequence := n\<rparr>)"
  by (auto simp: group_inv_def elim: slots_inv_mono members_inv_mono)

lemma inv_confirm: "group_inv s \<Longrightarrow> group_inv (requestFailureConfirmation e v tag r g s)"
  by (auto simp: requestFailureConfirmation_def Let_def split: option.split
      intro!: inv_dispatch inv_updMember inv_sequence inv_request)

lemma inv_onFailure: "group_inv s \<Longrightarrow> group_inv (onFailure e v c kind s)"
  by (simp add: onFailure_def Let_def case_prod_unfold inv_confirm)

lemma inv_close: "group_inv s \<Longrightarrow> group_inv (Close s)"
proof -
  assume s: "group_inv s"
  let ?s = "cancelProbesLocked False (s\<lparr>m_closed := True\<rparr>)"
  have "slots_inv {} (s\<lparr>m_closed := True\<rparr>)" using s by (auto simp: group_inv_def elim: slots_inv_mono)
  then have "slots_inv {} (?s\<lparr>m_inFlight := gmap (\<lambda>a. a\<lparr>pa_watchdogStopped := True\<rparr>) (m_inFlight ?s)\<rparr>)"
    by (intro slots_gmap slots_cancel) simp_all
  then have "group_inv (?s\<lparr>m_inFlight := gmap (\<lambda>a. a\<lparr>pa_watchdogStopped := True\<rparr>) (m_inFlight ?s)\<rparr>)"
    using s by (simp add: group_inv_def)
  then show ?thesis using s by (simp add: Close_def closeProbesLocked_def Let_def)
qed

lemma inv_advance: "group_inv s \<Longrightarrow> group_inv (advanceNetworkLocked e s)"
proof -
  assume s: "group_inv s"
  have gen: "group_inv (t\<lparr>m_generation := n\<rparr>) = group_inv t" for t n
    by (auto simp: group_inv_def elim: slots_inv_mono)
  have pend: "group_inv t \<Longrightarrow>
      group_inv (t\<lparr>m_probeMembers := gmap (\<lambda>st. st\<lparr>ms_confirmationPending := False\<rparr>) (m_probeMembers t)\<rparr>)" for t
    by (auto simp: group_inv_def intro: members_gmap elim: slots_inv_mono)
  show ?thesis using s by (simp add: advanceNetworkLocked_def Let_def inv_request pend inv_cancel gen)
qed

lemma inv_interface: "group_inv s \<Longrightarrow> group_inv (InterfaceUpdated e s)"
  by (simp add: InterfaceUpdated_def inv_dispatch inv_advance)

lemma inv_tags [simp]: "group_inv (s\<lparr>m_tags := ts\<rparr>) = group_inv s"
  by (auto simp: group_inv_def elim: slots_inv_mono)

lemma inv_urls [simp]: "group_inv (s\<lparr>m_urlOverrides := u\<rparr>) = group_inv s"
  by (auto simp: group_inv_def elim: slots_inv_mono)

lemma inv_timeouts: "group_inv (SetProbeTimeouts ms s) = group_inv s"
  by (simp add: SetProbeTimeouts_def group_inv_def slots_inv_def members_inv_def probeLimit_def)

lemma inv_start: "group_inv s \<Longrightarrow> group_inv (snd (Start e mgr s))"
  by (simp add: Start_def start_def inv_fold inv_addMember case_prod_unfold split: option.split sum.split)

lemma inv_postStart: "group_inv s \<Longrightarrow> group_inv (PostStart e s)"
  by (simp add: PostStart_def inv_check)

lemma inv_addTag: "group_inv (snd p) \<Longrightarrow> group_inv (snd (addTag e mgr tag p))"
  by (cases p) (simp add: addTag_def Let_def inv_addMember split: option.split)

lemma inv_Add: "group_inv s \<Longrightarrow> group_inv (snd (Add e mgr tags s))"
proof -
  have "group_inv (snd p) \<Longrightarrow> group_inv (snd (fold (addTag e mgr) ts p))" for ts p
    by (induction ts arbitrary: p) (simp_all add: inv_addTag)
  then show "group_inv s \<Longrightarrow> ?thesis"
    by (simp add: Add_def Let_def case_prod_unfold inv_dispatch inv_request)
qed

lemma inv_removeTag: "group_inv (snd (snd p)) \<Longrightarrow> group_inv (snd (snd (removeTag tag p)))"
proof -
  obtain removed n s where p: "p = (removed, n, s)" by (cases p)
  assume "group_inv (snd (snd p))"
  then have s: "slots_inv {} s" "members_inv s" by (simp_all add: p group_inv_def)
  have stuck: "stuck_ok a" if "gget (m_inFlight s) out = Some a" for out a
    using s(1) that by (auto simp: slots_inv_def)
  let ?c = "\<lambda>out. case gget (m_inFlight s) out of
      Some a \<Rightarrow> if pa_tag a = tag then updAttempt out cancelProbeLocked s else s | None \<Rightarrow> s"
  have c: "slots_inv {} (?c out)" "members_inv (?c out)" for out
    using s stuck by (auto intro!: slots_updAttempt [OF s(1)] simp: cancelProbeLocked_def stuck_ok_def split: option.split)
  have drop: "group_inv (t\<lparr>m_members := gdel tag (m_members t), m_probeMembers := gdel tag (m_probeMembers t)\<rparr>)"
    if "slots_inv {} t" "members_inv t" for t
    using that by (auto simp: group_inv_def members_inv_def elim: slots_inv_mono)
  have "group_inv (clearStickyTagLocked tag (t\<lparr>m_members := gdel tag (m_members t),
      m_probeMembers := gdel tag (m_probeMembers t), m_urlOverrides := gdel tag (m_urlOverrides t),
      m_histories := gdel tag (m_histories t), m_history := map_option (hs_Delete tag) (m_history t)\<rparr>))"
    if "slots_inv {} t" "members_inv t" for t
    using drop [OF that] by simp
  with c s show ?thesis
    by (auto simp: p removeTag_def Let_def group_inv_def split: option.split)
qed

lemma inv_Remove: "group_inv s \<Longrightarrow> group_inv (snd (Remove e tags s))"
proof -
  have "group_inv (snd (snd p)) \<Longrightarrow> group_inv (snd (snd (fold removeTag ts p)))" for ts p
    by (induction ts arbitrary: p) (simp_all add: inv_removeTag)
  then show "group_inv s \<Longrightarrow> ?thesis"
    by (simp add: Remove_def Let_def case_prod_unfold inv_dispatch)
qed

lemma inv_overrideURL: "group_inv s \<Longrightarrow> group_inv (overrideURL p s)"
  by (cases p) (simp add: overrideURL_def inv_request)

lemma inv_SetURLOverrides: "group_inv s \<Longrightarrow> group_inv (SetURLOverrides e us s)"
  by (simp add: SetURLOverrides_def inv_dispatch inv_fold inv_overrideURL)

lemma inv_select: "group_inv s \<Longrightarrow> group_inv (snd (selectOutbound e network x s))"
  by (simp add: selectOutbound_def Let_def case_prod_unfold inv_keepAlive inv_dispatch inv_request
      split: list.split)

lemma inv_new: "NewMutableAutoSelect e c opts = Inr s \<Longrightarrow> group_inv s"
proof -
  assume "NewMutableAutoSelect e c opts = Inr s"
  then have s: "s = SetProbeTimeouts (op_ProbeTimeoutsMs opts) (registerProbePauseCallback e (newGroup c opts))"
    by (auto simp: NewMutableAutoSelect_def split: option.splits if_splits)
  have "0 < probeLimit (newGroup c opts)"
    by (simp add: probeLimit_def resolveMutableAutoSelectOptions_def or_default_pos_int defaultProbeConcurrency_def)
  then have "group_inv (newGroup c opts)"
    by (simp add: group_inv_def slots_inv_def members_inv_def)
  then show ?thesis by (simp add: s inv_timeouts registerProbePauseCallback_def)
qed

section \<open>The group as a transition system\<close>

text \<open>One step is one critical section, of any operation, with any clock, pause state, outbound
  manager and URL check. A dial is the sections it is made of; a probe's return and its watchdog
  are steps of their own, in any order with all others.\<close>

inductive group_step :: "mas \<Rightarrow> mas \<Rightarrow> bool" where
  step_start: "group_step s (snd (Start e mgr s))"
| step_postStart: "group_step s (PostStart e s)"
| step_close: "group_step s (Close s)"
| step_interface: "group_step s (InterfaceUpdated e s)"
| step_add: "group_step s (snd (Add e mgr tags s))"
| step_remove: "group_step s (snd (Remove e tags s))"
| step_urls: "group_step s (SetURLOverrides e us s)"
| step_timeouts: "group_step s (SetProbeTimeouts ms s)"
| step_check: "group_step s (CheckOutbounds e s)"
| step_select: "group_step s (snd (selectOutbound e network x s))"
| step_failure: "group_step s (snd (recordUserFailure e tag kind g s))"
| step_onFailure: "group_step s (onFailure e v c kind s)"
| step_confirm: "group_step s (requestFailureConfirmation e v tag r g s)"
| step_data: "group_step s (noteDataActivity now s)"
| step_complete: "group_step s (completeProbe e out n ok d s)"
| step_watchdog: "group_step s (watchdogFired e out n s)"
| step_ladder: "group_step s (runLadder e g s)"
| step_ladderTimer: "group_step s (ladderTimerFired e s)"
| step_ladderEnd: "group_step s (finishLadder e s)"
| step_cycle: "group_step s (runProbeCycle e s)"
| step_cycleEnd: "group_step s (finishProbeCycle e s)"
| step_urlTest: "group_step s (snd (beginURLTest e mgr s))"
| step_urlTestEnd: "group_step s (snd (finishURLTest i s))"
| step_pause: "group_step s (onProbePause e ev s)"
| step_periodic: "group_step s (periodicTimerFired e s)"
| step_idle: "group_step s (idleTimerFired e s)"

abbreviation group_init :: "mas \<Rightarrow> bool" where
  "group_init s \<equiv> \<exists>e c opts. NewMutableAutoSelect e c opts = Inr s"

lemma group_step_inv: "group_step s t \<Longrightarrow> group_inv s \<Longrightarrow> group_inv t"
  by (induction rule: group_step.induct)
    (simp_all add: inv_start inv_postStart inv_close inv_interface inv_Add inv_Remove inv_SetURLOverrides
      inv_timeouts inv_check inv_select inv_onFailure inv_confirm inv_complete inv_watchdog inv_ladder
      inv_cycle inv_urlTest inv_pause inv_periodic)

interpretation group: invariant_system group_init group_step group_inv
  by unfold_locales (auto intro: group_step_inv inv_new)

section \<open>Properties of every reachable state\<close>

abbreviation group_reaches :: "mas \<Rightarrow> bool" where
  "group_reaches \<equiv> reaches group_init group_step"

lemma new_reaches: "NewMutableAutoSelect e c opts = Inr s \<Longrightarrow> group_reaches s"
  by (rule reaches_init) blast

text \<open>C2: the concurrency cap holds in every reachable state, whatever the order in which probes
  start, return, time out and are canceled: the slot counter is exactly the number of attempts in
  flight that hold a slot, it never exceeds the configured limit, no outbound has two attempts,
  last-resort attempts hold no slot, and an attempt whose watchdog fired has ended and holds none.\<close>

theorem probe_slots_accounted:
  assumes "group_reaches s"
  shows "m_slotsUsed s = int (length (filter (\<lambda>(out, a). pa_holdsSlot a) (m_inFlight s))) \<and>
    m_slotsUsed s \<le> probeLimit s \<and> distinct (map fst (m_inFlight s)) \<and>
    (\<forall>(out, a) \<in> set (m_inFlight s). pa_outbound a = out \<and> pa_sequence a \<le> m_sequence s \<and>
       (pa_holdsSlot a \<longrightarrow> \<not> pa_lastResort a) \<and> (pa_stuck a \<longrightarrow> pa_finalized a \<and> \<not> pa_holdsSlot a))"
proof -
  have inv: "slots_inv {} s" using group.reaches_inv [OF assms] by (simp add: group_inv_def)
  then have "attempt_ok (m_sequence s) out a \<and> stuck_ok a" if "(out, a) \<in> set (m_inFlight s)" for out a
    using that by (auto simp: slots_inv_def map_of_eq_Some_iff)
  with inv show ?thesis
    by (auto simp: slots_inv_def gcount_def case_prod_unfold attempt_ok_def stuck_ok_def)
qed

text \<open>The group never looks up probe state that is not there, and never confuses two
  memberships of one tag: in every reachable state the tags with a member are exactly those with
  probe state, membership numbers are pairwise different, and no recorded outcome or pending
  confirmation is sequenced after the current sequence number.\<close>

lemma memberships_consistent:
  assumes "group_reaches s"
  shows "dom (gget (m_members s)) = dom (gget (m_probeMembers s)) \<and>
    (\<forall>t u st su. gget (m_probeMembers s) t = Some st \<and> gget (m_probeMembers s) u = Some su \<and>
       ms_membershipID st = ms_membershipID su \<longrightarrow> t = u) \<and>
    (\<forall>t st oc. gget (m_probeMembers s) t = Some st \<and> ms_outcome st = Some oc \<longrightarrow>
       po_sequence oc \<le> m_sequence s \<and> ms_confirmSequence st \<le> m_sequence s)"
proof -
  have inv: "members_inv s" using group.reaches_inv [OF assms] by (simp add: group_inv_def)
  then have "dom (gget (m_members s)) = dom (gget (m_probeMembers s))"
    by (auto simp: members_inv_def dom_def)
  moreover have "po_sequence oc \<le> m_sequence s \<and> ms_confirmSequence st \<le> m_sequence s"
    if "gget (m_probeMembers s) t = Some st" "ms_outcome st = Some oc" for t st oc
    using members_ok [OF inv that(1)] that(2) by simp
  ultimately show ?thesis using inv unfolding members_inv_def by blast
qed

section \<open>Dispatching\<close>

text \<open>A need that may wait: none, or the outbound is busy, or it takes a slot and there is none.\<close>

definition served :: "mas \<Rightarrow> tag \<Rightarrow> bool" where
  "served s tag \<longleftrightarrow>
     (\<forall>st out. gget (m_probeMembers s) tag = Some st \<and> gget (m_members s) tag = Some out \<longrightarrow>
        ms_need st = probeNotNeeded \<or> gget (m_inFlight s) out \<noteq> None \<or>
        (\<not> pb_lastResort (behavior s (ob_type out)) \<and> \<not> ms_confirmationPending st \<and>
         probeLimit s \<le> m_slotsUsed s))"

text \<open>What one iteration does: nothing, it clears the need of its tag, or it starts one attempt.\<close>

lemma dispatchTag_cases:
  obtains (same) "dispatchTag e tag s = s" "served s tag"
  | (clear) st where "gget (m_probeMembers s) tag = Some st"
      "dispatchTag e tag s = s\<lparr>m_probeMembers := gput tag (st\<lparr>ms_need := probeNotNeeded\<rparr>) (m_probeMembers s)\<rparr>"
  | (launch) st out where "gget (m_probeMembers s) tag = Some st" "gget (m_members s) tag = Some out"
      "gget (m_inFlight s) out = None" "\<not> pb_excludeFromPool (behavior s (ob_type out))"
      "dispatchTag e tag s = startProbeLocked e tag out (behavior s (ob_type out)) st
         (\<not> pb_lastResort (behavior s (ob_type out)) \<and> \<not> ms_confirmationPending st) s"
proof (cases "gget (m_probeMembers s) tag")
  case None
  then show ?thesis by (intro same) (simp_all add: dispatchTag_def served_def)
next
  case st: (Some st)
  show ?thesis
  proof (cases "gget (m_members s) tag")
    case None
    with st show ?thesis by (intro same) (simp_all add: dispatchTag_def served_def)
  next
    case out: (Some out)
    let ?beh = "behavior s (ob_type out)"
    let ?slot = "\<not> pb_lastResort ?beh \<and> \<not> ms_confirmationPending st"
    consider "ms_need st = probeNotNeeded"
      | "ms_need st \<noteq> probeNotNeeded" "pb_excludeFromPool ?beh \<or>
          ms_need st = probeIfStale \<and> hasFreshProbeOutcomeLocked tag (ev_now e) s"
      | "ms_need st \<noteq> probeNotNeeded" "\<not> pb_excludeFromPool ?beh"
        "\<not> (ms_need st = probeIfStale \<and> hasFreshProbeOutcomeLocked tag (ev_now e) s)"
      by blast
    then show ?thesis
    proof cases
      case 1
      with st out show ?thesis by (intro same) (simp_all add: dispatchTag_def served_def)
    next
      case 2
      with st out show ?thesis by (intro clear [OF st]) (auto simp: dispatchTag_def Let_def)
    next
      case 3
      then have eq: "dispatchTag e tag s =
          (if gget (m_inFlight s) out \<noteq> None \<or> (?slot \<and> probeLimit s \<le> m_slotsUsed s) then s
           else startProbeLocked e tag out ?beh st ?slot s)"
        using st out by (auto simp: dispatchTag_def Let_def)
      show ?thesis
      proof (cases "gget (m_inFlight s) out \<noteq> None \<or> (?slot \<and> probeLimit s \<le> m_slotsUsed s)")
        case True
        show ?thesis
        proof (rule same)
          show "dispatchTag e tag s = s" unfolding eq using True by (rule if_P)
          show "served s tag" using True st out by (auto simp: served_def)
        qed
      next
        case False
        then show ?thesis using st out 3 eq by (intro launch) auto
      qed
    qed
  qed
qed

lemma startProbe_sel [simp]:
  "m_probeMembers (startProbeLocked e tag out beh st h s) = m_probeMembers s"
  "m_members (startProbeLocked e tag out beh st h s) = m_members s"
  "m_probeTimeouts (startProbeLocked e tag out beh st h s) = m_probeTimeouts s"
  "m_cfg (startProbeLocked e tag out beh st h s) = m_cfg s"
  "m_slotsUsed s \<le> m_slotsUsed (startProbeLocked e tag out beh st h s)"
  "gget (m_inFlight (startProbeLocked e tag out beh st h s)) x = None \<longleftrightarrow>
     x \<noteq> out \<and> gget (m_inFlight s) x = None"
  by (auto simp: startProbeLocked_def Let_def)

lemma dispatchTag_serves: "served (dispatchTag e tag s) tag"
  by (rule dispatchTag_cases [of e tag s]) (auto simp: served_def)

lemma served_mono:
  assumes "served s t" and "m_members s' = m_members s" and "m_probeTimeouts s' = m_probeTimeouts s"
    and "m_cfg s' = m_cfg s" and "m_slotsUsed s \<le> m_slotsUsed s'"
    and "\<And>out. gget (m_inFlight s') out = None \<Longrightarrow> gget (m_inFlight s) out = None"
    and "gget (m_probeMembers s') t = gget (m_probeMembers s) t"
  shows "served s' t"
  unfolding served_def
proof (intro allI impI)
  fix st out
  assume "gget (m_probeMembers s') t = Some st \<and> gget (m_members s') t = Some out"
  then have "ms_need st = probeNotNeeded \<or> gget (m_inFlight s) out \<noteq> None \<or>
      (\<not> pb_lastResort (behavior s (ob_type out)) \<and> \<not> ms_confirmationPending st \<and> probeLimit s \<le> m_slotsUsed s)"
    using assms(1,2,7) by (simp add: served_def)
  then show "ms_need st = probeNotNeeded \<or> gget (m_inFlight s') out \<noteq> None \<or>
      (\<not> pb_lastResort (behavior s' (ob_type out)) \<and> \<not> ms_confirmationPending st \<and> probeLimit s' \<le> m_slotsUsed s')"
    using assms(3-5) assms(6) [of out] by (auto simp: behavior_def probeLimit_def)
qed

lemma dispatchTag_keeps: "served s t \<Longrightarrow> served (dispatchTag e tag s) t"
proof (rule dispatchTag_cases [of e tag s])
  fix st
  assume s: "served s t" and st: "gget (m_probeMembers s) tag = Some st" and
    eq: "dispatchTag e tag s = s\<lparr>m_probeMembers := gput tag (st\<lparr>ms_need := probeNotNeeded\<rparr>) (m_probeMembers s)\<rparr>"
  show ?thesis
  proof (cases "t = tag")
    case True
    then show ?thesis by (simp add: dispatchTag_serves)
  next
    case False
    then show ?thesis unfolding eq by (intro served_mono [OF s]) simp_all
  qed
qed (auto elim!: served_mono)

lemma dispatch_fold_serves:
  "tag \<in> set ts \<or> served s tag \<Longrightarrow> served (fold (dispatchTag e) ts s) tag"
  by (induction ts arbitrary: s) (auto intro: dispatchTag_serves dispatchTag_keeps)


definition exampleOutbound :: "tag \<Rightarrow> outbound" where
  "exampleOutbound t = \<lparr>ob_id = length t, ob_tag = t, ob_type = TypeVLESS, ob_network = [''tcp'']\<rparr>"

definition exampleEnv :: "time \<Rightarrow> env" where
  "exampleEnv now = \<lparr>ev_now = now, ev_pause = None\<rparr>"

definition exampleGroup :: mas where
  "exampleGroup = SetProbeTimeouts [] (newGroup None (zeroOptions\<lparr>op_ProbeConcurrency := 1\<rparr>))"

definition exampleBusy :: mas where
  "exampleBusy = snd (Add (exampleEnv 5) (\<lambda>t. Some (exampleOutbound t)) [''a'', ''bb''] exampleGroup)"

lemma exampleBusy_eval:
  "m_slotsUsed exampleBusy = 1 \<and> map fst (m_inFlight exampleBusy) = [exampleOutbound ''a''] \<and>
   map (\<lambda>(t, st). (t, ms_need st)) (m_probeMembers exampleBusy) = [(''a'', probeIfStale), (''bb'', probeIfStale)]"
  by code_simp

lemma exampleGroup_reaches: "group_reaches exampleGroup"
proof (rule new_reaches)
  show "NewMutableAutoSelect (exampleEnv 1) None (zeroOptions\<lparr>op_ProbeConcurrency := 1\<rparr>) = Inr exampleGroup"
    by (simp add: NewMutableAutoSelect_def zeroOptions_def exampleGroup_def registerProbePauseCallback_def
        exampleEnv_def)
qed

lemma exampleBusy_reaches: "group_reaches exampleBusy"
  unfolding exampleBusy_def by (rule reaches_step [OF exampleGroup_reaches step_add])

theorem probe_slots_accounted_witness:
  "m_slotsUsed exampleBusy = 1 \<and> m_slotsUsed exampleBusy \<le> probeLimit exampleBusy"
  using probe_slots_accounted [OF exampleBusy_reaches] exampleBusy_eval by blast


section \<open>Attempts that no longer count\<close>

text \<open>What a member has on record: its latest outcome, and its history but for the failure window.\<close>

definition onRecord where
  "onRecord s = (\<lambda>t. (map_option ms_outcome (gget (m_probeMembers s) t), map_option hcore (gget (m_histories s) t)))"

lemma onRecord_prunes: "prunes s s' \<Longrightarrow> onRecord s' = onRecord s"
proof -
  assume p: "prunes s s'"
  have "m_probeMembers s' = m_probeMembers s" by (subst prunes_state [OF p]) simp
  with p show ?thesis by (simp add: onRecord_def prunes_def)
qed

lemma onRecord_updates [simp]:
  "onRecord (s\<lparr>m_inFlight := a\<rparr>) = onRecord s" "onRecord (s\<lparr>m_slotsUsed := b\<rparr>) = onRecord s"
  "onRecord (s\<lparr>m_ladderWaiter := c\<rparr>) = onRecord s" "onRecord (s\<lparr>m_probeChanged := d\<rparr>) = onRecord s"
  "onRecord (s\<lparr>m_exhaustion := f\<rparr>) = onRecord s" "onRecord (s\<lparr>m_sequence := d\<rparr>) = onRecord s"
  "onRecord (s\<lparr>m_periodicWaiter := c\<rparr>) = onRecord s"
  by (simp_all add: onRecord_def)

lemma onRecord_put:
  "gget (m_probeMembers s) t = Some st \<Longrightarrow> ms_outcome st' = ms_outcome st \<Longrightarrow>
   onRecord (s\<lparr>m_probeMembers := gput t st' (m_probeMembers s)\<rparr>) = onRecord s"
  by (auto simp: onRecord_def)

lemma onRecord_evaluate [simp]: "onRecord (snd (evaluateProbesLocked e w s)) = onRecord s"
  by (simp add: evaluateProbesLocked_def emitExhaustionLocked_def Let_def case_prod_unfold
      onRecord_prunes [OF rankLocked_prunes])

lemma onRecord_frame [simp]:
  "onRecord (notifyProbesLocked s) = onRecord s" "onRecord (startLadderBudgetLocked e s) = onRecord s"
  "onRecord (expireLadderLocked e s) = onRecord s" "onRecord (updAttempt out f s) = onRecord s"
  by (simp_all add: notifyProbesLocked_def startLadderBudgetLocked_def expireLadderLocked_def updAttempt_def
      Let_def case_prod_unfold split: option.split)

lemma onRecord_release [simp]: "onRecord (releaseProbeSlotLocked e out s) = onRecord s"
  by (simp add: releaseProbeSlotLocked_def split: option.split)

lemma onRecord_dispatchTag: "onRecord (dispatchTag e tag s) = onRecord s"
  by (rule dispatchTag_cases [of e tag s]) (simp_all add: onRecord_put startProbeLocked_def Let_def)

lemma onRecord_dispatch [simp]: "onRecord (dispatchProbesLocked e s) = onRecord s"
proof -
  have "onRecord (fold (dispatchTag e) ts t) = onRecord t" for ts t
    by (induction ts arbitrary: t) (simp_all add: onRecord_dispatchTag)
  then show ?thesis by (simp add: dispatchProbesLocked_def Let_def)
qed

lemma valid_sched: "sched s = sched t \<Longrightarrow> validProbeLocked e a s = validProbeLocked e a t"
  by (simp add: validProbeLocked_def isClosed_def sameMembershipLocked_def scopeCurrentLocked_def
      probeURLForLocked_def matchesGenerationLocked_def sched_def cong: option.case_cong if_cong)

text \<open>Validity does not read the attempts.\<close>

lemma valid_updAttempt [simp]: "validProbeLocked e a (updAttempt out f s) = validProbeLocked e a s"
  by (simp add: validProbeLocked_def isClosed_def sameMembershipLocked_def scopeCurrentLocked_def
      probeURLForLocked_def matchesGenerationLocked_def updAttempt_def split: option.split)

lemma valid_stuck [simp]: "validProbeLocked e (a\<lparr>pa_stuck := b\<rparr>) s = validProbeLocked e a s"
  by (simp add: validProbeLocked_def)

lemma accept_invalid: "\<not> validProbeLocked e a s \<Longrightarrow> acceptProbeLocked e a ok d s = expireLadderLocked e s"
  using valid_sched [OF sched_expire, of e a e s] by (simp add: acceptProbeLocked_def Let_def)

definition spent :: "env \<Rightarrow> outbound \<Rightarrow> mas \<Rightarrow> bool" where
  "spent e out s \<longleftrightarrow>
     (\<forall>a. gget (m_inFlight s) out = Some a \<longrightarrow> pa_finalized a \<or> \<not> validProbeLocked e a s)"

lemma onRecord_finish: "spent e out s \<Longrightarrow> onRecord (finishProbeLocked e out ok d s) = onRecord s"
  by (auto simp: finishProbeLocked_def spent_def Let_def accept_invalid split: option.split)

lemma finish_spends: "spent e out (finishProbeLocked f out ok d s)"
  using finish_releases by (auto simp: spent_def)

lemma onRecord_timeout:
  assumes "spent e out s"
  shows "onRecord (timeoutProbeLocked e out s) = onRecord s \<and> spent e out (timeoutProbeLocked e out s)"
proof -
  let ?x = "expireLadderLocked e s"
  have fl: "m_inFlight ?x = m_inFlight s" by (rule schedD(9) [OF sched_expire])
  have valid: "validProbeLocked e a ?x = validProbeLocked e a s" for a by (rule valid_sched [OF sched_expire])
  have "spent e out ?x" using assms by (simp add: spent_def fl valid)
  moreover have "spent e out (updAttempt out (\<lambda>a. a\<lparr>pa_stuck := True\<rparr>) ?x)"
    using assms unfolding spent_def valid_updAttempt valid
    by (auto simp: updAttempt_def fl split: option.splits)
  moreover have "spent e out (notifyProbesLocked t) = spent e out t" for t
    by (simp add: spent_def schedD(9) [OF sched_notify] valid_sched [OF sched_notify])
  ultimately show ?thesis
    by (simp add: timeoutProbeLocked_def Let_def onRecord_finish finish_spends split: option.split)
qed

text \<open>A probe that no longer counts records nothing. When an attempt was canceled or already
  ended, or its member was removed, replaced or re-added, its URL or (for a regular member) the
  network generation changed, or the group is paused or closed, then its return changes no member's
  latest outcome and no member's delay, failure count or recovery gate, whatever it reports and
  whether or not it came in time.\<close>

lemma stale_probe_records_nothing:
  assumes "\<And>a. gget (m_inFlight s) out = Some a \<Longrightarrow> pa_finalized a \<or> \<not> validProbeLocked e a s"
  shows "onRecord (completeProbe e out sequence success delayMs s) = onRecord s"
proof -
  have "spent e out s" using assms by (simp add: spent_def)
  then show ?thesis
    using onRecord_timeout [of e out s]
    by (simp add: completeProbe_def Let_def onRecord_finish split: option.split)
qed

section \<open>Confirmations\<close>

lemma confirm_dispatchTag:
  "map_option (\<lambda>st. (ms_confirmationPending st, ms_confirmSequence st, ms_replacement st))
     (gget (m_probeMembers (dispatchTag e tag s)) t)
   = map_option (\<lambda>st. (ms_confirmationPending st, ms_confirmSequence st, ms_replacement st))
     (gget (m_probeMembers s) t)"
  by (rule dispatchTag_cases [of e tag s]) auto

lemma confirm_dispatch:
  "map_option (\<lambda>st. (ms_confirmationPending st, ms_confirmSequence st, ms_replacement st))
     (gget (m_probeMembers (dispatchProbesLocked e s)) t)
   = map_option (\<lambda>st. (ms_confirmationPending st, ms_confirmSequence st, ms_replacement st))
     (gget (m_probeMembers s) t)"
proof -
  have "map_option (\<lambda>st. (ms_confirmationPending st, ms_confirmSequence st, ms_replacement st))
      (gget (m_probeMembers (fold (dispatchTag e) ts u)) t)
    = map_option (\<lambda>st. (ms_confirmationPending st, ms_confirmSequence st, ms_replacement st))
      (gget (m_probeMembers u) t)" for ts u
    by (induction ts arbitrary: u) (simp_all add: confirm_dispatchTag)
  then show ?thesis by (simp add: dispatchProbesLocked_def Let_def schedD(8) [OF sched_budget])
qed

lemma request_one:
  "gget (m_members s) tag = Some out \<Longrightarrow> gget (m_probeMembers s) tag = Some st \<Longrightarrow>
   \<not> pb_excludeFromPool (behavior s (ob_type out)) \<Longrightarrow>
   gget (m_probeMembers (requestProbesLocked (Some [tag]) need False s)) tag = Some (raiseNeed need st)"
  by (simp add: requestProbesLocked_def requestProbe_def Let_def)

text \<open>Repeated failures cannot starve a running confirmation. On the TCP selection of a live
  group, a confirmation request makes one pending; if one was pending already, its boundary stays
  where it was, so the attempt that satisfies it still does, and the proposed replacement is
  replaced only by another proposal.\<close>

lemma confirmation_boundary_kept:
  assumes "\<not> isClosed s" and "\<not> paused e" and "m_stickyTcp s = tag"
    and "gget (m_members s) tag = Some out" and "\<not> pb_excludeFromPool (behavior s (ob_type out))"
    and "urlValid (probeURLForLocked tag s)" and "gget (m_probeMembers s) tag = Some st"
  shows "\<exists>st'. gget (m_probeMembers (requestFailureConfirmation e urlValid tag r (m_generation s) s)) tag = Some st' \<and>
     ms_confirmationPending st' \<and>
     ms_confirmSequence st' = (if ms_confirmationPending st then ms_confirmSequence st else m_sequence s + 1) \<and>
     ms_replacement st' = (if ms_confirmationPending st \<and> r = '''' then ms_replacement st else r)"
proof -
  let ?s = "requestProbesLocked (Some [tag]) probeForced False s"
  let ?t = "if \<not> ms_confirmationPending st
            then updMember tag (\<lambda>st. st\<lparr>ms_confirmationPending := True,
                   ms_confirmSequence := m_sequence ?s + 1, ms_replacement := r\<rparr>)
                 (?s\<lparr>m_sequence := m_sequence ?s + 1\<rparr>)
            else if r \<noteq> '''' then updMember tag (\<lambda>st. st\<lparr>ms_replacement := r\<rparr>) ?s else ?s"
  have st: "gget (m_probeMembers ?s) tag = Some (raiseNeed probeForced st)"
    by (rule request_one [OF assms(4,7,5)])
  then have "requestFailureConfirmation e urlValid tag r (m_generation s) s = dispatchProbesLocked e ?t"
    using assms by (simp add: requestFailureConfirmation_def matchesGenerationLocked_def Let_def)
  moreover have "map_option (\<lambda>st. (ms_confirmationPending st, ms_confirmSequence st, ms_replacement st))
      (gget (m_probeMembers ?t) tag) = Some (True,
        (if ms_confirmationPending st then ms_confirmSequence st else m_sequence s + 1),
        (if ms_confirmationPending st \<and> r = '''' then ms_replacement st else r))"
    using st by (simp add: updMember_def)
  ultimately show ?thesis
    using confirm_dispatch [of e ?t tag] by auto
qed

section \<open>Exhaustion\<close>

lemma countsOrdinary_evaluated [simp]:
  "countsOrdinary (w\<lparr>pw_evaluated := b, pw_counted := c\<rparr>) s = countsOrdinary w s"
  by (rule ext) (simp add: countsOrdinary_def successWithinBudget_def Let_def split: option.split)

lemma countsOrdinaryI:
  "gget (m_members s) tag = Some out \<Longrightarrow> gget (m_probeMembers s) tag = Some st \<Longrightarrow>
   ms_outcome st = Some oc \<Longrightarrow> \<not> pb_lastResort (behavior s (ob_type out)) \<Longrightarrow>
   \<not> stuckProbeLocked out s \<Longrightarrow> pw_sequence w < po_sequence oc \<Longrightarrow> outcomeCurrentLocked tag oc s \<Longrightarrow>
   po_success oc \<Longrightarrow> pw_deadline w = 0 \<or> po_completed oc \<le> pw_deadline w \<Longrightarrow> countsOrdinary w s tag"
  by (auto simp: countsOrdinary_def successWithinBudget_def Let_def)

text \<open>Exhaustion is signalled only when it is true. If evaluating a cycle or a ladder raises the
  signal, then it was evaluated for the first time, on a live group that is not paused, in the
  network generation and pause epoch it began in, and no registered regular member that is not
  stuck has a current outcome sequenced after it that succeeded within its budget.\<close>

lemma exhaustion_only_if_unreachable:
  assumes "m_exhaustion (snd (evaluateProbesLocked e w s))" and "\<not> m_exhaustion s"
  shows "\<not> pw_evaluated w \<and> \<not> isClosed s \<and> \<not> paused e \<and>
    pw_generation w = m_generation s \<and> pw_pauseEpoch w = m_pauseEpoch s \<and>
    \<not> (\<exists>tag \<in> set (m_tags s). \<exists>out st oc.
         gget (m_members s) tag = Some out \<and> gget (m_probeMembers s) tag = Some st \<and>
         ms_outcome st = Some oc \<and> \<not> pb_lastResort (behavior s (ob_type out)) \<and>
         \<not> stuckProbeLocked out s \<and> pw_sequence w < po_sequence oc \<and> outcomeCurrentLocked tag oc s \<and>
         po_success oc \<and> (pw_deadline w = 0 \<or> po_completed oc \<le> pw_deadline w))"
proof -
  have ex: "m_exhaustion (snd (rankLocked now s)) = m_exhaustion s" for now
    using rankLocked_frame [of s now] by (elim only_historiesE) simp
  have run: "\<not> pw_evaluated w" "\<not> isClosed s" "\<not> paused e" "\<not> waiterScopeChangedLocked w s"
    and none: "filter (countsOrdinary w s) (m_tags s) = []"
    using assms ex
    by (auto simp: evaluateProbesLocked_def Let_def case_prod_unfold waiterScopeChangedLocked_def
        split: if_splits)
  have "\<not> countsOrdinary w s tag" if "tag \<in> set (m_tags s)" for tag
    using none that by (simp add: filter_empty_conv)
  then show ?thesis
    using run by (auto simp: waiterScopeChangedLocked_def matchesGenerationLocked_def dest: countsOrdinaryI)
qed

end
