(* ===== verification/Auto_Guarantees.thy ===== *)
theory Auto_Guarantees
  imports Auto_Invariant
begin

text \<open>
  What the auto-select group promises its callers: what a selection returns and when it can fail,
  what \<open>Add\<close> and \<open>Remove\<close> make of the membership, and how a dial ends.
\<close>

section \<open>What dispatching leaves alone\<close>

definition roster where
  "roster s = (m_closed s, m_tags s, m_members s, m_generation s, m_probeTimeouts s, m_urlOverrides s,
     m_stickyTcp s, m_stickyUdp s, m_cfg s, m_hist s)"

lemma rosterD:
  assumes "roster s = roster t"
  shows "m_closed s = m_closed t" "m_tags s = m_tags t" "m_members s = m_members t"
    "m_generation s = m_generation t" "m_probeTimeouts s = m_probeTimeouts t"
    "m_urlOverrides s = m_urlOverrides t" "m_stickyTcp s = m_stickyTcp t" "m_stickyUdp s = m_stickyUdp t"
    "m_cfg s = m_cfg t" "m_hist s = m_hist t"
  using assms by (simp_all add: roster_def)

lemma roster_updates [simp]:
  "roster (s\<lparr>m_probeMembers := a\<rparr>) = roster s" "roster (s\<lparr>m_inFlight := b\<rparr>) = roster s"
  "roster (s\<lparr>m_slotsUsed := c\<rparr>) = roster s" "roster (s\<lparr>m_sequence := d\<rparr>) = roster s"
  "roster (s\<lparr>m_ladderWaiter := f\<rparr>) = roster s" "roster (s\<lparr>m_probeChanged := d\<rparr>) = roster s"
  "roster (s\<lparr>m_lastActive := g\<rparr>) = roster s" "roster (s\<lparr>m_probing := h\<rparr>) = roster s"
  "roster (s\<lparr>m_periodicTimer := i\<rparr>) = roster s" "roster (s\<lparr>m_idleTimer := i\<rparr>) = roster s"
  "roster (s\<lparr>m_histories := j\<rparr>) = roster s" "roster (s\<lparr>m_history := k\<rparr>) = roster s"
  by (simp_all add: roster_def)

lemma roster_dispatchTag: "roster (dispatchTag e tag s) = roster s"
  by (rule dispatchTag_cases [of e tag s]) (simp_all add: startProbeLocked_def Let_def)

lemma roster_dispatch [simp]: "roster (dispatchProbesLocked e s) = roster s"
proof -
  have "roster (fold (dispatchTag e) ts t) = roster t" for ts t
    by (induction ts arbitrary: t) (simp_all add: roster_dispatchTag)
  moreover have "roster (startLadderBudgetLocked e s) = roster s"
    by (simp add: startLadderBudgetLocked_def split: option.split)
  ultimately show ?thesis by (simp add: dispatchProbesLocked_def Let_def)
qed

lemma roster_request [simp]: "roster (requestProbesLocked tags need ord s) = roster s"
proof -
  have "roster (requestProbe need ord t u) = roster u" for t u
    by (simp add: requestProbe_def Let_def split: option.split)
  then have "roster (fold (requestProbe need ord) ts u) = roster u" for ts u
    by (induction ts arbitrary: u) simp_all
  then show ?thesis by (simp add: requestProbesLocked_def)
qed

lemma roster_notify [simp]: "roster (notifyProbesLocked s) = roster s"
  by (simp add: notifyProbesLocked_def)

lemma roster_keepAlive [simp]: "roster (keepAliveLocked e s) = roster s"
  by (simp add: keepAliveLocked_def armPeriodicLocked_def armIdleLocked_def Let_def)

lemma roster_prunes: "prunes s s' \<Longrightarrow> roster s' = roster s"
  by (metis prunes_state roster_updates(11))

lemma roster_rank [simp]: "roster (snd (rankLocked now s)) = roster s"
  by (rule roster_prunes [OF rankLocked_prunes])

section \<open>Selection\<close>

lemma poolOf_roster: "roster s = roster t \<Longrightarrow> poolOf s = poolOf t"
proof -
  assume "roster s = roster t"
  then have "poolEntry s u = poolEntry t u" for u
    by (simp add: roster_def poolEntry_def behavior_def cong: option.case_cong if_cong)
  then have "poolEntry s = poolEntry t" by blast
  then show ?thesis unfolding poolOf_def by simp
qed

lemma poolEntry_Some:
  "poolEntry s t = Some (u, out, lr) \<longleftrightarrow> u = t \<and> gget (m_members s) t = Some out \<and>
     \<not> pb_excludeFromPool (behavior s (ob_type out)) \<and> lr = pb_lastResort (behavior s (ob_type out))"
  by (auto simp: poolEntry_def split: option.splits if_splits)

lemma set_poolOf: "set (poolOf s tags) = {x. \<exists>t \<in> set tags. poolEntry s t = Some x}"
  by (induction tags) (auto split: option.split)

lemma ranked_member:
  assumes "c \<in> set (fst (rankLocked now s))"
  shows "rc_tag c \<in> set (m_tags s) \<and> gget (m_members s) (rc_tag c) = Some (rc_outbound c) \<and>
         \<not> pb_excludeFromPool (behavior s (ob_type (rc_outbound c))) \<and>
         rc_lastResort c = pb_lastResort (behavior s (ob_type (rc_outbound c)))"
proof -
  have "rc_ident c \<in> set (poolOf s (m_tags s))" using assms rankLocked_set [of now s] by blast
  then show ?thesis by (auto simp: set_poolOf poolEntry_Some)
qed

lemma ranked_supports:
  "(\<forall>c \<in> set (fst (rankLocked now s)). \<not> supports network c) \<longleftrightarrow>
   (\<forall>(t, out, lr) \<in> set (poolOf s (m_tags s)). network \<notin> set (ob_network out))"
  by (simp add: case_prod_unfold flip: rankLocked_set [of now])

text \<open>The winner of a selection, given the ranking it is made from.\<close>

definition winner :: "mas \<Rightarrow> tag \<Rightarrow> string \<Rightarrow> rankedCandidate list \<Rightarrow> rankedCandidate option" where
  "winner s sticky network ranked =
     (case splitHealthyForLocked ranked network of
        ([], _) \<Rightarrow> None | (best # _, forNetwork) \<Rightarrow> Some (applyStickiness s sticky best forNetwork))"

lemma split_pool_empty:
  assumes "sorted (map rc_demote ranked)"
  shows "fst (splitHealthyForLocked ranked network) = [] \<longleftrightarrow> (\<forall>c \<in> set ranked. \<not> supports network c)"
proof -
  have "cleanestTier (eligibleFor ranked network) = [] \<longleftrightarrow> eligibleFor ranked network = []"
    using cleanestTier_is_tier [OF eligibleFor_sorted [OF assms, of network]] by fastforce
  then show ?thesis by (simp add: splitHealthyForLocked_def Let_def eligibleFor_Nil)
qed

lemma pool_head_best:
  assumes "sorted (map rc_demote ranked)" and "splitHealthyForLocked ranked network = (best # pool, fn)"
  shows "best \<in> set fn" "set fn \<subseteq> set ranked" "\<forall>c \<in> set fn. supports network c"
    "rc_demote best = demoteHard \<Longrightarrow> d \<in> set ranked \<Longrightarrow> supports network d \<Longrightarrow> rc_demote d = demoteHard"
proof -
  have fn: "fn = eligibleFor ranked network" and pool: "best # pool = cleanestTier fn"
    using assms(2) by (auto simp: splitHealthyForLocked_def Let_def)
  show "best \<in> set fn" using cleanestTier_subset [of fn] pool by (metis list.set_intros(1) subsetD)
  show "set fn \<subseteq> set ranked" "\<forall>c \<in> set fn. supports network c"
    using eligibleFor_subset [of ranked network] fn by auto
  assume hard: "rc_demote best = demoteHard" and d: "d \<in> set ranked" "supports network d"
  obtain tier where "cleanestTier fn = filter (\<lambda>c. rc_demote c = tier) fn" "\<forall>c \<in> set fn. tier \<le> rc_demote c"
    using cleanestTier_is_tier [OF eligibleFor_sorted [OF assms(1), of network]] fn by blast
  moreover have "rc_demote best = tier"
    using calculation(1) pool by (metis (mono_tags, lifting) list.set_intros(1) mem_Collect_eq set_filter)
  ultimately have all_hard: "\<forall>c \<in> set fn. rc_demote c = demoteHard"
    using hard by (metis level_extremes(2) order_antisym)
  show "rc_demote d = demoteHard"
    using eligibleFor_usable [of d ranked network] d all_hard fn by fastforce
qed

lemma winner_sound:
  assumes "sorted (map rc_demote ranked)" and "winner s sticky network ranked = Some c"
  shows "c \<in> set ranked \<and> supports network c \<and>
    (rc_demote c = demoteHard \<longrightarrow> (\<forall>d \<in> set ranked. supports network d \<longrightarrow> rc_demote d = demoteHard))"
proof -
  obtain best pool fn where split: "splitHealthyForLocked ranked network = (best # pool, fn)"
    and c: "c = applyStickiness s sticky best fn"
    using assms(2) by (auto simp: winner_def split: prod.splits list.splits)
  note best = pool_head_best [OF assms(1) split]
  have "c = best \<or> c \<in> set fn"
    using applyStickiness_cases [of s sticky best fn] index_func_nth [of "\<lambda>c. rc_tag c = sticky" fn] c by auto
  moreover have "rc_demote c = demoteHard \<Longrightarrow> rc_demote best = demoteHard"
    using c by (auto simp: applyStickiness_def Let_def split: if_splits option.splits)
  ultimately show ?thesis using best by blast
qed

lemma selectOutbound_eq:
  assumes "network = ''tcp'' \<or> network = ''udp''"
  shows "selectOutbound e network x s =
     (let s1 = (if x = '''' then keepAliveLocked e s else s);
          s2 = snd (rankLocked (ev_now e) s1);
          ranked = (if x \<noteq> '''' then failoverCandidates network x (fst (rankLocked (ev_now e) s1))
                    else fst (rankLocked (ev_now e) s1)) in
      case winner s2 (if x = '''' then stickyFor network s2 else '''') network ranked of
        None \<Rightarrow> (Inl ErrNoOutbound,
                 if x = '''' then dispatchProbesLocked e (requestProbesLocked None probeIfStale False s2) else s2)
      | Some c \<Rightarrow> (Inr (rc_outbound c, m_generation s2),
                   if x = '''' \<and> stickyFor network s2 \<noteq> rc_tag c then setSticky network (rc_tag c) s2 else s2))"
  using assms
  by (auto simp: selectOutbound_def winner_def Let_def case_prod_unfold applyStickiness_def [of _ "''''"]
      split: list.split prod.split)

lemma failover_sorted:
  "sorted (map rc_demote ranked) \<Longrightarrow> sorted (map rc_demote (failoverCandidates network x ranked))"
  by (simp add: failoverCandidates_def Let_def sorted_filter)

lemma failover_subset: "set (failoverCandidates network x ranked) \<subseteq> {c \<in> set ranked. rc_tag c \<noteq> x}"
  by (auto simp: failoverCandidates_def Let_def)


text \<open>Selection fails only when it must. On the primary path of a supported network a group
  returns an outbound unless no registered member of an included protocol supports the network; in
  particular demotion, recovery gates and stuck probes alone never make a dial fail.\<close>

lemma selection_total:
  assumes "network = ''tcp'' \<or> network = ''udp''"
  shows "(\<exists>out s'. selectOutbound e network '''' s = (Inr (out, m_generation s), s')) \<longleftrightarrow>
     (\<exists>(tag, out, lastResort) \<in> set (poolOf s (m_tags s)). network \<in> set (ob_network out))"
proof -
  let ?s1 = "keepAliveLocked e s"
  let ?s2 = "snd (rankLocked (ev_now e) ?s1)" and ?ranked = "fst (rankLocked (ev_now e) ?s1)"
  have roster: "roster ?s1 = roster s" "roster ?s2 = roster s" by simp_all
  have "winner ?s2 (stickyFor network ?s2) network ?ranked = None \<longleftrightarrow>
      (\<forall>c \<in> set ?ranked. \<not> supports network c)"
    using split_pool_empty [OF rankLocked_sorted_demote, of "ev_now e" ?s1 network]
    by (auto simp: winner_def case_prod_unfold split: list.split)
  also have "\<dots> \<longleftrightarrow> (\<forall>(t, out, lr) \<in> set (poolOf s (m_tags s)). network \<notin> set (ob_network out))"
    using ranked_supports [of "ev_now e" ?s1 network] poolOf_roster [OF roster(1)] rosterD(2) [OF roster(1)] by simp
  finally have none: "winner ?s2 (stickyFor network ?s2) network ?ranked = None \<longleftrightarrow>
      \<not> (\<exists>(t, out, lr) \<in> set (poolOf s (m_tags s)). network \<in> set (ob_network out))" by blast
  have "(\<exists>out s'. selectOutbound e network '''' s = (Inr (out, m_generation s), s')) \<longleftrightarrow>
      winner ?s2 (stickyFor network ?s2) network ?ranked \<noteq> None"
    using rosterD(4) [OF roster(2)] by (simp add: selectOutbound_eq [OF assms] Let_def split: option.split)
  with none show ?thesis by blast
qed

definition exampleReady :: mas where
  "exampleReady = (newGroup None zeroOptions)
     \<lparr>m_tags := [''a'', ''bb''],
      m_members := [(''a'', exampleOutbound ''a''), (''bb'', exampleOutbound ''bb'')],
      m_histories := [(''a'', recordProbeFailure 5 newLocalHistory),
                      (''bb'', recordProbeSuccess 40 5 newLocalHistory)]\<rparr>"


section \<open>Membership\<close>

abbreviation isMember :: "mas \<Rightarrow> tag \<Rightarrow> bool" where
  "isMember s t \<equiv> gget (m_members s) t \<noteq> None"

lemma roster_hydrate [simp]: "roster (hydrateHistoryLocked e tag s) = roster s"
  by (simp add: hydrateHistoryLocked_def split: option.split)

lemma addMember_sel:
  "m_members (addMemberLocked e tag out s) = gput tag out (m_members s)"
  "m_tags (addMemberLocked e tag out s) = m_tags s" "m_closed (addMemberLocked e tag out s) = m_closed s"
proof -
  have "roster (addMemberLocked e tag out s) = roster (s\<lparr>m_members := gput tag out (m_members s)\<rparr>)"
    by (simp add: addMemberLocked_def addProbeMemberLocked_def Let_def roster_def [of "mas.m_nextMembershipID_update f x" for f x]
        flip: roster_def)
  from rosterD [OF this] show "m_members (addMemberLocked e tag out s) = gput tag out (m_members s)"
    "m_tags (addMemberLocked e tag out s) = m_tags s" "m_closed (addMemberLocked e tag out s) = m_closed s"
    by simp_all
qed

lemma fold_addTag:
  "let (acc', s') = fold (addTag e mgr) tags (acc, s);
       new = {t \<in> set tags. \<not> isMember s t \<and> mgr t \<noteq> None} in
     (\<forall>t. gget (m_members s') t = (if t \<in> new then mgr t else gget (m_members s) t)) \<and>
     aa_n acc' = aa_n acc + int (card new) \<and> set (aa_added acc') = set (aa_added acc) \<union> new \<and>
     set (aa_missing acc') = set (aa_missing acc) \<union> {t \<in> set tags. \<not> isMember s t \<and> mgr t = None} \<and>
     set (m_tags s') = set (m_tags s) \<union> new \<and> m_closed s' = m_closed s"
proof (induction tags arbitrary: acc s)
  case (Cons t ts)
  let ?new = "{u \<in> set ts. \<not> isMember s u \<and> mgr u \<noteq> None}"
  consider "isMember s t" | "\<not> isMember s t" "mgr t = None" | out where "\<not> isMember s t" "mgr t = Some out"
    by blast
  then show ?case
  proof cases
    case 1
    then have "{u \<in> set (t # ts). \<not> isMember s u \<and> mgr u \<noteq> None} = ?new"
      "{u \<in> set (t # ts). \<not> isMember s u \<and> mgr u = None} = {u \<in> set ts. \<not> isMember s u \<and> mgr u = None}"
      by auto
    then show ?thesis using 1 Cons.IH [of acc s] by (simp add: addTag_def Let_def)
  next
    case 2
    then have "{u \<in> set (t # ts). \<not> isMember s u \<and> mgr u \<noteq> None} = ?new"
      "{u \<in> set (t # ts). \<not> isMember s u \<and> mgr u = None} = insert t {u \<in> set ts. \<not> isMember s u \<and> mgr u = None}"
      by auto
    then show ?thesis using 2 Cons.IH [of "acc\<lparr>aa_missing := aa_missing acc @ [t]\<rparr>" s]
      by (auto simp: addTag_def Let_def case_prod_unfold)
  next
    case 3
    define u where "u = (if t \<in> set (m_tags s) then addMemberLocked e t out s
      else (addMemberLocked e t out s)\<lparr>m_tags := m_tags (addMemberLocked e t out s) @ [t]\<rparr>)"
    define acc1 where "acc1 = acc\<lparr>aa_added := aa_added acc @ [t], aa_n := aa_n acc + 1\<rparr>"
    have u: "m_members u = gput t out (m_members s)" "m_closed u = m_closed s"
      "set (m_tags u) = insert t (set (m_tags s))"
      by (auto simp: u_def addMember_sel)
    let ?new1 = "{v \<in> set ts. \<not> isMember u v \<and> mgr v \<noteq> None}"
    have new: "{v \<in> set (t # ts). \<not> isMember s v \<and> mgr v \<noteq> None} = insert t ?new1"
      "{v \<in> set (t # ts). \<not> isMember s v \<and> mgr v = None} = {v \<in> set ts. \<not> isMember u v \<and> mgr v = None}"
      "t \<notin> ?new1" "finite ?new1"
      using 3 by (auto simp: u)
    have step: "addTag e mgr t (acc, s) = (acc1, u)"
      using 3 by (simp add: addTag_def Let_def u_def acc1_def)
    obtain acc' s' where fold: "fold (addTag e mgr) ts (acc1, u) = (acc', s')" by force
    have ih: "\<forall>v. gget (m_members s') v = (if v \<in> ?new1 then mgr v else gget (m_members u) v)"
      "aa_n acc' = aa_n acc1 + int (card ?new1)" "set (aa_added acc') = set (aa_added acc1) \<union> ?new1"
      "set (aa_missing acc') = set (aa_missing acc1) \<union> {v \<in> set ts. \<not> isMember u v \<and> mgr v = None}"
      "set (m_tags s') = set (m_tags u) \<union> ?new1" "m_closed s' = m_closed u"
      using Cons.IH [of acc1 u] unfolding fold Let_def prod.case by blast+
    have "gget (m_members s') v = (if v \<in> insert t ?new1 then mgr v else gget (m_members s) v)" for v
      using spec [OF ih(1), of v] 3 new(3) by (auto simp: u(1))
    moreover have "aa_n acc' = aa_n acc + int (card (insert t ?new1))"
      unfolding card_insert_disjoint [OF new(4,3)] using ih(2) by (simp add: acc1_def)
    moreover have "set (aa_added acc') = set (aa_added acc) \<union> insert t ?new1"
      "set (aa_missing acc') = set (aa_missing acc) \<union> {v \<in> set ts. \<not> isMember u v \<and> mgr v = None}"
      "set (m_tags s') = set (m_tags s) \<union> insert t ?new1" "m_closed s' = m_closed s"
      using ih(3-6) by (auto simp: acc1_def u(2,3))
    ultimately show ?thesis
      unfolding new(1,2) by (simp add: step fold Let_def)
  qed
qed simp

lemma dispatch_fields:
  "m_members (dispatchProbesLocked e s) = m_members s" "m_tags (dispatchProbesLocked e s) = m_tags s"
  "m_closed (dispatchProbesLocked e s) = m_closed s" "m_stickyTcp (dispatchProbesLocked e s) = m_stickyTcp s"
  "m_stickyUdp (dispatchProbesLocked e s) = m_stickyUdp s"
  using rosterD [OF roster_dispatch, of e s] by simp_all

lemma request_fields:
  "m_members (requestProbesLocked ts need ord s) = m_members s" "m_tags (requestProbesLocked ts need ord s) = m_tags s"
  "m_closed (requestProbesLocked ts need ord s) = m_closed s"
  using rosterD [OF roster_request, of ts need ord s] by simp_all

lemma notify_fields [simp]:
  "m_members (notifyProbesLocked s) = m_members s" "m_tags (notifyProbesLocked s) = m_tags s"
  "m_closed (notifyProbesLocked s) = m_closed s" "m_histories (notifyProbesLocked s) = m_histories s"
  "m_history (notifyProbesLocked s) = m_history s" "m_probeMembers (notifyProbesLocked s) = m_probeMembers s"
  "m_stickyTcp (notifyProbesLocked s) = m_stickyTcp s" "m_stickyUdp (notifyProbesLocked s) = m_stickyUdp s"
  by (simp_all add: notifyProbesLocked_def)

lemma Add_effect:
  "let new = {t \<in> set tags. \<not> isMember s t \<and> mgr t \<noteq> None};
       ((n, err), s') = Add e mgr tags s in
   if isClosed s then n = 0 \<and> err = Some ErrGroupClosed \<and> s' = s
   else (\<forall>t. gget (m_members s') t = (if t \<in> new then mgr t else gget (m_members s) t)) \<and>
        set (All s') = set (All s) \<union> new \<and> n = int (card new) \<and> \<not> isClosed s' \<and>
        (err = None \<longleftrightarrow> (\<forall>t \<in> set tags. isMember s t \<or> mgr t \<noteq> None))"
proof (cases "isClosed s")
  case True
  then show ?thesis by (simp add: Add_def)
next
  case False
  let ?new = "{t \<in> set tags. \<not> isMember s t \<and> mgr t \<noteq> None}"
  obtain acc u where fold: "fold (addTag e mgr) tags (\<lparr>aa_missing = [], aa_added = [], aa_n = 0\<rparr>, s) = (acc, u)"
    by force
  define v where "v = (if aa_added acc \<noteq> [] then dispatchProbesLocked e (notifyProbesLocked
      (requestProbesLocked (Some (aa_added acc)) probeIfStale False u)) else u)"
  have v: "m_members v = m_members u" "m_tags v = m_tags u" "m_closed v = m_closed u"
    by (simp_all add: v_def dispatch_fields request_fields)
  have add: "Add e mgr tags s =
      ((aa_n acc, if aa_missing acc \<noteq> [] then Some (ErrOutboundsNotFound (aa_missing acc)) else None), v)"
    using False by (simp add: Add_def fold v_def)
  have u: "\<forall>t. gget (m_members u) t = (if t \<in> ?new then mgr t else gget (m_members s) t)"
    "aa_n acc = 0 + int (card ?new)" "set (m_tags u) = set (m_tags s) \<union> ?new" "m_closed u = m_closed s"
    "set (aa_missing acc) = {} \<union> {t \<in> set tags. \<not> isMember s t \<and> mgr t = None}"
    using fold_addTag [of e mgr tags "\<lparr>aa_missing = [], aa_added = [], aa_n = 0\<rparr>" s]
    unfolding fold Let_def prod.case addAcc.simps list.set by blast+
  have "aa_missing acc = [] \<longleftrightarrow> (\<forall>t \<in> set tags. isMember s t \<or> mgr t \<noteq> None)"
    using u(5) by (auto simp flip: set_empty)
  with u False show ?thesis
    unfolding add Let_def prod.case All_def by (simp add: v isClosed_def)
qed

text \<open>\<open>Add\<close> on an open group. Exactly the given tags that are not members yet and that the
  outbound manager knows become members, with the manager's outbound; they are registered; their
  number is returned; and there is an error if and only if some given tag is neither a member nor
  known. A closed group returns \<open>ErrGroupClosed\<close> and does not change.\<close>

lemma Add_members:
  "let new = {t \<in> set tags. \<not> isMember s t \<and> mgr t \<noteq> None};
       ((n, err), s') = Add e mgr tags s in
   if isClosed s then n = 0 \<and> err = Some ErrGroupClosed \<and> s' = s
   else (\<forall>t. gget (m_members s') t = (if t \<in> new then mgr t else gget (m_members s) t)) \<and>
        set (All s') = set (All s) \<union> new \<and> n = int (card new) \<and> \<not> isClosed s' \<and>
        (err = None \<longleftrightarrow> (\<forall>t \<in> set tags. isMember s t \<or> mgr t \<noteq> None))"
  by (rule Add_effect)

text \<open>What a state keeps of a tag.\<close>

lemma clearSticky_fields [simp]:
  "m_members (clearStickyTagLocked t s) = m_members s" "m_tags (clearStickyTagLocked t s) = m_tags s"
  "m_probeMembers (clearStickyTagLocked t s) = m_probeMembers s" "m_closed (clearStickyTagLocked t s) = m_closed s"
  "m_histories (clearStickyTagLocked t s) = m_histories s" "m_history (clearStickyTagLocked t s) = m_history s"
  "m_urlOverrides (clearStickyTagLocked t s) = m_urlOverrides s"
  "m_stickyTcp (clearStickyTagLocked t s) = (if m_stickyTcp s = t then '''' else m_stickyTcp s)"
  "m_stickyUdp (clearStickyTagLocked t s) = (if m_stickyUdp s = t then '''' else m_stickyUdp s)"
  by (simp_all add: clearStickyTagLocked_def Let_def)

lemma updAttempt_fields [simp]:
  "m_members (updAttempt x f s) = m_members s" "m_tags (updAttempt x f s) = m_tags s"
  "m_probeMembers (updAttempt x f s) = m_probeMembers s" "m_closed (updAttempt x f s) = m_closed s"
  "m_histories (updAttempt x f s) = m_histories s" "m_history (updAttempt x f s) = m_history s"
  "m_urlOverrides (updAttempt x f s) = m_urlOverrides s"
  "m_stickyTcp (updAttempt x f s) = m_stickyTcp s" "m_stickyUdp (updAttempt x f s) = m_stickyUdp s"
  by (simp_all add: updAttempt_def split: option.split)

text \<open>Everything the group holds under a tag is gone.\<close>

definition forgotten :: "tag \<Rightarrow> mas \<Rightarrow> bool" where
  "forgotten t s \<longleftrightarrow>
     gget (m_members s) t = None \<and> gget (m_probeMembers s) t = None \<and> gget (m_histories s) t = None \<and>
     gget (m_urlOverrides s) t = None \<and> (t \<noteq> '''' \<longrightarrow> m_stickyTcp s \<noteq> t \<and> m_stickyUdp s \<noteq> t) \<and>
     (\<forall>store. m_history s = Some store \<longrightarrow> hs_Load store t = None)"

text \<open>What one removal does to the fields that membership is about.\<close>

lemma removeTag_step:
  assumes "removeTag t (removed, n, s) = (removed', n', s')"
  shows "if isMember s t
         then removed' = t # removed \<and> n' = n + 1 \<and> forgotten t s' \<and>
              (\<forall>u. u \<noteq> t \<longrightarrow> gget (m_members s') u = gget (m_members s) u \<and> (forgotten u s \<longrightarrow> forgotten u s')) \<and>
              m_tags s' = m_tags s \<and> m_closed s' = m_closed s
         else removed' = removed \<and> n' = n \<and> s' = s"
proof (cases "gget (m_members s) t")
  case (Some out)
  define c where "c = (case gget (m_inFlight s) out of
      Some a \<Rightarrow> if pa_tag a = t then updAttempt out cancelProbeLocked s else s | None \<Rightarrow> s)"
  have c: "m_members c = m_members s" "m_tags c = m_tags s" "m_probeMembers c = m_probeMembers s"
    "m_closed c = m_closed s" "m_histories c = m_histories s" "m_history c = m_history s"
    "m_urlOverrides c = m_urlOverrides s" "m_stickyTcp c = m_stickyTcp s" "m_stickyUdp c = m_stickyUdp s"
    by (simp_all add: c_def split: option.split)
  have s': "s' = clearStickyTagLocked t (c\<lparr>m_members := gdel t (m_members c),
      m_probeMembers := gdel t (m_probeMembers c), m_urlOverrides := gdel t (m_urlOverrides c),
      m_histories := gdel t (m_histories c), m_history := map_option (hs_Delete t) (m_history c)\<rparr>)"
    "removed' = t # removed" "n' = n + 1"
    using assms Some by (simp_all add: removeTag_def Let_def flip: c_def)
  show ?thesis using Some by (auto simp: s' forgotten_def c memory.load_delete)
next
  case None
  with assms show ?thesis by (auto simp: removeTag_def)
qed

lemma fold_removeTag:
  "\<forall>removed n s removed' n' s'. fold removeTag tags (removed, n, s) = (removed', n', s') \<longrightarrow>
     set removed' = set removed \<union> {t \<in> set tags. isMember s t} \<and>
     n' = n + int (card {t \<in> set tags. isMember s t}) \<and>
     (\<forall>t. gget (m_members s') t = (if t \<in> set tags then None else gget (m_members s) t)) \<and>
     (\<forall>t. forgotten t s \<or> t \<in> set tags \<and> isMember s t \<longrightarrow> forgotten t s') \<and>
     m_tags s' = m_tags s \<and> m_closed s' = m_closed s"
proof (induction tags)
  case (Cons t ts)
  show ?case
  proof (intro allI impI)
    fix removed n s removed' n' s'
    assume run: "fold removeTag (t # ts) (removed, n, s) = (removed', n', s')"
    obtain r1 n1 s1 where one: "removeTag t (removed, n, s) = (r1, n1, s1)" by (metis prod_cases3)
    with run have rest: "fold removeTag ts (r1, n1, s1) = (removed', n', s')" by simp
    note ih = Cons.IH [rule_format, OF rest] and step = removeTag_step [OF one]
    show "set removed' = set removed \<union> {u \<in> set (t # ts). isMember s u} \<and>
       n' = n + int (card {u \<in> set (t # ts). isMember s u}) \<and>
       (\<forall>u. gget (m_members s') u = (if u \<in> set (t # ts) then None else gget (m_members s) u)) \<and>
       (\<forall>u. forgotten u s \<or> u \<in> set (t # ts) \<and> isMember s u \<longrightarrow> forgotten u s') \<and>
       m_tags s' = m_tags s \<and> m_closed s' = m_closed s"
    proof (cases "isMember s t")
      case True
      note step = step [unfolded if_P [OF True]]
      have gone: "\<not> isMember s1 t" using step by (simp add: forgotten_def)
      have mem: "isMember s1 u \<longleftrightarrow> isMember s u \<and> u \<noteq> t" for u using step gone by metis
      have new: "{u \<in> set (t # ts). isMember s u} = insert t {u \<in> set ts. isMember s1 u}"
        "t \<notin> {u \<in> set ts. isMember s1 u}" and fin: "finite {u \<in> set ts. isMember s1 u}"
        using True by (auto simp only: mem list.set) simp
      have card: "card {u \<in> set (t # ts). isMember s u} = Suc (card {u \<in> set ts. isMember s1 u})"
        unfolding new(1) by (rule card_insert_disjoint [OF fin new(2)])
      have "forgotten u s'" if "forgotten u s \<or> u \<in> set (t # ts) \<and> isMember s u" for u
        using that ih step mem [of u] by (cases "u = t") auto
      moreover have "gget (m_members s') u = (if u \<in> set (t # ts) then None else gget (m_members s) u)" for u
        using ih step gone by (cases "u = t") auto
      moreover have "set removed' = set removed \<union> {u \<in> set (t # ts). isMember s u}"
        unfolding new(1) using ih step by auto
      moreover have "n' = n + int (card {u \<in> set (t # ts). isMember s u})"
        unfolding card using ih step by simp
      ultimately show ?thesis using ih step by metis
    next
      case False
      note step = step [unfolded if_not_P [OF False]]
      have "{u \<in> set (t # ts). isMember s u} = {u \<in> set ts. isMember s u}" using False by auto
      with ih step False show ?thesis by auto
    qed
  qed
qed simp

lemma forgotten_notify: "forgotten t (notifyProbesLocked s) = forgotten t s"
  by (simp add: forgotten_def notifyProbesLocked_def)

lemma forgotten_tags: "forgotten t (s\<lparr>m_tags := ts\<rparr>) = forgotten t s"
  by (simp add: forgotten_def)

lemma forgotten_dispatch: "forgotten t (dispatchProbesLocked e s) = forgotten t s"
proof -
  have tag: "forgotten t (dispatchTag e u s) = forgotten t s" for u s
    by (rule dispatchTag_cases [of e u s]) (auto simp: forgotten_def startProbeLocked_def Let_def)
  have "forgotten t (fold (dispatchTag e) us s) = forgotten t s" for us s
    by (induction us arbitrary: s) (simp_all add: tag)
  moreover have "forgotten t (startLadderBudgetLocked e s) = forgotten t s"
    by (simp add: forgotten_def startLadderBudgetLocked_def split: option.split)
  ultimately show ?thesis by (simp add: dispatchProbesLocked_def Let_def)
qed

lemma Remove_effect:
  "let ((n, err), s') = Remove e tags s in
   if isClosed s then n = 0 \<and> err = Some ErrGroupClosed \<and> s' = s
   else n = int (card {t \<in> set tags. isMember s t}) \<and> err = None \<and> \<not> isClosed s' \<and>
        (\<forall>t. gget (m_members s') t = (if t \<in> set tags then None else gget (m_members s) t)) \<and>
        (\<forall>t \<in> set tags. isMember s t \<longrightarrow> t \<notin> set (All s') \<and> forgotten t s') \<and>
        (\<forall>t. t \<notin> set tags \<longrightarrow> (t \<in> set (All s') \<longleftrightarrow> t \<in> set (All s)))"
proof (cases "isClosed s")
  case True
  then show ?thesis by (simp add: Remove_def)
next
  case False
  obtain removed n u where fold: "fold removeTag tags ([], 0, s) = (removed, n, u)" by (metis prod_cases3)
  note u = fold_removeTag [rule_format, OF fold]
  define v where "v = (if n > 0 then dispatchProbesLocked e (notifyProbesLocked
      (u\<lparr>m_tags := filter (\<lambda>t. t \<notin> set removed) (m_tags u)\<rparr>)) else u)"
  have rem: "Remove e tags s = ((n, None), v)"
    using False by (simp add: Remove_def fold v_def)
  have v: "m_members v = m_members u" "m_closed v = m_closed u" "forgotten t v = forgotten t u" for t
    by (simp_all add: v_def dispatch_fields forgotten_dispatch forgotten_notify forgotten_tags)
  have "m_tags v = filter (\<lambda>t. t \<notin> set removed) (m_tags u)"
  proof (cases "n > 0")
    case True
    then show ?thesis by (simp add: v_def dispatch_fields)
  next
    case False
    have "finite {t \<in> set tags. isMember s t}" by simp
    with u False have "{t \<in> set tags. isMember s t} = {}" by auto
    with u have "set removed = {}" by simp
    with False show ?thesis by (simp add: v_def)
  qed
  then have tags: "t \<in> set (m_tags v) \<longleftrightarrow> t \<in> set (m_tags s) \<and> \<not> (t \<in> set tags \<and> isMember s t)" for t
    using u by auto
  show ?thesis
    unfolding rem Let_def prod.case if_not_P [OF False]
    using u tags v False by (auto simp: All_def isClosed_def)
qed

text \<open>C26: \<open>Remove\<close> on an open group. It reports no error and the number of given tags that were
  members; afterwards no given tag is a member, every other member is unchanged, and of each
  removed tag nothing is left: no registration, probe state, history, persisted history, URL
  override or sticky selection. A closed group returns \<open>ErrGroupClosed\<close> and does not change.\<close>

theorem Remove_forgets:
  "let ((n, err), s') = Remove e tags s in
   if isClosed s then n = 0 \<and> err = Some ErrGroupClosed \<and> s' = s
   else n = int (card {t \<in> set tags. isMember s t}) \<and> err = None \<and> \<not> isClosed s' \<and>
        (\<forall>t. gget (m_members s') t = (if t \<in> set tags then None else gget (m_members s) t)) \<and>
        (\<forall>t \<in> set tags. isMember s t \<longrightarrow> t \<notin> set (All s') \<and> forgotten t s') \<and>
        (\<forall>t. t \<notin> set tags \<longrightarrow> (t \<in> set (All s') \<longleftrightarrow> t \<in> set (All s)))"
  by (rule Remove_effect)

theorem Remove_forgets_witness:
  "let ((n, err), s') = Remove (exampleEnv 9) [''a'', ''zz''] exampleReady in
   n = 1 \<and> err = None \<and> forgotten ''a'' s'"
proof -
  have open1: "\<not> isClosed exampleReady"
    "m_members exampleReady = [(''a'', exampleOutbound ''a''), (''bb'', exampleOutbound ''bb'')]"
    by (simp_all add: exampleReady_def isClosed_def)
  have "{t \<in> set [''a'', ''zz'']. isMember exampleReady t} = {''a''}" by (auto simp: open1)
  with Remove_forgets [of "exampleEnv 9" "[''a'', ''zz'']" exampleReady] open1 show ?thesis
    by (auto simp: Let_def case_prod_unfold)
qed

section \<open>Dialing\<close>

lemma selected_supports:
  assumes "selectOutbound e network x s = (Inr (out, g), s')"
  shows "network \<in> set (ob_network out)"
proof -
  have net: "network = ''tcp'' \<or> network = ''udp''"
    using assms by (auto simp: selectOutbound_def split: if_splits)
  from assms show ?thesis
    unfolding selectOutbound_eq [OF net] Let_def
    by (auto split: option.splits if_splits dest!: winner_sound [OF rankLocked_sorted_demote]
        winner_sound [OF failover_sorted [OF rankLocked_sorted_demote]])
qed

lemma select_errors:
  "selectOutbound e network x s = (Inl err, s') \<Longrightarrow> err = ErrNetworkNotSupported network \<or> err = ErrNoOutbound"
  by (auto simp: selectOutbound_def Let_def case_prod_unfold split: if_splits list.splits)



end
