(* ===== verification/Group_Interface.thy ===== *)
theory Group_Interface
  imports Auto_Guarantees
begin

text \<open>
  The contract of \<open>adapter.MutableOutboundGroup\<close> (\<open>adapter/group.go\<close>): what \<open>Add\<close> and \<open>Remove\<close> of
  one tag, the calls the group manager makes, promise. The locale is interpreted on the auto-select
  group here, on the selector and the URL-test group in their theories.
\<close>

section \<open>The contract\<close>

locale mutable_group =
  fixes add :: "(tag \<Rightarrow> outbound option) \<Rightarrow> tag \<Rightarrow> 'g \<Rightarrow> (int \<times> groupError option) \<times> 'g"
    and remove :: "tag \<Rightarrow> 'g \<Rightarrow> (int \<times> groupError option) \<times> 'g"
    and mem :: "'g \<Rightarrow> tag \<Rightarrow> bool"
    and opened :: "'g \<Rightarrow> bool"
    and ginv :: "'g \<Rightarrow> bool"
  assumes add_new: "ginv g \<Longrightarrow> opened g \<Longrightarrow> \<not> mem g t \<Longrightarrow> mgr t = Some out \<Longrightarrow> fst (add mgr t g) = (1, None)"
    and add_old: "ginv g \<Longrightarrow> opened g \<Longrightarrow> mem g t \<Longrightarrow> fst (add mgr t g) = (0, None)"
    and add_unknown: "ginv g \<Longrightarrow> opened g \<Longrightarrow> \<not> mem g t \<Longrightarrow> mgr t = None \<Longrightarrow>
           fst (fst (add mgr t g)) = 0 \<and> snd (fst (add mgr t g)) \<noteq> None"
    and add_mem: "ginv g \<Longrightarrow> opened g \<Longrightarrow> mem (snd (add mgr t g)) = (mem g)(t := mem g t \<or> mgr t \<noteq> None)"
    and add_closed: "\<not> opened g \<Longrightarrow> add mgr t g = ((0, Some ErrGroupClosed), g)"
    and add_opened: "ginv g \<Longrightarrow> opened (snd (add mgr t g)) = opened g"
    and add_ginv: "ginv g \<Longrightarrow> ginv (snd (add mgr t g))"
    and remove_result: "ginv g \<Longrightarrow> opened g \<Longrightarrow> fst (remove t g) = (if mem g t then 1 else 0, None)"
    and remove_mem: "ginv g \<Longrightarrow> opened g \<Longrightarrow> mem (snd (remove t g)) = (mem g)(t := False)"
    and remove_closed: "\<not> opened g \<Longrightarrow> remove t g = ((0, Some ErrGroupClosed), g)"
    and remove_opened: "ginv g \<Longrightarrow> opened (snd (remove t g)) = opened g"
    and remove_ginv: "ginv g \<Longrightarrow> ginv (snd (remove t g))"
begin

lemma add_success_iff:
  assumes "ginv g"
  shows "snd (fst (add mgr t g)) = None \<and> fst (fst (add mgr t g)) \<noteq> 0 \<longleftrightarrow>
     opened g \<and> \<not> mem g t \<and> mgr t \<noteq> None"
proof (cases "opened g")
  case True
  then show ?thesis
    using add_new [OF assms True, of t mgr] add_old [OF assms True, of t mgr]
      add_unknown [OF assms True, of t mgr]
    by (cases "mem g t"; cases "mgr t") auto
qed (simp add: add_closed)

lemma add_success_mem:
  assumes "ginv g" and "fst (add mgr t g) = (n, None)" and "n \<noteq> 0"
  shows "mem (snd (add mgr t g)) t"
  using add_success_iff [OF assms(1), of mgr t] add_mem [OF assms(1)] assms(2,3) by auto

lemma remove_error: "ginv g \<Longrightarrow> snd (fst (remove t g)) = (if opened g then None else Some ErrGroupClosed)"
  by (simp add: remove_result remove_closed)

lemma add_keeps: "ginv g \<Longrightarrow> mem g u \<Longrightarrow> mem (snd (add mgr t g)) u"
  by (cases "opened g") (auto simp: add_mem add_closed)

lemma add_only: "ginv g \<Longrightarrow> u \<noteq> t \<Longrightarrow> mem (snd (add mgr t g)) u = mem g u"
  by (cases "opened g") (auto simp: add_mem add_closed)

lemma remove_only: "ginv g \<Longrightarrow> u \<noteq> t \<Longrightarrow> mem (snd (remove t g)) u = mem g u"
  by (cases "opened g") (auto simp: remove_mem remove_closed)

lemma remove_add:
  "ginv g \<Longrightarrow> opened g \<Longrightarrow> \<not> mem g t \<Longrightarrow> mem (snd (remove t (snd (add mgr t g)))) = mem g"
  by (auto simp: remove_mem add_mem add_opened add_ginv fun_eq_iff)

lemma absent_after_remove: "ginv g \<Longrightarrow> opened g \<Longrightarrow> \<not> mem (snd (remove t g)) t"
  by (simp add: remove_mem)

end

section \<open>The auto-select group implements it\<close>

definition auto_Add :: "env \<Rightarrow> (tag \<Rightarrow> outbound option) \<Rightarrow> tag \<Rightarrow> mas \<Rightarrow> (int \<times> groupError option) \<times> mas" where
  "auto_Add e mgr t s = Add e mgr [t] s"

definition auto_Remove :: "env \<Rightarrow> tag \<Rightarrow> mas \<Rightarrow> (int \<times> groupError option) \<times> mas" where
  "auto_Remove e t s = Remove e [t] s"

lemma singleton_set: "{u \<in> set [t]. P u} = (if P t then {t} else {})"
  by auto

lemma auto_Add_cases:
  assumes "auto_Add e mgr t s = ((n, err), s')"
  shows "if isClosed s then n = 0 \<and> err = Some ErrGroupClosed \<and> s' = s
         else n = (if \<not> isMember s t \<and> mgr t \<noteq> None then 1 else 0) \<and> \<not> isClosed s' \<and>
              (err = None \<longleftrightarrow> isMember s t \<or> mgr t \<noteq> None) \<and>
              (\<forall>u. isMember s' u \<longleftrightarrow> isMember s u \<or> u = t \<and> mgr t \<noteq> None)"
  using Add_effect [of "[t]" s mgr e] assms unfolding auto_Add_def singleton_set Let_def
  by (auto split: if_splits)

lemma auto_Remove_cases:
  assumes "auto_Remove e t s = ((n, err), s')"
  shows "if isClosed s then n = 0 \<and> err = Some ErrGroupClosed \<and> s' = s
         else n = (if isMember s t then 1 else 0) \<and> err = None \<and> \<not> isClosed s' \<and>
              (\<forall>u. isMember s' u \<longleftrightarrow> isMember s u \<and> u \<noteq> t)"
  using Remove_effect [of e "[t]" s] assms unfolding auto_Remove_def singleton_set Let_def
  by (auto split: if_splits)

interpretation auto: mutable_group "auto_Add e" "auto_Remove e" isMember "\<lambda>s. \<not> isClosed s" "\<lambda>_. True" for e
proof unfold_locales
  fix g t mgr
  obtain n err g' where add: "auto_Add e mgr t g = ((n, err), g')" by (metis surj_pair)
  obtain m err' g'' where rem: "auto_Remove e t g = ((m, err'), g'')" by (metis surj_pair)
  note a = auto_Add_cases [OF add] and r = auto_Remove_cases [OF rem]
  show "\<not> isClosed g \<Longrightarrow> \<not> isMember g t \<Longrightarrow> mgr t = Some out \<Longrightarrow> fst (auto_Add e mgr t g) = (1, None)" for out
    using a by (simp add: add)
  show "\<not> isClosed g \<Longrightarrow> isMember g t \<Longrightarrow> fst (auto_Add e mgr t g) = (0, None)"
    using a by (simp add: add)
  show "\<not> isClosed g \<Longrightarrow> \<not> isMember g t \<Longrightarrow> mgr t = None \<Longrightarrow>
      fst (fst (auto_Add e mgr t g)) = 0 \<and> snd (fst (auto_Add e mgr t g)) \<noteq> None"
    using a by (simp add: add)
  show "\<not> isClosed g \<Longrightarrow> isMember (snd (auto_Add e mgr t g)) = (isMember g)(t := isMember g t \<or> mgr t \<noteq> None)"
    using a by (auto simp: add fun_eq_iff)
  show "\<not> \<not> isClosed g \<Longrightarrow> auto_Add e mgr t g = ((0, Some ErrGroupClosed), g)"
    using a by (simp add: add)
  show "(\<not> isClosed (snd (auto_Add e mgr t g))) = (\<not> isClosed g)"
    using a by (cases "isClosed g") (simp_all add: add)
  show "\<not> isClosed g \<Longrightarrow> fst (auto_Remove e t g) = (if isMember g t then 1 else 0, None)"
    using r by (simp add: rem)
  show "\<not> isClosed g \<Longrightarrow> isMember (snd (auto_Remove e t g)) = (isMember g)(t := False)"
    using r by (auto simp: rem fun_eq_iff)
  show "\<not> \<not> isClosed g \<Longrightarrow> auto_Remove e t g = ((0, Some ErrGroupClosed), g)"
    using r by (simp add: rem)
  show "(\<not> isClosed (snd (auto_Remove e t g))) = (\<not> isClosed g)"
    using r by (cases "isClosed g") (simp_all add: rem)
qed simp_all

end
