(* ===== verification/Removal_Queue.thy ===== *)
theory Removal_Queue
  imports Group_Interface
begin

text \<open>
  The delayed removal of outbounds and endpoints (\<open>removalQueue\<close> of \<open>adapter/groups/manager.go\<close>).

  The outbound and endpoint managers are sing-box's. The registry they keep is a state of any type
  \<open>'r\<close>, and what the code calls on them is the argument \<open>ops\<close>. The queue's goroutine is a state machine:
  every section it runs under the queue's lock is a step, and the operations of the manager may run
  between any two of them.
\<close>

section \<open>The managers the queue calls\<close>

text \<open>The outbound registered under a tag; whether an endpoint is; creating one, and removing one
  (the first argument says whether it is an endpoint), with success or failure.\<close>

record 'r registry =
  rg_outbound :: "'r \<Rightarrow> tag \<Rightarrow> outbound option"
  rg_endpoint :: "'r \<Rightarrow> tag \<Rightarrow> bool"
  rg_create :: "bool \<Rightarrow> tag \<Rightarrow> 'r \<Rightarrow> bool \<times> 'r"
  rg_remove :: "bool \<Rightarrow> tag \<Rightarrow> 'r \<Rightarrow> bool \<times> 'r"

text \<open>What the managers document: creating or removing concerns the given tag only, and a created
  outbound is registered, under its tag.\<close>

definition registry_ok :: "'r registry \<Rightarrow> bool" where
  "registry_ok ops \<longleftrightarrow>
     (\<forall>ep t u r. u \<noteq> t \<longrightarrow> rg_outbound ops (snd (rg_create ops ep t r)) u = rg_outbound ops r u) \<and>
     (\<forall>ep t u r. u \<noteq> t \<longrightarrow> rg_outbound ops (snd (rg_remove ops ep t r)) u = rg_outbound ops r u) \<and>
     (\<forall>ep t r. fst (rg_create ops ep t r) \<longrightarrow> rg_outbound ops (snd (rg_create ops ep t r)) t \<noteq> None) \<and>
     (\<forall>t r out. rg_outbound ops r t = Some out \<longrightarrow> ob_tag out = t)"

section \<open>The queue\<close>

record item =
  it_isEndpoint :: bool
  it_addedAt :: time

text \<open>Where the goroutine that won the race for \<open>running\<close> is in \<open>checkLoop\<close>: before \<open>checkPending\<close>;
  in it, with the tags to remove; before the test for emptiness; waiting for the ticker; returning.\<close>

datatype loopPc = AtCheck | AtRemove "tag list" | AtTest | AtWait | AtReturn

text \<open>\<open>rq_spawned\<close> counts the goroutines started that have not run yet.\<close>

record removalQueue =
  rq_pending :: "(tag, item) gomap"
  rq_running :: bool
  rq_done :: bool
  rq_spawned :: nat
  rq_loop :: "loopPc option"

definition forceAfter :: duration where
  "forceAfter = 15 * minute"

definition newRemovalQueue :: removalQueue where
  "newRemovalQueue = \<lparr>rq_pending = [], rq_running = False, rq_done = False, rq_spawned = 0, rq_loop = None\<rparr>"

definition enqueue :: "time \<Rightarrow> tag \<Rightarrow> bool \<Rightarrow> removalQueue \<Rightarrow> removalQueue" where
  "enqueue now tag isEndpoint q =
     (if rq_done q then q
      else if gget (rq_pending q) tag \<noteq> None then q
      else
        let q = q\<lparr>rq_pending := gput tag \<lparr>it_isEndpoint = isEndpoint, it_addedAt = now\<rparr> (rq_pending q)\<rparr> in
        if \<not> rq_running q then q\<lparr>rq_spawned := rq_spawned q + 1\<rparr> else q)"

definition dequeue :: "tag \<Rightarrow> removalQueue \<Rightarrow> removalQueue" where
  "dequeue tag q = q\<lparr>rq_pending := gdel tag (rq_pending q)\<rparr>"

definition rq_close :: "removalQueue \<Rightarrow> removalQueue" where
  "rq_close q = q\<lparr>rq_done := True\<rparr>"

text \<open>The goroutine's first step: only one wins.\<close>

definition loopStart :: "removalQueue \<Rightarrow> removalQueue" where
  "loopStart q =
     (let q = q\<lparr>rq_spawned := rq_spawned q - 1\<rparr> in
      if rq_running q then q else q\<lparr>rq_running := True, rq_loop := Some AtCheck\<rparr>)"

text \<open>The first half of \<open>checkPending\<close>: \<open>conns\<close> are the connections' outbounds and whether each is
  open.\<close>

definition hasConns :: "(tag \<times> bool) list \<Rightarrow> tag \<Rightarrow> bool" where
  "hasConns conns tag \<longleftrightarrow> list_ex (\<lambda>(outbound, isOpen). outbound = tag \<and> isOpen) conns"

definition toRemove ::
  "((tag, item) gomap \<Rightarrow> (tag, item) gomap) \<Rightarrow> time \<Rightarrow> (tag \<times> bool) list \<Rightarrow> (tag, item) gomap \<Rightarrow> tag list" where
  "toRemove order now conns pending =
     map fst (filter (\<lambda>(tag, item). \<not> hasConns conns tag \<or> now - it_addedAt item > forceAfter) (gorange order pending))"

definition checkSnapshot ::
  "((tag, item) gomap \<Rightarrow> (tag, item) gomap) \<Rightarrow> time \<Rightarrow> (tag \<times> bool) list \<Rightarrow> removalQueue \<Rightarrow> removalQueue" where
  "checkSnapshot order now conns q =
     (let tags = toRemove order now conns (rq_pending q) in
      q\<lparr>rq_loop := Some (if tags = [] then AtTest else AtRemove tags)\<rparr>)"

text \<open>The second half, under the lock: only tags that are still pending are removed.\<close>

definition removePending :: "'r registry \<Rightarrow> tag \<Rightarrow> (tag, item) gomap \<times> 'r \<Rightarrow> (tag, item) gomap \<times> 'r" where
  "removePending ops tag = (\<lambda>(pending, r).
     case gget pending tag of
       None \<Rightarrow> (pending, r)
     | Some it \<Rightarrow>
         if it_isEndpoint it
         then (if \<not> rg_endpoint ops r tag then (gdel tag pending, r)
               else (gdel tag pending, snd (rg_remove ops True tag r)))
         else (if rg_outbound ops r tag = None then (gdel tag pending, r)
               else (gdel tag pending, snd (rg_remove ops False tag r))))"

definition checkRemove :: "'r registry \<Rightarrow> tag list \<Rightarrow> removalQueue \<Rightarrow> 'r \<Rightarrow> removalQueue \<times> 'r" where
  "checkRemove ops tags q r =
     (let (pending, r) = fold (removePending ops) tags (rq_pending q, r) in
      (q\<lparr>rq_pending := pending, rq_loop := Some AtTest\<rparr>, r))"

definition loopTest :: "removalQueue \<Rightarrow> removalQueue" where
  "loopTest q = q\<lparr>rq_loop := Some (if rq_pending q = [] then AtReturn else AtWait)\<rparr>"

text \<open>The ticker or the closed \<open>done\<close> channel.\<close>

definition loopTick :: "removalQueue \<Rightarrow> removalQueue" where
  "loopTick q = q\<lparr>rq_loop := Some AtCheck\<rparr>"

definition loopDone :: "removalQueue \<Rightarrow> removalQueue" where
  "loopDone q = q\<lparr>rq_loop := Some AtReturn\<rparr>"

definition loopReturn :: "removalQueue \<Rightarrow> removalQueue" where
  "loopReturn q = q\<lparr>rq_running := False, rq_loop := None\<rparr>"

section \<open>The goroutine's steps\<close>

inductive loop_step :: "'r registry \<Rightarrow> removalQueue \<times> 'r \<Rightarrow> removalQueue \<times> 'r \<Rightarrow> bool" for ops where
  start: "rq_spawned q > 0 \<Longrightarrow> loop_step ops (q, r) (loopStart q, r)"
| snapshot: "rq_loop q = Some AtCheck \<Longrightarrow> loop_step ops (q, r) (checkSnapshot order now conns q, r)"
| removal: "rq_loop q = Some (AtRemove tags) \<Longrightarrow> loop_step ops (q, r) (checkRemove ops tags q r)"
| test: "rq_loop q = Some AtTest \<Longrightarrow> loop_step ops (q, r) (loopTest q, r)"
| tick: "rq_loop q = Some AtWait \<Longrightarrow> loop_step ops (q, r) (loopTick q, r)"
| stopped: "rq_loop q = Some AtWait \<Longrightarrow> rq_done q \<Longrightarrow> loop_step ops (q, r) (loopDone q, r)"
| finish: "rq_loop q = Some AtReturn \<Longrightarrow> loop_step ops (q, r) (loopReturn q, r)"

inductive_cases loop_stepE: "loop_step ops (q, r) (q', r')"

text \<open>The queue among everything else: its goroutine, its callers, and other users of the managers.\<close>

inductive queue_step :: "'r registry \<Rightarrow> removalQueue \<times> 'r \<Rightarrow> removalQueue \<times> 'r \<Rightarrow> bool" for ops where
  loop: "loop_step ops x y \<Longrightarrow> queue_step ops x y"
| enqueued: "queue_step ops (q, r) (enqueue now tag isEndpoint q, r)"
| dequeued: "queue_step ops (q, r) (dequeue tag q, r)"
| closing: "queue_step ops (q, r) (rq_close q, r)"
| registry: "queue_step ops (q, r) (q, r')"

definition rq_inv :: "removalQueue \<times> 'r \<Rightarrow> bool" where
  "rq_inv x \<longleftrightarrow> distinct (gkeys (rq_pending (fst x))) \<and> (rq_running (fst x) \<longleftrightarrow> rq_loop (fst x) \<noteq> None)"

section \<open>What a check removes\<close>

lemma removePending_effect:
  "removePending ops tag (pending, r) = (pending', r') \<Longrightarrow>
   gget pending' = (gget pending)(tag := None) \<and> (distinct (gkeys pending) \<longrightarrow> distinct (gkeys pending')) \<and>
   (r' = r \<or> (\<exists>ep. r' = snd (rg_remove ops ep tag r) \<and> gget pending tag \<noteq> None))"
  by (auto simp: removePending_def split: option.splits if_splits)

lemma removePending_other:
  assumes "registry_ok ops" and "removePending ops tag (pending, r) = (pending', r')" and "u \<noteq> tag \<or> gget pending tag = None"
  shows "rg_outbound ops r' u = rg_outbound ops r u"
  using removePending_effect [OF assms(2)] assms(1,3) by (auto simp: registry_ok_def)

lemma fold_removePending:
  assumes "registry_ok ops" and "fold (removePending ops) tags (pending, r) = (pending', r')"
  shows "(\<forall>t. gget pending' t = (if t \<in> set tags then None else gget pending t)) \<and>
    (distinct (gkeys pending) \<longrightarrow> distinct (gkeys pending')) \<and>
    (\<forall>u. u \<notin> set tags \<or> gget pending u = None \<longrightarrow> rg_outbound ops r' u = rg_outbound ops r u)"
  using assms(2)
proof (induction tags arbitrary: pending r)
  case (Cons t tags)
  obtain p1 r1 where step: "removePending ops t (pending, r) = (p1, r1)" by force
  note eff = removePending_effect [OF step] and other = removePending_other [OF assms(1) step]
  have fold: "fold (removePending ops) tags (p1, r1) = (pending', r')" using Cons.prems step by simp
  note IH = Cons.IH [OF fold]
  have "rg_outbound ops r' u = rg_outbound ops r u" if "u \<notin> set (t # tags) \<or> gget pending u = None" for u
  proof -
    have "u \<noteq> t \<or> gget pending t = None" "u \<notin> set tags \<or> gget p1 u = None" using that eff by auto
    then show ?thesis using IH other [of u] by simp
  qed
  moreover have "gget pending' x = (if x \<in> set (t # tags) then None else gget pending x)" for x
    using IH eff by simp
  ultimately show ?case using IH eff by simp
qed simp

lemma toRemove_iff:
  assumes "distinct (gkeys pending)"
  shows "t \<in> set (toRemove order now conns pending) \<longleftrightarrow>
    (\<exists>it. gget pending t = Some it \<and> (\<not> hasConns conns t \<or> now - it_addedAt it > forceAfter))"
  using gget_Some_iff [OF assms, of t] by (force simp: toRemove_def image_iff)

lemma checkRemove_fields:
  assumes "registry_ok ops" and "checkRemove ops tags q r = (q', r')"
  shows "(\<forall>t. gget (rq_pending q') t = (if t \<in> set tags then None else gget (rq_pending q) t)) \<and>
    (distinct (gkeys (rq_pending q)) \<longrightarrow> distinct (gkeys (rq_pending q'))) \<and>
    (\<forall>u. u \<notin> set tags \<or> gget (rq_pending q) u = None \<longrightarrow> rg_outbound ops r' u = rg_outbound ops r u) \<and>
    rq_running q' = rq_running q \<and> rq_loop q' = Some AtTest \<and> rq_spawned q' = rq_spawned q"
proof -
  obtain p r1 where f: "fold (removePending ops) tags (rq_pending q, r) = (p, r1)" by force
  then have "q' = q\<lparr>rq_pending := p, rq_loop := Some AtTest\<rparr>" "r' = r1"
    using assms(2) by (simp_all add: checkRemove_def)
  with fold_removePending [OF assms(1) f] show ?thesis by simp
qed

section \<open>Invariant\<close>

lemma distinct_checkRemove:
  "distinct (gkeys (rq_pending q)) \<Longrightarrow> distinct (gkeys (rq_pending (fst (checkRemove ops tags q r))))"
proof -
  have "distinct (gkeys (fst x)) \<Longrightarrow> distinct (gkeys (fst (fold (removePending ops) tags x)))" for x
    by (induction tags arbitrary: x)
      (auto, metis prod.collapse removePending_effect)
  then show "distinct (gkeys (rq_pending q)) \<Longrightarrow> ?thesis" by (simp add: checkRemove_def case_prod_unfold Let_def)
qed

lemma loop_step_inv: "loop_step ops x y \<Longrightarrow> rq_inv x \<Longrightarrow> rq_inv y"
proof (induction rule: loop_step.induct)
  case (removal q tags r)
  then show ?case
    using distinct_checkRemove [of q ops tags r]
    by (simp add: rq_inv_def checkRemove_def case_prod_unfold Let_def)
qed (auto simp: rq_inv_def loopStart_def checkSnapshot_def loopTest_def loopTick_def loopDone_def loopReturn_def Let_def)

lemma queue_step_inv: "queue_step ops x y \<Longrightarrow> rq_inv x \<Longrightarrow> rq_inv y"
proof (induction rule: queue_step.induct)
  case (loop x y)
  then show ?case by (rule loop_step_inv)
qed (auto simp: rq_inv_def enqueue_def dequeue_def rq_close_def Let_def)

interpretation queue: invariant_system "\<lambda>x. fst x = newRemovalQueue" "queue_step ops" rq_inv for ops
proof
  show "fst x = newRemovalQueue \<Longrightarrow> rq_inv x" for x by (simp add: rq_inv_def newRemovalQueue_def)
qed (rule queue_step_inv)

abbreviation queue_reaches :: "'r registry \<Rightarrow> removalQueue \<times> 'r \<Rightarrow> bool" where
  "queue_reaches ops \<equiv> reaches (\<lambda>x. fst x = newRemovalQueue) (queue_step ops)"

text \<open>What one undisturbed check does. From any reachable queue, exactly the pending tags without
  an open connection, and those queued for more than the time limit, stop being pending; a tag in use
  within its time stays queued; and the registration of every tag that stays queued, or was not queued
  at all, is untouched.\<close>

lemma check_removes_idle:
  assumes "registry_ok ops" and "queue_reaches ops (q, r)"
    and "checkRemove ops (toRemove order now conns (rq_pending q)) q r = (q', r')"
  shows "let removable = (\<lambda>t it. \<not> hasConns conns t \<or> now - it_addedAt it > forceAfter) in
    \<forall>t. (case gget (rq_pending q) t of
           Some it \<Rightarrow> gget (rq_pending q') t = (if removable t it then None else Some it) \<and>
                      (\<not> removable t it \<longrightarrow> rg_outbound ops r' t = rg_outbound ops r t)
         | None \<Rightarrow> gget (rq_pending q') t = None \<and> rg_outbound ops r' t = rg_outbound ops r t)"
proof -
  have "distinct (gkeys (rq_pending q))"
    using queue.reaches_inv [OF assms(2)] by (simp add: rq_inv_def)
  note iff = toRemove_iff [OF this, of _ order now conns]
  show ?thesis
    using checkRemove_fields [OF assms(1,3)] by (auto simp: iff split: option.split)
qed

lemma loop_steps_unqueued:
  assumes "registry_ok ops" and "(loop_step ops)\<^sup>*\<^sup>* (q, r) (q', r')" and "gget (rq_pending q) t = None"
  shows "gget (rq_pending q') t = None \<and> rg_outbound ops r' t = rg_outbound ops r t"
proof -
  have step: "gget (rq_pending (fst y)) t = None \<and> rg_outbound ops (snd y) t = rg_outbound ops (snd x) t"
    if "loop_step ops x y" "gget (rq_pending (fst x)) t = None" for x y
    using that
  proof (induction rule: loop_step.induct)
    case (removal q tags r)
    obtain q1 r1 where c: "checkRemove ops tags q r = (q1, r1)" by force
    with checkRemove_fields [OF assms(1) c] removal.prems show ?case by simp
  qed (auto simp: loopStart_def checkSnapshot_def loopTest_def loopTick_def loopDone_def loopReturn_def Let_def)
  from assms(2) have "gget (rq_pending (fst (q', r'))) t = None \<and>
      rg_outbound ops (snd (q', r')) t = rg_outbound ops (snd (q, r)) t"
    by (induction rule: rtranclp_induct) (use assms(3) step in auto)
  then show ?thesis by simp
qed

text \<open>A registry that is a map, as an example of the managers.\<close>

definition exampleRegistry :: "(tag, outbound) gomap registry" where
  "exampleRegistry =
     \<lparr>rg_outbound = (\<lambda>r t. case gget r t of None \<Rightarrow> None | Some out \<Rightarrow> if ob_tag out = t then Some out else None),
      rg_endpoint = (\<lambda>r t. False),
      rg_create = (\<lambda>ep t r. (True, gput t (exampleOutbound t) r)),
      rg_remove = (\<lambda>ep t r. (True, gdel t r))\<rparr>"

lemma exampleRegistry_ok: "registry_ok exampleRegistry"
  by (auto simp: registry_ok_def exampleRegistry_def exampleOutbound_def split: if_splits option.splits)

definition exampleRegistered :: "(tag, outbound) gomap" where
  "exampleRegistered = [(''a'', exampleOutbound ''a''), (''bb'', exampleOutbound ''bb'')]"

definition exampleQueued :: removalQueue where
  "exampleQueued = enqueue 2 ''bb'' False (enqueue 1 ''a'' False newRemovalQueue)"

lemma exampleQueued_reaches: "queue_reaches exampleRegistry (exampleQueued, exampleRegistered)"
proof -
  have "queue_reaches exampleRegistry (newRemovalQueue, exampleRegistered)" by (rule reaches_init) simp
  then have "queue_reaches exampleRegistry (enqueue 1 ''a'' False newRemovalQueue, exampleRegistered)"
    by (rule reaches_step) (rule enqueued)
  then show ?thesis unfolding exampleQueued_def by (rule reaches_step) (rule enqueued)
qed

section \<open>Two races\<close>

text \<open>The goroutine tests for emptiness under the lock but clears \<open>running\<close> only when it returns. A
  removal queued in between sees \<open>running\<close> and starts no goroutine: it stays queued, with nothing left
  to perform it, until another removal is queued.\<close>

lemma lost_wakeup:
  "\<exists>q. queue_reaches exampleRegistry (q, exampleRegistered) \<and>
       gget (rq_pending q) ''bb'' \<noteq> None \<and> rq_loop q = None \<and> rq_spawned q = 0 \<and> \<not> rq_running q \<and> \<not> rq_done q"
proof -
  let ?R = "\<lambda>q. queue_reaches exampleRegistry (q, exampleRegistered)"
  define q1 where "q1 = loopStart (dequeue ''a'' (enqueue 1 ''a'' False newRemovalQueue))"
  define q2 where "q2 = loopTest (checkSnapshot id 2 [] q1)"
  define q3 where "q3 = loopReturn (enqueue 3 ''bb'' False q2)"
  have "?R newRemovalQueue" by (rule reaches_init) simp
  then have "?R (enqueue 1 ''a'' False newRemovalQueue)" by (rule reaches_step) (rule enqueued)
  then have "?R (dequeue ''a'' (enqueue 1 ''a'' False newRemovalQueue))" by (rule reaches_step) (rule dequeued)
  then have "?R q1"
    unfolding q1_def by (rule reaches_step) (rule loop, rule start, code_simp)
  then have "?R (checkSnapshot id 2 [] q1)"
    by (rule reaches_step) (rule loop, rule snapshot, unfold q1_def, code_simp)
  then have "?R q2"
    unfolding q2_def by (rule reaches_step) (rule loop, rule test, unfold q1_def, code_simp)
  then have "?R (enqueue 3 ''bb'' False q2)" by (rule reaches_step) (rule enqueued)
  then have "?R q3"
    unfolding q3_def by (rule reaches_step) (rule loop, rule finish, unfold q2_def q1_def, code_simp)
  moreover have "gget (rq_pending q3) ''bb'' \<noteq> None" "rq_loop q3 = None" "rq_spawned q3 = 0" "\<not> rq_running q3" "\<not> rq_done q3"
    unfolding q3_def q2_def q1_def by code_simp+
  ultimately show ?thesis by blast
qed

text \<open>A removal decided for one queueing of a tag is carried out on a later one: a tag that was taken off
  the queue and queued again while the goroutine was between its two sections is removed although its
  own time has not begun to run and connections may be open.\<close>

lemma requeued_tag_removed_early:
  "let q = enqueue 9 ''a'' False (dequeue ''a'' (checkSnapshot id 5 [] (loopStart exampleQueued)));
       (q', r') = checkRemove exampleRegistry [''a'', ''bb''] q exampleRegistered in
   rq_loop q = Some (AtRemove [''a'', ''bb'']) \<and> gget (rq_pending q) ''a'' = Some \<lparr>it_isEndpoint = False, it_addedAt = 9\<rparr> \<and>
   rg_outbound exampleRegistry r' ''a'' = None"
  by code_simp

end
