(* ===== verification/Mutable_Selector.thy ===== *)
theory Mutable_Selector
  imports Group_Interface
begin

text \<open>
  The manually switched group (\<open>protocol/group/mutableselector.go\<close>). The cache file is sing-box's:
  the model keeps what it last stored for the group (\<open>sl_cache\<close>, \<open>None\<close> without a cache file,
  \<open>Some ''''\<close> when it holds nothing) and takes whether a store succeeds as an argument.
  \<open>sl_interrupts\<close> counts the interruptions of existing connections.
\<close>

record selector =
  sl_tags :: "tag list"
  sl_outbounds :: "(tag, outbound) gomap"
  sl_selected :: "outbound option"
  sl_cache :: "tag option"
  sl_interrupts :: nat

definition NewMutableSelector :: "tag list \<Rightarrow> tag option \<Rightarrow> selector" where
  "NewMutableSelector outbounds cache =
     \<lparr>sl_tags = outbounds, sl_outbounds = [], sl_selected = None, sl_cache = cache, sl_interrupts = 0\<rparr>"

text \<open>The loop of \<open>Start\<close>: a missing tag stops it, with the tags before it entered.\<close>

fun sl_resolve :: "(tag \<Rightarrow> outbound option) \<Rightarrow> tag list \<Rightarrow> selector \<Rightarrow> groupError option \<times> selector" where
  "sl_resolve mgr [] s = (None, s)"
| "sl_resolve mgr (t # ts) s =
     (case mgr t of
        None \<Rightarrow> (Some (ErrOutboundNotFound t), s)
      | Some out \<Rightarrow> sl_resolve mgr ts (s\<lparr>sl_outbounds := gput t out (sl_outbounds s)\<rparr>))"

definition sl_Start :: "(tag \<Rightarrow> outbound option) \<Rightarrow> selector \<Rightarrow> groupError option \<times> selector" where
  "sl_Start mgr s =
     (case sl_tags s of
        [] \<Rightarrow> (None, s)
      | first # _ \<Rightarrow>
          (case sl_resolve mgr (sl_tags s) s of
             (Some err, s) \<Rightarrow> (Some err, s)
           | (None, s) \<Rightarrow>
               (case (case sl_cache s of
                        None \<Rightarrow> None
                      | Some selected \<Rightarrow>
                          if selected = '''' then None else gget (sl_outbounds s) selected) of
                  Some out \<Rightarrow> (None, s\<lparr>sl_selected := Some out\<rparr>)
                | None \<Rightarrow> (None, s\<lparr>sl_selected := gget (sl_outbounds s) first\<rparr>))))"

definition sl_selectOutbound :: "bool \<Rightarrow> tag \<Rightarrow> selector \<Rightarrow> bool \<times> selector" where
  "sl_selectOutbound storeOk tag s =
     (case gget (sl_outbounds s) tag of
        None \<Rightarrow> (False, s)
      | Some out \<Rightarrow>
          let same = (sl_selected s = Some out); s = s\<lparr>sl_selected := Some out\<rparr> in
          if same then (True, s)
          else
            let s = (case sl_cache s of
                       None \<Rightarrow> s
                     | Some _ \<Rightarrow> if storeOk then s\<lparr>sl_cache := Some tag\<rparr> else s) in
            (True, s\<lparr>sl_interrupts := sl_interrupts s + 1\<rparr>))"

definition sl_Network :: "selector \<Rightarrow> string list" where
  "sl_Network s = (case sl_selected s of None \<Rightarrow> [] | Some out \<Rightarrow> ob_network out)"

definition sl_Now :: "selector \<Rightarrow> tag" where
  "sl_Now s = (case sl_selected s of None \<Rightarrow> '''' | Some out \<Rightarrow> ob_tag out)"

definition sl_All :: "selector \<Rightarrow> tag list" where
  "sl_All s = sl_tags s"

text \<open>The loops' results are the missing tags, the count and the state.\<close>

definition sl_addTag ::
  "(tag \<Rightarrow> outbound option) \<Rightarrow> tag \<Rightarrow> tag list \<times> int \<times> selector \<Rightarrow> tag list \<times> int \<times> selector" where
  "sl_addTag mgr tag = (\<lambda>(missing, n, s).
     if gget (sl_outbounds s) tag \<noteq> None then (missing, n, s)
     else case mgr tag of
       None \<Rightarrow> (missing @ [tag], n, s)
     | Some out \<Rightarrow>
         (missing, n + 1, s\<lparr>sl_outbounds := gput tag out (sl_outbounds s), sl_tags := sl_tags s @ [tag]\<rparr>))"

definition sl_result :: "tag list \<times> int \<times> selector \<Rightarrow> (int \<times> groupError option) \<times> selector" where
  "sl_result = (\<lambda>(missing, n, s). ((n, if missing = [] then None else Some (ErrOutboundsNotFound missing)), s))"

definition sl_Add :: "(tag \<Rightarrow> outbound option) \<Rightarrow> tag list \<Rightarrow> selector \<Rightarrow> (int \<times> groupError option) \<times> selector" where
  "sl_Add mgr tags s = sl_result (fold (sl_addTag mgr) tags ([], 0, s))"

definition sl_replaceTag ::
  "(tag \<Rightarrow> outbound option) \<Rightarrow> tag \<Rightarrow> tag list \<times> int \<times> selector \<Rightarrow> tag list \<times> int \<times> selector" where
  "sl_replaceTag mgr tag = (\<lambda>(missing, n, s).
     case gget (sl_outbounds s) tag of
       None \<Rightarrow> (missing, n, s)
     | Some old \<Rightarrow>
         (case mgr tag of
            None \<Rightarrow> (missing @ [tag], n, s)
          | Some out \<Rightarrow>
              if out = old then (missing, n + 1, s)
              else (missing, n + 1,
                    s\<lparr>sl_outbounds := gput tag out (sl_outbounds s),
                      sl_selected := (if sl_selected s = Some old then Some out else sl_selected s)\<rparr>)))"

definition sl_Replace :: "(tag \<Rightarrow> outbound option) \<Rightarrow> tag list \<Rightarrow> selector \<Rightarrow> (int \<times> groupError option) \<times> selector" where
  "sl_Replace mgr tags s = sl_result (fold (sl_replaceTag mgr) tags ([], 0, s))"

definition sl_removeTag :: "tag \<Rightarrow> int \<times> selector \<Rightarrow> int \<times> selector" where
  "sl_removeTag tag = (\<lambda>(n, s).
     if gget (sl_outbounds s) tag = None then (n, s)
     else (n + 1, s\<lparr>sl_outbounds := gdel tag (sl_outbounds s)\<rparr>))"

text \<open>What \<open>Remove\<close> does about the selection once the members are gone.\<close>

definition sl_reselect :: "bool \<Rightarrow> selector \<Rightarrow> selector" where
  "sl_reselect storeOk s =
     (if gget (sl_outbounds s) (sl_Now s) \<noteq> None then s
      else case sl_tags s of
        [] \<Rightarrow> s\<lparr>sl_selected := None\<rparr>
      | t # _ \<Rightarrow> snd (sl_selectOutbound storeOk t s))"

text \<open>\<open>order\<close> is the order in which the map's keys are collected, which Go leaves open.\<close>

definition sl_Remove ::
  "((tag, outbound) gomap \<Rightarrow> (tag, outbound) gomap) \<Rightarrow> bool \<Rightarrow> tag list \<Rightarrow> selector \<Rightarrow>
   (int \<times> groupError option) \<times> selector" where
  "sl_Remove order storeOk tags s =
     (if sl_tags s = [] then ((0, None), s)
      else
        let (n, s) = fold sl_removeTag tags (0, s);
            s = s\<lparr>sl_tags := gkeys (gorange order (sl_outbounds s))\<rparr> in
        ((n, None), sl_reselect storeOk s))"

text \<open>Which outbound a dial, a listen or an incoming connection uses.\<close>

definition sl_dialTarget :: "selector \<Rightarrow> groupError + outbound" where
  "sl_dialTarget s = (case sl_selected s of None \<Rightarrow> Inl ErrNoOutbound | Some out \<Rightarrow> Inr out)"

section \<open>The invariant\<close>

text \<open>What the outbound manager documents: it hands out an outbound under the outbound's tag.\<close>

abbreviation mgr_tagged :: "(tag \<Rightarrow> outbound option) \<Rightarrow> bool" where
  "mgr_tagged mgr \<equiv> \<forall>t out. mgr t = Some out \<longrightarrow> ob_tag out = t"

abbreviation sl_member :: "selector \<Rightarrow> tag \<Rightarrow> bool" where
  "sl_member s t \<equiv> gget (sl_outbounds s) t \<noteq> None"

text \<open>The registered tags are the members.\<close>

definition sl_listed :: "selector \<Rightarrow> bool" where
  "sl_listed s \<longleftrightarrow> (\<forall>t. t \<in> set (sl_tags s) \<longleftrightarrow> gget (sl_outbounds s) t \<noteq> None)"

text \<open>Moreover members are stored under their own tags, and the selection is a member.\<close>

definition own_tags :: "(tag, outbound) gomap \<Rightarrow> bool" where
  "own_tags m \<longleftrightarrow> (\<forall>t. pred_option (\<lambda>out. ob_tag out = t) (gget m t))"

definition is_member :: "(tag, outbound) gomap \<Rightarrow> outbound \<Rightarrow> bool" where
  "is_member m out \<longleftrightarrow> gget m (ob_tag out) = Some out"

definition sl_inv :: "selector \<Rightarrow> bool" where
  "sl_inv s \<longleftrightarrow>
     sl_listed s \<and> own_tags (sl_outbounds s) \<and> pred_option (is_member (sl_outbounds s)) (sl_selected s)"

lemma own_tagsD: "own_tags m \<Longrightarrow> gget m t = Some out \<Longrightarrow> ob_tag out = t"
  unfolding own_tags_def by (drule spec [of _ t]) simp

lemma own_tags_member: "own_tags m \<Longrightarrow> gget m t = Some out \<Longrightarrow> is_member m out"
  using own_tagsD by (fastforce simp: is_member_def)

lemma own_tags_gput: "own_tags m \<Longrightarrow> ob_tag out = t \<Longrightarrow> own_tags (gput t out m)"
  by (simp add: own_tags_def)

lemma own_tags_sub: "own_tags m \<Longrightarrow> (\<And>t. gget m' t = None \<or> gget m' t = gget m t) \<Longrightarrow> own_tags m'"
  unfolding own_tags_def by (metis option.pred_inject(1))

lemma is_member_gput: "is_member m out \<Longrightarrow> t \<noteq> ob_tag out \<Longrightarrow> is_member (gput t out' m) out"
  by (simp add: is_member_def)

lemma in_gorange_keys: "t \<in> set (gkeys (gorange order m)) \<longleftrightarrow> gget m t \<noteq> None"
  by (simp only: gkeys_gorange) (metis gget_None_iff)

lemma sl_selectOutbound_inv:
  assumes "sl_inv s"
  shows "sl_inv (snd (sl_selectOutbound storeOk t s))"
proof (cases "gget (sl_outbounds s) t")
  case (Some out)
  then have "is_member (sl_outbounds s) out" using assms own_tags_member by (auto simp: sl_inv_def)
  with assms Some show ?thesis
    by (simp add: sl_selectOutbound_def sl_inv_def sl_listed_def Let_def split: option.split)
qed (use assms in \<open>simp add: sl_selectOutbound_def\<close>)

lemma sl_selectOutbound_members [simp]:
  "sl_outbounds (snd (sl_selectOutbound storeOk t s)) = sl_outbounds s"
  "sl_tags (snd (sl_selectOutbound storeOk t s)) = sl_tags s"
  by (simp_all add: sl_selectOutbound_def Let_def split: option.split)

lemma sl_selectOutbound_selects:
  "gget (sl_outbounds s) t = Some out \<Longrightarrow> sl_selected (snd (sl_selectOutbound storeOk t s)) = Some out"
  by (simp add: sl_selectOutbound_def Let_def split: option.split)

lemma sl_addTag_inv:
  assumes "mgr_tagged mgr" and "sl_inv (snd (snd acc))"
  shows "sl_inv (snd (snd (sl_addTag mgr t acc)))"
proof -
  obtain missing n s where acc: "acc = (missing, n, s)" by (cases acc rule: prod_cases3)
  show ?thesis
  proof (cases "gget (sl_outbounds s) t = None \<and> mgr t \<noteq> None")
    case True
    then obtain out where out: "mgr t = Some out" "gget (sl_outbounds s) t = None" by blast
    then have "ob_tag out = t" using assms(1) by blast
    moreover have "is_member (sl_outbounds s) c \<Longrightarrow> t \<noteq> ob_tag c" for c
      using out(2) by (auto simp: is_member_def)
    ultimately show ?thesis
      using out assms(2)
      by (auto simp: acc sl_addTag_def sl_inv_def sl_listed_def own_tags_gput
          intro: is_member_gput option.pred_mono_strong)
  next
    case False
    with assms(2) show ?thesis by (cases "mgr t") (auto simp: acc sl_addTag_def)
  qed
qed

lemma sl_replaceTag_inv:
  assumes "mgr_tagged mgr" and "sl_inv (snd (snd acc))"
  shows "sl_inv (snd (snd (sl_replaceTag mgr t acc)))"
proof -
  obtain missing n s where acc: "acc = (missing, n, s)" by (cases acc rule: prod_cases3)
  show ?thesis
  proof (cases "gget (sl_outbounds s) t = None \<or> mgr t = None \<or> mgr t = gget (sl_outbounds s) t")
    case True
    with assms(2) show ?thesis
      by (cases "mgr t"; cases "gget (sl_outbounds s) t") (simp_all add: acc sl_replaceTag_def)
  next
    case False
    then obtain old out where out: "gget (sl_outbounds s) t = Some old" "mgr t = Some out" "out \<noteq> old" by auto
    have inv: "sl_inv s" using assms(2) by (simp add: acc)
    have "ob_tag out = t" using assms(1) out(2) by blast
    then have own: "own_tags (gput t out (sl_outbounds s))" "is_member (gput t out (sl_outbounds s)) out"
      using inv by (simp_all add: sl_inv_def own_tags_gput is_member_def)
    have "is_member (gput t out (sl_outbounds s)) c" if "is_member (sl_outbounds s) c" "c \<noteq> old" for c
      using that out(1) by (auto simp: is_member_def)
    then have "pred_option (is_member (gput t out (sl_outbounds s)))
        (if sl_selected s = Some old then Some out else sl_selected s)"
      using inv own(2) by (cases "sl_selected s") (auto simp: sl_inv_def)
    with own(1) out inv show ?thesis
      by (auto simp: acc sl_replaceTag_def sl_inv_def sl_listed_def)
  qed
qed

lemma sl_removeTag_outbounds:
  "gget (sl_outbounds (snd (sl_removeTag t (n, s)))) = (gget (sl_outbounds s))(t := None)"
  "sl_selected (snd (sl_removeTag t (n, s))) = sl_selected s"
  "sl_interrupts (snd (sl_removeTag t (n, s))) = sl_interrupts s"
  "fst (sl_removeTag t (n, s)) = n + (if sl_member s t then 1 else 0)"
  by (auto simp: sl_removeTag_def)

lemma fold_sl_removeTag:
  "let (n', s') = fold sl_removeTag tags (n, s) in
   (\<forall>t. gget (sl_outbounds s') t = (if t \<in> set tags then None else gget (sl_outbounds s) t)) \<and>
   sl_selected s' = sl_selected s \<and> n' = n + int (card {t \<in> set tags. sl_member s t})"
proof (induction tags arbitrary: n s)
  case (Cons t tags)
  obtain m u where step: "sl_removeTag t (n, s) = (m, u)" by force
  have u: "gget (sl_outbounds u) = (gget (sl_outbounds s))(t := None)" "sl_selected u = sl_selected s"
    "m = n + (if sl_member s t then 1 else 0)"
    using sl_removeTag_outbounds [where t = t and n = n and s = s] by (simp_all add: step)
  have "{x \<in> set (t # tags). sl_member s x} =
      {x \<in> set tags. sl_member u x} \<union> (if sl_member s t then {t} else {})"
    by (auto simp: u)
  moreover have "t \<notin> {x \<in> set tags. sl_member u x}" by (simp add: u)
  ultimately have "int (card {x \<in> set (t # tags). sl_member s x}) =
      int (card {x \<in> set tags. sl_member u x}) + (if sl_member s t then 1 else 0)"
    by (cases "sl_member s t") simp_all
  then show ?case
    using Cons [of m u] u(2,3) unfolding fold_simps comp_apply step
    by (cases "fold sl_removeTag tags (m, u)") (simp add: u(1))
qed simp

lemma sl_reselect_members [simp]:
  "sl_outbounds (sl_reselect storeOk s) = sl_outbounds s" "sl_tags (sl_reselect storeOk s) = sl_tags s"
  by (simp_all add: sl_reselect_def split: list.split)

lemma sl_reselect_inv:
  assumes "sl_listed s" and "own_tags (sl_outbounds s)"
    and sel: "\<And>out. sl_selected s = Some out \<Longrightarrow> sl_member s (ob_tag out) \<Longrightarrow> is_member (sl_outbounds s) out"
  shows "sl_inv (sl_reselect storeOk s)"
    and "sl_selected (sl_reselect storeOk s) = None \<Longrightarrow> \<not> sl_member s '''' \<Longrightarrow> \<not> sl_member s t"
proof -
  have "sl_inv (sl_reselect storeOk s) \<and>
    (sl_selected (sl_reselect storeOk s) = None \<longrightarrow> \<not> sl_member s '''' \<longrightarrow> \<not> sl_member s t)"
  proof (cases "sl_member s (sl_Now s)")
    case True
    then have "sl_reselect storeOk s = s" by (simp add: sl_reselect_def)
    with True assms(1,2) sel show ?thesis
      by (cases "sl_selected s") (simp_all add: sl_inv_def sl_Now_def)
  next
    case False
    show ?thesis
    proof (cases "sl_tags s")
      case Nil
      with False assms show ?thesis by (simp add: sl_reselect_def sl_inv_def sl_listed_def)
    next
      case (Cons u us)
      then have "sl_member s u" using assms(1) by (metis list.set_intros(1) sl_listed_def)
      then obtain out where out: "gget (sl_outbounds s) u = Some out" by blast
      with assms(2) have "is_member (sl_outbounds s) out" by (rule own_tags_member)
      moreover have "sl_selected (snd (sl_selectOutbound storeOk u s)) = Some out"
        using out by (rule sl_selectOutbound_selects)
      ultimately show ?thesis using False Cons assms(1,2) by (simp add: sl_reselect_def sl_inv_def sl_listed_def)
    qed
  qed
  then show "sl_inv (sl_reselect storeOk s)"
    and "sl_selected (sl_reselect storeOk s) = None \<Longrightarrow> \<not> sl_member s '''' \<Longrightarrow> \<not> sl_member s t" by blast+
qed

text \<open>\<open>Remove\<close>: what is left, and what is selected.\<close>

lemma sl_Remove_effect:
  assumes "sl_listed s"
  shows "let ((n, err), s') = sl_Remove order storeOk tags s in
    n = int (card {t \<in> set tags. sl_member s t}) \<and> err = None \<and> sl_listed s' \<and>
    (\<forall>t. gget (sl_outbounds s') t = (if t \<in> set tags then None else gget (sl_outbounds s) t))"
proof (cases "sl_tags s = []")
  case True
  with assms have "gget (sl_outbounds s) t = None" for t by (simp add: sl_listed_def)
  with True assms show ?thesis by (simp add: sl_Remove_def)
next
  case False
  obtain n u where f: "fold sl_removeTag tags (0, s) = (n, u)" by force
  with fold_sl_removeTag [of tags 0 s] show ?thesis
    by (simp add: sl_Remove_def False sl_listed_def in_gorange_keys del: set_map gkeys_gorange)
qed

lemma sl_Remove_inv:
  assumes "sl_inv s"
  shows "sl_inv (snd (sl_Remove order storeOk tags s))"
proof (cases "sl_tags s = []")
  case True
  with assms show ?thesis by (simp add: sl_Remove_def)
next
  case False
  obtain n u where f: "fold sl_removeTag tags (0, s) = (n, u)" by force
  let ?u = "u\<lparr>sl_tags := gkeys (gorange order (sl_outbounds u))\<rparr>"
  have u: "gget (sl_outbounds u) t = (if t \<in> set tags then None else gget (sl_outbounds s) t)"
    "sl_selected u = sl_selected s" for t
    using fold_sl_removeTag [of tags 0 s] by (simp_all add: f)
  have "own_tags (sl_outbounds u)"
    using assms by (simp add: sl_inv_def own_tags_sub [of "sl_outbounds s"] u)
  moreover have "is_member (sl_outbounds u) out" if "sl_selected u = Some out" "sl_member u (ob_tag out)" for out
    using that assms by (auto simp: sl_inv_def is_member_def u split: if_splits)
  ultimately have "sl_inv (sl_reselect storeOk ?u)"
    by (intro sl_reselect_inv) (simp_all add: sl_listed_def in_gorange_keys del: set_map gkeys_gorange)
  then show ?thesis by (simp add: sl_Remove_def f False)
qed

section \<open>The group contract\<close>

definition sl_Add1 :: "(tag \<Rightarrow> outbound option) \<Rightarrow> tag \<Rightarrow> selector \<Rightarrow> (int \<times> groupError option) \<times> selector" where
  "sl_Add1 mgr t s = sl_Add mgr [t] s"

definition sl_Remove1 ::
  "((tag, outbound) gomap \<Rightarrow> (tag, outbound) gomap) \<Rightarrow> bool \<Rightarrow> tag \<Rightarrow> selector \<Rightarrow> (int \<times> groupError option) \<times> selector" where
  "sl_Remove1 order storeOk t s = sl_Remove order storeOk [t] s"

lemma sl_Add1_eq:
  "sl_Add1 mgr t s =
     (if sl_member s t then ((0, None), s)
      else case mgr t of
        None \<Rightarrow> ((0, Some (ErrOutboundsNotFound [t])), s)
      | Some out \<Rightarrow> ((1, None), s\<lparr>sl_outbounds := gput t out (sl_outbounds s), sl_tags := sl_tags s @ [t]\<rparr>))"
  by (simp add: sl_Add1_def sl_Add_def sl_result_def sl_addTag_def split: option.split)

lemma sl_Remove1_effect:
  assumes "sl_listed s"
  shows "fst (sl_Remove1 order storeOk t s) = (if sl_member s t then 1 else 0, None)"
    and "sl_listed (snd (sl_Remove1 order storeOk t s))"
    and "gget (sl_outbounds (snd (sl_Remove1 order storeOk t s))) = (gget (sl_outbounds s))(t := None)"
  using sl_Remove_effect [OF assms, of order storeOk "[t]"]
  unfolding sl_Remove1_def singleton_set Let_def case_prod_unfold
  by (auto simp: prod_eq_iff fun_eq_iff split: if_splits)

lemma sl_listed_put:
  "sl_listed s \<Longrightarrow> sl_listed (s\<lparr>sl_outbounds := gput t out (sl_outbounds s), sl_tags := sl_tags s @ [t]\<rparr>)"
  by (auto simp: sl_listed_def)

interpretation selector: mutable_group sl_Add1 "sl_Remove1 order storeOk" sl_member "\<lambda>_. True" sl_listed
  for order storeOk
  by unfold_locales
    (simp_all add: sl_Add1_eq sl_Remove1_effect sl_listed_put fun_eq_iff split: option.split)

section \<open>Guarantees\<close>

lemma sl_resolve_ok:
  "sl_resolve mgr ts s = (None, s') \<Longrightarrow>
   (\<forall>t \<in> set ts. mgr t \<noteq> None) \<and> sl_tags s' = sl_tags s \<and> sl_cache s' = sl_cache s \<and>
   (\<forall>t. gget (sl_outbounds s') t = (if t \<in> set ts then mgr t else gget (sl_outbounds s) t))"
proof (induction ts arbitrary: s)
  case (Cons t ts)
  then obtain out where out: "mgr t = Some out" by (cases "mgr t") auto
  with Cons.IH [of "s\<lparr>sl_outbounds := gput t out (sl_outbounds s)\<rparr>"] Cons.prems show ?case
    by (auto split: if_splits)
qed simp

lemma sl_Start_inv:
  assumes "mgr_tagged mgr" and "sl_Start mgr (NewMutableSelector opts cache) = (None, s)"
  shows "sl_inv s \<and> (opts \<noteq> [] \<longrightarrow> sl_selected s \<noteq> None)"
proof (cases opts)
  case Nil
  with assms(2) show ?thesis
    by (auto simp: sl_Start_def NewMutableSelector_def sl_inv_def sl_listed_def own_tags_def)
next
  case (Cons first rest)
  let ?new = "NewMutableSelector opts cache"
  obtain err u where r: "sl_resolve mgr opts ?new = (err, u)" by force
  with assms(2) Cons have "err = None"
    by (cases err) (auto simp: sl_Start_def NewMutableSelector_def)
  with r sl_resolve_ok [of mgr opts ?new u]
  have u: "\<forall>t \<in> set opts. mgr t \<noteq> None" "sl_tags u = opts" "sl_cache u = cache"
    "\<And>t. gget (sl_outbounds u) t = (if t \<in> set opts then mgr t else None)"
    by (auto simp: NewMutableSelector_def)
  then have listed: "sl_listed u" "own_tags (sl_outbounds u)" "sl_member u first"
    using u(1) assms(1) Cons by (auto simp: sl_listed_def own_tags_def u(2,4) option.pred_set)
  have "\<exists>t out. gget (sl_outbounds u) t = Some out \<and> s = u\<lparr>sl_selected := Some out\<rparr>"
    using assms(2) r \<open>err = None\<close> Cons listed(3)
    by (simp add: sl_Start_def NewMutableSelector_def split: option.splits if_splits) blast+
  then obtain t out where "gget (sl_outbounds u) t = Some out" "s = u\<lparr>sl_selected := Some out\<rparr>" by blast
  with listed own_tags_member [OF listed(2)] show ?thesis by (auto simp: sl_inv_def sl_listed_def)
qed

lemma sl_Add_inv:
  assumes "mgr_tagged mgr" and "sl_inv s"
  shows "sl_inv (snd (sl_Add mgr tags s))"
  using fold_invariant [where P = "\<lambda>acc. sl_inv (snd (snd acc))" and Q = "\<lambda>_. True" and xs = tags
      and f = "sl_addTag mgr" and s = "([], 0, s)"] sl_addTag_inv [OF assms(1)] assms(2)
  by (simp add: sl_Add_def sl_result_def case_prod_unfold)

lemma sl_Replace_inv:
  assumes "mgr_tagged mgr" and "sl_inv s"
  shows "sl_inv (snd (sl_Replace mgr tags s))"
  using fold_invariant [where P = "\<lambda>acc. sl_inv (snd (snd acc))" and Q = "\<lambda>_. True" and xs = tags
      and f = "sl_replaceTag mgr" and s = "([], 0, s)"] sl_replaceTag_inv [OF assms(1)] assms(2)
  by (simp add: sl_Replace_def sl_result_def case_prod_unfold)

text \<open>The operations in any order, each with what the outbound manager then holds.\<close>

inductive sl_step :: "selector \<Rightarrow> selector \<Rightarrow> bool" where
  sl_select: "sl_step s (snd (sl_selectOutbound storeOk t s))"
| sl_add: "mgr_tagged mgr \<Longrightarrow> sl_step s (snd (sl_Add mgr tags s))"
| sl_replace: "mgr_tagged mgr \<Longrightarrow> sl_step s (snd (sl_Replace mgr tags s))"
| sl_remove: "sl_step s (snd (sl_Remove order storeOk tags s))"

definition sl_started :: "selector \<Rightarrow> bool" where
  "sl_started s \<longleftrightarrow> (\<exists>mgr opts cache. mgr_tagged mgr \<and> sl_Start mgr (NewMutableSelector opts cache) = (None, s))"

interpretation sl: invariant_system sl_started sl_step sl_inv
proof
  show "sl_started s \<Longrightarrow> sl_inv s" for s using sl_Start_inv by (auto simp: sl_started_def)
  show "sl_inv s \<Longrightarrow> sl_step s t \<Longrightarrow> sl_inv t" for s t
    by (erule sl_step.cases)
      (auto intro: sl_selectOutbound_inv sl_Add_inv sl_Replace_inv sl_Remove_inv)
qed

text \<open>C24: what a dial goes through. Whatever sequence of selections, additions, replacements and
  removals a started selector has seen, its dials go through the selected outbound, which is a
  member under its own tag, is the tag \<open>Now\<close> reports and is listed by \<open>All\<close>; or they fail because
  nothing is selected.\<close>

theorem selector_dials_member:
  assumes "reaches sl_started sl_step s"
  shows "case sl_dialTarget s of
      Inr out \<Rightarrow> gget (sl_outbounds s) (ob_tag out) = Some out \<and> sl_Now s = ob_tag out \<and> sl_Now s \<in> set (sl_All s)
    | Inl err \<Rightarrow> err = ErrNoOutbound \<and> sl_Now s = ''''"
proof -
  have "sl_inv s" using assms by (rule sl.reaches_inv)
  then show ?thesis
    by (cases "sl_selected s")
      (simp_all add: sl_inv_def sl_dialTarget_def sl_Now_def sl_All_def is_member_def sl_listed_def)
qed

definition exampleSelector :: selector where
  "exampleSelector = snd (sl_Start (\<lambda>t. Some (exampleOutbound t)) (NewMutableSelector [''a'', ''bb''] (Some ''bb'')))"

lemma exampleOutbound_tag [simp]: "ob_tag (exampleOutbound t) = t"
  by (simp add: exampleOutbound_def)

lemma exampleSelector_eq:
  "exampleSelector =
     \<lparr>sl_tags = [''a'', ''bb''], sl_outbounds = [(''a'', exampleOutbound ''a''), (''bb'', exampleOutbound ''bb'')],
      sl_selected = Some (exampleOutbound ''bb''), sl_cache = Some ''bb'', sl_interrupts = 0\<rparr>"
  by (simp add: exampleSelector_def sl_Start_def NewMutableSelector_def)

lemma exampleSelector_reaches: "reaches sl_started sl_step exampleSelector"
proof (rule reaches_init)
  have "sl_Start (\<lambda>t. Some (exampleOutbound t)) (NewMutableSelector [''a'', ''bb''] (Some ''bb'')) = (None, exampleSelector)"
    by (simp add: exampleSelector_def sl_Start_def NewMutableSelector_def)
  then show "sl_started exampleSelector"
    unfolding sl_started_def by (intro exI conjI) (auto simp: exampleOutbound_tag)
qed

theorem selector_dials_member_witness:
  "let s = snd (sl_Remove id True [''bb''] exampleSelector) in
   sl_dialTarget s = Inr (exampleOutbound ''a'') \<and> sl_Now s \<in> set (sl_All s)"
proof -
  have "reaches sl_started sl_step (snd (sl_Remove id True [''bb''] exampleSelector))"
    using exampleSelector_reaches by (rule reaches_step) (rule sl_remove)
  moreover have target: "sl_dialTarget (snd (sl_Remove id True [''bb''] exampleSelector)) = Inr (exampleOutbound ''a'')"
    by code_simp
  ultimately show ?thesis using selector_dials_member by (force simp: target Let_def)
qed

lemma sl_replaceTag_effect:
  assumes "sl_replaceTag mgr t (missing, n, s) = (missing', n', s')"
  shows "gget (sl_outbounds s') = (gget (sl_outbounds s))(t := if sl_member s t \<and> mgr t \<noteq> None then mgr t else gget (sl_outbounds s) t)"
    and "sl_tags s' = sl_tags s \<and> sl_cache s' = sl_cache s \<and> sl_interrupts s' = sl_interrupts s"
    and "n' = n + (if sl_member s t \<and> mgr t \<noteq> None then 1 else 0)"
    and "missing' = missing @ (if sl_member s t \<and> mgr t = None then [t] else [])"
  using assms by (auto simp: sl_replaceTag_def split: option.splits if_splits)

lemma sl_replaceTag_Now:
  assumes "mgr_tagged mgr" and "sl_inv s" and "sl_replaceTag mgr t (missing, n, s) = (missing', n', s')"
  shows "sl_Now s' = sl_Now s \<and> (sl_selected s' = None \<longleftrightarrow> sl_selected s = None)"
proof -
  show ?thesis
  proof (cases "gget (sl_outbounds s) t = None \<or> mgr t = None")
    case True
    with assms(3) show ?thesis
      by (cases "gget (sl_outbounds s) t"; cases "mgr t") (auto simp: sl_replaceTag_def)
  next
    case False
    then obtain old out where out: "gget (sl_outbounds s) t = Some old" "mgr t = Some out" by auto
    then have "ob_tag out = ob_tag old"
      using assms(1,2) own_tagsD [of "sl_outbounds s" t old] by (simp add: sl_inv_def)
    with out assms(3) show ?thesis
      by (cases "sl_selected s = Some old") (auto simp: sl_replaceTag_def sl_Now_def split: if_splits)
  qed
qed

lemma fold_sl_replaceTag:
  assumes "mgr_tagged mgr" and "sl_inv s" and "fold (sl_replaceTag mgr) tags (missing, n, s) = (missing', n', s')"
  shows "(\<forall>t. gget (sl_outbounds s') t =
            (if t \<in> set tags \<and> sl_member s t \<and> mgr t \<noteq> None then mgr t else gget (sl_outbounds s) t)) \<and>
    sl_tags s' = sl_tags s \<and> sl_cache s' = sl_cache s \<and> sl_interrupts s' = sl_interrupts s \<and>
    sl_Now s' = sl_Now s \<and> (sl_selected s' = None \<longleftrightarrow> sl_selected s = None) \<and>
    n' = n + int (length (filter (\<lambda>t. sl_member s t \<and> mgr t \<noteq> None) tags)) \<and>
    missing' = missing @ filter (\<lambda>t. sl_member s t \<and> mgr t = None) tags"
  using assms(2,3)
proof (induction tags arbitrary: missing n s)
  case (Cons t tags)
  obtain m1 n1 s1 where step: "sl_replaceTag mgr t (missing, n, s) = (m1, n1, s1)" by (metis prod_cases3)
  note eff = sl_replaceTag_effect [OF step] and now = sl_replaceTag_Now [OF assms(1) Cons.prems(1) step]
  have inv: "sl_inv s1" using sl_replaceTag_inv [OF assms(1), of "(missing, n, s)" t] Cons.prems(1) step by simp
  have fold: "fold (sl_replaceTag mgr) tags (m1, n1, s1) = (missing', n', s')" using Cons.prems(2) step by simp
  have mem: "sl_member s1 u = sl_member s u" for u by (auto simp: eff(1))
  show ?case
    using Cons.IH [OF inv fold] now eff(2,3,4) unfolding mem by (auto simp: eff(1))
qed simp

text \<open>Replacing members in place. \<open>Replace\<close> changes neither which tags are members nor their
  order, nor the selected tag, nor the stored selection, and interrupts no connection; exactly the
  given members the outbound manager knows now have the manager's outbound, and a dial goes through
  the new outbound of the selected tag. The result counts the given members it knows, and there is
  an error if and only if some given member is unknown.\<close>

lemma selector_replace_in_place:
  assumes "reaches sl_started sl_step s" and "mgr_tagged mgr"
  shows "let ((n, err), s') = sl_Replace mgr tags s in
    sl_All s' = sl_All s \<and> sl_Now s' = sl_Now s \<and> sl_cache s' = sl_cache s \<and> sl_interrupts s' = sl_interrupts s \<and>
    (\<forall>t. gget (sl_outbounds s') t =
       (if t \<in> set tags \<and> sl_member s t \<and> mgr t \<noteq> None then mgr t else gget (sl_outbounds s) t)) \<and>
    sl_dialTarget s' = (case sl_selected s of None \<Rightarrow> Inl ErrNoOutbound
                        | Some out \<Rightarrow> Inr (the (gget (sl_outbounds s') (ob_tag out)))) \<and>
    n = int (length (filter (\<lambda>t. sl_member s t \<and> mgr t \<noteq> None) tags)) \<and>
    (err = None \<longleftrightarrow> (\<forall>t \<in> set tags. sl_member s t \<longrightarrow> mgr t \<noteq> None))"
proof -
  have inv: "sl_inv s" using assms(1) by (rule sl.reaches_inv)
  obtain missing n s' where f: "fold (sl_replaceTag mgr) tags ([], 0, s) = (missing, n, s')" by (metis prod_cases3)
  note eff = fold_sl_replaceTag [OF assms(2) inv f]
  have rep: "sl_Replace mgr tags s = ((n, if missing = [] then None else Some (ErrOutboundsNotFound missing)), s')"
    by (simp add: sl_Replace_def f sl_result_def)
  have "sl_inv s'" using sl_Replace_inv [OF assms(2) inv, of tags] rep by simp
  then have "sl_dialTarget s' = (case sl_selected s of None \<Rightarrow> Inl ErrNoOutbound
      | Some out \<Rightarrow> Inr (the (gget (sl_outbounds s') (ob_tag out))))"
    using eff by (auto simp: sl_inv_def sl_dialTarget_def sl_Now_def is_member_def split: option.splits)
  moreover have "missing = [] \<longleftrightarrow> (\<forall>t \<in> set tags. sl_member s t \<longrightarrow> mgr t \<noteq> None)"
    using eff by (auto simp: filter_empty_conv)
  ultimately show ?thesis using eff by (simp add: rep sl_All_def)
qed

end
