(* ===== verification/Url_Test.thy ===== *)
theory Url_Test
  imports Mutable_Selector
begin

text \<open>
  The latency-tested group (\<open>protocol/group/mutableurltest.go\<close>). The URL-test history storage is
  sing-box's: the model keeps its content, a map from tags to the latest result. Whether an outbound
  is itself a group, and which tag that group has selected, is an argument \<open>nest\<close>; \<open>order\<close> gives the
  orders in which the loops visit the members. A URL test is the sections around its probes: planning,
  one section per result, and the final selection; the probes themselves are the environment.
\<close>

section \<open>State\<close>

record urlTestHistory =
  uh_Time :: time
  uh_Delay :: u16

text \<open>\<open>ut_pauseC\<close> is \<open>None\<close> for the nil channel and otherwise whether the one-slot channel holds a
  value; \<open>ut_idleTimer\<close> is when the idle timer fires.\<close>

record urlTestGroup =
  ut_closed :: bool
  ut_tags :: "tag list"
  ut_outbounds :: "(tag, outbound) gomap"
  ut_url :: string
  ut_urlOverrides :: "(tag, string) gomap"
  ut_interval :: duration
  ut_tolerance :: u16
  ut_idleTimeout :: duration
  ut_history :: "(tag, urlTestHistory) gomap"
  ut_selectedTCP :: "outbound option"
  ut_selectedUDP :: "outbound option"
  ut_checking :: bool
  ut_awaitingProbe :: "(tag, outbound) gomap"
  ut_started :: bool
  ut_isAlive :: bool
  ut_idleTimer :: "time option"
  ut_lastActive :: time
  ut_pauseC :: "bool option"

type_synonym nesting = "outbound \<Rightarrow> tag option"
type_synonym orders = "nat \<Rightarrow> (tag, outbound) gomap \<Rightarrow> (tag, outbound) gomap"

datatype urlTestError =
    ErrIntervalTooLong
  | ErrUnsupportedNetwork string
  | ErrRecoveryInProgress
  | ErrMissingSupported
  | ErrAllOutboundsFailed
  | ErrContext

definition newURLTestGroup ::
  "(tag, urlTestHistory) gomap \<Rightarrow> tag list \<Rightarrow> string \<Rightarrow> (tag, string) gomap \<Rightarrow> duration \<Rightarrow> duration \<Rightarrow> u16 \<Rightarrow> urlTestGroup" where
  "newURLTestGroup history tags link urlOverrides interval idleTimeout tolerance =
     \<lparr>ut_closed = False, ut_tags = tags, ut_outbounds = [], ut_url = link, ut_urlOverrides = urlOverrides,
      ut_interval = interval, ut_tolerance = tolerance, ut_idleTimeout = idleTimeout, ut_history = history,
      ut_selectedTCP = None, ut_selectedUDP = None, ut_checking = False, ut_awaitingProbe = [],
      ut_started = False, ut_isAlive = False, ut_idleTimer = None, ut_lastActive = 0, ut_pauseC = None\<rparr>"

text \<open>\<open>defInterval\<close> and \<open>defIdle\<close> are sing-box's \<open>DefaultURLTestInterval\<close> and
  \<open>DefaultURLTestIdleTimeout\<close>.\<close>

definition NewMutableURLTest ::
  "duration \<Rightarrow> duration \<Rightarrow> (tag, urlTestHistory) gomap \<Rightarrow> tag list \<Rightarrow> string \<Rightarrow> (tag, string) gomap \<Rightarrow>
   duration \<Rightarrow> duration \<Rightarrow> u16 \<Rightarrow> urlTestError + urlTestGroup" where
  "NewMutableURLTest defInterval defIdle history tags link urlOverrides optInterval optIdle optTolerance =
     (let interval = or_default defInterval optInterval; idleTimeout = or_default defIdle optIdle in
      if interval > idleTimeout then Inl ErrIntervalTooLong
      else Inr (newURLTestGroup history tags link urlOverrides interval idleTimeout (or_default 50 optTolerance)))"

definition ut_isClosed :: "urlTestGroup \<Rightarrow> bool" where
  "ut_isClosed g = ut_closed g"

definition ut_Now :: "urlTestGroup \<Rightarrow> tag" where
  "ut_Now g =
     (case ut_selectedTCP g of
        Some out \<Rightarrow> ob_tag out
      | None \<Rightarrow> (case ut_selectedUDP g of Some out \<Rightarrow> ob_tag out | None \<Rightarrow> ''''))"

definition ut_All :: "urlTestGroup \<Rightarrow> tag list" where
  "ut_All g = ut_tags g"

definition hasMembers :: "urlTestGroup \<Rightarrow> bool" where
  "hasMembers g \<longleftrightarrow> ut_tags g \<noteq> []"

definition testURLForTagLocked :: "tag \<Rightarrow> urlTestGroup \<Rightarrow> string" where
  "testURLForTagLocked tag g =
     (case gget (ut_urlOverrides g) tag of Some override \<Rightarrow> override | None \<Rightarrow> ut_url g)"

definition realTag :: "nesting \<Rightarrow> outbound \<Rightarrow> tag" where
  "realTag nest out = (case nest out of Some now \<Rightarrow> now | None \<Rightarrow> ob_tag out)"

definition isAwaitingProbe :: "outbound \<Rightarrow> urlTestGroup \<Rightarrow> bool" where
  "isAwaitingProbe out g \<longleftrightarrow> gget (ut_awaitingProbe g) (ob_tag out) = Some out"

section \<open>Selection\<close>

definition ut_candidate :: "nesting \<Rightarrow> string \<Rightarrow> tag list \<Rightarrow> outbound \<Rightarrow> bool" where
  "ut_candidate nest network excluded out \<longleftrightarrow>
     network \<in> set (ob_network out) \<and> realTag nest out \<noteq> '''' \<and> realTag nest out \<notin> set excluded"

text \<open>The loop over the members with a result. The sum of delay and tolerance is 16 bits wide, and a
  delay of 0 is taken for none.\<close>

fun ut_scan ::
  "nesting \<Rightarrow> string \<Rightarrow> tag list \<Rightarrow> urlTestGroup \<Rightarrow> outbound list \<Rightarrow> u16 \<times> outbound option \<Rightarrow> u16 \<times> outbound option" where
  "ut_scan nest network excluded g [] acc = acc"
| "ut_scan nest network excluded g (out # outs) (minDelay, minOutbound) =
     ut_scan nest network excluded g outs
       (if \<not> ut_candidate nest network excluded out then (minDelay, minOutbound)
        else case gget (ut_history g) (realTag nest out) of
          None \<Rightarrow> (minDelay, minOutbound)
        | Some history \<Rightarrow>
            if minDelay = 0 \<or> minDelay > uh_Delay history + ut_tolerance g
            then (uh_Delay history, Some out) else (minDelay, minOutbound))"

definition pickBestOutbound ::
  "nesting \<Rightarrow> orders \<Rightarrow> string \<Rightarrow> outbound option \<Rightarrow> tag list \<Rightarrow> urlTestGroup \<Rightarrow> outbound option" where
  "pickBestOutbound nest order network current excluded g =
     (let search = (\<lambda>acc.
            case snd (ut_scan nest network excluded g (map snd (gorange (order 0) (ut_outbounds g))) acc) of
              Some minOutbound \<Rightarrow> Some minOutbound
            | None \<Rightarrow> find (\<lambda>out. Some out \<noteq> current \<and> ut_candidate nest network excluded out)
                         (map snd (gorange (order 1) (ut_outbounds g)))) in
      case current of
        None \<Rightarrow> search (0, None)
      | Some cur \<Rightarrow>
          if realTag nest cur \<notin> set excluded \<and> network \<in> set (ob_network cur)
          then (case gget (ut_history g) (realTag nest cur) of
                  Some history \<Rightarrow> search (uh_Delay history, Some cur)
                | None \<Rightarrow> if isAwaitingProbe cur g then Some cur else search (0, None))
          else search (0, None))"

definition updateSelectedLocked :: "nesting \<Rightarrow> orders \<Rightarrow> urlTestGroup \<Rightarrow> urlTestGroup" where
  "updateSelectedLocked nest order g =
     (if ut_tags g = [] then g\<lparr>ut_selectedTCP := None, ut_selectedUDP := None\<rparr>
      else
        let g = g\<lparr>ut_selectedTCP := pickBestOutbound nest order ''tcp'' (ut_selectedTCP g) [] g\<rparr> in
        g\<lparr>ut_selectedUDP := pickBestOutbound nest (\<lambda>i. order (i + 2)) ''udp'' (ut_selectedUDP g) [] g\<rparr>)"

section \<open>Life cycle and membership\<close>

fun ut_resolve ::
  "(tag \<Rightarrow> outbound option) \<Rightarrow> tag list \<Rightarrow> urlTestGroup \<Rightarrow> groupError option \<times> urlTestGroup" where
  "ut_resolve mgr [] g = (None, g)"
| "ut_resolve mgr (tag # tags) g =
     (case mgr tag of
        None \<Rightarrow> (Some (ErrOutboundNotFound tag), g\<lparr>ut_outbounds := []\<rparr>)
      | Some out \<Rightarrow> ut_resolve mgr tags (g\<lparr>ut_outbounds := gput tag out (ut_outbounds g)\<rparr>))"

definition ut_Start ::
  "nesting \<Rightarrow> orders \<Rightarrow> (tag \<Rightarrow> outbound option) \<Rightarrow> urlTestGroup \<Rightarrow> groupError option \<times> urlTestGroup" where
  "ut_Start nest order mgr g =
     (if ut_tags g = [] then (None, g)
      else case ut_resolve mgr (ut_tags g) g of
        (Some err, g) \<Rightarrow> (Some err, g)
      | (None, g) \<Rightarrow> (None, updateSelectedLocked nest order g))"

text \<open>\<open>PostStart\<close> also starts a forced test.\<close>

definition ut_PostStart :: "time \<Rightarrow> urlTestGroup \<Rightarrow> urlTestGroup" where
  "ut_PostStart now g = g\<lparr>ut_started := True, ut_lastActive := now\<rparr>"

text \<open>\<open>Close\<close> cancels the context and closes the channel, which then always can be received from.\<close>

definition ut_Close :: "urlTestGroup \<Rightarrow> urlTestGroup" where
  "ut_Close g =
     (if ut_isClosed g then g
      else g\<lparr>ut_closed := True, ut_pauseC := map_option (\<lambda>_. True) (ut_pauseC g)\<rparr>)"

definition ut_addTag ::
  "(tag \<Rightarrow> outbound option) \<Rightarrow> tag \<Rightarrow> tag list \<times> int \<times> urlTestGroup \<Rightarrow> tag list \<times> int \<times> urlTestGroup" where
  "ut_addTag mgr tag = (\<lambda>(missing, n, g).
     if gget (ut_outbounds g) tag \<noteq> None then (missing, n, g)
     else case mgr tag of
       None \<Rightarrow> (missing @ [tag], n, g)
     | Some out \<Rightarrow>
         (missing, n + 1, g\<lparr>ut_outbounds := gput tag out (ut_outbounds g), ut_tags := ut_tags g @ [tag]\<rparr>))"

definition ut_result :: "tag list \<times> int \<times> urlTestGroup \<Rightarrow> (int \<times> groupError option) \<times> urlTestGroup" where
  "ut_result = (\<lambda>(missing, n, g). ((n, if missing = [] then None else Some (ErrOutboundsNotFound missing)), g))"

definition ut_Add ::
  "(tag \<Rightarrow> outbound option) \<Rightarrow> tag list \<Rightarrow> urlTestGroup \<Rightarrow> (int \<times> groupError option) \<times> urlTestGroup" where
  "ut_Add mgr tags g =
     (if ut_isClosed g then ((0, Some ErrGroupClosed), g)
      else ut_result (fold (ut_addTag mgr) tags ([], 0, g)))"

definition replaceSelected ::
  "nesting \<Rightarrow> orders \<Rightarrow> string \<Rightarrow> outbound \<Rightarrow> outbound \<Rightarrow> urlTestGroup \<Rightarrow> outbound option \<Rightarrow> outbound option" where
  "replaceSelected nest order network old out g selected =
     (if selected \<noteq> Some old then selected
      else if network \<in> set (ob_network out) then Some out
      else pickBestOutbound nest order network None [] g)"

text \<open>One tag of \<open>Replace\<close>. A probe of the new outbound is started for what is put in
  \<open>awaitingProbe\<close>.\<close>

definition ut_replaceTag ::
  "nesting \<Rightarrow> orders \<Rightarrow> (tag \<Rightarrow> outbound option) \<Rightarrow> tag \<Rightarrow> tag list \<times> int \<times> urlTestGroup \<Rightarrow> tag list \<times> int \<times> urlTestGroup" where
  "ut_replaceTag nest order mgr tag = (\<lambda>(missing, n, g).
     case gget (ut_outbounds g) tag of
       None \<Rightarrow> (missing, n, g)
     | Some old \<Rightarrow>
         (case mgr tag of
            None \<Rightarrow> (missing @ [tag], n, g)
          | Some out \<Rightarrow>
              if out = old then (missing, n + 1, g)
              else
                let g = g\<lparr>ut_outbounds := gput tag out (ut_outbounds g), ut_history := gdel tag (ut_history g),
                          ut_awaitingProbe := gdel tag (ut_awaitingProbe g)\<rparr>;
                    g = (if nest out = None \<and> ut_started g
                         then g\<lparr>ut_awaitingProbe := gput tag out (ut_awaitingProbe g)\<rparr> else g);
                    g = g\<lparr>ut_selectedTCP := replaceSelected nest order ''tcp'' old out g (ut_selectedTCP g)\<rparr>;
                    g = g\<lparr>ut_selectedUDP :=
                            replaceSelected nest (\<lambda>i. order (i + 2)) ''udp'' old out g (ut_selectedUDP g)\<rparr> in
                (missing, n + 1, g)))"

definition ut_Replace ::
  "nesting \<Rightarrow> orders \<Rightarrow> (tag \<Rightarrow> outbound option) \<Rightarrow> tag list \<Rightarrow> urlTestGroup \<Rightarrow> (int \<times> groupError option) \<times> urlTestGroup" where
  "ut_Replace nest order mgr tags g =
     (if ut_isClosed g then ((0, Some ErrGroupClosed), g)
      else ut_result (fold (ut_replaceTag nest order mgr) tags ([], 0, g)))"

definition ut_overrideURL :: "tag \<times> string \<Rightarrow> urlTestGroup \<Rightarrow> urlTestGroup" where
  "ut_overrideURL = (\<lambda>(tag, u) g.
     if gget (ut_urlOverrides g) tag = Some u then g
     else g\<lparr>ut_urlOverrides := gput tag u (ut_urlOverrides g), ut_history := gdel tag (ut_history g)\<rparr>)"

definition ut_SetURLOverrides :: "(tag, string) gomap \<Rightarrow> urlTestGroup \<Rightarrow> urlTestGroup" where
  "ut_SetURLOverrides overrides g = fold ut_overrideURL overrides g"

definition ut_removeTag :: "tag \<Rightarrow> int \<times> urlTestGroup \<Rightarrow> int \<times> urlTestGroup" where
  "ut_removeTag tag = (\<lambda>(n, g).
     if gget (ut_outbounds g) tag = None then (n, g)
     else (n + 1,
           g\<lparr>ut_outbounds := gdel tag (ut_outbounds g), ut_urlOverrides := gdel tag (ut_urlOverrides g),
             ut_history := gdel tag (ut_history g), ut_awaitingProbe := gdel tag (ut_awaitingProbe g)\<rparr>))"

text \<open>\<open>iter\<close> is the order in which the remaining tags are collected.\<close>

definition ut_Remove ::
  "nesting \<Rightarrow> orders \<Rightarrow> ((tag, outbound) gomap \<Rightarrow> (tag, outbound) gomap) \<Rightarrow> tag list \<Rightarrow> urlTestGroup \<Rightarrow>
   (int \<times> groupError option) \<times> urlTestGroup" where
  "ut_Remove nest order iter tags g =
     (if ut_isClosed g then ((0, Some ErrGroupClosed), g)
      else if ut_tags g = [] then ((0, None), g)
      else
        let (n, g) = fold ut_removeTag tags (0, g);
            g = g\<lparr>ut_tags := gkeys (gorange iter (ut_outbounds g))\<rparr>;
            g = (if ut_tags g = [] \<and> ut_isAlive g
                 then g\<lparr>ut_pauseC := map_option (\<lambda>_. True) (ut_pauseC g)\<rparr> else g) in
        ((n, None), updateSelectedLocked nest order g))"

section \<open>Background checks\<close>

text \<open>\<open>keepAlive\<close>: whether it starts the check loop.\<close>

definition keepAlive :: "time \<Rightarrow> urlTestGroup \<Rightarrow> bool \<times> urlTestGroup" where
  "keepAlive now g =
     (if \<not> ut_started g \<or> ut_tags g = [] then (False, g)
      else if ut_isAlive g
      then (False, g\<lparr>ut_lastActive := now, ut_idleTimer := Some (now + ut_idleTimeout g)\<rparr>)
      else (True, g\<lparr>ut_isAlive := True, ut_idleTimer := Some (now + ut_idleTimeout g), ut_pauseC := Some False\<rparr>))"

text \<open>\<open>onInterfaceUpdated\<close>: whether it starts the check loop, and whether it starts a forced test.\<close>

definition onInterfaceUpdated :: "time \<Rightarrow> urlTestGroup \<Rightarrow> (bool \<times> bool) \<times> urlTestGroup" where
  "onInterfaceUpdated now g =
     (if \<not> ut_started g \<or> ut_isClosed g \<or> ut_tags g = [] then ((False, False), g)
      else
        let wasAlive = ut_isAlive g;
            g = g\<lparr>ut_lastActive := now\<rparr>;
            g = (if wasAlive then g\<lparr>ut_idleTimer := Some (now + ut_idleTimeout g)\<rparr> else g);
            (loop, g) = (if \<not> wasAlive then keepAlive now g else (False, g)) in
        ((loop, True), g))"

text \<open>The check loop: what it does first (and whether it runs an unforced test), and its end.\<close>

definition checkLoopStart :: "time \<Rightarrow> urlTestGroup \<Rightarrow> bool \<times> urlTestGroup" where
  "checkLoopStart now g =
     (if now - ut_lastActive g > ut_interval g then (True, g\<lparr>ut_lastActive := now\<rparr>) else (False, g))"

definition checkLoopExit :: "urlTestGroup \<Rightarrow> urlTestGroup" where
  "checkLoopExit g = g\<lparr>ut_idleTimer := None, ut_isAlive := False\<rparr>"

section \<open>URL tests\<close>

record urlTestJob =
  uj_tag :: tag
  uj_member :: outbound
  uj_realTag :: tag
  uj_dialer :: outbound
  uj_baseURL :: string

text \<open>The jobs a test submits. \<open>isURLTest\<close> are the members that are URL-test groups themselves.\<close>

fun ut_plan ::
  "nesting \<Rightarrow> (outbound \<Rightarrow> bool) \<Rightarrow> (tag \<Rightarrow> outbound option) \<Rightarrow> time \<Rightarrow> bool \<Rightarrow> urlTestGroup \<Rightarrow>
   (tag, outbound) gomap \<Rightarrow> tag list \<Rightarrow> urlTestJob list" where
  "ut_plan nest isURLTest mgr now force g [] checked = []"
| "ut_plan nest isURLTest mgr now force g ((tag, out) # rest) checked =
     (let r = realTag nest out in
      if isURLTest out \<or> r = '''' \<or> r \<in> set checked then ut_plan nest isURLTest mgr now force g rest checked
      else if \<not> force \<and> (case gget (ut_history g) r of
                             None \<Rightarrow> False | Some history \<Rightarrow> now - uh_Time history < ut_interval g)
      then ut_plan nest isURLTest mgr now force g rest checked
      else case mgr r of
        None \<Rightarrow> ut_plan nest isURLTest mgr now force g rest (r # checked)
      | Some p \<Rightarrow>
          \<lparr>uj_tag = tag, uj_member = out, uj_realTag = r, uj_dialer = p, uj_baseURL = testURLForTagLocked tag g\<rparr>
          # ut_plan nest isURLTest mgr now force g rest (r # checked))"

text \<open>The beginning of a test: \<open>None\<close> when it returns at once, because another test runs or the
  group is empty.\<close>

definition ut_beginTest ::
  "nesting \<Rightarrow> (outbound \<Rightarrow> bool) \<Rightarrow> (tag \<Rightarrow> outbound option) \<Rightarrow> orders \<Rightarrow> time \<Rightarrow> bool \<Rightarrow> urlTestGroup \<Rightarrow>
   urlTestJob list option \<times> urlTestGroup" where
  "ut_beginTest nest isURLTest mgr order now force g =
     (if ut_checking g then (None, g)
      else if \<not> hasMembers g then (None, g)
      else (Some (ut_plan nest isURLTest mgr now force g (gorange (order 0) (ut_outbounds g)) []),
            g\<lparr>ut_checking := True\<rparr>))"

text \<open>The section that stores a job's result (\<open>None\<close> for an error): what it reports.\<close>

definition ut_jobDone :: "time \<Rightarrow> urlTestJob \<Rightarrow> u16 option \<Rightarrow> urlTestGroup \<Rightarrow> (tag \<times> u16) option \<times> urlTestGroup" where
  "ut_jobDone now job res g =
     (if gget (ut_outbounds g) (uj_tag job) \<noteq> Some (uj_member job) then (None, g)
      else if testURLForTagLocked (uj_tag job) g \<noteq> uj_baseURL job then (None, g)
      else case res of
        None \<Rightarrow> (None, g\<lparr>ut_history := gdel (uj_realTag job) (ut_history g)\<rparr>)
      | Some t \<Rightarrow>
          (Some (uj_tag job, t),
           g\<lparr>ut_history := gput (uj_realTag job) \<lparr>uh_Time = now, uh_Delay = t\<rparr> (ut_history g)\<rparr>))"

definition ut_endTest :: "nesting \<Rightarrow> orders \<Rightarrow> urlTestGroup \<Rightarrow> urlTestGroup" where
  "ut_endTest nest order g = (updateSelectedLocked nest order g)\<lparr>ut_checking := False\<rparr>"

text \<open>A whole test with nothing in between, where \<open>probe job\<close> is the job's result: what it reports.\<close>

definition ut_urlTest ::
  "nesting \<Rightarrow> (outbound \<Rightarrow> bool) \<Rightarrow> (tag \<Rightarrow> outbound option) \<Rightarrow> orders \<Rightarrow> (urlTestJob \<Rightarrow> u16 option) \<Rightarrow> time \<Rightarrow> bool \<Rightarrow>
   urlTestGroup \<Rightarrow> (tag, u16) gomap \<times> urlTestGroup" where
  "ut_urlTest nest isURLTest mgr order probe now force g =
     (case ut_beginTest nest isURLTest mgr order now force g of
        (None, g) \<Rightarrow> ([], g)
      | (Some jobs, g) \<Rightarrow>
          let (result, g) = fold (\<lambda>job (result, g).
                case ut_jobDone now job (probe job) g of
                  (None, g) \<Rightarrow> (result, g)
                | (Some (tag, t), g) \<Rightarrow> (gput tag t result, g)) jobs ([], g) in
          (result, ut_endTest nest order g))"

text \<open>The end of the probe of a replacement: the URL it probes again with, if it does.\<close>

definition probeReplacementDone ::
  "nesting \<Rightarrow> orders \<Rightarrow> time \<Rightarrow> tag \<Rightarrow> outbound \<Rightarrow> string \<Rightarrow> u16 option \<Rightarrow> urlTestGroup \<Rightarrow> string option \<times> urlTestGroup" where
  "probeReplacementDone nest order now tag member testURL res g =
     (if gget (ut_outbounds g) tag \<noteq> Some member then (None, g)
      else if testURLForTagLocked tag g \<noteq> testURL then (Some (testURLForTagLocked tag g), g)
      else
        let g = (if gget (ut_awaitingProbe g) tag = Some member
                 then g\<lparr>ut_awaitingProbe := gdel tag (ut_awaitingProbe g)\<rparr> else g);
            g = (case res of
                   None \<Rightarrow> g\<lparr>ut_history := gdel tag (ut_history g)\<rparr>
                 | Some t \<Rightarrow> g\<lparr>ut_history := gput tag \<lparr>uh_Time = now, uh_Delay = t\<rparr> (ut_history g)\<rparr>) in
        (None, updateSelectedLocked nest order g))"

definition markFailedAndReselect :: "nesting \<Rightarrow> orders \<Rightarrow> outbound \<Rightarrow> urlTestGroup \<Rightarrow> urlTestGroup" where
  "markFailedAndReselect nest order out g =
     (let g = (if isAwaitingProbe out g
               then g\<lparr>ut_awaitingProbe := gdel (ob_tag out) (ut_awaitingProbe g)\<rparr> else g) in
      updateSelectedLocked nest order (g\<lparr>ut_history := gdel (realTag nest out) (ut_history g)\<rparr>))"

section \<open>Dialing\<close>

definition maxOutboundAttempts :: nat where
  "maxOutboundAttempts = 3"

text \<open>The selection for a dial, and whether it starts a forced test for recovery.\<close>

definition ut_selectOutbound ::
  "nesting \<Rightarrow> orders \<Rightarrow> string \<Rightarrow> tag list \<Rightarrow> urlTestGroup \<Rightarrow> (urlTestError + outbound) \<times> bool" where
  "ut_selectOutbound nest order network excluded g =
     (if network \<noteq> ''tcp'' \<and> network \<noteq> ''udp'' then (Inl (ErrUnsupportedNetwork network), False)
      else
        let selected = (if network = ''tcp'' then ut_selectedTCP g else ut_selectedUDP g);
            outbound = (case selected of
                          None \<Rightarrow> None
                        | Some out \<Rightarrow>
                            if realTag nest out = '''' \<or> realTag nest out \<in> set excluded then None else Some out);
            outbound = (case outbound of
                          None \<Rightarrow> pickBestOutbound nest order network None excluded g | Some out \<Rightarrow> Some out);
            recoveryStarted = (outbound = None \<and> excluded = [] \<and> hasMembers g) in
        (case outbound of
           Some out \<Rightarrow> (Inr out, False)
         | None \<Rightarrow> (Inl (if recoveryStarted then ErrRecoveryInProgress else ErrMissingSupported), recoveryStarted)))"

text \<open>The loop of \<open>tryEachOutbound\<close> from attempt \<open>i\<close> on. \<open>dial i out g\<close> says whether the dial succeeds
  and what the rest of the program makes of the group meanwhile, \<open>canceled i\<close> whether the caller's
  context is over after it. The result lists the outbounds it tried.\<close>

fun ut_tries ::
  "(nat \<Rightarrow> nesting) \<Rightarrow> (nat \<Rightarrow> orders) \<Rightarrow> (nat \<Rightarrow> outbound \<Rightarrow> urlTestGroup \<Rightarrow> bool \<times> urlTestGroup) \<Rightarrow> (nat \<Rightarrow> bool) \<Rightarrow>
   string \<Rightarrow> nat \<Rightarrow> nat \<Rightarrow> tag list \<Rightarrow> urlTestGroup \<Rightarrow> (urlTestError + outbound) \<times> outbound list \<times> urlTestGroup" where
  "ut_tries nest order dial canceled network 0 i tried g = (Inl ErrAllOutboundsFailed, [], g)"
| "ut_tries nest order dial canceled network (Suc k) i tried g =
     (case fst (ut_selectOutbound (nest i) (order i) network tried g) of
        Inl err \<Rightarrow>
          (Inl (if err \<noteq> ErrUnsupportedNetwork network \<and> i > 0 then ErrAllOutboundsFailed else err), [], g)
      | Inr out \<Rightarrow>
          let triedTag = realTag (nest i) out; (ok, g) = dial i out g in
          if ok then (Inr out, [out], g)
          else
            let g = markFailedAndReselect (nest i) (order i) out g in
            if canceled i then (Inl ErrContext, [out], g)
            else
              let (r, outs, g) = ut_tries nest order dial canceled network k (i + 1) (triedTag # tried) g in
              (r, out # outs, g))"

definition tryEachOutbound ::
  "(nat \<Rightarrow> nesting) \<Rightarrow> (nat \<Rightarrow> orders) \<Rightarrow> (nat \<Rightarrow> outbound \<Rightarrow> urlTestGroup \<Rightarrow> bool \<times> urlTestGroup) \<Rightarrow> (nat \<Rightarrow> bool) \<Rightarrow>
   time \<Rightarrow> string \<Rightarrow> urlTestGroup \<Rightarrow> (urlTestError + outbound) \<times> outbound list \<times> urlTestGroup" where
  "tryEachOutbound nest order dial canceled now network g =
     ut_tries nest order dial canceled network maxOutboundAttempts 0 [] (snd (keepAlive now g))"

section \<open>The choice is within tolerance of the best\<close>

text \<open>What a member's latest result says of it as a candidate.\<close>

definition ut_measured :: "nesting \<Rightarrow> string \<Rightarrow> tag list \<Rightarrow> urlTestGroup \<Rightarrow> outbound \<Rightarrow> u16 \<Rightarrow> bool" where
  "ut_measured nest network excluded g out d \<longleftrightarrow>
     ut_candidate nest network excluded out \<and> map_option uh_Delay (gget (ut_history g) (realTag nest out)) = Some d"

text \<open>A delay that is not taken for none, and to which the tolerance can be added in 16 bits.\<close>

definition delay_in_range :: "u16 \<Rightarrow> u16 \<Rightarrow> bool" where
  "delay_in_range tolerance d \<longleftrightarrow> d \<noteq> 0 \<and> unat d + unat tolerance < 65536"

lemma delay_in_range_le:
  assumes "delay_in_range tolerance d"
  shows "m > d + tolerance \<longleftrightarrow> unat m > unat d + unat tolerance"
proof -
  have "unat (d + tolerance) = unat d + unat tolerance"
    using assms unat_add_lem [of d tolerance] by (simp add: delay_in_range_def)
  then show ?thesis by (simp add: word_less_nat_alt)
qed

lemma ut_scan_step:
  "ut_scan nest network excluded g (out # outs) acc =
     ut_scan nest network excluded g outs
       (if \<exists>d. ut_measured nest network excluded g out d \<and> (fst acc = 0 \<or> fst acc > d + ut_tolerance g)
        then (uh_Delay (the (gget (ut_history g) (realTag nest out))), Some out) else acc)"
  by (cases acc) (simp add: ut_measured_def split: option.split)

lemma ut_scan_near_best:
  assumes "\<forall>out \<in> set outs. \<forall>d. ut_measured nest network excluded g out d \<longrightarrow> delay_in_range (ut_tolerance g) d"
    and "ut_scan nest network excluded g outs (m, mo) = (m', mo')"
  shows "(m \<noteq> 0 \<longrightarrow> m' \<noteq> 0 \<and> m' \<le> m) \<and>
    (\<forall>out \<in> set outs. \<forall>d. ut_measured nest network excluded g out d \<longrightarrow>
       m' \<noteq> 0 \<and> unat m' \<le> unat d + unat (ut_tolerance g)) \<and>
    (m' = m \<and> mo' = mo \<or> (\<exists>out \<in> set outs. mo' = Some out \<and> ut_measured nest network excluded g out m'))"
  using assms
proof (induction outs arbitrary: m mo)
  case (Cons out outs)
  let ?t = "ut_tolerance g" and ?meas = "ut_measured nest network excluded g"
  show ?case
  proof (cases "\<exists>d. ?meas out d \<and> (m = 0 \<or> m > d + ?t)")
    case True
    then obtain d where d: "?meas out d" "m = 0 \<or> m > d + ?t" by blast
    then have safe: "delay_in_range ?t d" using Cons.prems(1) by simp
    have "ut_scan nest network excluded g outs (d, Some out) = (m', mo')"
      using Cons.prems(2) True d(1) by (auto simp: ut_scan_step ut_measured_def)
    from Cons.IH [OF _ this] Cons.prems(1)
    have IH: "d \<noteq> 0 \<longrightarrow> m' \<noteq> 0 \<and> m' \<le> d"
      "\<forall>out \<in> set outs. \<forall>d. ?meas out d \<longrightarrow> m' \<noteq> 0 \<and> unat m' \<le> unat d + unat ?t"
      "m' = d \<and> mo' = Some out \<or> (\<exists>out \<in> set outs. mo' = Some out \<and> ?meas out m')" by auto
    have "m \<noteq> 0 \<longrightarrow> d \<le> m"
      using d(2) delay_in_range_le [OF safe, of m] by (auto simp: word_le_nat_alt)
    moreover have m': "m' \<noteq> 0" "m' \<le> d" using IH(1) safe by (auto simp: delay_in_range_def)
    ultimately have "m \<noteq> 0 \<longrightarrow> m' \<noteq> 0 \<and> m' \<le> m" by (auto intro: order_trans)
    moreover have "m' \<noteq> 0 \<and> unat m' \<le> unat d' + unat ?t" if "?meas out d'" for d'
    proof -
      have "d' = d" using that d(1) by (auto simp: ut_measured_def)
      with m' show ?thesis by (simp add: word_le_nat_alt)
    qed
    ultimately show ?thesis using IH(2,3) d(1) by auto
  next
    case False
    then have "ut_scan nest network excluded g outs (m, mo) = (m', mo')"
      using Cons.prems(2) by (simp only: ut_scan_step fst_conv False if_False)
    from Cons.IH [OF _ this] Cons.prems(1)
    have IH: "m \<noteq> 0 \<longrightarrow> m' \<noteq> 0 \<and> m' \<le> m"
      "\<forall>out \<in> set outs. \<forall>d. ?meas out d \<longrightarrow> m' \<noteq> 0 \<and> unat m' \<le> unat d + unat ?t"
      "m' = m \<and> mo' = mo \<or> (\<exists>out \<in> set outs. mo' = Some out \<and> ?meas out m')" by auto
    have "m' \<noteq> 0 \<and> unat m' \<le> unat d + unat ?t" if "?meas out d" for d
    proof -
      have "m \<noteq> 0" "\<not> m > d + ?t" "delay_in_range ?t d" using False that Cons.prems(1) by auto
      with IH(1) delay_in_range_le [of ?t d m] show ?thesis by (simp add: word_le_nat_alt)
    qed
    with IH show ?thesis by auto
  qed
qed simp

text \<open>What \<open>pickBestOutbound\<close> searches with, and what it does with the outcome.\<close>

definition ut_search ::
  "nesting \<Rightarrow> orders \<Rightarrow> string \<Rightarrow> outbound option \<Rightarrow> tag list \<Rightarrow> urlTestGroup \<Rightarrow> u16 \<times> outbound option \<Rightarrow> outbound option" where
  "ut_search nest order network current excluded g acc =
     (case snd (ut_scan nest network excluded g (map snd (gorange (order 0) (ut_outbounds g))) acc) of
        Some minOutbound \<Rightarrow> Some minOutbound
      | None \<Rightarrow> find (\<lambda>out. Some out \<noteq> current \<and> ut_candidate nest network excluded out)
                   (map snd (gorange (order 1) (ut_outbounds g))))"

definition ut_retains :: "nesting \<Rightarrow> string \<Rightarrow> tag list \<Rightarrow> outbound \<Rightarrow> bool" where
  "ut_retains nest network excluded cur \<longleftrightarrow> realTag nest cur \<notin> set excluded \<and> network \<in> set (ob_network cur)"

lemma pickBestOutbound_eq:
  "pickBestOutbound nest order network current excluded g =
     (case current of
        None \<Rightarrow> ut_search nest order network current excluded g (0, None)
      | Some cur \<Rightarrow>
          (case gget (ut_history g) (realTag nest cur) of
             Some history \<Rightarrow>
               ut_search nest order network current excluded g
                 (if ut_retains nest network excluded cur then (uh_Delay history, Some cur) else (0, None))
           | None \<Rightarrow>
               if ut_retains nest network excluded cur \<and> isAwaitingProbe cur g then Some cur
               else ut_search nest order network current excluded g (0, None)))"
  by (auto simp: pickBestOutbound_def ut_search_def ut_retains_def Let_def split: option.split)


text \<open>A started group with two members, the first selected, their latest delays and the tolerance.\<close>

definition exampleURLTest :: "u16 \<Rightarrow> u16 \<Rightarrow> u16 \<Rightarrow> urlTestGroup" where
  "exampleURLTest delayA delayB tolerance =
     (newURLTestGroup [(''a'', \<lparr>uh_Time = 5, uh_Delay = delayA\<rparr>), (''bb'', \<lparr>uh_Time = 5, uh_Delay = delayB\<rparr>)]
        [''a'', ''bb''] ''u'' [] 180 1800 tolerance)
     \<lparr>ut_outbounds := [(''a'', exampleOutbound ''a''), (''bb'', exampleOutbound ''bb'')],
      ut_selectedTCP := Some (exampleOutbound ''a''), ut_selectedUDP := Some (exampleOutbound ''a''), ut_started := True\<rparr>"


text \<open>Outside that range the comparison goes wrong: with a tolerance meant to keep the current
  selection always, the 16-bit sum wraps and the group moves to a slower member.\<close>

lemma tolerance_wraps:
  "pickBestOutbound (\<lambda>_. None) (\<lambda>_. id) ''tcp'' (Some (exampleOutbound ''a'')) [] (exampleURLTest 100 120 65500)
     = Some (exampleOutbound ''bb'')"
  by code_simp

text \<open>And a member measured below a millisecond, delay 0, loses to a slower one visited after it.\<close>

lemma zero_delay_loses:
  "pickBestOutbound (\<lambda>_. None) (\<lambda>_. id) ''tcp'' (Some (exampleOutbound ''a'')) [] (exampleURLTest 0 120 50)
     = Some (exampleOutbound ''bb'')"
  by code_simp

section \<open>Bounded failover\<close>

lemma find_SomeD: "find P xs = Some x \<Longrightarrow> x \<in> set xs \<and> P x"
  by (induction xs) (auto split: if_splits)

lemma ut_scan_source:
  "snd (ut_scan nest network excluded g outs (m, mo)) = Some out \<Longrightarrow>
   mo = Some out \<or> out \<in> set outs \<and> ut_candidate nest network excluded out"
proof (induction outs arbitrary: m mo)
  case (Cons o' outs)
  then show ?case
    by (cases "ut_candidate nest network excluded o'"; cases "gget (ut_history g) (realTag nest o')")
      (auto split: if_splits)
qed simp

text \<open>Where a choice comes from: a candidate among the members, or the current selection, when it has a
  result or awaits its first probe.\<close>

lemma pick_source:
  assumes "pickBestOutbound nest order network current excluded g = Some out"
  shows "out \<in> snd ` set (ut_outbounds g) \<and> ut_candidate nest network excluded out \<or>
         current = Some out \<and> ut_retains nest network excluded out \<and>
         (gget (ut_history g) (realTag nest out) \<noteq> None \<or> isAwaitingProbe out g)"
proof -
  have search: "out \<in> snd ` set (ut_outbounds g) \<and> ut_candidate nest network excluded out \<or> mo = Some out"
    if "ut_search nest order network current excluded g (m, mo) = Some out" for m mo
    using that ut_scan_source [of nest network excluded g "map snd (gorange (order 0) (ut_outbounds g))" m mo out]
    by (auto simp: ut_search_def split: option.splits dest!: find_SomeD)
  show ?thesis
  proof (cases current)
    case None
    with assms search [of 0 None] show ?thesis by (simp add: pickBestOutbound_eq)
  next
    case (Some cur)
    show ?thesis
    proof (cases "gget (ut_history g) (realTag nest cur)")
      case None
      with assms Some search [of 0 None] show ?thesis by (auto simp: pickBestOutbound_eq split: if_splits)
    next
      case (Some h)
      with assms \<open>current = Some cur\<close> search [of 0 None] search [of "uh_Delay h" "Some cur"] show ?thesis
        by (auto simp: pickBestOutbound_eq split: if_splits)
    qed
  qed
qed

lemma select_excludes:
  assumes "fst (ut_selectOutbound nest order network excluded g) = Inr out"
  shows "realTag nest out \<noteq> '''' \<and> realTag nest out \<notin> set excluded"
  using assms pick_source [of nest order network None excluded g out]
  by (auto simp: ut_selectOutbound_def Let_def ut_candidate_def split: option.splits if_splits)

lemma ut_tries_bounded:
  assumes "ut_tries nest order dial canceled network k i tried g = (r, outs, g')"
  shows "length outs \<le> k \<and> distinct (map (\<lambda>j. realTag (nest (i + j)) (outs ! j)) [0..<length outs]) \<and>
    (\<forall>j < length outs. realTag (nest (i + j)) (outs ! j) \<notin> insert '''' (set tried)) \<and>
    (\<forall>out. r = Inr out \<longrightarrow> outs \<noteq> [] \<and> last outs = out \<and> (\<exists>u. fst (dial (i + length outs - 1) out u)))"
  using assms
proof (induction k arbitrary: i tried g r outs g')
  case (Suc k)
  show ?case
  proof (cases "fst (ut_selectOutbound (nest i) (order i) network tried g)")
    case (Inl err)
    with Suc.prems show ?thesis by auto
  next
    case (Inr out)
    note sel = select_excludes [OF Inr]
    obtain ok u where d: "dial i out g = (ok, u)" by force
    let ?g = "markFailedAndReselect (nest i) (order i) out u"
    consider (ok) ok | (canceled) "\<not> ok" "canceled i" | (again) "\<not> ok" "\<not> canceled i" by blast
    then show ?thesis
    proof cases
      case ok
      then have "\<exists>u. fst (dial i out u)" using d by (metis fst_conv)
      with ok Suc.prems Inr d sel show ?thesis by auto
    next
      case canceled
      with Suc.prems Inr d sel show ?thesis by auto
    next
      case again
      obtain r1 outs1 g1 where rec: "ut_tries nest order dial canceled network k (i + 1) (realTag (nest i) out # tried) ?g = (r1, outs1, g1)"
        by (metis prod_cases3)
      then have eq: "r = r1" "outs = out # outs1" using Suc.prems Inr d again by auto
      note IH = Suc.IH [OF rec]
      have idx: "map (\<lambda>j. realTag (nest (i + j)) ((out # outs1) ! j)) [0..<length (out # outs1)] =
          realTag (nest i) out # map (\<lambda>j. realTag (nest (i + 1 + j)) (outs1 ! j)) [0..<length outs1]"
        by (simp only: length_Cons upt_conv_Cons [OF zero_less_Suc] list.map map_Suc_upt [symmetric] map_map comp_def)
          simp
      have "realTag (nest i) out \<notin> set (map (\<lambda>j. realTag (nest (i + 1 + j)) (outs1 ! j)) [0..<length outs1])"
        using IH by auto
      then have "distinct (map (\<lambda>j. realTag (nest (i + j)) (outs ! j)) [0..<length outs])"
        using IH unfolding eq(2) idx by simp
      moreover have "\<forall>j < length outs. realTag (nest (i + j)) (outs ! j) \<notin> insert '''' (set tried)"
        using IH sel by (auto simp: eq less_Suc_eq_0_disj)
      ultimately show ?thesis using IH eq by auto
    qed
  qed
qed simp

text \<open>C30: failover is bounded and makes progress. However often dials fail and whatever the rest of the
  program does meanwhile, a dial tries at most three outbounds, no two of them the same real outbound,
  and when it succeeds it returns the last outbound it tried, whose dial succeeded.\<close>

theorem failover_bounded:
  "let (r, outs, g') = tryEachOutbound nest order dial canceled now network g in
   length outs \<le> 3 \<and> distinct (map (\<lambda>j. realTag (nest j) (outs ! j)) [0..<length outs]) \<and>
   (case r of
      Inr out \<Rightarrow> outs \<noteq> [] \<and> last outs = out \<and> (\<exists>u. fst (dial (length outs - 1) out u))
    | Inl err \<Rightarrow> True)"
proof -
  obtain r outs g' where t: "ut_tries nest order dial canceled network 3 0 [] (snd (keepAlive now g)) = (r, outs, g')"
    by (metis prod_cases3)
  from ut_tries_bounded [OF t] show ?thesis
    by (simp add: tryEachOutbound_def maxOutboundAttempts_def t split: sum.split)
qed

end
