(* ===== verification/Url_Selection.thy ===== *)
theory Url_Selection
  imports Url_Test
begin

text \<open>
  What the latency-tested group keeps invariant: registered tags are the members, members are stored
  under their own tags, replacements awaiting a probe are members, and, when no member is itself a
  group, the selection of each network is a member that carries it. With a nested group the last
  part fails; the failing run is evaluated at the end. The group's \<open>Add\<close> and \<open>Remove\<close> satisfy the
  contract of a mutable group.
\<close>

section \<open>The invariant\<close>

abbreviation flat :: nesting where
  "flat \<equiv> \<lambda>_. None"

abbreviation ut_member :: "urlTestGroup \<Rightarrow> tag \<Rightarrow> bool" where
  "ut_member g t \<equiv> gget (ut_outbounds g) t \<noteq> None"

definition ut_listed :: "urlTestGroup \<Rightarrow> bool" where
  "ut_listed g \<longleftrightarrow> (\<forall>t. t \<in> set (ut_tags g) \<longleftrightarrow> ut_member g t)"

definition submap :: "(tag, outbound) gomap \<Rightarrow> (tag, outbound) gomap \<Rightarrow> bool" where
  "submap m m' \<longleftrightarrow> (\<forall>t. pred_option (\<lambda>out. gget m' t = Some out) (gget m t))"

definition ut_base :: "urlTestGroup \<Rightarrow> bool" where
  "ut_base g \<longleftrightarrow> ut_listed g \<and> own_tags (ut_outbounds g) \<and> distinct (gkeys (ut_outbounds g)) \<and>
     submap (ut_awaitingProbe g) (ut_outbounds g)"

definition carried :: "urlTestGroup \<Rightarrow> string \<Rightarrow> outbound \<Rightarrow> bool" where
  "carried g network out \<longleftrightarrow> is_member (ut_outbounds g) out \<and> network \<in> set (ob_network out)"

definition ut_inv :: "urlTestGroup \<Rightarrow> bool" where
  "ut_inv g \<longleftrightarrow> ut_base g \<and> pred_option (carried g ''tcp'') (ut_selectedTCP g) \<and>
     pred_option (carried g ''udp'') (ut_selectedUDP g)"

lemma realTag_flat [simp]: "realTag flat out = ob_tag out"
  by (simp add: realTag_def)

lemma submapD: "submap m m' \<Longrightarrow> gget m t = Some out \<Longrightarrow> gget m' t = Some out"
  unfolding submap_def by (drule spec [of _ t]) simp

lemma submap_gdel: "submap m m' \<Longrightarrow> submap (gdel t m) (gdel t m')"
  by (simp add: submap_def)

lemma submap_gdel_left: "submap m m' \<Longrightarrow> submap (gdel t m) m'"
  by (simp add: submap_def)

lemma submap_replace: "submap m m' \<Longrightarrow> submap (gdel t m) (gput t out m')"
  "submap m m' \<Longrightarrow> submap (gput t out m) (gput t out m')"
  by (simp_all add: submap_def)

lemma submap_add: "submap m m' \<Longrightarrow> gget m' t = None \<Longrightarrow> submap m (gput t out m')"
  unfolding submap_def by (auto simp: option.pred_set)

lemma member_of_base: "ut_base g \<Longrightarrow> out \<in> snd ` set (ut_outbounds g) \<Longrightarrow> is_member (ut_outbounds g) out"
  using own_tags_member by (fastforce simp: ut_base_def gget_Some_iff)

text \<open>A selection that \<open>pickBestOutbound\<close> would keep is a member.\<close>

definition sel_live :: "urlTestGroup \<Rightarrow> outbound \<Rightarrow> bool" where
  "sel_live g out \<longleftrightarrow> gget (ut_history g) (ob_tag out) \<noteq> None \<longrightarrow> is_member (ut_outbounds g) out"

lemma pick_carried:
  assumes "ut_base g" and "pred_option (sel_live g) current"
  shows "pred_option (carried g network) (pickBestOutbound flat order network current excluded g)"
proof (cases "pickBestOutbound flat order network current excluded g")
  case (Some out)
  have "isAwaitingProbe out g \<Longrightarrow> is_member (ut_outbounds g) out"
    using assms(1) submapD by (auto simp: isAwaitingProbe_def is_member_def ut_base_def)
  with pick_source [OF Some] member_of_base [OF assms(1)] assms(2) Some show ?thesis
    by (auto simp: carried_def ut_candidate_def ut_retains_def sel_live_def)
qed simp

lemma pick_cong:
  "pickBestOutbound nest order network current excluded (g\<lparr>ut_selectedTCP := x\<rparr>) =
   pickBestOutbound nest order network current excluded g"
proof -
  have "ut_scan nest network excluded (g\<lparr>ut_selectedTCP := x\<rparr>) outs acc = ut_scan nest network excluded g outs acc" for outs acc
    by (induction outs arbitrary: acc) (auto simp: ut_scan_step ut_measured_def)
  then show ?thesis by (simp add: pickBestOutbound_def isAwaitingProbe_def cong: option.case_cong if_cong)
qed

lemma carried_upd [simp]:
  "carried (g\<lparr>ut_selectedTCP := x\<rparr>) = carried g" "carried (g\<lparr>ut_selectedUDP := x\<rparr>) = carried g"
  "carried (g\<lparr>ut_history := h\<rparr>) = carried g" "carried (g\<lparr>ut_awaitingProbe := a\<rparr>) = carried g"
  by (simp_all add: carried_def fun_eq_iff)

lemma ut_base_upd [simp]:
  "ut_base (g\<lparr>ut_selectedTCP := x\<rparr>) = ut_base g" "ut_base (g\<lparr>ut_selectedUDP := x\<rparr>) = ut_base g"
  "ut_base (g\<lparr>ut_history := h\<rparr>) = ut_base g"
  by (simp_all add: ut_base_def ut_listed_def)

lemma update_inv:
  assumes "ut_base g" and "pred_option (sel_live g) (ut_selectedTCP g)" and "pred_option (sel_live g) (ut_selectedUDP g)"
  shows "ut_inv (updateSelectedLocked flat order g)"
  using assms pick_carried [OF assms(1,2)] pick_carried [OF assms(1,3)]
  by (auto simp: updateSelectedLocked_def ut_inv_def Let_def pick_cong)

lemma utinv_live:
  assumes "ut_inv g"
  shows "pred_option (sel_live g) (ut_selectedTCP g)" "pred_option (sel_live g) (ut_selectedUDP g)"
  using assms by (auto simp: ut_inv_def carried_def sel_live_def option.pred_set)

section \<open>The operations keep it\<close>

lemma utinv_history: "ut_inv g \<Longrightarrow> ut_inv (g\<lparr>ut_history := h\<rparr>)"
  by (simp add: ut_inv_def)

lemma utinv_awaiting: "ut_inv g \<Longrightarrow> ut_inv (g\<lparr>ut_awaitingProbe := gdel t (ut_awaitingProbe g)\<rparr>)"
  by (simp add: ut_inv_def ut_base_def ut_listed_def submap_gdel_left)

lemma utinv_update: "ut_inv g \<Longrightarrow> ut_inv (updateSelectedLocked flat order g)"
  using update_inv [of g] utinv_live [of g] by (simp add: ut_inv_def)

text \<open>The fields the invariant reads.\<close>

lemma utinv_frame:
  assumes "ut_inv g" and "ut_tags g' = ut_tags g" "ut_outbounds g' = ut_outbounds g"
    "ut_awaitingProbe g' = ut_awaitingProbe g" "ut_selectedTCP g' = ut_selectedTCP g" "ut_selectedUDP g' = ut_selectedUDP g"
  shows "ut_inv g'"
proof -
  have "carried g' = carried g" by (simp add: carried_def fun_eq_iff assms)
  with assms show ?thesis by (simp add: ut_inv_def ut_base_def ut_listed_def)
qed

lemma utinv_addTag:
  assumes "mgr_tagged mgr" and "ut_inv (snd (snd acc))"
  shows "ut_inv (snd (snd (ut_addTag mgr t acc)))"
proof -
  obtain missing n g where acc: "acc = (missing, n, g)" by (cases acc rule: prod_cases3)
  show ?thesis
  proof (cases "gget (ut_outbounds g) t = None \<and> mgr t \<noteq> None")
    case True
    then obtain out where out: "mgr t = Some out" "gget (ut_outbounds g) t = None" by blast
    let ?g = "g\<lparr>ut_outbounds := gput t out (ut_outbounds g), ut_tags := ut_tags g @ [t]\<rparr>"
    have "ob_tag out = t" using out(1) assms(1) by blast
    then have "ut_base ?g"
      using assms(2) out(2)
      by (auto simp: acc ut_inv_def ut_base_def ut_listed_def own_tags_gput submap_add)
    moreover have "carried g network c \<Longrightarrow> carried ?g network c" for network c
      using out(2) by (auto simp: carried_def is_member_def)
    ultimately have "ut_inv ?g"
      using assms(2) by (auto simp: acc ut_inv_def intro: option.pred_mono_strong)
    with out show ?thesis by (simp add: acc ut_addTag_def)
  next
    case False
    with assms(2) show ?thesis by (cases "mgr t") (auto simp: acc ut_addTag_def)
  qed
qed

lemma utinv_Add: "mgr_tagged mgr \<Longrightarrow> ut_inv g \<Longrightarrow> ut_inv (snd (ut_Add mgr tags g))"
  using fold_invariant [where P = "\<lambda>acc. ut_inv (snd (snd acc))" and Q = "\<lambda>_. True" and xs = tags
      and f = "ut_addTag mgr" and s = "([], 0, g)"] utinv_addTag [of mgr]
  by (simp add: ut_Add_def ut_result_def case_prod_unfold)

lemma replaceSelected_carried:
  assumes "ut_base g" and "is_member (ut_outbounds g) out"
    and "\<And>c. selected = Some c \<Longrightarrow> c \<noteq> old \<Longrightarrow> carried g network c"
  shows "pred_option (carried g network) (replaceSelected flat order network old out g selected)"
proof (cases "selected = Some old")
  case True
  with assms(2) pick_carried [OF assms(1), of None network order "[]"] show ?thesis
    by (simp add: replaceSelected_def carried_def)
next
  case False
  with assms(3) show ?thesis by (cases selected) (auto simp: replaceSelected_def)
qed

lemma utinv_replaceTag:
  assumes "mgr_tagged mgr" and "ut_inv (snd (snd acc))"
  shows "ut_inv (snd (snd (ut_replaceTag flat order mgr t acc)))"
proof -
  obtain missing n g where acc: "acc = (missing, n, g)" by (cases acc rule: prod_cases3)
  show ?thesis
  proof (cases "gget (ut_outbounds g) t = None \<or> mgr t = None \<or> mgr t = gget (ut_outbounds g) t")
    case True
    with assms(2) show ?thesis
      by (cases "mgr t"; cases "gget (ut_outbounds g) t") (simp_all add: acc ut_replaceTag_def)
  next
    case False
    then obtain old out where out: "gget (ut_outbounds g) t = Some old" "mgr t = Some out" "out \<noteq> old" by auto
    have inv: "ut_inv g" using assms(2) by (simp add: acc)
    have tag: "ob_tag out = t" using assms(1) out(2) by blast
    define aw where "aw = (if ut_started g then gput t out (gdel t (ut_awaitingProbe g)) else gdel t (ut_awaitingProbe g))"
    define g1 where "g1 = g\<lparr>ut_outbounds := gput t out (ut_outbounds g), ut_history := gdel t (ut_history g), ut_awaitingProbe := aw\<rparr>"
    have "submap aw (gput t out (ut_outbounds g))"
      using inv by (simp add: aw_def ut_inv_def ut_base_def submap_replace submap_gdel_left)
    then have base: "ut_base g1"
      using inv out(1) tag by (auto simp: g1_def ut_inv_def ut_base_def ut_listed_def own_tags_gput)
    have new: "is_member (ut_outbounds g1) out" using tag by (simp add: g1_def is_member_def)
    have keep: "carried g1 network c" if "carried g network c" "c \<noteq> old" for network c
      using that out(1) by (auto simp: g1_def carried_def is_member_def)
    have keepT: "carried g1 ''tcp'' c" if "ut_selectedTCP g = Some c" "c \<noteq> old" for c
      using that inv by (auto simp: ut_inv_def intro: keep)
    have keepU: "carried g1 ''udp'' c" if "ut_selectedUDP g = Some c" "c \<noteq> old" for c
      using that inv by (auto simp: ut_inv_def intro: keep)
    define g2 where "g2 = g1\<lparr>ut_selectedTCP := replaceSelected flat order ''tcp'' old out g1 (ut_selectedTCP g)\<rparr>"
    have tcp: "pred_option (carried g1 ''tcp'') (ut_selectedTCP g2)"
      unfolding g2_def using replaceSelected_carried [OF base new keepT] by simp
    have base2: "ut_base g2" "carried g2 = carried g1" "ut_outbounds g2 = ut_outbounds g1"
      using base by (simp_all add: g2_def)
    have udp: "pred_option (carried g1 ''udp'') (replaceSelected flat (\<lambda>i. order (i + 2)) ''udp'' old out g2 (ut_selectedUDP g))"
      using replaceSelected_carried [OF base2(1), unfolded base2(2,3), OF new keepU] by simp
    have "ut_inv (g2\<lparr>ut_selectedUDP := replaceSelected flat (\<lambda>i. order (i + 2)) ''udp'' old out g2 (ut_selectedUDP g)\<rparr>)"
      using base2 tcp udp by (simp add: ut_inv_def)
    moreover have "snd (snd (ut_replaceTag flat order mgr t acc)) =
        g2\<lparr>ut_selectedUDP := replaceSelected flat (\<lambda>i. order (i + 2)) ''udp'' old out g2 (ut_selectedUDP g)\<rparr>"
      using out by (cases "ut_started g") (simp_all add: acc ut_replaceTag_def Let_def g2_def g1_def aw_def)
    ultimately show ?thesis by simp
  qed
qed

lemma utinv_Replace: "mgr_tagged mgr \<Longrightarrow> ut_inv g \<Longrightarrow> ut_inv (snd (ut_Replace flat order mgr tags g))"
  using fold_invariant [where P = "\<lambda>acc. ut_inv (snd (snd acc))" and Q = "\<lambda>_. True" and xs = tags
      and f = "ut_replaceTag flat order mgr" and s = "([], 0, g)"] utinv_replaceTag [of mgr]
  by (simp add: ut_Replace_def ut_result_def case_prod_unfold)

lemma utinv_overrides: "ut_inv g \<Longrightarrow> ut_inv (ut_SetURLOverrides overrides g)"
  unfolding ut_SetURLOverrides_def
  by (rule fold_invariant [where Q = "\<lambda>_. True"])
    (auto simp: ut_overrideURL_def intro: utinv_frame)

lemma ut_removeTag_effect:
  "ut_removeTag t (n, g) = (m, u) \<Longrightarrow>
   gget (ut_outbounds u) = (gget (ut_outbounds g))(t := None) \<and>
   (\<forall>x. gget (ut_history u) x = None \<or> gget (ut_history u) x = gget (ut_history g) x) \<and>
   (ut_member g t \<longrightarrow> gget (ut_history u) t = None) \<and>
   (distinct (gkeys (ut_outbounds g)) \<longrightarrow> distinct (gkeys (ut_outbounds u))) \<and>
   (submap (ut_awaitingProbe g) (ut_outbounds g) \<longrightarrow> submap (ut_awaitingProbe u) (ut_outbounds u)) \<and>
   ut_selectedTCP u = ut_selectedTCP g \<and> ut_selectedUDP u = ut_selectedUDP g \<and> ut_closed u = ut_closed g \<and>
   m = n + (if ut_member g t then 1 else 0)"
  by (auto simp: ut_removeTag_def submap_gdel split: if_splits)

lemma fold_ut_removeTag:
  assumes "fold ut_removeTag tags (n, g) = (m, u)"
  shows "(\<forall>t. gget (ut_outbounds u) t = (if t \<in> set tags then None else gget (ut_outbounds g) t)) \<and>
    (\<forall>x. gget (ut_history u) x = None \<or> gget (ut_history u) x = gget (ut_history g) x) \<and>
    (\<forall>t \<in> set tags. ut_member g t \<longrightarrow> gget (ut_history u) t = None) \<and>
    (distinct (gkeys (ut_outbounds g)) \<longrightarrow> distinct (gkeys (ut_outbounds u))) \<and>
    (submap (ut_awaitingProbe g) (ut_outbounds g) \<longrightarrow> submap (ut_awaitingProbe u) (ut_outbounds u)) \<and>
    ut_selectedTCP u = ut_selectedTCP g \<and> ut_selectedUDP u = ut_selectedUDP g \<and> ut_closed u = ut_closed g \<and>
    m = n + int (card {t \<in> set tags. ut_member g t})"
  using assms
proof (induction tags arbitrary: n g)
  case (Cons t tags)
  obtain m1 g1 where step: "ut_removeTag t (n, g) = (m1, g1)" by force
  note eff = ut_removeTag_effect [OF step]
  have fold: "fold ut_removeTag tags (m1, g1) = (m, u)" using Cons.prems step by simp
  note IH = Cons.IH [OF fold]
  have "{x \<in> set (t # tags). ut_member g x} =
      {x \<in> set tags. ut_member g1 x} \<union> (if ut_member g t then {t} else {})"
    using eff by auto
  moreover have "t \<notin> {x \<in> set tags. ut_member g1 x}" using eff by simp
  ultimately have "int (card {x \<in> set (t # tags). ut_member g x}) =
      int (card {x \<in> set tags. ut_member g1 x}) + (if ut_member g t then 1 else 0)"
    by (cases "ut_member g t") simp_all
  moreover have "gget (ut_history u) x = None \<or> gget (ut_history u) x = gget (ut_history g) x" for x
    using IH eff by metis
  moreover have "gget (ut_history u) x = None" if "x \<in> set (t # tags)" "ut_member g x" for x
  proof (cases "x = t")
    case True
    with that(2) eff have "gget (ut_history g1) t = None" by blast
    with IH True show ?thesis by metis
  next
    case False
    with that eff IH show ?thesis by simp
  qed
  moreover have "gget (ut_outbounds u) x = (if x \<in> set (t # tags) then None else gget (ut_outbounds g) x)" for x
    using IH eff by simp
  ultimately show ?case using IH eff by simp
qed simp

lemma utinv_Remove:
  assumes "ut_inv g"
  shows "ut_inv (snd (ut_Remove flat order iter tags g))"
proof (cases "ut_isClosed g \<or> ut_tags g = []")
  case True
  with assms show ?thesis by (auto simp: ut_Remove_def)
next
  case False
  obtain n u where f: "fold ut_removeTag tags (0, g) = (n, u)" by force
  note u = fold_ut_removeTag [OF f]
  define v where "v = (let v = u\<lparr>ut_tags := gkeys (gorange iter (ut_outbounds u))\<rparr> in
     if ut_tags v = [] \<and> ut_isAlive v then v\<lparr>ut_pauseC := map_option (\<lambda>_. True) (ut_pauseC v)\<rparr> else v)"
  have v: "ut_outbounds v = ut_outbounds u" "ut_history v = ut_history u" "ut_awaitingProbe v = ut_awaitingProbe u"
    "ut_selectedTCP v = ut_selectedTCP g" "ut_selectedUDP v = ut_selectedUDP g"
    "ut_tags v = gkeys (gorange iter (ut_outbounds u))"
    using u by (simp_all add: v_def Let_def)
  have own: "own_tags (ut_outbounds u)"
  proof (rule own_tags_sub)
    show "own_tags (ut_outbounds g)" using assms by (simp add: ut_inv_def ut_base_def)
    show "gget (ut_outbounds u) t = None \<or> gget (ut_outbounds u) t = gget (ut_outbounds g) t" for t
      using u by simp
  qed
  have "ut_base v"
    using assms u own
    by (simp add: ut_inv_def ut_base_def ut_listed_def v in_gorange_keys del: set_map gkeys_gorange)
  moreover have live: "sel_live v c" if "carried g network c" for network c
    using that u by (auto simp: sel_live_def carried_def is_member_def v)
  ultimately have "ut_inv (updateSelectedLocked flat order v)"
    using assms update_inv [of v order] by (auto simp: ut_inv_def v intro: option.pred_mono_strong)
  moreover have "snd (ut_Remove flat order iter tags g) = updateSelectedLocked flat order v"
    using False by (simp add: ut_Remove_def f v_def Let_def)
  ultimately show ?thesis by simp
qed

lemma utinv_jobDone: "ut_inv g \<Longrightarrow> ut_inv (snd (ut_jobDone now job res g))"
  by (simp add: ut_jobDone_def utinv_history split: option.split)

lemma utinv_probeDone:
  assumes "ut_inv g"
  shows "ut_inv (snd (probeReplacementDone flat order now tag member testURL res g))"
  using assms
  by (auto simp: probeReplacementDone_def Let_def split: option.split
      intro!: utinv_update utinv_history utinv_awaiting)

lemma utinv_markFailed: "ut_inv g \<Longrightarrow> ut_inv (markFailedAndReselect flat order out g)"
  by (simp add: markFailedAndReselect_def Let_def utinv_update utinv_history utinv_awaiting)

lemma utinv_keepAlive: "ut_inv g \<Longrightarrow> ut_inv (snd (keepAlive now g))"
  by (erule utinv_frame) (simp_all add: keepAlive_def)

lemma utinv_interface: "ut_inv g \<Longrightarrow> ut_inv (snd (onInterfaceUpdated now g))"
  by (erule utinv_frame) (simp_all add: onInterfaceUpdated_def keepAlive_def Let_def)

lemma ut_resolve_ok:
  "ut_resolve mgr ts g = (None, g') \<Longrightarrow>
   (\<forall>t \<in> set ts. mgr t \<noteq> None) \<and> ut_tags g' = ut_tags g \<and>
   (\<forall>t. gget (ut_outbounds g') t = (if t \<in> set ts then mgr t else gget (ut_outbounds g) t)) \<and>
   (distinct (gkeys (ut_outbounds g)) \<longrightarrow> distinct (gkeys (ut_outbounds g'))) \<and>
   ut_awaitingProbe g' = ut_awaitingProbe g \<and> ut_selectedTCP g' = ut_selectedTCP g \<and> ut_selectedUDP g' = ut_selectedUDP g"
proof (induction ts arbitrary: g)
  case (Cons t ts)
  then obtain out where out: "mgr t = Some out" by (cases "mgr t") auto
  with Cons.IH [of "g\<lparr>ut_outbounds := gput t out (ut_outbounds g)\<rparr>"] Cons.prems show ?case
    by (auto split: if_splits)
qed simp

definition ut_initial :: "urlTestGroup \<Rightarrow> bool" where
  "ut_initial g \<longleftrightarrow>
     (\<exists>order mgr defInterval defIdle history tags link overrides interval idle tolerance g0.
        mgr_tagged mgr \<and>
        NewMutableURLTest defInterval defIdle history tags link overrides interval idle tolerance = Inr g0 \<and>
        ut_Start flat order mgr g0 = (None, g))"

lemma utinv_initial:
  assumes "ut_initial g"
  shows "ut_inv g"
proof -
  obtain order mgr history tags link overrides interval idle tolerance g0 where
    mgr: "mgr_tagged mgr" and g0: "g0 = newURLTestGroup history tags link overrides interval idle tolerance"
    and start: "ut_Start flat order mgr g0 = (None, g)"
    using assms by (auto simp: ut_initial_def NewMutableURLTest_def Let_def split: if_splits)
  show ?thesis
  proof (cases tags)
    case Nil
    with start g0 show ?thesis
      by (auto simp: ut_Start_def newURLTestGroup_def ut_inv_def ut_base_def ut_listed_def own_tags_def submap_def)
  next
    case Cons
    obtain err u where r: "ut_resolve mgr tags g0 = (err, u)" by force
    have "err = None" and g: "g = updateSelectedLocked flat order u"
      using start g0 Cons r by (auto simp: ut_Start_def newURLTestGroup_def split: option.splits)
    with ut_resolve_ok [of mgr tags g0 u] r
    have u: "\<forall>t \<in> set tags. mgr t \<noteq> None" "ut_tags u = tags"
      "\<And>t. gget (ut_outbounds u) t = (if t \<in> set tags then mgr t else None)"
      "distinct (gkeys (ut_outbounds u))" "ut_awaitingProbe u = []" "ut_selectedTCP u = None" "ut_selectedUDP u = None"
      by (simp_all add: g0 newURLTestGroup_def)
    have "ut_base u"
      using u(1,2,4,5) mgr
      by (auto simp: ut_base_def ut_listed_def own_tags_def submap_def u(3) option.pred_set)
    then show ?thesis using g update_inv [of u order] u(6,7) by simp
  qed
qed

text \<open>Everything that changes the group, in any order: the group's operations, the sections of its
  tests and probes with any result, the check loop, and other users of the shared history.\<close>

inductive ut_step :: "urlTestGroup \<Rightarrow> urlTestGroup \<Rightarrow> bool" where
  post_start: "ut_step g (ut_PostStart now g)"
| close: "ut_step g (ut_Close g)"
| add: "mgr_tagged mgr \<Longrightarrow> ut_step g (snd (ut_Add mgr tags g))"
| replace: "mgr_tagged mgr \<Longrightarrow> ut_step g (snd (ut_Replace flat order mgr tags g))"
| remove: "ut_step g (snd (ut_Remove flat order iter tags g))"
| overrides: "ut_step g (ut_SetURLOverrides overrides g)"
| keep_alive: "ut_step g (snd (keepAlive now g))"
| interface: "ut_step g (snd (onInterfaceUpdated now g))"
| loop_start: "ut_step g (snd (checkLoopStart now g))"
| loop_exit: "ut_step g (checkLoopExit g)"
| begin_test: "ut_step g (snd (ut_beginTest flat isURLTest mgr order now force g))"
| job_done: "ut_step g (snd (ut_jobDone now job res g))"
| end_test: "ut_step g (ut_endTest flat order g)"
| probe_done: "ut_step g (snd (probeReplacementDone flat order now tag member testURL res g))"
| mark_failed: "ut_step g (markFailedAndReselect flat order out g)"
| shared_history: "ut_step g (g\<lparr>ut_history := h\<rparr>)"

lemma utinv_step: "ut_step g g' \<Longrightarrow> ut_inv g \<Longrightarrow> ut_inv g'"
proof (induction rule: ut_step.induct)
  case (end_test g order)
  then show ?case
    by (rule utinv_frame [OF utinv_update]) (simp_all add: ut_endTest_def)
qed (auto intro: utinv_Add utinv_Replace utinv_Remove utinv_overrides utinv_jobDone utinv_probeDone utinv_markFailed
      utinv_keepAlive utinv_interface utinv_history elim: utinv_frame
      simp: ut_PostStart_def ut_Close_def checkLoopStart_def checkLoopExit_def ut_beginTest_def)

interpretation ut: invariant_system ut_initial ut_step ut_inv
  by unfold_locales (auto intro: utinv_initial utinv_step)

section \<open>Guarantees\<close>

text \<open>C4: dials never go through a removed or replaced outbound. Whatever a started group has been
  through (additions, replacements, removals, URL overrides, tests and probes whose results come in any
  order and at any time, failed dials, other writers of the shared history), as long as no member is
  itself a group, the outbound selected for a network is the current member under its tag and carries
  that network, and the registered tags are exactly the members.\<close>

theorem url_selection_is_member:
  assumes "reaches ut_initial ut_step g"
  shows "(\<forall>out. ut_selectedTCP g = Some out \<longrightarrow>
            gget (ut_outbounds g) (ob_tag out) = Some out \<and> ''tcp'' \<in> set (ob_network out)) \<and>
    (\<forall>out. ut_selectedUDP g = Some out \<longrightarrow>
            gget (ut_outbounds g) (ob_tag out) = Some out \<and> ''udp'' \<in> set (ob_network out)) \<and>
    (\<forall>t. t \<in> set (ut_All g) \<longleftrightarrow> gget (ut_outbounds g) t \<noteq> None)"
  using ut.reaches_inv [OF assms]
  by (auto simp: ut_inv_def ut_base_def ut_listed_def ut_All_def carried_def is_member_def)

definition exampleTested :: urlTestGroup where
  "exampleTested = ut_PostStart 3 (snd (ut_Start flat (\<lambda>_. id) (\<lambda>t. Some (exampleOutbound t))
     (newURLTestGroup [(''bb'', \<lparr>uh_Time = 1, uh_Delay = 40\<rparr>)] [''a'', ''bb''] ''u'' [] 180 1800 50)))"

lemma exampleTested_reaches: "reaches ut_initial ut_step exampleTested"
proof -
  let ?new = "newURLTestGroup [(''bb'', \<lparr>uh_Time = 1, uh_Delay = 40\<rparr>)] [''a'', ''bb''] ''u'' [] 180 1800 50"
  let ?mgr = "\<lambda>t. Some (exampleOutbound t)"
  have "NewMutableURLTest 180 1800 [(''bb'', \<lparr>uh_Time = 1, uh_Delay = 40\<rparr>)] [''a'', ''bb''] ''u'' [] 0 0 0 = Inr ?new"
    by (simp add: NewMutableURLTest_def or_default_def)
  moreover have "ut_Start flat (\<lambda>_. id) ?mgr ?new = (None, snd (ut_Start flat (\<lambda>_. id) ?mgr ?new))"
    by (simp add: ut_Start_def newURLTestGroup_def)
  ultimately have "ut_initial (snd (ut_Start flat (\<lambda>_. id) ?mgr ?new))"
    unfolding ut_initial_def by (metis exampleOutbound_tag option.inject)
  then show ?thesis unfolding exampleTested_def by (blast intro: reaches_init reaches_step post_start)
qed

lemma exampleTested_facts:
  "ut_selectedTCP exampleTested = Some (exampleOutbound ''bb'')" "ut_started exampleTested"
  "\<not> ut_isClosed exampleTested" "ut_All exampleTested = [''a'', ''bb'']"
  by code_simp+

lemma exampleTested_removed:
  "ut_selectedTCP (snd (ut_Remove flat (\<lambda>_. id) id [''bb''] exampleTested)) = Some (exampleOutbound ''a'')"
  by code_simp

theorem url_selection_is_member_witness:
  "let g = snd (ut_Remove flat (\<lambda>_. id) id [''bb''] exampleTested) in
   ut_selectedTCP g = Some (exampleOutbound ''a'') \<and> gget (ut_outbounds g) ''a'' = Some (exampleOutbound ''a'')"
proof -
  have "reaches ut_initial ut_step (snd (ut_Remove flat (\<lambda>_. id) id [''bb''] exampleTested))"
    using exampleTested_reaches by (rule reaches_step) (rule remove)
  from url_selection_is_member [OF this] exampleTested_removed exampleOutbound_tag [of "''a''"]
  show ?thesis unfolding Let_def by metis
qed

lemma update_awaiting:
  assumes "ut_tags g \<noteq> []" and "ut_selectedTCP g = Some out" and "''tcp'' \<in> set (ob_network out)"
    and "gget (ut_history g) (ob_tag out) = None" and "isAwaitingProbe out g"
  shows "ut_selectedTCP (updateSelectedLocked flat order g) = Some out"
  using assms by (simp add: updateSelectedLocked_def Let_def pickBestOutbound_eq ut_retains_def)

lemma Replace_one:
  assumes "\<not> ut_isClosed g" and "gget (ut_outbounds g) t = Some old" and "mgr t = Some out" and "out \<noteq> old"
  shows "snd (ut_Replace flat order mgr [t] g) = snd (snd (ut_replaceTag flat order mgr t ([], 0, g)))"
    and "fst (ut_Replace flat order mgr [t] g) = (1, None)"
  using assms by (simp_all add: ut_Replace_def ut_result_def ut_replaceTag_def Let_def)



text \<open>The invariant's proviso is needed. A member that is a manually switched group has its results
  stored under the tag it has selected; removing the member deletes the results under the member's own
  tag, so the removed group still has a result, and stays selected.\<close>

definition exampleNested :: urlTestGroup where
  "exampleNested =
     (newURLTestGroup [(''a'', \<lparr>uh_Time = 5, uh_Delay = 60\<rparr>), (''x'', \<lparr>uh_Time = 5, uh_Delay = 40\<rparr>)]
        [''a'', ''grp''] ''u'' [] 180 1800 50)
     \<lparr>ut_outbounds := [(''a'', exampleOutbound ''a''), (''grp'', exampleOutbound ''grp'')],
      ut_selectedTCP := Some (exampleOutbound ''grp''), ut_selectedUDP := Some (exampleOutbound ''grp''), ut_started := True\<rparr>"

lemma removed_nested_group_stays_selected:
  "let g = snd (ut_Remove (\<lambda>out. if ob_tag out = ''grp'' then Some ''x'' else None) (\<lambda>_. id) id [''grp''] exampleNested) in
   ut_selectedTCP g = Some (exampleOutbound ''grp'') \<and> ut_All g = [''a'']"
  by code_simp

section \<open>The group contract\<close>

definition ut_Add1 :: "(tag \<Rightarrow> outbound option) \<Rightarrow> tag \<Rightarrow> urlTestGroup \<Rightarrow> (int \<times> groupError option) \<times> urlTestGroup" where
  "ut_Add1 mgr t g = ut_Add mgr [t] g"

definition ut_Remove1 ::
  "nesting \<Rightarrow> orders \<Rightarrow> ((tag, outbound) gomap \<Rightarrow> (tag, outbound) gomap) \<Rightarrow> tag \<Rightarrow> urlTestGroup \<Rightarrow>
   (int \<times> groupError option) \<times> urlTestGroup" where
  "ut_Remove1 nest order iter t g = ut_Remove nest order iter [t] g"

lemma ut_Add1_eq:
  "ut_Add1 mgr t g =
     (if ut_isClosed g then ((0, Some ErrGroupClosed), g)
      else if ut_member g t then ((0, None), g)
      else case mgr t of
        None \<Rightarrow> ((0, Some (ErrOutboundsNotFound [t])), g)
      | Some out \<Rightarrow> ((1, None), g\<lparr>ut_outbounds := gput t out (ut_outbounds g), ut_tags := ut_tags g @ [t]\<rparr>))"
  by (simp add: ut_Add1_def ut_Add_def ut_result_def ut_addTag_def split: option.split)

lemma ut_listed_put:
  "ut_listed g \<Longrightarrow> ut_listed (g\<lparr>ut_outbounds := gput t out (ut_outbounds g), ut_tags := ut_tags g @ [t]\<rparr>)"
  by (auto simp: ut_listed_def)

lemma ut_isClosed_put: "ut_isClosed (g\<lparr>ut_outbounds := m, ut_tags := ts\<rparr>) = ut_isClosed g"
  by (simp add: ut_isClosed_def)

lemma update_fields [simp]:
  "ut_outbounds (updateSelectedLocked nest order g) = ut_outbounds g"
  "ut_tags (updateSelectedLocked nest order g) = ut_tags g"
  "ut_closed (updateSelectedLocked nest order g) = ut_closed g"
  by (simp_all add: updateSelectedLocked_def Let_def)

lemma ut_Remove1_effect:
  assumes "ut_listed g"
  shows "ut_isClosed g \<Longrightarrow> ut_Remove1 nest order iter t g = ((0, Some ErrGroupClosed), g)"
    and "\<not> ut_isClosed g \<Longrightarrow> fst (ut_Remove1 nest order iter t g) = (if ut_member g t then 1 else 0, None)"
    and "ut_listed (snd (ut_Remove1 nest order iter t g))"
    and "\<not> ut_isClosed g \<Longrightarrow>
      gget (ut_outbounds (snd (ut_Remove1 nest order iter t g))) = (gget (ut_outbounds g))(t := None)"
    and "ut_isClosed (snd (ut_Remove1 nest order iter t g)) = ut_isClosed g"
proof -
  obtain n u where f: "ut_removeTag t (0, g) = (n, u)" by force
  define v where "v = (let v = u\<lparr>ut_tags := gkeys (gorange iter (ut_outbounds u))\<rparr> in
     if ut_tags v = [] \<and> ut_isAlive v then v\<lparr>ut_pauseC := map_option (\<lambda>_. True) (ut_pauseC v)\<rparr> else v)"
  have v: "ut_outbounds v = ut_outbounds u" "ut_closed v = ut_closed u"
    "ut_tags v = gkeys (gorange iter (ut_outbounds u))" by (simp_all add: v_def Let_def)
  have rem: "ut_Remove1 nest order iter t g =
      (if ut_isClosed g then ((0, Some ErrGroupClosed), g) else if ut_tags g = [] then ((0, None), g)
       else ((n, None), updateSelectedLocked nest order v))"
    by (simp add: ut_Remove1_def ut_Remove_def f v_def Let_def)
  note u = ut_removeTag_effect [OF f]
  have none: "ut_tags g = [] \<Longrightarrow> gget (ut_outbounds g) x = None" for x using assms by (simp add: ut_listed_def)
  show "ut_isClosed g \<Longrightarrow> ut_Remove1 nest order iter t g = ((0, Some ErrGroupClosed), g)" by (simp add: rem)
  show "\<not> ut_isClosed g \<Longrightarrow> fst (ut_Remove1 nest order iter t g) = (if ut_member g t then 1 else 0, None)"
    using u none by (simp add: rem)
  show "ut_listed (snd (ut_Remove1 nest order iter t g))"
    using assms none by (simp add: rem ut_listed_def v in_gorange_keys del: set_map gkeys_gorange)
  show "\<not> ut_isClosed g \<Longrightarrow>
      gget (ut_outbounds (snd (ut_Remove1 nest order iter t g))) = (gget (ut_outbounds g))(t := None)"
    using u none by (auto simp: rem v fun_eq_iff)
  show "ut_isClosed (snd (ut_Remove1 nest order iter t g)) = ut_isClosed g"
    using u by (simp add: rem v ut_isClosed_def)
qed

interpretation urltest: mutable_group ut_Add1 "ut_Remove1 nest order iter" ut_member "\<lambda>g. \<not> ut_isClosed g" ut_listed
  for nest order iter
proof unfold_locales
  fix g t
  show "\<not> \<not> ut_isClosed g \<Longrightarrow> ut_Remove1 nest order iter t g = ((0, Some ErrGroupClosed), g)"
    by (simp add: ut_Remove1_def ut_Remove_def)
qed (simp_all add: ut_Add1_eq ut_Remove1_effect ut_listed_put fun_eq_iff ut_isClosed_put split: option.split)

end
