(* ===== verification/Group_Manager.thy ===== *)
theory Group_Manager
  imports Removal_Queue Url_Selection
begin

text \<open>
  The manager of the mutable groups (\<open>MutableGroupManager\<close> of \<open>adapter/groups/manager.go\<close>): creating
  outbounds and endpoints for a group, adding, replacing and removing members, and queueing what left a
  group for removal. The groups are the three of this program; the manager asks each which of the
  optional interfaces it implements. Every operation runs with the manager's lock held, and what it
  does with a member runs with the queue's lock held too.
\<close>

section \<open>The groups\<close>

datatype groupObj = AutoSelectGroup mas | SelectorGroup selector | URLTestGroup urlTestGroup

text \<open>What a call into a group depends on besides its state.\<close>

record callEnv =
  ce_env :: env
  ce_storeOk :: bool
  ce_order :: "(tag, outbound) gomap \<Rightarrow> (tag, outbound) gomap"
  ce_nest :: nesting
  ce_orders :: orders
  ce_isURLTest :: "outbound \<Rightarrow> bool"
  ce_probe :: "urlTestJob \<Rightarrow> u16 option"

definition group_Add ::
  "callEnv \<Rightarrow> (tag \<Rightarrow> outbound option) \<Rightarrow> tag \<Rightarrow> groupObj \<Rightarrow> (int \<times> groupError option) \<times> groupObj" where
  "group_Add c mgr tag g =
     (case g of
        AutoSelectGroup s \<Rightarrow> map_prod id AutoSelectGroup (auto_Add (ce_env c) mgr tag s)
      | SelectorGroup s \<Rightarrow> map_prod id SelectorGroup (sl_Add1 mgr tag s)
      | URLTestGroup s \<Rightarrow> map_prod id URLTestGroup (ut_Add1 mgr tag s))"

definition group_Remove :: "callEnv \<Rightarrow> tag \<Rightarrow> groupObj \<Rightarrow> (int \<times> groupError option) \<times> groupObj" where
  "group_Remove c tag g =
     (case g of
        AutoSelectGroup s \<Rightarrow> map_prod id AutoSelectGroup (auto_Remove (ce_env c) tag s)
      | SelectorGroup s \<Rightarrow> map_prod id SelectorGroup (sl_Remove1 (ce_order c) (ce_storeOk c) tag s)
      | URLTestGroup s \<Rightarrow> map_prod id URLTestGroup (ut_Remove1 (ce_nest c) (ce_orders c) (ce_order c) tag s))"

text \<open>\<open>MemberReplacer\<close>: the selector and the URL-test group.\<close>

definition group_Replace ::
  "callEnv \<Rightarrow> (tag \<Rightarrow> outbound option) \<Rightarrow> tag \<Rightarrow> groupObj \<Rightarrow> ((int \<times> groupError option) \<times> groupObj) option" where
  "group_Replace c mgr tag g =
     (case g of
        AutoSelectGroup s \<Rightarrow> None
      | SelectorGroup s \<Rightarrow> Some (map_prod id SelectorGroup (sl_Replace mgr [tag] s))
      | URLTestGroup s \<Rightarrow> Some (map_prod id URLTestGroup (ut_Replace (ce_nest c) (ce_orders c) mgr [tag] s)))"

text \<open>\<open>URLOverrideSetter\<close>, \<open>ProbeTimeoutSetter\<close> and \<open>OutboundChecker\<close>.\<close>

definition group_SetURLOverrides :: "callEnv \<Rightarrow> (tag, string) gomap \<Rightarrow> groupObj \<Rightarrow> groupObj option" where
  "group_SetURLOverrides c overrides g =
     (case g of
        AutoSelectGroup s \<Rightarrow> Some (AutoSelectGroup (SetURLOverrides (ce_env c) overrides s))
      | SelectorGroup s \<Rightarrow> None
      | URLTestGroup s \<Rightarrow> Some (URLTestGroup (ut_SetURLOverrides overrides s)))"

definition group_SetProbeTimeouts :: "(outboundType, u32) gomap \<Rightarrow> groupObj \<Rightarrow> groupObj option" where
  "group_SetProbeTimeouts timeoutsMs g =
     (case g of
        AutoSelectGroup s \<Rightarrow> Some (AutoSelectGroup (SetProbeTimeouts timeoutsMs s))
      | _ \<Rightarrow> None)"

definition group_CheckOutbounds :: "callEnv \<Rightarrow> (tag \<Rightarrow> outbound option) \<Rightarrow> groupObj \<Rightarrow> groupObj option" where
  "group_CheckOutbounds c mgr g =
     (case g of
        AutoSelectGroup s \<Rightarrow> Some (AutoSelectGroup (CheckOutbounds (ce_env c) s))
      | SelectorGroup s \<Rightarrow> None
      | URLTestGroup s \<Rightarrow>
          Some (URLTestGroup (snd (ut_urlTest (ce_nest c) (ce_isURLTest c) mgr (ce_orders c) (ce_probe c)
                                     (ev_now (ce_env c)) True s))))"

section \<open>The manager\<close>

record 'r groupManager =
  gm_groups :: "(tag, groupObj) gomap"
  gm_queue :: removalQueue
  gm_registry :: 'r
  gm_closed :: bool

datatype managerError =
    ErrIsClosed
  | ErrGroupNotFound tag
  | ErrCreate
  | ErrUnknown
  | ErrFailed groupError
  | ErrNotSupported tag
  | ErrNotMember tag

definition NewMutableGroupManager :: "(tag \<times> groupObj) list \<Rightarrow> 'r \<Rightarrow> 'r groupManager" where
  "NewMutableGroupManager groups r =
     \<lparr>gm_groups = fold (\<lambda>(tag, g). gput tag g) groups [], gm_queue = newRemovalQueue, gm_registry = r, gm_closed = False\<rparr>"

definition gm_Close :: "'r groupManager \<Rightarrow> 'r groupManager" where
  "gm_Close m = (if gm_closed m then m else m\<lparr>gm_closed := True, gm_queue := rq_close (gm_queue m)\<rparr>)"

definition OutboundGroup :: "tag \<Rightarrow> 'r groupManager \<Rightarrow> groupObj option" where
  "OutboundGroup tag m = gget (gm_groups m) tag"

text \<open>\<open>cancelIf\<close>: the function runs under the queue's lock, on the manager's state.\<close>

definition cancelIf :: "tag \<Rightarrow> ('r groupManager \<Rightarrow> bool \<times> 'r groupManager) \<Rightarrow> 'r groupManager \<Rightarrow> 'r groupManager" where
  "cancelIf tag fn m =
     (case fn m of
        (True, m) \<Rightarrow> m\<lparr>gm_queue := dequeue tag (gm_queue m)\<rparr>
      | (False, m) \<Rightarrow> m)"

definition gm_lookup :: "'r registry \<Rightarrow> 'r groupManager \<Rightarrow> tag \<Rightarrow> outbound option" where
  "gm_lookup ops m = rg_outbound ops (gm_registry m)"

text \<open>What adding a created outbound to its group comes to: the error of the addition, whether the
  group now holds the new outbound, and whether it held the tag before.\<close>

definition addCreated ::
  "callEnv \<Rightarrow> (tag \<Rightarrow> outbound option) \<Rightarrow> tag \<Rightarrow> groupObj \<Rightarrow> (managerError option \<times> bool \<times> bool) \<times> groupObj" where
  "addCreated c mgr tag outGroup =
     (let ((n, addErr), outGroup) = group_Add c mgr tag outGroup;
          ((n, addErr), memberExisted, outGroup) =
            (if addErr = None \<and> n = 0
             then (case group_Replace c mgr tag outGroup of
                     Some ((n, addErr), outGroup) \<Rightarrow> ((n, addErr), True, outGroup)
                   | None \<Rightarrow> ((n, addErr), True, outGroup))
             else ((n, addErr), False, outGroup));
          referenced = (addErr = None \<and> n > 0);
          err = (case addErr of Some e \<Rightarrow> Some (ErrFailed e) | None \<Rightarrow> if n = 0 then Some ErrUnknown else None) in
      ((err, referenced, memberExisted), outGroup))"

definition createForGroup ::
  "'r registry \<Rightarrow> callEnv \<Rightarrow> bool \<Rightarrow> tag \<Rightarrow> tag \<Rightarrow> 'r groupManager \<Rightarrow> managerError option \<times> 'r groupManager" where
  "createForGroup ops c isEndpoint grp tag m =
     (if gm_closed m then (Some ErrIsClosed, m)
      else case gget (gm_groups m) grp of
        None \<Rightarrow> (Some (ErrGroupNotFound grp), m)
      | Some outGroup \<Rightarrow>
          (case rg_create ops isEndpoint tag (gm_registry m) of
             (False, r) \<Rightarrow> (Some ErrCreate, m\<lparr>gm_registry := r\<rparr>)
           | (True, r) \<Rightarrow>
               let ((err, referenced, memberExisted), outGroup) = addCreated c (rg_outbound ops r) tag outGroup;
                   m = cancelIf tag (\<lambda>m. (referenced,
                         m\<lparr>gm_registry := r, gm_groups := gput grp outGroup (gm_groups m)\<rparr>)) m in
               (case err of
                  None \<Rightarrow> (None, m)
                | Some e \<Rightarrow>
                    (Some e,
                     if \<not> referenced \<and> \<not> memberExisted
                     then m\<lparr>gm_queue := enqueue (ev_now (ce_env c)) tag isEndpoint (gm_queue m)\<rparr> else m))))"

definition CreateOutboundForGroup ::
  "'r registry \<Rightarrow> callEnv \<Rightarrow> tag \<Rightarrow> tag \<Rightarrow> 'r groupManager \<Rightarrow> managerError option \<times> 'r groupManager" where
  "CreateOutboundForGroup ops c grp tag m = createForGroup ops c False grp tag m"

definition CreateEndpointForGroup ::
  "'r registry \<Rightarrow> callEnv \<Rightarrow> tag \<Rightarrow> tag \<Rightarrow> 'r groupManager \<Rightarrow> managerError option \<times> 'r groupManager" where
  "CreateEndpointForGroup ops c grp tag m = createForGroup ops c True grp tag m"

definition gm_addTag ::
  "callEnv \<Rightarrow> (tag \<Rightarrow> outbound option) \<Rightarrow> tag \<Rightarrow> groupObj \<Rightarrow> managerError option \<times> groupObj" where
  "gm_addTag c mgr tag outGroup =
     (case group_Add c mgr tag outGroup of
        ((n, Some e), outGroup) \<Rightarrow> (Some (ErrFailed e), outGroup)
      | ((n, None), outGroup) \<Rightarrow> (if n = 0 then Some ErrUnknown else None, outGroup))"

definition AddToGroup ::
  "'r registry \<Rightarrow> callEnv \<Rightarrow> tag \<Rightarrow> tag \<Rightarrow> 'r groupManager \<Rightarrow> managerError option \<times> 'r groupManager" where
  "AddToGroup ops c grp tag m =
     (if gm_closed m then (Some ErrIsClosed, m)
      else case gget (gm_groups m) grp of
        None \<Rightarrow> (Some (ErrGroupNotFound grp), m)
      | Some outGroup \<Rightarrow>
          let (err, outGroup) = gm_addTag c (gm_lookup ops m) tag outGroup in
          (err, cancelIf tag (\<lambda>m. (err = None, m\<lparr>gm_groups := gput grp outGroup (gm_groups m)\<rparr>)) m))"

definition ReplaceInGroup ::
  "'r registry \<Rightarrow> callEnv \<Rightarrow> tag \<Rightarrow> tag \<Rightarrow> 'r groupManager \<Rightarrow> managerError option \<times> 'r groupManager" where
  "ReplaceInGroup ops c grp tag m =
     (if gm_closed m then (Some ErrIsClosed, m)
      else case gget (gm_groups m) grp of
        None \<Rightarrow> (Some (ErrGroupNotFound grp), m)
      | Some outGroup \<Rightarrow>
          (case group_Replace c (gm_lookup ops m) tag outGroup of
             None \<Rightarrow> (Some (ErrNotSupported grp), m)
           | Some ((n, err), outGroup) \<Rightarrow>
               let m = cancelIf tag (\<lambda>m. (err = None \<and> n > 0,
                         m\<lparr>gm_groups := gput grp outGroup (gm_groups m)\<rparr>)) m in
               (case err of
                  Some e \<Rightarrow> (Some (ErrFailed e), m)
                | None \<Rightarrow> (if n = 0 then Some (ErrNotMember tag) else None, m))))"

text \<open>The three calls on an optional interface.\<close>

definition updateGroup ::
  "(groupObj \<Rightarrow> groupObj option) \<Rightarrow> tag \<Rightarrow> 'r groupManager \<Rightarrow> managerError option \<times> 'r groupManager" where
  "updateGroup f grp m =
     (if gm_closed m then (Some ErrIsClosed, m)
      else case gget (gm_groups m) grp of
        None \<Rightarrow> (Some (ErrGroupNotFound grp), m)
      | Some outGroup \<Rightarrow>
          (case f outGroup of
             None \<Rightarrow> (Some (ErrNotSupported grp), m)
           | Some outGroup \<Rightarrow> (None, m\<lparr>gm_groups := gput grp outGroup (gm_groups m)\<rparr>)))"

definition gm_SetURLOverrides ::
  "callEnv \<Rightarrow> tag \<Rightarrow> (tag, string) gomap \<Rightarrow> 'r groupManager \<Rightarrow> managerError option \<times> 'r groupManager" where
  "gm_SetURLOverrides c grp overrides m = updateGroup (group_SetURLOverrides c overrides) grp m"

definition gm_SetProbeTimeouts ::
  "tag \<Rightarrow> (outboundType, u32) gomap \<Rightarrow> 'r groupManager \<Rightarrow> managerError option \<times> 'r groupManager" where
  "gm_SetProbeTimeouts grp timeoutsMs m = updateGroup (group_SetProbeTimeouts timeoutsMs) grp m"

definition gm_CheckOutbounds ::
  "'r registry \<Rightarrow> callEnv \<Rightarrow> tag \<Rightarrow> 'r groupManager \<Rightarrow> managerError option \<times> 'r groupManager" where
  "gm_CheckOutbounds ops c grp m = updateGroup (group_CheckOutbounds c (gm_lookup ops m)) grp m"

definition RemoveFromGroup ::
  "'r registry \<Rightarrow> callEnv \<Rightarrow> tag \<Rightarrow> tag \<Rightarrow> 'r groupManager \<Rightarrow> managerError option \<times> 'r groupManager" where
  "RemoveFromGroup ops c grp tag m =
     (if gm_closed m then (Some ErrIsClosed, m)
      else case gget (gm_groups m) grp of
        None \<Rightarrow> (Some (ErrGroupNotFound grp), m)
      | Some groupObj \<Rightarrow>
          (case group_Remove c tag groupObj of
             ((n, err), groupObj) \<Rightarrow>
               let m = m\<lparr>gm_groups := gput grp groupObj (gm_groups m)\<rparr> in
               if err \<noteq> None \<and> err \<noteq> Some ErrGroupClosed then (map_option ErrFailed err, m)
               else (case gm_lookup ops m tag of
                       None \<Rightarrow> (None, m)
                     | Some out \<Rightarrow>
                         if ce_nest c out = None
                         then (None, m\<lparr>gm_queue := enqueue (ev_now (ce_env c)) tag
                                         (rg_endpoint ops (gm_registry m) tag) (gm_queue m)\<rparr>)
                         else (None, m))))"

section \<open>The groups meet the contract\<close>

definition group_outbound :: "groupObj \<Rightarrow> tag \<Rightarrow> outbound option" where
  "group_outbound g =
     (case g of
        AutoSelectGroup s \<Rightarrow> gget (m_members s)
      | SelectorGroup s \<Rightarrow> gget (sl_outbounds s)
      | URLTestGroup s \<Rightarrow> gget (ut_outbounds s))"

abbreviation group_mem :: "groupObj \<Rightarrow> tag \<Rightarrow> bool" where
  "group_mem g t \<equiv> group_outbound g t \<noteq> None"

definition group_opened :: "groupObj \<Rightarrow> bool" where
  "group_opened g =
     (case g of
        AutoSelectGroup s \<Rightarrow> \<not> isClosed s
      | SelectorGroup s \<Rightarrow> True
      | URLTestGroup s \<Rightarrow> \<not> ut_isClosed s)"

definition group_ok :: "groupObj \<Rightarrow> bool" where
  "group_ok g =
     (case g of
        AutoSelectGroup s \<Rightarrow> True
      | SelectorGroup s \<Rightarrow> sl_listed s
      | URLTestGroup s \<Rightarrow> ut_listed s)"

lemmas group_defs = group_Add_def group_Remove_def group_outbound_def group_opened_def group_ok_def

interpretation anygroup: mutable_group "group_Add c" "group_Remove c" group_mem group_opened group_ok for c
proof unfold_locales
  fix g t mgr out
  show "group_ok g \<Longrightarrow> group_opened g \<Longrightarrow> \<not> group_mem g t \<Longrightarrow> mgr t = Some out \<Longrightarrow> fst (group_Add c mgr t g) = (1, None)"
    by (cases g) (simp_all add: group_defs auto.add_new selector.add_new urltest.add_new)
  show "group_ok g \<Longrightarrow> group_opened g \<Longrightarrow> group_mem g t \<Longrightarrow> fst (group_Add c mgr t g) = (0, None)"
    by (cases g) (simp_all add: group_defs auto.add_old selector.add_old urltest.add_old)
  show "group_ok g \<Longrightarrow> group_opened g \<Longrightarrow> \<not> group_mem g t \<Longrightarrow> mgr t = None \<Longrightarrow>
      fst (fst (group_Add c mgr t g)) = 0 \<and> snd (fst (group_Add c mgr t g)) \<noteq> None"
    using auto.add_unknown selector.add_unknown urltest.add_unknown
    by (cases g) (simp_all add: group_defs)
  show "group_ok g \<Longrightarrow> group_opened g \<Longrightarrow>
      group_mem (snd (group_Add c mgr t g)) = (group_mem g)(t := group_mem g t \<or> mgr t \<noteq> None)"
    using auto.add_mem [of _ "ce_env c" mgr t] selector.add_mem [of _ mgr t] urltest.add_mem [of _ mgr t]
    by (cases g) (simp_all add: group_defs)
  show "\<not> group_opened g \<Longrightarrow> group_Add c mgr t g = ((0, Some ErrGroupClosed), g)"
    by (cases g) (simp_all add: group_defs auto.add_closed urltest.add_closed)
  show "group_ok g \<Longrightarrow> group_opened (snd (group_Add c mgr t g)) = group_opened g"
    using auto.add_opened urltest.add_opened by (cases g) (simp_all add: group_defs)
  show "group_ok g \<Longrightarrow> group_ok (snd (group_Add c mgr t g))"
    by (cases g) (simp_all add: group_defs selector.add_ginv urltest.add_ginv)
  show "group_ok g \<Longrightarrow> group_opened g \<Longrightarrow> fst (group_Remove c t g) = (if group_mem g t then 1 else 0, None)"
    by (cases g) (simp_all add: group_defs auto.remove_result selector.remove_result urltest.remove_result)
  show "group_ok g \<Longrightarrow> group_opened g \<Longrightarrow> group_mem (snd (group_Remove c t g)) = (group_mem g)(t := False)"
    using auto.remove_mem [of _ "ce_env c" t] selector.remove_mem [of _ "ce_order c" "ce_storeOk c" t]
      urltest.remove_mem [of _ "ce_nest c" "ce_orders c" "ce_order c" t]
    by (cases g) (simp_all add: group_defs)
  show "\<not> group_opened g \<Longrightarrow> group_Remove c t g = ((0, Some ErrGroupClosed), g)"
    by (cases g) (simp_all add: group_defs auto.remove_closed urltest.remove_closed)
  show "group_ok g \<Longrightarrow> group_opened (snd (group_Remove c t g)) = group_opened g"
    using auto.remove_opened urltest.remove_opened by (cases g) (simp_all add: group_defs)
  show "group_ok g \<Longrightarrow> group_ok (snd (group_Remove c t g))"
    by (cases g) (simp_all add: group_defs selector.remove_ginv urltest.remove_ginv)
qed

text \<open>After a successful addition or replacement the group holds the manager's outbound.\<close>

lemma group_Add_holds:
  assumes "group_Add c mgr t g = ((n, None), g')" and "n \<noteq> 0"
  shows "group_outbound g' t = mgr t \<and> mgr t \<noteq> None"
proof (cases g)
  case (AutoSelectGroup s)
  then obtain s' where s': "Add (ce_env c) mgr [t] s = ((n, None), s')" "g' = AutoSelectGroup s'"
    using assms(1) by (cases "Add (ce_env c) mgr [t] s") (auto simp: group_Add_def auto_Add_def)
  with Add_effect [of "[t]" s mgr "ce_env c"] assms(2) show ?thesis
    unfolding singleton_set Let_def by (auto simp: group_outbound_def split: if_splits)
qed (use assms in \<open>auto simp: group_Add_def sl_Add1_eq ut_Add1_eq group_outbound_def split: option.splits if_splits\<close>)

lemma sl_Replace_one:
  "sl_Replace mgr [t] s =
     (case gget (sl_outbounds s) t of
        None \<Rightarrow> ((0, None), s)
      | Some old \<Rightarrow>
          (case mgr t of
             None \<Rightarrow> ((0, Some (ErrOutboundsNotFound [t])), s)
           | Some out \<Rightarrow> ((1, None), snd (snd (sl_replaceTag mgr t ([], 0, s))))))"
  by (simp add: sl_Replace_def sl_result_def sl_replaceTag_def split: option.split)

lemma ut_Replace_one:
  "ut_Replace nest order mgr [t] g =
     (if ut_isClosed g then ((0, Some ErrGroupClosed), g)
      else case gget (ut_outbounds g) t of
        None \<Rightarrow> ((0, None), g)
      | Some old \<Rightarrow>
          (case mgr t of
             None \<Rightarrow> ((0, Some (ErrOutboundsNotFound [t])), g)
           | Some out \<Rightarrow> ((1, None), snd (snd (ut_replaceTag nest order mgr t ([], 0, g))))))"
  by (simp add: ut_Replace_def ut_result_def ut_replaceTag_def Let_def split: option.split)

lemma ut_replaceTag_members:
  "gget (ut_outbounds (snd (snd (ut_replaceTag nest order mgr t (missing, n, g))))) =
     (gget (ut_outbounds g))(t := if ut_member g t \<and> mgr t \<noteq> None then mgr t else gget (ut_outbounds g) t)"
  "ut_tags (snd (snd (ut_replaceTag nest order mgr t (missing, n, g)))) = ut_tags g"
  by (auto simp: ut_replaceTag_def Let_def fun_eq_iff split: option.split)

lemma sl_replaceTag_members:
  "gget (sl_outbounds (snd (snd (sl_replaceTag mgr t (missing, n, s))))) =
     (gget (sl_outbounds s))(t := if sl_member s t \<and> mgr t \<noteq> None then mgr t else gget (sl_outbounds s) t)"
  "sl_tags (snd (snd (sl_replaceTag mgr t (missing, n, s)))) = sl_tags s"
  by (auto simp: sl_replaceTag_def fun_eq_iff split: option.split)

lemma group_Replace_holds:
  assumes "group_Replace c mgr t g = Some ((n, None), g')" and "n \<noteq> 0"
  shows "group_outbound g' t = mgr t \<and> mgr t \<noteq> None"
  using assms
  by (cases g)
    (auto simp: group_Replace_def sl_Replace_one ut_Replace_one group_outbound_def
      sl_replaceTag_members ut_replaceTag_members split: option.splits if_splits)

lemma group_Replace_ok:
  assumes "group_ok g" and "group_Replace c mgr t g = Some (res, g')"
  shows "group_ok g'"
proof (cases g)
  case (SelectorGroup s)
  have "sl_listed (snd (snd (sl_replaceTag mgr t ([], 0, s))))"
    using assms(1) SelectorGroup by (auto simp: group_ok_def sl_listed_def sl_replaceTag_members)
  with assms SelectorGroup show ?thesis
    by (auto simp: group_Replace_def sl_Replace_one group_ok_def split: option.splits)
next
  case (URLTestGroup s)
  have "ut_listed (snd (snd (ut_replaceTag (ce_nest c) (ce_orders c) mgr t ([], 0, s))))"
    using assms(1) URLTestGroup by (auto simp: group_ok_def ut_listed_def ut_replaceTag_members)
  with assms URLTestGroup show ?thesis
    by (auto simp: group_Replace_def ut_Replace_one group_ok_def split: option.splits if_splits)
qed (use assms in \<open>simp add: group_Replace_def\<close>)

section \<open>The manager's invariant\<close>

definition gm_ok :: "'r groupManager \<Rightarrow> bool" where
  "gm_ok m \<longleftrightarrow> (\<forall>t. pred_option group_ok (gget (gm_groups m) t)) \<and> (rq_done (gm_queue m) \<longrightarrow> gm_closed m)"

lemma gm_okD: "gm_ok m \<Longrightarrow> gget (gm_groups m) t = Some g \<Longrightarrow> group_ok g"
  unfolding gm_ok_def by (metis option.pred_inject(2))

lemma enqueue_pending:
  "\<not> rq_done q \<Longrightarrow> gget (rq_pending (enqueue now t ep q)) t \<noteq> None"
  "rq_done (enqueue now t ep q) = rq_done q"
  by (auto simp: enqueue_def Let_def)

lemma dequeue_pending: "gget (rq_pending (dequeue t q)) t = None" "rq_done (dequeue t q) = rq_done q"
  by (simp_all add: dequeue_def)

lemma cancelIf_const:
  "cancelIf t (\<lambda>m. (b, f m)) m = (if b then (f m)\<lparr>gm_queue := dequeue t (gm_queue (f m))\<rparr> else f m)"
  by (simp add: cancelIf_def split: bool.split)

lemma gm_ok_put:
  assumes "gm_ok m" and "group_ok g"
  shows "gm_ok (m\<lparr>gm_groups := gput t g (gm_groups m)\<rparr>)"
    and "gm_ok (m\<lparr>gm_registry := r\<rparr>)"
    and "gm_ok (m\<lparr>gm_queue := dequeue t (gm_queue m)\<rparr>)"
    and "gm_ok (m\<lparr>gm_queue := enqueue now t ep (gm_queue m)\<rparr>)"
  using assms by (simp_all add: gm_ok_def enqueue_pending dequeue_pending)

section \<open>Guarantees\<close>

text \<open>C5: adding a tag rescues it from removal. When \<open>AddToGroup\<close> succeeds, the group holds the outbound
  registered under the tag, and no removal of the tag is pending; from then on the queue's goroutine,
  whatever it had already decided to remove, neither removes the outbound nor queues it.\<close>

theorem added_tag_survives:
  assumes "registry_ok ops" and "AddToGroup ops c grp tag m = (None, m')"
    and "(loop_step ops)\<^sup>*\<^sup>* (gm_queue m', gm_registry m') (q, r)"
  shows "\<exists>g out. gget (gm_groups m') grp = Some g \<and> group_outbound g tag = Some out \<and>
    rg_outbound ops r tag = Some out \<and> gget (rq_pending q) tag = None"
proof -
  obtain g0 where g0: "\<not> gm_closed m" "gget (gm_groups m) grp = Some g0"
    using assms(2) by (auto simp: AddToGroup_def split: if_splits option.splits)
  obtain n e g where add: "group_Add c (gm_lookup ops m) tag g0 = ((n, e), g)" by (metis surj_pair)
  have "e = None" "n \<noteq> 0" and m': "m' = m\<lparr>gm_groups := gput grp g (gm_groups m), gm_queue := dequeue tag (gm_queue m)\<rparr>"
    using assms(2) g0 add by (auto simp: AddToGroup_def gm_addTag_def cancelIf_const split: option.splits if_splits)
  with add group_Add_holds have holds: "group_outbound g tag = gm_lookup ops m tag" "gm_lookup ops m tag \<noteq> None" by blast+
  have "gget (rq_pending (gm_queue m')) tag = None" by (simp add: m' dequeue_pending)
  from loop_steps_unqueued [OF assms(1,3) this]
  have "gget (rq_pending q) tag = None" "rg_outbound ops r tag = gm_lookup ops m tag"
    by (simp_all add: m' gm_lookup_def)
  with holds show ?thesis by (auto simp: m')
qed

definition exampleCall :: callEnv where
  "exampleCall =
     \<lparr>ce_env = exampleEnv 9, ce_storeOk = True, ce_order = id, ce_nest = flat, ce_orders = (\<lambda>_. id),
      ce_isURLTest = (\<lambda>_. False), ce_probe = (\<lambda>_. None)\<rparr>"

text \<open>A manager with one selector, whose queue's goroutine is about to remove \<open>cc\<close>.\<close>

definition exampleManager :: "(tag, outbound) gomap groupManager" where
  "exampleManager =
     \<lparr>gm_groups = [(''sel'', SelectorGroup exampleSelector)],
      gm_queue = checkSnapshot id 5 [] (loopStart (enqueue 2 ''cc'' False newRemovalQueue)),
      gm_registry = (''cc'', exampleOutbound ''cc'') # exampleRegistered, gm_closed = False\<rparr>"

theorem added_tag_survives_witness:
  "let (err, m') = AddToGroup exampleRegistry exampleCall ''sel'' ''cc'' exampleManager;
       (q, r) = checkRemove exampleRegistry [''cc''] (gm_queue m') (gm_registry m') in
   err = None \<and> rq_loop (gm_queue m') = Some (AtRemove [''cc'']) \<and> rg_outbound exampleRegistry r ''cc'' \<noteq> None"
proof -
  obtain err m' where a: "AddToGroup exampleRegistry exampleCall ''sel'' ''cc'' exampleManager = (err, m')" by force
  have ok: "fst (AddToGroup exampleRegistry exampleCall ''sel'' ''cc'' exampleManager) = None"
    and pc: "rq_loop (gm_queue (snd (AddToGroup exampleRegistry exampleCall ''sel'' ''cc'' exampleManager))) = Some (AtRemove [''cc''])"
    by code_simp+
  then have a': "AddToGroup exampleRegistry exampleCall ''sel'' ''cc'' exampleManager = (None, m')"
    "rq_loop (gm_queue m') = Some (AtRemove [''cc''])" using a by simp_all
  obtain q r where c: "checkRemove exampleRegistry [''cc''] (gm_queue m') (gm_registry m') = (q, r)" by force
  have "loop_step exampleRegistry (gm_queue m', gm_registry m') (q, r)"
    using removal [OF a'(2), of exampleRegistry "gm_registry m'"] c by simp
  from added_tag_survives [OF exampleRegistry_ok a'(1) r_into_rtranclp [of "loop_step exampleRegistry", OF this]]
  show ?thesis using a' c by auto
qed

lemma addCreated_cases:
  assumes "group_ok g" and "addCreated c mgr tag g = ((err, referenced, memberExisted), g')"
  shows "group_ok g' \<and> (memberExisted \<longleftrightarrow> group_mem g tag \<and> group_opened g) \<and> (referenced \<longleftrightarrow> err = None) \<and>
    (err = None \<longrightarrow> group_outbound g' tag = mgr tag \<and> mgr tag \<noteq> None)"
proof -
  obtain n e g1 where add: "group_Add c mgr tag g = ((n, e), g1)" by (metis surj_pair)
  have ok1: "group_ok g1" using anygroup.add_ginv [OF assms(1), of c mgr tag] add by simp
  have "n \<ge> 0 \<and> (e = None \<and> n = 0 \<longleftrightarrow> group_opened g \<and> group_mem g tag)"
    using anygroup.add_new [OF assms(1), of tag mgr _ c] anygroup.add_old [OF assms(1), of tag c mgr]
      anygroup.add_unknown [OF assms(1), of tag mgr c] anygroup.add_closed [of g c mgr tag] add
    by (cases "group_opened g"; cases "group_mem g tag"; cases "mgr tag") auto
  then have n: "n \<ge> 0" and old: "e = None \<and> n = 0 \<longleftrightarrow> group_opened g \<and> group_mem g tag" by blast+
  show ?thesis
  proof (cases "e = None \<and> n = 0")
    case False
    with assms(2) add n old ok1 group_Add_holds [of c mgr tag g n g1] show ?thesis
      by (auto simp: addCreated_def split: option.splits if_splits)
  next
    case True
    show ?thesis
    proof (cases "group_Replace c mgr tag g1")
      case None
      with True assms(2) add old ok1 show ?thesis by (auto simp: addCreated_def)
    next
      case (Some x)
      then obtain k e2 g2 where rep: "group_Replace c mgr tag g1 = Some ((k, e2), g2)" by (metis surj_pair)
      have "group_ok g2" using ok1 rep by (rule group_Replace_ok)
      moreover have "k \<ge> 0" using rep
        by (cases g1) (auto simp: group_Replace_def sl_Replace_one ut_Replace_one split: option.splits if_splits)
      ultimately show ?thesis
        using True assms(2) add old rep group_Replace_holds [of c mgr tag g1 k g2]
        by (auto simp: addCreated_def split: option.splits if_splits)
    qed
  qed
qed

text \<open>A created outbound is either in its group or on its way out. Suppose creating an outbound for a
  group got as far as creating it. If the call reports success, the group holds the outbound now
  registered under the tag and no removal of it is pending. If it reports that the addition failed, then
  either the group held the tag by name already, or a removal of the outbound is pending, so that it
  does not stay registered without a group.\<close>

lemma created_joins_or_is_queued:
  assumes "gm_ok m" and "createForGroup ops c isEndpoint grp tag m = (err, m')"
    and "gget (gm_groups m) grp = Some g" and "\<not> gm_closed m" and "fst (rg_create ops isEndpoint tag (gm_registry m))"
  shows "gm_ok m' \<and>
    (if err = None
     then \<exists>g' out. gget (gm_groups m') grp = Some g' \<and> group_outbound g' tag = Some out \<and>
            rg_outbound ops (gm_registry m') tag = Some out \<and> gget (rq_pending (gm_queue m')) tag = None
     else group_mem g tag \<or> gget (rq_pending (gm_queue m')) tag \<noteq> None)"
proof -
  obtain r where cr: "rg_create ops isEndpoint tag (gm_registry m) = (True, r)" using assms(5) by (metis prod.collapse)
  obtain e ref ex g' where ac: "addCreated c (rg_outbound ops r) tag g = ((e, ref, ex), g')" by (metis prod_cases4 surj_pair)
  note cases = addCreated_cases [OF gm_okD [OF assms(1,3)] ac]
  define m1 where "m1 = m\<lparr>gm_registry := r, gm_groups := gput grp g' (gm_groups m)\<rparr>"
  have ok1: "gm_ok m1" using assms(1) cases by (simp add: m1_def gm_ok_def)
  have open1: "\<not> rq_done (gm_queue m1)" using assms(1,4) by (auto simp: m1_def gm_ok_def)
  have res: "(err, m') =
      (case e of
         None \<Rightarrow> (None, m1\<lparr>gm_queue := dequeue tag (gm_queue m1)\<rparr>)
       | Some e \<Rightarrow> (Some e, if ex then m1 else m1\<lparr>gm_queue := enqueue (ev_now (ce_env c)) tag isEndpoint (gm_queue m1)\<rparr>))"
    using assms(2,3,4) cr ac cases by (auto simp: createForGroup_def cancelIf_const m1_def split: option.split)
  show ?thesis
  proof (cases e)
    case None
    with res cases ok1 show ?thesis by (auto simp: m1_def dequeue_pending gm_ok_def)
  next
    case (Some e')
    then have "err = Some e'" "m' = (if ex then m1 else m1\<lparr>gm_queue := enqueue (ev_now (ce_env c)) tag isEndpoint (gm_queue m1)\<rparr>)"
      using res by simp_all
    with cases ok1 Some enqueue_pending(1) [OF open1, of "ev_now (ce_env c)" tag isEndpoint] show ?thesis
      by (auto simp: enqueue_pending(2) gm_ok_def)
  qed
qed

lemma exampleManager_ok: "gm_ok exampleManager"
proof -
  have "sl_listed exampleSelector" by (auto simp: exampleSelector_eq sl_listed_def)
  moreover have "\<not> rq_done (gm_queue exampleManager)" by code_simp
  ultimately show ?thesis by (simp add: gm_ok_def exampleManager_def group_ok_def)
qed

text \<open>Removing a tag from a group. On a known group of an open manager \<open>RemoveFromGroup\<close> always
  succeeds. Afterwards the group does not hold the tag unless the group is closed, every other tag is
  held as before, and if the tag is registered and not itself a group, a removal of it is pending, so
  the outbound is cleaned up even when the tag was no member or the group is closed.\<close>

lemma removed_tag_is_queued:
  assumes "gm_ok m" and "\<not> gm_closed m" and "gget (gm_groups m) grp = Some g"
  shows "let (err, m') = RemoveFromGroup ops c grp tag m in
    err = None \<and> gm_ok m' \<and>
    (\<exists>g'. gget (gm_groups m') grp = Some g' \<and> (group_opened g \<longrightarrow> \<not> group_mem g' tag) \<and>
       (\<forall>u. u \<noteq> tag \<longrightarrow> group_mem g' u = group_mem g u)) \<and>
    (\<forall>out. rg_outbound ops (gm_registry m) tag = Some out \<longrightarrow> ce_nest c out = None \<longrightarrow>
       gget (rq_pending (gm_queue m')) tag \<noteq> None)"
proof -
  have ok: "group_ok g" using gm_okD [OF assms(1,3)] .
  obtain n e g' where rem: "group_Remove c tag g = ((n, e), g')" by (metis surj_pair)
  have e: "e = None \<or> e = Some ErrGroupClosed"
    using anygroup.remove_error [OF ok, of c tag] rem by (simp split: if_splits)
  have g': "group_opened g \<longrightarrow> \<not> group_mem g' tag" "\<forall>u. u \<noteq> tag \<longrightarrow> group_mem g' u = group_mem g u" "group_ok g'"
    using anygroup.absent_after_remove [OF ok, of c tag] anygroup.remove_only [OF ok, of _ tag c]
      anygroup.remove_ginv [OF ok, of c tag] rem by simp_all
  define m1 where "m1 = m\<lparr>gm_groups := gput grp g' (gm_groups m)\<rparr>"
  have ok1: "gm_ok m1" unfolding m1_def using assms(1) g'(3) by (rule gm_ok_put)
  have open1: "\<not> rq_done (gm_queue m1)" using assms(1,2) by (auto simp: m1_def gm_ok_def)
  define queued where "queued = m1\<lparr>gm_queue := enqueue (ev_now (ce_env c)) tag (rg_endpoint ops (gm_registry m1) tag) (gm_queue m1)\<rparr>"
  have queued: "gget (rq_pending (gm_queue queued)) tag \<noteq> None" "gm_ok queued" "gm_groups queued = gm_groups m1"
    using enqueue_pending(1) [OF open1] gm_ok_put(4) [OF ok1 g'(3)] by (simp_all add: queued_def)
  have "RemoveFromGroup ops c grp tag m =
      (None, case rg_outbound ops (gm_registry m) tag of
               None \<Rightarrow> m1 | Some out \<Rightarrow> if ce_nest c out = None then queued else m1)"
    using assms(2,3) rem e
    by (auto simp: RemoveFromGroup_def m1_def queued_def gm_lookup_def Let_def split: option.split)
  moreover have "gget (gm_groups m1) grp = Some g'" by (simp add: m1_def)
  ultimately show ?thesis using g' ok1 queued by (auto split: option.split)
qed

end
