(* ===== verification/Fallback.thy ===== *)
theory Fallback
  imports Mutable_Selector
begin

text \<open>
  The outbound with a fallback (\<open>protocol/group/fallback.go\<close>). The outbound manager's lookup may change
  between the two lookups of a dial, so each is an argument; \<open>dial i out\<close> is the outcome of the i-th dial,
  an error \<open>'e\<close> or a connection \<open>'c\<close>.
\<close>

record fallbackOutbound =
  fb_primaryTag :: tag
  fb_fallbackTag :: tag

datatype 'e fallbackError =
    ErrMissingPrimaryTag
  | ErrMissingFallbackTag
  | ErrSameTags tag
  | ErrMissingPrimary tag
  | ErrMissingFallback tag
  | ErrPrimaryNotFound tag
  | ErrFallbackNotFound tag
  | ErrOnFallback 'e

definition NewFallback :: "tag \<Rightarrow> tag \<Rightarrow> 'e fallbackError + fallbackOutbound" where
  "NewFallback primary fallback =
     (if primary = '''' then Inl ErrMissingPrimaryTag
      else if fallback = '''' then Inl ErrMissingFallbackTag
      else if primary = fallback then Inl (ErrSameTags primary)
      else Inr \<lparr>fb_primaryTag = primary, fb_fallbackTag = fallback\<rparr>)"

definition fb_Start :: "(tag \<Rightarrow> outbound option) \<Rightarrow> fallbackOutbound \<Rightarrow> 'e fallbackError option" where
  "fb_Start mgr d =
     (if mgr (fb_primaryTag d) = None then Some (ErrMissingPrimary (fb_primaryTag d))
      else if mgr (fb_fallbackTag d) = None then Some (ErrMissingFallback (fb_fallbackTag d))
      else None)"

definition fb_DialContext ::
  "(tag \<Rightarrow> outbound option) \<Rightarrow> (tag \<Rightarrow> outbound option) \<Rightarrow> (nat \<Rightarrow> outbound \<Rightarrow> 'e + 'c) \<Rightarrow> fallbackOutbound \<Rightarrow>
   'e fallbackError + 'c" where
  "fb_DialContext mgr mgr' dial d =
     (case mgr (fb_primaryTag d) of
        None \<Rightarrow> Inl (ErrPrimaryNotFound (fb_primaryTag d))
      | Some out \<Rightarrow>
          (case dial 0 out of
             Inr conn \<Rightarrow> Inr conn
           | Inl _ \<Rightarrow>
               (case mgr' (fb_fallbackTag d) of
                  None \<Rightarrow> Inl (ErrFallbackNotFound (fb_fallbackTag d))
                | Some out' \<Rightarrow>
                    (case dial 1 out' of
                       Inl err \<Rightarrow> Inl (ErrOnFallback err)
                     | Inr fallbackConn \<Rightarrow> Inr fallbackConn))))"

text \<open>\<open>ListenPacket\<close> is the same with listening in place of dialing.\<close>

definition fb_ListenPacket ::
  "(tag \<Rightarrow> outbound option) \<Rightarrow> (tag \<Rightarrow> outbound option) \<Rightarrow> (nat \<Rightarrow> outbound \<Rightarrow> 'e + 'c) \<Rightarrow> fallbackOutbound \<Rightarrow>
   'e fallbackError + 'c" where
  "fb_ListenPacket mgr mgr' listen d =
     (case mgr (fb_primaryTag d) of
        None \<Rightarrow> Inl (ErrPrimaryNotFound (fb_primaryTag d))
      | Some out \<Rightarrow>
          (case listen 0 out of
             Inr conn \<Rightarrow> Inr conn
           | Inl _ \<Rightarrow>
               (case mgr' (fb_fallbackTag d) of
                  None \<Rightarrow> Inl (ErrFallbackNotFound (fb_fallbackTag d))
                | Some out' \<Rightarrow>
                    (case listen 1 out' of
                       Inl err \<Rightarrow> Inl (ErrOnFallback err)
                     | Inr fallbackConn \<Rightarrow> Inr fallbackConn))))"

text \<open>The fallback is a second chance through another outbound. Once constructed and started, and
  while its two outbounds stay registered, a dial (or a listen) that reports an error was tried on two
  different outbounds, first the primary and then the fallback, and failed on both; a connection it
  returns came from the primary, or from the fallback after the primary had failed.\<close>

lemma fallback_second_chance:
  assumes "mgr_tagged mgr" and "NewFallback primary fallback = (Inr d :: 'e fallbackError + fallbackOutbound)"
    and "fb_Start mgr d = (None :: 'e fallbackError option)"
  shows "\<exists>out out'. mgr primary = Some out \<and> mgr fallback = Some out' \<and> out \<noteq> out' \<and>
    fb_ListenPacket mgr mgr dial d = fb_DialContext mgr mgr dial d \<and>
    (case fb_DialContext mgr mgr dial d of
       Inr conn \<Rightarrow> dial 0 out = Inr conn \<or> isl (dial 0 out) \<and> dial 1 out' = Inr conn
     | Inl err \<Rightarrow> isl (dial 0 out) \<and> (\<exists>e. dial 1 out' = Inl e \<and> err = ErrOnFallback e))"
proof -
  have d: "fb_primaryTag d = primary" "fb_fallbackTag d = fallback" "primary \<noteq> fallback"
    using assms(2) by (auto simp: NewFallback_def split: if_splits)
  obtain out out' where out: "mgr primary = Some out" "mgr fallback = Some out'"
    using assms(3) by (auto simp: fb_Start_def d split: if_splits)
  have "ob_tag out = primary" "ob_tag out' = fallback" using assms(1) out by blast+
  then have "out \<noteq> out'" using d(3) by blast
  then show ?thesis
    using out by (auto simp: fb_DialContext_def fb_ListenPacket_def d split: sum.split)
qed

end
