(* ===== verification/Helper_Tag.thy ===== *)
theory Helper_Tag
  imports Box_Prelude
begin

text \<open>
  Helper tags and their redaction (\<open>adapter/helper_tag.go\<close>). The regular expression of the source, a
  word boundary, the prefix and 12 lower-case hexadecimal digits, is matched by \<open>helperTagAt\<close>, and
  replacing all its matches from left to right is \<open>redactAll\<close>, which carries whether the character
  before the rest is a word character.
\<close>

section \<open>Tags\<close>

definition HelperTagPrefix :: string where
  "HelperTagPrefix = ''helper-''"

definition helperTagHexLen :: nat where
  "helperTagHexLen = 12"

definition ReverseTagSuffix :: string where
  "ReverseTagSuffix = ''-r''"

definition char_in :: "nat \<Rightarrow> nat \<Rightarrow> char \<Rightarrow> bool" where
  "char_in lo hi c \<longleftrightarrow> lo \<le> of_char c \<and> of_char c \<le> hi"

text \<open>\<open>0\<close> to \<open>9\<close> and \<open>a\<close> to \<open>f\<close>.\<close>

definition isHex :: "char \<Rightarrow> bool" where
  "isHex c \<longleftrightarrow> char_in 48 57 c \<or> char_in 97 102 c"

text \<open>The regular expressions' word characters: digits, letters and the underscore.\<close>

definition isWord :: "char \<Rightarrow> bool" where
  "isWord c \<longleftrightarrow> char_in 48 57 c \<or> char_in 65 90 c \<or> char_in 97 122 c \<or> of_char c = (95 :: nat)"

definition cutPrefix :: "string \<Rightarrow> string \<Rightarrow> string option" where
  "cutPrefix s p = (if take (length p) s = p then Some (drop (length p) s) else None)"

definition cutSuffix :: "string \<Rightarrow> string \<Rightarrow> string option" where
  "cutSuffix s p =
     (if length p \<le> length s \<and> drop (length s - length p) s = p then Some (take (length s - length p) s) else None)"

definition IsHelperTag :: "string \<Rightarrow> bool" where
  "IsHelperTag tag =
     (case cutPrefix tag HelperTagPrefix of
        None \<Rightarrow> False
      | Some hex \<Rightarrow> length hex = helperTagHexLen \<and> list_all isHex hex)"

definition ReverseHelperTag :: "string \<Rightarrow> string" where
  "ReverseHelperTag helperTag = (if \<not> IsHelperTag helperTag then '''' else helperTag @ ReverseTagSuffix)"

definition HelperTagOfReverse :: "string \<Rightarrow> string option" where
  "HelperTagOfReverse tag =
     (case cutSuffix tag ReverseTagSuffix of
        None \<Rightarrow> None
      | Some helperTag \<Rightarrow> if \<not> IsHelperTag helperTag then None else Some helperTag)"

definition IsReverseHelperTag :: "string \<Rightarrow> bool" where
  "IsReverseHelperTag tag \<longleftrightarrow> HelperTagOfReverse tag \<noteq> None"

section \<open>Redaction\<close>

definition helperTagAt :: "string \<Rightarrow> bool" where
  "helperTagAt s \<longleftrightarrow> IsHelperTag (take 19 s)"

function redactAll :: "bool \<Rightarrow> string \<Rightarrow> string" where
  "redactAll afterWord [] = []"
| "redactAll afterWord (c # cs) =
     (if \<not> afterWord \<and> helperTagAt (c # cs) then ''helper'' @ redactAll True (drop 18 cs)
      else c # redactAll (isWord c) cs)"
  by pat_completeness auto
termination
  by (relation "measure (\<lambda>(_, s). length s)") auto

fun contains :: "string \<Rightarrow> string \<Rightarrow> bool" where
  "contains [] p = (p = [])"
| "contains (c # cs) p \<longleftrightarrow> take (length p) (c # cs) = p \<or> contains cs p"

definition RedactHelperTags :: "string \<Rightarrow> string" where
  "RedactHelperTags s = (if \<not> contains s HelperTagPrefix then s else redactAll False s)"

section \<open>The tags of a pairing\<close>

lemma prefix_length [simp]: "length HelperTagPrefix = 7"
  by (simp add: HelperTagPrefix_def)

lemma IsHelperTag_iff:
  "IsHelperTag t \<longleftrightarrow> (\<exists>hex. t = HelperTagPrefix @ hex \<and> length hex = 12 \<and> list_all isHex hex)"
proof
  assume "IsHelperTag t"
  then have "take 7 t = HelperTagPrefix" "length (drop 7 t) = 12" "list_all isHex (drop 7 t)"
    by (auto simp: IsHelperTag_def cutPrefix_def helperTagHexLen_def split: if_splits)
  then show "\<exists>hex. t = HelperTagPrefix @ hex \<and> length hex = 12 \<and> list_all isHex hex"
    by (intro exI [of _ "drop 7 t"]) (metis append_take_drop_id)
qed (auto simp: IsHelperTag_def cutPrefix_def helperTagHexLen_def)

lemma helperTag_length: "IsHelperTag t \<Longrightarrow> length t = 19"
  by (auto simp: IsHelperTag_iff)

lemma cutSuffix_append [simp]: "cutSuffix (t @ p) p = Some t"
  by (simp add: cutSuffix_def)

lemma cutSuffix_Some: "cutSuffix s p = Some t \<Longrightarrow> s = t @ p"
  by (auto simp: cutSuffix_def split: if_splits) (metis append_take_drop_id)

text \<open>A reverse tag names its helper. The reverse tag of a helper tag is a reverse helper tag that
  leads back to it, and every tag that leads to some helper tag is that tag's reverse tag.\<close>

lemma reverse_tag_roundtrip:
  "(IsHelperTag t \<longrightarrow> HelperTagOfReverse (ReverseHelperTag t) = Some t) \<and>
   (HelperTagOfReverse x = Some t \<longleftrightarrow> IsHelperTag t \<and> x = ReverseHelperTag t)"
  by (auto simp: HelperTagOfReverse_def ReverseHelperTag_def split: option.splits if_splits dest: cutSuffix_Some)

section \<open>Redaction hides the pseudonym\<close>

text \<open>No \<open>h\<close> occurs inside a helper tag after its first character, so a match never reaches into one
  that starts later.\<close>

lemma helperTag_no_h:
  assumes "IsHelperTag t" and "0 < i" and "i < 19"
  shows "t ! i \<noteq> CHR ''h''"
proof -
  obtain hex where t: "t = HelperTagPrefix @ hex" "length hex = 12" "list_all isHex hex"
    using assms(1) by (auto simp: IsHelperTag_iff)
  have h: "\<not> isHex (CHR ''h'')" by code_simp
  show ?thesis
  proof (cases "i < 7")
    case True
    then have "i \<in> {1, 2, 3, 4, 5, 6}" using assms(2) by auto
    then show ?thesis by (auto simp: t(1) nth_append HelperTagPrefix_def)
  next
    case False
    then have "t ! i = hex ! (i - 7)" "i - 7 < length hex" using assms(3) t by (simp_all add: nth_append)
    then show ?thesis using t(3) h by (metis list_all_length)
  qed
qed

lemma match_before:
  assumes "IsHelperTag t" and "pre \<noteq> []"
  shows "helperTagAt (pre @ t @ suf) \<longleftrightarrow> length pre \<ge> 19 \<and> IsHelperTag (take 19 pre)"
proof (cases "length pre \<ge> 19")
  case True
  then show ?thesis by (simp add: helperTagAt_def)
next
  case False
  have "\<not> IsHelperTag (take 19 (pre @ t @ suf))"
  proof
    assume "IsHelperTag (take 19 (pre @ t @ suf))"
    moreover have "take 19 (pre @ t @ suf) ! length pre = CHR ''h''"
      using assms False helperTag_length [OF assms(1)] by (auto simp: nth_append IsHelperTag_iff HelperTagPrefix_def)
    ultimately show False using helperTag_no_h [of _ "length pre"] assms(2) False by auto
  qed
  with False show ?thesis by (simp add: helperTagAt_def)
qed

lemma redactAll_split:
  assumes "IsHelperTag t" and "pre = [] \<Longrightarrow> \<not> afterWord" and "pre \<noteq> [] \<Longrightarrow> \<not> isWord (last pre)"
  shows "redactAll afterWord (pre @ t @ suf) =
         redactAll afterWord pre @ ''helper'' @ redactAll True suf"
  using assms(2,3)
proof (induction "length pre" arbitrary: pre afterWord rule: less_induct)
  case less
  obtain h ts where t: "t = h # ts" "length ts = 18" using helperTag_length [OF assms(1)] by (cases t) auto
  show ?case
  proof (cases pre)
    case Nil
    with less.prems(1) assms(1) helperTag_length [OF assms(1)] t show ?thesis
      by (simp add: helperTagAt_def)
  next
    case (Cons c cs)
    show ?thesis
    proof (cases "\<not> afterWord \<and> helperTagAt pre")
      case True
      then have tag: "IsHelperTag (take 19 pre)" by (simp add: helperTagAt_def)
      then have len: "length pre \<ge> 19" using helperTag_length [OF tag] by simp
      have at: "helperTagAt (pre @ t @ suf)" using match_before [OF assms(1), of pre suf] Cons tag len by simp
      have last: "drop 18 cs \<noteq> []"
      proof
        assume "drop 18 cs = []"
        then have "pre = take 19 pre" using Cons by simp
        then obtain hex where "pre = HelperTagPrefix @ hex" "hex \<noteq> []" "list_all isHex hex"
          using tag by (metis IsHelperTag_iff list.size(3) zero_neq_numeral)
        then have "isHex (last pre)" by (metis append_Nil2 last_appendR last_in_set list_all_iff)
        then show False using less.prems(2) Cons by (auto simp: isHex_def isWord_def char_in_def)
      qed
      have "redactAll True (drop 18 cs @ t @ suf) = redactAll True (drop 18 cs) @ ''helper'' @ redactAll True suf"
        using less.hyps [of "drop 18 cs" True] last less.prems(2) Cons len by (cases "cs = []") simp_all
      with True at Cons len show ?thesis by simp
    next
      case False
      then have "\<not> (\<not> afterWord \<and> helperTagAt (pre @ t @ suf))"
        using match_before [OF assms(1), of pre suf] Cons by (auto simp: helperTagAt_def)
      then have "redactAll afterWord (pre @ t @ suf) = c # redactAll (isWord c) (cs @ t @ suf)"
        unfolding Cons by (simp only: append_Cons redactAll.simps if_False)
      moreover have "redactAll afterWord pre = c # redactAll (isWord c) cs"
        using False unfolding Cons by (simp only: redactAll.simps if_False)
      moreover have "redactAll (isWord c) (cs @ t @ suf) = redactAll (isWord c) cs @ ''helper'' @ redactAll True suf"
        using less.hyps [of cs "isWord c"] less.prems(2) Cons by (cases cs) auto
      ultimately show ?thesis by simp
    qed
  qed
qed

lemma contains_prefix: "contains (xs @ p @ ys) p"
proof (induction xs)
  case Nil
  have "take (length p) (p @ ys) = p" by simp
  then show ?case by (cases "p @ ys") (simp_all only: append_Nil contains.simps, simp_all)
qed simp

text \<open>Redaction hides the pseudonym. Wherever in a string a helper tag starts at a word boundary, and
  whatever surrounds it, it comes out as \<open>helper\<close>; the result is the same for any other helper tag in its
  place, so nothing of its digits is left in the output.\<close>

lemma redaction_hides_tag:
  assumes "IsHelperTag t" and "IsHelperTag t'" and "pre \<noteq> [] \<Longrightarrow> \<not> isWord (last pre)"
  shows "RedactHelperTags (pre @ t @ suf) = redactAll False pre @ ''helper'' @ redactAll True suf \<and>
         RedactHelperTags (pre @ t @ suf) = RedactHelperTags (pre @ t' @ suf)"
proof -
  have eq: "RedactHelperTags (pre @ u @ suf) = redactAll False pre @ ''helper'' @ redactAll True suf"
    if tag: "IsHelperTag u" for u
  proof -
    obtain hex where "u = HelperTagPrefix @ hex" using tag unfolding IsHelperTag_iff by blast
    then have "contains (pre @ u @ suf) HelperTagPrefix" using contains_prefix [of pre HelperTagPrefix "hex @ suf"] by simp
    then show ?thesis using redactAll_split [OF tag, of pre False suf] assms(3) by (simp add: RedactHelperTags_def)
  qed
  show ?thesis using eq [OF assms(1)] eq [OF assms(2)] by simp
qed

end
