(* ===== verification/Go_Strconv.thy ===== *)
theory Go_Strconv
  imports Box_Prelude
begin

text \<open>
  What the sources use of Go's \<open>strconv\<close> and \<open>net/http\<close> for headers: decimal numbers
  (\<open>FormatUint\<close>, \<open>Itoa\<close>, \<open>ParseUint\<close> in base 10 and 64 bits, \<open>Atoi\<close>) and the canonical form of a header's
  name. Reading back a formatted number gives the number.
\<close>

section \<open>Decimal numbers\<close>

definition digit_char :: "nat \<Rightarrow> char" where
  "digit_char d = char_of (48 + d)"

definition digit_val :: "char \<Rightarrow> nat option" where
  "digit_val c = (let n = of_char c :: nat in if 48 \<le> n \<and> n \<le> 57 then Some (n - 48) else None)"

fun format_nat :: "nat \<Rightarrow> string" where
  "format_nat n = (if n < 10 then [digit_char n] else format_nat (n div 10) @ [digit_char (n mod 10)])"

declare format_nat.simps [simp del]

fun parse_digits :: "nat \<Rightarrow> string \<Rightarrow> nat option" where
  "parse_digits acc [] = Some acc"
| "parse_digits acc (c # cs) =
     (case digit_val c of None \<Rightarrow> None | Some d \<Rightarrow> parse_digits (10 * acc + d) cs)"

definition parse_nat :: "string \<Rightarrow> nat option" where
  "parse_nat s = (if s = [] then None else parse_digits 0 s)"

definition FormatUint :: "u64 \<Rightarrow> string" where
  "FormatUint v = format_nat (unat v)"

definition ParseUint :: "string \<Rightarrow> u64 option" where
  "ParseUint s = (case parse_nat s of Some n \<Rightarrow> if n < 2 ^ 64 then Some (of_nat n) else None | None \<Rightarrow> None)"

definition Itoa :: "int \<Rightarrow> string" where
  "Itoa i = (if i < 0 then CHR ''-'' # format_nat (nat (- i)) else format_nat (nat i))"

text \<open>\<open>Atoi\<close> allows one sign and fails when the number does not fit a 64-bit \<open>int\<close>.\<close>

definition Atoi :: "string \<Rightarrow> int option" where
  "Atoi s =
     (let (neg, digits) = (case s of c # cs \<Rightarrow> if c = CHR ''-'' then (True, cs) else if c = CHR ''+'' then (False, cs) else (False, s)
                                   | [] \<Rightarrow> (False, [])) in
      case parse_nat digits of
        None \<Rightarrow> None
      | Some n \<Rightarrow> if neg then (if n \<le> 2 ^ 63 then Some (- int n) else None)
                  else (if n < 2 ^ 63 then Some (int n) else None))"

lemma digit_val_char [simp]: "d < 10 \<Longrightarrow> digit_val (digit_char d) = Some d"
  by (simp add: digit_val_def digit_char_def of_char_of Let_def)

lemma parse_digits_append:
  "parse_digits acc (xs @ ys) = (case parse_digits acc xs of None \<Rightarrow> None | Some n \<Rightarrow> parse_digits n ys)"
  by (induction xs arbitrary: acc) (auto split: option.splits)

lemma parse_format_digits: "parse_digits 0 (format_nat n) = Some n"
proof (induction n rule: format_nat.induct)
  case (1 n)
  then show ?case
    by (subst format_nat.simps) (simp add: parse_digits_append split: option.splits)
qed

lemma format_nat_nonempty [simp]: "format_nat n \<noteq> []"
  by (subst format_nat.simps) simp

lemma format_nat_hd: "\<exists>d < 10. hd (format_nat n) = digit_char d"
proof (induction n rule: format_nat.induct)
  case (1 n)
  show ?case
  proof (cases "n < 10")
    case True
    then show ?thesis by (subst format_nat.simps) auto
  next
    case False
    with 1 show ?thesis by (subst format_nat.simps) simp
  qed
qed

lemma parse_format_nat [simp]: "parse_nat (format_nat n) = Some n"
  by (simp add: parse_nat_def parse_format_digits)

lemma ParseUint_FormatUint [simp]: "ParseUint (FormatUint v) = Some v"
proof -
  have "unat v < 18446744073709551616" using unsigned_less [of v] by simp
  then show ?thesis by (simp add: ParseUint_def FormatUint_def)
qed

lemma digit_char_sign: "d < 10 \<Longrightarrow> digit_char d \<noteq> CHR ''-'' \<and> digit_char d \<noteq> CHR ''+''"
  using digit_val_char [of d] by (auto simp: digit_val_def)

lemma Atoi_Itoa [simp]:
  assumes "0 \<le> i" and "i < 2 ^ 63"
  shows "Atoi (Itoa i) = Some i"
proof -
  obtain c cs where f: "format_nat (nat i) = c # cs" using format_nat_nonempty by (metis list.exhaust)
  then have "c \<noteq> CHR ''-''" "c \<noteq> CHR ''+''" using format_nat_hd [of "nat i"] digit_char_sign by fastforce+
  moreover have "parse_nat (c # cs) = Some (nat i)" using parse_format_nat [of "nat i"] f by simp
  ultimately show ?thesis using assms f by (simp add: Atoi_def Itoa_def nat_less_iff)
qed

section \<open>Header names\<close>

text \<open>\<open>http.CanonicalHeaderKey\<close>: a name of token characters has every letter in lower case except the first
  and those after a hyphen; any other name stays as it is.\<close>

definition is_upper :: "char \<Rightarrow> bool" where
  "is_upper c \<longleftrightarrow> (let n = of_char c :: nat in 65 \<le> n \<and> n \<le> 90)"

definition is_lower :: "char \<Rightarrow> bool" where
  "is_lower c \<longleftrightarrow> (let n = of_char c :: nat in 97 \<le> n \<and> n \<le> 122)"

definition to_lower :: "char \<Rightarrow> char" where
  "to_lower c = (if is_upper c then char_of ((of_char c :: nat) + 32) else c)"

definition to_upper :: "char \<Rightarrow> char" where
  "to_upper c = (if is_lower c then char_of ((of_char c :: nat) - 32) else c)"

definition token_char :: "char \<Rightarrow> bool" where
  "token_char c \<longleftrightarrow> is_upper c \<or> is_lower c \<or> digit_val c \<noteq> None \<or> c \<in> set ''!#$%&*+-.^_|~'' \<or> of_char c \<in> {39 :: nat, 96}"

fun canonical :: "bool \<Rightarrow> string \<Rightarrow> string" where
  "canonical upper [] = []"
| "canonical upper (c # cs) = (if upper then to_upper c else to_lower c) # canonical (c = CHR ''-'') cs"

definition CanonicalHeaderKey :: "string \<Rightarrow> string" where
  "CanonicalHeaderKey name = (if list_all token_char name then canonical True name else name)"

text \<open>\<open>Header.Set\<close> and \<open>Header.Get\<close>, which gives the empty string for a header that is not there.\<close>

definition header_set :: "string \<Rightarrow> string \<Rightarrow> (string, string) gomap \<Rightarrow> (string, string) gomap" where
  "header_set k v h = gput (CanonicalHeaderKey k) v h"

definition header_get :: "string \<Rightarrow> (string, string) gomap \<Rightarrow> string" where
  "header_get k h = (case gget h (CanonicalHeaderKey k) of Some v \<Rightarrow> v | None \<Rightarrow> '''')"

lemma header_get_set [simp]:
  "header_get k (header_set k' v h) = (if CanonicalHeaderKey k = CanonicalHeaderKey k' then v else header_get k h)"
  by (simp add: header_get_def header_set_def)

end
