(* ===== verification/Meek_Client.thy ===== *)
theory Meek_Client
  imports Go_Strconv
begin

text \<open>
  The client of the meek transport (\<open>protocol/meek/client.go\<close>): a connection that carries its bytes in
  HTTP polls. The poll goroutine, the readers and the writers share the connection under one lock; the
  model has one operation per critical section. The HTTP exchange itself is sing-box's and Go's: what it
  returns is an argument.
\<close>

section \<open>Configuration\<close>

definition defaultPollIntervalMs :: int where "defaultPollIntervalMs = 100"
definition defaultMaxBodyBytes :: int where "defaultMaxBodyBytes = 256 * 1024"
definition legacyMaxBodyBytes :: int where "legacyMaxBodyBytes = 64 * 1024"
definition defaultSessionIDLen :: int where "defaultSessionIDLen = 16"
definition defaultReadTimeout :: duration where "defaultReadTimeout = 30 * second"
definition defaultMaxWriteBufBytes :: int where "defaultMaxWriteBufBytes = 2 ^ 20"
definition defaultMaxPollRetries :: int where "defaultMaxPollRetries = 4"
definition retryBaseBackoff :: duration where "retryBaseBackoff = 250 * millisecond"
definition statusReasonCap :: nat where "statusReasonCap = 256"
definition headerSeq :: string where "headerSeq = ''X-Meek-Seq''"
definition headerMaxBody :: string where "headerMaxBody = ''X-Meek-Max-Body''"

lemmas meek_defaults = defaultPollIntervalMs_def defaultMaxBodyBytes_def legacyMaxBodyBytes_def
  defaultSessionIDLen_def defaultReadTimeout_def defaultMaxWriteBufBytes_def defaultMaxPollRetries_def

text \<open>\<open>mc_HTTPClient\<close>: whether a client was given.\<close>

record meekConfig =
  mc_URL :: string
  mc_InnerHost :: string
  mc_ExtraHeaders :: "(string, string) gomap"
  mc_HTTPClient :: bool
  mc_PollInterval :: duration
  mc_MaxBodyBytes :: int
  mc_SessionIDLen :: int
  mc_ReadTimeout :: duration
  mc_MaxWriteBufBytes :: int
  mc_MaxPollRetries :: int

definition applyDefaults :: "meekConfig \<Rightarrow> meekConfig" where
  "applyDefaults c =
     (let c = (if mc_PollInterval c \<le> 0 then c\<lparr>mc_PollInterval := defaultPollIntervalMs * millisecond\<rparr> else c);
          c = (if mc_MaxBodyBytes c \<le> 0 then c\<lparr>mc_MaxBodyBytes := defaultMaxBodyBytes\<rparr> else c);
          c = (if mc_SessionIDLen c \<le> 0 then c\<lparr>mc_SessionIDLen := defaultSessionIDLen\<rparr> else c);
          c = (if mc_ReadTimeout c \<le> 0 then c\<lparr>mc_ReadTimeout := defaultReadTimeout\<rparr> else c);
          c = (if mc_MaxWriteBufBytes c \<le> 0 then c\<lparr>mc_MaxWriteBufBytes := defaultMaxWriteBufBytes\<rparr> else c) in
      if mc_MaxPollRetries c \<le> 0 then c\<lparr>mc_MaxPollRetries := defaultMaxPollRetries\<rparr> else c)"

lemma applyDefaults_positive:
  "0 < mc_PollInterval (applyDefaults c) \<and> 0 < mc_MaxBodyBytes (applyDefaults c) \<and>
   0 < mc_SessionIDLen (applyDefaults c) \<and> 0 < mc_ReadTimeout (applyDefaults c) \<and>
   0 < mc_MaxWriteBufBytes (applyDefaults c) \<and> 0 < mc_MaxPollRetries (applyDefaults c)"
  by (simp add: applyDefaults_def Let_def meek_defaults time_units)

section \<open>The connection\<close>

text \<open>The failures of a poll and of a call. \<open>ErrRetries\<close> wraps the last failure of a poll given up on.\<close>

datatype meekError =
    ErrEmptyURL | ErrParseURL | ErrNoHTTPClient | ErrSessionID
  | ErrReadDeadline | ErrWriteDeadline | ErrConnClosed | ErrEOF
  | ErrBuild | ErrPost | ErrStatus int bytes | ErrReadResponse | ErrResponseTooLarge
  | ErrCanceled | ErrRetries meekError

text \<open>\<open>cn_canceled\<close>: the connection's context is done. \<open>cn_writeReady\<close>: the channel of capacity one holds a
  token. A deadline of \<open>0\<close> is none. The deadline timers only wake sleepers and have no state of their own
  here.\<close>

record conn =
  cn_cfg :: meekConfig
  cn_sessionID :: string
  cn_canceled :: bool
  cn_writeBuf :: bytes
  cn_writeReady :: bool
  cn_readBuf :: bytes
  cn_seq :: u64
  cn_inflight :: bytes
  cn_inflightTaken :: bool
  cn_closed :: bool
  cn_closeErr :: "meekError option"
  cn_readDeadline :: time
  cn_writeDeadline :: time
  cn_pollDone :: bool

text \<open>\<open>url.Parse\<close> is the argument \<open>host\<close>: the URL's host, or \<open>None\<close> for a malformed one; \<open>rand.Read\<close>, in
  hexadecimal, is \<open>sid\<close>.\<close>

definition meek_Dial :: "(string \<Rightarrow> string option) \<Rightarrow> string option \<Rightarrow> meekConfig \<Rightarrow> meekError + conn" where
  "meek_Dial host sid cfg =
     (let cfg = applyDefaults cfg in
      if mc_URL cfg = '''' then Inl ErrEmptyURL
      else case host (mc_URL cfg) of
        None \<Rightarrow> Inl ErrParseURL
      | Some h \<Rightarrow>
          let cfg = (if mc_InnerHost cfg = '''' then cfg\<lparr>mc_InnerHost := h\<rparr> else cfg) in
          if \<not> mc_HTTPClient cfg then Inl ErrNoHTTPClient
          else case sid of
            None \<Rightarrow> Inl ErrSessionID
          | Some s \<Rightarrow>
              Inr \<lparr>cn_cfg = cfg, cn_sessionID = s, cn_canceled = False, cn_writeBuf = [], cn_writeReady = False,
                   cn_readBuf = [], cn_seq = 0, cn_inflight = [], cn_inflightTaken = False, cn_closed = False,
                   cn_closeErr = None, cn_readDeadline = 0, cn_writeDeadline = 0, cn_pollDone = False\<rparr>)"

section \<open>Reading and writing\<close>

text \<open>What a call finds when it has the lock: it returns, or it goes to sleep on the condition
  variable (\<open>None\<close>) and looks again when it is woken.\<close>

definition meek_Read :: "time \<Rightarrow> nat \<Rightarrow> conn \<Rightarrow> (meekError + bytes) option \<times> conn" where
  "meek_Read now n c =
     (if cn_readBuf c = [] \<and> \<not> cn_closed c
      then (if cn_readDeadline c \<noteq> 0 \<and> now > cn_readDeadline c then (Some (Inl ErrReadDeadline), c) else (None, c))
      else if cn_readBuf c = [] \<and> cn_closed c
      then (Some (Inl (case cn_closeErr c of Some e \<Rightarrow> e | None \<Rightarrow> ErrEOF)), c)
      else (Some (Inr (take n (cn_readBuf c))), c\<lparr>cn_readBuf := drop n (cn_readBuf c)\<rparr>))"

text \<open>One pass of the loop of \<open>Write\<close> over the bytes not yet taken over: asleep, failed, or \<open>n\<close> bytes
  taken over.\<close>

definition write_pass :: "time \<Rightarrow> bytes \<Rightarrow> conn \<Rightarrow> (meekError + nat) option \<times> conn" where
  "write_pass now p c =
     (let expired = (cn_writeDeadline c \<noteq> 0 \<and> now \<ge> cn_writeDeadline c) in
      if int (length (cn_writeBuf c)) \<ge> mc_MaxWriteBufBytes (cn_cfg c) \<and> \<not> cn_closed c
      then (if expired then (Some (Inl ErrWriteDeadline), c) else (None, c))
      else if cn_closed c then (Some (Inl ErrConnClosed), c)
      else if expired then (Some (Inl ErrWriteDeadline), c)
      else
        let room = mc_MaxWriteBufBytes (cn_cfg c) - int (length (cn_writeBuf c));
            n = nat (min (int (length p)) room) in
        (Some (Inr n), c\<lparr>cn_writeBuf := cn_writeBuf c @ take n p, cn_writeReady := True\<rparr>))"

text \<open>The whole call, through \<open>wakes\<close> looks at the connection; \<open>env\<close> is the time of each and what the
  other goroutines do before it. The result is how many bytes were taken over and the error, or \<open>None\<close> when the call is
  still asleep after the last look.\<close>

fun meek_Write :: "(nat \<Rightarrow> conn \<Rightarrow> time \<times> conn) \<Rightarrow> nat \<Rightarrow> nat \<Rightarrow> bytes \<Rightarrow> conn \<Rightarrow> (nat \<times> meekError option) option \<times> conn" where
  "meek_Write env wakes len p c =
     (if p = [] then (Some (len, None), c)
      else case wakes of
        0 \<Rightarrow> (None, c)
      | Suc k \<Rightarrow>
          let (now, c) = env k c in
          (case write_pass now p c of
             (None, c) \<Rightarrow> meek_Write env k len p c
           | (Some (Inl e), c) \<Rightarrow> (Some (len - length p, Some e), c)
           | (Some (Inr n), c) \<Rightarrow> meek_Write env k len (drop n p) c))"

declare meek_Write.simps [simp del]

definition conn_Close :: "conn \<Rightarrow> conn" where
  "conn_Close c = (if cn_closed c then c else c\<lparr>cn_closed := True, cn_canceled := True\<rparr>)"

definition SetReadDeadline :: "time \<Rightarrow> conn \<Rightarrow> conn" where
  "SetReadDeadline t c = c\<lparr>cn_readDeadline := t\<rparr>"

definition SetWriteDeadline :: "time \<Rightarrow> conn \<Rightarrow> conn" where
  "SetWriteDeadline t c = c\<lparr>cn_writeDeadline := t\<rparr>"

definition SetDeadline :: "time \<Rightarrow> conn \<Rightarrow> conn" where
  "SetDeadline t c = SetWriteDeadline t (SetReadDeadline t c)"

definition markClosed :: "meekError option \<Rightarrow> conn \<Rightarrow> conn" where
  "markClosed err c = (if \<not> cn_closed c then c\<lparr>cn_closed := True, cn_closeErr := err\<rparr> else c)"

section \<open>Polls\<close>

definition takeWriteChunkLocked :: "conn \<Rightarrow> bytes \<times> conn" where
  "takeWriteChunkLocked c =
     (let n = nat (mc_MaxBodyBytes (cn_cfg c)) in
      (take n (cn_writeBuf c), c\<lparr>cn_writeBuf := drop n (cn_writeBuf c)\<rparr>))"

definition isReservedHeader :: "string \<Rightarrow> bool" where
  "isReservedHeader name \<longleftrightarrow>
     CanonicalHeaderKey name \<in> {''Host'', ''Content-Type'', ''X-Session-Id'', headerSeq, headerMaxBody}"

record httpRequest =
  hr_method :: string
  hr_host :: string
  hr_header :: "(string, string) gomap"
  hr_body :: bytes

definition extraHeader :: "string \<times> string \<Rightarrow> (string, string) gomap \<Rightarrow> (string, string) gomap" where
  "extraHeader = (\<lambda>(k, v) h. if isReservedHeader k then h else header_set k v h)"

definition pollRequest ::
  "((string, string) gomap \<Rightarrow> (string, string) gomap) \<Rightarrow> conn \<Rightarrow> u64 \<Rightarrow> bytes \<Rightarrow> httpRequest" where
  "pollRequest order c seq body =
     \<lparr>hr_method = ''POST'', hr_host = mc_InnerHost (cn_cfg c),
      hr_header =
        header_set headerMaxBody (Itoa (mc_MaxBodyBytes (cn_cfg c)))
          (header_set headerSeq (FormatUint seq)
            (header_set ''X-Session-Id'' (cn_sessionID c)
              (header_set ''Content-Type'' ''application/octet-stream''
                (fold extraHeader (gorange order (mc_ExtraHeaders (cn_cfg c))) [])))),
      hr_body = body\<rparr>"

text \<open>The first section of \<open>roundtrip\<close>, up to the exchange: the chunk of this sequence number is taken
  once and kept for every attempt.\<close>

definition roundtrip_begin :: "conn \<Rightarrow> (u64 \<times> bytes) \<times> conn" where
  "roundtrip_begin c =
     (let c = (if cn_inflightTaken c then c
               else let (chunk, c) = takeWriteChunkLocked c in c\<lparr>cn_inflight := chunk, cn_inflightTaken := True\<rparr>) in
      ((cn_seq c, cn_inflight c), c))"

text \<open>What the exchange gives: the request could not be built, the POST failed, or a status with a body that
  was read to its end or not.\<close>

datatype exchange = BuildFailed | PostFailed | Answer int bytes bool

text \<open>White space at the ends of the reason (ASCII; the reason is only shown).\<close>

definition isSpace :: "8 word \<Rightarrow> bool" where
  "isSpace b \<longleftrightarrow> b \<in> {9, 10, 11, 12, 13, 32}"

definition trimSpace :: "bytes \<Rightarrow> bytes" where
  "trimSpace bs = rev (dropWhile isSpace (rev (dropWhile isSpace bs)))"

text \<open>The rest of \<open>roundtrip\<close>. The flag of an error says that it is permanent.\<close>

definition roundtrip_finish :: "exchange \<Rightarrow> conn \<Rightarrow> (bool \<times> meekError) option \<times> conn" where
  "roundtrip_finish x c =
     (case x of
        BuildFailed \<Rightarrow> (Some (False, ErrBuild), c)
      | PostFailed \<Rightarrow> (Some (False, ErrPost), c)
      | Answer status body readOk \<Rightarrow>
          if status \<noteq> 200
          then (if status = 410 then (Some (True, ErrEOF), c)
                else (Some (True, ErrStatus status (trimSpace (take statusReasonCap body))), c))
          else
            let buf = take (nat (mc_MaxBodyBytes (cn_cfg c) + 1)) body in
            if \<not> readOk then (Some (False, ErrReadResponse), c)
            else if int (length buf) > mc_MaxBodyBytes (cn_cfg c) then (Some (False, ErrResponseTooLarge), c)
            else (None, c\<lparr>cn_readBuf := cn_readBuf c @ buf, cn_inflight := [], cn_inflightTaken := False,
                          cn_seq := cn_seq c + 1\<rparr>))"

text \<open>\<open>env k\<close> is attempt \<open>k\<close>'s exchange and what other goroutines do to the connection meanwhile;
  \<open>canceled k\<close> says that the context ended in the pause before attempt \<open>k\<close>. The first argument counts the
  retries left.\<close>

fun retries ::
  "(nat \<Rightarrow> u64 \<times> bytes \<Rightarrow> conn \<Rightarrow> exchange \<times> conn) \<Rightarrow> (nat \<Rightarrow> bool) \<Rightarrow> nat \<Rightarrow> nat \<Rightarrow> conn \<Rightarrow>
   meekError option \<times> (u64 \<times> bytes) list \<times> conn" where
  "retries env canceled left attempt c =
     (if attempt > 0 \<and> canceled attempt then (Some ErrCanceled, [], c)
      else
        let (req, c) = roundtrip_begin c; (x, c) = env attempt req c in
        (case roundtrip_finish x c of
           (None, c) \<Rightarrow> (None, [req], c)
         | (Some (permanent, e), c) \<Rightarrow>
             if permanent then (Some e, [req], c)
             else case left of
               0 \<Rightarrow> (Some (ErrRetries e), [req], c)
             | Suc left \<Rightarrow>
                 let (r, reqs, c) = retries env canceled left (attempt + 1) c in (r, req # reqs, c)))"

declare retries.simps [simp del]

definition roundtripWithRetry ::
  "(nat \<Rightarrow> u64 \<times> bytes \<Rightarrow> conn \<Rightarrow> exchange \<times> conn) \<Rightarrow> (nat \<Rightarrow> bool) \<Rightarrow> conn \<Rightarrow>
   meekError option \<times> (u64 \<times> bytes) list \<times> conn" where
  "roundtripWithRetry env canceled c = retries env canceled (nat (mc_MaxPollRetries (cn_cfg c))) 0 c"

text \<open>One turn of \<open>pollLoop\<close>: the context is done, or the ticker or a write starts a poll. A poll that
  failed ends the loop.\<close>

definition pollTurn ::
  "(nat \<Rightarrow> u64 \<times> bytes \<Rightarrow> conn \<Rightarrow> exchange \<times> conn) \<Rightarrow> (nat \<Rightarrow> bool) \<Rightarrow> bool \<Rightarrow> conn \<Rightarrow> conn" where
  "pollTurn env canceled ctxDone c =
     (if ctxDone then (markClosed (Some ErrCanceled) c)\<lparr>cn_pollDone := True\<rparr>
      else
        let (err, _, c) = roundtripWithRetry env canceled (c\<lparr>cn_writeReady := False\<rparr>) in
        (case err of
           None \<Rightarrow> c
         | Some e \<Rightarrow> (markClosed (if e = ErrEOF then None else Some e) c)\<lparr>cn_pollDone := True\<rparr>))"

section \<open>Bounded buffers\<close>

text \<open>Everything that happens to a connection.\<close>

inductive conn_step :: "conn \<Rightarrow> conn \<Rightarrow> bool" where
  reading: "conn_step c (snd (meek_Read now n c))"
| writing: "conn_step c (snd (write_pass now p c))"
| closing: "conn_step c (conn_Close c)"
| readDeadline: "conn_step c (SetReadDeadline t c)"
| writeDeadline: "conn_step c (SetWriteDeadline t c)"
| sending: "conn_step c (snd (roundtrip_begin c))"
| receiving: "conn_step c (snd (roundtrip_finish x c))"
| marking: "conn_step c (markClosed err c)"
| woken: "conn_step c (c\<lparr>cn_writeReady := False\<rparr>)"
| canceled: "conn_step c (c\<lparr>cn_canceled := True\<rparr>)"
| ended: "conn_step c (c\<lparr>cn_pollDone := True\<rparr>)"

definition conn_dialed :: "conn \<Rightarrow> bool" where
  "conn_dialed c \<longleftrightarrow> (\<exists>host sid cfg. meek_Dial host sid cfg = Inr c)"

definition conn_inv :: "conn \<Rightarrow> bool" where
  "conn_inv c \<longleftrightarrow>
     0 < mc_MaxBodyBytes (cn_cfg c) \<and> 0 < mc_MaxWriteBufBytes (cn_cfg c) \<and>
     int (length (cn_writeBuf c)) \<le> mc_MaxWriteBufBytes (cn_cfg c) \<and>
     int (length (cn_inflight c)) \<le> mc_MaxBodyBytes (cn_cfg c) \<and> (\<not> cn_inflightTaken c \<longrightarrow> cn_inflight c = [])"

lemma write_pass_inv: "conn_inv c \<Longrightarrow> conn_inv (snd (write_pass now p c))"
  by (auto simp: write_pass_def conn_inv_def Let_def min_def)

lemma roundtrip_begin_inv: "conn_inv c \<Longrightarrow> conn_inv (snd (roundtrip_begin c))"
  by (auto simp: roundtrip_begin_def takeWriteChunkLocked_def conn_inv_def Let_def)

lemma roundtrip_finish_inv: "conn_inv c \<Longrightarrow> conn_inv (snd (roundtrip_finish x c))"
  by (auto simp: roundtrip_finish_def conn_inv_def Let_def split: exchange.splits)

lemma dialed_inv: "conn_dialed c \<Longrightarrow> conn_inv c"
proof -
  assume "conn_dialed c"
  then obtain host sid cfg where "meek_Dial host sid cfg = Inr c" by (auto simp: conn_dialed_def)
  then show ?thesis using applyDefaults_positive [of cfg]
    by (auto simp: meek_Dial_def conn_inv_def Let_def split: if_splits option.splits)
qed

lemma conn_step_inv: "conn_step c c' \<Longrightarrow> conn_inv c \<Longrightarrow> conn_inv c'"
proof (induction rule: conn_step.induct)
  case (writing c now p)
  then show ?case by (simp add: write_pass_inv)
next
  case (sending c)
  then show ?case by (simp add: roundtrip_begin_inv)
next
  case (receiving c x)
  then show ?case by (simp add: roundtrip_finish_inv)
qed (auto simp: conn_inv_def meek_Read_def conn_Close_def SetReadDeadline_def SetWriteDeadline_def markClosed_def)

interpretation meek_conn: invariant_system conn_dialed conn_step conn_inv
  by standard (auto intro: dialed_inv conn_step_inv)

text \<open>Backpressure. Whatever is written to a connection and however slow its polls are, the backlog of
  unsent bytes never exceeds its configured size, and the chunk in flight never exceeds the size of a
  poll.\<close>

lemma backlog_bounded:
  assumes "reaches conn_dialed conn_step c"
  shows "int (length (cn_writeBuf c)) \<le> mc_MaxWriteBufBytes (cn_cfg c) \<and>
    int (length (cn_inflight c)) \<le> mc_MaxBodyBytes (cn_cfg c)"
  using meek_conn.reaches_inv [OF assms] by (simp add: conn_inv_def)

section \<open>Retries\<close>

text \<open>The fields only the poll goroutine changes.\<close>

definition pollView :: "conn \<Rightarrow> u64 \<times> bytes \<times> bool \<times> meekConfig" where
  "pollView c = (cn_seq c, cn_inflight c, cn_inflightTaken c, cn_cfg c)"

definition keepsPoll :: "(nat \<Rightarrow> u64 \<times> bytes \<Rightarrow> conn \<Rightarrow> exchange \<times> conn) \<Rightarrow> bool" where
  "keepsPoll env \<longleftrightarrow> (\<forall>k req c. pollView (snd (env k req c)) = pollView c)"

lemma roundtrip_begin_view:
  "roundtrip_begin c = (req, c') \<Longrightarrow>
   req = (cn_seq c, cn_inflight c') \<and> pollView c' = (cn_seq c, cn_inflight c', True, cn_cfg c) \<and>
   (cn_inflightTaken c \<longrightarrow> c' = c)"
  by (auto simp: roundtrip_begin_def takeWriteChunkLocked_def pollView_def Let_def split: if_splits)

lemma roundtrip_finish_view:
  assumes "roundtrip_finish x c = (r, c')"
  shows "r = None \<Longrightarrow> pollView c' = (cn_seq c + 1, [], False, cn_cfg c)"
    and "r \<noteq> None \<Longrightarrow> c' = c"
  using assms by (auto simp: roundtrip_finish_def pollView_def Let_def split: exchange.splits if_splits)

lemma retries_repeat:
  assumes "keepsPoll env" and "retries env canceled left attempt c = (r, reqs, c')"
    and "roundtrip_begin c = (req, c0)" and "attempt > 0 \<longrightarrow> cn_inflightTaken c"
  shows "length reqs \<le> left + 1 \<and> set reqs \<subseteq> {req} \<and> (attempt = 0 \<longrightarrow> reqs \<noteq> []) \<and>
    (r = None \<longrightarrow> pollView c' = (cn_seq c + 1, [], False, cn_cfg c)) \<and>
    (r \<noteq> None \<longrightarrow> pollView c' = (cn_seq c, cn_inflight c0, True, cn_cfg c))"
  using assms(2-4)
proof (induction left arbitrary: attempt c r reqs c' req c0)
  case less: 0
  let ?x = "env attempt req c0"
  have v: "pollView (snd ?x) = pollView c0" using assms(1) by (cases req) (simp add: keepsPoll_def)
  note b = roundtrip_begin_view [OF less.prems(2)]
  show ?case
  proof (cases "attempt > 0 \<and> canceled attempt")
    case True
    then show ?thesis using less.prems b by (auto simp: retries.simps pollView_def)
  next
    case False
    obtain q d where q: "roundtrip_finish (fst ?x) (snd ?x) = (q, d)" by fastforce
    show ?thesis
      using less.prems False b v q roundtrip_finish_view [OF q]
      by (auto simp: retries.simps pollView_def split: option.splits prod.splits if_splits)
  qed
next
  case (Suc left)
  let ?x = "env attempt req c0"
  have v: "pollView (snd ?x) = pollView c0" using assms(1) by (cases req) (simp add: keepsPoll_def)
  note b = roundtrip_begin_view [OF Suc.prems(2)]
  show ?case
  proof (cases "attempt > 0 \<and> canceled attempt")
    case True
    then show ?thesis using Suc.prems b by (auto simp: retries.simps pollView_def)
  next
    case False
    obtain q d where q: "roundtrip_finish (fst ?x) (snd ?x) = (q, d)" by fastforce
    note f = roundtrip_finish_view [OF q]
    show ?thesis
    proof (cases "\<exists>e. q = Some (False, e)")
      case True
      obtain r2 reqs2 c2 where again: "retries env canceled left (attempt + 1) d = (r2, reqs2, c2)" by (metis prod_cases3)
      have d: "pollView d = pollView c0" using True f(2) v by auto
      then have "cn_inflightTaken d" using b by (simp add: pollView_def)
      moreover have "roundtrip_begin d = (req, d)"
        using \<open>cn_inflightTaken d\<close> d b by (simp add: roundtrip_begin_def pollView_def)
      ultimately have "length reqs2 \<le> left + 1 \<and> set reqs2 \<subseteq> {req} \<and>
          (r2 = None \<longrightarrow> pollView c2 = (cn_seq d + 1, [], False, cn_cfg d)) \<and>
          (r2 \<noteq> None \<longrightarrow> pollView c2 = (cn_seq d, cn_inflight d, True, cn_cfg d))"
        using Suc.IH [OF again] by auto
      moreover have "r = r2" "reqs = req # reqs2" "c' = c2"
        using Suc.prems(1,2) False True q again
        by (auto simp: retries.simps [of env canceled "Suc left" attempt c] split: prod.splits if_splits)
      ultimately show ?thesis using d b by (simp add: pollView_def)
    next
      case False2: False
      show ?thesis
        using Suc.prems False False2 b v q f
        by (auto simp: retries.simps [of env canceled "Suc left" attempt c] pollView_def
            split: option.splits prod.splits if_splits)
    qed
  qed
qed

text \<open>A poll is retried with the same number and the same bytes, and not for ever. All attempts of one poll
  carry one sequence number and one chunk; there are at most the configured number of retries after the first. When
  the poll succeeds the number moves on and the chunk is released; otherwise both are kept.\<close>

lemma attempts_repeat_poll:
  assumes "keepsPoll env" and "roundtripWithRetry env canceled c = (r, reqs, c')"
  shows "1 \<le> length reqs \<and> length reqs \<le> nat (mc_MaxPollRetries (cn_cfg c)) + 1 \<and>
    set reqs = {fst (roundtrip_begin c)} \<and>
    (if r = None then cn_seq c' = cn_seq c + 1 \<and> \<not> cn_inflightTaken c'
     else cn_seq c' = cn_seq c \<and> cn_inflightTaken c' \<and> cn_inflight c' = snd (fst (roundtrip_begin c)))"
proof -
  obtain req c0 where b: "roundtrip_begin c = (req, c0)" by fastforce
  have "set reqs = {req} \<longleftrightarrow> set reqs \<subseteq> {req} \<and> reqs \<noteq> []" by (cases reqs) auto
  then show ?thesis
    using retries_repeat [OF assms(1) _ b, of canceled "nat (mc_MaxPollRetries (cn_cfg c))" 0 r reqs c']
      roundtrip_begin_view [OF b] assms(2)
    by (cases reqs) (auto simp: roundtripWithRetry_def pollView_def b)
qed

section \<open>Examples\<close>

definition exampleMeek :: meekConfig where
  "exampleMeek = \<lparr>mc_URL = ''u'', mc_InnerHost = '''', mc_ExtraHeaders = [(''x-session-id'', ''forged'')], mc_HTTPClient = True,
     mc_PollInterval = 0, mc_MaxBodyBytes = 2, mc_SessionIDLen = 0, mc_ReadTimeout = 0, mc_MaxWriteBufBytes = 4,
     mc_MaxPollRetries = 1\<rparr>"

definition exampleConn :: conn where
  "exampleConn = projr (meek_Dial (\<lambda>_. Some ''h'') (Some ''s'') exampleMeek)"

text \<open>Five bytes are offered, four fit; two of them are in flight.\<close>

definition exampleSending :: conn where
  "exampleSending = snd (roundtrip_begin (snd (write_pass 0 [1, 2, 3, 4, 5] exampleConn)))"

lemma exampleSending_reaches: "reaches conn_dialed conn_step exampleSending"
proof -
  have "meek_Dial (\<lambda>_. Some ''h'') (Some ''s'') exampleMeek = Inr exampleConn" unfolding exampleConn_def by code_simp
  then have "reaches conn_dialed conn_step exampleConn" by (intro reaches_init) (auto simp: conn_dialed_def)
  then show ?thesis unfolding exampleSending_def 
    by (blast intro: reaches_step conn_step.sending conn_step.writing)
qed

end
