(* ===== verification/Meek_Server.thy ===== *)
theory Meek_Server
  imports Meek_Client
begin

text \<open>
  The server of the meek transport (\<open>protocol/meek/server.go\<close>): sessions by id, each with an upstream
  connection, the goroutine that pumps the upstream's bytes into a buffer, and the replay of the last
  answer to a repeated poll. Sessions are objects in a store, since a handler keeps its session while the
  map changes. Every section under a lock is an operation; the upstream's writes and reads return what
  the environment says.
\<close>

section \<open>Configuration\<close>

record serverConfig =
  sc_Upstream :: string
  sc_MaxBodyBytes :: int
  sc_ResponseHoldoff :: duration
  sc_SessionIdleTimeout :: duration
  sc_AuthToken :: string

definition sc_defaults :: "serverConfig \<Rightarrow> serverConfig" where
  "sc_defaults c =
     (let c = (if sc_MaxBodyBytes c \<le> 0 then c\<lparr>sc_MaxBodyBytes := defaultMaxBodyBytes\<rparr> else c);
          c = (if sc_ResponseHoldoff c \<le> 0 then c\<lparr>sc_ResponseHoldoff := 50 * millisecond\<rparr> else c) in
      if sc_SessionIdleTimeout c \<le> 0 then c\<lparr>sc_SessionIdleTimeout := 5 * minute\<rparr> else c)"

section \<open>A session\<close>

text \<open>The upstream connection as its peer sees it: the bytes it received, the bytes it has sent that were
  read, and whether this side closed it.\<close>

record upstreamConn =
  up_received :: bytes
  up_sent :: bytes
  up_closed :: bool

text \<open>Where \<open>readPump\<close> is: in \<open>Read\<close>; holding the bytes of a \<open>Read\<close>, with its error, until there is
  room; before recording a failure; returning; returned.\<close>

datatype readError = ReadEOF | ReadFailed

datatype pumpPc = PumpRead | PumpStore bytes "readError option" | PumpFail | PumpReturn | PumpReturned

record session =
  ss_id :: string
  ss_upstream :: upstreamConn
  ss_pending :: bytes
  ss_closed :: bool
  ss_last :: time
  ss_wake :: bool
  ss_upstreamDone :: bool
  ss_upstreamErr :: bool
  ss_haveSeq :: bool
  ss_lastSeq :: u64
  ss_lastResp :: bytes
  ss_pump :: pumpPc

datatype serveError = ErrUpstreamClosed | ErrUpstreamBroken | ErrSessionClosed | ErrUpstreamWrite

definition newSession :: "time \<Rightarrow> string \<Rightarrow> session" where
  "newSession now sid =
     \<lparr>ss_id = sid, ss_upstream = \<lparr>up_received = [], up_sent = [], up_closed = False\<rparr>, ss_pending = [], ss_closed = False,
      ss_last = now, ss_wake = False, ss_upstreamDone = False, ss_upstreamErr = False, ss_haveSeq = False, ss_lastSeq = 0,
      ss_lastResp = [], ss_pump = PumpRead\<rparr>"

definition signalWake :: "session \<Rightarrow> session" where
  "signalWake s = s\<lparr>ss_wake := True\<rparr>"

definition touch :: "time \<Rightarrow> session \<Rightarrow> session" where
  "touch now s = s\<lparr>ss_last := now\<rparr>"

definition ss_close :: "session \<Rightarrow> session" where
  "ss_close s =
     (if ss_closed s then s
      else signalWake (s\<lparr>ss_closed := True, ss_upstream := (ss_upstream s)\<lparr>up_closed := True\<rparr>\<rparr>))"

definition takeLocked :: "int \<Rightarrow> session \<Rightarrow> bytes \<times> session" where
  "takeLocked maxLen s =
     (if ss_pending s = [] then ([], s)
      else
        let n = nat (min (int (length (ss_pending s))) maxLen) in
        (take n (ss_pending s), s\<lparr>ss_pending := drop n (ss_pending s)\<rparr>))"

subsection \<open>The read pump\<close>

text \<open>What follows a read whose bytes are stored: the loop goes on, or its error ends the goroutine.\<close>

definition pumpAfter :: "readError option \<Rightarrow> pumpPc" where
  "pumpAfter err = (case err of None \<Rightarrow> PumpRead | Some ReadEOF \<Rightarrow> PumpReturn | Some ReadFailed \<Rightarrow> PumpFail)"

definition pump_read :: "bytes \<Rightarrow> readError option \<Rightarrow> session \<Rightarrow> session" where
  "pump_read data err s =
     s\<lparr>ss_upstream := (ss_upstream s)\<lparr>up_sent := up_sent (ss_upstream s) @ data\<rparr>,
       ss_pump := (if data \<noteq> [] then PumpStore data err else pumpAfter err)\<rparr>"

text \<open>With no room the pump sleeps until the buffer is drained or the session closed: nothing changes.\<close>

definition pump_store :: "int \<Rightarrow> bytes \<Rightarrow> readError option \<Rightarrow> session \<Rightarrow> session" where
  "pump_store cap data err s =
     (if ss_pending s \<noteq> [] \<and> int (length (ss_pending s)) + int (length data) > cap \<and> \<not> ss_closed s then s
      else if ss_closed s then s\<lparr>ss_pump := PumpReturn\<rparr>
      else signalWake (s\<lparr>ss_pending := ss_pending s @ data, ss_pump := pumpAfter err\<rparr>))"

definition pump_fail :: "session \<Rightarrow> session" where
  "pump_fail s = s\<lparr>ss_upstreamErr := True, ss_pump := PumpReturn\<rparr>"

definition pump_return :: "session \<Rightarrow> session" where
  "pump_return s = s\<lparr>ss_upstreamDone := True, ss_pump := PumpReturned\<rparr>"

definition readBufLen :: nat where
  "readBufLen = 32 * 1024"

text \<open>What may happen to a session while one of its polls is being served: the pump runs, another poll
  touches the session, it is closed, or the token of the wake channel is consumed.\<close>

inductive session_step :: "int \<Rightarrow> session \<Rightarrow> session \<Rightarrow> bool" for cap where
  pumpRead: "ss_pump s = PumpRead \<Longrightarrow> length data \<le> readBufLen \<Longrightarrow> session_step cap s (pump_read data err s)"
| pumpStore: "ss_pump s = PumpStore data err \<Longrightarrow> session_step cap s (pump_store cap data err s)"
| pumpFail: "ss_pump s = PumpFail \<Longrightarrow> session_step cap s (pump_fail s)"
| pumpReturn: "ss_pump s = PumpReturn \<Longrightarrow> session_step cap s (pump_return s)"
| touched: "session_step cap s (touch now s)"
| closing: "session_step cap s (ss_close s)"
| woken: "session_step cap s (s\<lparr>ss_wake := False\<rparr>)"

subsection \<open>Serving a poll\<close>

text \<open>One poll's surroundings: the time; \<open>sv_between k\<close>, what other goroutines do to the session between
  section \<open>k\<close> and the next; how many bytes of the body the upstream took, and whether the write
  succeeded.\<close>

record serveEnv =
  sv_now :: time
  sv_between :: "nat \<Rightarrow> session \<Rightarrow> session"
  sv_written :: nat
  sv_writeOk :: bool

definition writeUpstream :: "serveEnv \<Rightarrow> bytes \<Rightarrow> session \<Rightarrow> serveError option \<times> session" where
  "writeUpstream e b s =
     (if ss_closed s then (Some ErrSessionClosed, s)
      else
        let s = sv_between e 0 s;
            n = (if sv_writeOk e then length b else min (sv_written e) (length b)) in
        (if sv_writeOk e then None else Some ErrUpstreamWrite,
         s\<lparr>ss_upstream := (ss_upstream s)\<lparr>up_received := up_received (ss_upstream s) @ take n b\<rparr>\<rparr>))"

definition takeDownstream :: "serveEnv \<Rightarrow> int \<Rightarrow> session \<Rightarrow> bytes \<times> session" where
  "takeDownstream e maxLen s =
     (if ss_pending s \<noteq> []
      then let (chunk, s) = takeLocked maxLen s in (chunk, s\<lparr>ss_last := sv_now e\<rparr>)
      else takeLocked maxLen (sv_between e 2 (s\<lparr>ss_last := sv_now e\<rparr>)))"

definition upstreamFinished :: "session \<Rightarrow> bool \<times> bool" where
  "upstreamFinished s =
     (if \<not> ss_upstreamDone s then (False, False)
      else if ss_pending s \<noteq> [] then (False, False)
      else (True, ss_upstreamErr s))"

text \<open>The part of \<open>serveRequest\<close> that both kinds of clients run: write the body, take what there is, and see
  whether the upstream is finished when there is nothing.\<close>

definition servePoll :: "serveEnv \<Rightarrow> bytes \<Rightarrow> int \<Rightarrow> session \<Rightarrow> (serveError + bytes) \<times> session" where
  "servePoll e body respCap s =
     (case (if body = [] then (None, s) else writeUpstream e body s) of
        (Some err, s) \<Rightarrow> (Inl err, s)
      | (None, s) \<Rightarrow>
          let (resp, s) = takeDownstream e respCap (sv_between e 1 s) in
          if resp = []
          then let s = sv_between e 3 s; (done, broken) = upstreamFinished s in
               (if done then Inl (if broken then ErrUpstreamBroken else ErrUpstreamClosed) else Inr resp, s)
          else (Inr resp, s))"

definition serveRequest ::
  "serveEnv \<Rightarrow> bool \<Rightarrow> u64 \<Rightarrow> bytes \<Rightarrow> int \<Rightarrow> session \<Rightarrow> (serveError + bytes) \<times> session" where
  "serveRequest e hasSeq seq body respCap s =
     (if \<not> hasSeq then servePoll e body respCap s
      else if ss_haveSeq s \<and> seq = ss_lastSeq s then (Inr (ss_lastResp s), s)
      else case servePoll e body respCap s of
        (Inl err, s) \<Rightarrow> (Inl err, s)
      | (Inr resp, s) \<Rightarrow> (Inr resp, s\<lparr>ss_haveSeq := True, ss_lastSeq := seq, ss_lastResp := resp\<rparr>))"

section \<open>The server\<close>

text \<open>\<open>ms_objs\<close> is the store of all sessions ever created, \<open>ms_sessions\<close> the map from ids to places in it.
  \<open>ms_nil\<close>: \<open>Close\<close> has set the map to nil, and assigning to it panics.\<close>

record meekServer =
  ms_cfg :: serverConfig
  ms_objs :: "session list"
  ms_sessions :: "(string, nat) gomap"
  ms_nil :: bool

definition NewServer :: "serverConfig \<Rightarrow> meekServer option" where
  "NewServer cfg =
     (if sc_Upstream cfg = '''' then None
      else Some \<lparr>ms_cfg = sc_defaults cfg, ms_objs = [], ms_sessions = [], ms_nil = False\<rparr>)"

definition updObj :: "nat \<Rightarrow> (session \<Rightarrow> session) \<Rightarrow> meekServer \<Rightarrow> meekServer" where
  "updObj i f m = m\<lparr>ms_objs := (ms_objs m)[i := f (ms_objs m ! i)]\<rparr>"

text \<open>The reaper's sleep and its goroutine are left out: \<open>Close\<close> waits for it and \<open>reapOnce\<close> is what it does.\<close>

definition server_Close :: "meekServer \<Rightarrow> meekServer" where
  "server_Close m = (fold (\<lambda>i. updObj i ss_close) (map snd (ms_sessions m)) m)\<lparr>ms_sessions := [], ms_nil := True\<rparr>"

definition dropSession :: "string \<Rightarrow> meekServer \<Rightarrow> meekServer" where
  "dropSession sid m =
     (case gget (ms_sessions m) sid of
        None \<Rightarrow> m
      | Some i \<Rightarrow> updObj i ss_close (m\<lparr>ms_sessions := gdel sid (ms_sessions m)\<rparr>))"

definition reapOnce :: "time \<Rightarrow> meekServer \<Rightarrow> meekServer" where
  "reapOnce now m =
     (let cutoff = now - sc_SessionIdleTimeout (ms_cfg m);
          dead = filter (\<lambda>(sid, i). ss_last (ms_objs m ! i) < cutoff) (ms_sessions m) in
      fold (\<lambda>i. updObj i ss_close) (map snd dead)
        (m\<lparr>ms_sessions := filter (\<lambda>(sid, i). \<not> ss_last (ms_objs m ! i) < cutoff) (ms_sessions m)\<rparr>))"

definition SessionCount :: "meekServer \<Rightarrow> int" where
  "SessionCount m = int (length (ms_sessions m))"

text \<open>\<open>getOrCreateSession\<close>: the lookup, and after a successful dial the second look, which prefers a session created
  meanwhile and closes the connection just dialed (the discarded session has no other trace).\<close>

definition lookupSession :: "time \<Rightarrow> string \<Rightarrow> meekServer \<Rightarrow> nat option \<times> meekServer" where
  "lookupSession now sid m =
     (case gget (ms_sessions m) sid of
        Some i \<Rightarrow> (Some i, updObj i (touch now) m)
      | None \<Rightarrow> (None, m))"

datatype insertError = ErrDial | PanicNilMap

definition insertSession :: "time \<Rightarrow> bool \<Rightarrow> string \<Rightarrow> meekServer \<Rightarrow> (insertError + nat) \<times> meekServer" where
  "insertSession now dialOk sid m =
     (if \<not> dialOk then (Inl ErrDial, m)
      else case gget (ms_sessions m) sid of
        Some i \<Rightarrow> (Inr i, updObj i (touch now) m)
      | None \<Rightarrow>
          if ms_nil m then (Inl PanicNilMap, m)
          else (Inr (length (ms_objs m)),
                m\<lparr>ms_objs := ms_objs m @ [newSession now sid],
                  ms_sessions := gput sid (length (ms_objs m)) (ms_sessions m)\<rparr>))"

definition getOrCreateSession ::
  "time \<Rightarrow> bool \<Rightarrow> (meekServer \<Rightarrow> meekServer) \<Rightarrow> string \<Rightarrow> meekServer \<Rightarrow> (insertError + nat) \<times> meekServer" where
  "getOrCreateSession now dialOk between sid m =
     (case lookupSession now sid m of
        (Some i, m) \<Rightarrow> (Inr i, m)
      | (None, m) \<Rightarrow> insertSession now dialOk sid (between m))"

section \<open>Requests\<close>

definition parseSeq :: "string \<Rightarrow> u64 option" where
  "parseSeq s = (if s = '''' then None else ParseUint s)"

definition parseMaxBody :: "string \<Rightarrow> int" where
  "parseMaxBody s =
     (if s = '''' then 0 else case Atoi s of None \<Rightarrow> 0 | Some v \<Rightarrow> if v < 0 then 0 else v)"

text \<open>The checks before a session is touched: the status of a refusal. \<open>bodyOk\<close>: the body could be
  read.\<close>

definition refuse :: "serverConfig \<Rightarrow> bool \<Rightarrow> httpRequest \<Rightarrow> int option" where
  "refuse cfg bodyOk r =
     (if hr_method r \<noteq> ''POST'' then Some 405
      else if sc_AuthToken cfg \<noteq> '''' \<and> header_get ''X-Meek-Auth'' (hr_header r) \<noteq> sc_AuthToken cfg then Some 403
      else if header_get ''X-Session-Id'' (hr_header r) = '''' then Some 400
      else if \<not> bodyOk then Some 400
      else if int (length (take (nat (sc_MaxBodyBytes cfg + 1)) (hr_body r))) > sc_MaxBodyBytes cfg then Some 413
      else None)"

definition responseCap :: "serverConfig \<Rightarrow> httpRequest \<Rightarrow> int" where
  "responseCap cfg r =
     (let respCap = sc_MaxBodyBytes cfg; adv = parseMaxBody (header_get headerMaxBody (hr_header r)) in
      if adv > 0 then (if adv < respCap then adv else respCap)
      else if respCap > legacyMaxBodyBytes then legacyMaxBodyBytes else respCap)"

text \<open>The poll of a request on its session, and the answer to it: a status and a body.\<close>

definition servePart :: "serveEnv \<Rightarrow> httpRequest \<Rightarrow> serverConfig \<Rightarrow> session \<Rightarrow> (serveError + bytes) \<times> session" where
  "servePart e r cfg s =
     (case parseSeq (header_get headerSeq (hr_header r)) of
        None \<Rightarrow> serveRequest e False 0 (hr_body r) (responseCap cfg r) s
      | Some seq \<Rightarrow> serveRequest e True seq (hr_body r) (responseCap cfg r) s)"

datatype response = Status int | Ok bytes | Panicked

definition answerOf :: "serveError + bytes \<Rightarrow> response" where
  "answerOf x =
     (case x of
        Inr downstream \<Rightarrow> Ok downstream
      | Inl ErrUpstreamBroken \<Rightarrow> Status 502
      | Inl ErrUpstreamClosed \<Rightarrow> Status 410
      | Inl _ \<Rightarrow> Status 502)"

text \<open>\<open>ServeHTTP\<close> from beginning to end. \<open>between k\<close> is what other handlers do in the pauses: while the upstream is
  dialed, before the poll is served, and before a failed session is dropped.\<close>

definition ServeHTTP ::
  "serveEnv \<Rightarrow> bool \<Rightarrow> bool \<Rightarrow> (nat \<Rightarrow> meekServer \<Rightarrow> meekServer) \<Rightarrow> httpRequest \<Rightarrow> meekServer \<Rightarrow> response \<times> meekServer" where
  "ServeHTTP e bodyOk dialOk between r m =
     (case refuse (ms_cfg m) bodyOk r of
        Some status \<Rightarrow> (Status status, m)
      | None \<Rightarrow>
          let sid = header_get ''X-Session-Id'' (hr_header r) in
          (case getOrCreateSession (sv_now e) dialOk (between 0) sid m of
             (Inl ErrDial, m) \<Rightarrow> (Status 502, m)
           | (Inl PanicNilMap, m) \<Rightarrow> (Panicked, m)
           | (Inr i, m) \<Rightarrow>
               let m = between 1 m; (x, s) = servePart e r (ms_cfg m) (ms_objs m ! i); m = updObj i (\<lambda>_. s) m in
               (answerOf x, case x of Inl _ \<Rightarrow> dropSession sid (between 2 m) | Inr _ \<Rightarrow> m)))"

section \<open>What other goroutines leave alone\<close>

text \<open>The bytes the pump holds, and the downstream: everything read from the upstream is what was handed out
  before (\<open>X\<close>), what is buffered, and what the pump holds. Only a pump that found the session closed
  drops bytes.\<close>

definition pump_data :: "session \<Rightarrow> bytes" where
  "pump_data s = (case ss_pump s of PumpStore data _ \<Rightarrow> data | _ \<Rightarrow> [])"

definition ahead :: "bytes \<Rightarrow> session \<Rightarrow> bool" where
  "ahead X s \<longleftrightarrow>
     (\<exists>rest. up_sent (ss_upstream s) = X @ ss_pending s @ rest \<and>
        (rest = pump_data s \<or> (ss_closed s \<and> ss_pump s \<in> {PumpReturn, PumpReturned})))"

text \<open>The buffer never holds more than its cap, or one read when that is larger; the channel that says the pump
  has returned is closed when it has.\<close>

definition session_ok :: "int \<Rightarrow> session \<Rightarrow> bool" where
  "session_ok cap s \<longleftrightarrow>
     int (length (ss_pending s)) \<le> max cap (int readBufLen) \<and> length (pump_data s) \<le> readBufLen \<and>
     (ss_upstreamDone s \<longleftrightarrow> ss_pump s = PumpReturned)"

text \<open>What a poll may rely on while it has released the session's locks.\<close>

definition undisturbed :: "session \<Rightarrow> session \<Rightarrow> bool" where
  "undisturbed s s' \<longleftrightarrow>
     up_received (ss_upstream s') = up_received (ss_upstream s) \<and> ss_haveSeq s' = ss_haveSeq s \<and>
     ss_lastSeq s' = ss_lastSeq s \<and> ss_lastResp s' = ss_lastResp s \<and> (ss_closed s \<longrightarrow> ss_closed s') \<and>
     (\<forall>X. ahead X s \<longrightarrow> ahead X s')"

lemma undisturbed_refl [simp]: "undisturbed s s"
  by (simp add: undisturbed_def)

lemma undisturbed_trans [trans]: "undisturbed s t \<Longrightarrow> undisturbed t u \<Longrightarrow> undisturbed s u"
  by (auto simp: undisturbed_def)

lemmas pump_defs = pump_read_def pump_store_def pump_fail_def pump_return_def pumpAfter_def signalWake_def
  ss_close_def touch_def

lemma session_step_undisturbed: "session_step cap s s' \<Longrightarrow> undisturbed s s'"
  by (induction rule: session_step.induct)
    (auto simp: undisturbed_def ahead_def pump_defs pump_data_def split: option.splits readError.splits)

lemma session_step_ok: "session_step cap s s' \<Longrightarrow> session_ok cap s \<Longrightarrow> session_ok cap s'"
  by (induction rule: session_step.induct)
    (auto simp: session_ok_def pump_defs pump_data_def split: option.splits readError.splits if_splits)

lemma session_steps_undisturbed: "(session_step cap)\<^sup>*\<^sup>* s s' \<Longrightarrow> undisturbed s s'"
  by (induction rule: rtranclp_induct) (auto intro: undisturbed_trans session_step_undisturbed)

lemma session_steps_ok: "(session_step cap)\<^sup>*\<^sup>* s s' \<Longrightarrow> session_ok cap s \<Longrightarrow> session_ok cap s'"
  by (induction rule: rtranclp_induct) (auto intro: session_step_ok)

definition others :: "int \<Rightarrow> serveEnv \<Rightarrow> bool" where
  "others cap e \<longleftrightarrow> (\<forall>k s. (session_step cap)\<^sup>*\<^sup>* s (sv_between e k s))"

lemma others_undisturbed: "others cap e \<Longrightarrow> undisturbed s (sv_between e k s)"
  by (auto simp: others_def intro: session_steps_undisturbed)

lemma others_ok: "others cap e \<Longrightarrow> session_ok cap s \<Longrightarrow> session_ok cap (sv_between e k s)"
  by (auto simp: others_def intro: session_steps_ok)

section \<open>Serving a poll\<close>

lemma takeLocked_split:
  assumes "takeLocked n s = (chunk, s')"
  shows "ss_pending s = chunk @ ss_pending s'" and "s' = s\<lparr>ss_pending := ss_pending s'\<rparr>"
    and "0 \<le> n \<Longrightarrow> int (length chunk) \<le> n" and "chunk = [] \<Longrightarrow> 0 < n \<Longrightarrow> ss_pending s = []"
  using assms by (auto simp: takeLocked_def Let_def min_def split: if_splits)

lemma takeLocked_frame:
  assumes "takeLocked n s = (chunk, s')"
  shows "ss_upstream s' = ss_upstream s" "ss_haveSeq s' = ss_haveSeq s" "ss_lastSeq s' = ss_lastSeq s"
    "ss_lastResp s' = ss_lastResp s" "ss_closed s' = ss_closed s" "ss_pump s' = ss_pump s"
    "ss_upstreamDone s' = ss_upstreamDone s" "ss_upstreamErr s' = ss_upstreamErr s" "pump_data s' = pump_data s"
  by (subst takeLocked_split(2) [OF assms], simp add: pump_data_def)+

lemma takeLocked_ahead:
  assumes "takeLocked n s = (chunk, s')" and "ahead X s"
  shows "ahead (X @ chunk) s'"
  using assms(2) takeLocked_split(1) [OF assms(1)] by (auto simp: ahead_def takeLocked_frame [OF assms(1)])

lemma takeLocked_ok:
  assumes "takeLocked n s = (chunk, s')" and "session_ok cap s"
  shows "session_ok cap s'"
  using assms(2) takeLocked_split(1) [OF assms(1)] by (auto simp: session_ok_def takeLocked_frame [OF assms(1)])

lemma last_updates [simp]:
  "ahead X (s\<lparr>ss_last := t\<rparr>) = ahead X s" "session_ok cap (s\<lparr>ss_last := t\<rparr>) = session_ok cap s"
  "ahead X (s\<lparr>ss_haveSeq := h, ss_lastSeq := q, ss_lastResp := r\<rparr>) = ahead X s"
  "session_ok cap (s\<lparr>ss_haveSeq := h, ss_lastSeq := q, ss_lastResp := r\<rparr>) = session_ok cap s"
  by (simp_all add: ahead_def session_ok_def pump_data_def)

text \<open>Taking what there is hands out the next bytes of the downstream, at most the cap of them.\<close>

lemma takeDownstream_effect:
  assumes "takeDownstream e n s = (chunk, s')" and "others cap e"
  shows "up_received (ss_upstream s') = up_received (ss_upstream s) \<and> ss_haveSeq s' = ss_haveSeq s \<and>
    ss_lastSeq s' = ss_lastSeq s \<and> ss_lastResp s' = ss_lastResp s"
    and "ahead X s \<Longrightarrow> ahead (X @ chunk) s'" and "0 \<le> n \<Longrightarrow> int (length chunk) \<le> n"
    and "session_ok cap s \<Longrightarrow> session_ok cap s'"
proof -
  let ?t = "s\<lparr>ss_last := sv_now e\<rparr>"
  have und: "undisturbed ?t (sv_between e 2 ?t)" by (rule others_undisturbed [OF assms(2)])
  show "up_received (ss_upstream s') = up_received (ss_upstream s) \<and> ss_haveSeq s' = ss_haveSeq s \<and>
    ss_lastSeq s' = ss_lastSeq s \<and> ss_lastResp s' = ss_lastResp s"
    using assms(1) und by (auto simp: takeDownstream_def undisturbed_def takeLocked_frame split: if_splits prod.splits)
  show "ahead (X @ chunk) s'" if "ahead X s"
    using assms(1) und that
    by (auto simp: takeDownstream_def undisturbed_def intro: takeLocked_ahead split: if_splits prod.splits)
  show "int (length chunk) \<le> n" if "0 \<le> n"
    using assms(1) that by (auto simp: takeDownstream_def dest: takeLocked_split(3) split: if_splits prod.splits)
  show "session_ok cap s'" if "session_ok cap s"
    using assms(1) that others_ok [OF assms(2), of ?t 2]
    by (auto simp: takeDownstream_def intro: takeLocked_ok split: if_splits prod.splits)
qed

lemma writeUpstream_effect:
  assumes "writeUpstream e b s = (r, s')" and "others cap e"
  shows "(\<exists>n. up_received (ss_upstream s') = up_received (ss_upstream s) @ take n b) \<and>
      (r = None \<longrightarrow> up_received (ss_upstream s') = up_received (ss_upstream s) @ b) \<and>
      ss_haveSeq s' = ss_haveSeq s \<and> ss_lastSeq s' = ss_lastSeq s \<and> ss_lastResp s' = ss_lastResp s"
    and "ahead X s \<Longrightarrow> ahead X s'" and "session_ok cap s \<Longrightarrow> session_ok cap s'"
proof -
  have und: "undisturbed s (sv_between e 0 s)" by (rule others_undisturbed [OF assms(2)])
  have ends: "\<exists>n. take n b = []" "\<exists>n. b = take n b" by (rule exI [of _ 0], simp) (metis take_all_iff order_refl)
  show "(\<exists>n. up_received (ss_upstream s') = up_received (ss_upstream s) @ take n b) \<and>
      (r = None \<longrightarrow> up_received (ss_upstream s') = up_received (ss_upstream s) @ b) \<and>
      ss_haveSeq s' = ss_haveSeq s \<and> ss_lastSeq s' = ss_lastSeq s \<and> ss_lastResp s' = ss_lastResp s"
    using assms(1) und ends by (auto simp: writeUpstream_def undisturbed_def Let_def split: if_splits)
  show "ahead X s'" if "ahead X s"
    using assms(1) und that by (auto simp: writeUpstream_def undisturbed_def Let_def ahead_def pump_data_def split: if_splits)
  show "session_ok cap s'" if "session_ok cap s"
    using assms(1) that others_ok [OF assms(2), of s 0]
    by (auto simp: writeUpstream_def Let_def session_ok_def pump_data_def split: if_splits)
qed

text \<open>A poll that is answered has delivered its whole body upstream and hands out the next bytes of the
  downstream; one that fails has delivered a prefix of its body and hands out nothing.\<close>

lemma servePoll_effect:
  assumes "servePoll e body respCap s = (x, s')" and "others cap e"
  shows "ss_haveSeq s' = ss_haveSeq s \<and> ss_lastSeq s' = ss_lastSeq s \<and> ss_lastResp s' = ss_lastResp s"
    and "\<exists>n. up_received (ss_upstream s') = up_received (ss_upstream s) @ take n body"
    and "x = Inr resp \<Longrightarrow> up_received (ss_upstream s') = up_received (ss_upstream s) @ body"
    and "ahead X s \<Longrightarrow> ahead (X @ (case x of Inr resp \<Rightarrow> resp | Inl _ \<Rightarrow> [])) s'"
    and "x = Inr resp \<Longrightarrow> 0 \<le> respCap \<Longrightarrow> int (length resp) \<le> respCap"
    and "session_ok cap s \<Longrightarrow> session_ok cap s'"
    and "x = Inl ErrUpstreamClosed \<Longrightarrow> ss_upstreamDone s' \<and> \<not> ss_upstreamErr s' \<and> ss_pending s' = []"
proof -
  obtain r s1 where w: "(if body = [] then (None, s) else writeUpstream e body s) = (r, s1)" by fastforce
  have w1: "(\<exists>n. up_received (ss_upstream s1) = up_received (ss_upstream s) @ take n body) \<and>
      (r = None \<longrightarrow> up_received (ss_upstream s1) = up_received (ss_upstream s) @ body) \<and>
      ss_haveSeq s1 = ss_haveSeq s \<and> ss_lastSeq s1 = ss_lastSeq s \<and> ss_lastResp s1 = ss_lastResp s"
    using w writeUpstream_effect(1) [OF _ assms(2), of body s r s1] by (auto split: if_splits)
  have w2: "ahead X s \<Longrightarrow> ahead X s1" and w3: "session_ok cap s \<Longrightarrow> session_ok cap s1" for X
    using w writeUpstream_effect(2,3) [OF _ assms(2), of body s r s1] by (auto split: if_splits)
  have wc: "r = Some z \<Longrightarrow> z \<noteq> ErrUpstreamClosed" for z
    using w by (auto simp: writeUpstream_def Let_def split: if_splits)
  let ?a = "sv_between e 1 s1"
  obtain resp' s2 where t: "takeDownstream e respCap ?a = (resp', s2)" by fastforce
  note t' = takeDownstream_effect [OF t assms(2)]
  let ?b = "sv_between e 3 s2"
  have und: "undisturbed s1 ?a" "undisturbed s2 ?b" by (rule others_undisturbed [OF assms(2)])+
  have x: "x = (case r of Some err \<Rightarrow> Inl err
             | None \<Rightarrow> if resp' = [] \<and> fst (upstreamFinished ?b)
                       then Inl (if snd (upstreamFinished ?b) then ErrUpstreamBroken else ErrUpstreamClosed) else Inr resp')"
    and s': "s' = (case r of Some err \<Rightarrow> s1 | None \<Rightarrow> if resp' = [] then ?b else s2)"
    using assms(1) w t by (auto simp: servePoll_def Let_def split: option.splits prod.splits if_splits)
  show "ss_haveSeq s' = ss_haveSeq s \<and> ss_lastSeq s' = ss_lastSeq s \<and> ss_lastResp s' = ss_lastResp s"
    using w1 und t'(1) by (simp add: s' undisturbed_def split: option.split)
  show "\<exists>n. up_received (ss_upstream s') = up_received (ss_upstream s) @ take n body"
    using w1 und t'(1) by (auto simp: s' undisturbed_def split: option.split)
  show "up_received (ss_upstream s') = up_received (ss_upstream s) @ body" if "x = Inr resp"
    using w1 und t'(1) that by (auto simp: s' x undisturbed_def split: option.splits)
  show "ahead (X @ (case x of Inr resp \<Rightarrow> resp | Inl _ \<Rightarrow> [])) s'" if "ahead X s"
  proof -
    have "ahead X ?a" using w2 [OF that] und(1) by (simp add: undisturbed_def)
    from t'(2) [OF this] w2 [OF that] und(2) show ?thesis
      by (auto simp: s' x undisturbed_def split: option.splits)
  qed
  show "int (length resp) \<le> respCap" if "x = Inr resp" "0 \<le> respCap"
    using t'(3) that by (auto simp: x split: option.splits if_splits)
  show "session_ok cap s'" if "session_ok cap s"
    using w3 [OF that] others_ok [OF assms(2)] t'(4) by (auto simp: s' split: option.splits)
  show "ss_upstreamDone s' \<and> \<not> ss_upstreamErr s' \<and> ss_pending s' = []" if "x = Inl ErrUpstreamClosed"
    using that wc by (auto simp: x s' upstreamFinished_def split: option.splits if_splits)
qed

abbreviation replayed :: "bool \<Rightarrow> u64 \<Rightarrow> session \<Rightarrow> bool" where
  "replayed hasSeq seq s \<equiv> hasSeq \<and> ss_haveSeq s \<and> ss_lastSeq s = seq"

lemma serveRequest_cases:
  assumes "serveRequest e hasSeq seq body respCap s = (x, s')"
  shows "if replayed hasSeq seq s then x = Inr (ss_lastResp s) \<and> s' = s
         else \<exists>t. servePoll e body respCap s = (x, t) \<and>
           s' = (case x of Inl _ \<Rightarrow> t
                 | Inr resp \<Rightarrow> if hasSeq then t\<lparr>ss_haveSeq := True, ss_lastSeq := seq, ss_lastResp := resp\<rparr> else t)"
  using assms by (auto simp: serveRequest_def split: if_splits prod.splits sum.splits)

section \<open>A session's life\<close>

text \<open>The bytes handed out so far, and the session: the pump and the other goroutines run, and polls of either kind
  are served. A replay hands out nothing new.\<close>

inductive session_run :: "int \<Rightarrow> bytes \<times> session \<Rightarrow> bytes \<times> session \<Rightarrow> bool" for cap where
  other: "session_step cap s s' \<Longrightarrow> session_run cap (X, s) (X, s')"
| served: "others cap e \<Longrightarrow> serveRequest e hasSeq seq body respCap s = (x, s') \<Longrightarrow>
    session_run cap (X, s)
      (if replayed hasSeq seq s then X else X @ (case x of Inr resp \<Rightarrow> resp | Inl _ \<Rightarrow> []), s')"

definition session_new :: "bytes \<times> session \<Rightarrow> bool" where
  "session_new y \<longleftrightarrow> (\<exists>now sid. y = ([], newSession now sid))"

definition session_inv :: "int \<Rightarrow> bytes \<times> session \<Rightarrow> bool" where
  "session_inv cap y \<longleftrightarrow> ahead (fst y) (snd y) \<and> session_ok cap (snd y)"

lemma served_inv:
  assumes "session_inv cap (X, s)" and "others cap e" and "serveRequest e hasSeq seq body respCap s = (x, s')"
  shows "session_inv cap (if replayed hasSeq seq s then X else X @ (case x of Inr resp \<Rightarrow> resp | Inl _ \<Rightarrow> []), s')"
proof (cases "replayed hasSeq seq s")
  case True
  then show ?thesis using serveRequest_cases [OF assms(3)] assms(1) by (simp add: session_inv_def)
next
  case False
  then obtain t where t: "servePoll e body respCap s = (x, t)"
    and s': "s' = (case x of Inl _ \<Rightarrow> t
       | Inr resp \<Rightarrow> if hasSeq then t\<lparr>ss_haveSeq := True, ss_lastSeq := seq, ss_lastResp := resp\<rparr> else t)"
    using serveRequest_cases [OF assms(3)] by auto
  show ?thesis
    using servePoll_effect(4) [OF t assms(2), of X] servePoll_effect(6) [OF t assms(2)] assms(1) False
    by (auto simp: session_inv_def s' split: sum.splits)
qed

interpretation meek_session: invariant_system session_new "session_run cap" "session_inv cap" for cap
proof
  show "session_inv cap s" if "session_new s" for s
    using that by (auto simp: session_new_def session_inv_def newSession_def ahead_def session_ok_def pump_data_def)
  show "session_inv cap t" if "session_inv cap s" and "session_run cap s t" for s t
    using that(2,1)
  proof cases
    case (other s s' X)
    then show ?thesis
      using session_step_undisturbed [of cap s s'] session_step_ok [of cap s s'] that(1)
      by (auto simp: session_inv_def undisturbed_def)
  next
    case (served e hasSeq seq body respCap s x s' X)
    then show ?thesis using served_inv [of cap X s e hasSeq seq body respCap x s'] that(1) by simp
  qed
qed

text \<open>A session keeps its stream. However polls are served and the pump runs, the bytes handed out followed by the
  buffered ones are the beginning of what the upstream sent, in order and without gaps; while the session
  is open only the bytes the pump still holds come after them; and the buffer holds at most its cap, or
  one read if that is more.\<close>

lemma session_keeps_stream:
  assumes "reaches session_new (session_run cap) (handed, s)"
  shows "take (length (handed @ ss_pending s)) (up_sent (ss_upstream s)) = handed @ ss_pending s \<and>
    (\<not> ss_closed s \<longrightarrow> up_sent (ss_upstream s) = handed @ ss_pending s @ pump_data s) \<and>
    int (length (ss_pending s)) \<le> max cap (int readBufLen)"
  using meek_session.reaches_inv [OF assms] by (auto simp: session_inv_def ahead_def session_ok_def)



section \<open>Examples\<close>

definition exampleServe :: serveEnv where
  "exampleServe = \<lparr>sv_now = 1, sv_between = (\<lambda>_ s. s), sv_written = 0, sv_writeOk = True\<rparr>"

lemma exampleServe_others: "others cap exampleServe"
  by (simp add: others_def exampleServe_def)

text \<open>The upstream sends three bytes and ends; two of them are handed out, then the third, then the end.\<close>

definition exampleEnded :: session where
  "exampleEnded = pump_return (pump_store 64 [1, 2, 3] (Some ReadEOF) (pump_read [1, 2, 3] (Some ReadEOF) (newSession 0 ''s'')))"

definition exampleDrained :: session where
  "exampleDrained =
     snd (serveRequest exampleServe True 1 [] 2 (snd (serveRequest exampleServe True 0 [9] 2 exampleEnded)))"

lemma exampleEnded_reaches: "reaches session_new (session_run 64) ([], exampleEnded)"
proof -
  let ?n = "newSession 0 ''s''"
  let ?r = "pump_read [1, 2, 3] (Some ReadEOF) ?n"
  let ?p = "pump_store 64 [1, 2, 3] (Some ReadEOF) ?r"
  have pcs: "ss_pump ?n = PumpRead" "ss_pump ?r = PumpStore [1, 2, 3] (Some ReadEOF)" "ss_pump ?p = PumpReturn"
    by code_simp+
  have "reaches session_new (session_run 64) ([], ?n)" by (rule reaches_init) (auto simp: session_new_def)
  then have "reaches session_new (session_run 64) ([], ?r)"
    by (rule reaches_step) (rule session_run.other, rule session_step.pumpRead [OF pcs(1)], simp add: readBufLen_def)
  then have "reaches session_new (session_run 64) ([], ?p)"
    by (rule reaches_step) (rule session_run.other, rule session_step.pumpStore [OF pcs(2)])
  then show ?thesis unfolding exampleEnded_def
    by (rule reaches_step) (rule session_run.other, rule session_step.pumpReturn [OF pcs(3)])
qed

lemma exampleDrained_reaches: "reaches session_new (session_run 64) ([1, 2, 3], exampleDrained)"
proof -
  define a where "a = snd (serveRequest exampleServe True 0 [9] 2 exampleEnded)"
  have a: "serveRequest exampleServe True 0 [9] 2 exampleEnded = (Inr [1, 2], a)" unfolding a_def by code_simp
  have b: "serveRequest exampleServe True 1 [] 2 a = (Inr [3], exampleDrained)" unfolding a_def exampleDrained_def by code_simp
  have "\<not> replayed True 0 exampleEnded" "\<not> replayed True 1 a" unfolding a_def by code_simp+
  then show ?thesis
    using session_run.served [OF exampleServe_others a, of 64 "[]"] session_run.served [OF exampleServe_others b, of 64 "[1, 2]"]
      exampleEnded_reaches
    by (auto intro: reaches_step)
qed



text \<open>The hypothesis that the session is open is needed: a session that is closed while the pump holds bytes
  drops them without recording a failure, and a poll in progress is told of a clean end.\<close>

lemma closed_session_ends_cleanly:
  "let s = pump_read [1, 2, 3] None (newSession 0 ''s'');
       e = exampleServe\<lparr>sv_between := (\<lambda>k s. if k = 2 then pump_return (pump_store 64 [1, 2, 3] None (ss_close s)) else s)\<rparr> in
   fst (serveRequest e True 0 [] 2 s) = Inl ErrUpstreamClosed \<and> up_sent (ss_upstream s) = [1, 2, 3]"
  by code_simp

text \<open>After \<open>Close\<close> a request for a new session panics.\<close>

lemma closed_server_panics:
  "fst (ServeHTTP exampleServe True True (\<lambda>_ m. m)
          \<lparr>hr_method = ''POST'', hr_host = '''', hr_header = header_set ''X-Session-Id'' ''s'' [], hr_body = []\<rparr>
          (server_Close (the (NewServer \<lparr>sc_Upstream = ''u'', sc_MaxBodyBytes = 8, sc_ResponseHoldoff = 0,
             sc_SessionIdleTimeout = 0, sc_AuthToken = ''''\<rparr>)))) = Panicked"
  by code_simp

section \<open>Requests\<close>

text \<open>Without the token nothing is dialed, written or taken: the server is as it was.\<close>

lemma unauthenticated_request_refused:
  assumes "sc_AuthToken (ms_cfg m) \<noteq> ''''" and "header_get ''X-Meek-Auth'' (hr_header r) \<noteq> sc_AuthToken (ms_cfg m)"
  shows "\<exists>status \<in> {403, 405}. ServeHTTP e bodyOk dialOk between r m = (Status status, m)"
  using assms by (auto simp: ServeHTTP_def refuse_def)

text \<open>The names of the protocol's headers are canonical and differ.\<close>

lemma canonical_names [simp]:
  "CanonicalHeaderKey ''X-Session-Id'' = ''X-Session-Id''" "CanonicalHeaderKey headerSeq = headerSeq"
  "CanonicalHeaderKey headerMaxBody = headerMaxBody" "CanonicalHeaderKey ''Content-Type'' = ''Content-Type''"
  "headerSeq \<noteq> ''X-Session-Id''" "headerMaxBody \<noteq> ''X-Session-Id''" "headerSeq \<noteq> headerMaxBody"
  "headerMaxBody \<noteq> headerSeq" "''X-Session-Id'' \<noteq> headerSeq" "''X-Session-Id'' \<noteq> headerMaxBody"
  by code_simp+

lemma pollRequest_read [simp]:
  "parseSeq (header_get headerSeq (hr_header (pollRequest order c seq body))) = Some seq"
  "header_get ''X-Session-Id'' (hr_header (pollRequest order c seq body)) = cn_sessionID c"
  "hr_body (pollRequest order c seq body) = body"
  by (simp_all add: pollRequest_def parseSeq_def FormatUint_def [symmetric])
    (simp add: FormatUint_def)

text \<open>The cap of the answer is the smaller of the two sides' limits.\<close>

lemma responseCap_poll:
  assumes "0 < mc_MaxBodyBytes (cn_cfg c)" and "mc_MaxBodyBytes (cn_cfg c) < 2 ^ 63"
  shows "responseCap cfg (pollRequest order c seq body) = min (mc_MaxBodyBytes (cn_cfg c)) (sc_MaxBodyBytes cfg)"
proof -
  have "parseMaxBody (header_get headerMaxBody (hr_header (pollRequest order c seq body))) = mc_MaxBodyBytes (cn_cfg c)"
    using assms by (simp add: pollRequest_def parseMaxBody_def) (simp add: Itoa_def)
  then show ?thesis using assms(1) by (simp add: responseCap_def Let_def min_def)
qed

lemma servePart_poll:
  assumes "0 < mc_MaxBodyBytes (cn_cfg c)" and "mc_MaxBodyBytes (cn_cfg c) < 2 ^ 63"
  shows "servePart e (pollRequest order c seq body) cfg s =
    serveRequest e True seq body (min (mc_MaxBodyBytes (cn_cfg c)) (sc_MaxBodyBytes cfg)) s"
  by (simp add: servePart_def responseCap_poll [OF assms])

text \<open>What the server reads from a poll is what the client meant, whatever extra headers are configured:
  the session's id, the sequence number, the chunk, and the largest answer the client will read. The
  answer is never longer than that, so the client never rejects one as too large.\<close>

lemma poll_understood:
  assumes "0 < mc_MaxBodyBytes (cn_cfg c)" and "mc_MaxBodyBytes (cn_cfg c) < 2 ^ 63" and "0 < sc_MaxBodyBytes cfg"
    and "others cap e" and "\<not> (ss_haveSeq s \<and> ss_lastSeq s = seq)"
    and "servePart e (pollRequest order c seq body) cfg s = (Inr resp, s')"
  shows "header_get ''X-Session-Id'' (hr_header (pollRequest order c seq body)) = cn_sessionID c \<and>
    ss_lastSeq s' = seq \<and> up_received (ss_upstream s') = up_received (ss_upstream s) @ body \<and>
    int (length resp) \<le> mc_MaxBodyBytes (cn_cfg c) \<and> fst (roundtrip_finish (Answer 200 resp True) c) = None"
proof -
  let ?cap = "min (mc_MaxBodyBytes (cn_cfg c)) (sc_MaxBodyBytes cfg)"
  have "serveRequest e True seq body ?cap s = (Inr resp, s')"
    using assms(6) by (simp add: servePart_poll [OF assms(1,2)])
  then obtain u where u: "servePoll e body ?cap s = (Inr resp, u)"
    and s': "s' = u\<lparr>ss_haveSeq := True, ss_lastSeq := seq, ss_lastResp := resp\<rparr>"
    using serveRequest_cases assms(5) by (fastforce split: if_splits)
  have len: "int (length resp) \<le> mc_MaxBodyBytes (cn_cfg c)"
    using servePoll_effect(5) [OF u assms(4)] assms(1,3) by force
  then have "take (nat (mc_MaxBodyBytes (cn_cfg c) + 1)) resp = resp" by simp
  then show ?thesis using len servePoll_effect(3) [OF u assms(4)] by (simp add: s' roundtrip_finish_def Let_def)
qed

definition exampleServer :: serverConfig where
  "exampleServer = \<lparr>sc_Upstream = ''u'', sc_MaxBodyBytes = 8, sc_ResponseHoldoff = 1, sc_SessionIdleTimeout = 1, sc_AuthToken = ''''\<rparr>"

end
