(* ===== verification/Meek_Tunnel.thy ===== *)
theory Meek_Tunnel
  imports Meek_Server "HOL-Library.Sublist"
begin

text \<open>
  A meek client and its server, with a network between them that loses, delays and reorders polls and
  answers (\<open>protocol/meek/client.go\<close> and \<open>server.go\<close> together). The client's poll goroutine sends a poll, any number of
  times; each copy may reach a handler of the server at any later time; the handler finds or creates
  the session and serves the poll; an answer to the poll the client is waiting for may reach it. The
  theorem says when the bytes come through unharmed.
\<close>

section \<open>The tunnel\<close>

text \<open>\<open>tn_polls\<close> counts the polls the client has finished; a request, a handler and an answer carry the number of
  their poll. Four fields record the run: the bytes the application wrote and read, whether a poll has
  failed on the server (\<open>tn_failed\<close>), and whether the server applied a poll the client had already finished
  (\<open>tn_stale\<close>).\<close>

record tunnel =
  tn_conn :: conn
  tn_server :: meekServer
  tn_polls :: nat
  tn_requests :: "(nat \<times> httpRequest) list"
  tn_handlers :: "(nat \<times> httpRequest \<times> nat) list"
  tn_answers :: "(nat \<times> response) list"
  tn_written :: bytes
  tn_read :: bytes
  tn_failed :: bool
  tn_stale :: bool

abbreviation pumpCap :: "meekServer \<Rightarrow> int" where
  "pumpCap m \<equiv> sc_MaxBodyBytes (ms_cfg m) * 4"

abbreviation sessionId :: "httpRequest \<Rightarrow> string" where
  "sessionId r \<equiv> header_get ''X-Session-Id'' (hr_header r)"

text \<open>Whether serving the request on the session would only repeat the last answer.\<close>

definition repeats :: "httpRequest \<Rightarrow> session \<Rightarrow> bool" where
  "repeats r s \<longleftrightarrow> ss_haveSeq s \<and> parseSeq (header_get headerSeq (hr_header r)) = Some (ss_lastSeq s)"

text \<open>What happens to the connection besides reads, writes and polls.\<close>

inductive conn_control :: "conn \<Rightarrow> conn \<Rightarrow> bool" where
  closing: "conn_control c (conn_Close c)"
| marking: "conn_control c (markClosed err c)"
| readDeadline: "conn_control c (SetReadDeadline d c)"
| writeDeadline: "conn_control c (SetWriteDeadline d c)"
| woken: "conn_control c (c\<lparr>cn_writeReady := w\<rparr>)"
| canceled: "conn_control c (c\<lparr>cn_canceled := True\<rparr>)"
| ended: "conn_control c (c\<lparr>cn_pollDone := True\<rparr>)"

inductive tunnel_step :: "tunnel \<Rightarrow> tunnel \<Rightarrow> bool" where
  writing: "write_pass now p (tn_conn t) = (Some (Inr n), c) \<Longrightarrow>
    tunnel_step t (t\<lparr>tn_conn := c, tn_written := tn_written t @ take n p\<rparr>)"
| reading: "meek_Read now n (tn_conn t) = (Some (Inr bs), c) \<Longrightarrow>
    tunnel_step t (t\<lparr>tn_conn := c, tn_read := tn_read t @ bs\<rparr>)"
| control: "conn_control (tn_conn t) c \<Longrightarrow> tunnel_step t (t\<lparr>tn_conn := c\<rparr>)"
| send: "roundtrip_begin (tn_conn t) = ((seq, body), c) \<Longrightarrow>
    tunnel_step t (t\<lparr>tn_conn := c, tn_requests := (tn_polls t, pollRequest order c seq body) # tn_requests t\<rparr>)"
| refused: "(k, r) \<in> set (tn_requests t) \<Longrightarrow> refuse (ms_cfg (tn_server t)) bodyOk r = Some status \<Longrightarrow>
    tunnel_step t (t\<lparr>tn_answers := (k, Status status) # tn_answers t\<rparr>)"
| found: "(k, r) \<in> set (tn_requests t) \<Longrightarrow> refuse (ms_cfg (tn_server t)) True r = None \<Longrightarrow>
    lookupSession now (sessionId r) (tn_server t) = (Some i, m) \<Longrightarrow>
    tunnel_step t (t\<lparr>tn_server := m, tn_handlers := (k, r, i) # tn_handlers t\<rparr>)"
| dialed: "(k, r) \<in> set (tn_requests t) \<Longrightarrow> refuse (ms_cfg (tn_server t)) True r = None \<Longrightarrow>
    insertSession now True (sessionId r) (tn_server t) = (Inr i, m) \<Longrightarrow>
    tunnel_step t (t\<lparr>tn_server := m, tn_handlers := (k, r, i) # tn_handlers t\<rparr>)"
| serve: "(k, r, i) \<in> set (tn_handlers t) \<Longrightarrow> others (pumpCap (tn_server t)) e \<Longrightarrow>
    servePart e r (ms_cfg (tn_server t)) (ms_objs (tn_server t) ! i) = (x, s) \<Longrightarrow>
    tunnel_step t
      (t\<lparr>tn_server := updObj i (\<lambda>_. s) (tn_server t), tn_answers := (k, answerOf x) # tn_answers t,
         tn_failed := tn_failed t \<or> isl x,
         tn_stale := tn_stale t \<or> k < tn_polls t \<and> \<not> repeats r (ms_objs (tn_server t) ! i)\<rparr>)"
| receive: "(tn_polls t, Ok body) \<in> set (tn_answers t) \<Longrightarrow>
    roundtrip_finish (Answer 200 body True) (tn_conn t) = (None, c) \<Longrightarrow>
    tunnel_step t (t\<lparr>tn_conn := c, tn_polls := tn_polls t + 1\<rparr>)"
| background: "i < length (ms_objs (tn_server t)) \<Longrightarrow>
    session_step (pumpCap (tn_server t)) (ms_objs (tn_server t) ! i) s \<Longrightarrow>
    tunnel_step t (t\<lparr>tn_server := updObj i (\<lambda>_. s) (tn_server t)\<rparr>)"
| dropped: "tunnel_step t (t\<lparr>tn_server := dropSession sid (tn_server t)\<rparr>)"
| reaped: "tunnel_step t (t\<lparr>tn_server := reapOnce now (tn_server t)\<rparr>)"
| stopped: "tunnel_step t (t\<lparr>tn_server := server_Close (tn_server t)\<rparr>)"

definition tunnel_new :: "tunnel \<Rightarrow> bool" where
  "tunnel_new t \<longleftrightarrow>
     conn_dialed (tn_conn t) \<and> mc_MaxBodyBytes (cn_cfg (tn_conn t)) < 2 ^ 63 \<and>
     (\<exists>cfg. NewServer cfg = Some (tn_server t)) \<and>
     t = \<lparr>tn_conn = tn_conn t, tn_server = tn_server t, tn_polls = 0, tn_requests = [], tn_handlers = [], tn_answers = [],
          tn_written = [], tn_read = [], tn_failed = False, tn_stale = False\<rparr>"

text \<open>The session of the tunnel, and a run without accidents: the client's polls were served on one session, none
  of them failed, and none was applied after the client had finished it.\<close>

definition tn_session :: "tunnel \<Rightarrow> session" where
  "tn_session t = (case ms_objs (tn_server t) of [] \<Rightarrow> newSession 0 [] | s # _ \<Rightarrow> s)"

definition clean :: "tunnel \<Rightarrow> bool" where
  "clean t \<longleftrightarrow> \<not> tn_failed t \<and> \<not> tn_stale t \<and> length (ms_objs (tn_server t)) \<le> 1"

section \<open>What the server's map operations do to the sessions\<close>

text \<open>Sessions may have moved by steps of their own.\<close>

definition objs_moved :: "int \<Rightarrow> meekServer \<Rightarrow> meekServer \<Rightarrow> bool" where
  "objs_moved cap m m' \<longleftrightarrow>
     ms_cfg m' = ms_cfg m \<and> length (ms_objs m') = length (ms_objs m) \<and>
     (\<forall>i < length (ms_objs m). (session_step cap)\<^sup>*\<^sup>* (ms_objs m ! i) (ms_objs m' ! i))"

lemma objs_moved_refl [simp]: "objs_moved cap m m"
  by (simp add: objs_moved_def)

lemma objs_moved_trans: "objs_moved cap m m' \<Longrightarrow> objs_moved cap m' m'' \<Longrightarrow> objs_moved cap m m''"
  unfolding objs_moved_def by (metis rtranclp_trans)

lemma nth_list_update_if: "j < length xs \<Longrightarrow> xs[i := x] ! j = (if j = i then x else xs ! j)"
  by auto

lemma updObj_moved: "(\<And>s. s = ms_objs m ! i \<Longrightarrow> session_step cap s (f s)) \<Longrightarrow> objs_moved cap m (updObj i f m)"
  by (simp add: objs_moved_def updObj_def nth_list_update_if r_into_rtranclp)

lemma closing_moved: "objs_moved cap m (fold (\<lambda>i. updObj i ss_close) is m)"
proof (induction "is" arbitrary: m)
  case (Cons i "is")
  have "objs_moved cap m (updObj i ss_close m)" by (rule updObj_moved) (rule session_step.closing)
  then show ?case using Cons.IH [of "updObj i ss_close m"] by (auto intro: objs_moved_trans)
qed simp

lemma sessions_update_moved [simp]:
  "objs_moved cap (m\<lparr>ms_sessions := a\<rparr>) m' = objs_moved cap m m'" "objs_moved cap m (m'\<lparr>ms_sessions := a\<rparr>) = objs_moved cap m m'"
  "objs_moved cap m (m'\<lparr>ms_sessions := a, ms_nil := b\<rparr>) = objs_moved cap m m'"
  by (simp_all add: objs_moved_def)

lemma dropSession_moved: "objs_moved cap m (dropSession sid m)"
  using updObj_moved [of "m\<lparr>ms_sessions := gdel sid (ms_sessions m)\<rparr>" _ cap ss_close]
  by (auto simp: dropSession_def intro: session_step.closing split: option.split)

lemma reapOnce_moved: "objs_moved cap m (reapOnce now m)"
  unfolding reapOnce_def Let_def using closing_moved [of cap] by (metis sessions_update_moved(1))

lemma server_Close_moved: "objs_moved cap m (server_Close m)"
  unfolding server_Close_def using closing_moved by simp

lemma lookupSession_moved: "lookupSession now sid m = (r, m') \<Longrightarrow> objs_moved cap m m'"
  by (auto simp: lookupSession_def intro: updObj_moved session_step.touched split: option.splits)

lemma insertSession_cases:
  assumes "insertSession now True sid m = (Inr i, m')"
  shows "objs_moved cap m m' \<or>
    (ms_objs m' = ms_objs m @ [newSession now sid] \<and> ms_cfg m' = ms_cfg m)"
  using assms
  by (auto simp: insertSession_def intro: updObj_moved session_step.touched split: option.splits if_splits)

section \<open>The invariant\<close>

definition is_poll :: "meekConfig \<Rightarrow> httpRequest \<Rightarrow> u64 \<Rightarrow> bytes \<Rightarrow> bool" where
  "is_poll cfg r seq body \<longleftrightarrow> (\<exists>order c. cn_cfg c = cfg \<and> r = pollRequest order c seq body)"

text \<open>Every copy of a poll on its way or in a handler is a poll of the client, and a copy of the current one carries the
  current number and the chunk in flight.\<close>

definition copy_ok :: "nat \<Rightarrow> u64 \<times> bytes \<times> bool \<times> meekConfig \<Rightarrow> nat \<Rightarrow> httpRequest \<Rightarrow> bool" where
  "copy_ok polls = (\<lambda>(seq, inflight, taken, cfg) k r.
     k \<le> polls \<and> (\<exists>q b. is_poll cfg r q b \<and> (k = polls \<longrightarrow> taken \<and> q = seq \<and> b = inflight)))"

definition copies :: "tunnel \<Rightarrow> (nat \<times> httpRequest) set" where
  "copies t = set (tn_requests t) \<union> (\<lambda>(k, r, i). (k, r)) ` set (tn_handlers t)"

definition tunnel_wf :: "tunnel \<Rightarrow> bool" where
  "tunnel_wf t \<longleftrightarrow>
     conn_inv (tn_conn t) \<and> mc_MaxBodyBytes (cn_cfg (tn_conn t)) < 2 ^ 63 \<and>
     (\<forall>(k, r) \<in> copies t. copy_ok (tn_polls t) (pollView (tn_conn t)) k r) \<and>
     (\<forall>(k, r, i) \<in> set (tn_handlers t). i < length (ms_objs (tn_server t))) \<and>
     (\<forall>i \<in> snd ` set (ms_sessions (tn_server t)). i < length (ms_objs (tn_server t))) \<and>
     (\<forall>(k, a) \<in> set (tn_answers t). k \<le> tn_polls t)"

text \<open>Whether the server has applied the current poll; and where every byte is: what the application wrote has been
  received upstream, is in flight, or waits in the backlog; what upstream sent was read, waits in the read buffer, is the
  answer under way, or is still on the server.\<close>

definition applied :: "conn \<Rightarrow> session \<Rightarrow> bool" where
  "applied c s \<longleftrightarrow> ss_haveSeq s \<and> ss_lastSeq s = cn_seq c"

definition streams :: "conn \<Rightarrow> session \<Rightarrow> bytes \<Rightarrow> bytes \<Rightarrow> nat \<Rightarrow> (nat \<times> response) list \<Rightarrow> bool" where
  "streams c s written rd polls answers \<longleftrightarrow>
     (applied c s \<longrightarrow> cn_inflightTaken c) \<and>
     written = up_received (ss_upstream s) @ (if applied c s then [] else cn_inflight c) @ cn_writeBuf c \<and>
     ahead (rd @ cn_readBuf c @ (if applied c s then ss_lastResp s else [])) s \<and>
     (\<forall>body. (polls, Ok body) \<in> set answers \<longrightarrow> applied c s \<and> body = ss_lastResp s)"

abbreviation tunnel_streams :: "tunnel \<Rightarrow> bool" where
  "tunnel_streams t \<equiv> streams (tn_conn t) (tn_session t) (tn_written t) (tn_read t) (tn_polls t) (tn_answers t)"

definition tunnel_inv :: "tunnel \<Rightarrow> bool" where
  "tunnel_inv t \<longleftrightarrow> tunnel_wf t \<and> (clean t \<longrightarrow> tunnel_streams t)"

lemma tn_session_upd [simp]:
  "tn_session (t\<lparr>tn_conn := c\<rparr>) = tn_session t" "tn_session (t\<lparr>tn_written := w\<rparr>) = tn_session t"
  "tn_session (t\<lparr>tn_read := w\<rparr>) = tn_session t" "tn_session (t\<lparr>tn_requests := rs\<rparr>) = tn_session t"
  "tn_session (t\<lparr>tn_polls := n\<rparr>) = tn_session t" "tn_session (t\<lparr>tn_handlers := hs\<rparr>) = tn_session t"
  "tn_session (t\<lparr>tn_answers := as\<rparr>) = tn_session t"
  by (simp_all add: tn_session_def)

lemma streams_undisturbed:
  "undisturbed s s' \<Longrightarrow> streams c s written rd polls answers \<Longrightarrow> streams c s' written rd polls answers"
  by (auto simp: streams_def undisturbed_def applied_def)

lemma moved_session:
  assumes "objs_moved cap (tn_server t) m"
  shows "undisturbed (tn_session t) (tn_session (t\<lparr>tn_server := m\<rparr>))"
proof (cases "ms_objs (tn_server t)")
  case Nil
  then show ?thesis using assms by (simp add: tn_session_def objs_moved_def)
next
  case (Cons s ss)
  moreover obtain s' ss' where "ms_objs m = s' # ss'" using Cons assms by (cases "ms_objs m") (auto simp: objs_moved_def)
  moreover from this have "(session_step cap)\<^sup>*\<^sup>* s s'" using assms Cons by (force simp: objs_moved_def)
  ultimately show ?thesis by (simp add: tn_session_def session_steps_undisturbed)
qed

lemma inv_moved:
  assumes "tunnel_inv t" and "objs_moved cap (tn_server t) m"
    and "\<forall>i \<in> snd ` set (ms_sessions m). i < length (ms_objs m)"
  shows "tunnel_inv (t\<lparr>tn_server := m\<rparr>)"
proof -
  have "tunnel_wf (t\<lparr>tn_server := m\<rparr>)"
    using assms by (auto simp: tunnel_inv_def tunnel_wf_def objs_moved_def copies_def)
  moreover have "clean (t\<lparr>tn_server := m\<rparr>) = clean t" using assms(2) by (simp add: clean_def objs_moved_def)
  ultimately show ?thesis
    using assms(1) streams_undisturbed [OF moved_session [OF assms(2)]] by (auto simp: tunnel_inv_def)
qed

text \<open>The map keeps pointing into the store.\<close>

lemma updObj_fields [simp]:
  "ms_sessions (updObj i f m) = ms_sessions m" "length (ms_objs (updObj i f m)) = length (ms_objs m)"
  "ms_cfg (updObj i f m) = ms_cfg m"
  by (simp_all add: updObj_def)

lemma fold_updObj_fields [simp]:
  "ms_sessions (fold (\<lambda>i. updObj i f) is m) = ms_sessions m"
  "length (ms_objs (fold (\<lambda>i. updObj i f) is m)) = length (ms_objs m)"
  by (induction "is" arbitrary: m) simp_all

lemma map_points:
  assumes "\<forall>i \<in> snd ` set (ms_sessions m). i < length (ms_objs m)"
  shows "\<forall>i \<in> snd ` set (ms_sessions (dropSession sid m)). i < length (ms_objs (dropSession sid m))"
    and "\<forall>i \<in> snd ` set (ms_sessions (reapOnce now m)). i < length (ms_objs (reapOnce now m))"
    and "\<forall>i \<in> snd ` set (ms_sessions (server_Close m)). i < length (ms_objs (server_Close m))"
  using assms by (auto simp: AList.delete_eq dropSession_def reapOnce_def server_Close_def Let_def split: option.split)

lemma set_gput_subset: "set (gput k v m) \<subseteq> insert (k, v) (set m)"
  by (induction m) auto

subsection \<open>The client's steps\<close>

lemma control_keeps:
  "conn_control c c' \<Longrightarrow> pollView c' = pollView c \<and> cn_readBuf c' = cn_readBuf c \<and> cn_writeBuf c' = cn_writeBuf c \<and>
    (conn_inv c \<longrightarrow> conn_inv c')"
  by (induction rule: conn_control.induct)
    (auto simp: pollView_def conn_inv_def conn_Close_def markClosed_def SetReadDeadline_def SetWriteDeadline_def)

lemma tunnel_wfI:
  assumes "conn_inv (tn_conn t)" and "mc_MaxBodyBytes (cn_cfg (tn_conn t)) < 2 ^ 63"
    and "\<And>k r. (k, r) \<in> copies t \<Longrightarrow> copy_ok (tn_polls t) (pollView (tn_conn t)) k r"
    and "\<And>k r i. (k, r, i) \<in> set (tn_handlers t) \<Longrightarrow> i < length (ms_objs (tn_server t))"
    and "\<And>sid i. (sid, i) \<in> set (ms_sessions (tn_server t)) \<Longrightarrow> i < length (ms_objs (tn_server t))"
    and "\<And>k a. (k, a) \<in> set (tn_answers t) \<Longrightarrow> k \<le> tn_polls t"
  shows "tunnel_wf t"
  using assms unfolding tunnel_wf_def by fastforce

lemma tunnel_wfD:
  assumes "tunnel_wf t"
  shows "conn_inv (tn_conn t)" and "mc_MaxBodyBytes (cn_cfg (tn_conn t)) < 2 ^ 63"
    and "(k, r) \<in> copies t \<Longrightarrow> copy_ok (tn_polls t) (pollView (tn_conn t)) k r"
    and "(k, r, i) \<in> set (tn_handlers t) \<Longrightarrow> i < length (ms_objs (tn_server t))"
    and "(sid, i) \<in> set (ms_sessions (tn_server t)) \<Longrightarrow> i < length (ms_objs (tn_server t))"
    and "(k, a) \<in> set (tn_answers t) \<Longrightarrow> k \<le> tn_polls t"
  using assms unfolding tunnel_wf_def by fastforce+

text \<open>A step of the client that keeps its poll keeps the copies of it.\<close>

lemma wf_conn:
  assumes "tunnel_wf t" and "conn_inv (tn_conn u)" and "pollView (tn_conn u) = pollView (tn_conn t)"
    and "tn_polls u = tn_polls t" "tn_requests u = tn_requests t" "tn_handlers u = tn_handlers t"
      "tn_server u = tn_server t" "tn_answers u = tn_answers t"
  shows "tunnel_wf u"
proof (rule tunnel_wfI)
  show "mc_MaxBodyBytes (cn_cfg (tn_conn u)) < 2 ^ 63"
    using tunnel_wfD(2) [OF assms(1)] assms(3) by (simp add: pollView_def)
qed (use assms tunnel_wfD [OF assms(1)] in \<open>simp_all add: copies_def\<close>)

lemma inv_writing:
  assumes "tunnel_inv t" and "write_pass now p (tn_conn t) = (Some (Inr n), c)"
  shows "tunnel_inv (t\<lparr>tn_conn := c, tn_written := tn_written t @ take n p\<rparr>)"
proof -
  have c: "c = (tn_conn t)\<lparr>cn_writeBuf := cn_writeBuf (tn_conn t) @ take n p, cn_writeReady := True\<rparr>"
    using assms(2) by (auto simp: write_pass_def Let_def split: if_splits)
  have "conn_inv c" using write_pass_inv [of "tn_conn t" now p] assms by (simp add: tunnel_inv_def tunnel_wf_def)
  moreover have "pollView c = pollView (tn_conn t)" by (simp add: c pollView_def)
  ultimately have "tunnel_wf (t\<lparr>tn_conn := c, tn_written := tn_written t @ take n p\<rparr>)"
    using assms(1) wf_conn [of t "t\<lparr>tn_conn := c, tn_written := tn_written t @ take n p\<rparr>"] by (simp add: tunnel_inv_def)
  then show ?thesis
    using assms(1) by (auto simp: tunnel_inv_def clean_def streams_def applied_def c)
qed

lemma inv_reading:
  assumes "tunnel_inv t" and "meek_Read now n (tn_conn t) = (Some (Inr bs), c)"
  shows "tunnel_inv (t\<lparr>tn_conn := c, tn_read := tn_read t @ bs\<rparr>)"
proof -
  have c: "c = (tn_conn t)\<lparr>cn_readBuf := drop n (cn_readBuf (tn_conn t))\<rparr>" "bs = take n (cn_readBuf (tn_conn t))"
    using assms(2) by (auto simp: meek_Read_def split: if_splits)
  have "conn_inv c" using assms(1) by (simp add: tunnel_inv_def tunnel_wf_def conn_inv_def c)
  moreover have "pollView c = pollView (tn_conn t)" by (simp add: c pollView_def)
  ultimately have "tunnel_wf (t\<lparr>tn_conn := c, tn_read := tn_read t @ bs\<rparr>)"
    using assms(1) wf_conn [of t "t\<lparr>tn_conn := c, tn_read := tn_read t @ bs\<rparr>"] by (simp add: tunnel_inv_def)
  moreover have cat: "bs @ drop n (cn_readBuf (tn_conn t)) @ x = cn_readBuf (tn_conn t) @ x" for x
    by (simp add: c(2) append_assoc [symmetric] del: append_assoc)
  ultimately show ?thesis
    using assms(1) by (simp add: tunnel_inv_def clean_def streams_def applied_def c(1) cat)
qed

lemma inv_control:
  assumes "tunnel_inv t" and "conn_control (tn_conn t) c"
  shows "tunnel_inv (t\<lparr>tn_conn := c\<rparr>)"
proof -
  note k = control_keeps [OF assms(2)]
  then have "tunnel_wf (t\<lparr>tn_conn := c\<rparr>)"
    using assms(1) tunnel_wfD(1) [of t] wf_conn [of t "t\<lparr>tn_conn := c\<rparr>"] by (simp add: tunnel_inv_def)
  moreover have "cn_seq c = cn_seq (tn_conn t)" "cn_inflight c = cn_inflight (tn_conn t)"
    "cn_inflightTaken c = cn_inflightTaken (tn_conn t)" using k by (simp_all add: pollView_def)
  ultimately show ?thesis
    using assms(1) k by (simp add: tunnel_inv_def clean_def streams_def applied_def)
qed

lemma inv_send:
  assumes "tunnel_inv t" and "roundtrip_begin (tn_conn t) = ((seq, body), c)"
  shows "tunnel_inv (t\<lparr>tn_conn := c, tn_requests := (tn_polls t, pollRequest order c seq body) # tn_requests t\<rparr>)"
proof -
  let ?t = "t\<lparr>tn_conn := c, tn_requests := (tn_polls t, pollRequest order c seq body) # tn_requests t\<rparr>"
  note b = roundtrip_begin_view [OF assms(2)]
  have wf: "tunnel_wf t" using assms(1) by (simp add: tunnel_inv_def)
  have copies: "copies ?t = insert (tn_polls t, pollRequest order c seq body) (copies t)" by (auto simp: copies_def)
  have "copy_ok (tn_polls t) (pollView c) k r" if "(k, r) \<in> copies t" for k r
  proof -
    have "copy_ok (tn_polls t) (pollView (tn_conn t)) k r" using tunnel_wfD(3) [OF wf that] .
    then show ?thesis
      using b by (cases "cn_inflightTaken (tn_conn t)") (auto simp: copy_ok_def pollView_def)
  qed
  moreover have "copy_ok (tn_polls t) (pollView c) (tn_polls t) (pollRequest order c seq body)"
    using b by (auto simp: copy_ok_def is_poll_def pollView_def)
  moreover have "conn_inv c"
    using roundtrip_begin_inv [of "tn_conn t"] tunnel_wfD(1) [OF wf] assms(2) by simp
  moreover have "mc_MaxBodyBytes (cn_cfg c) < 2 ^ 63" using tunnel_wfD(2) [OF wf] b by (simp add: pollView_def)
  ultimately have "tunnel_wf ?t"
    using tunnel_wfD(4-6) [OF wf] by (intro tunnel_wfI) (auto simp: copies)
  moreover have "tunnel_streams ?t" if "tunnel_streams t"
  proof (cases "cn_inflightTaken (tn_conn t)")
    case True
    then show ?thesis using b that by simp
  next
    case False
    let ?n = "nat (mc_MaxBodyBytes (cn_cfg (tn_conn t)))"
    have c: "c = (tn_conn t)\<lparr>cn_writeBuf := drop ?n (cn_writeBuf (tn_conn t)),
                     cn_inflight := take ?n (cn_writeBuf (tn_conn t)), cn_inflightTaken := True\<rparr>"
      using assms(2) False by (auto simp: roundtrip_begin_def takeWriteChunkLocked_def Let_def)
    have "\<not> applied (tn_conn t) (tn_session t)" using that False by (auto simp: streams_def)
    moreover have "cn_inflight (tn_conn t) = []" using tunnel_wfD(1) [OF wf] False by (simp add: conn_inv_def)
    ultimately show ?thesis using that by (auto simp: streams_def c applied_def)
  qed
  ultimately show ?thesis using assms(1) by (simp add: tunnel_inv_def clean_def)
qed

lemma inv_receive:
  assumes "tunnel_inv t" and "(tn_polls t, Ok body) \<in> set (tn_answers t)"
    and "roundtrip_finish (Answer 200 body True) (tn_conn t) = (None, c)"
  shows "tunnel_inv (t\<lparr>tn_conn := c, tn_polls := tn_polls t + 1\<rparr>)"
proof -
  let ?t = "t\<lparr>tn_conn := c, tn_polls := tn_polls t + 1\<rparr>"
  have c: "c = (tn_conn t)\<lparr>cn_readBuf := cn_readBuf (tn_conn t) @ body, cn_inflight := [], cn_inflightTaken := False,
                          cn_seq := cn_seq (tn_conn t) + 1\<rparr>"
    using assms(3) by (auto simp: roundtrip_finish_def Let_def min_def split: if_splits)
  have wf: "tunnel_wf t" using assms(1) by (simp add: tunnel_inv_def)
  have "copy_ok (tn_polls t + 1) (pollView c) k r" if "(k, r) \<in> copies t" for k r
    using tunnel_wfD(3) [OF wf that] by (auto simp: copy_ok_def pollView_def c)
  moreover have "copies ?t = copies t" by (simp add: copies_def)
  moreover have "conn_inv c" using tunnel_wfD(1) [OF wf] by (simp add: conn_inv_def c)
  ultimately have "tunnel_wf ?t"
    using tunnel_wfD(2,4-6) [OF wf] by (intro tunnel_wfI) (auto simp: c intro: le_SucI)
  moreover have "tunnel_streams ?t" if s: "tunnel_streams t"
  proof -
    have a: "applied (tn_conn t) (tn_session t)" "body = ss_lastResp (tn_session t)"
      using s assms(2) by (auto simp: streams_def)
    then have "\<not> applied c (tn_session t)" by (auto simp: applied_def c)
    moreover have "(tn_polls t + 1, Ok b) \<notin> set (tn_answers t)" for b
      using tunnel_wfD(6) [OF wf] by fastforce
    ultimately show ?thesis using s a by (simp add: streams_def c)
  qed
  ultimately show ?thesis using assms(1) by (simp add: tunnel_inv_def clean_def)
qed

subsection \<open>The server's steps\<close>

lemma inv_handler:
  assumes "tunnel_inv t" and "(k, r) \<in> set (tn_requests t)" and "i < length (ms_objs (tn_server t))"
  shows "tunnel_inv (t\<lparr>tn_handlers := (k, r, i) # tn_handlers t\<rparr>)"
proof -
  let ?t = "t\<lparr>tn_handlers := (k, r, i) # tn_handlers t\<rparr>"
  have wf: "tunnel_wf t" using assms(1) by (simp add: tunnel_inv_def)
  have "copies ?t = copies t" using assms(2) by (auto simp: copies_def)
  then have "tunnel_wf ?t" using tunnel_wfD [OF wf] assms(3) by (intro tunnel_wfI) auto
  then show ?thesis using assms(1) by (simp add: tunnel_inv_def clean_def)
qed

lemma inv_found:
  assumes "tunnel_inv t" and "(k, r) \<in> set (tn_requests t)" and "lookupSession now sid (tn_server t) = (Some i, m)"
  shows "tunnel_inv (t\<lparr>tn_server := m, tn_handlers := (k, r, i) # tn_handlers t\<rparr>)"
proof -
  have g: "gget (ms_sessions (tn_server t)) sid = Some i" and m: "m = updObj i (touch now) (tn_server t)"
    using assms(3) by (auto simp: lookupSession_def split: option.splits)
  have wf: "tunnel_wf t" using assms(1) by (simp add: tunnel_inv_def)
  have i: "i < length (ms_objs m)" using tunnel_wfD(5) [OF wf map_of_SomeD [OF g]] by (simp add: m)
  have "tunnel_inv (t\<lparr>tn_server := m\<rparr>)"
    using inv_moved [OF assms(1) lookupSession_moved [OF assms(3)]] tunnel_wfD(5) [OF wf] by (fastforce simp: m)
  from inv_handler [OF this, of k r i] show ?thesis using assms(2) i by simp
qed

lemma inv_newSession:
  assumes "tunnel_inv t" and "ms_objs m = ms_objs (tn_server t) @ [newSession now sid]"
    and "\<forall>i \<in> snd ` set (ms_sessions m). i < length (ms_objs m)"
  shows "tunnel_inv (t\<lparr>tn_server := m\<rparr>)"
proof -
  let ?t = "t\<lparr>tn_server := m\<rparr>"
  have wf: "tunnel_wf t" using assms(1) by (simp add: tunnel_inv_def)
  have "copies ?t = copies t" by (simp add: copies_def)
  then have "tunnel_wf ?t"
    using tunnel_wfD [OF wf] assms(2,3) by (intro tunnel_wfI) (auto intro: less_SucI)
  moreover have "tunnel_streams ?t" if "clean ?t"
  proof -
    have "ms_objs (tn_server t) = []" using that assms(2) by (simp add: clean_def)
    then have "clean t" "undisturbed (tn_session t) (tn_session ?t)"
      using that assms(2) by (auto simp: clean_def tn_session_def undisturbed_def newSession_def ahead_def pump_data_def)
    then show ?thesis using assms(1) streams_undisturbed by (simp add: tunnel_inv_def)
  qed
  ultimately show ?thesis by (simp add: tunnel_inv_def)
qed

lemma inv_dialed:
  assumes "tunnel_inv t" and "(k, r) \<in> set (tn_requests t)" and "insertSession now True sid (tn_server t) = (Inr i, m)"
  shows "tunnel_inv (t\<lparr>tn_server := m, tn_handlers := (k, r, i) # tn_handlers t\<rparr>)"
proof -
  have wf: "tunnel_wf t" using assms(1) by (simp add: tunnel_inv_def)
  show ?thesis
  proof (cases "gget (ms_sessions (tn_server t)) sid")
    case (Some j)
    then have "lookupSession now sid (tn_server t) = (Some i, m)"
      using assms(3) by (auto simp: lookupSession_def insertSession_def)
    then show ?thesis using inv_found [OF assms(1,2)] by simp
  next
    case None
    then have m: "m = (tn_server t)\<lparr>ms_objs := ms_objs (tn_server t) @ [newSession now sid],
        ms_sessions := gput sid i (ms_sessions (tn_server t))\<rparr>" and i: "i = length (ms_objs (tn_server t))"
      using assms(3) by (auto simp: insertSession_def split: if_splits)
    have "snd ` set (gput sid i (ms_sessions (tn_server t))) \<subseteq> insert i (snd ` set (ms_sessions (tn_server t)))"
      using set_gput_subset [of sid i "ms_sessions (tn_server t)"] by auto
    then have "\<forall>j \<in> snd ` set (ms_sessions m). j < length (ms_objs m)"
      using tunnel_wfD(5) [OF wf] i by (fastforce simp: m)
    then have "tunnel_inv (t\<lparr>tn_server := m\<rparr>)" by (intro inv_newSession [OF assms(1)]) (simp_all add: m)
    from inv_handler [OF this, of k r i] show ?thesis using assms(2) i by (simp add: m)
  qed
qed

text \<open>A served poll: a replay changes nothing, and otherwise the run stays clean only when the poll is the current
  one, not yet applied, and is answered.\<close>

lemma inv_serve:
  assumes "tunnel_inv t" and h: "(k, r, i) \<in> set (tn_handlers t)" and "others (pumpCap (tn_server t)) e"
    and "servePart e r (ms_cfg (tn_server t)) (ms_objs (tn_server t) ! i) = (x, s)"
  shows "tunnel_inv (t\<lparr>tn_server := updObj i (\<lambda>_. s) (tn_server t), tn_answers := (k, answerOf x) # tn_answers t,
         tn_failed := tn_failed t \<or> isl x,
         tn_stale := tn_stale t \<or> k < tn_polls t \<and> \<not> repeats r (ms_objs (tn_server t) ! i)\<rparr>)"
    (is "tunnel_inv ?t")
proof -
  have wf: "tunnel_wf t" using assms(1) by (simp add: tunnel_inv_def)
  have "(k, r) \<in> copies t" using h by (force simp: copies_def)
  then have "copy_ok (tn_polls t) (pollView (tn_conn t)) k r" by (rule tunnel_wfD(3) [OF wf])
  then obtain q b where k: "k \<le> tn_polls t" and r: "is_poll (cn_cfg (tn_conn t)) r q b"
    and cur: "k = tn_polls t \<longrightarrow> cn_inflightTaken (tn_conn t) \<and> q = cn_seq (tn_conn t) \<and> b = cn_inflight (tn_conn t)"
    by (auto simp: copy_ok_def pollView_def)
  have i: "i < length (ms_objs (tn_server t))" by (rule tunnel_wfD(4) [OF wf h])
  have "copies ?t = copies t" by (simp add: copies_def)
  then have "tunnel_wf ?t" using tunnel_wfD [OF wf] k by (intro tunnel_wfI) auto
  moreover have "tunnel_streams ?t" if clean': "clean ?t"
  proof -
    have clean: "clean t" "\<not> isl x" and fresh: "k < tn_polls t \<longrightarrow> repeats r (ms_objs (tn_server t) ! i)"
      using clean' by (auto simp: clean_def)
    then have st: "tunnel_streams t" using assms(1) by (simp add: tunnel_inv_def)
    have "length (ms_objs (tn_server t)) = 1" using clean(1) i by (simp add: clean_def)
    then obtain s0 where s0: "ms_objs (tn_server t) = [s0]" by (auto simp: length_Suc_conv)
    then have i0: "i = 0" using i by simp
    have sess: "tn_session t = s0" "tn_session ?t = s" by (simp_all add: tn_session_def s0 i0 updObj_def)
    obtain resp where x: "x = Inr resp" using clean(2) by (cases x) auto
    obtain ord c0 where poll: "r = pollRequest ord c0 q b" "cn_cfg c0 = cn_cfg (tn_conn t)" using r by (auto simp: is_poll_def)
    have serve: "serveRequest e True q b (min (mc_MaxBodyBytes (cn_cfg c0)) (sc_MaxBodyBytes (ms_cfg (tn_server t)))) s0 = (Inr resp, s)"
      using assms(4) tunnel_wfD(1,2) [OF wf] servePart_poll [of c0] by (simp add: poll conn_inv_def s0 i0 x)
    have rep: "repeats r s0 \<longleftrightarrow> replayed True q s0" by (auto simp: repeats_def poll)
    show ?thesis
    proof (cases "replayed True q s0")
      case True
      then have "resp = ss_lastResp s0" "s = s0" using serveRequest_cases [OF serve] by simp_all
      moreover have "k = tn_polls t \<Longrightarrow> applied (tn_conn t) s0" using True cur by (simp add: applied_def)
      ultimately show ?thesis using st sess by (auto simp: streams_def x answerOf_def)
    next
      case False
      then have "k = tn_polls t" using fresh k rep by (auto simp: s0 i0)
      with cur False have taken: "cn_inflightTaken (tn_conn t)" "q = cn_seq (tn_conn t)" "b = cn_inflight (tn_conn t)"
        and new: "\<not> applied (tn_conn t) s0" by (auto simp: applied_def)
      obtain u where u: "servePoll e b (min (mc_MaxBodyBytes (cn_cfg c0)) (sc_MaxBodyBytes (ms_cfg (tn_server t)))) s0 = (Inr resp, u)"
        and s: "s = u\<lparr>ss_haveSeq := True, ss_lastSeq := q, ss_lastResp := resp\<rparr>"
        using serveRequest_cases [OF serve] False by auto
      note eff = servePoll_effect(3,4) [OF u assms(3)]
      have now: "applied (tn_conn t) s" by (simp add: applied_def s taken)
      have "ahead ((tn_read t @ cn_readBuf (tn_conn t)) @ resp) u"
        using eff(2) [of "tn_read t @ cn_readBuf (tn_conn t)"] st new sess by (simp add: streams_def)
      moreover have "(tn_polls t, Ok y) \<notin> set (tn_answers t)" for y using st new sess by (auto simp: streams_def)
      ultimately show ?thesis
        using st new now sess eff(1) taken by (auto simp: streams_def x answerOf_def s)
    qed
  qed
  ultimately show ?thesis by (simp add: tunnel_inv_def)
qed

lemma inv_answer:
  assumes "tunnel_inv t" and "(k, r) \<in> set (tn_requests t)"
  shows "tunnel_inv (t\<lparr>tn_answers := (k, Status status) # tn_answers t\<rparr>)"
proof -
  let ?t = "t\<lparr>tn_answers := (k, Status status) # tn_answers t\<rparr>"
  have wf: "tunnel_wf t" using assms(1) by (simp add: tunnel_inv_def)
  have "(k, r) \<in> copies t" using assms(2) by (simp add: copies_def)
  then have "k \<le> tn_polls t" using tunnel_wfD(3) [OF wf] by (force simp: copy_ok_def pollView_def)
  moreover have "copies ?t = copies t" by (simp add: copies_def)
  ultimately have "tunnel_wf ?t" using tunnel_wfD [OF wf] by (intro tunnel_wfI) auto
  then show ?thesis using assms(1) by (auto simp: tunnel_inv_def clean_def streams_def)
qed

lemma inv_background:
  assumes "tunnel_inv t" and "session_step (pumpCap (tn_server t)) (ms_objs (tn_server t) ! i) s"
  shows "tunnel_inv (t\<lparr>tn_server := updObj i (\<lambda>_. s) (tn_server t)\<rparr>)"
proof (rule inv_moved [OF assms(1)])
  show "objs_moved (pumpCap (tn_server t)) (tn_server t) (updObj i (\<lambda>_. s) (tn_server t))"
    by (rule updObj_moved) (use assms(2) in simp)
  show "\<forall>j \<in> snd ` set (ms_sessions (updObj i (\<lambda>_. s) (tn_server t))). j < length (ms_objs (updObj i (\<lambda>_. s) (tn_server t)))"
    using assms(1) by (simp add: tunnel_inv_def tunnel_wf_def)
qed

lemma tunnel_step_inv: "tunnel_step t u \<Longrightarrow> tunnel_inv t \<Longrightarrow> tunnel_inv u"
proof (induction rule: tunnel_step.induct)
  case (dropped t sid)
  then show ?case by (intro inv_moved [OF _ dropSession_moved] map_points) (simp_all add: tunnel_inv_def tunnel_wf_def)
next
  case (reaped t now)
  then show ?case by (intro inv_moved [OF _ reapOnce_moved] map_points) (simp_all add: tunnel_inv_def tunnel_wf_def)
next
  case (stopped t)
  then show ?case by (intro inv_moved [OF _ server_Close_moved] map_points) (simp_all add: tunnel_inv_def tunnel_wf_def)
qed (blast intro: inv_writing inv_reading inv_control inv_send inv_answer inv_found inv_dialed inv_serve inv_receive inv_background)+

lemma dialed_empty:
  "conn_dialed c \<Longrightarrow> cn_inflight c = [] \<and> cn_writeBuf c = [] \<and> cn_readBuf c = [] \<and> \<not> cn_inflightTaken c"
  by (auto simp: conn_dialed_def meek_Dial_def Let_def split: if_splits option.splits)

lemma NewServer_empty: "NewServer cfg = Some m \<Longrightarrow> ms_objs m = [] \<and> ms_sessions m = []"
  by (auto simp: NewServer_def split: if_splits)

lemma tunnel_new_inv: "tunnel_new t \<Longrightarrow> tunnel_inv t"
proof -
  assume t: "tunnel_new t"
  have c: "conn_dialed (tn_conn t)" "mc_MaxBodyBytes (cn_cfg (tn_conn t)) < 2 ^ 63" using t by (auto simp: tunnel_new_def)
  have m: "ms_objs (tn_server t) = []" "ms_sessions (tn_server t) = []"
    using t NewServer_empty by (auto simp: tunnel_new_def)
  have f: "tn_requests t = []" "tn_handlers t = []" "tn_answers t = []" "tn_written t = []" "tn_read t = []"
    using t unfolding tunnel_new_def by (metis tunnel.select_convs)+
  have "tunnel_wf t"
    by (rule tunnel_wfI) (use c dialed_inv [OF c(1)] in \<open>auto simp: f m copies_def\<close>)
  then show ?thesis
    using dialed_empty [OF c(1)]
    by (simp add: tunnel_inv_def streams_def applied_def tn_session_def m f newSession_def ahead_def pump_data_def)
qed

interpretation meek_tunnel: invariant_system tunnel_new tunnel_step tunnel_inv
  by standard (auto intro: tunnel_new_inv tunnel_step_inv)

section \<open>The tunnel keeps its bytes\<close>

text \<open>C1: the tunnel neither loses, repeats nor reorders bytes. However polls and answers are lost, delayed
  and retried and whatever the pump, the reaper and the application do meanwhile: as long as the client's polls are
  served on one session, none of them fails there, and no poll is applied after the client has finished
  it, what the application wrote is what the upstream received followed by what is still in flight or in the
  backlog; and what the application has read and can read is the beginning of what the upstream sent.\<close>

theorem tunnel_keeps_bytes:
  assumes "reaches tunnel_new tunnel_step t" and "clean t"
  shows "let c = tn_conn t; s = tn_session t in
    tn_written t = up_received (ss_upstream s) @ (if applied c s then [] else cn_inflight c) @ cn_writeBuf c \<and>
    prefix (tn_read t @ cn_readBuf c) (up_sent (ss_upstream s)) \<and>
    (\<not> ss_closed s \<longrightarrow>
       up_sent (ss_upstream s) =
         tn_read t @ cn_readBuf c @ (if applied c s then ss_lastResp s else []) @ ss_pending s @ pump_data s)"
proof -
  have "tunnel_streams t" using meek_tunnel.reaches_inv [OF assms(1)] assms(2) by (simp add: tunnel_inv_def)
  then show ?thesis by (auto simp: streams_def ahead_def prefix_def Let_def)
qed

section \<open>Runs\<close>

text \<open>The application writes three bytes; a poll carries the first two. The client's states: after the write, with the
  first chunk in flight, after the answer, with the second chunk in flight; the session new, after the
  first poll, after the second.\<close>

definition run_c1 :: conn where "run_c1 = snd (write_pass 0 [1, 2, 3] exampleConn)"
definition run_c2 :: conn where "run_c2 = snd (roundtrip_begin run_c1)"
definition run_c3 :: conn where "run_c3 = snd (roundtrip_finish (Answer 200 [] True) run_c2)"
definition run_c4 :: conn where "run_c4 = snd (roundtrip_begin run_c3)"
definition run_s1 :: session where "run_s1 = snd (serveRequest exampleServe True 0 [1, 2] 2 (newSession 1 ''s''))"
definition run_s2 :: session where "run_s2 = snd (serveRequest exampleServe True 1 [3] 2 run_s1)"

definition run_s3 :: session where "run_s3 = snd (serveRequest exampleServe True 0 [1, 2] 2 run_s2)"

lemma run_client:
  "write_pass 0 [1, 2, 3] exampleConn = (Some (Inr 3), run_c1)" "roundtrip_begin run_c1 = ((0, [1, 2]), run_c2)"
  "roundtrip_begin run_c2 = ((0, [1, 2]), run_c2)" "roundtrip_finish (Answer 200 [] True) run_c2 = (None, run_c3)"
  "roundtrip_begin run_c3 = ((1, [3]), run_c4)" "cn_sessionID run_c2 = ''s''" "cn_sessionID run_c4 = ''s''"
  "mc_MaxBodyBytes (cn_cfg run_c2) = 2" "mc_MaxBodyBytes (cn_cfg run_c4) = 2" "mc_MaxBodyBytes (cn_cfg exampleConn) = 2"
  "cn_inflight run_c2 = [1, 2]" "cn_writeBuf run_c2 = [3]" "cn_seq run_c2 = 0"
  by code_simp+

lemma run_session:
  "serveRequest exampleServe True 0 [1, 2] 2 (newSession 1 ''s'') = (Inr [], run_s1)"
  "serveRequest exampleServe True 1 [3] 2 run_s1 = (Inr [], run_s2)" "touch 1 (newSession 1 ''s'') = newSession 1 ''s''"
  "touch 1 run_s1 = run_s1" "ss_haveSeq run_s1" "ss_lastSeq run_s1 = 0" "ss_haveSeq run_s2" "ss_lastSeq run_s2 = 1"
  "up_received (ss_upstream run_s1) = [1, 2]" "up_received (ss_upstream run_s2) = [1, 2, 3]"
  "\<not> ss_haveSeq (newSession 1 ''s'')"
  by code_simp+

lemma run_poll: "hr_method (pollRequest order c seq body) = ''POST''"
  by (simp add: pollRequest_def)

definition run_m :: "session list \<Rightarrow> meekServer" where
  "run_m objs = \<lparr>ms_cfg = exampleServer, ms_objs = objs, ms_sessions = (if objs = [] then [] else [(''s'', 0)]), ms_nil = False\<rparr>"

abbreviation "run_p0 \<equiv> pollRequest id run_c2 0 [1, 2]"
abbreviation "run_p1 \<equiv> pollRequest id run_c4 1 [3]"

definition run_t ::
  "conn \<Rightarrow> session list \<Rightarrow> nat \<Rightarrow> (nat \<times> httpRequest) list \<Rightarrow> (nat \<times> httpRequest \<times> nat) list \<Rightarrow> (nat \<times> response) list \<Rightarrow> tunnel" where
  "run_t c objs polls rs hs as =
     \<lparr>tn_conn = c, tn_server = run_m objs, tn_polls = polls, tn_requests = rs, tn_handlers = hs, tn_answers = as,
      tn_written = [1, 2, 3], tn_read = [], tn_failed = False, tn_stale = False\<rparr>"

lemmas run_simps = run_t_def run_m_def run_client run_session run_poll refuse_def lookupSession_def insertSession_def
  updObj_def repeats_def answerOf_def

lemma run_exampleServer: "sc_AuthToken exampleServer = ''''" "sc_MaxBodyBytes exampleServer = 8" "sc_defaults exampleServer = exampleServer"
  by code_simp+

abbreviation "run_reaches \<equiv> reaches tunnel_new tunnel_step"

lemma run_step: "run_reaches t \<Longrightarrow> tunnel_step t u \<Longrightarrow> run_reaches u"
  by (rule reaches_step)

text \<open>Both attempts of the first poll are sent; a handler takes each; one is served.\<close>

lemma run_first_poll:
  "run_reaches (run_t run_c2 [run_s1] 0 [(0, run_p0), (0, run_p0)] [(0, run_p0, 0), (0, run_p0, 0)] [(0, Ok [])])"
proof -
  let ?t0 = "\<lparr>tn_conn = exampleConn, tn_server = run_m [], tn_polls = 0, tn_requests = [], tn_handlers = [], tn_answers = [],
              tn_written = [], tn_read = [], tn_failed = False, tn_stale = False\<rparr>"
  have "meek_Dial (\<lambda>_. Some ''h'') (Some ''s'') exampleMeek = Inr exampleConn" unfolding exampleConn_def by code_simp
  then have "conn_dialed exampleConn" by (auto simp: conn_dialed_def)
  moreover have "NewServer exampleServer = Some (run_m [])" by (simp add: NewServer_def run_m_def run_exampleServer) (simp add: exampleServer_def)
  ultimately have r0: "run_reaches ?t0" by (intro reaches_init) (auto simp: tunnel_new_def run_client)
  have s1: "tunnel_step ?t0 (run_t run_c1 [] 0 [] [] [])"
    using tunnel_step.writing [of 0 "[1, 2, 3]" ?t0] by (simp add: run_simps)
  have s2: "tunnel_step (run_t run_c1 [] 0 [] [] []) (run_t run_c2 [] 0 [(0, run_p0)] [] [])"
    using tunnel_step.send [of "run_t run_c1 [] 0 [] [] []" 0 "[1, 2]" run_c2 id] by (simp add: run_simps)
  have s3: "tunnel_step (run_t run_c2 [] 0 [(0, run_p0)] [] []) (run_t run_c2 [] 0 [(0, run_p0), (0, run_p0)] [] [])"
    using tunnel_step.send [of "run_t run_c2 [] 0 [(0, run_p0)] [] []" 0 "[1, 2]" run_c2 id] by (simp add: run_simps)
  have s4: "tunnel_step (run_t run_c2 [] 0 [(0, run_p0), (0, run_p0)] [] [])
      (run_t run_c2 [newSession 1 ''s''] 0 [(0, run_p0), (0, run_p0)] [(0, run_p0, 0)] [])"
    using tunnel_step.dialed [of 0 run_p0 "run_t run_c2 [] 0 [(0, run_p0), (0, run_p0)] [] []" 1]
    by (simp add: run_simps run_exampleServer)
  have s5: "tunnel_step (run_t run_c2 [newSession 1 ''s''] 0 [(0, run_p0), (0, run_p0)] [(0, run_p0, 0)] [])
      (run_t run_c2 [newSession 1 ''s''] 0 [(0, run_p0), (0, run_p0)] [(0, run_p0, 0), (0, run_p0, 0)] [])"
    using tunnel_step.found [of 0 run_p0 "run_t run_c2 [newSession 1 ''s''] 0 [(0, run_p0), (0, run_p0)] [(0, run_p0, 0)] []" 1]
    by (simp add: run_simps run_exampleServer)
  have s6: "tunnel_step (run_t run_c2 [newSession 1 ''s''] 0 [(0, run_p0), (0, run_p0)] [(0, run_p0, 0), (0, run_p0, 0)] [])
      (run_t run_c2 [run_s1] 0 [(0, run_p0), (0, run_p0)] [(0, run_p0, 0), (0, run_p0, 0)] [(0, Ok [])])"
    using tunnel_step.serve [OF _ exampleServe_others, of 0 run_p0 0
        "run_t run_c2 [newSession 1 ''s''] 0 [(0, run_p0), (0, run_p0)] [(0, run_p0, 0), (0, run_p0, 0)] []"]
    by (simp add: run_simps servePart_poll run_exampleServer)
  show ?thesis
    by (rule run_step [OF run_step [OF run_step [OF run_step [OF run_step [OF run_step [OF r0 s1] s2] s3] s4] s5] s6])
qed

theorem tunnel_keeps_bytes_witness:
  "[1, 2, 3] = up_received (ss_upstream run_s1) @ [] @ cn_writeBuf run_c2"
proof -
  let ?t = "run_t run_c2 [run_s1] 0 [(0, run_p0), (0, run_p0)] [(0, run_p0, 0), (0, run_p0, 0)] [(0, Ok [])]"
  have "clean ?t" by (simp add: clean_def run_t_def run_m_def)
  from tunnel_keeps_bytes [OF run_first_poll this] show ?thesis
    by (simp add: Let_def run_t_def run_m_def tn_session_def applied_def run_session run_client)
qed

text \<open>The hypotheses are needed. The second handler of the first poll may get its turn only after the client has
  finished that poll and the next: the session then knows a newer number, applies the old poll again,
  and the upstream receives its bytes twice.\<close>

lemma late_poll_repeats_bytes:
  "\<exists>t. run_reaches t \<and> tn_written t = [1, 2, 3] \<and> up_received (ss_upstream (tn_session t)) = [1, 2, 3, 1, 2] \<and>
       \<not> tn_failed t \<and> length (ms_objs (tn_server t)) = 1 \<and> \<not> cn_closed (tn_conn t)"
proof -
  let ?rs = "[(0, run_p0), (0, run_p0)]" and ?hs = "[(0, run_p0, 0), (0, run_p0, 0)]" and ?a0 = "(0, Ok [])" and ?a1 = "(1, Ok [])"
  have s3: "serveRequest exampleServe True 0 [1, 2] 2 run_s2 = (Inr [], run_s3)" "up_received (ss_upstream run_s3) = [1, 2, 3, 1, 2]"
    "\<not> cn_closed run_c4" by code_simp+
  let ?t1 = "run_t run_c3 [run_s1] 1 ?rs ?hs [?a0]"
  let ?t2 = "run_t run_c4 [run_s1] 1 ((1, run_p1) # ?rs) ?hs [?a0]"
  let ?t3 = "run_t run_c4 [run_s1] 1 ((1, run_p1) # ?rs) ((1, run_p1, 0) # ?hs) [?a0]"
  let ?t4 = "run_t run_c4 [run_s2] 1 ((1, run_p1) # ?rs) ((1, run_p1, 0) # ?hs) [?a1, ?a0]"
  let ?t5 = "(run_t run_c4 [run_s3] 1 ((1, run_p1) # ?rs) ((1, run_p1, 0) # ?hs) [?a0, ?a1, ?a0])\<lparr>tn_stale := True\<rparr>"
  have s1: "tunnel_step (run_t run_c2 [run_s1] 0 ?rs ?hs [?a0]) ?t1"
    using tunnel_step.receive [of "run_t run_c2 [run_s1] 0 ?rs ?hs [?a0]" "[]" run_c3] by (simp add: run_simps)
  have s2: "tunnel_step ?t1 ?t2" using tunnel_step.send [of ?t1 1 "[3]" run_c4 id] by (simp add: run_simps)
  have s3': "tunnel_step ?t2 ?t3" using tunnel_step.found [of 1 run_p1 ?t2 1] by (simp add: run_simps run_exampleServer)
  have s4: "tunnel_step ?t3 ?t4"
    using tunnel_step.serve [OF _ exampleServe_others, of 1 run_p1 0 ?t3] by (simp add: run_simps servePart_poll run_exampleServer)
  have s5: "tunnel_step ?t4 ?t5"
    using tunnel_step.serve [OF _ exampleServe_others, of 0 run_p0 0 ?t4]
    by (simp add: run_simps servePart_poll run_exampleServer s3(1))
  have "run_reaches ?t5"
    by (rule run_step [OF run_step [OF run_step [OF run_step [OF run_step [OF run_first_poll s1] s2] s3'] s4] s5])
  moreover have "up_received (ss_upstream (tn_session ?t5)) = [1, 2, 3, 1, 2]" by (simp add: run_simps tn_session_def s3(2))
  ultimately show ?thesis by (intro exI [of _ ?t5]) (simp add: run_simps s3(3))
qed

text \<open>And an answer that says the session has ended can be lost like any other. The client then repeats the
  poll, which creates a new session: its upstream connection receives bytes from the middle of the
  stream, and the client takes the answer for the continuation of the first.\<close>

definition run_ended :: session where
  "run_ended = pump_return (pump_read [] (Some ReadEOF) run_s1)"

definition run_s4 :: session where "run_s4 = snd (serveRequest exampleServe True 1 [3] 2 run_ended)"
definition run_s5 :: session where "run_s5 = snd (serveRequest exampleServe True 1 [3] 2 (newSession 1 ''s''))"

lemma run_ending:
  "ss_pump run_s1 = PumpRead" "ss_pump (pump_read [] (Some ReadEOF) run_s1) = PumpReturn"
  "serveRequest exampleServe True 1 [3] 2 run_ended = (Inl ErrUpstreamClosed, run_s4)"
  "serveRequest exampleServe True 1 [3] 2 (newSession 1 ''s'') = (Inr [], run_s5)"
  "up_received (ss_upstream run_s5) = [3]" "\<not> cn_closed (snd (roundtrip_finish (Answer 200 [] True) run_c4))"
  "fst (roundtrip_finish (Answer 200 [] True) run_c4) = None" "ss_haveSeq run_ended" "ss_lastSeq run_ended = 0"
  "touch 1 run_ended = run_ended"
  by code_simp+

definition run_failed :: tunnel where
  "run_failed =
     (run_t run_c4 [run_s4] 1 [(1, run_p1), (0, run_p0), (0, run_p0)] [(1, run_p1, 0), (0, run_p0, 0), (0, run_p0, 0)]
        [(1, Status 410), (0, Ok [])])\<lparr>tn_failed := True\<rparr>"

lemma run_failed_reaches: "run_reaches run_failed"
proof -
  let ?rs = "[(1, run_p1), (0, run_p0), (0, run_p0)]" and ?hs = "[(0, run_p0, 0), (0, run_p0, 0)]" and ?a0 = "(0, Ok [])"
  let ?t0 = "run_t run_c2 [run_s1] 0 (tl ?rs) ?hs [?a0]"
  let ?t1 = "run_t run_c3 [run_s1] 1 (tl ?rs) ?hs [?a0]"
  let ?t2 = "run_t run_c4 [run_s1] 1 ?rs ?hs [?a0]"
  let ?t3 = "run_t run_c4 [pump_read [] (Some ReadEOF) run_s1] 1 ?rs ?hs [?a0]"
  let ?t4 = "run_t run_c4 [run_ended] 1 ?rs ?hs [?a0]"
  let ?t5 = "run_t run_c4 [run_ended] 1 ?rs ((1, run_p1, 0) # ?hs) [?a0]"
  have s1: "tunnel_step ?t0 ?t1" using tunnel_step.receive [of ?t0 "[]" run_c3] by (simp add: run_simps)
  have s2: "tunnel_step ?t1 ?t2" using tunnel_step.send [of ?t1 1 "[3]" run_c4 id] by (simp add: run_simps)
  have s3: "tunnel_step ?t2 ?t3"
    using tunnel_step.background [of 0 ?t2, OF _ session_step.pumpRead] by (simp add: run_simps run_ending)
  have s4: "tunnel_step ?t3 ?t4"
    using tunnel_step.background [of 0 ?t3, OF _ session_step.pumpReturn] by (simp add: run_simps run_ending run_ended_def)
  have s5: "tunnel_step ?t4 ?t5"
    using tunnel_step.found [of 1 run_p1 ?t4 1] by (simp add: run_simps run_exampleServer run_ending)
  have s6: "tunnel_step ?t5 run_failed"
    using tunnel_step.serve [OF _ exampleServe_others, of 1 run_p1 0 ?t5]
    by (simp add: run_simps run_failed_def servePart_poll run_exampleServer run_ending)
  have "run_reaches ?t0" using run_first_poll by simp
  note r3 = run_step [OF run_step [OF run_step [OF this s1] s2] s3]
  show ?thesis by (rule run_step [OF run_step [OF run_step [OF r3 s4] s5] s6])
qed

lemma lost_end_restarts_session:
  "\<exists>t. run_reaches t \<and> length (ms_objs (tn_server t)) = 2 \<and> up_received (ss_upstream (ms_objs (tn_server t) ! 1)) = [3] \<and>
       tn_polls t = 2 \<and> \<not> cn_closed (tn_conn t)"
proof -
  let ?t7 = "run_failed\<lparr>tn_server := dropSession ''s'' (tn_server run_failed)\<rparr>"
  let ?m8 = "(run_m [ss_close run_s4, newSession 1 ''s''])\<lparr>ms_sessions := [(''s'', 1)]\<rparr>"
  let ?t8 = "run_failed\<lparr>tn_server := ?m8, tn_handlers := (1, run_p1, 1) # tn_handlers run_failed\<rparr>"
  let ?t9 = "?t8\<lparr>tn_server := ?m8\<lparr>ms_objs := [ss_close run_s4, run_s5]\<rparr>, tn_answers := (1, Ok []) # tn_answers ?t8\<rparr>"
  let ?c = "snd (roundtrip_finish (Answer 200 [] True) run_c4)"
  let ?t10 = "?t9\<lparr>tn_conn := ?c, tn_polls := Suc (Suc 0)\<rparr>"
  have fin: "roundtrip_finish (Answer 200 [] True) run_c4 = (None, ?c)" using run_ending(7) by (metis prod.collapse)
  have s7: "tunnel_step run_failed ?t7" by (rule tunnel_step.dropped)
  have s8: "tunnel_step ?t7 ?t8"
    using tunnel_step.dialed [of 1 run_p1 ?t7 1] by (simp add: run_simps run_failed_def run_exampleServer dropSession_def)
  have s9: "tunnel_step ?t8 ?t9"
    using tunnel_step.serve [OF _ exampleServe_others, of 1 run_p1 1 ?t8]
    by (simp add: run_simps run_failed_def servePart_poll run_exampleServer run_ending)
  have s10: "tunnel_step ?t9 ?t10"
    using tunnel_step.receive [of ?t9 "[]" ?c] fin by (simp add: run_simps run_failed_def)
  have "run_reaches ?t10" by (rule run_step [OF run_step [OF run_step [OF run_step [OF run_failed_reaches s7] s8] s9] s10])
  then show ?thesis by (intro exI [of _ ?t10]) (simp add: run_simps run_failed_def run_ending)
qed

end
