(* ===== verification/Meek_Adapter.thy ===== *)
theory Meek_Adapter
  imports Meek_Server
begin

text \<open>
  The sing-box adapters of the meek transport (\<open>protocol/meek/outbound.go\<close> and \<open>inbound.go\<close>): the validation of
  their options, the choice of a front and the identity its certificate is checked against, and the SOCKS5
  handshake that opens a tunneled stream. Go's URL and duration parsers, sing-box's dialer and router and
  sing's SOCKS5 encoders are arguments.
\<close>

section \<open>Options\<close>

record frontSpec =
  fs_IPAddress :: string
  fs_SNI :: string
  fs_VerifyHostname :: string

record meekOutboundOptions =
  mo_URL :: string
  mo_Fronts :: "frontSpec list"
  mo_Header :: "(string, string) gomap"
  mo_PollIntervalMs :: int
  mo_MaxBodyBytes :: int
  mo_SessionIDLen :: int
  mo_ConnectTimeout :: string
  mo_ReadTimeout :: string

text \<open>\<open>parseDurationOr\<close>, with \<open>time.ParseDuration\<close> as the argument.\<close>

definition parseDurationOr :: "(string \<Rightarrow> duration option) \<Rightarrow> string \<Rightarrow> duration \<Rightarrow> duration option" where
  "parseDurationOr parse s def = (if s = '''' then Some def else parse s)"

datatype adapterError =
    ErrURLRequired | ErrFrontsRequired | ErrURLInvalid | ErrNotHTTPS string | ErrFrontUnverified nat
  | ErrDialer | ErrConnectTimeout | ErrReadTimeout
  | ErrAuthTokenRequired | ErrResponseHoldoff | ErrSessionIdleTimeout | ErrWriteTimeout | ErrIdleTimeout | ErrListen
  | ErrNetwork string | ErrDialMeek meekError | ErrHandshake | ErrFrontIdentity | ErrTCPDial | ErrTLS

record meekOutbound =
  ob_cfg :: meekConfig
  ob_fronts :: "frontSpec list"
  ob_connectTimeout :: duration

text \<open>What the constructor calls: \<open>url.Parse\<close> with the scheme and host, \<open>time.ParseDuration\<close>, and whether
  sing-box's dialer could be built.\<close>

record outboundEnv =
  oe_parseURL :: "string \<Rightarrow> (string \<times> string) option"
  oe_parseDuration :: "string \<Rightarrow> duration option"
  oe_dialerOk :: bool

definition unverified :: "frontSpec \<Rightarrow> bool" where
  "unverified f \<longleftrightarrow> fs_VerifyHostname f = '''' \<and> fs_SNI f = ''''"

definition NewOutbound :: "outboundEnv \<Rightarrow> meekOutboundOptions \<Rightarrow> adapterError + meekOutbound" where
  "NewOutbound e opts =
     (if mo_URL opts = '''' then Inl ErrURLRequired
      else if mo_Fronts opts = [] then Inl ErrFrontsRequired
      else case oe_parseURL e (mo_URL opts) of
        None \<Rightarrow> Inl ErrURLInvalid
      | Some (scheme, host) \<Rightarrow>
          if scheme \<noteq> ''https'' then Inl (ErrNotHTTPS scheme)
          else case index_func unverified (mo_Fronts opts) of
            Some i \<Rightarrow> Inl (ErrFrontUnverified i)
          | None \<Rightarrow>
              if \<not> oe_dialerOk e then Inl ErrDialer
              else case parseDurationOr (oe_parseDuration e) (mo_ConnectTimeout opts) (15 * second) of
                None \<Rightarrow> Inl ErrConnectTimeout
              | Some connectTimeout \<Rightarrow>
                  (case parseDurationOr (oe_parseDuration e) (mo_ReadTimeout opts) defaultReadTimeout of
                     None \<Rightarrow> Inl ErrReadTimeout
                   | Some readTimeout \<Rightarrow>
                       let pollInterval = (if mo_PollIntervalMs opts \<le> 0 then defaultPollIntervalMs * millisecond
                                           else mo_PollIntervalMs opts * millisecond) in
                       Inr \<lparr>ob_cfg = \<lparr>mc_URL = mo_URL opts, mc_InnerHost = host, mc_ExtraHeaders = mo_Header opts,
                                        mc_HTTPClient = True, mc_PollInterval = pollInterval,
                                        mc_MaxBodyBytes = mo_MaxBodyBytes opts, mc_SessionIDLen = mo_SessionIDLen opts,
                                        mc_ReadTimeout = readTimeout, mc_MaxWriteBufBytes = 0, mc_MaxPollRetries = 0\<rparr>,
                             ob_fronts = mo_Fronts opts, ob_connectTimeout = connectTimeout\<rparr>))"

section \<open>Fronts\<close>

text \<open>\<open>n\<close> is the random number below the number of fronts.\<close>

definition pickFront :: "nat \<Rightarrow> frontSpec list \<Rightarrow> frontSpec" where
  "pickFront n fronts = (if length fronts = 1 then fronts ! 0 else fronts ! n)"

text \<open>What a dial of the HTTP client does before the handshake: the address, with the default port unless it has
  one (\<open>hasPort\<close> is \<open>net.SplitHostPort\<close>'s verdict, \<open>join\<close> is \<open>net.JoinHostPort\<close>), the server name sent, and
  the identity the certificate is checked against.\<close>

record frontDial =
  fd_addr :: string
  fd_serverName :: string
  fd_verifyHost :: string

definition dialFront ::
  "(string \<Rightarrow> bool) \<Rightarrow> (string \<Rightarrow> string \<Rightarrow> string) \<Rightarrow> bool \<Rightarrow> (frontDial \<Rightarrow> bool) \<Rightarrow> frontSpec \<Rightarrow> adapterError + frontDial" where
  "dialFront hasPort join dialOk handshakeOk front =
     (let addr = (if hasPort (fs_IPAddress front) then fs_IPAddress front else join (fs_IPAddress front) ''443'');
          verifyHost = (if fs_VerifyHostname front = '''' then fs_SNI front else fs_VerifyHostname front) in
      if verifyHost = '''' then Inl ErrFrontIdentity
      else if \<not> dialOk then Inl ErrTCPDial
      else
        let d = \<lparr>fd_addr = addr, fd_serverName = fs_SNI front, fd_verifyHost = verifyHost\<rparr> in
        if \<not> handshakeOk d then Inl ErrTLS else Inr d)"

section \<open>The SOCKS5 handshake\<close>

text \<open>\<open>io.ReadFull\<close> of \<open>n\<close> bytes from what the tunnel will deliver before it ends or fails.\<close>

definition readFull :: "nat \<Rightarrow> bytes \<Rightarrow> (bytes \<times> bytes) option" where
  "readFull n input = (if length input < n then None else Some (take n input, drop n input))"

text \<open>Why the handshake failed: a write or a read, or a byte of the replies.\<close>

datatype socksError =
    ErrWrite nat | ErrRead nat | ErrVersion "8 word" | ErrMethod "8 word" | ErrReply "8 word" | ErrReserved "8 word" | ErrAddrType "8 word"

text \<open>The length of the bound address, which a domain name carries in its first byte.\<close>

definition boundAddr :: "8 word \<Rightarrow> bytes \<Rightarrow> socksError + nat \<times> bytes" where
  "boundAddr atyp input =
     (if atyp = 1 then Inr (4, input)
      else if atyp = 4 then Inr (16, input)
      else if atyp = 3 then (case readFull 1 input of None \<Rightarrow> Inl (ErrRead 2) | Some (lb, rest) \<Rightarrow> Inr (unat (lb ! 0), rest))
      else Inl (ErrAddrType atyp))"

text \<open>\<open>socks5ConnectSequenced\<close>: \<open>writeOk 0\<close> and \<open>writeOk 1\<close> say whether the two requests could be written. On success the
  result is what is left for the application.\<close>

definition socks5ConnectSequenced :: "(nat \<Rightarrow> bool) \<Rightarrow> bytes \<Rightarrow> socksError + bytes" where
  "socks5ConnectSequenced writeOk input =
     (if \<not> writeOk 0 then Inl (ErrWrite 0)
      else case readFull 2 input of
        None \<Rightarrow> Inl (ErrRead 0)
      | Some (authReply, input) \<Rightarrow>
          if authReply ! 0 \<noteq> 5 then Inl (ErrVersion (authReply ! 0))
          else if authReply ! 1 \<noteq> 0 then Inl (ErrMethod (authReply ! 1))
          else if \<not> writeOk 1 then Inl (ErrWrite 1)
          else case readFull 4 input of
            None \<Rightarrow> Inl (ErrRead 1)
          | Some (head, input) \<Rightarrow>
              if head ! 0 \<noteq> 5 then Inl (ErrVersion (head ! 0))
              else if head ! 1 \<noteq> 0 then Inl (ErrReply (head ! 1))
              else if head ! 2 \<noteq> 0 then Inl (ErrReserved (head ! 2))
              else case boundAddr (head ! 3) input of
                Inl err \<Rightarrow> Inl err
              | Inr (addrLen, input) \<Rightarrow>
                  (case readFull (addrLen + 2) input of None \<Rightarrow> Inl (ErrRead 3) | Some (_, rest) \<Rightarrow> Inr rest))"

text \<open>\<open>DialContext\<close>: \<open>dial\<close> is \<open>Dial\<close>, whose connection delivers \<open>input\<close> until the deadline of the handshake.\<close>

definition outbound_DialContext ::
  "(meekConfig \<Rightarrow> meekError + conn) \<Rightarrow> (nat \<Rightarrow> bool) \<Rightarrow> bytes \<Rightarrow> time \<Rightarrow> string \<Rightarrow> meekOutbound \<Rightarrow> adapterError + conn \<times> bytes" where
  "outbound_DialContext dial writeOk input now network o' =
     (if network \<noteq> ''tcp'' then Inl (ErrNetwork network)
      else case dial (ob_cfg o') of
        Inl err \<Rightarrow> Inl (ErrDialMeek err)
      | Inr conn \<Rightarrow>
          let conn = SetDeadline (now + ob_connectTimeout o') conn in
          (case socks5ConnectSequenced writeOk input of
             Inl _ \<Rightarrow> Inl ErrHandshake
           | Inr rest \<Rightarrow> Inr (SetDeadline 0 conn, rest)))"

section \<open>The inbound\<close>

record meekInboundOptions =
  mi_MaxBodyBytes :: int
  mi_ResponseHoldoff :: string
  mi_SessionIdleTimeout :: string
  mi_AuthToken :: string
  mi_AllowUnauthenticated :: bool
  mi_ReadTimeout :: string
  mi_WriteTimeout :: string
  mi_IdleTimeout :: string

text \<open>\<open>loopback\<close> is the address of the loopback listener, if it could be opened; \<open>listenOk\<close> says whether the
  public one could.\<close>

definition NewInbound ::
  "(string \<Rightarrow> duration option) \<Rightarrow> string option \<Rightarrow> bool \<Rightarrow> meekInboundOptions \<Rightarrow> adapterError + meekServer" where
  "NewInbound parse loopback listenOk opts =
     (if mi_AuthToken opts = '''' \<and> \<not> mi_AllowUnauthenticated opts then Inl ErrAuthTokenRequired
      else case parseDurationOr parse (mi_ResponseHoldoff opts) (50 * millisecond) of
        None \<Rightarrow> Inl ErrResponseHoldoff
      | Some responseHoldoff \<Rightarrow>
          (case parseDurationOr parse (mi_SessionIdleTimeout opts) (5 * minute) of
             None \<Rightarrow> Inl ErrSessionIdleTimeout
           | Some sessionIdleTimeout \<Rightarrow>
               if parseDurationOr parse (mi_ReadTimeout opts) (30 * second) = None then Inl ErrReadTimeout
               else if parseDurationOr parse (mi_WriteTimeout opts) (30 * second) = None then Inl ErrWriteTimeout
               else if parseDurationOr parse (mi_IdleTimeout opts) (120 * second) = None then Inl ErrIdleTimeout
               else case loopback of
                 None \<Rightarrow> Inl ErrListen
               | Some addr \<Rightarrow>
                   if \<not> listenOk then Inl ErrListen
                   else case NewServer \<lparr>sc_Upstream = addr, sc_MaxBodyBytes = mi_MaxBodyBytes opts,
                          sc_ResponseHoldoff = responseHoldoff, sc_SessionIdleTimeout = sessionIdleTimeout,
                          sc_AuthToken = mi_AuthToken opts\<rparr> of
                     None \<Rightarrow> Inl ErrListen
                   | Some server \<Rightarrow> Inr server))"

text \<open>The pause of \<open>acceptSocks\<close> after a number of failures in a row.\<close>

definition acceptBackoff :: "int \<Rightarrow> duration" where
  "acceptBackoff failures = min (failures * 10 * millisecond) second"

section \<open>What the handshake accepts\<close>

text \<open>RFC 1928's reply to CONNECT: the bound address by its type, and a port of two bytes.\<close>

datatype boundAddress = IPv4Addr bytes | DomainAddr bytes | IPv6Addr bytes

fun encodeAddress :: "boundAddress \<Rightarrow> bytes" where
  "encodeAddress (IPv4Addr a) = 1 # a"
| "encodeAddress (DomainAddr a) = 3 # of_nat (length a) # a"
| "encodeAddress (IPv6Addr a) = 4 # a"

fun addressOk :: "boundAddress \<Rightarrow> bool" where
  "addressOk (IPv4Addr a) = (length a = 4)"
| "addressOk (DomainAddr a) = (length a < 256)"
| "addressOk (IPv6Addr a) = (length a = 16)"

definition replies :: "boundAddress \<Rightarrow> bytes \<Rightarrow> bytes" where
  "replies addr port = [5, 0] @ [5, 0, 0] @ encodeAddress addr @ port"

lemma readFull_append [simp]: "length xs = n \<Longrightarrow> readFull n (xs @ ys) = Some (xs, ys)"
  by (simp add: readFull_def)

lemma readFull_Some: "readFull n input = Some (xs, ys) \<Longrightarrow> input = xs @ ys \<and> length xs = n"
  by (auto simp: readFull_def split: if_splits)

lemma boundAddr_encode:
  assumes "addressOk addr"
  shows "\<exists>a x. encodeAddress addr @ tail = a # x \<and>
    (\<exists>n body. boundAddr a x = Inr (n, body @ tail) \<and> length body = n)"
  using assms
  by (cases addr) (auto simp: boundAddr_def readFull_def unat_of_nat)

lemma boundAddr_decode:
  assumes "boundAddr a x = Inr (n, y)" and "readFull (n + 2) y = Some (z, rest)"
  shows "\<exists>addr port. addressOk addr \<and> length port = 2 \<and> a # x = encodeAddress addr @ port @ rest"
proof -
  have y: "y = take n z @ drop n z @ rest" "length (take n z) = n" "length (drop n z) = 2"
    using readFull_Some [OF assms(2)] by auto
  show ?thesis
  proof (cases "a = 3")
    case True
    obtain b where b: "x = b # y" "n = unat b"
      using assms(1) True by (cases x) (auto simp: boundAddr_def readFull_def split: if_splits)
    moreover have "length (take n z) < 256" using b(2) y(2) unsigned_less [of b] by simp
    ultimately have "a # x = encodeAddress (DomainAddr (take n z)) @ drop n z @ rest" "addressOk (DomainAddr (take n z))"
      using True y by simp_all
    then show ?thesis using y(3) by blast
  next
    case False
    then consider "a = 1" "n = 4" "x = y" | "a = 4" "n = 16" "x = y"
      using assms(1) by (auto simp: boundAddr_def split: if_splits option.splits)
    then show ?thesis
    proof cases
      case 1
      then have "a # x = encodeAddress (IPv4Addr (take n z)) @ drop n z @ rest" "addressOk (IPv4Addr (take n z))"
        using y by simp_all
      then show ?thesis using y(3) by blast
    next
      case 2
      then have "a # x = encodeAddress (IPv6Addr (take n z)) @ drop n z @ rest" "addressOk (IPv6Addr (take n z))"
        using y by simp_all
      then show ?thesis using y(3) by blast
    qed
  qed
qed

lemma handshake_accepts:
  assumes "addressOk addr" and "length port = 2"
  shows "socks5ConnectSequenced (\<lambda>_. True) (replies addr port @ rest) = Inr rest"
proof -
  obtain a x n body where a: "encodeAddress addr @ port @ rest = a # x" "boundAddr a x = Inr (n, body @ port @ rest)" "length body = n"
    using boundAddr_encode [OF assms(1), of "port @ rest"] by auto
  have "replies addr port @ rest = 5 # 0 # 5 # 0 # 0 # a # x" by (simp add: replies_def a(1))
  moreover have "readFull (n + 2) ((body @ port) @ rest) = Some (body @ port, rest)" using a(3) assms(2) by (intro readFull_append) simp
  ultimately show ?thesis by (simp add: socks5ConnectSequenced_def readFull_def [of 2] readFull_def [of 4] a(2))
qed

text \<open>C38: the handshake takes exactly the proxy's replies. It succeeds on what the tunnel delivers if and only if
  that begins with the acceptance of "no authentication" and a successful reply to CONNECT with an address of any
  of the three types, and it leaves everything after them for the application: no byte of the replies leaks into the
  stream and no byte of the stream is swallowed.\<close>

theorem handshake_exact:
  "socks5ConnectSequenced (\<lambda>_. True) input = Inr rest \<longleftrightarrow>
     (\<exists>addr port. addressOk addr \<and> length port = 2 \<and> input = replies addr port @ rest)"
proof
  assume h: "socks5ConnectSequenced (\<lambda>_. True) input = Inr rest"
  then obtain ar i1 where ar: "readFull 2 input = Some (ar, i1)" by (auto simp: socks5ConnectSequenced_def split: option.splits)
  with h obtain hd i2 where hd: "readFull 4 i1 = Some (hd, i2)" and bytes: "ar ! 0 = 5" "ar ! 1 = 0" "hd ! 0 = 5" "hd ! 1 = 0" "hd ! 2 = 0"
    by (auto simp: socks5ConnectSequenced_def split: option.splits if_splits)
  with h ar obtain n y z where b: "boundAddr (hd ! 3) i2 = Inr (n, y)" "readFull (n + 2) y = Some (z, rest)"
    by (auto simp: socks5ConnectSequenced_def split: option.splits if_splits sum.splits)
  have "ar = [5, 0]" using readFull_Some [OF ar] bytes by (auto simp: length_Suc_conv numeral_2_eq_2)
  moreover have "hd = [5, 0, 0, hd ! 3]"
    using readFull_Some [OF hd] bytes by (auto simp: length_Suc_conv eval_nat_numeral)
  ultimately have "input = [5, 0] @ [5, 0, 0] @ hd ! 3 # i2" using readFull_Some [OF ar] readFull_Some [OF hd] by (metis append_Cons append_Nil)
  then show "\<exists>addr port. addressOk addr \<and> length port = 2 \<and> input = replies addr port @ rest"
    using boundAddr_decode [OF b] by (auto simp: replies_def)
qed (auto simp: handshake_accepts)

section \<open>Certificate identities\<close>

text \<open>No connection without a certificate identity. Every front an outbound that was constructed may pick has an
  identity to check its certificate against, the configured one before the server name: dialing it
  never fails for want of one, and when the dial succeeds that identity is the one checked.\<close>

lemma fronts_verified:
  assumes "NewOutbound e opts = Inr o'" and "n < length (ob_fronts o')"
  shows "let f = pickFront n (ob_fronts o') in f \<in> set (mo_Fronts opts) \<and>
    (case dialFront hasPort join dialOk handshakeOk f of
       Inl err \<Rightarrow> err \<noteq> ErrFrontIdentity
     | Inr d \<Rightarrow> fd_verifyHost d \<noteq> '''' \<and> handshakeOk d \<and>
         fd_verifyHost d = (if fs_VerifyHostname f = '''' then fs_SNI f else fs_VerifyHostname f))"
proof -
  have fronts: "ob_fronts o' = mo_Fronts opts" "index_func unverified (mo_Fronts opts) = None"
    using assms(1) by (auto simp: NewOutbound_def Let_def split: if_splits option.splits)
  let ?f = "pickFront n (ob_fronts o')"
  have f: "?f \<in> set (mo_Fronts opts)" using assms(2) fronts(1) by (auto simp: pickFront_def)
  then have "\<not> unverified ?f" using fronts(2) by (auto simp: index_func_None)
  then show ?thesis using f by (auto simp: Let_def dialFront_def unverified_def)
qed

definition exampleOptions :: meekOutboundOptions where
  "exampleOptions = \<lparr>mo_URL = ''u'', mo_Fronts = [\<lparr>fs_IPAddress = ''1.2.3.4'', fs_SNI = ''cover'', fs_VerifyHostname = ''front''\<rparr>],
     mo_Header = [], mo_PollIntervalMs = 0, mo_MaxBodyBytes = 0, mo_SessionIDLen = 0, mo_ConnectTimeout = '''', mo_ReadTimeout = ''''\<rparr>"

end
