(* ===== verification/Go_Json.thy ===== *)
theory Go_Json
  imports Go_Strconv
begin

text \<open>
  What the sources use of Go's \<open>encoding/json\<close> and \<open>unicode/utf8\<close>. A Go string is a list of bytes and so is
  \<^typ>\<open>string\<close> here. \<open>appendString\<close> quotes a string, \<open>unquote\<close> reads one, \<open>jstep\<close> is the byte
  at a time scanner that both \<open>Decoder.Decode\<close> and \<open>Unmarshal\<close> run, and the scanner's stack holds the
  value read so far. Quoting a string of valid UTF-8, scanning it and unquoting it gives it back.
\<close>

section \<open>UTF-8\<close>

abbreviation byte :: "char \<Rightarrow> nat" where
  "byte c \<equiv> of_char c"

definition within :: "nat \<Rightarrow> nat \<Rightarrow> char \<Rightarrow> bool" where
  "within lo hi c \<longleftrightarrow> lo \<le> byte c \<and> byte c \<le> hi"

text \<open>The number of bytes of the well-formed sequence of two or more bytes that a string starts with, and
  \<open>0\<close> when it starts with none: \<open>DecodeRune\<close> reports then the error rune with width one.\<close>

definition utf8_width :: "string \<Rightarrow> nat" where
  "utf8_width s =
     (case s of
        a # b # r \<Rightarrow>
          (if within 194 223 a then (if within 128 191 b then 2 else 0)
           else if within 224 239 a
             then (if within (if byte a = 224 then 160 else 128) (if byte a = 237 then 159 else 191) b
                   then (case r of c # _ \<Rightarrow> if within 128 191 c then 3 else 0 | [] \<Rightarrow> 0) else 0)
           else if within 240 244 a
             then (if within (if byte a = 240 then 144 else 128) (if byte a = 244 then 143 else 191) b
                   then (case r of c # d # _ \<Rightarrow> if within 128 191 c \<and> within 128 191 d then 4 else 0 | _ \<Rightarrow> 0) else 0)
           else 0)
      | _ \<Rightarrow> 0)"

definition EncodeRune :: "nat \<Rightarrow> string" where
  "EncodeRune r =
     (if r < 128 then [char_of r]
      else if r < 2048 then [char_of (192 + r div 64), char_of (128 + r mod 64)]
      else if (55296 \<le> r \<and> r \<le> 57343) \<or> 1114111 < r then [char_of (239::nat), char_of (191::nat), char_of (189::nat)]
      else if r < 65536 then [char_of (224 + r div 4096), char_of (128 + r div 64 mod 64), char_of (128 + r mod 64)]
      else [char_of (240 + r div 262144), char_of (128 + r div 4096 mod 64), char_of (128 + r div 64 mod 64),
            char_of (128 + r mod 64)])"

abbreviation runeError :: string where
  "runeError \<equiv> [char_of (239::nat), char_of (191::nat), char_of (189::nat)]"

fun valid_utf8 :: "string \<Rightarrow> bool" where
  "valid_utf8 [] \<longleftrightarrow> True"
| "valid_utf8 (c # cs) \<longleftrightarrow>
     (if byte c < 128 then valid_utf8 cs
      else utf8_width (c # cs) \<noteq> 0 \<and> valid_utf8 (drop (utf8_width (c # cs) - 1) cs))"

section \<open>Quoted strings\<close>

definition hex_char :: "nat \<Rightarrow> char" where
  "hex_char d = char_of (if d < 10 then 48 + d else 87 + d)"

definition hex_val :: "char \<Rightarrow> nat option" where
  "hex_val c = (if within 48 57 c then Some (byte c - 48)
                else if within 97 102 c then Some (byte c - 87)
                else if within 65 70 c then Some (byte c - 55) else None)"

text \<open>\<open>json.Marshal\<close> also escapes the characters that HTML treats specially.\<close>

definition htmlSafe :: "char \<Rightarrow> bool" where
  "htmlSafe c \<longleftrightarrow> 32 \<le> byte c \<and> c \<notin> {CHR 0x22, CHR 0x5C, CHR ''<'', CHR ''>'', CHR ''&''}"

definition escapeByte :: "char \<Rightarrow> string" where
  "escapeByte c =
     (if htmlSafe c then [c]
      else if c = CHR 0x5C \<or> c = CHR 0x22 then [CHR 0x5C, c]
      else if byte c = 8 then [CHR 0x5C, CHR ''b'']
      else if byte c = 12 then [CHR 0x5C, CHR ''f'']
      else if byte c = 10 then [CHR 0x5C, CHR ''n'']
      else if byte c = 13 then [CHR 0x5C, CHR ''r'']
      else if byte c = 9 then [CHR 0x5C, CHR ''t'']
      else [CHR 0x5C, CHR ''u'', CHR ''0'', CHR ''0'', hex_char (byte c div 16), hex_char (byte c mod 16)])"

definition lineSeparator :: "string \<Rightarrow> char option" where
  "lineSeparator s =
     (case s of a # b # c # _ \<Rightarrow>
        if byte a = 226 \<and> byte b = 128 \<and> byte c = 168 then Some (CHR ''8'')
        else if byte a = 226 \<and> byte b = 128 \<and> byte c = 169 then Some (CHR ''9'') else None
      | _ \<Rightarrow> None)"

fun appendString :: "string \<Rightarrow> string" where
  "appendString [] = []"
| "appendString (c # cs) =
     (if byte c < 128 then escapeByte c @ appendString cs
      else if utf8_width (c # cs) = 0 then [CHR 0x5C, CHR ''u'', CHR ''f'', CHR ''f'', CHR ''f'', CHR ''d''] @ appendString cs
      else (case lineSeparator (c # cs) of
              Some d \<Rightarrow> [CHR 0x5C, CHR ''u'', CHR ''2'', CHR ''0'', CHR ''2'', d]
            | None \<Rightarrow> take (utf8_width (c # cs)) (c # cs))
           @ appendString (drop (utf8_width (c # cs) - 1) cs))"

definition quote :: "string \<Rightarrow> string" where
  "quote s = CHR 0x22 # appendString s @ [CHR 0x22]"

text \<open>\<open>getu4\<close> reads the four digits after a backslash and a \<open>u\<close>.\<close>

definition getu4 :: "string \<Rightarrow> nat option" where
  "getu4 s =
     (case s of e # u # a # b # c # d # _ \<Rightarrow>
        if e = CHR 0x5C \<and> u = CHR ''u'' then
          (case (hex_val a, hex_val b, hex_val c, hex_val d) of
             (Some a, Some b, Some c, Some d) \<Rightarrow> Some (4096 * a + 256 * b + 16 * c + d)
           | _ \<Rightarrow> None)
        else None
      | _ \<Rightarrow> None)"

definition surrogatePair :: "nat \<Rightarrow> nat option \<Rightarrow> nat option" where
  "surrogatePair r1 low =
     (case low of
        Some r2 \<Rightarrow> if 55296 \<le> r1 \<and> r1 < 56320 \<and> 56320 \<le> r2 \<and> r2 < 57344
                   then Some ((r1 - 55296) * 1024 + (r2 - 56320) + 65536) else None
      | None \<Rightarrow> None)"

definition simpleEscape :: "char \<Rightarrow> char option" where
  "simpleEscape e =
     (if e = CHR 0x22 \<or> e = CHR 0x5C \<or> e = CHR ''/'' \<or> e = CHR 0x27 then Some e
      else if e = CHR ''b'' then Some (char_of (8::nat))
      else if e = CHR ''f'' then Some (char_of (12::nat))
      else if e = CHR ''n'' then Some (char_of (10::nat))
      else if e = CHR ''r'' then Some (char_of (13::nat))
      else if e = CHR ''t'' then Some (char_of (9::nat))
      else None)"

function unquote :: "string \<Rightarrow> string option" where
  "unquote [] = Some []"
| "unquote (c # cs) =
     (if c = CHR 0x5C then
        (case cs of
           [] \<Rightarrow> None
         | e # r \<Rightarrow>
             if e = CHR ''u'' then
               (case getu4 (c # cs) of
                  None \<Rightarrow> None
                | Some u \<Rightarrow>
                    if 55296 \<le> u \<and> u \<le> 57343 then
                      (case surrogatePair u (getu4 (drop 5 cs)) of
                         Some v \<Rightarrow> map_option ((@) (EncodeRune v)) (unquote (drop 11 cs))
                       | None \<Rightarrow> map_option ((@) runeError) (unquote (drop 5 cs)))
                    else map_option ((@) (EncodeRune u)) (unquote (drop 5 cs)))
             else (case simpleEscape e of None \<Rightarrow> None | Some d \<Rightarrow> map_option ((#) d) (unquote r)))
      else if c = CHR 0x22 \<or> byte c < 32 then None
      else if byte c < 128 then map_option ((#) c) (unquote cs)
      else if utf8_width (c # cs) = 0 then map_option ((@) runeError) (unquote cs)
      else map_option ((@) (take (utf8_width (c # cs)) (c # cs))) (unquote (drop (utf8_width (c # cs) - 1) cs)))"
  by pat_completeness auto
termination by (relation "measure length") auto

declare appendString.simps(2) [simp del] unquote.simps(2) [simp del]

section \<open>The scanner\<close>

text \<open>The text of a string is kept as written, between the quotes.\<close>

datatype json = JNull | JBool bool | JNumber string | JString string | JArray "json list" | JObject "(string \<times> json) list"

datatype jframe = InArray "json list" | InKey "(string \<times> json) list" | InValue "(string \<times> json) list" string

datatype jstate = SBeginValue | SBeginValueOrEmpty | SBeginStringOrEmpty | SBeginString
  | SInString string | SInStringEsc string | SInStringEscU nat string
  | SNeg string | S0 string | S1 string | SDot string | SDot0 string | SE string | SESign string | SE0 string
  | SLit string json | SEndValue json

text \<open>\<open>Ended\<close> is \<open>scanEnd\<close>: the value ended before this byte.\<close>

datatype jresult = Go_on jstate "jframe list" | Ended json | Bad

definition isSpace :: "char \<Rightarrow> bool" where
  "isSpace c \<longleftrightarrow> c = CHR '' '' \<or> byte c = 9 \<or> byte c = 10 \<or> byte c = 13"

definition isDigit :: "char \<Rightarrow> bool" where
  "isDigit = within 48 57"

definition maxNestingDepth :: int where
  "maxNestingDepth = 10000"

definition pushParseState :: "jstate \<Rightarrow> jframe \<Rightarrow> jframe list \<Rightarrow> jresult" where
  "pushParseState st f stk = (if int (length stk) + 1 \<le> maxNestingDepth then Go_on st (f # stk) else Bad)"

definition stateEndValue :: "json \<Rightarrow> jframe list \<Rightarrow> char \<Rightarrow> jresult" where
  "stateEndValue v stk c =
     (case stk of
        [] \<Rightarrow> Ended v
      | f # r \<Rightarrow>
          if isSpace c then Go_on (SEndValue v) stk
          else (case f of
             InKey ms \<Rightarrow> (case v of JString k \<Rightarrow> if c = CHR '':'' then Go_on SBeginValue (InValue ms k # r) else Bad
                           | _ \<Rightarrow> Bad)
           | InValue ms k \<Rightarrow> if c = CHR '','' then Go_on SBeginString (InKey (ms @ [(k, v)]) # r)
                             else if c = CHR ''}'' then Go_on (SEndValue (JObject (ms @ [(k, v)]))) r else Bad
           | InArray vs \<Rightarrow> if c = CHR '','' then Go_on SBeginValue (InArray (vs @ [v]) # r)
                           else if c = CHR '']'' then Go_on (SEndValue (JArray (vs @ [v]))) r else Bad))"

definition stateBeginValue :: "jframe list \<Rightarrow> char \<Rightarrow> jresult" where
  "stateBeginValue stk c =
     (if isSpace c then Go_on SBeginValue stk
      else if c = CHR ''{'' then pushParseState SBeginStringOrEmpty (InKey []) stk
      else if c = CHR ''['' then pushParseState SBeginValueOrEmpty (InArray []) stk
      else if c = CHR 0x22 then Go_on (SInString []) stk
      else if c = CHR ''-'' then Go_on (SNeg [c]) stk
      else if c = CHR ''0'' then Go_on (S0 [c]) stk
      else if c = CHR ''t'' then Go_on (SLit ''rue'' (JBool True)) stk
      else if c = CHR ''f'' then Go_on (SLit ''alse'' (JBool False)) stk
      else if c = CHR ''n'' then Go_on (SLit ''ull'' JNull) stk
      else if isDigit c then Go_on (S1 [c]) stk
      else Bad)"

definition stateBeginString :: "jframe list \<Rightarrow> char \<Rightarrow> jresult" where
  "stateBeginString stk c =
     (if isSpace c then Go_on SBeginString stk else if c = CHR 0x22 then Go_on (SInString []) stk else Bad)"

definition state0 :: "string \<Rightarrow> jframe list \<Rightarrow> char \<Rightarrow> jresult" where
  "state0 n stk c =
     (if c = CHR ''.'' then Go_on (SDot (n @ [c])) stk
      else if c = CHR ''e'' \<or> c = CHR ''E'' then Go_on (SE (n @ [c])) stk
      else stateEndValue (JNumber n) stk c)"

definition stateESign :: "string \<Rightarrow> jframe list \<Rightarrow> char \<Rightarrow> jresult" where
  "stateESign n stk c = (if isDigit c then Go_on (SE0 (n @ [c])) stk else Bad)"

fun jstep :: "jstate \<Rightarrow> jframe list \<Rightarrow> char \<Rightarrow> jresult" where
  "jstep SBeginValue stk c = stateBeginValue stk c"
| "jstep SBeginValueOrEmpty stk c =
     (if isSpace c then Go_on SBeginValueOrEmpty stk
      else if c = CHR '']'' then Go_on (SEndValue (JArray [])) (tl stk)
      else stateBeginValue stk c)"
| "jstep SBeginStringOrEmpty stk c =
     (if isSpace c then Go_on SBeginStringOrEmpty stk
      else if c = CHR ''}'' then Go_on (SEndValue (JObject [])) (tl stk)
      else stateBeginString stk c)"
| "jstep SBeginString stk c = stateBeginString stk c"
| "jstep (SInString s) stk c =
     (if c = CHR 0x22 then Go_on (SEndValue (JString s)) stk
      else if c = CHR 0x5C then Go_on (SInStringEsc (s @ [c])) stk
      else if byte c < 32 then Bad
      else Go_on (SInString (s @ [c])) stk)"
| "jstep (SInStringEsc s) stk c =
     (if c \<in> {CHR ''b'', CHR ''f'', CHR ''n'', CHR ''r'', CHR ''t'', CHR 0x5C, CHR ''/'', CHR 0x22}
        then Go_on (SInString (s @ [c])) stk
      else if c = CHR ''u'' then Go_on (SInStringEscU 3 (s @ [c])) stk
      else Bad)"
| "jstep (SInStringEscU n s) stk c =
     (if hex_val c = None then Bad
      else Go_on (if n = 0 then SInString (s @ [c]) else SInStringEscU (n - 1) (s @ [c])) stk)"
| "jstep (SNeg n) stk c =
     (if c = CHR ''0'' then Go_on (S0 (n @ [c])) stk else if isDigit c then Go_on (S1 (n @ [c])) stk else Bad)"
| "jstep (S0 n) stk c = state0 n stk c"
| "jstep (S1 n) stk c = (if isDigit c then Go_on (S1 (n @ [c])) stk else state0 n stk c)"
| "jstep (SDot n) stk c = (if isDigit c then Go_on (SDot0 (n @ [c])) stk else Bad)"
| "jstep (SDot0 n) stk c =
     (if isDigit c then Go_on (SDot0 (n @ [c])) stk
      else if c = CHR ''e'' \<or> c = CHR ''E'' then Go_on (SE (n @ [c])) stk
      else stateEndValue (JNumber n) stk c)"
| "jstep (SE n) stk c =
     (if c = CHR ''+'' \<or> c = CHR ''-'' then Go_on (SESign (n @ [c])) stk else stateESign n stk c)"
| "jstep (SESign n) stk c = stateESign n stk c"
| "jstep (SE0 n) stk c = (if isDigit c then Go_on (SE0 (n @ [c])) stk else stateEndValue (JNumber n) stk c)"
| "jstep (SLit w v) stk c =
     (case w of
        [] \<Rightarrow> Bad
      | x # xs \<Rightarrow> if c = x then Go_on (if xs = [] then SEndValue v else SLit xs v) stk else Bad)"
| "jstep (SEndValue v) stk c = stateEndValue v stk c"

text \<open>\<open>Decoder.readValue\<close> on the bytes it has: an object or an array ends with its bracket, any other
  value before the byte that follows it.\<close>

datatype jscan = Complete json string | Syntax | Partial jstate "jframe list"

fun closedValue :: "jstate \<Rightarrow> jframe list \<Rightarrow> char \<Rightarrow> json option" where
  "closedValue (SEndValue v) [] c = (if c = CHR ''}'' \<or> c = CHR '']'' then Some v else None)"
| "closedValue _ _ _ = None"

fun readValue :: "jstate \<Rightarrow> jframe list \<Rightarrow> string \<Rightarrow> jscan" where
  "readValue st stk [] = Partial st stk"
| "readValue st stk (c # cs) =
     (case jstep st stk c of
        Bad \<Rightarrow> Syntax
      | Ended v \<Rightarrow> Complete v (c # cs)
      | Go_on st' stk' \<Rightarrow> (case closedValue st' stk' c of Some v \<Rightarrow> Complete v cs | None \<Rightarrow> readValue st' stk' cs))"

text \<open>\<open>checkValid\<close>, which \<open>Unmarshal\<close> runs on the whole input first, together with the value it scanned.\<close>

fun checkValid :: "jstate \<Rightarrow> jframe list \<Rightarrow> string \<Rightarrow> json option" where
  "checkValid st stk [] = (case jstep st stk (CHR '' '') of Ended v \<Rightarrow> Some v | _ \<Rightarrow> None)"
| "checkValid st stk (c # cs) =
     (case jstep st stk c of
        Bad \<Rightarrow> None
      | Ended v \<Rightarrow> if list_all isSpace (c # cs) then Some v else None
      | Go_on st' stk' \<Rightarrow> checkValid st' stk' cs)"

section \<open>Reading back what was written\<close>

lemma byte_char_of [simp]: "n < 256 \<Longrightarrow> byte (char_of n) = n"
  by simp

lemma hex_val_char [simp]: "d < 16 \<Longrightarrow> hex_val (hex_char d) = Some d"
  by (auto simp: hex_val_def hex_char_def within_def)

lemma head_cases [case_names none one two three four]:
  obtains "s = []" | a where "s = [a]" | a b where "s = [a, b]" | a b c where "s = [a, b, c]"
    | a b c d r where "s = a # b # c # d # r"
  by (metis list.exhaust)

lemma utf8_width_bounds:
  "utf8_width s \<le> length s \<and> utf8_width s \<noteq> 1 \<and> list_all (\<lambda>c. 128 \<le> byte c) (take (utf8_width s) s)"
  by (cases s rule: head_cases) (simp_all add: utf8_width_def within_def)

lemma utf8_width_take:
  assumes "utf8_width s \<noteq> 0"
  shows "utf8_width (take (utf8_width s) s @ t) = utf8_width s"
  using assms by (cases s rule: head_cases) (simp_all add: utf8_width_def split: if_splits)

lemma byte_inject: "byte c = n \<Longrightarrow> c = char_of n"
  by (metis char_of_char)

lemma unquote_hex:
  assumes "hi < 16" and "lo < 16" and "16 * hi + lo < 128"
  shows "unquote ([CHR 0x5C, CHR ''u'', CHR ''0'', CHR ''0'', hex_char hi, hex_char lo] @ r)
    = map_option ((#) (char_of (16 * hi + lo))) (unquote r)"
proof -
  have "hex_val (CHR ''0'') = Some 0" by (simp add: hex_val_def within_def)
  then have "getu4 ([CHR 0x5C, CHR ''u'', CHR ''0'', CHR ''0'', hex_char hi, hex_char lo] @ r) = Some (16 * hi + lo)"
    using assms by (simp add: getu4_def)
  moreover have "(@) [c] = (#) c" for c :: char by (simp add: fun_eq_iff)
  ultimately show ?thesis using assms
    by (simp add: unquote.simps(2) EncodeRune_def)
qed

lemma unquote_escapeByte:
  assumes "byte c < 128"
  shows "unquote (escapeByte c @ r) = map_option ((#) c) (unquote r)"
proof (cases "htmlSafe c")
  case True
  then show ?thesis using assms by (simp add: escapeByte_def htmlSafe_def unquote.simps(2))
next
  case False
  have hex: "unquote ([CHR 0x5C, CHR ''u'', CHR ''0'', CHR ''0'', hex_char (byte c div 16), hex_char (byte c mod 16)] @ r)
      = map_option ((#) c) (unquote r)"
    using unquote_hex [of "byte c div 16" "byte c mod 16" r] assms by simp
  consider "c = CHR 0x5C \<or> c = CHR 0x22" | "byte c = 8" | "byte c = 12" | "byte c = 10" | "byte c = 13" | "byte c = 9"
    | "c \<noteq> CHR 0x5C" "c \<noteq> CHR 0x22" "byte c \<notin> {8, 12, 10, 13, 9}" by blast
  then show ?thesis
  proof cases
    case 1
    with False show ?thesis by (auto simp: escapeByte_def unquote.simps(2) simpleEscape_def)
  next
    case 7
    with False have "escapeByte c = [CHR 0x5C, CHR ''u'', CHR ''0'', CHR ''0'', hex_char (byte c div 16), hex_char (byte c mod 16)]"
      by (simp add: escapeByte_def)
    with hex show ?thesis by simp
  qed (drule byte_inject, simp add: escapeByte_def htmlSafe_def unquote.simps(2) simpleEscape_def)+
qed

lemma lineSeparator_Some:
  assumes "lineSeparator s = Some d"
  shows "\<exists>r. utf8_width s = 3 \<and> s = char_of (226::nat) # char_of (128::nat) # char_of (if d = CHR ''8'' then 168 else 169 :: nat) # r
    \<and> (d = CHR ''8'' \<or> d = CHR ''9'')"
proof -
  obtain a b c r where s: "s = a # b # c # r" and ab: "byte a = 226" "byte b = 128"
    and c: "byte c = (if d = CHR ''8'' then 168 else 169)" and d: "d = CHR ''8'' \<or> d = CHR ''9''"
    using assms by (auto simp: lineSeparator_def split: list.splits if_splits)
  have "utf8_width s = 3" using ab c by (simp add: s utf8_width_def within_def)
  then show ?thesis using s d byte_inject [OF ab(1)] byte_inject [OF ab(2)] byte_inject [OF c] by auto
qed

lemma unquote_lineSeparator:
  assumes "d = CHR ''8'' \<or> d = CHR ''9''"
  shows "unquote ([CHR 0x5C, CHR ''u'', CHR ''2'', CHR ''0'', CHR ''2'', d] @ r)
    = map_option ((@) [char_of (226::nat), char_of (128::nat), char_of (if d = CHR ''8'' then 168 else 169 :: nat)]) (unquote r)"
proof -
  have "hex_val (CHR ''0'') = Some 0" "hex_val (CHR ''2'') = Some 2" "hex_val (CHR ''8'') = Some 8"
    "hex_val (CHR ''9'') = Some 9" by (simp_all add: hex_val_def within_def)
  then have "getu4 ([CHR 0x5C, CHR ''u'', CHR ''2'', CHR ''0'', CHR ''2'', d] @ r)
      = Some (if d = CHR ''8'' then 8232 else 8233)"
    using assms by (auto simp: getu4_def)
  then show ?thesis by (simp add: unquote.simps(2) EncodeRune_def)
qed

lemma unquote_rune:
  assumes "128 \<le> byte c" and "utf8_width (c # cs) \<noteq> 0"
  shows "unquote (take (utf8_width (c # cs)) (c # cs) @ r) = map_option ((@) (take (utf8_width (c # cs)) (c # cs))) (unquote r)"
proof -
  let ?w = "utf8_width (c # cs)"
  obtain n where n: "?w = Suc n" using assms(2) by (metis not0_implies_Suc)
  have len: "?w \<le> length (c # cs)" using utf8_width_bounds by blast
  have "utf8_width (c # take n cs @ r) = Suc n" using utf8_width_take [OF assms(2), of r] n by simp
  moreover have "c \<noteq> CHR 0x5C" "c \<noteq> CHR 0x22" using assms(1) by auto
  ultimately show ?thesis
    using assms(1) n len by (simp add: unquote.simps(2))
qed

theorem unquote_appendString: "valid_utf8 s \<Longrightarrow> unquote (appendString s) = Some s"
proof (induction s rule: appendString.induct)
  case (2 c cs)
  show ?case
  proof (cases "byte c < 128")
    case True
    with 2 show ?thesis by (simp add: appendString.simps(2) unquote_escapeByte)
  next
    case False
    then have w: "utf8_width (c # cs) \<noteq> 0" and rest: "unquote (appendString (drop (utf8_width (c # cs) - 1) cs))
        = Some (drop (utf8_width (c # cs) - 1) cs)" using 2 by auto
    show ?thesis
    proof (cases "lineSeparator (c # cs)")
      case None
      have "take (utf8_width (c # cs)) (c # cs) @ drop (utf8_width (c # cs) - 1) cs = c # cs"
        using w by (cases "utf8_width (c # cs)") simp_all
      with None False w rest show ?thesis by (simp add: appendString.simps(2) unquote_rune)
    next
      case (Some d)
      then obtain r where w3: "utf8_width (c # cs) = 3" and d: "d = CHR ''8'' \<or> d = CHR ''9''"
        and cs: "c # cs = [char_of (226::nat), char_of (128::nat), char_of (if d = CHR ''8'' then 168 else 169 :: nat)] @ r"
        using lineSeparator_Some by fastforce
      then have r: "r = drop 2 cs" by auto
      have "unquote (appendString (c # cs)) = unquote ([CHR 0x5C, CHR ''u'', CHR ''2'', CHR ''0'', CHR ''2'', d] @ appendString r)"
        using False w3 Some r by (simp add: appendString.simps(2) numeral_2_eq_2)
      also have "\<dots> = Some (c # cs)"
        using rest w3 cs r by (simp only: unquote_lineSeparator [OF d]) simp
      finally show ?thesis .
    qed
  qed
qed simp

text \<open>The scanner's progress does not depend on how the input is cut into reads.\<close>

lemma readValue_append:
  "readValue st stk (xs @ ys) =
     (case readValue st stk xs of
        Complete v r \<Rightarrow> Complete v (r @ ys)
      | Syntax \<Rightarrow> Syntax
      | Partial st' stk' \<Rightarrow> readValue st' stk' ys)"
  by (induction xs arbitrary: st stk) (auto split: jresult.splits option.splits)

lemma readValue_suffix: "readValue st stk xs = Complete v r \<Longrightarrow> \<exists>p. xs = p @ r"
  by (induction xs arbitrary: st stk)
     (fastforce split: jresult.splits option.splits intro: Cons_eq_appendI)+

fun jrun :: "jstate \<times> jframe list \<Rightarrow> string \<Rightarrow> (jstate \<times> jframe list) option" where
  "jrun S [] = Some S"
| "jrun (st, stk) (c # cs) =
     (case jstep st stk c of
        Go_on st' stk' \<Rightarrow> if closedValue st' stk' c = None then jrun (st', stk') cs else None
      | _ \<Rightarrow> None)"

lemma jrun_append: "jrun S (xs @ ys) = (case jrun S xs of Some S' \<Rightarrow> jrun S' ys | None \<Rightarrow> None)"
  by (induction S xs rule: jrun.induct) (auto split: jresult.splits)

lemma readValue_run: "jrun (st, stk) xs = Some (st', stk') \<Longrightarrow> readValue st stk (xs @ ys) = readValue st' stk' ys"
  by (induction xs arbitrary: st stk) (auto split: jresult.splits if_splits)

lemma checkValid_run: "jrun (st, stk) xs = Some (st', stk') \<Longrightarrow> checkValid st stk (xs @ ys) = checkValid st' stk' ys"
  by (induction xs arbitrary: st stk) (auto split: jresult.splits if_splits)

lemma jrun_rune:
  "list_all (\<lambda>c. 128 \<le> byte c) xs \<Longrightarrow> jrun (SInString a, stk) xs = Some (SInString (a @ xs), stk)"
proof (induction xs arbitrary: a)
  case (Cons c xs)
  then have "c \<noteq> CHR 0x22" "c \<noteq> CHR 0x5C" "\<not> byte c < 32" by auto
  with Cons show ?case by simp
qed simp

lemma jrun_hex:
  assumes "hex_val a \<noteq> None" "hex_val b \<noteq> None" "hex_val c \<noteq> None" "hex_val d \<noteq> None"
  shows "jrun (SInString s, stk) [CHR 0x5C, CHR ''u'', a, b, c, d] = Some (SInString (s @ [CHR 0x5C, CHR ''u'', a, b, c, d]), stk)"
  using assms by (simp add: numeral_3_eq_3)

lemma hex_digits: "hex_val (CHR ''0'') \<noteq> None" "hex_val (CHR ''2'') \<noteq> None" "hex_val (CHR ''8'') \<noteq> None"
  "hex_val (CHR ''9'') \<noteq> None" "hex_val (CHR ''f'') \<noteq> None" "hex_val (CHR ''d'') \<noteq> None"
  by (simp_all add: hex_val_def within_def)

lemma jrun_escapeByte:
  assumes "byte c < 128"
  shows "jrun (SInString a, stk) (escapeByte c) = Some (SInString (a @ escapeByte c), stk)"
proof (cases "htmlSafe c")
  case True
  then show ?thesis by (simp add: escapeByte_def htmlSafe_def)
next
  case False
  have "jrun (SInString a, stk) [CHR 0x5C, CHR ''u'', CHR ''0'', CHR ''0'', hex_char (byte c div 16), hex_char (byte c mod 16)]
      = Some (SInString (a @ [CHR 0x5C, CHR ''u'', CHR ''0'', CHR ''0'', hex_char (byte c div 16), hex_char (byte c mod 16)]), stk)"
    using assms by (intro jrun_hex hex_digits) simp_all
  then show ?thesis using False by (auto simp: escapeByte_def simp del: jrun.simps(2)) (simp_all)
qed

lemma jrun_appendString: "jrun (SInString a, stk) (appendString s) = Some (SInString (a @ appendString s), stk)"
proof (induction s arbitrary: a rule: appendString.induct)
  case (2 c cs)
  note rune = utf8_width_bounds [of "c # cs", THEN conjunct2, THEN conjunct2]
  have sep: "lineSeparator (c # cs) = Some d \<Longrightarrow> d = CHR ''8'' \<or> d = CHR ''9''" for d
    using lineSeparator_Some by blast
  show ?case
    using 2 sep rune
    by (auto simp: appendString.simps(2) jrun_append jrun_escapeByte jrun_rune jrun_hex hex_digits
        simp del: jrun.simps(2) append_Cons take_Suc_Cons split: option.splits)
qed simp

lemma jrun_quote:
  assumes "st \<in> {SBeginValue, SBeginString, SBeginStringOrEmpty, SBeginValueOrEmpty}"
  shows "jrun (st, stk) (quote s) = Some (SEndValue (JString (appendString s)), stk)"
proof -
  have "jstep st stk (CHR 0x22) = Go_on (SInString []) stk"
    using assms by (auto simp: stateBeginValue_def stateBeginString_def isSpace_def)
  moreover have "closedValue (SEndValue v) stk (CHR 0x22) = None" for v by (cases stk) simp_all
  ultimately show ?thesis by (simp add: quote_def jrun_append jrun_appendString)
qed

end
