(* ===== verification/Client_Context.thy ===== *)
theory Client_Context
  imports Go_Json "HOL-Library.Sublist"
begin

text \<open>
  Client info at the start of a proxied connection (\<open>tracker/clientcontext\<close>): the client's side, which puts a
  frame before the first bytes of a dial (\<open>encodePayload\<close>, \<open>frameConn\<close>, \<open>DialContext\<close>), and the server's
  side, which takes it off again (\<open>Manager\<close>, \<open>readConn\<close>, \<open>readPacketConn\<close>).

  A connection is the list of what its reads will give: the bytes of a read and whether the read timed
  out, then the bytes before the end and the error every read gives after it. A time-out leaves a
  connection usable, every other error is its last word.
\<close>

section \<open>Client info\<close>

record ClientInfo =
  DeviceID :: string
  Platform :: string
  IsPro :: bool
  CountryCode :: string
  Version :: string

definition noInfo :: ClientInfo where
  "noInfo = \<lparr>DeviceID = [], Platform = [], IsPro = False, CountryCode = [], Version = []\<rparr>"

definition clientInfoPrefix :: string where
  "clientInfoPrefix = ''CLIENTINFO2 ''"

definition legacyClientInfoPrefix :: string where
  "legacyClientInfoPrefix = ''CLIENTINFO ''"

definition ackResponse :: string where
  "ackResponse = ''OK''"

text \<open>\<open>json.Marshal\<close> and the decoder on this struct. A key that is no field's name may still match one
  when both are folded to upper case, a value of the wrong type is an error, and \<open>null\<close> stores
  nothing.\<close>

definition member_text :: "string \<Rightarrow> string \<Rightarrow> string" where
  "member_text k v = quote k @ CHR '':'' # v"

definition bool_text :: "bool \<Rightarrow> string" where
  "bool_text b = (if b then ''true'' else ''false'')"

definition marshalInfo :: "ClientInfo \<Rightarrow> string" where
  "marshalInfo i =
     ''{'' @ member_text ''DeviceID'' (quote (DeviceID i)) @ '',''
     @ member_text ''Platform'' (quote (Platform i)) @ '',''
     @ member_text ''IsPro'' (bool_text (IsPro i)) @ '',''
     @ member_text ''CountryCode'' (quote (CountryCode i)) @ '',''
     @ member_text ''Version'' (quote (Version i)) @ ''}''"

datatype infoField = FDeviceID | FPlatform | FIsPro | FCountryCode | FVersion

fun fieldName :: "infoField \<Rightarrow> string" where
  "fieldName FDeviceID = ''DeviceID''"
| "fieldName FPlatform = ''Platform''"
| "fieldName FIsPro = ''IsPro''"
| "fieldName FCountryCode = ''CountryCode''"
| "fieldName FVersion = ''Version''"

text \<open>Two characters outside ASCII fold to a letter: the long s and the Kelvin sign.\<close>

fun foldName :: "string \<Rightarrow> string" where
  "foldName [] = []"
| "foldName (c # cs) =
     (if byte c < 128 then to_upper c # foldName cs
      else if take 2 (c # cs) = [char_of (197::nat), char_of (191::nat)] then CHR ''S'' # foldName (drop 1 cs)
      else if take 3 (c # cs) = [char_of (226::nat), char_of (132::nat), char_of (170::nat)]
        then CHR ''K'' # foldName (drop 2 cs)
      else c # foldName cs)"

definition fieldOf :: "string \<Rightarrow> infoField option" where
  "fieldOf key =
     (let fields = [FDeviceID, FPlatform, FIsPro, FCountryCode, FVersion] in
      case find (\<lambda>f. fieldName f = key) fields of
        Some f \<Rightarrow> Some f
      | None \<Rightarrow> find (\<lambda>f. foldName (fieldName f) = foldName key) fields)"

fun storeString :: "infoField \<Rightarrow> string \<Rightarrow> ClientInfo \<Rightarrow> ClientInfo option" where
  "storeString FDeviceID s i = Some (i\<lparr>DeviceID := s\<rparr>)"
| "storeString FPlatform s i = Some (i\<lparr>Platform := s\<rparr>)"
| "storeString FIsPro s i = None"
| "storeString FCountryCode s i = Some (i\<lparr>CountryCode := s\<rparr>)"
| "storeString FVersion s i = Some (i\<lparr>Version := s\<rparr>)"

fun storeField :: "infoField \<Rightarrow> json \<Rightarrow> ClientInfo \<Rightarrow> ClientInfo option" where
  "storeField f JNull i = Some i"
| "storeField f (JBool b) i = (if f = FIsPro then Some (i\<lparr>IsPro := b\<rparr>) else None)"
| "storeField f (JString raw) i = (case unquote raw of Some s \<Rightarrow> storeString f s i | None \<Rightarrow> None)"
| "storeField f _ i = None"

fun decodeMembers :: "(string \<times> json) list \<Rightarrow> ClientInfo \<Rightarrow> ClientInfo option" where
  "decodeMembers [] i = Some i"
| "decodeMembers ((raw, v) # ms) i =
     (case unquote raw of
        None \<Rightarrow> None
      | Some key \<Rightarrow>
          (case fieldOf key of
             None \<Rightarrow> decodeMembers ms i
           | Some f \<Rightarrow> (case storeField f v i of Some i' \<Rightarrow> decodeMembers ms i' | None \<Rightarrow> None)))"

fun decodeInfo :: "json \<Rightarrow> ClientInfo option" where
  "decodeInfo JNull = Some noInfo"
| "decodeInfo (JObject ms) = decodeMembers ms noInfo"
| "decodeInfo _ = None"

section \<open>Which connections are read\<close>

record MatchBounds =
  mb_Inbound :: "string list"
  mb_Outbound :: "string list"

record boundsRule =
  tagMap :: "(string, bool) gomap"
  matchAny :: bool

definition newBoundsRule :: "string list \<Rightarrow> boundsRule" where
  "newBoundsRule tags =
     (if length tags = 1 \<and> (tags ! 0 = '''' \<or> tags ! 0 = ''any'') then \<lparr>tagMap = [], matchAny = True\<rparr>
      else \<lparr>tagMap = fold (\<lambda>t. gput t True) tags [], matchAny = False\<rparr>)"

definition br_match :: "boundsRule \<Rightarrow> string \<Rightarrow> bool" where
  "br_match b t \<longleftrightarrow> (matchAny b \<and> t \<noteq> '''') \<or> gget (tagMap b) t = Some True"

record Manager =
  matchBounds :: MatchBounds
  inboundRule :: boundsRule
  outboundRule :: boundsRule

definition NewManager :: "MatchBounds \<Rightarrow> Manager" where
  "NewManager bounds = \<lparr>matchBounds = bounds, inboundRule = newBoundsRule (mb_Inbound bounds),
     outboundRule = newBoundsRule (mb_Outbound bounds)\<rparr>"

definition cm_match :: "Manager \<Rightarrow> string \<Rightarrow> string \<Rightarrow> bool" where
  "cm_match m inbound outbound \<longleftrightarrow> br_match (inboundRule m) inbound \<and> br_match (outboundRule m) outbound"

definition SetBounds :: "MatchBounds \<Rightarrow> Manager \<Rightarrow> Manager" where
  "SetBounds bounds m = m\<lparr>matchBounds := bounds, inboundRule := newBoundsRule (mb_Inbound bounds),
     outboundRule := newBoundsRule (mb_Outbound bounds)\<rparr>"

definition matchMarker :: "string \<Rightarrow> string \<times> bool" where
  "matchMarker b =
     (if prefix clientInfoPrefix b then (clientInfoPrefix, False)
      else if prefix legacyClientInfoPrefix b then (legacyClientInfoPrefix, True)
      else ('''', False))"

section \<open>Reading a connection\<close>

datatype rerr = DeadlineExceeded | EOF | UnexpectedEOF | SyntaxError | TypeError | Failed string

record sock =
  incoming :: "(string \<times> bool) list"
  lastBytes :: string
  ending :: rerr
  written :: string
  writeErr :: "rerr option"
  readDeadline :: time

definition sock_read :: "nat \<Rightarrow> sock \<Rightarrow> (string \<times> rerr option) \<times> sock" where
  "sock_read k s =
     (case incoming s of
        (d, late) # r \<Rightarrow>
          if length d \<le> k then ((d, if late then Some DeadlineExceeded else None), s\<lparr>incoming := r\<rparr>)
          else ((take k d, None), s\<lparr>incoming := (drop k d, late) # r\<rparr>)
      | [] \<Rightarrow>
          if length (lastBytes s) \<le> k then ((lastBytes s, Some (ending s)), s\<lparr>lastBytes := []\<rparr>)
          else ((take k (lastBytes s), None), s\<lparr>lastBytes := drop k (lastBytes s)\<rparr>))"

definition sock_write :: "string \<Rightarrow> sock \<Rightarrow> rerr option \<times> sock" where
  "sock_write b s = (case writeErr s of None \<Rightarrow> (None, s\<lparr>written := written s @ b\<rparr>) | Some e \<Rightarrow> (Some e, s))"

definition sock_SetReadDeadline :: "time \<Rightarrow> sock \<Rightarrow> sock" where
  "sock_SetReadDeadline t s = s\<lparr>readDeadline := t\<rparr>"

text \<open>All the bytes a connection will give, and a measure of the reads left.\<close>

definition sock_bytes :: "sock \<Rightarrow> string" where
  "sock_bytes s = concat (map fst (incoming s)) @ lastBytes s"

definition sock_left :: "sock \<Rightarrow> nat" where
  "sock_left s = sum_list (map (\<lambda>p. Suc (length (fst p))) (incoming s)) + length (lastBytes s)"

lemma sock_read_left: "0 < k \<Longrightarrow> sock_read k s = ((d, None), s') \<Longrightarrow> sock_left s' < sock_left s"
  by (auto simp: sock_read_def sock_left_def split: list.splits if_splits)

lemma sock_read_left_le: "sock_read k s = (r, s') \<Longrightarrow> sock_left s' \<le> sock_left s"
  by (auto simp: sock_read_def sock_left_def split: list.splits if_splits)

definition isProperPrefix :: "string \<Rightarrow> string \<Rightarrow> bool" where
  "isProperPrefix head marker \<longleftrightarrow> length head < length marker \<and> prefix head marker"

definition undecided :: "string \<Rightarrow> bool" where
  "undecided head \<longleftrightarrow> isProperPrefix head clientInfoPrefix \<or> isProperPrefix head legacyClientInfoPrefix"

lemma undecided_length: "undecided h \<Longrightarrow> length h < 12"
  by (auto simp: undecided_def isProperPrefix_def clientInfoPrefix_def legacyClientInfoPrefix_def)

text \<open>The loop of \<open>readHead\<close>, whose buffer has 32 bytes.\<close>

function readHeadLoop :: "string \<Rightarrow> sock \<Rightarrow> (string \<times> rerr option) \<times> sock" where
  "readHeadLoop head s =
     (if undecided head then
        (case sock_read (32 - length head) s of
           ((m, Some e), s') \<Rightarrow> ((head @ m, Some e), s')
         | ((m, None), s') \<Rightarrow> readHeadLoop (head @ m) s')
      else ((head, None), s))"
  by pat_completeness auto
termination
  by (relation "measure (\<lambda>(_, s). sock_left s)")
     (auto dest!: undecided_length intro: sock_read_left [rotated, OF sym])

definition readHead :: "string \<Rightarrow> sock \<Rightarrow> (string \<times> rerr option) \<times> sock" where
  "readHead head s = readHeadLoop (take 32 head) s"

text \<open>A reader is the connection itself, a stream that is still to be classified (\<open>pendingHead\<close>), or an
  \<open>io.MultiReader\<close> over bytes in memory and the rest of the stream.\<close>

datatype source = Bytes string | Stream

datatype reader = Direct | Pending string | Multi "source list"

fun multi_read :: "nat \<Rightarrow> source list \<Rightarrow> sock \<Rightarrow> (string \<times> rerr option) \<times> source list \<times> sock" where
  "multi_read k [] s = (([], Some EOF), [], s)"
| "multi_read k (Bytes b # rs) s =
     (if b = [] then multi_read k rs s else ((take k b, None), Bytes (drop k b) # rs, s))"
| "multi_read k (Stream # rs) s =
     (case sock_read k s of
        ((d, e), s') \<Rightarrow>
          if e = Some EOF then
            (if d = [] then multi_read k rs s' else ((d, if rs = [] then Some EOF else None), rs, s'))
          else ((d, e), Stream # rs, s'))"

fun sources_left :: "source list \<Rightarrow> nat" where
  "sources_left [] = 0"
| "sources_left (Bytes b # rs) = Suc (length b + sources_left rs)"
| "sources_left (Stream # rs) = Suc (sources_left rs)"

lemma multi_read_left:
  "0 < k \<Longrightarrow> multi_read k rs s = ((d, None), rs', s') \<Longrightarrow>
   sources_left rs' + sock_left s' < sources_left rs + sock_left s"
proof (induction k rs s rule: multi_read.induct)
  case (2 k b rs s)
  then show ?case by (auto split: if_splits)
next
  case (3 k rs s)
  obtain d0 e0 s0 where r: "sock_read k s = ((d0, e0), s0)" by (metis surj_pair)
  then have "sock_left s0 \<le> sock_left s" "e0 = None \<Longrightarrow> sock_left s0 < sock_left s"
    using sock_read_left_le sock_read_left 3(2) by blast+
  with 3 r show ?case by (fastforce split: if_splits)
qed simp

text \<open>\<open>Decoder.Decode\<close> on a reader. The decoder reads into the free part of its buffer, at least 512 bytes,
  and scans what it got; the end of the input also ends a number or a literal.\<close>

datatype decoded = Decoded json string "source list" sock | DecodeErr rerr sock

definition refill :: "nat \<Rightarrow> nat \<Rightarrow> nat" where
  "refill len free = (if free < 512 then len + 2 * free + 512 else free)"

function decodeLoop :: "nat \<Rightarrow> nat \<Rightarrow> bool \<Rightarrow> jstate \<Rightarrow> jframe list \<Rightarrow> source list \<Rightarrow> sock \<Rightarrow> decoded" where
  "decodeLoop len free nonSpace st stk rs s =
     (case multi_read (refill len free) rs s of
        ((d, e), rs', s') \<Rightarrow>
          (case readValue st stk d of
             Syntax \<Rightarrow> DecodeErr SyntaxError s'
           | Complete v r \<Rightarrow> Decoded v r rs' s'
           | Partial st' stk' \<Rightarrow>
               (case e of
                  None \<Rightarrow> decodeLoop (len + length d) (refill len free - length d)
                            (nonSpace \<or> list_ex (\<lambda>c. \<not> isSpace c) d) st' stk' rs' s'
                | Some err \<Rightarrow>
                    if err = EOF then
                      (case jstep st' stk' (CHR '' '') of
                         Ended v \<Rightarrow> Decoded v [] rs' s'
                       | _ \<Rightarrow> DecodeErr (if nonSpace \<or> list_ex (\<lambda>c. \<not> isSpace c) d then UnexpectedEOF else EOF) s')
                    else DecodeErr err s')))"
  by pat_completeness auto
termination
  by (relation "measure (\<lambda>(_, _, _, _, _, rs, s). sources_left rs + sock_left s)")
     (auto simp: refill_def intro: multi_read_left [rotated, OF sym])

declare readHeadLoop.simps [simp del] decodeLoop.simps [simp del]

definition decode_stream :: "source list \<Rightarrow> sock \<Rightarrow> decoded" where
  "decode_stream rs s = decodeLoop 0 0 False SBeginValue [] rs s"

section \<open>The server's connection\<close>

record readConn =
  rc_conn :: sock
  rc_reader :: reader
  rc_info :: ClientInfo
  rc_readErr :: "rerr option"

definition readInfoTimeout :: duration where
  "readInfoTimeout = 5 * second"

text \<open>Each operation that can fail returns its result and its error.\<close>

definition consumeHead :: "string \<Rightarrow> readConn \<Rightarrow> (ClientInfo \<times> rerr option) \<times> readConn" where
  "consumeHead head c =
     (let (marker, ack) = matchMarker head in
      if marker = '''' then ((noInfo, None), c\<lparr>rc_reader := Multi [Bytes head, Stream]\<rparr>)
      else
        (case decode_stream [Bytes (drop (length marker) head), Stream] (rc_conn c) of
           DecodeErr e s \<Rightarrow> ((noInfo, Some e), c\<lparr>rc_conn := s, rc_readErr := Some e\<rparr>)
         | Decoded v buffered rs s \<Rightarrow>
             (case decodeInfo v of
                None \<Rightarrow> ((noInfo, Some TypeError), c\<lparr>rc_conn := s, rc_readErr := Some TypeError\<rparr>)
              | Some info \<Rightarrow>
                  let c = c\<lparr>rc_conn := s, rc_reader := Multi (Bytes buffered # rs)\<rparr> in
                  if ack then
                    (case sock_write ackResponse s of
                       (Some e, s) \<Rightarrow> ((noInfo, Some e), c\<lparr>rc_conn := s, rc_readErr := Some e\<rparr>)
                     | (None, s) \<Rightarrow> ((info, None), c\<lparr>rc_conn := s\<rparr>))
                  else ((info, None), c))))"

text \<open>\<open>readInfo\<close>, with \<open>now\<close> the time of each of the three windows. \<open>readOpening\<close> is its first half: a partial
  marker at the end of the first window gets a second one.\<close>

definition readOpening :: "(nat \<Rightarrow> time) \<Rightarrow> sock \<Rightarrow> (string \<times> rerr option) \<times> sock" where
  "readOpening now s =
     (case readHead [] (sock_SetReadDeadline (now 0 + readInfoTimeout) s) of
        ((head, err), s) \<Rightarrow>
          if err = Some DeadlineExceeded \<and> head \<noteq> []
          then readHead head (sock_SetReadDeadline (now 1 + readInfoTimeout) s)
          else ((head, err), s))"

definition readInfo :: "(nat \<Rightarrow> time) \<Rightarrow> readConn \<Rightarrow> (ClientInfo \<times> rerr option) \<times> readConn" where
  "readInfo now c =
     (let ((head, err), s) = readOpening now (rc_conn c);
          (result, c) =
            (if err = Some DeadlineExceeded then ((noInfo, None), c\<lparr>rc_conn := s, rc_reader := Pending head\<rparr>)
             else if head = [] then ((noInfo, None), c\<lparr>rc_conn := s, rc_readErr := err\<rparr>)
             else consumeHead head (c\<lparr>rc_conn := sock_SetReadDeadline (now 2 + readInfoTimeout) s\<rparr>))
      in (result, c\<lparr>rc_conn := sock_SetReadDeadline 0 (rc_conn c)\<rparr>))"

datatype routed = Unwrapped sock | Wrapped readConn

definition RoutedConnection :: "(nat \<Rightarrow> time) \<Rightarrow> Manager \<Rightarrow> string \<Rightarrow> string \<Rightarrow> sock \<Rightarrow> routed" where
  "RoutedConnection now m inbound outbound conn =
     (if \<not> cm_match m inbound outbound then Unwrapped conn
      else
        let ((info, _), c) = readInfo now \<lparr>rc_conn = conn, rc_reader = Direct, rc_info = noInfo, rc_readErr = None\<rparr>
        in Wrapped (c\<lparr>rc_info := info\<rparr>))"

fun reader_read :: "nat \<Rightarrow> readConn \<Rightarrow> (string \<times> rerr option) \<times> readConn" where
  "reader_read k c =
     (case rc_reader c of
        Multi rs \<Rightarrow> (case multi_read k rs (rc_conn c) of (r, rs', s) \<Rightarrow> (r, c\<lparr>rc_conn := s, rc_reader := Multi rs'\<rparr>))
      | _ \<Rightarrow> (case sock_read k (rc_conn c) of (r, s) \<Rightarrow> (r, c\<lparr>rc_conn := s\<rparr>)))"

definition pending_read :: "nat \<Rightarrow> string \<Rightarrow> readConn \<Rightarrow> (string \<times> rerr option) \<times> readConn" where
  "pending_read k head c =
     (case readHead head (rc_conn c) of
        ((head, err), s) \<Rightarrow>
          let c = c\<lparr>rc_conn := s, rc_reader := Pending head\<rparr> in
          if head = [] \<or> (err = Some DeadlineExceeded \<and> undecided head) then (([], err), c)
          else (case consumeHead head c of
                  ((_, Some e), c) \<Rightarrow> (([], Some e), c)
                | ((_, None), c) \<Rightarrow> reader_read k c))"

definition rc_Read :: "nat \<Rightarrow> readConn \<Rightarrow> (string \<times> rerr option) \<times> readConn" where
  "rc_Read k c =
     (case rc_readErr c of
        Some e \<Rightarrow> (([], Some e), c)
      | None \<Rightarrow> (case rc_reader c of Pending head \<Rightarrow> pending_read k head c | _ \<Rightarrow> reader_read k c))"

definition rc_ClientInfo :: "readConn \<Rightarrow> ClientInfo \<times> bool" where
  "rc_ClientInfo c = (rc_info c, rc_info c \<noteq> noInfo)"

section \<open>The server's packets\<close>

text \<open>What the reads of a packet connection give: a destination with a datagram or with an error; in the end
  every read fails.\<close>

type_synonym datagram = "string \<times> string"
type_synonym readFailure = "string \<times> rerr"

record packetSock =
  packets :: "(readFailure + datagram) list"
  pk_ending :: readFailure
  acked :: "string list"
  pk_writeErr :: "rerr option"

record readPacketConn =
  rp_conn :: packetSock
  rp_info :: ClientInfo
  rp_destination :: string
  rp_readErr :: "rerr option"

definition packet_read :: "packetSock \<Rightarrow> (readFailure + datagram) \<times> packetSock" where
  "packet_read s = (case packets s of p # ps \<Rightarrow> (p, s\<lparr>packets := ps\<rparr>) | [] \<Rightarrow> (Inl (pk_ending s), s))"

text \<open>The loop of \<open>ReadPacket\<close> over the datagrams still to come.\<close>

fun skipFrames :: "(readFailure + datagram) list \<Rightarrow> (readFailure + datagram) list" where
  "skipFrames [] = []"
| "skipFrames (Inl e # ps) = Inl e # ps"
| "skipFrames (Inr (dst, data) # ps) = (if fst (matchMarker data) = '''' then Inr (dst, data) # ps else skipFrames ps)"

definition rp_ReadPacket :: "readPacketConn \<Rightarrow> (readFailure + datagram) \<times> readPacketConn" where
  "rp_ReadPacket c =
     (case rp_readErr c of
        Some e \<Rightarrow> (Inl (rp_destination c, e), c)
      | None \<Rightarrow>
          (case packet_read ((rp_conn c)\<lparr>packets := skipFrames (packets (rp_conn c))\<rparr>) of
             (r, s) \<Rightarrow> (r, c\<lparr>rp_conn := s\<rparr>)))"

definition writeAck :: "string \<Rightarrow> packetSock \<Rightarrow> rerr option \<times> packetSock" where
  "writeAck dst s = (case pk_writeErr s of None \<Rightarrow> (None, s\<lparr>acked := acked s @ [dst]\<rparr>) | Some e \<Rightarrow> (Some e, s))"

text \<open>\<open>NewCachedPacketConn\<close> gives the datagram that was read to the next read.\<close>

definition rp_readInfo :: "readPacketConn \<Rightarrow> (ClientInfo \<times> rerr option) \<times> readPacketConn" where
  "rp_readInfo c =
     (case packet_read (rp_conn c) of
        (Inl (dst, e), s) \<Rightarrow> ((noInfo, None), c\<lparr>rp_conn := s, rp_destination := dst, rp_readErr := Some e\<rparr>)
      | (Inr (dst, data), s) \<Rightarrow>
          let (marker, ack) = matchMarker data in
          if marker = '''' then ((noInfo, None), c\<lparr>rp_conn := s\<lparr>packets := Inr (dst, data) # packets s\<rparr>\<rparr>)
          else
            (case checkValid SBeginValue [] (drop (length marker) data) of
               None \<Rightarrow> ((noInfo, Some SyntaxError), c\<lparr>rp_conn := s\<rparr>)
             | Some v \<Rightarrow>
                 (case decodeInfo v of
                    None \<Rightarrow> ((noInfo, Some TypeError), c\<lparr>rp_conn := s\<rparr>)
                  | Some info \<Rightarrow>
                      if ack then
                        (case writeAck dst s of
                           (Some e, s) \<Rightarrow> ((noInfo, Some e), c\<lparr>rp_conn := s\<rparr>)
                         | (None, s) \<Rightarrow> ((info, None), c\<lparr>rp_conn := s\<rparr>))
                      else ((info, None), c\<lparr>rp_conn := s\<rparr>))))"

datatype routedPacket = UnwrappedPacket packetSock | WrappedPacket readPacketConn

definition RoutedPacketConnection :: "Manager \<Rightarrow> string \<Rightarrow> string \<Rightarrow> packetSock \<Rightarrow> routedPacket" where
  "RoutedPacketConnection m inbound outbound conn =
     (if \<not> cm_match m inbound outbound then UnwrappedPacket conn
      else
        let ((info, _), c) = rp_readInfo \<lparr>rp_conn = conn, rp_info = noInfo, rp_destination = [], rp_readErr = None\<rparr>
        in WrappedPacket (c\<lparr>rp_info := info\<rparr>))"

section \<open>The client's side\<close>

record Injector =
  outboundTags :: "(string, unit) gomap"

definition AddOutboundTags :: "string list \<Rightarrow> Injector \<Rightarrow> Injector" where
  "AddOutboundTags tags i = i\<lparr>outboundTags := fold (\<lambda>t. gput t ()) tags (outboundTags i)\<rparr>"

definition RemoveOutboundTags :: "string list \<Rightarrow> Injector \<Rightarrow> Injector" where
  "RemoveOutboundTags tags i = i\<lparr>outboundTags := fold gdel tags (outboundTags i)\<rparr>"

definition NewInjector :: "string list \<Rightarrow> Injector" where
  "NewInjector tags = AddOutboundTags tags \<lparr>outboundTags = []\<rparr>"

definition shouldInject :: "Injector \<Rightarrow> string \<Rightarrow> bool" where
  "shouldInject i t \<longleftrightarrow> gget (outboundTags i) t \<noteq> None"

definition probePayload :: string where
  "probePayload = clientInfoPrefix @ ''{}''"

definition encodePayload :: "bool \<Rightarrow> ClientInfo \<Rightarrow> string" where
  "encodePayload isProbe info = (if isProbe then probePayload else clientInfoPrefix @ marshalInfo info)"

text \<open>A connection of the client: the bytes it has carried and whether it is closed.\<close>

datatype netAddr = UDPAddr string | Socksaddr string

record clientConn =
  carried :: string
  sentTo :: "netAddr list"
  cc_closed :: bool

text \<open>\<open>runExchange\<close>: \<open>before\<close> is the context's error when it starts, \<open>fired\<close> the context's error when the context
  ended before \<open>stop\<close> was called. The exchange returns its error and the connection it wrote to.\<close>

definition runExchange :: "rerr option \<Rightarrow> (clientConn \<Rightarrow> rerr option \<times> clientConn) \<Rightarrow> rerr option \<Rightarrow> clientConn
    \<Rightarrow> rerr option \<times> clientConn" where
  "runExchange before exchange fired conn =
     (case before of
        Some e \<Rightarrow> (Some e, conn\<lparr>cc_closed := True\<rparr>)
      | None \<Rightarrow>
          (case exchange conn of
             (err, conn) \<Rightarrow>
               (case fired of
                  Some e \<Rightarrow> (Some e, conn\<lparr>cc_closed := True\<rparr>)
                | None \<Rightarrow> if err = None then (None, conn) else (err, conn\<lparr>cc_closed := True\<rparr>))))"

text \<open>One write of the connection below: it carries the first \<open>n\<close> bytes, all of them when it reports no
  error.\<close>

definition inner_write :: "string \<Rightarrow> nat \<Rightarrow> rerr option \<Rightarrow> clientConn \<Rightarrow> (nat \<times> rerr option) \<times> clientConn" where
  "inner_write b n err conn =
     (let n = (if err = None then length b else min n (length b)) in
      ((n, err), conn\<lparr>carried := carried conn @ take n b\<rparr>))"

definition exchangeStream :: "string \<Rightarrow> nat \<Rightarrow> rerr option \<Rightarrow> clientConn \<Rightarrow> rerr option \<times> clientConn" where
  "exchangeStream payload n err conn = (case inner_write payload n err conn of ((_, e), conn) \<Rightarrow> (e, conn))"

definition exchangePacket :: "bool \<Rightarrow> string \<Rightarrow> string \<Rightarrow> nat \<Rightarrow> rerr option \<Rightarrow> clientConn \<Rightarrow> rerr option \<times> clientConn" where
  "exchangePacket isIP destination payload n err conn =
     (let addr = (if isIP then UDPAddr destination else Socksaddr destination) in
      case inner_write payload n err conn of ((_, e), conn) \<Rightarrow> (e, conn\<lparr>sentTo := sentTo conn @ [addr]\<rparr>))"

record frameConn =
  fc_conn :: clientConn
  frame :: string
  sent :: bool

definition newFrameConn :: "clientConn \<Rightarrow> string \<Rightarrow> frameConn" where
  "newFrameConn conn payload = \<lparr>fc_conn = conn, frame = payload, sent = False\<rparr>"

definition fc_Write :: "string \<Rightarrow> nat \<Rightarrow> rerr option \<Rightarrow> frameConn \<Rightarrow> (nat \<times> rerr option) \<times> frameConn" where
  "fc_Write b n err c =
     (if sent c then (case inner_write b n err (fc_conn c) of (r, conn) \<Rightarrow> (r, c\<lparr>fc_conn := conn\<rparr>))
      else
        (case inner_write (frame c @ b) n err (fc_conn c) of
           ((n, err), conn) \<Rightarrow>
             let c = c\<lparr>fc_conn := conn\<rparr> in
             if n < length (frame c) then ((0, err), c\<lparr>frame := drop n (frame c)\<rparr>)
             else ((n - length (frame c), err), c\<lparr>frame := [], sent := True\<rparr>)))"

definition fc_NeedHandshake :: "bool \<Rightarrow> frameConn \<Rightarrow> bool" where
  "fc_NeedHandshake early c \<longleftrightarrow> \<not> sent c \<or> early"

definition fc_WriterReplaceable :: "frameConn \<Rightarrow> bool" where
  "fc_WriterReplaceable c = sent c"

text \<open>\<open>DialContext\<close> of the wrapped outbound: the outcome of the dial below, the destination and whether it is an
  address, whether the network is UDP, whether the connection postpones its handshake, and the outcomes of the
  write and of the context.\<close>

datatype dialed = DialFailed rerr | Plain clientConn | Framed frameConn | SendFailed rerr clientConn

definition cc_DialContext :: "Injector \<Rightarrow> string \<Rightarrow> bool \<Rightarrow> ClientInfo \<Rightarrow> rerr + clientConn \<Rightarrow> bool \<Rightarrow> string
    \<Rightarrow> bool \<Rightarrow> bool \<Rightarrow> rerr option \<Rightarrow> nat \<Rightarrow> rerr option \<Rightarrow> rerr option \<Rightarrow> dialed" where
  "cc_DialContext i t isProbe info below isIP destination udp pending before n werr fired =
     (case below of
        Inl e \<Rightarrow> DialFailed e
      | Inr conn \<Rightarrow>
          if \<not> shouldInject i t then Plain conn
          else
            let payload = encodePayload isProbe info in
            if \<not> udp \<and> pending then Framed (newFrameConn conn payload)
            else (case runExchange before
                         (if udp then exchangePacket isIP destination payload n werr else exchangeStream payload n werr)
                         fired conn of
                    (Some e, conn) \<Rightarrow> SendFailed e conn
                  | (None, conn) \<Rightarrow> Plain conn))"

end
