(* ===== verification/Client_Frames.thy ===== *)
theory Client_Frames
  imports Client_Context
begin

text \<open>
  What the two sides of \<open>Client_Context\<close> promise. \<open>byte_reader\<close> is the contract of a reader: what it
  gives and what it still holds are together the bytes it started with. The connection, the \<open>MultiReader\<close>
  and the server's wrapped connection keep it; for the last one the bytes are those of the stream without its
  frame.
\<close>

section \<open>Readers\<close>

text \<open>Reads one after the other: the bytes they gave and the error of the last one.\<close>

fun read_all :: "(nat \<Rightarrow> 's \<Rightarrow> (string \<times> rerr option) \<times> 's) \<Rightarrow> nat list \<Rightarrow> 's \<Rightarrow> (string \<times> rerr option) \<times> 's" where
  "read_all rd [] s = (([], None), s)"
| "read_all rd (k # ks) s =
     (case rd k s of
        ((d, e), s') \<Rightarrow>
          if ks = [] then ((d, e), s') else (case read_all rd ks s' of ((d', e'), s'') \<Rightarrow> ((d @ d', e'), s'')))"

text \<open>A reader that breaks gives nothing more; one that ends has given everything, unless it broke.\<close>

locale byte_reader =
  fixes rd :: "nat \<Rightarrow> 's \<Rightarrow> (string \<times> rerr option) \<times> 's"
    and content :: "'s \<Rightarrow> string"
    and good :: "'s \<Rightarrow> bool"
    and sound :: "'s \<Rightarrow> bool"
  assumes read_good: "good s \<Longrightarrow> rd k s = ((d, e), s') \<Longrightarrow> good s'"
    and read_prefix: "good s \<Longrightarrow> rd k s = ((d, e), s') \<Longrightarrow> prefix (d @ content s') (content s)"
    and read_sound: "good s \<Longrightarrow> rd k s = ((d, e), s') \<Longrightarrow> sound s' \<Longrightarrow> sound s \<and> content s = d @ content s'"
    and read_end: "good s \<Longrightarrow> rd k s = ((d, Some x), s') \<Longrightarrow> x \<noteq> DeadlineExceeded \<Longrightarrow> content s' = []"
begin

lemma reads_good: "good s \<Longrightarrow> read_all rd ks s = ((d, e), s') \<Longrightarrow> good s'"
  by (induction ks arbitrary: s d) (auto split: prod.splits if_splits intro: read_good)

lemma reads_prefix: "good s \<Longrightarrow> read_all rd ks s = ((d, e), s') \<Longrightarrow> prefix (d @ content s') (content s)"
proof (induction ks arbitrary: s d)
  case (Cons k ks)
  obtain d1 e1 s1 where r: "rd k s = ((d1, e1), s1)" by (metis surj_pair)
  have p: "prefix (d1 @ content s1) (content s)" using read_prefix [OF Cons.prems(1) r] .
  show ?case
  proof (cases "ks = []")
    case True
    then show ?thesis using Cons.prems r p by simp
  next
    case False
    then obtain d2 where "read_all rd ks s1 = ((d2, e), s')" "d = d1 @ d2"
      using Cons.prems r by (auto split: prod.splits)
    then have "prefix (d2 @ content s') (content s1)" "d = d1 @ d2"
      using Cons.IH read_good [OF Cons.prems(1) r] by blast+
    then have "prefix (d @ content s') (d1 @ content s1)" by simp
    then show ?thesis using p by (rule prefix_order.trans)
  qed
qed simp

lemma reads_sound: "good s \<Longrightarrow> read_all rd ks s = ((d, e), s') \<Longrightarrow> sound s' \<Longrightarrow> sound s \<and> content s = d @ content s'"
proof (induction ks arbitrary: s d)
  case (Cons k ks)
  obtain d1 e1 s1 where r: "rd k s = ((d1, e1), s1)" by (metis surj_pair)
  then show ?case
    using Cons.prems Cons.IH [of s1] read_good [OF Cons.prems(1) r] read_sound [OF Cons.prems(1) r]
    by (cases "ks = []") (auto split: prod.splits)
qed simp

lemma reads_end:
  "good s \<Longrightarrow> read_all rd ks s = ((d, Some e), s') \<Longrightarrow> e \<noteq> DeadlineExceeded \<Longrightarrow> content s' = []"
  by (induction ks arbitrary: s d) (auto split: prod.splits if_splits dest: read_good read_end)

lemma reads_complete:
  assumes "good s" "read_all rd ks s = ((d, Some e), s')" "e \<noteq> DeadlineExceeded" "sound s'"
  shows "d = content s"
  using reads_sound [OF assms(1,2,4)] reads_end [OF assms(1,2,3)] by simp

end

section \<open>The connection and the readers over it\<close>

definition sock_good :: "sock \<Rightarrow> bool" where
  "sock_good s \<longleftrightarrow> ending s \<noteq> DeadlineExceeded"

lemma sock_read_bytes:
  assumes "sock_read k s = ((d, e), s')"
  shows "sock_bytes s = d @ sock_bytes s'" and "ending s' = ending s" and "writeErr s' = writeErr s"
    and "written s' = written s"
    and "e = Some x \<Longrightarrow> x \<noteq> DeadlineExceeded \<Longrightarrow> sock_bytes s' = [] \<and> x = ending s"
  using assms by (auto simp: sock_read_def sock_bytes_def split: list.splits if_splits)

interpretation socket: byte_reader sock_read sock_bytes sock_good "\<lambda>_. True"
  by unfold_locales (auto simp: sock_good_def dest: sock_read_bytes)

text \<open>What a list of readers still holds; the stream, if it is there, is the last of them.\<close>

fun content :: "source list \<Rightarrow> sock \<Rightarrow> string" where
  "content [] s = []"
| "content (Bytes b # rs) s = b @ content rs s"
| "content (Stream # rs) s = sock_bytes s @ content rs s"

fun streamLast :: "source list \<Rightarrow> bool" where
  "streamLast [] \<longleftrightarrow> True"
| "streamLast (Bytes b # rs) \<longleftrightarrow> streamLast rs"
| "streamLast (Stream # rs) \<longleftrightarrow> rs = []"

lemma multi_read_content:
  "multi_read k rs s = ((d, e), rs', s') \<Longrightarrow> streamLast rs \<Longrightarrow> sock_good s \<Longrightarrow>
   content rs s = d @ content rs' s' \<and> streamLast rs' \<and> ending s' = ending s \<and> writeErr s' = writeErr s
     \<and> written s' = written s
     \<and> (\<forall>x. e = Some x \<and> x \<noteq> DeadlineExceeded \<longrightarrow> content rs' s' = [])"
proof (induction k rs s rule: multi_read.induct)
  case (3 k rs s)
  obtain d0 e0 s0 where r: "sock_read k s = ((d0, e0), s0)" by (metis surj_pair)
  note b = sock_read_bytes [OF r]
  have rs: "rs = []" using 3(3) by simp
  show ?case
  proof (cases "e0 = Some EOF")
    case True
    then have "sock_bytes s0 = []" using b(5) by blast
    then show ?thesis using 3(2) r True rs b(1-4) by (auto split: if_splits)
  next
    case False
    have "\<forall>x. e0 = Some x \<and> x \<noteq> DeadlineExceeded \<longrightarrow> sock_bytes s0 = []" using b(5) by blast
    then show ?thesis using 3(2) r rs False b(1-4) by auto
  qed
qed (auto split: if_splits)

interpretation multi: byte_reader "\<lambda>k (rs, s). multi_read k rs s" "\<lambda>(rs, s). content rs s"
  "\<lambda>(rs, s). streamLast rs \<and> sock_good s" "\<lambda>_. True"
proof (unfold_locales, goal_cases)
  case (1 s k d e s')
  then show ?case using multi_read_content [of k "fst s" "snd s" d e "fst s'" "snd s'"] by (auto simp: sock_good_def split: prod.splits)
next
  case (2 s k d e s')
  then show ?case using multi_read_content [of k "fst s" "snd s" d e "fst s'" "snd s'"] by (auto split: prod.splits)
next
  case (3 s k d e s')
  then show ?case using multi_read_content [of k "fst s" "snd s" d e "fst s'" "snd s'"] by (auto split: prod.splits)
next
  case (4 s k d x s')
  then show ?case using multi_read_content [of k "fst s" "snd s" d "Some x" "fst s'" "snd s'"] by (auto split: prod.splits)
qed

lemma prefix_decided:
  assumes "\<not> isProperPrefix h m"
  shows "prefix m (h @ t) \<longleftrightarrow> prefix m h"
proof
  assume "prefix m (h @ t)"
  then have "prefix m h \<or> prefix h m" by (metis prefix_same_cases prefixI)
  then show "prefix m h" using assms by (auto simp: isProperPrefix_def prefix_def)
qed (simp add: prefix_prefix)

lemma matchMarker_append: "\<not> undecided h \<Longrightarrow> matchMarker (h @ t) = matchMarker h"
  by (simp add: matchMarker_def undecided_def prefix_decided)

lemma readHeadLoop_bytes:
  "readHeadLoop h s = ((h', e), s') \<Longrightarrow> sock_good s \<Longrightarrow> length h \<le> 32 \<Longrightarrow>
   h @ sock_bytes s = h' @ sock_bytes s' \<and> ending s' = ending s \<and> writeErr s' = writeErr s
     \<and> written s' = written s
     \<and> (e = None \<longrightarrow> \<not> undecided h')
     \<and> (\<forall>x. e = Some x \<and> x \<noteq> DeadlineExceeded \<longrightarrow> sock_bytes s' = []) \<and> length h' \<le> 32"
proof (induction h s arbitrary: h' e s' rule: readHeadLoop.induct)
  case (1 h s)
  show ?case
  proof (cases "undecided h")
    case True
    obtain m e1 s1 where r: "sock_read (32 - length h) s = ((m, e1), s1)" by (metis surj_pair)
    have len: "length m \<le> 32 - length h" using r by (auto simp: sock_read_def split: list.splits if_splits)
    show ?thesis
    proof (cases e1)
      case None
      then have "readHeadLoop (h @ m) s1 = ((h', e), s')"
        using 1(2) True r by (simp add: readHeadLoop.simps [of h s])
      then show ?thesis
        using 1(1) [OF True r [symmetric] refl None, of h' e s'] 1(3,4) sock_read_bytes [OF r] len
        by (auto simp: sock_good_def)
    next
      case (Some x)
      then show ?thesis
        using 1(2,3,4) True r sock_read_bytes [OF r] len by (auto simp: readHeadLoop.simps [of h s])
    qed
  next
    case False
    then show ?thesis using 1(2,4) by (auto simp: readHeadLoop.simps [of h s])
  qed
qed

lemma readHead_bytes:
  "readHead h s = ((h', e), s') \<Longrightarrow> sock_good s \<Longrightarrow> length h \<le> 32 \<Longrightarrow>
   h @ sock_bytes s = h' @ sock_bytes s' \<and> ending s' = ending s \<and> writeErr s' = writeErr s
     \<and> written s' = written s
     \<and> (e = None \<longrightarrow> \<not> undecided h')
     \<and> (\<forall>x. e = Some x \<and> x \<noteq> DeadlineExceeded \<longrightarrow> sock_bytes s' = []) \<and> length h' \<le> 32"
  using readHeadLoop_bytes by (simp add: readHead_def)

section \<open>The stream without its frame\<close>

text \<open>The first JSON value of some bytes that nothing follows, and the bytes after it.\<close>

fun scan_value :: "jscan \<Rightarrow> (json \<times> string) option" where
  "scan_value (Complete v r) = Some (v, r)"
| "scan_value Syntax = None"
| "scan_value (Partial st stk) = (case jstep st stk (CHR '' '') of Ended v \<Rightarrow> Some (v, []) | _ \<Rightarrow> None)"

abbreviation first_value :: "string \<Rightarrow> jscan" where
  "first_value \<equiv> readValue SBeginValue []"

text \<open>The info that a stream begins with and the bytes the destination is to get: a stream that begins
  with no marker is passed on as it is.\<close>

definition frame_of :: "string \<Rightarrow> (ClientInfo \<times> string) option" where
  "frame_of x =
     (case scan_value (first_value (drop (length (fst (matchMarker x))) x)) of
        Some (v, r) \<Rightarrow> (case decodeInfo v of Some i \<Rightarrow> Some (i, r) | None \<Rightarrow> None)
      | None \<Rightarrow> None)"

definition payload :: "string \<Rightarrow> string" where
  "payload x =
     (if fst (matchMarker x) = '''' then x else (case frame_of x of Some (_, r) \<Rightarrow> r | None \<Rightarrow> []))"

text \<open>The decoder reads the first value of what its readers hold, whatever the reads give; it fails for good
  only when there is none, or nothing follows it.\<close>

fun decode_post :: "jscan \<Rightarrow> sock \<Rightarrow> decoded \<Rightarrow> bool" where
  "decode_post R s (Decoded v r rs' s') \<longleftrightarrow>
     scan_value R = Some (v, r @ content rs' s') \<and> streamLast rs' \<and> sock_good s' \<and> writeErr s' = writeErr s"
| "decode_post R s (DecodeErr e s') \<longleftrightarrow>
     (e \<noteq> DeadlineExceeded \<longrightarrow> (\<forall>v r. R \<noteq> Complete v r)) \<and> sock_good s' \<and> writeErr s' = writeErr s"

lemma scan_value_incomplete: "(\<forall>v r. R \<noteq> Complete v r) \<Longrightarrow> scan_value R = Some (v, r) \<Longrightarrow> r = []"
  by (cases R) (auto split: jresult.splits)

lemma decodeLoop_post:
  "streamLast rs \<Longrightarrow> sock_good s \<Longrightarrow>
   decode_post (readValue st stk (content rs s)) s (decodeLoop len free nonSpace st stk rs s)"
proof (induction len free nonSpace st stk rs s rule: decodeLoop.induct)
  case (1 len free nonSpace st stk rs s)
  obtain d e rs' s' where r: "multi_read (refill len free) rs s = ((d, e), rs', s')" by (metis surj_pair)
  note m = multi_read_content [OF r 1(2,3)]
  have good: "sock_good s'" using m 1(3) by (simp add: sock_good_def)
  have c: "content rs s = d @ content rs' s'" using m by blast
  note unfolded = decodeLoop.simps [of len free nonSpace st stk rs s]
  show ?case
  proof (cases "readValue st stk d")
    case (Complete v q)
    then show ?thesis using r m good by (simp add: unfolded c readValue_append)
  next
    case Syntax
    then show ?thesis using r m good by (simp add: unfolded c readValue_append)
  next
    case (Partial st' stk')
    have fv: "readValue st stk (content rs s) = readValue st' stk' (content rs' s')"
      by (simp add: c readValue_append Partial)
    show ?thesis
    proof (cases e)
      case None
      have "decode_post (readValue st' stk' (content rs' s')) s' (decodeLoop len free nonSpace st stk rs s)"
        using 1(1) [OF r [symmetric] refl refl Partial None] m good r Partial None by (simp add: unfolded)
      then show ?thesis using m fv by (cases "decodeLoop len free nonSpace st stk rs s") auto
    next
      case (Some x)
      show ?thesis
      proof (cases "x = DeadlineExceeded")
        case True
        then show ?thesis using r Partial Some m good by (simp add: unfolded)
      next
        case False
        then have "content rs' s' = []" using m Some by blast
        then show ?thesis using r Partial Some m good fv
          by (auto simp: unfolded split: jresult.splits)
      qed
    qed
  qed
qed

section \<open>The server's connection keeps the stream\<close>

definition rc_content :: "readConn \<Rightarrow> string" where
  "rc_content c =
     (if rc_readErr c \<noteq> None then []
      else (case rc_reader c of
              Direct \<Rightarrow> sock_bytes (rc_conn c)
            | Pending h \<Rightarrow> payload (h @ sock_bytes (rc_conn c))
            | Multi rs \<Rightarrow> content rs (rc_conn c)))"

definition rc_good :: "readConn \<Rightarrow> bool" where
  "rc_good c \<longleftrightarrow> sock_good (rc_conn c) \<and>
     (case rc_reader c of Direct \<Rightarrow> True | Pending h \<Rightarrow> length h \<le> 32 | Multi rs \<Rightarrow> streamLast rs)"

text \<open>A connection broke when a time-out cut its frame or the ack could not be written.\<close>

definition rc_sound :: "readConn \<Rightarrow> bool" where
  "rc_sound c \<longleftrightarrow> rc_readErr c = None \<or> (rc_readErr c \<noteq> Some DeadlineExceeded \<and> writeErr (rc_conn c) = None)"

lemma content_written [simp]: "content rs (s\<lparr>written := w\<rparr>) = content rs s"
  by (induction rs s rule: content.induct) (simp_all add: sock_bytes_def)

lemma bytes_updates [simp]:
  "sock_bytes (sock_SetReadDeadline t s) = sock_bytes s" "sock_good (sock_SetReadDeadline t s) = sock_good s"
  "writeErr (sock_SetReadDeadline t s) = writeErr s" "content rs (sock_SetReadDeadline t s) = content rs s"
  "sock_good (s\<lparr>written := w\<rparr>) = sock_good s" "written (sock_SetReadDeadline t s) = written s"
proof -
  show "content rs (sock_SetReadDeadline t s) = content rs s"
    by (induction rs s rule: content.induct) (simp_all add: sock_bytes_def sock_SetReadDeadline_def)
qed (simp_all add: sock_SetReadDeadline_def sock_bytes_def sock_good_def)

lemma marker_length: "length (fst (matchMarker h)) \<le> length h"
  by (auto simp: matchMarker_def dest: prefix_length_le)

text \<open>What \<open>consumeHead\<close> makes of a stream \<open>x\<close>: its error fails the connection, and otherwise the reader
  holds the payload.\<close>

definition consumed :: "string \<Rightarrow> readConn \<Rightarrow> ClientInfo \<Rightarrow> rerr option \<Rightarrow> readConn \<Rightarrow> bool" where
  "consumed x c i e c' \<longleftrightarrow>
     rc_good c' \<and> writeErr (rc_conn c') = writeErr (rc_conn c) \<and> rc_readErr c' = e \<and>
     (case e of
        None \<Rightarrow> (\<exists>rs. rc_reader c' = Multi rs) \<and> rc_content c' = payload x
      | Some y \<Rightarrow> y \<noteq> DeadlineExceeded \<and> writeErr (rc_conn c) = None \<longrightarrow> payload x = []) \<and>
     (e = None \<and> fst (matchMarker x) \<noteq> '''' \<longrightarrow> frame_of x = Some (i, payload x)) \<and>
     (i \<noteq> noInfo \<longrightarrow> e = None \<and> fst (matchMarker x) \<noteq> '''')"

lemma consumeHead_plain:
  assumes "fst (matchMarker h) = ''''" and "rc_good c" and "rc_readErr c = None"
    and "matchMarker (h @ sock_bytes (rc_conn c)) = matchMarker h" and "consumeHead h c = ((i, e), c')"
  shows "consumed (h @ sock_bytes (rc_conn c)) c i e c'"
proof -
  have r: "i = noInfo" "e = None" "c' = c\<lparr>rc_reader := Multi [Bytes h, Stream]\<rparr>"
    using assms(1,5) by (auto simp: consumeHead_def split: prod.splits)
  show ?thesis using assms(1-4) by (simp add: r consumed_def rc_good_def rc_content_def payload_def)
qed

lemma consumeHead_framed:
  assumes marker: "fst (matchMarker h) \<noteq> ''''" and good: "rc_good c" and "rc_readErr c = None"
    and mm: "matchMarker (h @ sock_bytes (rc_conn c)) = matchMarker h" and ch: "consumeHead h c = ((i, e), c')"
  shows "consumed (h @ sock_bytes (rc_conn c)) c i e c'"
proof -
  let ?X = "h @ sock_bytes (rc_conn c)"
  let ?m = "fst (matchMarker h)"
  let ?rs = "[Bytes (drop (length ?m) h), Stream]"
  have sg: "sock_good (rc_conn c)" using good by (simp add: rc_good_def)
  have pl: "payload ?X = (case frame_of ?X of Some (_, r) \<Rightarrow> r | None \<Rightarrow> [])"
    using marker mm by (simp add: payload_def)
  have "drop (length ?m) ?X = content ?rs (rc_conn c)" using marker_length [of h] by simp
  then have fv: "frame_of ?X = (case scan_value (first_value (content ?rs (rc_conn c))) of
      Some (v, r) \<Rightarrow> (case decodeInfo v of Some i \<Rightarrow> Some (i, r) | None \<Rightarrow> None) | None \<Rightarrow> None)"
    by (simp only: frame_of_def mm)
  have post: "decode_post (first_value (content ?rs (rc_conn c))) (rc_conn c) (decode_stream ?rs (rc_conn c))"
    unfolding decode_stream_def using decodeLoop_post [of ?rs "rc_conn c"] sg by simp
  show ?thesis
  proof (cases "decode_stream ?rs (rc_conn c)")
    case (DecodeErr x s)
    with ch marker have r: "i = noInfo" "e = Some x" "c' = c\<lparr>rc_conn := s, rc_readErr := Some x\<rparr>"
      by (auto simp: consumeHead_def case_prod_unfold)
    have "x \<noteq> DeadlineExceeded \<longrightarrow> payload ?X = []"
      using post DecodeErr scan_value_incomplete by (auto simp: pl fv split: option.splits)
    then show ?thesis using post good by (auto simp: r consumed_def DecodeErr rc_good_def split: reader.splits)
  next
    case (Decoded v b rs s)
    note p = post [unfolded Decoded, simplified]
    show ?thesis
    proof (cases "decodeInfo v")
      case None
      with ch marker Decoded have r: "i = noInfo" "e = Some TypeError" "c' = c\<lparr>rc_conn := s, rc_readErr := Some TypeError\<rparr>"
        by (auto simp: consumeHead_def case_prod_unfold)
      show ?thesis using p good
        by (auto simp: r consumed_def rc_good_def pl fv None split: reader.splits)
    next
      case (Some info)
      let ?c = "c\<lparr>rc_conn := s, rc_reader := Multi (Bytes b # rs)\<rparr>"
      have "(case e of None \<Rightarrow> i = info \<and> (\<exists>w. c' = ?c\<lparr>rc_conn := s\<lparr>written := w\<rparr>\<rparr>)
              | Some y \<Rightarrow> i = noInfo \<and> writeErr s = Some y \<and> c' = ?c\<lparr>rc_readErr := Some y\<rparr>)"
      proof (cases "snd (matchMarker h)")
        case True
        with ch marker Decoded Some show ?thesis
          by (auto simp: consumeHead_def case_prod_unfold Let_def sock_write_def split: option.splits)
      next
        case False
        with ch marker Decoded Some have "e = None" "i = info" "c' = ?c" by (auto simp: consumeHead_def case_prod_unfold)
        then show ?thesis by (simp add: exI [of _ "written s"])
      qed
      then show ?thesis using p assms(3) marker
        by (auto simp: consumed_def rc_good_def rc_content_def pl fv mm Some split: option.splits)
    qed
  qed
qed

lemma consumeHead_consumed:
  assumes "rc_good c" and "rc_readErr c = None" and "\<not> undecided h \<or> sock_bytes (rc_conn c) = []"
    and "consumeHead h c = ((i, e), c')"
  shows "consumed (h @ sock_bytes (rc_conn c)) c i e c'"
proof -
  have "matchMarker (h @ sock_bytes (rc_conn c)) = matchMarker h" using assms(3) matchMarker_append by auto
  then show ?thesis using assms consumeHead_plain consumeHead_framed by blast
qed

lemma multi_reader_read:
  assumes "rc_good c" and "rc_readErr c = None" and "rc_reader c = Multi rs" and "reader_read k c = ((d, e), c')"
  shows "rc_good c' \<and> writeErr (rc_conn c') = writeErr (rc_conn c) \<and> rc_readErr c' = None \<and> (\<exists>rs'. rc_reader c' = Multi rs')
    \<and> rc_content c = d @ rc_content c' \<and> (\<forall>x. e = Some x \<and> x \<noteq> DeadlineExceeded \<longrightarrow> rc_content c' = [])"
proof -
  obtain d1 e1 rs1 s1 where m: "multi_read k rs (rc_conn c) = ((d1, e1), rs1, s1)" by (metis surj_pair)
  have "streamLast rs" "sock_good (rc_conn c)" using assms(1,3) by (auto simp: rc_good_def)
  note mc = multi_read_content [OF m this]
  have c': "d = d1" "e = e1" "c' = c\<lparr>rc_conn := s1, rc_reader := Multi rs1\<rparr>" using assms(3,4) m by auto
  show ?thesis using mc assms(1-3) by (auto simp: c' rc_good_def rc_content_def sock_good_def)
qed

text \<open>One read of the wrapped connection, as the contract of a reader asks for it.\<close>

definition read_ok :: "readConn \<Rightarrow> string \<Rightarrow> rerr option \<Rightarrow> readConn \<Rightarrow> bool" where
  "read_ok c d e c' \<longleftrightarrow>
     rc_good c' \<and> prefix (d @ rc_content c') (rc_content c)
     \<and> (rc_sound c' \<longrightarrow> rc_sound c \<and> rc_content c = d @ rc_content c')
     \<and> (\<forall>x. e = Some x \<and> x \<noteq> DeadlineExceeded \<longrightarrow> rc_content c' = [])"

lemma pending_read_ok:
  assumes "rc_good c" and "rc_readErr c = None" and "rc_reader c = Pending h" and "pending_read k h c = ((d, e), c')"
  shows "read_ok c d e c'"
proof -
  obtain h1 e1 s1 where rh: "readHead h (rc_conn c) = ((h1, e1), s1)" by (metis surj_pair)
  have "sock_good (rc_conn c)" "length h \<le> 32" using assms(1,3) by (auto simp: rc_good_def)
  note b = readHead_bytes [OF rh this]
  define c1 where "c1 = c\<lparr>rc_conn := s1, rc_reader := Pending h1\<rparr>"
  have c1: "rc_good c1" "rc_readErr c1 = None" "writeErr (rc_conn c1) = writeErr (rc_conn c)"
    "rc_content c = payload (h1 @ sock_bytes (rc_conn c1))"
    using b assms(1-3) by (auto simp: c1_def rc_good_def rc_content_def sock_good_def)
  show ?thesis
  proof (cases "h1 = [] \<or> (e1 = Some DeadlineExceeded \<and> undecided h1)")
    case True
    then have r: "d = []" "e = e1" "c' = c1" using assms(4) rh by (auto simp: pending_read_def Let_def c1_def)
    have "payload [] = []" by (simp add: payload_def matchMarker_def clientInfoPrefix_def legacyClientInfoPrefix_def)
    moreover have same: "rc_content c1 = rc_content c" using c1(2,4) by (simp add: rc_content_def [of c1]) (simp add: c1_def)
    ultimately have "\<forall>x. e1 = Some x \<and> x \<noteq> DeadlineExceeded \<longrightarrow> rc_content c1 = []"
      using True b c1(4) by (auto simp: c1_def)
    then show ?thesis using same c1(1,2,3) assms(2) by (simp add: r read_ok_def rc_sound_def)
  next
    case False
    obtain i e2 c2 where ch: "consumeHead h1 c1 = ((i, e2), c2)" by (metis surj_pair)
    have "\<not> undecided h1 \<or> sock_bytes (rc_conn c1) = []" using False b by (cases e1) (auto simp: c1_def)
    note con = consumeHead_consumed [OF c1(1,2) this ch, unfolded consumed_def]
    show ?thesis
    proof (cases e2)
      case None
      then have rr: "reader_read k c2 = ((d, e), c')"
        using assms(4) rh ch False by (simp add: pending_read_def Let_def c1_def del: reader_read.simps)
      from con None obtain rs where rs: "rc_reader c2 = Multi rs" by auto
      have "rc_good c2" "rc_readErr c2 = None" using con None by auto
      from multi_reader_read [OF this rs rr] show ?thesis
        using con None c1 assms(2) by (auto simp: read_ok_def rc_sound_def)
    next
      case (Some x)
      then have "d = []" "e = Some x" "c' = c2" using assms(4) rh ch False by (auto simp: pending_read_def Let_def c1_def)
      then show ?thesis using con Some c1 assms(2) by (auto simp: read_ok_def rc_sound_def rc_content_def [of c2])
    qed
  qed
qed

lemma rc_Read_ok:
  assumes "rc_good c" and "rc_Read k c = ((d, e), c')"
  shows "read_ok c d e c'"
proof (cases "rc_readErr c")
  case (Some x)
  then show ?thesis using assms by (auto simp: rc_Read_def read_ok_def rc_content_def)
next
  case None
  show ?thesis
  proof (cases "rc_reader c")
    case Direct
    obtain d1 e1 s1 where r: "sock_read k (rc_conn c) = ((d1, e1), s1)" by (metis surj_pair)
    then have c': "d = d1" "e = e1" "c' = c\<lparr>rc_conn := s1\<rparr>" using None Direct assms(2) by (auto simp: rc_Read_def)
    have "\<forall>x. e = Some x \<and> x \<noteq> DeadlineExceeded \<longrightarrow> sock_bytes s1 = []" using sock_read_bytes(5) [OF r] c' by blast
    then show ?thesis using sock_read_bytes(1-4) [OF r] assms(1) None Direct
      by (auto simp: c' read_ok_def rc_content_def rc_sound_def rc_good_def sock_good_def)
  next
    case (Pending h)
    then show ?thesis using None assms pending_read_ok by (simp add: rc_Read_def)
  next
    case (Multi rs)
    then have "reader_read k c = ((d, e), c')" using None assms(2) by (simp add: rc_Read_def)
    from multi_reader_read [OF assms(1) None Multi this] show ?thesis
      using None by (auto simp: read_ok_def rc_sound_def)
  qed
qed

interpretation wrapped: byte_reader rc_Read rc_content rc_good rc_sound
  using rc_Read_ok by unfold_locales (auto simp: read_ok_def)

lemma readOpening_bytes:
  assumes "readOpening now s = ((h, e), s')" and "sock_good s"
  shows "sock_bytes s = h @ sock_bytes s'" and "sock_good s'" and "writeErr s' = writeErr s"
    and "e = None \<Longrightarrow> \<not> undecided h" and "length h \<le> 32"
    and "e = Some x \<Longrightarrow> x \<noteq> DeadlineExceeded \<Longrightarrow> sock_bytes s' = []"
proof -
  obtain h1 e1 s1 where r1: "readHead [] (sock_SetReadDeadline (now 0 + readInfoTimeout) s) = ((h1, e1), s1)" by (metis surj_pair)
  note b1 = readHead_bytes [OF r1, simplified, OF assms(2)]
  have "sock_bytes s = h @ sock_bytes s' \<and> sock_good s' \<and> writeErr s' = writeErr s \<and> (e = None \<longrightarrow> \<not> undecided h)
      \<and> length h \<le> 32 \<and> (\<forall>x. e = Some x \<and> x \<noteq> DeadlineExceeded \<longrightarrow> sock_bytes s' = [])"
  proof (cases "e1 = Some DeadlineExceeded \<and> h1 \<noteq> []")
    case True
    then have r2: "readHead h1 (sock_SetReadDeadline (now 1 + readInfoTimeout) s1) = ((h, e), s')"
      using assms(1) r1 by (simp add: readOpening_def)
    have g1: "sock_good s1" and len: "length h1 \<le> 32"
      using b1 assms(2) by (auto simp: sock_good_def sock_SetReadDeadline_def)
    note b2 = readHead_bytes [OF r2, simplified, OF g1 len]
    have "sock_good s'" using b2 g1 by (simp add: sock_good_def sock_SetReadDeadline_def)
    moreover have "sock_bytes s = h @ sock_bytes s'" using b1 b2 by simp
    moreover have "writeErr s' = writeErr s" using b1 b2 by simp
    ultimately show ?thesis using b2 by blast
  next
    case False
    then have "h = h1" "e = e1" "s' = s1" using assms(1) r1 by (auto simp: readOpening_def)
    then show ?thesis using b1 assms(2) by (auto simp: sock_good_def sock_SetReadDeadline_def)
  qed
  then show "sock_bytes s = h @ sock_bytes s'" and "sock_good s'" and "writeErr s' = writeErr s"
    and "e = None \<Longrightarrow> \<not> undecided h" and "length h \<le> 32"
    and "e = Some x \<Longrightarrow> x \<noteq> DeadlineExceeded \<Longrightarrow> sock_bytes s' = []" by auto
qed

lemma empty_payload: "payload [] = []"
  by (simp add: payload_def matchMarker_def clientInfoPrefix_def legacyClientInfoPrefix_def)

lemma rc_deadline [simp]:
  "rc_good (c\<lparr>rc_conn := sock_SetReadDeadline t (rc_conn c)\<rparr>) = rc_good c"
  "rc_content (c\<lparr>rc_conn := sock_SetReadDeadline t (rc_conn c)\<rparr>) = rc_content c"
  "rc_sound (c\<lparr>rc_conn := sock_SetReadDeadline t (rc_conn c)\<rparr>) = rc_sound c"
  by (auto simp: rc_good_def rc_content_def rc_sound_def split: reader.splits)

text \<open>What the server has of a stream \<open>x\<close> when it starts to relay it.\<close>

definition opened :: "string \<Rightarrow> readConn \<Rightarrow> bool" where
  "opened x c \<longleftrightarrow> rc_good c \<and> prefix (rc_content c) (payload x) \<and> (rc_sound c \<longrightarrow> rc_content c = payload x)
     \<and> (rc_info c \<noteq> noInfo \<longrightarrow> fst (matchMarker x) \<noteq> '''' \<and> frame_of x = Some (rc_info c, payload x))"

lemma routed_opened:
  assumes "RoutedConnection now m inbound outbound s = Wrapped c" and "sock_good s"
  shows "opened (sock_bytes s) c"
proof -
  let ?c0 = "\<lparr>rc_conn = s, rc_reader = Direct, rc_info = noInfo, rc_readErr = None\<rparr>"
  obtain h err s1 where o: "readOpening now s = ((h, err), s1)" by (metis surj_pair)
  note b = readOpening_bytes [OF o assms(2)]
  obtain i e c1 where r: "readInfo now ?c0 = ((i, e), c1)" by (metis surj_pair)
  then have c: "c = c1\<lparr>rc_info := i\<rparr>" using assms(1) by (auto simp: RoutedConnection_def split: if_splits)
  show ?thesis
  proof (cases "err = Some DeadlineExceeded")
    case True
    then have "i = noInfo" "c1 = ?c0\<lparr>rc_conn := sock_SetReadDeadline 0 s1, rc_reader := Pending h\<rparr>"
      using r o by (auto simp: readInfo_def Let_def)
    then show ?thesis using b by (simp add: c opened_def rc_good_def rc_content_def rc_sound_def)
  next
    case False
    show ?thesis
    proof (cases "h = []")
      case True
      then have e: "err \<noteq> None" using b(4) by (auto simp: undecided_def isProperPrefix_def clientInfoPrefix_def)
      then have "sock_bytes s = []" using True False b(1,6) by auto
      moreover have "i = noInfo" "c1 = ?c0\<lparr>rc_conn := sock_SetReadDeadline 0 s1, rc_readErr := err\<rparr>"
        using r o True False by (auto simp: readInfo_def Let_def)
      ultimately show ?thesis using b(2) e by (simp add: c opened_def rc_good_def rc_content_def empty_payload)
    next
      case nonempty: False
      let ?c2 = "?c0\<lparr>rc_conn := sock_SetReadDeadline (now 2 + readInfoTimeout) s1\<rparr>"
      obtain e3 c3 where ch: "consumeHead h ?c2 = ((i, e3), c3)" "c1 = c3\<lparr>rc_conn := sock_SetReadDeadline 0 (rc_conn c3)\<rparr>"
        using r o False nonempty by (auto simp: readInfo_def Let_def split: prod.splits)
      have "\<not> undecided h \<or> sock_bytes (rc_conn ?c2) = []" using b(4,6) False by (cases err) auto
      moreover have "rc_good ?c2" using b(2) by (simp add: rc_good_def)
      ultimately have con: "consumed (sock_bytes s) ?c2 i e3 c3"
        using consumeHead_consumed [OF _ _ _ ch(1)] b(1) by simp
      have inf: "rc_good (c1\<lparr>rc_info := j\<rparr>) = rc_good c3" "rc_content (c1\<lparr>rc_info := j\<rparr>) = rc_content c3"
        "rc_sound (c1\<lparr>rc_info := j\<rparr>) = rc_sound c3" for j
        using ch(2) by (auto simp: rc_good_def rc_content_def rc_sound_def split: reader.splits)
      show ?thesis using con
        by (cases e3) (auto simp: c opened_def inf consumed_def rc_content_def [of c3] rc_sound_def [of c3])
    qed
  qed
qed

text \<open>A connection whose stream is classified relays it without fail.\<close>

interpretation relayed: byte_reader rc_Read rc_content
  "\<lambda>c. rc_good c \<and> rc_readErr c = None \<and> (\<exists>rs. rc_reader c = Multi rs)" "\<lambda>_. True"
proof (unfold_locales, goal_cases)
  case (1 c k d e c')
  then show ?case using multi_reader_read [of c _ k d e c'] by (auto simp: rc_Read_def)
next
  case (2 c k d e c')
  then show ?case using multi_reader_read [of c _ k d e c'] by (auto simp: rc_Read_def)
next
  case (3 c k d e c')
  then show ?case using multi_reader_read [of c _ k d e c'] by (auto simp: rc_Read_def)
next
  case (4 c k d x c')
  then show ?case using multi_reader_read [of c _ k d "Some x" c'] by (auto simp: rc_Read_def)
qed

section \<open>The client's frame\<close>

definition valid_info :: "ClientInfo \<Rightarrow> bool" where
  "valid_info i \<longleftrightarrow> valid_utf8 (DeviceID i) \<and> valid_utf8 (Platform i) \<and> valid_utf8 (CountryCode i) \<and> valid_utf8 (Version i)"

lemma jrun_member:
  assumes "st = SBeginString \<or> st = SBeginStringOrEmpty"
    and "jrun (SBeginValue, [InValue ms (appendString k)]) t = Some (SEndValue v, [InValue ms (appendString k)])"
  shows "jrun (st, [InKey ms]) (member_text k t) = Some (SEndValue v, [InValue ms (appendString k)])"
proof -
  have "jrun (st, [InKey ms]) (quote k) = Some (SEndValue (JString (appendString k)), [InKey ms])"
    using assms(1) by (intro jrun_quote) auto
  then show ?thesis using assms(2) by (simp add: member_text_def jrun_append stateEndValue_def isSpace_def)
qed

lemma jrun_bool: "jrun (SBeginValue, stk) (bool_text b) = Some (SEndValue (JBool b), stk)"
  by (simp add: bool_text_def stateBeginValue_def isSpace_def) (cases stk; simp)

lemma jrun_comma: "jrun (SEndValue v, [InValue ms k]) '','' = Some (SBeginString, [InKey (ms @ [(k, v)])])"
  by (simp add: stateEndValue_def isSpace_def)

definition marshalled :: "ClientInfo \<Rightarrow> json" where
  "marshalled i = JObject
     [(appendString ''DeviceID'', JString (appendString (DeviceID i))),
      (appendString ''Platform'', JString (appendString (Platform i))),
      (appendString ''IsPro'', JBool (IsPro i)),
      (appendString ''CountryCode'', JString (appendString (CountryCode i))),
      (appendString ''Version'', JString (appendString (Version i)))]"

definition marshal_open :: "ClientInfo \<Rightarrow> string" where
  "marshal_open i =
     ''{'' @ member_text ''DeviceID'' (quote (DeviceID i)) @ '',''
     @ member_text ''Platform'' (quote (Platform i)) @ '',''
     @ member_text ''IsPro'' (bool_text (IsPro i)) @ '',''
     @ member_text ''CountryCode'' (quote (CountryCode i)) @ '',''
     @ member_text ''Version'' (quote (Version i))"

lemma marshalInfo_eq: "marshalInfo i = marshal_open i @ ''}''"
  by (simp add: marshalInfo_def marshal_open_def)

lemma jrun_marshal:
  "jrun (SBeginValue, []) (marshal_open i) = Some (SEndValue (JString (appendString (Version i))),
     [InValue [(appendString ''DeviceID'', JString (appendString (DeviceID i))),
      (appendString ''Platform'', JString (appendString (Platform i))),
      (appendString ''IsPro'', JBool (IsPro i)),
      (appendString ''CountryCode'', JString (appendString (CountryCode i)))] (appendString ''Version'')])"
proof -
  have open_: "jrun (SBeginValue, []) ''{'' = Some (SBeginStringOrEmpty, [InKey []])"
    by (simp add: stateBeginValue_def isSpace_def pushParseState_def maxNestingDepth_def)
  show ?thesis
    unfolding marshal_open_def jrun_append
    by (simp add: open_ jrun_member jrun_bool jrun_comma jrun_quote del: jrun.simps(2))
qed

lemma scan_marshalInfo:
  "readValue SBeginValue [] (marshalInfo i @ r) = Complete (marshalled i) r"
  "list_all isSpace r \<Longrightarrow> checkValid SBeginValue [] (marshalInfo i @ r) = Some (marshalled i)"
proof -
  show "readValue SBeginValue [] (marshalInfo i @ r) = Complete (marshalled i) r"
    unfolding marshalInfo_eq append_assoc readValue_run [OF jrun_marshal]
    by (simp add: stateEndValue_def isSpace_def marshalled_def)
  assume "list_all isSpace r"
  then show "checkValid SBeginValue [] (marshalInfo i @ r) = Some (marshalled i)"
    unfolding marshalInfo_eq append_assoc checkValid_run [OF jrun_marshal]
    by (cases r) (simp_all add: stateEndValue_def isSpace_def marshalled_def)
qed

lemma field_names: "unquote (appendString (fieldName f)) = Some (fieldName f)" "fieldOf (fieldName f) = Some f"
proof -
  have "valid_utf8 (fieldName f)" by (cases f) simp_all
  then show "unquote (appendString (fieldName f)) = Some (fieldName f)" by (rule unquote_appendString)
  show "fieldOf (fieldName f) = Some f" by (cases f) (simp_all add: fieldOf_def)
qed

lemma decodeInfo_marshalled:
  assumes "valid_info i"
  shows "decodeInfo (marshalled i) = Some i"
proof -
  note names = field_names [of FDeviceID] field_names [of FPlatform] field_names [of FIsPro] field_names [of FCountryCode]
    field_names [of FVersion]
  show ?thesis
    using assms names [unfolded fieldName.simps]
    by (simp add: marshalled_def valid_info_def unquote_appendString noInfo_def)
qed

lemma frame_of_payload:
  assumes "valid_info i"
  shows "frame_of (encodePayload False i @ r) = Some (i, r)" and "fst (matchMarker (encodePayload b j @ r)) = clientInfoPrefix"
    and "frame_of (encodePayload True i @ r) = Some (noInfo, r)"
proof -
  show m: "fst (matchMarker (encodePayload b j @ r)) = clientInfoPrefix" for b j
    by (simp add: matchMarker_def encodePayload_def probePayload_def)
  show "frame_of (encodePayload False i @ r) = Some (i, r)"
    using decodeInfo_marshalled [OF assms] by (simp add: frame_of_def m) (simp add: encodePayload_def scan_marshalInfo)
  have "readValue SBeginValue [] (''{}'' @ r) = Complete (JObject []) r"
    by (simp add: stateBeginValue_def isSpace_def pushParseState_def maxNestingDepth_def)
  then show "frame_of (encodePayload True i @ r) = Some (noInfo, r)"
    by (simp add: frame_of_def m) (simp add: encodePayload_def probePayload_def)
qed

section \<open>A stream without time-outs is attributed\<close>

definition timely :: "sock \<Rightarrow> bool" where
  "timely s \<longleftrightarrow> sock_good s \<and> list_all (\<lambda>p. \<not> snd p) (incoming s)"

lemma sock_read_timely:
  "timely s \<Longrightarrow> sock_read k s = ((d, e), s') \<Longrightarrow> timely s' \<and> e \<noteq> Some DeadlineExceeded"
  by (auto simp: timely_def sock_good_def sock_read_def split: list.splits if_splits)

lemma readHeadLoop_timely:
  "timely s \<Longrightarrow> readHeadLoop h s = ((h', e), s') \<Longrightarrow> timely s' \<and> e \<noteq> Some DeadlineExceeded"
proof (induction h s rule: readHeadLoop.induct)
  case (1 h s)
  obtain m e1 s1 where r: "sock_read (32 - length h) s = ((m, e1), s1)" by (metis surj_pair)
  show ?case
    using 1(2,3) r sock_read_timely [OF 1(2) r] 1(1) [OF _ r [symmetric] refl]
    by (cases e1) (auto simp: readHeadLoop.simps [of h s] split: if_splits)
qed

lemma multi_read_timely:
  "timely s \<Longrightarrow> multi_read k rs s = ((d, e), rs', s') \<Longrightarrow> timely s' \<and> e \<noteq> Some DeadlineExceeded"
proof (induction k rs s rule: multi_read.induct)
  case (3 k rs s)
  obtain d0 e0 s0 where r: "sock_read k s = ((d0, e0), s0)" by (metis surj_pair)
  show ?case using 3(2,3) r sock_read_timely [OF 3(2) r] 3(1) [OF r [symmetric] refl] by (auto split: if_splits)
qed (auto split: if_splits)

lemma decodeLoop_timely:
  "timely s \<Longrightarrow> decodeLoop len free nonSpace st stk rs s \<noteq> DecodeErr DeadlineExceeded s'"
proof (induction len free nonSpace st stk rs s rule: decodeLoop.induct)
  case (1 len free nonSpace st stk rs s)
  obtain d e rs1 s1 where r: "multi_read (refill len free) rs s = ((d, e), rs1, s1)" by (metis surj_pair)
  note t = multi_read_timely [OF 1(2) r]
  show ?case
  proof (cases "readValue st stk d")
    case (Partial st' stk')
    show ?thesis
    proof (cases e)
      case None
      then show ?thesis using 1(1) [OF r [symmetric] refl refl Partial None] t r Partial
        by (simp add: decodeLoop.simps [of len free nonSpace st stk rs s])
    next
      case (Some x)
      then show ?thesis using t r Partial
        by (auto simp: decodeLoop.simps [of len free nonSpace st stk rs s] split: jresult.splits)
    qed
  qed (use r in \<open>simp_all add: decodeLoop.simps [of len free nonSpace st stk rs s]\<close>)
qed

lemma timely_deadline [simp]: "timely (sock_SetReadDeadline t s) = timely s"
  by (simp add: timely_def sock_good_def sock_SetReadDeadline_def)

text \<open>A frame that came whole is decoded: with no time-out the decoder cannot fail on it.\<close>

lemma consumeHead_timely:
  assumes "timely (rc_conn c)" and "rc_readErr c = None" and "rc_good c" and ud: "\<not> undecided h \<or> sock_bytes (rc_conn c) = []"
    and ch: "consumeHead h c = ((i, e), c')"
    and marker: "fst (matchMarker h) = clientInfoPrefix"
    and fr: "first_value (drop (length clientInfoPrefix) (h @ sock_bytes (rc_conn c))) = Complete v r" "decodeInfo v = Some j"
  shows "e = None \<and> i = j"
proof -
  let ?rs = "[Bytes (drop (length clientInfoPrefix) h), Stream]"
  have len: "length clientInfoPrefix \<le> length h" using marker marker_length [of h] by simp
  have post: "decode_post (first_value (content ?rs (rc_conn c))) (rc_conn c) (decode_stream ?rs (rc_conn c))"
    unfolding decode_stream_def using decodeLoop_post [of ?rs "rc_conn c"] assms(1) by (simp add: timely_def)
  have mm: "matchMarker h = (clientInfoPrefix, False)" using marker by (auto simp: matchMarker_def legacyClientInfoPrefix_def clientInfoPrefix_def split: if_splits)
  show ?thesis
  proof (cases "decode_stream ?rs (rc_conn c)")
    case (DecodeErr x s)
    then have "x \<noteq> DeadlineExceeded" using decodeLoop_timely [OF assms(1)] by (auto simp: decode_stream_def)
    then show ?thesis using post DecodeErr fr(1) len by simp
  next
    case (Decoded v' b rs s)
    then have "v' = v" using post fr(1) len by simp
    then show ?thesis using ch mm Decoded fr(2) by (simp add: consumeHead_def clientInfoPrefix_def)
  qed
qed

lemma routed_timely:
  assumes "RoutedConnection now m inbound outbound s = Wrapped c" and t: "timely s"
    and x: "sock_bytes s = clientInfoPrefix @ x" and fr: "first_value x = Complete v r" "decodeInfo v = Some j"
  shows "rc_info c = j \<and> rc_readErr c = None \<and> (\<exists>rs. rc_reader c = Multi rs)"
proof -
  let ?c0 = "\<lparr>rc_conn = s, rc_reader = Direct, rc_info = noInfo, rc_readErr = None\<rparr>"
  have good: "sock_good s" using t by (simp add: timely_def)
  obtain h err s1 where o: "readOpening now s = ((h, err), s1)" by (metis surj_pair)
  note b = readOpening_bytes [OF o good]
  have t1: "timely s1" "err \<noteq> Some DeadlineExceeded"
    using o t by (auto simp: readOpening_def readHead_def split: prod.splits if_splits dest!: readHeadLoop_timely [rotated])
  have ud: "\<not> undecided h \<or> sock_bytes s1 = []" using b(4,6) t1(2) by (cases err) auto
  then have "matchMarker (sock_bytes s) = matchMarker h" using b(1) matchMarker_append by auto
  then have marker: "fst (matchMarker h) = clientInfoPrefix" using x by (simp add: matchMarker_def)
  then have ne: "h \<noteq> []" using marker_length [of h] by (auto simp: clientInfoPrefix_def)
  let ?c2 = "?c0\<lparr>rc_conn := sock_SetReadDeadline (now 2 + readInfoTimeout) s1\<rparr>"
  obtain i e3 c3 where ch: "consumeHead h ?c2 = ((i, e3), c3)" by (metis surj_pair)
  have d: "drop (length clientInfoPrefix) (h @ sock_bytes (rc_conn ?c2)) = x"
    using b(1) x by (metis append_eq_conv_conj bytes_updates(1) readConn.select_convs(1) readConn.update_convs(1))
  have g: "rc_good ?c2" using b(2) by (simp add: rc_good_def)
  have u2: "\<not> undecided h \<or> sock_bytes (rc_conn ?c2) = []" using ud by simp
  have "e3 = None \<and> i = j"
    by (rule consumeHead_timely [OF _ _ g u2 ch marker, of v r]) (use t1 d fr in \<open>simp_all\<close>)
  moreover have "rc_readErr c3 = e3 \<and> (e3 = None \<longrightarrow> (\<exists>rs. rc_reader c3 = Multi rs))"
    using consumeHead_consumed [OF g _ u2 ch] by (auto simp: consumed_def split: option.splits)
  moreover have "c = c3\<lparr>rc_conn := sock_SetReadDeadline 0 (rc_conn c3), rc_info := i\<rparr>"
    using assms(1) o ne t1(2) ch by (auto simp: RoutedConnection_def readInfo_def Let_def split: if_splits)
  ultimately show ?thesis by simp
qed

section \<open>What the client writes\<close>

text \<open>The writes of a client, each with what the connection below makes of it, and the bytes reported as
  written.\<close>

fun fc_writes :: "(string \<times> nat \<times> rerr option) list \<Rightarrow> frameConn \<Rightarrow> string \<times> frameConn" where
  "fc_writes [] c = ([], c)"
| "fc_writes ((b, n, err) # ws) c =
     (case fc_Write b n err c of
        ((m, _), c') \<Rightarrow> (case fc_writes ws c' of (rest, c'') \<Rightarrow> (take m b @ rest, c'')))"

definition fc_inv :: "string \<Rightarrow> string \<Rightarrow> frameConn \<Rightarrow> bool" where
  "fc_inv f out c \<longleftrightarrow>
     (if sent c then carried (fc_conn c) = f @ out \<and> frame c = []
      else out = [] \<and> carried (fc_conn c) @ frame c = f)"

lemma fc_Write_inv:
  assumes "fc_inv f out c" and "fc_Write b n err c = ((m, e), c')"
  shows "fc_inv f (out @ take m b) c'"
proof (cases "sent c")
  case True
  then show ?thesis using assms by (auto simp: fc_inv_def fc_Write_def inner_write_def Let_def)
next
  case False
  then show ?thesis using assms
    by (auto simp: fc_inv_def fc_Write_def inner_write_def Let_def min_def split: if_splits)
qed

lemma fc_writes_inv: "fc_inv f out c \<Longrightarrow> fc_writes ws c = (rest, c') \<Longrightarrow> fc_inv f (out @ rest) c'"
proof (induction ws arbitrary: out c rest)
  case (Cons w ws)
  obtain b n err where w: "w = (b, n, err)" by (metis prod_cases3)
  obtain m e c1 where r: "fc_Write b n err c = ((m, e), c1)" by (metis surj_pair)
  obtain rest' c2 where q: "fc_writes ws c1 = (rest', c2)" by (metis surj_pair)
  then have "rest = take m b @ rest'" "c' = c2" using Cons.prems(2) w r by auto
  then show ?case using Cons.IH [OF fc_Write_inv [OF Cons.prems(1) r], of rest'] q by simp
qed simp

lemma fc_new_inv: "carried conn = [] \<Longrightarrow> fc_inv f [] (newFrameConn conn f)"
  by (simp add: fc_inv_def newFrameConn_def)

section \<open>Packets\<close>

fun rp_reads :: "nat \<Rightarrow> readPacketConn \<Rightarrow> (readFailure + datagram) list" where
  "rp_reads 0 c = []"
| "rp_reads (Suc n) c = (case rp_ReadPacket c of (r, c') \<Rightarrow> r # rp_reads n c')"

text \<open>The datagrams the destination is to get.\<close>

fun is_frame :: "readFailure + datagram \<Rightarrow> bool" where
  "is_frame (Inl _) = False"
| "is_frame (Inr (_, data)) = (fst (matchMarker data) \<noteq> '''')"

lemma skipFrames_visible: "filter (\<lambda>p. \<not> is_frame p) (skipFrames ps) = filter (\<lambda>p. \<not> is_frame p) ps"
  by (induction ps rule: skipFrames.induct) auto

lemma skipFrames_hd: "skipFrames ps = p # qs \<Longrightarrow> \<not> is_frame p"
  by (induction ps rule: skipFrames.induct) (auto split: if_splits)

lemma rp_reads_failed: "rp_readErr c = Some e \<Longrightarrow> rp_reads n c = replicate n (Inl (rp_destination c, e))"
  by (induction n) (simp_all add: rp_ReadPacket_def)

lemma rp_reads_visible:
  "rp_readErr c = None \<Longrightarrow>
   rp_reads n c = take n (filter (\<lambda>p. \<not> is_frame p) (packets (rp_conn c)) @ replicate n (Inl (pk_ending (rp_conn c))))"
proof (induction n arbitrary: c)
  case (Suc n)
  let ?ps = "skipFrames (packets (rp_conn c))"
  show ?case
  proof (cases ?ps)
    case Nil
    then have "filter (\<lambda>p. \<not> is_frame p) (packets (rp_conn c)) = []" using skipFrames_visible by (metis filter.simps(1))
    then show ?thesis using Suc Nil by (simp add: rp_ReadPacket_def packet_read_def)
  next
    case (Cons p qs)
    then have v: "filter (\<lambda>p. \<not> is_frame p) (packets (rp_conn c)) = p # filter (\<lambda>p. \<not> is_frame p) qs"
      using skipFrames_visible [of "packets (rp_conn c)"] skipFrames_hd by fastforce
    have "take n (xs @ replicate n y) = take n (xs @ y # replicate n y)" for xs and y :: "readFailure + datagram"
      by (simp add: replicate_append_same [symmetric] take_Cons' flip: replicate_Suc append_Cons)
    then show ?thesis using Suc Cons v by (simp add: rp_ReadPacket_def packet_read_def)
  qed
qed simp

section \<open>Properties\<close>

text \<open>C21: whatever the reads of a routed connection give and however they are cut, the destination gets a
  prefix of the stream without its frame (all of a stream that starts with no marker). It has got all of
  it once a read ends with an error that is no time-out, unless a time-out cut the frame itself or the ack to
  a legacy sender could not be written. Info is reported only when the stream starts with a
  marker and a frame that holds it.\<close>

theorem stream_restored:
  assumes "ending s \<noteq> DeadlineExceeded"
    and "RoutedConnection now m inbound outbound s = Wrapped c"
    and "read_all rc_Read ks c = ((d, e), c')"
  shows "prefix d (payload (sock_bytes s))
    \<and> (e \<noteq> None \<and> e \<noteq> Some DeadlineExceeded \<and> rc_readErr c' \<noteq> Some DeadlineExceeded \<and> writeErr (rc_conn c') = None
         \<longrightarrow> d = payload (sock_bytes s))
    \<and> (snd (rc_ClientInfo c) \<longrightarrow> fst (matchMarker (sock_bytes s)) \<noteq> ''''
         \<and> frame_of (sock_bytes s) = Some (rc_info c, payload (sock_bytes s)))"
proof -
  have op: "opened (sock_bytes s) c" using assms(1,2) routed_opened by (simp add: sock_good_def)
  then have good: "rc_good c" by (simp add: opened_def)
  have "prefix d (rc_content c)" using wrapped.reads_prefix [OF good assms(3)] by (rule append_prefixD)
  moreover have "rc_sound c' \<Longrightarrow> e = Some x \<Longrightarrow> x \<noteq> DeadlineExceeded \<Longrightarrow> d = rc_content c \<and> rc_sound c" for x
    using wrapped.reads_complete [OF good] wrapped.reads_sound [OF good] assms(3) by blast
  ultimately show ?thesis
    using op by (cases e) (auto simp: opened_def rc_ClientInfo_def rc_sound_def intro: prefix_order.trans)
qed


text \<open>On a packet connection the destination gets every datagram that is no frame, in order and
  unchanged, and never one that starts with a marker; a connection whose first read fails keeps
  failing with that error.\<close>

lemma packets_filtered:
  assumes "RoutedPacketConnection m inbound outbound s = WrappedPacket c"
  shows "rp_reads n c =
    (case packets s of
       Inl e # _ \<Rightarrow> replicate n (Inl e)
     | _ \<Rightarrow> take n (filter (\<lambda>p. \<not> is_frame p) (packets s) @ replicate n (Inl (pk_ending s))))"
proof -
  let ?c0 = "\<lparr>rp_conn = s, rp_info = noInfo, rp_destination = [], rp_readErr = None\<rparr>"
  obtain i e c1 where r: "rp_readInfo ?c0 = ((i, e), c1)" by (metis surj_pair)
  then have c: "c = c1\<lparr>rp_info := i\<rparr>" using assms by (auto simp: RoutedPacketConnection_def split: if_splits)
  show ?thesis
  proof (cases "packets s")
    case Nil
    then have "rp_readErr c = Some (snd (pk_ending s))" "rp_destination c = fst (pk_ending s)"
      using r by (auto simp: c rp_readInfo_def packet_read_def split: prod.splits)
    then show ?thesis using Nil by (simp add: rp_reads_failed)
  next
    case (Cons p ps)
    show ?thesis
    proof (cases p)
      case (Inl f)
      then have "rp_readErr c = Some (snd f)" "rp_destination c = fst f"
        using r Cons by (auto simp: c rp_readInfo_def packet_read_def split: prod.splits)
      then show ?thesis using Cons Inl by (simp add: rp_reads_failed)
    next
      case (Inr dg)
      obtain dst data where dg: "dg = (dst, data)" by (cases dg)
      have "rp_readErr c = None" "pk_ending (rp_conn c) = pk_ending s"
        "packets (rp_conn c) = (if is_frame p then ps else packets s)"
        using r Cons Inr dg
        by (auto simp: c rp_readInfo_def packet_read_def writeAck_def case_prod_unfold Let_def split: if_splits option.splits)
      then show ?thesis using Cons Inr dg by (simp add: rp_reads_visible)
    qed
  qed
qed

section \<open>Examples\<close>

definition exampleInfo :: ClientInfo where
  "exampleInfo = noInfo\<lparr>DeviceID := ''d'', IsPro := True\<rparr>"

definition exampleStream :: "string \<Rightarrow> sock" where
  "exampleStream b = \<lparr>incoming = [(take 20 b, False), (drop 20 b, False)], lastBytes = [], ending = EOF, written = [],
     writeErr = None, readDeadline = 0\<rparr>"

definition exampleBounds :: Manager where
  "exampleBounds = NewManager \<lparr>mb_Inbound = [''any''], mb_Outbound = [''any'']\<rparr>"

definition exampleServed :: readConn where
  "exampleServed = (case RoutedConnection (\<lambda>_. 0) exampleBounds ''in'' ''out''
     (exampleStream (encodePayload False exampleInfo @ ''hello'')) of Wrapped c \<Rightarrow> c)"

lemma exampleServed_routed:
  "RoutedConnection (\<lambda>_. 0) exampleBounds ''in'' ''out'' (exampleStream (encodePayload False exampleInfo @ ''hello''))
     = Wrapped exampleServed"
  by code_simp

lemma exampleServed_reads:
  "fst (read_all rc_Read [8, 8] exampleServed) = (''hello'', Some EOF)"
  by code_simp

theorem stream_restored_witness:
  "RoutedConnection (\<lambda>_. 0) exampleBounds ''in'' ''out'' (exampleStream (encodePayload False exampleInfo @ ''hello''))
     = Wrapped exampleServed
   \<and> fst (read_all rc_Read [8, 8] exampleServed) = (''hello'', Some EOF)
   \<and> prefix ''hello'' (payload (sock_bytes (exampleStream (encodePayload False exampleInfo @ ''hello''))))"
proof -
  obtain c' where r: "read_all rc_Read [8, 8] exampleServed = ((''hello'', Some EOF), c')"
    using exampleServed_reads by (metis prod.collapse)
  have "ending (exampleStream (encodePayload False exampleInfo @ ''hello'')) \<noteq> DeadlineExceeded"
    by (simp add: exampleStream_def)
  from stream_restored [OF this exampleServed_routed r] exampleServed_routed exampleServed_reads show ?thesis by blast
qed

definition exampleFramed :: frameConn where
  "exampleFramed = newFrameConn \<lparr>carried = [], sentTo = [], cc_closed = False\<rparr> (encodePayload False exampleInfo)"


definition examplePackets :: packetSock where
  "examplePackets = \<lparr>packets = [Inr (''dst'', encodePayload False exampleInfo), Inr (''dst'', ''a''), Inr (''dst'', ''CLIENTINFO x'')],
     pk_ending = ([], EOF), acked = [], pk_writeErr = None\<rparr>"

end
