(* ===== verification/Throttle.thy ===== *)
theory Throttle
  imports Box_Prelude Complex_Main
begin

text \<open>
  The throttler of the data cap tracker (\<open>tracker/datacap/throttler.go\<close>, \<open>throttle_registry.go\<close>): two token buckets, one
  for reads and one for writes, that a caller may overdraw and then sleeps off. Tokens are rational numbers
  here where Go has doubles. Everything a bucket lets through by the time a caller returns is within one second's
  worth of bytes plus the rate times the time that passed.
\<close>

section \<open>Buckets\<close>

record bucket =
  tk_rate :: int
  tk_tokens :: rat
  tk_capacity :: rat
  tk_lastRefill :: time

record Throttler =
  th_enabled :: bool
  th_read :: bucket
  th_write :: bucket
  th_released :: nat

definition seconds :: "duration \<Rightarrow> rat" where
  "seconds d = of_int d / of_int second"

definition fullBucket :: "time \<Rightarrow> int \<Rightarrow> bucket" where
  "fullBucket now rate = \<lparr>tk_rate = rate, tk_tokens = of_int rate, tk_capacity = of_int rate, tk_lastRefill = now\<rparr>"

definition NewThrottlerWithRates :: "time \<Rightarrow> int \<Rightarrow> int \<Rightarrow> Throttler" where
  "NewThrottlerWithRates now readBytesPerSec writeBytesPerSec =
     \<lparr>th_enabled = (readBytesPerSec > 0 \<or> writeBytesPerSec > 0), th_read = fullBucket now readBytesPerSec,
      th_write = fullBucket now writeBytesPerSec, th_released = 0\<rparr>"

definition NewThrottler :: "time \<Rightarrow> int \<Rightarrow> Throttler" where
  "NewThrottler now bytesPerSec = NewThrottlerWithRates now bytesPerSec bytesPerSec"

definition EnableWithRates :: "time \<Rightarrow> int \<Rightarrow> int \<Rightarrow> Throttler \<Rightarrow> Throttler" where
  "EnableWithRates now readBytesPerSec writeBytesPerSec t =
     t\<lparr>th_enabled := True, th_read := fullBucket now readBytesPerSec, th_write := fullBucket now writeBytesPerSec\<rparr>"

definition newRate :: "int \<Rightarrow> bucket \<Rightarrow> bucket" where
  "newRate rate b =
     (let b = b\<lparr>tk_rate := rate, tk_capacity := of_int rate\<rparr> in
      if tk_tokens b > tk_capacity b then b\<lparr>tk_tokens := tk_capacity b\<rparr> else b)"

definition UpdateRates :: "time \<Rightarrow> int \<Rightarrow> int \<Rightarrow> Throttler \<Rightarrow> Throttler" where
  "UpdateRates now readBytesPerSec writeBytesPerSec t =
     (if \<not> th_enabled t then EnableWithRates now readBytesPerSec writeBytesPerSec t
      else t\<lparr>th_read := newRate readBytesPerSec (th_read t), th_write := newRate writeBytesPerSec (th_write t)\<rparr>)"

text \<open>Closing the channel that the sleepers wait on and making a new one.\<close>

definition Disable :: "Throttler \<Rightarrow> Throttler" where
  "Disable t = t\<lparr>th_enabled := False, th_released := th_released t + 1\<rparr>"

definition bucketOf :: "bool \<Rightarrow> Throttler \<Rightarrow> bucket" where
  "bucketOf isRead t = (if isRead then th_read t else th_write t)"

definition refillBucket :: "time \<Rightarrow> bucket \<Rightarrow> bucket" where
  "refillBucket now b =
     (let tokens = tk_tokens b + seconds (now - tk_lastRefill b) * of_int (tk_rate b) in
      b\<lparr>tk_tokens := (if tokens > tk_capacity b then tk_capacity b else tokens), tk_lastRefill := now\<rparr>)"

definition reserve :: "time \<Rightarrow> int \<Rightarrow> bucket \<Rightarrow> bucket" where
  "reserve now n b = (let b = refillBucket now b in b\<lparr>tk_tokens := tk_tokens b - of_int n\<rparr>)"

text \<open>The sleep of \<open>wait\<close> on the bucket's debt, a whole number of nanoseconds, rounded down.\<close>

definition waitTime :: "bucket \<Rightarrow> duration" where
  "waitTime b = (if tk_tokens b \<ge> 0 then 0 else \<lfloor>- tk_tokens b / of_int (tk_rate b) * of_int second\<rfloor>)"

definition tk_wait :: "time \<Rightarrow> int \<Rightarrow> bool \<Rightarrow> Throttler \<Rightarrow> duration \<times> Throttler" where
  "tk_wait now n isRead t =
     (if n \<le> 0 \<or> \<not> th_enabled t \<or> tk_rate (bucketOf isRead t) \<le> 0 then (0, t)
      else
        let b = reserve now n (bucketOf isRead t) in
        (waitTime b, if isRead then t\<lparr>th_read := b\<rparr> else t\<lparr>th_write := b\<rparr>))"

section \<open>The registry\<close>

record ThrottleRegistry =
  throttlers :: "(string, Throttler) gomap"

definition NewThrottleRegistry :: ThrottleRegistry where
  "NewThrottleRegistry = \<lparr>throttlers = []\<rparr>"

definition GetOrCreate :: "time \<Rightarrow> string \<Rightarrow> ThrottleRegistry \<Rightarrow> Throttler \<times> ThrottleRegistry" where
  "GetOrCreate now deviceID r =
     (case gget (throttlers r) deviceID of
        Some t \<Rightarrow> (t, r)
      | None \<Rightarrow> let t = NewThrottler now 0 in (t, r\<lparr>throttlers := gput deviceID t (throttlers r)\<rparr>))"

definition tr_Count :: "ThrottleRegistry \<Rightarrow> nat" where
  "tr_Count r = length (throttlers r)"

section \<open>The rate holds\<close>

text \<open>Calls one after the other, each with its time and its bytes; the result is when the last one returns.\<close>

fun waits :: "bool \<Rightarrow> (time \<times> int) list \<Rightarrow> time \<Rightarrow> Throttler \<Rightarrow> time \<times> Throttler" where
  "waits isRead [] ret t = (ret, t)"
| "waits isRead ((now, n) # cs) ret t =
     (case tk_wait now n isRead t of (d, t') \<Rightarrow> waits isRead cs (now + d) t')"

definition spent_inv :: "bool \<Rightarrow> time \<Rightarrow> int \<Rightarrow> int \<Rightarrow> Throttler \<Rightarrow> bool" where
  "spent_inv isRead start rate n t \<longleftrightarrow>
     th_enabled t \<and> tk_rate (bucketOf isRead t) = rate \<and> tk_capacity (bucketOf isRead t) = of_int rate
     \<and> tk_tokens (bucketOf isRead t) + of_int n
         \<le> of_int rate + seconds (tk_lastRefill (bucketOf isRead t) - start) * of_int rate"

lemma seconds_add: "seconds (a + b) = seconds a + seconds b"
  by (simp add: seconds_def add_divide_distrib)

lemma reserve_spent:
  assumes "tk_rate b = rate" and "0 < rate" and "0 < n" and "tk_capacity b = of_int rate"
    and "tk_tokens b + of_int m \<le> of_int rate + seconds (tk_lastRefill b - start) * of_int rate"
  shows "tk_tokens (reserve now n b) + of_int (m + n) \<le> of_int rate + seconds (now - start) * of_int rate"
proof -
  have "seconds (now - start) = seconds (tk_lastRefill b - start) + seconds (now - tk_lastRefill b)"
    using seconds_add [of "tk_lastRefill b - start" "now - tk_lastRefill b"] by simp
  then have "tk_tokens b + seconds (now - tk_lastRefill b) * of_int rate + of_int m
      \<le> of_int rate + seconds (now - start) * of_int rate"
    using assms(5) by (simp add: algebra_simps)
  then show ?thesis using assms(1) by (simp add: reserve_def refillBucket_def Let_def)
qed

lemma tk_wait_spent:
  assumes "spent_inv isRead start rate m t" and "0 < rate" and "0 < n" and "tk_wait now n isRead t = (d, t')"
  shows "spent_inv isRead start rate (m + n) t'"
    and "of_int (m + n) \<le> of_int rate + (seconds (now + d - start) + seconds 1) * of_int rate"
proof -
  let ?b = "reserve now n (bucketOf isRead t)"
  have inv: "th_enabled t" "tk_rate (bucketOf isRead t) = rate" "tk_capacity (bucketOf isRead t) = of_int rate"
    using assms(1) by (simp_all add: spent_inv_def)
  have r: "d = waitTime ?b" "bucketOf isRead t' = ?b" "th_enabled t'" "tk_rate ?b = rate" "tk_capacity ?b = of_int rate" "tk_lastRefill ?b = now"
    using assms(2-4) inv by (auto simp: tk_wait_def Let_def bucketOf_def reserve_def refillBucket_def split: if_splits)
  have sp: "tk_tokens ?b + of_int (m + n) \<le> of_int rate + seconds (now - start) * of_int rate"
    using assms(1-3) inv by (intro reserve_spent) (simp_all add: spent_inv_def)
  then show "spent_inv isRead start rate (m + n) t'" using r by (simp add: spent_inv_def)
  have d: "- tk_tokens ?b \<le> (seconds d + seconds 1) * of_int rate"
  proof (cases "tk_tokens ?b \<ge> 0")
    case True
    then have "d = 0" using r by (simp add: waitTime_def)
    then show ?thesis using True assms(2) by (simp add: seconds_def second_def millisecond_def)
  next
    case False
    then have "- tk_tokens ?b / of_int rate * of_int second < of_int d + 1" using r by (simp add: waitTime_def) linarith
    moreover have "(0 :: rat) < of_int second" by (simp add: second_def millisecond_def)
    ultimately show ?thesis using assms(2) by (simp add: seconds_def field_simps)
  qed
  have "seconds (now + d - start) = seconds (now - start) + seconds d" using seconds_add [of "now - start" d] by (simp add: algebra_simps)
  then show "of_int (m + n) \<le> of_int rate + (seconds (now + d - start) + seconds 1) * of_int rate"
    using sp d by (simp add: algebra_simps)
qed

lemma waits_spent:
  assumes "spent_inv isRead start rate m t" and "0 < rate" and "\<forall>(_, n) \<in> set cs. 0 < n" and "waits isRead cs ret t = (ret', t')"
    and "of_int m \<le> of_int rate + (seconds (ret - start) + seconds 1) * of_int rate"
  shows "of_int (m + sum_list (map snd cs)) \<le> of_int rate + (seconds (ret' - start) + seconds 1) * of_int rate"
  using assms
proof (induction cs arbitrary: m t ret)
  case (Cons c cs)
  obtain now n where c: "c = (now, n)" by (cases c)
  obtain d t1 where w: "tk_wait now n isRead t = (d, t1)" by (metis surj_pair)
  have n: "0 < n" using Cons.prems(3) c by auto
  note s = tk_wait_spent [OF Cons.prems(1,2) n w]
  have "of_int (m + n + sum_list (map snd cs)) \<le> of_int rate + (seconds (ret' - start) + seconds 1) * of_int rate"
    using Cons.prems(3,4) c w by (intro Cons.IH [OF s(1) Cons.prems(2) _ _ s(2)]) auto
  then show ?case using c by (simp add: add.assoc)
qed simp



end
