(* ===== verification/Data_Cap.thy ===== *)
theory Data_Cap
  imports Client_Context Throttle
begin

text \<open>
  Usage reports of the data cap tracker (\<open>tracker/datacap\<close>): the per-device counters (\<open>deviceUsage\<close>), the
  connections that count into them (\<open>Conn.Read\<close>, \<open>Conn.Write\<close>, \<open>PacketConn\<close>) and the \<open>Reporter\<close> whose flush
  takes the counters and reports them to the sidecar.

  Entries are shared by pointer, so the state holds them in a list and the map \<open>devices\<close>, the connections and a
  flush refer to them by position. Counters are atomic and are changed while a flush runs: every atomic
  operation of a connection and of a flush is a step of its own, except where two neighbouring ones cannot be
  told apart. A flush holds the reporter's lock while it visits the entries.
\<close>

section \<open>Counters\<close>

datatype trafficSlot = TrafficLantern | TrafficProbe | TrafficOther | TrafficUnknown

definition trafficSlot_of :: "string \<Rightarrow> trafficSlot" where
  "trafficSlot_of category =
     (if category = ''lantern'' then TrafficLantern
      else if category = ''probe'' then TrafficProbe
      else if category = ''other'' then TrafficOther
      else TrafficUnknown)"

record deviceUsage =
  du_deviceID :: string
  du_throttler :: nat
  du_info :: ClientInfo
  du_conns :: int
  du_idle :: bool
  du_uncategorized :: int
  du_trafficBytes :: "trafficSlot \<Rightarrow> int"
  du_trafficConns :: "trafficSlot \<Rightarrow> int"
  du_hasTrafficInfo :: bool

definition slot_sum :: "(trafficSlot \<Rightarrow> int) \<Rightarrow> int" where
  "slot_sum f = f TrafficLantern + f TrafficProbe + f TrafficOther + f TrafficUnknown"

definition pendingBytes :: "deviceUsage \<Rightarrow> int" where
  "pendingBytes d = du_uncategorized d + slot_sum (du_trafficBytes d)"

text \<open>The two atomic operations of \<open>addBytes\<close> and of \<open>addConnection\<close>: the flag, then the counter.\<close>

definition flagTraffic :: "deviceUsage \<Rightarrow> deviceUsage" where
  "flagTraffic d = d\<lparr>du_hasTrafficInfo := True\<rparr>"

definition addBytes :: "int \<Rightarrow> string \<Rightarrow> deviceUsage \<Rightarrow> deviceUsage" where
  "addBytes n category d =
     (if category = '''' then d\<lparr>du_uncategorized := du_uncategorized d + n\<rparr>
      else d\<lparr>du_trafficBytes := (du_trafficBytes d)(trafficSlot_of category := du_trafficBytes d (trafficSlot_of category) + n)\<rparr>)"

definition addConnection :: "string \<Rightarrow> deviceUsage \<Rightarrow> deviceUsage" where
  "addConnection category d =
     d\<lparr>du_trafficConns := (du_trafficConns d)(trafficSlot_of category := du_trafficConns d (trafficSlot_of category) + 1)\<rparr>"

record usageDelta =
  ud_bytes :: int
  ud_uncategorized :: int
  ud_trafficBytes :: "trafficSlot \<Rightarrow> int"
  ud_trafficConns :: "trafficSlot \<Rightarrow> int"
  ud_hasTraffic :: bool

text \<open>\<open>take\<close>, one atomic operation after the other: the uncategorized bytes, then for each slot the bytes and the
  connections, of which at most as many are taken as there are bytes, then the flag. Putting back the held
  connections is part of taking them: no other operation takes or reads that counter.\<close>

definition take_begin :: "deviceUsage \<Rightarrow> usageDelta \<times> deviceUsage" where
  "take_begin d =
     (\<lparr>ud_bytes = du_uncategorized d, ud_uncategorized = du_uncategorized d, ud_trafficBytes = (\<lambda>_. 0),
       ud_trafficConns = (\<lambda>_. 0), ud_hasTraffic = False\<rparr>,
      d\<lparr>du_uncategorized := 0\<rparr>)"

definition take_bytes :: "trafficSlot \<Rightarrow> usageDelta \<times> deviceUsage \<Rightarrow> usageDelta \<times> deviceUsage" where
  "take_bytes s x =
     (let (u, d) = x; n = du_trafficBytes d s in
      (u\<lparr>ud_trafficBytes := (ud_trafficBytes u)(s := n), ud_bytes := ud_bytes u + n\<rparr>,
       d\<lparr>du_trafficBytes := (du_trafficBytes d)(s := 0)\<rparr>))"

definition take_conns :: "trafficSlot \<Rightarrow> usageDelta \<times> deviceUsage \<Rightarrow> usageDelta \<times> deviceUsage" where
  "take_conns s x =
     (let (u, d) = x; conns = du_trafficConns d s in
      if conns > ud_trafficBytes u s
      then (u\<lparr>ud_trafficConns := (ud_trafficConns u)(s := ud_trafficBytes u s)\<rparr>,
            d\<lparr>du_trafficConns := (du_trafficConns d)(s := conns - ud_trafficBytes u s)\<rparr>)
      else (u\<lparr>ud_trafficConns := (ud_trafficConns u)(s := conns)\<rparr>,
            d\<lparr>du_trafficConns := (du_trafficConns d)(s := 0)\<rparr>))"

definition take_flag :: "usageDelta \<times> deviceUsage \<Rightarrow> usageDelta \<times> deviceUsage" where
  "take_flag x = (let (u, d) = x in (u\<lparr>ud_hasTraffic := du_hasTrafficInfo d\<rparr>, d))"

definition du_restore :: "usageDelta \<Rightarrow> deviceUsage \<Rightarrow> deviceUsage" where
  "du_restore u d =
     d\<lparr>du_uncategorized := du_uncategorized d + ud_uncategorized u,
       du_trafficBytes := (\<lambda>s. du_trafficBytes d s + ud_trafficBytes u s),
       du_trafficConns := (\<lambda>s. du_trafficConns d s + ud_trafficConns u s),
       du_hasTrafficInfo := (if ud_hasTraffic u then True else du_hasTrafficInfo d)\<rparr>"

record TrafficUsage =
  LanternBytes :: int
  ProbeBytes :: int
  OtherBytes :: int
  UnknownBytes :: int
  LanternConnections :: int
  ProbeConnections :: int
  OtherConnections :: int
  UnknownConnections :: int

definition trafficUsage :: "usageDelta \<Rightarrow> TrafficUsage option" where
  "trafficUsage u =
     (if \<not> ud_hasTraffic u then None
      else Some
        \<lparr>LanternBytes = ud_trafficBytes u TrafficLantern, ProbeBytes = ud_trafficBytes u TrafficProbe,
         OtherBytes = ud_trafficBytes u TrafficOther, UnknownBytes = ud_trafficBytes u TrafficUnknown,
         LanternConnections = ud_trafficConns u TrafficLantern, ProbeConnections = ud_trafficConns u TrafficProbe,
         OtherConnections = ud_trafficConns u TrafficOther, UnknownConnections = ud_trafficConns u TrafficUnknown\<rparr>)"

record DataCapReport =
  dr_DeviceID :: string
  dr_CountryCode :: string
  dr_Platform :: string
  dr_BytesUsed :: int
  dr_TrafficUsage :: "TrafficUsage option"

section \<open>Throttle states\<close>

text \<open>What a report's status does to a throttler.\<close>

definition defaultUploadSpeedBytesPerSec :: int where
  "defaultUploadSpeedBytesPerSec = 640 * 1024"

definition lowTierSpeedBytesPerSec :: int where
  "lowTierSpeedBytesPerSec = 16 * 1024"

definition updateThrottleState :: "time \<Rightarrow> bool \<Rightarrow> Throttler \<Rightarrow> Throttler" where
  "updateThrottleState now throttle t =
     (if throttle then UpdateRates now defaultUploadSpeedBytesPerSec lowTierSpeedBytesPerSec t else Disable t)"

section \<open>Which connections count\<close>

text \<open>\<open>capped\<close>: the connections of identified free users, from what \<open>InfoFromConn\<close> gives.\<close>

definition capped :: "ClientInfo \<times> bool \<Rightarrow> ClientInfo option" where
  "capped x =
     (let (info, found) = x in
      if \<not> found then None
      else if DeviceID info = '''' then None
      else if IsPro info then None
      else Some info)"

section \<open>Connections and the reporter\<close>

record capConn =
  cp_usage :: nat
  cp_category :: string
  cp_hasRead :: bool
  cp_hasWritten :: bool
  cp_counted :: bool
  cp_closed :: bool

text \<open>A read or a write that moved bytes, between two of its atomic operations. A packet connection goes
  straight to its bytes.\<close>

datatype ioPc = IoMark | IoCheck | IoFlagConn | IoCount | IoFlagBytes | IoAdd

record ioThread =
  io_conn :: nat
  io_bytes :: int
  io_read :: bool
  io_pc :: ioPc

text \<open>Where a flush is: between two entries, within \<open>take\<close> on one, or with its reports out. The slots
  still to be taken start with the one in progress.\<close>

datatype flushPc = FlushIdle
  | FlushScan "(string \<times> nat) list" "(nat \<times> usageDelta) list"
  | FlushTake "(string \<times> nat) list" "(nat \<times> usageDelta) list" nat "trafficSlot list" bool usageDelta
  | FlushSend "(nat \<times> usageDelta) list"

record reporter =
  rp_entries :: "deviceUsage list"
  rp_devices :: "(string, nat) gomap"
  rp_throttlers :: "Throttler list"
  rp_conns :: "capConn list"
  rp_threads :: "ioThread list"
  rp_flush :: flushPc
  rp_sent :: "DataCapReport list"
  rp_acked :: int
  rp_counted :: int
  rp_late :: int

text \<open>The last three are for the statements: the bytes of the reports the sidecar accepted, the bytes counted, and
  those among them that were counted after their connection was closed.\<close>

definition updEntry :: "nat \<Rightarrow> (deviceUsage \<Rightarrow> deviceUsage) \<Rightarrow> reporter \<Rightarrow> reporter" where
  "updEntry i f r = r\<lparr>rp_entries := (rp_entries r)[i := f (rp_entries r ! i)]\<rparr>"

definition NewReporter :: reporter where
  "NewReporter = \<lparr>rp_entries = [], rp_devices = [], rp_throttlers = [], rp_conns = [], rp_threads = [], rp_flush = FlushIdle,
     rp_sent = [], rp_acked = 0, rp_counted = 0, rp_late = 0\<rparr>"

text \<open>\<open>acquire\<close>: \<open>throttler\<close> is the shared one, or none, and then the entry gets a new disabled one.\<close>

definition newEntry :: "ClientInfo \<Rightarrow> nat \<Rightarrow> deviceUsage" where
  "newEntry info thr = \<lparr>du_deviceID = DeviceID info, du_throttler = thr, du_info = info, du_conns = 0, du_idle = False,
     du_uncategorized = 0, du_trafficBytes = (\<lambda>_. 0), du_trafficConns = (\<lambda>_. 0), du_hasTrafficInfo = False\<rparr>"

definition newThrottlerAt :: "nat option \<Rightarrow> time \<Rightarrow> reporter \<Rightarrow> nat \<times> reporter" where
  "newThrottlerAt throttler now r =
     (case throttler of
        Some t \<Rightarrow> (t, r)
      | None \<Rightarrow> (length (rp_throttlers r), r\<lparr>rp_throttlers := rp_throttlers r @ [NewThrottler now 0]\<rparr>))"

definition acquire :: "ClientInfo \<Rightarrow> nat option \<Rightarrow> time \<Rightarrow> reporter \<Rightarrow> nat \<times> reporter" where
  "acquire info throttler now r =
     (let (i, r) =
        (case gget (rp_devices r) (DeviceID info) of
           Some i \<Rightarrow> (i, r)
         | None \<Rightarrow>
             let (thr, r) = newThrottlerAt throttler now r; i = length (rp_entries r) in
             (i, r\<lparr>rp_entries := rp_entries r @ [newEntry info thr], rp_devices := gput (DeviceID info) i (rp_devices r)\<rparr>))
      in (i, updEntry i (\<lambda>d. d\<lparr>du_info := info, du_conns := du_conns d + 1\<rparr>) r))"

definition release :: "nat \<Rightarrow> reporter \<Rightarrow> reporter" where
  "release i = updEntry i (\<lambda>d. d\<lparr>du_conns := du_conns d - 1\<rparr>)"

definition cap_NewConn :: "string \<Rightarrow> ClientInfo \<Rightarrow> nat option \<Rightarrow> time \<Rightarrow> reporter \<Rightarrow> reporter" where
  "cap_NewConn category info throttler now r =
     (let (i, r) = acquire info throttler now r in
      r\<lparr>rp_conns := rp_conns r @ [\<lparr>cp_usage = i, cp_category = category, cp_hasRead = False, cp_hasWritten = False,
          cp_counted = False, cp_closed = False\<rparr>]\<rparr>)"

definition cap_NewPacketConn :: "bool \<Rightarrow> ClientInfo \<Rightarrow> nat option \<Rightarrow> time \<Rightarrow> reporter \<Rightarrow> reporter" where
  "cap_NewPacketConn trafficCategories = cap_NewConn (if trafficCategories then ''unknown'' else '''')"

definition cap_Close :: "nat \<Rightarrow> reporter \<Rightarrow> reporter" where
  "cap_Close c r =
     (if cp_closed (rp_conns r ! c) then r
      else release (cp_usage (rp_conns r ! c)) (r\<lparr>rp_conns := (rp_conns r)[c := (rp_conns r ! c)\<lparr>cp_closed := True\<rparr>]\<rparr>))"

text \<open>\<open>Conn.Read\<close> and \<open>Conn.Write\<close> once the connection below has moved \<open>n\<close> bytes, \<open>0 < n\<close>: a connection with no
  category only adds its bytes. \<open>ReadPacket\<close> and \<open>WritePacket\<close> do not count connections.\<close>

definition io_start :: "nat \<Rightarrow> int \<Rightarrow> bool \<Rightarrow> reporter \<Rightarrow> reporter" where
  "io_start c n isRead r =
     r\<lparr>rp_threads := rp_threads r @ [\<lparr>io_conn = c, io_bytes = n, io_read = isRead,
         io_pc = (if cp_category (rp_conns r ! c) = '''' then IoAdd else IoMark)\<rparr>]\<rparr>"

definition packet_start :: "nat \<Rightarrow> int \<Rightarrow> bool \<Rightarrow> reporter \<Rightarrow> reporter" where
  "packet_start c n isRead r =
     r\<lparr>rp_threads := rp_threads r @ [\<lparr>io_conn = c, io_bytes = n, io_read = isRead,
         io_pc = (if cp_category (rp_conns r ! c) = '''' then IoAdd else IoFlagBytes)\<rparr>]\<rparr>"

definition toPc :: "nat \<Rightarrow> ioPc \<Rightarrow> reporter \<Rightarrow> reporter" where
  "toPc t pc r = r\<lparr>rp_threads := (rp_threads r)[t := (rp_threads r ! t)\<lparr>io_pc := pc\<rparr>]\<rparr>"

definition updConn :: "nat \<Rightarrow> (capConn \<Rightarrow> capConn) \<Rightarrow> reporter \<Rightarrow> reporter" where
  "updConn c f r = r\<lparr>rp_conns := (rp_conns r)[c := f (rp_conns r ! c)]\<rparr>"

definition io_next :: "nat \<Rightarrow> reporter \<Rightarrow> reporter" where
  "io_next t r =
     (let th = rp_threads r ! t; c = io_conn th; conn = rp_conns r ! c; i = cp_usage conn in
      case io_pc th of
        IoMark \<Rightarrow>
          toPc t IoCheck (updConn c (\<lambda>k. if io_read th then k\<lparr>cp_hasRead := True\<rparr> else k\<lparr>cp_hasWritten := True\<rparr>) r)
      | IoCheck \<Rightarrow>
          if cp_hasRead conn \<and> cp_hasWritten conn \<and> \<not> cp_counted conn
          then toPc t IoFlagConn (updConn c (\<lambda>k. k\<lparr>cp_counted := True\<rparr>) r)
          else toPc t IoFlagBytes r
      | IoFlagConn \<Rightarrow> toPc t IoCount (updEntry i flagTraffic r)
      | IoCount \<Rightarrow> toPc t IoFlagBytes (updEntry i (addConnection (cp_category conn)) r)
      | IoFlagBytes \<Rightarrow> toPc t IoAdd (updEntry i flagTraffic r)
      | IoAdd \<Rightarrow>
          let r = updEntry i (addBytes (io_bytes th) (cp_category conn)) r in
          r\<lparr>rp_threads := take t (rp_threads r) @ drop (Suc t) (rp_threads r),
            rp_counted := rp_counted r + io_bytes th,
            rp_late := rp_late r + (if cp_closed conn then io_bytes th else 0)\<rparr>)"

section \<open>A flush\<close>

definition allSlots :: "trafficSlot list" where
  "allSlots = [TrafficLantern, TrafficProbe, TrafficOther, TrafficUnknown]"

definition flush_begin :: "((string, nat) gomap \<Rightarrow> (string, nat) gomap) \<Rightarrow> reporter \<Rightarrow> reporter" where
  "flush_begin order r = r\<lparr>rp_flush := FlushScan (gorange order (rp_devices r)) []\<rparr>"

text \<open>The visit of an entry: whether it is idle, and the start of \<open>take\<close>.\<close>

definition visitIdle :: "string \<Rightarrow> nat \<Rightarrow> reporter \<Rightarrow> reporter" where
  "visitIdle dev i r =
     (let d = rp_entries r ! i in
      if du_conns d > 0 then updEntry i (\<lambda>d. d\<lparr>du_idle := False\<rparr>) r
      else if du_idle d then r\<lparr>rp_devices := gdel dev (rp_devices r)\<rparr>
      else updEntry i (\<lambda>d. d\<lparr>du_idle := True\<rparr>) r)"

definition flush_visit :: "reporter \<Rightarrow> reporter" where
  "flush_visit r =
     (case rp_flush r of
        FlushScan ((dev, i) # todo) reports \<Rightarrow>
          let r = visitIdle dev i r; u = fst (take_begin (rp_entries r ! i)) in
          (updEntry i (\<lambda>d. snd (take_begin d)) r)\<lparr>rp_flush := FlushTake todo reports i allSlots False u\<rparr>
      | FlushScan [] reports \<Rightarrow> r\<lparr>rp_flush := (if reports = [] then FlushIdle else FlushSend reports)\<rparr>
      | _ \<Rightarrow> r)"

text \<open>The flag tells whether the bytes of the slot are taken already.\<close>

definition flush_take :: "reporter \<Rightarrow> reporter" where
  "flush_take r =
     (case rp_flush r of
        FlushTake todo reports i (s # slots) False u \<Rightarrow>
          (updEntry i (\<lambda>d. snd (take_bytes s (u, d))) r)
            \<lparr>rp_flush := FlushTake todo reports i (s # slots) True (fst (take_bytes s (u, rp_entries r ! i)))\<rparr>
      | FlushTake todo reports i (s # slots) True u \<Rightarrow>
          (updEntry i (\<lambda>d. snd (take_conns s (u, d))) r)
            \<lparr>rp_flush := FlushTake todo reports i slots False (fst (take_conns s (u, rp_entries r ! i)))\<rparr>
      | FlushTake todo reports i [] _ u \<Rightarrow>
          let u = fst (take_flag (u, rp_entries r ! i)) in
          r\<lparr>rp_flush := FlushScan todo (if ud_bytes u > 0 then reports @ [(i, u)] else reports)\<rparr>
      | _ \<Rightarrow> r)"

definition reportOf :: "deviceUsage \<Rightarrow> usageDelta \<Rightarrow> DataCapReport" where
  "reportOf d u = \<lparr>dr_DeviceID = du_deviceID d, dr_CountryCode = CountryCode (du_info d), dr_Platform = Platform (du_info d),
     dr_BytesUsed = ud_bytes u, dr_TrafficUsage = trafficUsage u\<rparr>"

definition rep_restore :: "nat \<Rightarrow> usageDelta \<Rightarrow> reporter \<Rightarrow> reporter" where
  "rep_restore i u r =
     (case gget (rp_devices r) (du_deviceID (rp_entries r ! i)) of
        Some cur \<Rightarrow> updEntry cur (du_restore u) r
      | None \<Rightarrow> updEntry i (du_restore u) (r\<lparr>rp_devices := gput (du_deviceID (rp_entries r ! i)) i (rp_devices r)\<rparr>))"

definition updThrottler :: "nat \<Rightarrow> bool \<times> time \<Rightarrow> reporter \<Rightarrow> reporter" where
  "updThrottler t status r =
     r\<lparr>rp_throttlers := (rp_throttlers r)[t := updateThrottleState (snd status) (fst status) (rp_throttlers r ! t)]\<rparr>"

text \<open>\<open>report\<close>: the sidecar's answer is an error, or whether the device is to be throttled and the time it came.\<close>

definition report :: "nat \<Rightarrow> usageDelta \<Rightarrow> (bool \<times> time) option \<Rightarrow> reporter \<Rightarrow> reporter" where
  "report i u answer r =
     (let d = rp_entries r ! i; r = r\<lparr>rp_sent := rp_sent r @ [reportOf d u]\<rparr> in
      case answer of
        None \<Rightarrow> rep_restore i u r
      | Some status \<Rightarrow>
          let r = updThrottler (du_throttler d) status (r\<lparr>rp_acked := rp_acked r + ud_bytes u\<rparr>) in
          (case gget (rp_devices r) (du_deviceID d) of
             Some cur \<Rightarrow>
               if du_throttler (rp_entries r ! cur) \<noteq> du_throttler d
               then updThrottler (du_throttler (rp_entries r ! cur)) status r else r
           | None \<Rightarrow> r))"

text \<open>The workers send the reports in any order.\<close>

definition flush_report :: "nat \<Rightarrow> (bool \<times> time) option \<Rightarrow> reporter \<Rightarrow> reporter" where
  "flush_report k answer r =
     (case rp_flush r of
        FlushSend reports \<Rightarrow>
          let rest = take k reports @ drop (Suc k) reports in
          (report (fst (reports ! k)) (snd (reports ! k)) answer r)\<lparr>rp_flush := (if rest = [] then FlushIdle else FlushSend rest)\<rparr>
      | _ \<Rightarrow> r)"

definition scanning :: "reporter \<Rightarrow> bool" where
  "scanning r \<longleftrightarrow> (case rp_flush r of FlushScan _ _ \<Rightarrow> True | FlushTake _ _ _ _ _ _ \<Rightarrow> True | _ \<Rightarrow> False)"

inductive cap_step :: "reporter \<Rightarrow> reporter \<Rightarrow> bool" where
  cap_open: "\<not> scanning r \<Longrightarrow> (case throttler of Some t \<Rightarrow> t < length (rp_throttlers r) | None \<Rightarrow> True) \<Longrightarrow>
    cap_step r (cap_NewConn category info throttler now r)"
| cap_shared: "cap_step r (r\<lparr>rp_throttlers := rp_throttlers r @ [NewThrottler now 0]\<rparr>)"
| cap_io: "c < length (rp_conns r) \<Longrightarrow> 0 < n \<Longrightarrow> cap_step r (io_start c n isRead r)"
| cap_packet: "c < length (rp_conns r) \<Longrightarrow> 0 < n \<Longrightarrow> cap_step r (packet_start c n isRead r)"
| cap_next: "t < length (rp_threads r) \<Longrightarrow> cap_step r (io_next t r)"
| cap_close: "c < length (rp_conns r) \<Longrightarrow> cap_step r (cap_Close c r)"
| cap_flush: "rp_flush r = FlushIdle \<Longrightarrow> cap_step r (flush_begin order r)"
| cap_visit: "rp_flush r = FlushScan todo reports \<Longrightarrow> cap_step r (flush_visit r)"
| cap_take: "rp_flush r = FlushTake todo reports i slots b u \<Longrightarrow> cap_step r (flush_take r)"
| cap_report: "rp_flush r = FlushSend reports \<Longrightarrow> k < length reports \<Longrightarrow> cap_step r (flush_report k answer r)"

end
