(* ===== verification/Data_Cap_Reports.thy ===== *)
theory Data_Cap_Reports
  imports Data_Cap
begin

text \<open>
  What the reporter of \<open>Data_Cap\<close> promises however its connections and its flush interleave: no counted byte
  is lost or reported twice, a report's categories add up to its total and carry no more connections than
  bytes, and a connection count never waits for bytes that do not come.
\<close>

section \<open>Well-formed states\<close>

definition entry_ok :: "deviceUsage \<Rightarrow> bool" where
  "entry_ok d \<longleftrightarrow> 0 \<le> du_uncategorized d \<and> (\<forall>s. 0 \<le> du_trafficBytes d s) \<and> (\<forall>s. 0 \<le> du_trafficConns d s)"

definition open_conns :: "nat \<Rightarrow> reporter \<Rightarrow> int" where
  "open_conns i r = int (length (filter (\<lambda>c. cp_usage c = i \<and> \<not> cp_closed c) (rp_conns r)))"

definition current :: "reporter \<Rightarrow> nat \<Rightarrow> bool" where
  "current r i \<longleftrightarrow> gget (rp_devices r) (du_deviceID (rp_entries r ! i)) = Some i"

definition devices_ok :: "reporter \<Rightarrow> bool" where
  "devices_ok r \<longleftrightarrow> distinct (gkeys (rp_devices r)) \<and>
     (\<forall>dev i. gget (rp_devices r) dev = Some i \<longrightarrow> i < length (rp_entries r) \<and> du_deviceID (rp_entries r ! i) = dev)"

definition entries_ok :: "reporter \<Rightarrow> bool" where
  "entries_ok r \<longleftrightarrow>
     (\<forall>i < length (rp_entries r). entry_ok (rp_entries r ! i) \<and> du_conns (rp_entries r ! i) = open_conns i r
        \<and> (0 < du_conns (rp_entries r ! i) \<longrightarrow> current r i))"

definition thread_ok :: "reporter \<Rightarrow> ioThread \<Rightarrow> bool" where
  "thread_ok r t \<longleftrightarrow> io_conn t < length (rp_conns r) \<and> 0 < io_bytes t
     \<and> (io_pc t \<noteq> IoAdd \<longrightarrow> cp_category (rp_conns r ! io_conn t) \<noteq> '''')"

definition base_ok :: "reporter \<Rightarrow> bool" where
  "base_ok r \<longleftrightarrow> devices_ok r \<and> entries_ok r \<and> (\<forall>c \<in> set (rp_conns r). cp_usage c < length (rp_entries r))
     \<and> (\<forall>t \<in> set (rp_threads r). thread_ok r t)"

text \<open>A report's bytes are the sum of its parts, and a category has no more connections than bytes.\<close>

definition delta_ok :: "usageDelta \<Rightarrow> bool" where
  "delta_ok u \<longleftrightarrow> ud_bytes u = ud_uncategorized u + slot_sum (ud_trafficBytes u) \<and> 0 \<le> ud_uncategorized u
     \<and> (\<forall>s. 0 \<le> ud_trafficConns u s \<and> ud_trafficConns u s \<le> ud_trafficBytes u s)"

fun untaken :: "trafficSlot list \<Rightarrow> bool \<Rightarrow> trafficSlot list" where
  "untaken slots b = (if b then tl slots else slots)"

definition partial_ok :: "trafficSlot list \<Rightarrow> bool \<Rightarrow> usageDelta \<Rightarrow> bool" where
  "partial_ok slots b u \<longleftrightarrow> delta_ok u \<and> distinct slots \<and> (b \<longrightarrow> slots \<noteq> [])
     \<and> (\<forall>s \<in> set (untaken slots b). ud_trafficBytes u s = 0)"

definition todo_ok :: "reporter \<Rightarrow> (string \<times> nat) list \<Rightarrow> bool" where
  "todo_ok r todo \<longleftrightarrow> distinct (gkeys todo) \<and> set todo \<subseteq> set (rp_devices r)"

definition reports_ok :: "reporter \<Rightarrow> (nat \<times> usageDelta) list \<Rightarrow> bool" where
  "reports_ok r reps \<longleftrightarrow> (\<forall>(i, u) \<in> set reps. i < length (rp_entries r) \<and> delta_ok u)"

fun flush_ok :: "reporter \<Rightarrow> flushPc \<Rightarrow> bool" where
  "flush_ok r FlushIdle \<longleftrightarrow> True"
| "flush_ok r (FlushScan todo reps) \<longleftrightarrow> todo_ok r todo \<and> reports_ok r reps"
| "flush_ok r (FlushTake todo reps i slots b u) \<longleftrightarrow>
     todo_ok r todo \<and> reports_ok r reps \<and> i < length (rp_entries r) \<and> i \<notin> snd ` set todo \<and> partial_ok slots b u"
| "flush_ok r (FlushSend reps) \<longleftrightarrow> reports_ok r reps"

definition cap_wf :: "reporter \<Rightarrow> bool" where
  "cap_wf r \<longleftrightarrow> base_ok r \<and> flush_ok r (rp_flush r)"

text \<open>Changing counters of one entry.\<close>

definition same_entry :: "(deviceUsage \<Rightarrow> deviceUsage) \<Rightarrow> bool" where
  "same_entry f \<longleftrightarrow> (\<forall>d. du_deviceID (f d) = du_deviceID d \<and> du_conns (f d) = du_conns d)"

lemma updEntry_fields [simp]:
  "length (rp_entries (updEntry i f r)) = length (rp_entries r)" "rp_devices (updEntry i f r) = rp_devices r"
  "rp_conns (updEntry i f r) = rp_conns r" "rp_threads (updEntry i f r) = rp_threads r"
  "rp_flush (updEntry i f r) = rp_flush r" "rp_acked (updEntry i f r) = rp_acked r"
  "rp_counted (updEntry i f r) = rp_counted r" "rp_late (updEntry i f r) = rp_late r"
  "rp_throttlers (updEntry i f r) = rp_throttlers r" "rp_sent (updEntry i f r) = rp_sent r"
  by (simp_all add: updEntry_def)

lemma updEntry_nth:
  "j < length (rp_entries r) \<Longrightarrow>
   rp_entries (updEntry i f r) ! j = (if j = i then f (rp_entries r ! i) else rp_entries r ! j)"
  by (cases "i < length (rp_entries r)") (auto simp: updEntry_def nth_list_update)

lemma same_entry_id: "same_entry f \<Longrightarrow> j < length (rp_entries r) \<Longrightarrow>
   du_deviceID (rp_entries (updEntry i f r) ! j) = du_deviceID (rp_entries r ! j)
     \<and> du_conns (rp_entries (updEntry i f r) ! j) = du_conns (rp_entries r ! j)"
  by (simp add: updEntry_nth same_entry_def)

lemma open_conns_cong: "rp_conns r' = rp_conns r \<Longrightarrow> open_conns i r' = open_conns i r"
  by (simp add: open_conns_def)

lemma base_updEntry:
  assumes "base_ok r" and "same_entry f" and "\<And>d. entry_ok d \<Longrightarrow> d = rp_entries r ! i \<Longrightarrow> entry_ok (f d)"
  shows "base_ok (updEntry i f r)"
proof -
  have cur: "current (updEntry i f r) j \<longleftrightarrow> current r j" if "j < length (rp_entries r)" for j
    using same_entry_id [OF assms(2) that] by (simp add: current_def)
  have "devices_ok (updEntry i f r)"
    using assms(1) same_entry_id [OF assms(2)] by (auto simp: base_ok_def devices_ok_def)
  moreover have "entries_ok (updEntry i f r)"
    using assms(1,3) same_entry_id [OF assms(2)] cur
    by (auto simp: base_ok_def entries_ok_def updEntry_nth open_conns_def)
  ultimately show ?thesis using assms(1) by (auto simp: base_ok_def thread_ok_def)
qed

lemma flush_ok_cong:
  "length (rp_entries r') = length (rp_entries r) \<Longrightarrow> rp_devices r' = rp_devices r \<Longrightarrow> flush_ok r' pc = flush_ok r pc"
  by (cases pc) (simp_all add: todo_ok_def reports_ok_def)

lemma base_cong:
  assumes "rp_entries r' = rp_entries r" "rp_devices r' = rp_devices r" "rp_conns r' = rp_conns r" "rp_threads r' = rp_threads r"
  shows "base_ok r' = base_ok r"
  using assms by (simp add: base_ok_def devices_ok_def entries_ok_def thread_ok_def open_conns_def current_def)

lemma slot_sum_upd: "slot_sum (f(s := x)) = slot_sum f - f s + x"
  by (cases s) (simp_all add: slot_sum_def)

lemma slot_sum_add: "slot_sum (\<lambda>s. f s + g s) = slot_sum f + slot_sum g"
  by (simp add: slot_sum_def)

lemma slot_sum_zero: "slot_sum (\<lambda>_. 0) = 0"
  by (simp add: slot_sum_def)

lemmas slot_sums = slot_sum_upd slot_sum_add slot_sum_zero

lemma same_entries [simp]:
  "same_entry flagTraffic" "same_entry (addBytes n c)" "same_entry (addConnection c)" "same_entry (du_restore u)"
  "same_entry (\<lambda>d. snd (take_begin d))" "same_entry (\<lambda>d. snd (take_bytes s (u, d)))" "same_entry (\<lambda>d. snd (take_conns s (u, d)))"
  "same_entry (\<lambda>d. d\<lparr>du_idle := b\<rparr>)"
  by (auto simp: same_entry_def flagTraffic_def addBytes_def addConnection_def du_restore_def take_begin_def take_bytes_def
      take_conns_def Let_def)

lemma delta_nonneg: "delta_ok u \<Longrightarrow> 0 \<le> ud_uncategorized u \<and> 0 \<le> ud_trafficBytes u s \<and> 0 \<le> ud_trafficConns u s"
  by (auto simp: delta_ok_def intro: order_trans)

lemma entry_ok_ops:
  "entry_ok d \<Longrightarrow> entry_ok (flagTraffic d)"
  "entry_ok d \<Longrightarrow> 0 < n \<Longrightarrow> entry_ok (addBytes n c d)"
  "entry_ok d \<Longrightarrow> entry_ok (addConnection c d)"
  "entry_ok d \<Longrightarrow> delta_ok u \<Longrightarrow> entry_ok (du_restore u d)"
  "entry_ok d \<Longrightarrow> entry_ok (snd (take_begin d))"
  "entry_ok d \<Longrightarrow> entry_ok (snd (take_bytes s (u, d)))"
  "entry_ok d \<Longrightarrow> entry_ok (snd (take_conns s (u, d)))"
  "entry_ok d \<Longrightarrow> entry_ok (d\<lparr>du_idle := b\<rparr>)"
  by (auto simp: entry_ok_def flagTraffic_def addBytes_def addConnection_def du_restore_def take_begin_def take_bytes_def
      take_conns_def Let_def delta_nonneg)

lemma partial_begin: "entry_ok d \<Longrightarrow> partial_ok allSlots False (fst (take_begin d))"
  by (auto simp: partial_ok_def delta_ok_def take_begin_def allSlots_def slot_sums entry_ok_def)

lemma partial_bytes:
  "entry_ok d \<Longrightarrow> partial_ok (s # slots) False u \<Longrightarrow> partial_ok (s # slots) True (fst (take_bytes s (u, d)))"
  by (auto simp: partial_ok_def delta_ok_def take_bytes_def Let_def slot_sums entry_ok_def)
     (metis dual_order.trans)

lemma partial_conns:
  "entry_ok d \<Longrightarrow> partial_ok (s # slots) True u \<Longrightarrow> partial_ok slots False (fst (take_conns s (u, d)))"
  by (auto simp: partial_ok_def delta_ok_def take_conns_def Let_def entry_ok_def intro: order_trans)

lemma partial_flag: "partial_ok [] b u \<Longrightarrow> delta_ok (fst (take_flag (u, d)))"
  by (simp add: partial_ok_def delta_ok_def take_flag_def)

section \<open>Every step keeps a state well-formed\<close>

lemma wf_entry: "cap_wf r \<Longrightarrow> i < length (rp_entries r) \<Longrightarrow> entry_ok (rp_entries r ! i)"
  by (simp add: cap_wf_def base_ok_def entries_ok_def)

lemma wf_updEntry:
  assumes "cap_wf r" and "same_entry f" and "\<And>d. entry_ok d \<Longrightarrow> entry_ok (f d)" and "flush_ok r pc"
  shows "cap_wf ((updEntry i f r)\<lparr>rp_flush := pc\<rparr>)"
proof -
  have "base_ok (updEntry i f r)" using assms by (intro base_updEntry) (auto simp: cap_wf_def)
  then have "base_ok ((updEntry i f r)\<lparr>rp_flush := pc\<rparr>)" using base_cong [of "(updEntry i f r)\<lparr>rp_flush := pc\<rparr>" "updEntry i f r"] by simp
  moreover have "flush_ok ((updEntry i f r)\<lparr>rp_flush := pc\<rparr>) pc = flush_ok r pc" by (rule flush_ok_cong) simp_all
  ultimately show ?thesis using assms(4) by (simp add: cap_wf_def)
qed

lemma wf_updEntry_same:
  assumes "cap_wf r" and "same_entry f" and "\<And>d. entry_ok d \<Longrightarrow> entry_ok (f d)"
  shows "cap_wf (updEntry i f r)"
proof -
  have same: "(updEntry i f r)\<lparr>rp_flush := rp_flush r\<rparr> = updEntry i f r" by (simp add: updEntry_def)
  have "flush_ok r (rp_flush r)" using assms(1) by (simp add: cap_wf_def)
  then show ?thesis using wf_updEntry [OF assms, of "rp_flush r" i] unfolding same by blast
qed

lemma wf_flush: "cap_wf r \<Longrightarrow> flush_ok r pc \<Longrightarrow> cap_wf (r\<lparr>rp_flush := pc\<rparr>)"
  using base_cong [of "r\<lparr>rp_flush := pc\<rparr>" r] flush_ok_cong [of "r\<lparr>rp_flush := pc\<rparr>" r pc] by (simp add: cap_wf_def)

lemma wf_threads:
  assumes "cap_wf r" and "\<And>t. t \<in> set ts \<Longrightarrow> thread_ok r t"
  shows "cap_wf (r\<lparr>rp_threads := ts\<rparr>)"
  using assms
  by (auto simp: cap_wf_def base_ok_def devices_ok_def entries_ok_def thread_ok_def open_conns_def current_def
      cong: flush_ok_cong) (subst flush_ok_cong [of _ r], auto)

lemma wf_ghost:
  "cap_wf r \<Longrightarrow> cap_wf (r\<lparr>rp_counted := a, rp_late := b\<rparr>)" "cap_wf r \<Longrightarrow> cap_wf (r\<lparr>rp_acked := c\<rparr>)"
  "cap_wf r \<Longrightarrow> cap_wf (r\<lparr>rp_sent := d\<rparr>)" "cap_wf r \<Longrightarrow> cap_wf (r\<lparr>rp_throttlers := e\<rparr>)"
  by (simp_all add: cap_wf_def base_ok_def devices_ok_def entries_ok_def thread_ok_def open_conns_def current_def
      flush_ok_cong [of "_\<lparr>rp_counted := a, rp_late := b\<rparr>"] flush_ok_cong [of "_\<lparr>rp_acked := c\<rparr>"]
      flush_ok_cong [of "_\<lparr>rp_sent := d\<rparr>"] flush_ok_cong [of "_\<lparr>rp_throttlers := e\<rparr>"])

text \<open>Changing what a connection remembers, but not the entry it counts into.\<close>

lemma updConn_nth:
  "rp_conns (updConn c f r) ! j = (if j = c \<and> c < length (rp_conns r) then f (rp_conns r ! c) else rp_conns r ! j)"
  by (cases "c < length (rp_conns r)") (auto simp: updConn_def list_update_beyond)

lemma wf_updConn:
  assumes "cap_wf r" and "\<And>k. cp_usage (f k) = cp_usage k \<and> cp_closed (f k) = cp_closed k \<and> cp_category (f k) = cp_category k"
  shows "cap_wf (updConn c f r)"
proof (cases "c < length (rp_conns r)")
  case True
  have m: "map (\<lambda>k. (cp_usage k, cp_closed k)) (rp_conns (updConn c f r)) = map (\<lambda>k. (cp_usage k, cp_closed k)) (rp_conns r)"
    using True assms(2) by (auto simp: updConn_def map_update list_update_same_conv)
  have o: "open_conns i (updConn c f r) = open_conns i r" for i
  proof -
    have "open_conns i r' = int (length (filter (\<lambda>(u, cl). u = i \<and> \<not> cl) (map (\<lambda>k. (cp_usage k, cp_closed k)) (rp_conns r'))))" for r'
      by (simp add: open_conns_def filter_map comp_def)
    then show ?thesis using m by (simp only:)
  qed
  have n: "j < length (rp_conns r) \<Longrightarrow> cp_category (rp_conns (updConn c f r) ! j) = cp_category (rp_conns r ! j)" for j
    using assms(2) by (simp add: updConn_nth)
  have u: "\<forall>k \<in> set (rp_conns (updConn c f r)). cp_usage k < length (rp_entries r)"
    using assms True by (auto simp: cap_wf_def base_ok_def updConn_def all_set_conv_all_nth nth_list_update)
  have e: "rp_entries (updConn c f r) = rp_entries r" "rp_devices (updConn c f r) = rp_devices r"
    "rp_threads (updConn c f r) = rp_threads r" "length (rp_conns (updConn c f r)) = length (rp_conns r)"
    "rp_flush (updConn c f r) = rp_flush r" by (simp_all add: updConn_def)
  have "flush_ok (updConn c f r) pc = flush_ok r pc" for pc by (rule flush_ok_cong) (simp_all add: e)
  then show ?thesis using assms(1) o n u
    by (auto simp: cap_wf_def base_ok_def devices_ok_def entries_ok_def thread_ok_def current_def e)
next
  case False
  then show ?thesis using assms(1) by (simp add: updConn_def list_update_beyond)
qed

lemma thread_ok_cong: "rp_conns r' = rp_conns r \<Longrightarrow> thread_ok r' t = thread_ok r t"
  by (simp add: thread_ok_def)

lemma wf_toPc:
  assumes "cap_wf r" and "t < length (rp_threads r)" and "pc \<noteq> IoAdd \<longrightarrow> cp_category (rp_conns r ! io_conn (rp_threads r ! t)) \<noteq> ''''"
  shows "cap_wf (toPc t pc r)"
  unfolding toPc_def
proof (rule wf_threads [OF assms(1)])
  fix x assume "x \<in> set ((rp_threads r)[t := (rp_threads r ! t)\<lparr>io_pc := pc\<rparr>])"
  then have "x \<in> set (rp_threads r) \<or> x = (rp_threads r ! t)\<lparr>io_pc := pc\<rparr>" by (meson set_update_subset_insert subsetD insertE)
  moreover have "\<forall>x \<in> set (rp_threads r). thread_ok r x" "rp_threads r ! t \<in> set (rp_threads r)"
    using assms(1,2) by (simp_all add: cap_wf_def base_ok_def)
  ultimately show "thread_ok r x" using assms(3) by (auto simp: thread_ok_def)
qed

lemma wf_io_next:
  assumes "cap_wf r" and "t < length (rp_threads r)"
  shows "cap_wf (io_next t r)"
proof -
  let ?th = "rp_threads r ! t"
  let ?conn = "rp_conns r ! io_conn ?th"
  have tok: "thread_ok r ?th" "\<forall>x \<in> set (rp_threads r). thread_ok r x"
    using assms by (simp_all add: cap_wf_def base_ok_def)
  have upd: "cap_wf (toPc t pc (updEntry i f r))"
    if "same_entry f" "\<And>d. entry_ok d \<Longrightarrow> entry_ok (f d)" "io_pc ?th \<noteq> IoAdd" for pc i f
    using that tok assms by (intro wf_toPc wf_updEntry_same) (auto simp: thread_ok_def)
  have con: "cap_wf (toPc t pc (updConn c f r))"
    if "\<And>k. cp_usage (f k) = cp_usage k \<and> cp_closed (f k) = cp_closed k \<and> cp_category (f k) = cp_category k"
      "io_pc ?th \<noteq> IoAdd" for pc c f
  proof (rule wf_toPc)
    show "cap_wf (updConn c f r)" using assms(1) that(1) by (rule wf_updConn)
    show "t < length (rp_threads (updConn c f r))" using assms(2) by (simp add: updConn_def)
    have "cp_category (rp_conns (updConn c f r) ! j) = cp_category (rp_conns r ! j)" for j
      using that(1) by (simp add: updConn_nth)
    then show "pc \<noteq> IoAdd \<longrightarrow> cp_category (rp_conns (updConn c f r) ! io_conn (rp_threads (updConn c f r) ! t)) \<noteq> ''''"
      using tok(1) that(2) by (simp add: thread_ok_def updConn_def)
  qed
  show ?thesis
  proof (cases "io_pc ?th")
    case IoCheck
    then show ?thesis using con assms tok by (auto simp: io_next_def Let_def thread_ok_def intro!: wf_toPc)
  next
    case IoAdd
    let ?r = "updEntry (cp_usage ?conn) (addBytes (io_bytes ?th) (cp_category ?conn)) r"
    have "cap_wf ?r" using tok assms(1) by (intro wf_updEntry_same) (auto simp: entry_ok_ops thread_ok_def)
    moreover have "thread_ok ?r x" if "x \<in> set (take t (rp_threads r) @ drop (Suc t) (rp_threads r))" for x
      using that tok(2) thread_ok_cong [of ?r r] by (auto dest: in_set_takeD in_set_dropD)
    ultimately have "cap_wf (?r\<lparr>rp_threads := take t (rp_threads r) @ drop (Suc t) (rp_threads r)\<rparr>)" by (rule wf_threads)
    then show ?thesis using IoAdd wf_ghost(1) by (simp add: io_next_def Let_def)
  qed (simp_all add: io_next_def Let_def upd con entry_ok_ops)
qed

lemma open_conns_snoc:
  "open_conns i (r\<lparr>rp_conns := rp_conns r @ [c]\<rparr>) = open_conns i r + (if cp_usage c = i \<and> \<not> cp_closed c then 1 else 0)"
  by (simp add: open_conns_def)

text \<open>A connection is opened: its entry is the current one of its device, and it counts there.\<close>

definition entry_for :: "ClientInfo \<Rightarrow> nat option \<Rightarrow> time \<Rightarrow> reporter \<Rightarrow> nat \<times> reporter" where
  "entry_for info throttler now r =
     (case gget (rp_devices r) (DeviceID info) of
        Some i \<Rightarrow> (i, r)
      | None \<Rightarrow>
          let (thr, r) = newThrottlerAt throttler now r; i = length (rp_entries r) in
          (i, r\<lparr>rp_entries := rp_entries r @ [newEntry info thr], rp_devices := gput (DeviceID info) i (rp_devices r)\<rparr>))"

lemma acquire_eq:
  "acquire info throttler now r = (case entry_for info throttler now r of (i, r) \<Rightarrow>
     (i, updEntry i (\<lambda>d. d\<lparr>du_info := info, du_conns := du_conns d + 1\<rparr>) r))"
  by (simp add: acquire_def entry_for_def Let_def)

lemma new_entry_wf:
  assumes "cap_wf r" and "\<not> scanning r" and "gget (rp_devices r) dev = None" and "du_deviceID d = dev" and "du_conns d = 0" and "entry_ok d"
  shows "cap_wf (r\<lparr>rp_entries := rp_entries r @ [d], rp_devices := gput dev (length (rp_entries r)) (rp_devices r)\<rparr>)"
proof -
  let ?r = "r\<lparr>rp_entries := rp_entries r @ [d], rp_devices := gput dev (length (rp_entries r)) (rp_devices r)\<rparr>"
  note base = assms(1) [unfolded cap_wf_def base_ok_def]
  have "devices_ok ?r" using base assms(4) by (auto simp: devices_ok_def nth_append intro: less_SucI)
  moreover have "open_conns (length (rp_entries r)) r = 0" using base by (auto simp: open_conns_def filter_empty_conv)
  then have "entries_ok ?r" using base assms(3-6)
    by (auto simp: entries_ok_def nth_append open_conns_def current_def less_Suc_eq)
  moreover have "flush_ok ?r (rp_flush r)" using base assms(2)
    by (cases "rp_flush r") (auto simp: scanning_def reports_ok_def)
  ultimately show ?thesis using base by (auto simp: cap_wf_def base_ok_def thread_ok_def)
qed

lemma entry_for_wf:
  assumes "cap_wf r" and "\<not> scanning r" and "entry_for info throttler now r = (i, r')"
  shows "cap_wf r' \<and> i < length (rp_entries r') \<and> current r' i \<and> rp_flush r' = rp_flush r"
proof (cases "gget (rp_devices r) (DeviceID info)")
  case None
  obtain thr r1 where n: "newThrottlerAt throttler now r = (thr, r1)" by (metis surj_pair)
  have r1: "cap_wf r1" "rp_devices r1 = rp_devices r" "rp_flush r1 = rp_flush r" "scanning r1 = scanning r"
    using n assms(1) wf_ghost(4) by (auto simp: newThrottlerAt_def scanning_def split: option.splits)
  have "entry_ok (newEntry info thr)" by (simp add: entry_ok_def newEntry_def)
  then have "cap_wf r'" using new_entry_wf [of r1 "DeviceID info" "newEntry info thr"] r1 assms(2,3) None n
    by (auto simp: entry_for_def newEntry_def Let_def)
  then show ?thesis using assms(3) None n r1 by (auto simp: entry_for_def current_def newEntry_def Let_def)
next
  case (Some j)
  then show ?thesis using assms by (auto simp: entry_for_def cap_wf_def base_ok_def devices_ok_def current_def)
qed

lemma opened_wf:
  assumes "cap_wf r" and "i < length (rp_entries r)" and "current r i" and "cp_usage c = i" and "\<not> cp_closed c"
  shows "cap_wf ((updEntry i (\<lambda>d. d\<lparr>du_info := info, du_conns := du_conns d + 1\<rparr>) r)\<lparr>rp_conns := rp_conns r @ [c]\<rparr>)"
proof -
  let ?f = "\<lambda>d. d\<lparr>du_info := info, du_conns := du_conns d + 1\<rparr>"
  let ?r = "(updEntry i ?f r)\<lparr>rp_conns := rp_conns r @ [c]\<rparr>"
  note base = assms(1) [unfolded cap_wf_def base_ok_def]
  have cur: "j < length (rp_entries r) \<Longrightarrow> current ?r j = current r j" for j by (simp add: current_def updEntry_nth)
  have o: "open_conns j ?r = open_conns j r + (if j = i then 1 else 0)" for j
    using assms(4,5) by (simp add: open_conns_def)
  have "devices_ok ?r" using base by (auto simp: devices_ok_def updEntry_nth)
  moreover have "entries_ok ?r" using base assms(2,3) by (auto simp: entries_ok_def updEntry_nth cur o entry_ok_def)
  moreover have "flush_ok ?r (rp_flush r) = flush_ok r (rp_flush r)" by (rule flush_ok_cong) simp_all
  moreover have "thread_ok r t \<Longrightarrow> thread_ok ?r t" for t by (auto simp: thread_ok_def nth_append)
  ultimately show ?thesis using base assms(2,4) by (auto simp: cap_wf_def base_ok_def)
qed

lemma wf_NewConn: "cap_wf r \<Longrightarrow> \<not> scanning r \<Longrightarrow> cap_wf (cap_NewConn category info throttler now r)"
  using entry_for_wf [of r info throttler now] opened_wf
  by (auto simp: cap_NewConn_def acquire_eq Let_def split: prod.splits)

lemma filter_closed:
  assumes "c < length xs" and "\<not> cp_closed (xs ! c)"
  shows "int (length (filter (\<lambda>k. cp_usage k = i \<and> \<not> cp_closed k) (xs[c := (xs ! c)\<lparr>cp_closed := True\<rparr>])))
    = int (length (filter (\<lambda>k. cp_usage k = i \<and> \<not> cp_closed k) xs)) - (if cp_usage (xs ! c) = i then 1 else 0)"
  using assms
proof (induction xs arbitrary: c)
  case (Cons x xs)
  show ?case
  proof (cases c)
    case 0
    then show ?thesis using Cons.prems by simp
  next
    case (Suc n)
    then show ?thesis using Cons.prems Cons.IH [of n] by (auto split: if_splits)
  qed
qed simp

lemma wf_Close:
  assumes "cap_wf r" and "c < length (rp_conns r)"
  shows "cap_wf (cap_Close c r)"
proof (cases "cp_closed (rp_conns r ! c)")
  case True
  then show ?thesis using assms(1) by (simp add: cap_Close_def)
next
  case False
  let ?i = "cp_usage (rp_conns r ! c)"
  let ?f = "\<lambda>d. d\<lparr>du_conns := du_conns d - 1\<rparr>"
  let ?r = "cap_Close c r"
  note base = assms(1) [unfolded cap_wf_def base_ok_def]
  have r: "rp_entries ?r = rp_entries (updEntry ?i ?f r)" "rp_devices ?r = rp_devices r" "rp_threads ?r = rp_threads r"
    "rp_flush ?r = rp_flush r" "rp_conns ?r = (rp_conns r)[c := (rp_conns r ! c)\<lparr>cp_closed := True\<rparr>]"
    using False by (simp_all add: cap_Close_def release_def updEntry_def)
  have cur: "j < length (rp_entries r) \<Longrightarrow> current ?r j = current r j" for j by (simp add: current_def r updEntry_nth)
  have o: "open_conns j ?r = open_conns j r - (if ?i = j then 1 else 0)" for j
    unfolding open_conns_def r by (rule filter_closed [OF assms(2) False])
  have "devices_ok ?r" using base by (auto simp: devices_ok_def r updEntry_nth)
  moreover have "entries_ok ?r" using base by (auto simp: entries_ok_def r updEntry_nth cur o entry_ok_def)
  moreover have "flush_ok ?r (rp_flush r) = flush_ok r (rp_flush r)" by (rule flush_ok_cong) (simp_all add: r)
  moreover have "cp_usage k < length (rp_entries r)" if "k \<in> set (rp_conns ?r)" for k
    using that base assms(2) unfolding r by (auto simp: all_set_conv_all_nth nth_list_update dest!: in_set_conv_nth [THEN iffD1])
  moreover have "thread_ok r t \<Longrightarrow> thread_ok ?r t" for t using assms(2) by (auto simp: thread_ok_def r nth_list_update)
  ultimately show ?thesis using base by (auto simp: cap_wf_def base_ok_def r)
qed

lemma wf_start:
  assumes "cap_wf r" and "c < length (rp_conns r)" and "0 < n"
    and "pc \<noteq> IoAdd \<longrightarrow> cp_category (rp_conns r ! c) \<noteq> ''''"
  shows "cap_wf (r\<lparr>rp_threads := rp_threads r @ [\<lparr>io_conn = c, io_bytes = n, io_read = b, io_pc = pc\<rparr>]\<rparr>)"
  using assms by (intro wf_threads) (auto simp: thread_ok_def cap_wf_def base_ok_def)

lemma wf_visitIdle:
  assumes "cap_wf r" and "i < length (rp_entries r)" and "todo_ok r ((dev, i) # todo)" and "reports_ok r reps"
    and "rp_flush r = FlushScan ((dev, i) # todo) reps"
  shows "cap_wf ((visitIdle dev i r)\<lparr>rp_flush := FlushScan todo reps\<rparr>)" and "i \<notin> snd ` set todo"
    and "length (rp_entries (visitIdle dev i r)) = length (rp_entries r)" and "du_deviceID (rp_entries r ! i) = dev"
proof -
  note base = assms(1) [unfolded cap_wf_def base_ok_def devices_ok_def]
  have dev: "(dev, i) \<in> set (rp_devices r)" using assms(3) by (simp add: todo_ok_def)
  then show id_i: "du_deviceID (rp_entries r ! i) = dev" using base by simp
  have dj: "du_deviceID (rp_entries r ! j) = d" if "(d, j) \<in> set todo" for d j
    using that base assms(3) by (auto simp: todo_ok_def)
  show "i \<notin> snd ` set todo"
  proof
    assume "i \<in> snd ` set todo"
    then obtain d where "(d, i) \<in> set todo" by auto
    then have "dev \<in> set (gkeys todo)" using dj id_i by (metis fst_conv image_eqI set_map)
    then show False using assms(3) by (simp add: todo_ok_def)
  qed
  show "length (rp_entries (visitIdle dev i r)) = length (rp_entries r)" by (simp add: visitIdle_def Let_def)
  have todo: "todo_ok r todo" using assms(3) by (auto simp: todo_ok_def)
  show "cap_wf ((visitIdle dev i r)\<lparr>rp_flush := FlushScan todo reps\<rparr>)"
  proof (cases "du_conns (rp_entries r ! i) > 0 \<or> \<not> du_idle (rp_entries r ! i)")
    case True
    then obtain b where "visitIdle dev i r = updEntry i (\<lambda>d. d\<lparr>du_idle := b\<rparr>) r"
      by (cases "du_conns (rp_entries r ! i) > 0") (auto simp: visitIdle_def Let_def)
    then show ?thesis using assms(1,4) todo by (auto intro!: wf_updEntry simp: entry_ok_ops)
  next
    case False
    let ?r = "r\<lparr>rp_devices := gdel dev (rp_devices r), rp_flush := FlushScan todo reps\<rparr>"
    have v: "(visitIdle dev i r)\<lparr>rp_flush := FlushScan todo reps\<rparr> = ?r" using False by (simp add: visitIdle_def Let_def)
    have none: "du_conns (rp_entries r ! i) \<le> 0" using False by simp
    have get: "gget (rp_devices r) dev = Some i" using dev base by (intro map_of_is_SomeI) auto
    have "du_deviceID (rp_entries r ! j) \<noteq> dev" if "0 < du_conns (rp_entries r ! j)" "j < length (rp_entries r)" for j
    proof
      assume "du_deviceID (rp_entries r ! j) = dev"
      moreover have "current r j" using base that by (simp add: entries_ok_def)
      ultimately have "j = i" using get by (simp add: current_def)
      then show False using none that by simp
    qed
    then have "entries_ok ?r" using base by (auto simp: entries_ok_def open_conns_def current_def)
    moreover have "devices_ok ?r" using base by (auto simp: devices_ok_def split: if_splits)
    moreover have "set todo \<subseteq> set (gdel dev (rp_devices r))" using assms(3) by (force simp: todo_ok_def AList.delete_eq)
    ultimately show ?thesis unfolding v using base todo assms(4)
      by (auto simp: cap_wf_def base_ok_def thread_ok_def todo_ok_def reports_ok_def)
  qed
qed

lemma wf_flush_visit:
  assumes "cap_wf r" and "rp_flush r = FlushScan todo reps"
  shows "cap_wf (flush_visit r)"
proof (cases todo)
  case Nil
  then have "flush_ok r (if reps = [] then FlushIdle else FlushSend reps)" using assms by (auto simp: cap_wf_def)
  with assms Nil show ?thesis using wf_flush by (simp add: flush_visit_def)
next
  case (Cons x todo')
  obtain dev i where x: "x = (dev, i)" by (cases x)
  have fl: "todo_ok r ((dev, i) # todo')" "reports_ok r reps" using assms Cons x by (auto simp: cap_wf_def)
  have i: "i < length (rp_entries r)"
    using fl(1) assms(1) by (auto simp: todo_ok_def cap_wf_def base_ok_def devices_ok_def)
  note v = wf_visitIdle [OF assms(1) i fl assms(2) [unfolded Cons x]]
  let ?r = "(visitIdle dev i r)\<lparr>rp_flush := FlushScan todo' reps\<rparr>"
  let ?u = "fst (take_begin (rp_entries (visitIdle dev i r) ! i))"
  have "entry_ok (rp_entries ?r ! i)" using wf_entry [OF v(1)] i v(3) by simp
  then have "partial_ok allSlots False ?u" using partial_begin by simp
  then have "flush_ok ?r (FlushTake todo' reps i allSlots False ?u)"
    using v i by (simp add: cap_wf_def)
  then have "cap_wf ((updEntry i (\<lambda>d. snd (take_begin d)) ?r)\<lparr>rp_flush := FlushTake todo' reps i allSlots False ?u\<rparr>)"
    using v(1) by (intro wf_updEntry) (auto simp: entry_ok_ops)
  then show ?thesis using assms(2) Cons x by (simp add: flush_visit_def Let_def updEntry_def)
qed

lemma wf_flush_take:
  assumes "cap_wf r" and fl: "rp_flush r = FlushTake todo reps i slots b u"
  shows "cap_wf (flush_take r)"
proof -
  have ok: "todo_ok r todo" "reports_ok r reps" "i < length (rp_entries r)" "i \<notin> snd ` set todo" "partial_ok slots b u"
    using assms by (auto simp: cap_wf_def)
  note e = wf_entry [OF assms(1) ok(3)]
  show ?thesis
  proof (cases slots)
    case Nil
    let ?u = "fst (take_flag (u, rp_entries r ! i))"
    have "flush_ok r (FlushScan todo (if ud_bytes ?u > 0 then reps @ [(i, ?u)] else reps))"
      using ok partial_flag Nil by (auto simp: reports_ok_def)
    from wf_flush [OF assms(1) this] show ?thesis using Nil fl by (simp add: flush_take_def Let_def)
  next
    case (Cons s slots')
    show ?thesis
    proof (cases b)
      case True
      then have "flush_ok r (FlushTake todo reps i slots' False (fst (take_conns s (u, rp_entries r ! i))))"
        using ok Cons partial_conns [OF e, of s slots' u] by simp
      then show ?thesis using wf_updEntry [OF assms(1), of "\<lambda>d. snd (take_conns s (u, d))"] True Cons fl
        by (simp add: flush_take_def entry_ok_ops)
    next
      case False
      then have "flush_ok r (FlushTake todo reps i slots True (fst (take_bytes s (u, rp_entries r ! i))))"
        using ok Cons partial_bytes [OF e, of s slots' u] by simp
      then show ?thesis using wf_updEntry [OF assms(1), of "\<lambda>d. snd (take_bytes s (u, d))"] False Cons fl
        by (simp add: flush_take_def entry_ok_ops)
    qed
  qed
qed

lemma reinstated_wf:
  assumes "cap_wf r" and "\<not> scanning r" and "i < length (rp_entries r)" and "gget (rp_devices r) (du_deviceID (rp_entries r ! i)) = None"
  shows "cap_wf (r\<lparr>rp_devices := gput (du_deviceID (rp_entries r ! i)) i (rp_devices r)\<rparr>)"
proof -
  let ?r = "r\<lparr>rp_devices := gput (du_deviceID (rp_entries r ! i)) i (rp_devices r)\<rparr>"
  note base = assms(1) [unfolded cap_wf_def base_ok_def]
  have "0 < du_conns (rp_entries r ! j) \<Longrightarrow> j < length (rp_entries r) \<Longrightarrow> current ?r j" for j
    using base assms(4) by (auto simp: entries_ok_def current_def)
  then have "entries_ok ?r" using base by (auto simp: entries_ok_def open_conns_def)
  moreover have "devices_ok ?r" using base assms(3) by (auto simp: devices_ok_def)
  moreover have "flush_ok ?r (rp_flush r)" using base assms(2)
    by (cases "rp_flush r") (auto simp: scanning_def reports_ok_def)
  ultimately show ?thesis using base by (auto simp: cap_wf_def base_ok_def thread_ok_def)
qed

lemma wf_restore:
  assumes "cap_wf r" and "\<not> scanning r" and "i < length (rp_entries r)" and "delta_ok u"
  shows "cap_wf (rep_restore i u r)"
  using assms reinstated_wf [OF assms(1-3)]
  by (auto simp: rep_restore_def entry_ok_ops intro!: wf_updEntry_same split: option.splits)

lemma report_flush [simp]: "rp_flush (report i u a r) = rp_flush r"
  by (auto simp: report_def Let_def rep_restore_def updThrottler_def split: option.splits)

lemma wf_report:
  assumes "cap_wf r" and "\<not> scanning r" and "i < length (rp_entries r)" and "delta_ok u"
  shows "cap_wf (report i u a r)"
proof (cases a)
  case None
  have "cap_wf (r\<lparr>rp_sent := rp_sent r @ [reportOf (rp_entries r ! i) u]\<rparr>)" using wf_ghost(3) assms(1) .
  then show ?thesis using None assms by (simp add: report_def Let_def wf_restore scanning_def)
next
  case (Some b)
  have t: "cap_wf x \<Longrightarrow> cap_wf (updThrottler t b x)" for x t unfolding updThrottler_def by (rule wf_ghost(4))
  show ?thesis using Some assms(1) by (auto simp: report_def Let_def intro!: t wf_ghost split: option.splits)
qed

lemma length_report: "length (rp_entries (report i u a r)) = length (rp_entries r)"
  by (auto simp: report_def Let_def rep_restore_def updThrottler_def split: option.splits)

lemma wf_flush_report:
  assumes "cap_wf r" and fl: "rp_flush r = FlushSend reps" and k: "k < length reps"
  shows "cap_wf (flush_report k a r)"
proof -
  let ?rest = "take k reps @ drop (Suc k) reps"
  have "reps ! k \<in> set reps" "reports_ok r reps" using assms by (auto simp: cap_wf_def)
  then have i: "fst (reps ! k) < length (rp_entries r)" "delta_ok (snd (reps ! k))" by (auto simp: reports_ok_def case_prod_unfold)
  have "\<not> scanning r" using fl by (simp add: scanning_def)
  then have "cap_wf (report (fst (reps ! k)) (snd (reps ! k)) a r)" using wf_report [OF assms(1) _ i] by blast
  moreover have "flush_ok (report (fst (reps ! k)) (snd (reps ! k)) a r) (if ?rest = [] then FlushIdle else FlushSend ?rest)"
    using \<open>reports_ok r reps\<close> by (auto simp: reports_ok_def length_report dest: in_set_takeD in_set_dropD)
  ultimately show ?thesis using wf_flush fl by (simp add: flush_report_def Let_def)
qed

lemma wf_begin: "cap_wf r \<Longrightarrow> cap_wf (flush_begin order r)"
  unfolding flush_begin_def
  by (rule wf_flush) (auto simp: todo_ok_def reports_ok_def cap_wf_def base_ok_def devices_ok_def)

lemma wf_step: "cap_step r r' \<Longrightarrow> cap_wf r \<Longrightarrow> cap_wf r'"
proof (induction rule: cap_step.induct)
  case (cap_io c r n b)
  then show ?case by (auto simp: io_start_def intro!: wf_start)
next
  case (cap_packet c r n b)
  then show ?case by (auto simp: packet_start_def intro!: wf_start)
qed (auto intro: wf_NewConn wf_ghost wf_io_next wf_Close wf_begin wf_flush_visit wf_flush_take wf_flush_report)

lemma wf_new: "cap_wf NewReporter"
  by (simp add: cap_wf_def base_ok_def devices_ok_def entries_ok_def NewReporter_def)

section \<open>No byte is lost or counted twice\<close>

lemma sum_list_upd:
  fixes g :: "'a \<Rightarrow> int"
  assumes "i < length xs"
  shows "sum_list (map g (xs[i := y])) = sum_list (map g xs) + g y - g (xs ! i)"
  using assms
proof (induction xs arbitrary: i)
  case (Cons x xs)
  then show ?case by (cases i) (simp_all add: algebra_simps)
qed simp

lemma sum_list_del:
  fixes g :: "'a \<Rightarrow> int"
  assumes "i < length xs"
  shows "sum_list (map g (take i xs @ drop (Suc i) xs)) = sum_list (map g xs) - g (xs ! i)"
proof -
  have "map g xs = map g (take i xs @ xs ! i # drop (Suc i) xs)" using assms by (simp only: id_take_nth_drop [symmetric])
  then have "sum_list (map g xs) = sum_list (map g (take i xs)) + (g (xs ! i) + sum_list (map g (drop (Suc i) xs)))"
    by (simp only: map_append sum_list.append list.map sum_list.Cons)
  then show ?thesis by simp
qed

definition total_pending :: "reporter \<Rightarrow> int" where
  "total_pending r = sum_list (map pendingBytes (rp_entries r))"

fun flying :: "flushPc \<Rightarrow> int" where
  "flying FlushIdle = 0"
| "flying (FlushScan todo reps) = sum_list (map (ud_bytes \<circ> snd) reps)"
| "flying (FlushTake todo reps i slots b u) = sum_list (map (ud_bytes \<circ> snd) reps) + ud_bytes u"
| "flying (FlushSend reps) = sum_list (map (ud_bytes \<circ> snd) reps)"

definition conserved :: "reporter \<Rightarrow> bool" where
  "conserved r \<longleftrightarrow> rp_counted r = rp_acked r + flying (rp_flush r) + total_pending r"

lemma total_updEntry:
  "i < length (rp_entries r) \<Longrightarrow>
   total_pending (updEntry i f r) = total_pending r + pendingBytes (f (rp_entries r ! i)) - pendingBytes (rp_entries r ! i)"
  by (simp add: total_pending_def updEntry_def sum_list_upd)

lemma total_same: "(\<And>d. pendingBytes (f d) = pendingBytes d) \<Longrightarrow> total_pending (updEntry i f r) = total_pending r"
  by (cases "i < length (rp_entries r)") (simp_all add: total_updEntry, simp add: updEntry_def list_update_beyond)

lemma pending_ops [simp]:
  "pendingBytes (flagTraffic d) = pendingBytes d" "pendingBytes (addBytes n c d) = pendingBytes d + n"
  "pendingBytes (addConnection c d) = pendingBytes d" "pendingBytes (d\<lparr>du_idle := b\<rparr>) = pendingBytes d"
  "pendingBytes (d\<lparr>du_conns := x\<rparr>) = pendingBytes d" "pendingBytes (d\<lparr>du_info := y\<rparr>) = pendingBytes d"
  "pendingBytes (newEntry info thr) = 0"
  by (simp_all add: pendingBytes_def flagTraffic_def addBytes_def addConnection_def newEntry_def slot_sums)

lemma pending_restore: "delta_ok u \<Longrightarrow> pendingBytes (du_restore u d) = pendingBytes d + ud_bytes u"
  by (simp add: pendingBytes_def du_restore_def slot_sums delta_ok_def)

lemma pending_take:
  "pendingBytes (snd (take_begin d)) + ud_bytes (fst (take_begin d)) = pendingBytes d"
  "pendingBytes (snd (take_bytes s (u, d))) + ud_bytes (fst (take_bytes s (u, d))) = pendingBytes d + ud_bytes u"
  "pendingBytes (snd (take_conns s (u, d))) = pendingBytes d" "ud_bytes (fst (take_conns s (u, d))) = ud_bytes u"
  "ud_bytes (fst (take_flag (u, d))) = ud_bytes u"
  by (simp_all add: pendingBytes_def take_begin_def take_bytes_def take_conns_def take_flag_def Let_def slot_sums)

lemma conserved_io_next:
  assumes "cap_wf r" and "t < length (rp_threads r)" and "conserved r"
  shows "conserved (io_next t r)"
proof -
  let ?th = "rp_threads r ! t"
  have "thread_ok r ?th" using assms(1,2) by (simp add: cap_wf_def base_ok_def)
  then have "rp_conns r ! io_conn ?th \<in> set (rp_conns r)" by (simp add: thread_ok_def)
  then have i: "cp_usage (rp_conns r ! io_conn ?th) < length (rp_entries r)" using assms(1) by (simp add: cap_wf_def base_ok_def)
  have pc: "conserved (toPc t pc x) = conserved x" for pc x by (simp add: toPc_def conserved_def total_pending_def)
  have co: "conserved (updConn c f x) = conserved x" for c f x by (simp add: updConn_def conserved_def total_pending_def)
  have en: "(\<And>d. pendingBytes (f d) = pendingBytes d) \<Longrightarrow> conserved (updEntry j f r)" for j f
    using assms(3) by (simp add: conserved_def total_same)
  show ?thesis
  proof (cases "io_pc ?th")
    case IoAdd
    then show ?thesis using assms(3) i
      by (simp add: io_next_def Let_def conserved_def total_updEntry) (simp add: total_pending_def updEntry_def sum_list_upd)
  qed (use assms(3) in \<open>simp_all add: io_next_def Let_def pc co en\<close>)
qed

lemma conserved_visit:
  assumes "cap_wf r" and "rp_flush r = FlushScan todo reps" and "conserved r"
  shows "conserved (flush_visit r)"
proof (cases todo)
  case Nil
  then show ?thesis using assms by (auto simp: flush_visit_def conserved_def total_pending_def)
next
  case (Cons x todo')
  obtain dev i where x: "x = (dev, i)" by (cases x)
  have i: "i < length (rp_entries r)"
    using assms(1,2) Cons x by (auto simp: todo_ok_def cap_wf_def base_ok_def devices_ok_def)
  let ?v = "visitIdle dev i r"
  have v: "total_pending ?v = total_pending r" "length (rp_entries ?v) = length (rp_entries r)" "rp_acked ?v = rp_acked r"
    "rp_counted ?v = rp_counted r"
    by (simp_all add: visitIdle_def Let_def total_same) (simp add: total_pending_def)
  have "total_pending (updEntry i (\<lambda>d. snd (take_begin d)) ?v) + ud_bytes (fst (take_begin (rp_entries ?v ! i))) = total_pending r"
    using i v pending_take(1) [of "rp_entries ?v ! i"] by (simp add: total_updEntry)
  then show ?thesis using assms(2,3) Cons x v
    by (simp add: flush_visit_def Let_def conserved_def) (simp add: total_pending_def updEntry_def)
qed

lemma conserved_take:
  assumes "cap_wf r" and fl: "rp_flush r = FlushTake todo reps i slots b u" and "conserved r"
  shows "conserved (flush_take r)"
proof -
  have i: "i < length (rp_entries r)" using assms(1,2) by (simp add: cap_wf_def)
  have ud: "conserved (r'\<lparr>rp_flush := pc\<rparr>) \<longleftrightarrow> rp_counted r' = rp_acked r' + flying pc + total_pending r'" for r' pc
    by (simp add: conserved_def total_pending_def)
  have nonneg: "slots = [] \<Longrightarrow> ud_bytes u \<ge> 0"
    using assms(1,2) by (auto simp: cap_wf_def partial_ok_def delta_ok_def slot_sum_def intro!: add_nonneg_nonneg intro: order_trans)
  note c = assms(3) [unfolded conserved_def fl, simplified]
  show ?thesis
  proof (cases slots)
    case Nil
    then show ?thesis using c fl nonneg by (auto simp: flush_take_def Let_def ud pending_take(5))
  next
    case (Cons s slots')
    show ?thesis
    proof (cases b)
      case True
      then show ?thesis using c fl Cons by (simp add: flush_take_def ud total_same pending_take(3,4))
    next
      case False
      have "total_pending (updEntry i (\<lambda>d. snd (take_bytes s (u, d))) r) + ud_bytes (fst (take_bytes s (u, rp_entries r ! i)))
          = total_pending r + ud_bytes u"
        using i pending_take(2) [of s u "rp_entries r ! i"] by (simp add: total_updEntry)
      then show ?thesis using c fl Cons False by (simp add: flush_take_def ud)
    qed
  qed
qed

lemma conserved_NewConn: "conserved r \<Longrightarrow> conserved (cap_NewConn category info throttler now r)"
proof -
  assume c: "conserved r"
  obtain i r1 where e: "entry_for info throttler now r = (i, r1)" by (metis surj_pair)
  then have "conserved r1" using c
    by (auto simp: entry_for_def newThrottlerAt_def conserved_def total_pending_def Let_def split: option.splits)
  then have "conserved (updEntry i (\<lambda>d. d\<lparr>du_info := info, du_conns := du_conns d + 1\<rparr>) r1)"
    by (simp add: conserved_def total_same)
  then show ?thesis by (simp add: cap_NewConn_def acquire_eq e conserved_def total_pending_def)
qed

lemma conserved_report:
  assumes "cap_wf r" and "rp_flush r = FlushSend reps" and "k < length reps" and "conserved r"
  shows "conserved (flush_report k a r)"
proof -
  let ?i = "fst (reps ! k)" and ?u = "snd (reps ! k)"
  have "reps ! k \<in> set reps" "reports_ok r reps" using assms by (auto simp: cap_wf_def)
  then have i: "?i < length (rp_entries r)" "delta_ok ?u" by (auto simp: reports_ok_def case_prod_unfold)
  have cur: "gget (rp_devices r) dev = Some j \<Longrightarrow> j < length (rp_entries r)" for dev j
    using assms(1) unfolding cap_wf_def base_ok_def devices_ok_def by blast
  have "rp_counted (report ?i ?u a r) = rp_counted r
      \<and> rp_acked (report ?i ?u a r) + total_pending (report ?i ?u a r) = rp_acked r + total_pending r + ud_bytes ?u"
  proof (cases a)
    case None
    then show ?thesis using i cur
      by (auto simp: report_def Let_def rep_restore_def total_updEntry pending_restore split: option.splits)
         (auto simp: total_pending_def)
  next
    case (Some b)
    then show ?thesis by (auto simp: report_def Let_def updThrottler_def total_pending_def split: option.splits)
  qed
  then show ?thesis using assms(2,3,4) sum_list_del [OF assms(3), of "ud_bytes \<circ> snd"]
    by (auto simp: flush_report_def Let_def conserved_def) (simp_all add: total_pending_def)
qed

lemma conserved_step: "cap_step r r' \<Longrightarrow> cap_wf r \<Longrightarrow> conserved r \<Longrightarrow> conserved r'"
proof (induction rule: cap_step.induct)
  case (cap_shared r now)
  then show ?case by (simp add: conserved_def total_pending_def)
next
  case (cap_io c r n b)
  then show ?case by (simp add: io_start_def conserved_def total_pending_def)
next
  case (cap_packet c r n b)
  then show ?case by (simp add: packet_start_def conserved_def total_pending_def)
next
  case (cap_close c r)
  have "conserved (release i x) = conserved x" for i x by (simp add: release_def conserved_def total_same)
  with cap_close show ?case by (simp add: cap_Close_def) (simp add: conserved_def total_pending_def)
next
  case (cap_flush r order)
  then show ?case by (simp add: flush_begin_def conserved_def total_pending_def)
qed (auto intro: conserved_NewConn conserved_io_next conserved_visit conserved_take conserved_report)

section \<open>What an entry outside the map holds\<close>

text \<open>The bytes of an entry that no later flush visits: none for the current entry of a device, and
  for one that a flush is taking only those in counters it has taken already.\<close>

definition leftover :: "flushPc \<Rightarrow> nat \<Rightarrow> deviceUsage \<Rightarrow> int" where
  "leftover pc i d =
     (case pc of
        FlushTake _ _ j slots b _ \<Rightarrow>
          if j = i then pendingBytes d - sum_list (map (du_trafficBytes d) (untaken slots b)) else pendingBytes d
      | _ \<Rightarrow> pendingBytes d)"

definition stray :: "reporter \<Rightarrow> nat \<Rightarrow> int" where
  "stray r i = (if current r i then 0 else leftover (rp_flush r) i (rp_entries r ! i))"

definition strays :: "reporter \<Rightarrow> int" where
  "strays r = (\<Sum>i < length (rp_entries r). stray r i)"

lemma strays_le:
  assumes "length (rp_entries r') = length (rp_entries r)" and "i < length (rp_entries r)"
    and "\<And>j. j < length (rp_entries r) \<Longrightarrow> j \<noteq> i \<Longrightarrow> stray r' j \<le> stray r j" and "stray r' i \<le> stray r i + n"
  shows "strays r' \<le> strays r + n"
proof -
  have "strays r' \<le> (\<Sum>j < length (rp_entries r). stray r j + (if j = i then n else 0))"
    unfolding strays_def assms(1) using assms(3,4) by (intro sum_mono) auto
  also have "\<dots> = strays r + n" using assms(2) by (simp add: strays_def sum.distrib)
  finally show ?thesis .
qed

lemma strays_le_same:
  assumes "length (rp_entries r') = length (rp_entries r)"
    and "\<And>j. j < length (rp_entries r) \<Longrightarrow> stray r' j \<le> stray r j"
  shows "strays r' \<le> strays r"
  unfolding strays_def assms(1) using assms(2) by (intro sum_mono) auto

lemma leftover_nonneg:
  assumes "entry_ok d" and "\<And>todo reps slots b u. pc = FlushTake todo reps i slots b u \<Longrightarrow> distinct slots"
  shows "0 \<le> leftover pc i d"
proof -
  have p: "0 \<le> pendingBytes d" using assms(1) by (simp add: entry_ok_def pendingBytes_def slot_sum_def)
  have tb: "0 \<le> du_trafficBytes d s" for s using assms(1) by (simp add: entry_ok_def)
  have univ: "(UNIV :: trafficSlot set) = {TrafficLantern, TrafficProbe, TrafficOther, TrafficUnknown}"
    using trafficSlot.exhaust by auto
  then have slot_sum: "slot_sum (du_trafficBytes d) = (\<Sum>s \<in> UNIV. du_trafficBytes d s)" by (simp only: slot_sum_def univ) simp
  have fin: "finite (UNIV :: trafficSlot set)" by (simp add: univ)
  have "sum_list (map (du_trafficBytes d) xs) \<le> pendingBytes d" if "distinct xs" for xs
  proof -
    have "sum_list (map (du_trafficBytes d) xs) = (\<Sum>s \<in> set xs. du_trafficBytes d s)" using that by (simp add: sum_list_distinct_conv_sum_set)
    also have "\<dots> \<le> (\<Sum>s \<in> UNIV. du_trafficBytes d s)" using fin tb by (intro sum_mono2) auto
    finally show ?thesis using assms(1) slot_sum by (simp add: pendingBytes_def entry_ok_def)
  qed
  then show ?thesis using p assms(2) by (auto simp: leftover_def distinct_tl split: flushPc.splits)
qed

lemma current_updEntry: "same_entry f \<Longrightarrow> j < length (rp_entries r) \<Longrightarrow> current (updEntry i f r) j = current r j"
  using same_entry_id [of f j r i] by (simp add: current_def)

lemma stray_cong:
  "rp_entries r' = rp_entries r \<Longrightarrow> rp_devices r' = rp_devices r \<Longrightarrow> rp_flush r' = rp_flush r \<Longrightarrow> stray r' = stray r"
  by (simp add: fun_eq_iff stray_def current_def)

lemma strays_cong:
  "rp_entries r' = rp_entries r \<Longrightarrow> rp_devices r' = rp_devices r \<Longrightarrow> rp_flush r' = rp_flush r \<Longrightarrow> strays r' = strays r"
  using stray_cong [of r' r] by (simp add: strays_def)

lemma leftover_same:
  "pendingBytes d' = pendingBytes d \<Longrightarrow> du_trafficBytes d' = du_trafficBytes d \<Longrightarrow> leftover pc i d' = leftover pc i d"
  by (simp add: leftover_def split: flushPc.splits)

lemma strays_same_bytes:
  assumes "same_entry f" and "\<And>d. pendingBytes (f d) = pendingBytes d \<and> du_trafficBytes (f d) = du_trafficBytes d"
  shows "strays (updEntry i f r) = strays r"
  unfolding strays_def
proof (rule sum.cong)
  fix j assume "j \<in> {..<length (rp_entries r)}"
  then show "stray (updEntry i f r) j = stray r j"
    using assms by (auto simp: stray_def current_updEntry updEntry_nth intro!: leftover_same)
qed simp

lemma leftover_addBytes:
  assumes "0 < n"
  shows "leftover pc i (addBytes n c d) \<le> leftover pc i d + n"
proof -
  have "sum_list (map (du_trafficBytes d) xs) \<le> sum_list (map (du_trafficBytes (addBytes n c d)) xs)" for xs
    using assms by (induction xs) (auto simp: addBytes_def)
  then show ?thesis using assms by (auto simp: leftover_def split: flushPc.splits)
qed

lemma strays_io_next:
  assumes "cap_wf r" and t: "t < length (rp_threads r)" and "strays r \<le> rp_late r"
  shows "strays (io_next t r) \<le> rp_late (io_next t r)"
proof -
  let ?th = "rp_threads r ! t"
  let ?k = "rp_conns r ! io_conn ?th"
  let ?i = "cp_usage ?k"
  have tok: "thread_ok r ?th" using assms(1,2) by (simp add: cap_wf_def base_ok_def)
  then have k: "?k \<in> set (rp_conns r)" by (simp add: thread_ok_def)
  then have i: "?i < length (rp_entries r)" using assms(1) by (simp add: cap_wf_def base_ok_def)
  have pc: "strays (toPc t pc x) = strays x" for pc x by (rule strays_cong) (simp_all add: toPc_def)
  have co: "strays (updConn c f x) = strays x" for c f x by (rule strays_cong) (simp_all add: updConn_def)
  have late: "rp_late (toPc t pc x) = rp_late x" "rp_late (updConn c f x) = rp_late x" for pc x c f
    by (simp_all add: toPc_def updConn_def)
  have en: "strays (updEntry j flagTraffic r) = strays r" "strays (updEntry j (addConnection c) r) = strays r" for j c
    by (rule strays_same_bytes; simp; simp add: flagTraffic_def addConnection_def)+
  show ?thesis
  proof (cases "io_pc ?th")
    case IoAdd
    let ?r = "updEntry ?i (addBytes (io_bytes ?th) (cp_category ?k)) r"
    have "strays ?r \<le> strays r + (if cp_closed ?k then io_bytes ?th else 0)"
    proof (rule strays_le [OF _ i])
      show "stray ?r ?i \<le> stray r ?i + (if cp_closed ?k then io_bytes ?th else 0)"
      proof (cases "current r ?i")
        case True
        then show ?thesis using i tok by (simp add: stray_def current_updEntry thread_ok_def)
      next
        case False
        have "cp_closed ?k"
        proof (rule ccontr)
          assume "\<not> cp_closed ?k"
          then have "0 < open_conns ?i r" using k by (auto simp: open_conns_def filter_empty_conv)
          then show False using False assms(1) i by (simp add: cap_wf_def base_ok_def entries_ok_def)
        qed
        then show ?thesis using False i tok leftover_addBytes by (simp add: stray_def current_updEntry updEntry_nth thread_ok_def)
      qed
    qed (simp_all add: stray_def current_updEntry updEntry_nth)
    moreover have "strays (io_next t r) = strays ?r" using IoAdd by (intro strays_cong) (simp_all add: io_next_def Let_def)
    ultimately show ?thesis using IoAdd assms(3) by (simp add: io_next_def Let_def)
  qed (use assms(3) in \<open>simp_all add: io_next_def Let_def pc co late en\<close>)
qed

lemma strays_visit:
  assumes "cap_wf r" and fl: "rp_flush r = FlushScan todo reps"
  shows "strays (flush_visit r) \<le> strays r"
proof (cases todo)
  case Nil
  then show ?thesis using fl by (intro strays_le_same) (simp_all add: flush_visit_def stray_def current_def leftover_def)
next
  case (Cons x todo')
  obtain dev i where x: "x = (dev, i)" by (cases x)
  have d: "(dev, i) \<in> set (rp_devices r)" and dk: "devices_ok r"
    using assms Cons x by (auto simp: todo_ok_def cap_wf_def base_ok_def)
  then have get: "gget (rp_devices r) dev = Some i" by (intro map_of_is_SomeI) (auto simp: devices_ok_def)
  then have i: "i < length (rp_entries r)" "du_deviceID (rp_entries r ! i) = dev" using dk by (simp_all add: devices_ok_def)
  let ?r = "flush_visit r"
  have r: "length (rp_entries ?r) = length (rp_entries r)" "rp_flush ?r = FlushTake todo' reps i allSlots False (fst (take_begin (rp_entries (visitIdle dev i r) ! i)))"
    using fl Cons x by (simp_all add: flush_visit_def Let_def visitIdle_def)
  have n: "rp_entries ?r ! j = rp_entries r ! j" if "j < length (rp_entries r)" "j \<noteq> i" for j
    using that fl Cons x by (simp add: flush_visit_def Let_def visitIdle_def updEntry_nth updEntry_def)
  have idj: "du_deviceID (rp_entries ?r ! i) = dev"
    using i fl Cons x by (simp add: flush_visit_def Let_def visitIdle_def updEntry_def take_begin_def)
  have dv: "rp_devices ?r = rp_devices r \<or> rp_devices ?r = gdel dev (rp_devices r)"
    using fl Cons x by (simp add: flush_visit_def Let_def visitIdle_def)
  have unc: "du_uncategorized (rp_entries ?r ! i) = 0"
    using i fl Cons x by (simp add: flush_visit_def Let_def visitIdle_def updEntry_def take_begin_def)
  show ?thesis
  proof (rule strays_le_same [OF r(1)])
    fix j assume j: "j < length (rp_entries r)"
    show "stray ?r j \<le> stray r j"
    proof (cases "j = i")
      case True
      have "leftover (rp_flush ?r) i (rp_entries ?r ! i) = 0"
        by (simp add: r(2) leftover_def pendingBytes_def unc allSlots_def slot_sum_def)
      moreover have "stray r i = 0" using get i by (simp add: stray_def current_def)
      ultimately show ?thesis using True by (simp add: stray_def)
    next
      case False
      have "current ?r j = current r j"
        using dv n [OF j False] False get by (auto simp: current_def split: if_splits)
      then show ?thesis using False n [OF j False] fl by (simp add: stray_def r(2) leftover_def)
    qed
  qed
qed

lemma strays_take:
  assumes "cap_wf r" and fl: "rp_flush r = FlushTake todo reps i slots b u"
  shows "strays (flush_take r) \<le> strays r"
proof -
  have i: "i < length (rp_entries r)" "distinct slots" using assms by (auto simp: cap_wf_def partial_ok_def)
  let ?r = "flush_take r"
  show ?thesis
  proof (cases slots)
    case Nil
    then show ?thesis using fl
      by (intro strays_le_same) (simp_all add: flush_take_def Let_def stray_def current_def leftover_def)
  next
    case (Cons s slots')
    let ?f = "if b then (\<lambda>d. snd (take_conns s (u, d))) else (\<lambda>d. snd (take_bytes s (u, d)))"
    have same: "same_entry ?f" by simp
    have r: "rp_entries ?r = rp_entries (updEntry i ?f r)" "rp_devices ?r = rp_devices r"
      using fl Cons by (cases b; simp add: flush_take_def)+
    have cur: "j < length (rp_entries r) \<Longrightarrow> current ?r j = current r j" for j
      using current_updEntry [OF same, of j r i] by (simp add: current_def r)
    have "leftover (rp_flush ?r) i (?f d) = leftover (rp_flush r) i d" for d
    proof (cases b)
      case True
      then show ?thesis using fl Cons
        by (simp add: flush_take_def leftover_def pending_take(3)) (simp add: take_conns_def Let_def)
    next
      case False
      have m: "sum_list (map ((du_trafficBytes d)(s := 0)) slots') = sum_list (map (du_trafficBytes d) slots')"
        using i(2) Cons by (intro arg_cong [of _ _ sum_list]) auto
      show ?thesis using fl Cons False
        by (simp add: flush_take_def leftover_def) (simp only: take_bytes_def pendingBytes_def Let_def slot_sums, simp add: m slot_sums)
    qed
    moreover have "leftover (rp_flush ?r) j d = leftover (rp_flush r) j d" if "j \<noteq> i" for j d
      using fl Cons that by (cases b) (simp_all add: flush_take_def leftover_def)
    ultimately show ?thesis using i(1) r cur
      by (intro strays_le_same) (auto simp: stray_def updEntry_nth)
  qed
qed

lemma current_reinstated:
  assumes "gget (rp_devices r) (du_deviceID (rp_entries r ! i)) = None"
  shows "current (r\<lparr>rp_devices := gput (du_deviceID (rp_entries r ! i)) i (rp_devices r)\<rparr>) j
    \<longleftrightarrow> current r j \<or> (j = i \<or> (du_deviceID (rp_entries r ! j) = du_deviceID (rp_entries r ! i) \<and> j = i))"
  using assms by (auto simp: current_def)

lemma strays_restore:
  assumes "cap_wf r" and "\<not> scanning r" and i: "i < length (rp_entries r)"
  shows "strays (rep_restore i u r) \<le> strays r"
proof (cases "gget (rp_devices r) (du_deviceID (rp_entries r ! i))")
  case None
  let ?q = "r\<lparr>rp_devices := gput (du_deviceID (rp_entries r ! i)) i (rp_devices r)\<rparr>"
  have r: "rep_restore i u r = updEntry i (du_restore u) ?q" using None by (simp add: rep_restore_def)
  have nn: "0 \<le> leftover (rp_flush r) i (rp_entries r ! i)"
    using wf_entry [OF assms(1) i] assms(2) by (intro leftover_nonneg) (auto simp: scanning_def)
  have cur: "current (updEntry i (du_restore u) ?q) j = (current r j \<or> j = i)" if "j < length (rp_entries r)" for j
    using that current_reinstated [OF None, of j] current_updEntry [of "du_restore u" j ?q i] by auto
  show ?thesis unfolding r using nn cur
    by (intro strays_le_same) (auto simp: stray_def updEntry_nth)
next
  case (Some c)
  have dk: "devices_ok r" using assms(1) by (simp add: cap_wf_def base_ok_def)
  then have c: "current r c" using Some by (auto simp: devices_ok_def current_def)
  show ?thesis using Some c by (intro strays_le_same) (auto simp: rep_restore_def stray_def current_updEntry updEntry_nth)
qed

lemma strays_flush_report:
  assumes "cap_wf r" and fl: "rp_flush r = FlushSend reps" and k: "k < length reps"
  shows "strays (flush_report k a r) \<le> strays r"
proof -
  let ?i = "fst (reps ! k)" and ?u = "snd (reps ! k)"
  have "reps ! k \<in> set reps" "reports_ok r reps" using assms by (auto simp: cap_wf_def)
  then have i: "?i < length (rp_entries r)" by (auto simp: reports_ok_def case_prod_unfold)
  have lo: "strays (x\<lparr>rp_flush := pc\<rparr>) = strays x" if "rp_flush x = FlushSend reps" "pc = FlushIdle \<or> (\<exists>q. pc = FlushSend q)" for x pc
  proof -
    have "leftover pc j d = leftover (rp_flush x) j d" for j d using that by (auto simp: leftover_def)
    then show ?thesis by (auto simp: strays_def stray_def current_def intro!: sum.cong)
  qed
  have "strays (report ?i ?u a r) \<le> strays r"
  proof (cases a)
    case None
    let ?x = "r\<lparr>rp_sent := rp_sent r @ [reportOf (rp_entries r ! ?i) ?u]\<rparr>"
    have "strays (rep_restore ?i ?u ?x) \<le> strays ?x"
      using wf_ghost(3) [OF assms(1)] i fl by (intro strays_restore) (simp_all add: scanning_def)
    moreover have "strays ?x = strays r" by (rule strays_cong) simp_all
    ultimately show ?thesis using None by (simp add: report_def Let_def)
  next
    case (Some b)
    have "strays (report ?i ?u a r) = strays r"
      by (rule strays_cong) (use Some in \<open>auto simp: report_def Let_def updThrottler_def split: option.splits\<close>)
    then show ?thesis by simp
  qed
  moreover have "strays (flush_report k a r) = strays (report ?i ?u a r)"
    using fl by (auto simp: flush_report_def Let_def lo)
  ultimately show ?thesis by simp
qed

lemma strays_NewConn:
  assumes "cap_wf r" and "\<not> scanning r"
  shows "strays (cap_NewConn category info throttler now r) \<le> strays r"
proof -
  obtain i r1 where e: "entry_for info throttler now r = (i, r1)" by (metis surj_pair)
  have "strays r1 \<le> strays r"
  proof (cases "gget (rp_devices r) (DeviceID info)")
    case None
    obtain thr x where n: "newThrottlerAt throttler now r = (thr, x)" by (metis surj_pair)
    then have x: "rp_entries x = rp_entries r" "rp_devices x = rp_devices r" "rp_flush x = rp_flush r"
      by (auto simp: newThrottlerAt_def split: option.splits)
    then have r1: "rp_entries r1 = rp_entries r @ [newEntry info thr]" "rp_devices r1 = gput (DeviceID info) (length (rp_entries r)) (rp_devices r)"
      "rp_flush r1 = rp_flush r" using e None n by (auto simp: entry_for_def Let_def)
    have "stray r1 (length (rp_entries r)) = 0" by (simp add: stray_def current_def r1 newEntry_def)
    moreover have "stray r1 j = stray r j" if "j < length (rp_entries r)" for j
      using that None by (auto simp: stray_def current_def r1 nth_append)
    ultimately show ?thesis by (simp add: strays_def r1)
  next
    case (Some j)
    then show ?thesis using e by (simp add: entry_for_def)
  qed
  moreover have "strays (updEntry i (\<lambda>d. d\<lparr>du_info := info, du_conns := du_conns d + 1\<rparr>) r1) = strays r1"
  proof -
    have "stray (updEntry i (\<lambda>d. d\<lparr>du_info := info, du_conns := du_conns d + 1\<rparr>) r1) j = stray r1 j" if "j < length (rp_entries r1)" for j
      using that by (auto simp: stray_def current_def updEntry_nth intro!: leftover_same)
    then show ?thesis by (simp add: strays_def)
  qed
  moreover have "strays (cap_NewConn category info throttler now r) = strays (updEntry i (\<lambda>d. d\<lparr>du_info := info, du_conns := du_conns d + 1\<rparr>) r1)"
    by (rule strays_cong) (simp_all add: cap_NewConn_def acquire_eq e)
  ultimately show ?thesis by simp
qed

lemma strays_step: "cap_step r r' \<Longrightarrow> cap_wf r \<Longrightarrow> strays r \<le> rp_late r \<Longrightarrow> strays r' \<le> rp_late r'"
proof (induction rule: cap_step.induct)
  case (cap_open r throttler category info now)
  have "rp_late (cap_NewConn category info throttler now r) = rp_late r"
    by (auto simp: cap_NewConn_def acquire_def newThrottlerAt_def Let_def split: option.splits)
  then show ?case using strays_NewConn [of r category info throttler now] cap_open by simp
next
  case (cap_shared r now)
  have "strays (r\<lparr>rp_throttlers := rp_throttlers r @ [NewThrottler now 0]\<rparr>) = strays r" by (rule strays_cong) simp_all
  then show ?case using cap_shared by simp
next
  case (cap_io c r n b)
  have "strays (io_start c n b r) = strays r" by (rule strays_cong) (simp_all add: io_start_def)
  then show ?case using cap_io by (simp add: io_start_def)
next
  case (cap_packet c r n b)
  have "strays (packet_start c n b r) = strays r" by (rule strays_cong) (simp_all add: packet_start_def)
  then show ?case using cap_packet by (simp add: packet_start_def)
next
  case (cap_next t r)
  then show ?case by (intro strays_io_next)
next
  case (cap_close c r)
  have "stray (release i x) j = stray x j" if "j < length (rp_entries x)" for i x j
    using that by (auto simp: release_def stray_def current_def updEntry_nth intro!: leftover_same)
  then have "strays (release i x) = strays x" for i x by (simp add: strays_def release_def)
  moreover have "strays (r\<lparr>rp_conns := k\<rparr>) = strays r" for k by (rule strays_cong) simp_all
  ultimately show ?case using cap_close by (simp add: cap_Close_def) (simp add: release_def)
next
  case (cap_flush r order)
  have "strays (flush_begin order r) = strays r" using cap_flush(1)
    by (auto simp: strays_def stray_def current_def flush_begin_def leftover_def intro!: sum.cong)
  then show ?case using cap_flush by (simp add: flush_begin_def)
next
  case (cap_visit r todo reports)
  have "rp_late (flush_visit r) = rp_late r"
    by (auto simp: flush_visit_def Let_def visitIdle_def split: flushPc.splits list.splits)
  then show ?case using strays_visit [of r todo reports] cap_visit by simp
next
  case (cap_take r todo reports i slots b u)
  have "rp_late (flush_take r) = rp_late r"
    by (auto simp: flush_take_def Let_def split: flushPc.splits list.splits bool.splits)
  then show ?case using strays_take [of r todo reports i slots b u] cap_take by simp
next
  case (cap_report r reports k answer)
  have "rp_late (flush_report k answer r) = rp_late r"
    by (auto simp: flush_report_def report_def rep_restore_def updThrottler_def Let_def split: flushPc.splits option.splits)
  then show ?case using strays_flush_report [of r reports k answer] cap_report by simp
qed

section \<open>Connection counts\<close>

text \<open>The reads and writes that still have bytes to add to a slot of an entry.\<close>

definition adding :: "reporter \<Rightarrow> nat \<Rightarrow> trafficSlot \<Rightarrow> ioThread \<Rightarrow> bool" where
  "adding r i s t \<longleftrightarrow> (let k = rp_conns r ! io_conn t in
     cp_usage k = i \<and> cp_category k \<noteq> '''' \<and> trafficSlot_of (cp_category k) = s \<and> io_pc t \<in> {IoFlagBytes, IoAdd})"

definition adders :: "reporter \<Rightarrow> nat \<Rightarrow> trafficSlot \<Rightarrow> int" where
  "adders r i s = sum_list (map (\<lambda>t. if adding r i s t then 1 else 0) (rp_threads r))"

fun held :: "flushPc \<Rightarrow> nat \<Rightarrow> trafficSlot \<Rightarrow> int" where
  "held (FlushTake _ _ j (s' # _) True u) i s = (if j = i \<and> s' = s then ud_trafficBytes u s else 0)"
| "held _ i s = 0"

definition gap :: "reporter \<Rightarrow> nat \<Rightarrow> trafficSlot \<Rightarrow> int" where
  "gap r i s = du_trafficConns (rp_entries r ! i) s - du_trafficBytes (rp_entries r ! i) s - adders r i s - held (rp_flush r) i s"

definition counts_ok :: "reporter \<Rightarrow> bool" where
  "counts_ok r \<longleftrightarrow> (\<forall>i < length (rp_entries r). \<forall>s. gap r i s \<le> 0)"

lemma counts_le:
  assumes "counts_ok r" and "length (rp_entries r') = length (rp_entries r)"
    and "\<And>i s. i < length (rp_entries r) \<Longrightarrow> gap r' i s \<le> gap r i s"
  shows "counts_ok r'"
  using assms order_trans unfolding counts_ok_def by metis

lemma gap_cong:
  "rp_entries r' = rp_entries r \<Longrightarrow> rp_conns r' = rp_conns r \<Longrightarrow> rp_threads r' = rp_threads r \<Longrightarrow> rp_flush r' = rp_flush r \<Longrightarrow>
   gap r' i s = gap r i s"
  by (simp add: gap_def adders_def adding_def)

lemma adders_toPc:
  assumes "t < length (rp_threads r)"
  shows "adders (toPc t pc r) i s = adders r i s
    + (if adding r i s ((rp_threads r ! t)\<lparr>io_pc := pc\<rparr>) then 1 else 0) - (if adding r i s (rp_threads r ! t) then 1 else 0)"
proof -
  have "adding (toPc t pc r) i s = adding r i s" by (simp add: fun_eq_iff adding_def toPc_def)
  then show ?thesis using assms by (simp add: adders_def) (simp add: toPc_def sum_list_upd)
qed

lemma adders_updEntry [simp]: "adders (updEntry j f r) i s = adders r i s"
  by (simp add: adders_def adding_def)

lemma adding_updConn:
  assumes "\<And>k. cp_usage (f k) = cp_usage k \<and> cp_category (f k) = cp_category k"
  shows "adding (updConn c f r) i s t = adding r i s t"
  using assms by (simp add: adding_def updConn_nth Let_def)

lemma gap_toPc:
  assumes "t < length (rp_threads r)"
  shows "gap (toPc t pc r) i s = gap r i s
    - (if adding r i s ((rp_threads r ! t)\<lparr>io_pc := pc\<rparr>) then 1 else 0) + (if adding r i s (rp_threads r ! t) then 1 else 0)"
  using adders_toPc [OF assms] by (simp add: gap_def) (simp add: toPc_def)

lemma gap_updConn:
  assumes "\<And>k. cp_usage (f k) = cp_usage k \<and> cp_category (f k) = cp_category k"
  shows "gap (updConn c f r) i s = gap r i s"
  using adding_updConn [OF assms] by (simp add: gap_def adders_def) (simp add: updConn_def)

lemma gap_updEntry:
  "i < length (rp_entries r) \<Longrightarrow> gap (updEntry j f r) i s = gap r i s
     + (if i = j then du_trafficConns (f (rp_entries r ! j)) s - du_trafficBytes (f (rp_entries r ! j)) s
          - (du_trafficConns (rp_entries r ! j) s - du_trafficBytes (rp_entries r ! j) s) else 0)"
  by (simp add: gap_def updEntry_nth)

lemma counts_io_next:
  assumes "cap_wf r" and t: "t < length (rp_threads r)" and "counts_ok r"
  shows "counts_ok (io_next t r)"
proof -
  let ?th = "rp_threads r ! t"
  let ?k = "rp_conns r ! io_conn ?th"
  have tok: "thread_ok r ?th" using assms(1,2) by (simp add: cap_wf_def base_ok_def)
  have len: "length (rp_entries (io_next t r)) = length (rp_entries r)"
    by (simp add: io_next_def Let_def toPc_def updConn_def split: ioPc.splits)
  show ?thesis
  proof (rule counts_le [OF assms(3) len])
    fix i s assume i: "i < length (rp_entries r)"
    have t': "t < length (rp_threads (updEntry j f r))" "t < length (rp_threads (updConn c g r))" for j f c g
      using t by (simp_all add: updConn_def)
    show "gap (io_next t r) i s \<le> gap r i s"
    proof (cases "io_pc ?th")
      case IoMark
      then show ?thesis
        by (simp add: io_next_def Let_def gap_toPc [OF t'(2)] gap_updConn adding_updConn) (simp add: adding_def updConn_def Let_def)
    next
      case IoCheck
      then show ?thesis using t
        by (simp add: io_next_def Let_def gap_toPc gap_toPc [OF t'(2)] gap_updConn adding_updConn)
           (simp add: adding_def updConn_def Let_def)
    next
      case IoFlagConn
      then show ?thesis using t i
        by (simp add: io_next_def Let_def gap_toPc gap_updEntry flagTraffic_def adding_def)
    next
      case IoCount
      then have "cp_category ?k \<noteq> ''''" using tok by (simp add: thread_ok_def)
      then show ?thesis using IoCount t i
        by (simp add: io_next_def Let_def gap_toPc gap_updEntry addConnection_def adding_def)
    next
      case IoFlagBytes
      then show ?thesis using t i
        by (simp add: io_next_def Let_def gap_toPc gap_updEntry flagTraffic_def adding_def)
    next
      case IoAdd
      have a: "adders (io_next t r) i s = adders r i s - (if adding r i s ?th then 1 else 0)"
      proof -
        have "adding (io_next t r) i s = adding r i s" using IoAdd by (simp add: fun_eq_iff adding_def io_next_def Let_def)
        moreover have "rp_threads (io_next t r) = take t (rp_threads r) @ drop (Suc t) (rp_threads r)"
          using IoAdd by (simp add: io_next_def Let_def)
        ultimately show ?thesis using sum_list_del [OF t] by (simp add: adders_def)
      qed
      have "rp_entries (io_next t r) = rp_entries (updEntry (cp_usage ?k) (addBytes (io_bytes ?th) (cp_category ?k)) r)"
        "rp_flush (io_next t r) = rp_flush r" using IoAdd by (simp_all add: io_next_def Let_def)
      then show ?thesis using i tok IoAdd
        by (auto simp: gap_def a updEntry_nth addBytes_def adding_def Let_def thread_ok_def)
    qed
  qed
qed

lemma adders_nonneg: "0 \<le> adders r i s"
  unfolding adders_def by (induction "rp_threads r") (auto intro!: sum_list_nonneg)

lemma held_other: "(\<And>todo reps j slots u. pc \<noteq> FlushTake todo reps j slots True u) \<Longrightarrow> held pc i s = 0"
  by (cases "(pc, i, s)" rule: held.cases) auto

lemma counts_visit:
  assumes "cap_wf r" and fl: "rp_flush r = FlushScan todo reps" and "counts_ok r"
  shows "counts_ok (flush_visit r)"
proof (rule counts_le [OF assms(3)])
  show "length (rp_entries (flush_visit r)) = length (rp_entries r)"
    using fl by (auto simp: flush_visit_def Let_def visitIdle_def split: list.splits)
  fix i s assume i: "i < length (rp_entries r)"
  have a: "adders (flush_visit r) i s = adders r i s"
    using fl by (auto simp: flush_visit_def Let_def visitIdle_def adders_def adding_def split: list.splits)
  have h: "held (rp_flush (flush_visit r)) i s = 0" "held (rp_flush r) i s = 0"
    using fl by (auto simp: flush_visit_def Let_def intro!: held_other split: list.splits)
  have e: "du_trafficConns (rp_entries (flush_visit r) ! i) = du_trafficConns (rp_entries r ! i)
      \<and> du_trafficBytes (rp_entries (flush_visit r) ! i) = du_trafficBytes (rp_entries r ! i)"
    using fl i by (auto simp: flush_visit_def Let_def visitIdle_def updEntry_nth take_begin_def split: list.splits)
  show "gap (flush_visit r) i s \<le> gap r i s" using a h e by (simp add: gap_def)
qed

lemma counts_take:
  assumes "cap_wf r" and fl: "rp_flush r = FlushTake todo reps i slots b u" and "counts_ok r"
  shows "counts_ok (flush_take r)"
proof (cases slots)
  case Nil
  have "gap (flush_take r) j s = gap r j s" for j s
    using fl Nil by (cases b) (simp_all add: flush_take_def Let_def gap_def adders_def adding_def)
  then show ?thesis using assms(3) fl Nil by (simp add: counts_ok_def) (simp add: flush_take_def Let_def)
next
  case (Cons s slots')
  have i: "i < length (rp_entries r)" and pok: "partial_ok slots b u" using assms(1,2) by (auto simp: cap_wf_def)
  show ?thesis
  proof (cases b)
    case False
    have r: "flush_take r = (updEntry i (\<lambda>d. snd (take_bytes s (u, d))) r)
        \<lparr>rp_flush := FlushTake todo reps i (s # slots') True (fst (take_bytes s (u, rp_entries r ! i)))\<rparr>"
      using fl Cons False by (simp add: flush_take_def)
    show ?thesis
    proof (rule counts_le [OF assms(3)])
      fix j s' assume "j < length (rp_entries r)"
      then show "gap (flush_take r) j s' \<le> gap r j s'"
        using fl Cons False unfolding r
        by (simp add: gap_def updEntry_nth adders_def adding_def) (simp add: take_bytes_def Let_def)
    qed (simp add: r)
  next
    case True
    have r: "flush_take r = (updEntry i (\<lambda>d. snd (take_conns s (u, d))) r)
        \<lparr>rp_flush := FlushTake todo reps i slots' False (fst (take_conns s (u, rp_entries r ! i)))\<rparr>"
      using fl Cons True by (simp add: flush_take_def)
    have "gap (flush_take r) j s' \<le> 0" if j: "j < length (rp_entries r)" for j s'
    proof -
      have g: "gap r j s' \<le> 0" using assms(3) j by (simp add: counts_ok_def)
      have tb: "0 \<le> du_trafficBytes (rp_entries r ! j) s'" using wf_entry [OF assms(1) j] by (simp add: entry_ok_def)
      have a: "adders (flush_take r) j s' = adders r j s'" unfolding r by (simp add: adders_def adding_def)
      have h: "held (rp_flush (flush_take r)) j s' = 0" unfolding r by (cases slots') simp_all
      have e: "rp_entries (flush_take r) ! j = (if j = i then snd (take_conns s (u, rp_entries r ! i)) else rp_entries r ! j)"
        using j unfolding r by (simp add: updEntry_nth)
      let ?e = "if j = i then snd (take_conns s (u, rp_entries r ! i)) else rp_entries r ! j"
      have "gap (flush_take r) j s' = du_trafficConns ?e s' - du_trafficBytes ?e s' - adders r j s'"
        by (simp only: gap_def a h e)
      then show ?thesis using g tb adders_nonneg [of r j s'] fl Cons True
        by (cases "j = i \<and> s' = s") (auto simp: gap_def [of r] take_conns_def Let_def)
    qed
    then show ?thesis by (simp add: counts_ok_def r)
  qed
qed

lemma counts_report:
  assumes "cap_wf r" and fl: "rp_flush r = FlushSend reps" and k: "k < length reps" and "counts_ok r"
  shows "counts_ok (flush_report k a r)"
proof -
  let ?i = "fst (reps ! k)" and ?u = "snd (reps ! k)"
  have "reps ! k \<in> set reps" "reports_ok r reps" using assms by (auto simp: cap_wf_def)
  then have u: "delta_ok ?u" by (auto simp: reports_ok_def case_prod_unfold)
  let ?x = "report ?i ?u a r"
  have c: "counts_ok ?x"
  proof (rule counts_le [OF assms(4)])
    fix j s assume j: "j < length (rp_entries r)"
    have le: "ud_trafficConns ?u s \<le> ud_trafficBytes ?u s" using u by (simp add: delta_ok_def)
    show "gap ?x j s \<le> gap r j s"
    proof (cases a)
      case None
      then show ?thesis using j le
        by (auto simp: report_def Let_def rep_restore_def gap_updEntry du_restore_def gap_def adders_def adding_def updEntry_nth split: option.splits)
    next
      case (Some b)
      then have "gap ?x j s = gap r j s"
        by (intro gap_cong) (auto simp: report_def Let_def updThrottler_def split: option.splits)
      then show ?thesis by simp
    qed
  qed (rule length_report)
  have "gap (flush_report k a r) j s = gap ?x j s" for j s
    using fl by (simp add: flush_report_def Let_def gap_def adders_def adding_def)
  then show ?thesis using c fl by (simp add: counts_ok_def) (simp add: flush_report_def Let_def)
qed

lemma adding_append:
  "io_conn t < length (rp_conns r) \<Longrightarrow> rp_conns r' = rp_conns r @ ks \<Longrightarrow> adding r' i s t = adding r i s t"
  by (simp add: adding_def nth_append)

lemma counts_NewConn:
  assumes "cap_wf r" and "\<not> scanning r" and "counts_ok r"
  shows "counts_ok (cap_NewConn category info throttler now r)"
proof -
  let ?f = "\<lambda>d. d\<lparr>du_info := info, du_conns := du_conns d + 1\<rparr>"
  obtain i r1 where e: "entry_for info throttler now r = (i, r1)" by (metis surj_pair)
  have r1: "\<exists>es. rp_entries r1 = rp_entries r @ es \<and> (\<forall>d \<in> set es. du_trafficConns d = (\<lambda>_. 0) \<and> du_trafficBytes d = (\<lambda>_. 0))"
    "rp_conns r1 = rp_conns r" "rp_threads r1 = rp_threads r" "rp_flush r1 = rp_flush r"
    using e by (auto simp: entry_for_def newThrottlerAt_def newEntry_def Let_def split: option.splits)
  then obtain es where es: "rp_entries r1 = rp_entries r @ es" "\<forall>d \<in> set es. du_trafficConns d = (\<lambda>_. 0) \<and> du_trafficBytes d = (\<lambda>_. 0)"
    by blast
  let ?r = "cap_NewConn category info throttler now r"
  have r: "rp_entries ?r = rp_entries (updEntry i ?f r1)" "rp_threads ?r = rp_threads r" "rp_flush ?r = rp_flush r"
    "\<exists>k. rp_conns ?r = rp_conns r @ [k]"
    using r1 by (simp_all add: cap_NewConn_def acquire_eq e)
  obtain k where k: "rp_conns ?r = rp_conns r @ [k]" using r(4) by blast
  have thr: "\<forall>t \<in> set (rp_threads r). io_conn t < length (rp_conns r)" using assms(1) by (simp add: cap_wf_def base_ok_def thread_ok_def)
  have "map (\<lambda>t. if adding ?r j s t then 1 else 0 :: int) (rp_threads r) = map (\<lambda>t. if adding r j s t then 1 else 0) (rp_threads r)" for j s
    using thr adding_append [OF _ k] by simp
  then have a: "adders ?r j s = adders r j s" for j s by (simp only: adders_def r(2))
  have h: "held (rp_flush r) j s = 0" for j s using assms(2) by (intro held_other) (auto simp: scanning_def)
  have "gap ?r j s \<le> 0" if "j < length (rp_entries ?r)" for j s
  proof -
    have j: "j < length (rp_entries r1)" using that r(1) by simp
    have t: "du_trafficConns (rp_entries ?r ! j) s - du_trafficBytes (rp_entries ?r ! j) s
        = du_trafficConns (rp_entries r1 ! j) s - du_trafficBytes (rp_entries r1 ! j) s"
      unfolding r(1) using j by (simp add: updEntry_nth)
    show ?thesis
    proof (cases "j < length (rp_entries r)")
      case True
      then have "gap ?r j s = gap r j s" using t a by (simp add: gap_def r(3) es nth_append)
      then show ?thesis using assms(3) True by (simp add: counts_ok_def)
    next
      case False
      then have "rp_entries r1 ! j \<in> set es" using j es(1) by (simp add: nth_append)
      then show ?thesis using t a h es(2) adders_nonneg [of r j s] by (simp add: gap_def r(3))
    qed
  qed
  then show ?thesis by (simp add: counts_ok_def)
qed

lemma counts_start: "counts_ok r \<Longrightarrow> counts_ok (r\<lparr>rp_threads := rp_threads r @ [t]\<rparr>)"
  by (rule counts_le) (auto simp: gap_def adders_def adding_def)

lemma counts_step: "cap_step r r' \<Longrightarrow> cap_wf r \<Longrightarrow> counts_ok r \<Longrightarrow> counts_ok r'"
proof (induction rule: cap_step.induct)
  case (cap_shared r now)
  then show ?case by (elim counts_le) (simp_all add: gap_def adders_def adding_def)
next
  case (cap_io c r n b)
  then show ?case using counts_start by (simp add: io_start_def)
next
  case (cap_packet c r n b)
  then show ?case using counts_start by (simp add: packet_start_def)
next
  case (cap_close c r)
  have "gap (cap_Close c r) i s = gap r i s" if "i < length (rp_entries r)" for i s
  proof -
    have "adding (cap_Close c r) i s = adding r i s"
      using cap_close(1) by (auto simp: fun_eq_iff adding_def cap_Close_def release_def nth_list_update Let_def)
    then show ?thesis using that
      by (simp add: gap_def adders_def) (simp add: cap_Close_def release_def updEntry_nth)
  qed
  then show ?case using cap_close by (elim counts_le) (simp_all add: cap_Close_def release_def)
next
  case (cap_flush r order)
  have "held (rp_flush r) i s = 0" for i s using cap_flush(1) by simp
  then show ?case using cap_flush by (elim counts_le) (simp_all add: flush_begin_def gap_def adders_def adding_def)
qed (auto intro: counts_NewConn counts_io_next counts_visit counts_take counts_report)

text \<open>What the sidecar accepts: the categories of a report are within its total, and none has more
  connections than bytes.\<close>

fun traffic_ok :: "int \<Rightarrow> TrafficUsage \<Rightarrow> bool" where
  "traffic_ok n t \<longleftrightarrow>
     LanternBytes t + ProbeBytes t + OtherBytes t + UnknownBytes t \<le> n
     \<and> 0 \<le> LanternConnections t \<and> LanternConnections t \<le> LanternBytes t
     \<and> 0 \<le> ProbeConnections t \<and> ProbeConnections t \<le> ProbeBytes t
     \<and> 0 \<le> OtherConnections t \<and> OtherConnections t \<le> OtherBytes t
     \<and> 0 \<le> UnknownConnections t \<and> UnknownConnections t \<le> UnknownBytes t"

definition report_ok :: "DataCapReport \<Rightarrow> bool" where
  "report_ok p \<longleftrightarrow> 0 \<le> dr_BytesUsed p \<and> (case dr_TrafficUsage p of None \<Rightarrow> True | Some t \<Rightarrow> traffic_ok (dr_BytesUsed p) t)"

lemma report_ok_delta: "delta_ok u \<Longrightarrow> report_ok (reportOf d u)"
  using delta_nonneg [of u TrafficLantern] delta_nonneg [of u TrafficProbe] delta_nonneg [of u TrafficOther]
    delta_nonneg [of u TrafficUnknown]
  by (auto simp: report_ok_def reportOf_def trafficUsage_def delta_ok_def slot_sum_def)

lemma sent_fields [simp]:
  "rp_sent (toPc t pc r) = rp_sent r" "rp_sent (updConn c g r) = rp_sent r" "rp_sent (visitIdle dev i r) = rp_sent r"
  by (simp_all add: toPc_def updConn_def visitIdle_def Let_def)

lemma sent_step:
  assumes "cap_step r r'" and "cap_wf r" and "\<forall>p \<in> set (rp_sent r). report_ok p"
  shows "\<forall>p \<in> set (rp_sent r'). report_ok p"
  using assms
proof (induction rule: cap_step.induct)
  case (cap_report r reports k answer)
  then have "reports ! k \<in> set reports" "reports_ok r reports" by (auto simp: cap_wf_def)
  then have "delta_ok (snd (reports ! k))" by (auto simp: reports_ok_def case_prod_unfold)
  moreover have "rp_sent (flush_report k answer r)
      = rp_sent r @ [reportOf (rp_entries r ! fst (reports ! k)) (snd (reports ! k))]"
    using cap_report(1) by (auto simp: flush_report_def report_def rep_restore_def updThrottler_def Let_def split: option.splits)
  ultimately show ?case using cap_report(4) report_ok_delta by simp
next
  case (cap_open r throttler category info now)
  then show ?case by (auto simp: cap_NewConn_def acquire_def newThrottlerAt_def Let_def split: option.splits)
next
  case (cap_next t r)
  then show ?case by (simp add: io_next_def Let_def split: ioPc.splits)
next
  case (cap_visit r todo reports)
  then show ?case by (simp add: flush_visit_def Let_def split: list.splits)
next
  case (cap_take r todo reports i slots b u)
  then show ?case by (simp add: flush_take_def Let_def split: list.splits bool.splits)
qed (simp_all add: io_start_def packet_start_def cap_Close_def release_def flush_begin_def)

definition cap_inv :: "reporter \<Rightarrow> bool" where
  "cap_inv r \<longleftrightarrow> cap_wf r \<and> conserved r \<and> strays r \<le> rp_late r \<and> counts_ok r \<and> (\<forall>p \<in> set (rp_sent r). report_ok p)"

definition cap_new :: "reporter \<Rightarrow> bool" where
  "cap_new r \<longleftrightarrow> r = NewReporter"

interpretation cap: invariant_system cap_new cap_step cap_inv
proof
  show "cap_inv r" if "cap_new r" for r
    using wf_new that
    by (auto simp: cap_new_def cap_inv_def conserved_def strays_def counts_ok_def total_pending_def NewReporter_def)
  show "cap_inv r'" if "cap_inv r" "cap_step r r'" for r r'
    using that wf_step conserved_step strays_step counts_step sent_step by (simp add: cap_inv_def)
qed

section \<open>Properties\<close>

definition unvisited :: "reporter \<Rightarrow> int" where
  "unvisited r = (\<Sum>i < length (rp_entries r). if current r i then 0 else pendingBytes (rp_entries r ! i))"

lemma strays_unvisited: "\<not> scanning r \<Longrightarrow> strays r = unvisited r"
  by (cases "rp_flush r") (auto simp: scanning_def strays_def unvisited_def stray_def leftover_def intro!: sum.cong)

text \<open>C19: whatever the connections of the devices, the flush and the sidecar do and however their steps
  interleave, every counted byte is in exactly one place: accepted by the sidecar, in a report that is out or
  being put together, or pending on an entry. Between scans the entries that no later flush visits hold at most the bytes
  counted after their connection was closed, and no open connection counts into one of them.\<close>

theorem usage_conserved:
  assumes "reaches cap_new cap_step r"
  shows "rp_counted r = rp_acked r + flying (rp_flush r) + total_pending r
    \<and> (\<not> scanning r \<longrightarrow> unvisited r \<le> rp_late r)
    \<and> (\<forall>i < length (rp_entries r). \<not> current r i \<longrightarrow> open_conns i r = 0)"
proof -
  have inv: "cap_inv r" using cap.reaches_inv [OF assms] .
  then have wf: "entries_ok r" by (simp add: cap_inv_def cap_wf_def base_ok_def)
  have "open_conns i r = 0" if "i < length (rp_entries r)" "\<not> current r i" for i
    using wf that by (auto simp: entries_ok_def open_conns_def)
  then show ?thesis using inv strays_unvisited by (auto simp: cap_inv_def conserved_def)
qed

text \<open>Every report sent is one the sidecar accepts: its categories are within its total and none has
  more connections than bytes. Nor does a connection count wait for bytes that never come: on an entry
  that no read or write is adding to and no flush is taking, the counts of a category are within its
  bytes, so the next report takes them all.\<close>

lemma counts_carried:
  assumes "reaches cap_new cap_step r"
  shows "(\<forall>p \<in> set (rp_sent r). report_ok p)
    \<and> (\<forall>i < length (rp_entries r). \<forall>s. \<not> scanning r \<and> adders r i s = 0 \<longrightarrow>
         du_trafficConns (rp_entries r ! i) s \<le> du_trafficBytes (rp_entries r ! i) s)"
proof -
  have inv: "cap_inv r" using cap.reaches_inv [OF assms] .
  have "du_trafficConns (rp_entries r ! i) s \<le> du_trafficBytes (rp_entries r ! i) s"
    if "i < length (rp_entries r)" "\<not> scanning r" "adders r i s = 0" for i s
  proof -
    have "gap r i s \<le> 0" using inv that(1) by (simp add: cap_inv_def counts_ok_def)
    moreover have "held (rp_flush r) i s = 0" using that(2) by (intro held_other) (auto simp: scanning_def)
    ultimately show ?thesis using that(3) by (simp add: gap_def)
  qed
  then show ?thesis using inv by (auto simp: cap_inv_def)
qed

section \<open>An example run\<close>

text \<open>A connection reads five bytes and writes three, a flush takes them and the sidecar refuses the first
  report and accepts the second.\<close>

fun cap_try :: "nat \<Rightarrow> reporter \<Rightarrow> reporter" where
  "cap_try k r =
     (if rp_threads r \<noteq> [] then io_next 0 r
      else (case rp_flush r of
              FlushScan _ _ \<Rightarrow> flush_visit r
            | FlushTake _ _ _ _ _ _ \<Rightarrow> flush_take r
            | FlushSend _ \<Rightarrow> flush_report 0 (if k = 0 then None else Some (False, 0)) r
            | FlushIdle \<Rightarrow> flush_begin (\<lambda>m. m) r))"

lemma cap_try_reaches:
  assumes "reaches cap_new cap_step r" and "rp_flush r \<noteq> FlushSend []"
  shows "reaches cap_new cap_step (cap_try k r)"
proof (rule reaches_step [OF assms(1)])
  show "cap_step r (cap_try k r)"
  proof (cases "rp_threads r = []")
    case True
    then show ?thesis using assms(2)
      by (cases "rp_flush r") (auto intro: cap_flush cap_visit cap_take cap_report simp: neq_Nil_conv)
  next
    case False
    then show ?thesis using cap_next [of 0 r] by simp
  qed
qed

fun cap_run :: "nat \<Rightarrow> nat \<Rightarrow> reporter \<Rightarrow> reporter" where
  "cap_run k 0 r = r"
| "cap_run k (Suc n) r = cap_run k n (cap_try k r)"

fun cap_run_ok :: "nat \<Rightarrow> nat \<Rightarrow> reporter \<Rightarrow> bool" where
  "cap_run_ok k 0 r = True"
| "cap_run_ok k (Suc n) r = ((case rp_flush r of FlushSend reps \<Rightarrow> reps \<noteq> [] | _ \<Rightarrow> True) \<and> cap_run_ok k n (cap_try k r))"

lemma cap_run_reaches: "reaches cap_new cap_step r \<Longrightarrow> cap_run_ok k n r \<Longrightarrow> reaches cap_new cap_step (cap_run k n r)"
proof (induction n arbitrary: r)
  case (Suc n)
  then have "rp_flush r \<noteq> FlushSend []" by auto
  with Suc show ?case by (simp add: cap_try_reaches del: cap_try.simps)
qed simp

definition exampleOpened :: reporter where
  "exampleOpened = cap_NewConn ''other'' \<lparr>DeviceID = ''d'', Platform = [], IsPro = False, CountryCode = [], Version = []\<rparr> None 0 NewReporter"

definition exampleCounted :: reporter where
  "exampleCounted = cap_run 0 6 (io_start 0 3 False (cap_run 0 4 (io_start 0 5 True exampleOpened)))"

definition exampleReported :: reporter where
  "exampleReported = cap_run 1 13 (cap_run 0 13 exampleCounted)"

lemma exampleReported_reaches: "reaches cap_new cap_step exampleReported"
proof -
  have "reaches cap_new cap_step NewReporter" by (simp add: reaches_init cap_new_def)
  then have "reaches cap_new cap_step exampleOpened"
    unfolding exampleOpened_def by (rule reaches_step) (rule cap_open, simp_all add: scanning_def NewReporter_def)
  then have "reaches cap_new cap_step (io_start 0 5 True exampleOpened)"
    by (rule reaches_step) (rule cap_io, simp_all add: exampleOpened_def cap_NewConn_def case_prod_unfold Let_def)
  then have "reaches cap_new cap_step (cap_run 0 4 (io_start 0 5 True exampleOpened))"
    by (rule cap_run_reaches) code_simp
  then have "reaches cap_new cap_step (io_start 0 3 False (cap_run 0 4 (io_start 0 5 True exampleOpened)))"
    by (rule reaches_step) (rule cap_io, code_simp, simp)
  then have "reaches cap_new cap_step exampleCounted" unfolding exampleCounted_def by (rule cap_run_reaches) code_simp
  then have "reaches cap_new cap_step (cap_run 0 13 exampleCounted)" by (rule cap_run_reaches) code_simp
  then show ?thesis unfolding exampleReported_def by (rule cap_run_reaches) code_simp
qed

lemma exampleReported_facts: "rp_counted exampleReported = 8" "rp_acked exampleReported = 8" "flying (rp_flush exampleReported) = 0"
  "map dr_BytesUsed (rp_sent exampleReported) = [8, 8]"
  by code_simp+

theorem usage_conserved_witness:
  "reaches cap_new cap_step exampleReported \<and> rp_counted exampleReported = 8 \<and> rp_acked exampleReported = 8
     \<and> total_pending exampleReported = 0"
  using usage_conserved [OF exampleReported_reaches] exampleReported_reaches exampleReported_facts by auto

end
