(* ===== verification/Pmp_Client.thy ===== *)
theory Pmp_Client
  imports Box_Prelude
begin

text \<open>
  The NAT-PMP and PCP clients of \<open>portforward/pmp.go\<close>: the UDP exchange with its resends, the requests and
  responses on the wire, the mappings a client keeps, and the discovery that picks one of the two. The network and the
  gateway behind it are arguments: what each exchange's datagrams meet, and how the gateway's own state
  goes on.
\<close>

section \<open>Words on the wire\<close>

text \<open>\<open>encoding/binary\<close>'s big-endian order.\<close>

definition be16 :: "u16 \<Rightarrow> bytes" where
  "be16 w = [ucast (drop_bit 8 w), ucast w]"

definition be32 :: "u32 \<Rightarrow> bytes" where
  "be32 w = [ucast (drop_bit 24 w), ucast (drop_bit 16 w), ucast (drop_bit 8 w), ucast w]"

definition get16 :: "nat \<Rightarrow> bytes \<Rightarrow> u16" where
  "get16 i b = or (ucast (b ! (i + 1))) (push_bit 8 (ucast (b ! i)))"

definition get32 :: "nat \<Rightarrow> bytes \<Rightarrow> u32" where
  "get32 i b = or (or (or (ucast (b ! (i + 3))) (push_bit 8 (ucast (b ! (i + 2)))))
      (push_bit 16 (ucast (b ! (i + 1))))) (push_bit 24 (ucast (b ! i)))"

section \<open>Errors\<close>

text \<open>\<open>ErrOutcomeUnknown e\<close> wraps both \<open>errOutcomeUnknown\<close> and \<open>e\<close>; \<open>isOutcomeUnknown\<close> is
  \<open>errors.Is(err, errOutcomeUnknown)\<close>.\<close>

datatype pmpErr =
    ErrTransport string | ErrPMPVersion | ErrOutcomeUnknown pmpErr | ErrNoAnswer
  | ErrResultCode nat | ErrNATPMP pmpErr | ErrPCP pmpErr | ErrInternalPort u16 u16
  | ErrAssignedPort string u16 u16 | ErrShortLease string u32 | ErrRandom
  | ErrNoExternalIP | ErrFindGateway pmpErr | ErrContext | ErrJoined pmpErr pmpErr

fun isOutcomeUnknown :: "pmpErr \<Rightarrow> bool" where
  "isOutcomeUnknown (ErrOutcomeUnknown e) = True"
| "isOutcomeUnknown (ErrNATPMP e) = isOutcomeUnknown e"
| "isOutcomeUnknown (ErrPCP e) = isOutcomeUnknown e"
| "isOutcomeUnknown (ErrFindGateway e) = isOutcomeUnknown e"
| "isOutcomeUnknown (ErrJoined e e') = (isOutcomeUnknown e \<or> isOutcomeUnknown e')"
| "isOutcomeUnknown _ = False"

section \<open>One exchange\<close>

definition pmpServerPort :: nat where "pmpServerPort = 5351"
definition pmpTimeout :: duration where "pmpTimeout = 2 * second"
definition pmpProbeTimeout :: duration where "pmpProbeTimeout = second"
definition pmpFirstResend :: duration where "pmpFirstResend = 250 * millisecond"
definition minGrantedLease :: u32 where "minGrantedLease = 10"

lemmas pmp_consts = pmpTimeout_def pmpProbeTimeout_def pmpFirstResend_def time_units

text \<open>
  What one send meets: the outcome of the write and how long it took, of \<open>SetReadDeadline\<close>, the datagrams
  that arrive before the reads end, and how they end: with an error, or (\<open>None\<close>) by running into
  the read deadline, noticed \<open>pr_lateBy\<close> after it.
\<close>

record pmpRound =
  pr_writeErr :: "pmpErr option"
  pr_writeTook :: nat
  pr_deadlineErr :: "pmpErr option"
  pr_packets :: "bytes list"
  pr_readErr :: "pmpErr option"
  pr_lateBy :: nat

text \<open>The inner loop: the first datagram \<open>accept\<close> takes or fails on. The read buffer has 1100 bytes; the
  rest of a longer datagram is lost.\<close>

fun takeAnswer :: "(bytes \<Rightarrow> pmpErr + bool) \<Rightarrow> bytes list \<Rightarrow> (pmpErr + bytes) option" where
  "takeAnswer accept [] = None"
| "takeAnswer accept (b # bs) =
     (case accept (take 1100 b) of
        Inl e \<Rightarrow> Some (Inl e)
      | Inr ok \<Rightarrow> if ok then Some (Inr (take 1100 b)) else takeAnswer accept bs)"

text \<open>The loop over the sends, with the number of datagrams sent. The clock counts from the dial.\<close>

function pmpLoop :: "(bytes \<Rightarrow> pmpErr + bool) \<Rightarrow> (nat \<Rightarrow> pmpRound) \<Rightarrow> time \<Rightarrow> nat \<Rightarrow> time \<Rightarrow> (pmpErr + bytes) \<times> nat" where
  "pmpLoop accept rounds deadline i now =
     (let r = rounds i; sent = (0 < i) in
      case pr_writeErr r of
        Some e \<Rightarrow> (Inl (if sent then ErrOutcomeUnknown e else e), i)
      | None \<Rightarrow>
          let now = now + int (pr_writeTook r);
              until = min (now + pmpFirstResend * 2 ^ i) deadline in
          case pr_deadlineErr r of
            Some e \<Rightarrow> (Inl (ErrOutcomeUnknown e), Suc i)
          | None \<Rightarrow>
              case takeAnswer accept (pr_packets r) of
                Some res \<Rightarrow> (res, Suc i)
              | None \<Rightarrow>
                  case pr_readErr r of
                    Some e \<Rightarrow> (Inl (ErrOutcomeUnknown e), Suc i)
                  | None \<Rightarrow>
                      let now = max now until + int (pr_lateBy r) in
                      if \<not> now < deadline then (Inl (ErrOutcomeUnknown ErrNoAnswer), Suc i)
                      else pmpLoop accept rounds deadline (Suc i) now)"
  by pat_completeness auto

lemma resend_positive: "0 < pmpFirstResend * 2 ^ i"
  by (simp add: pmp_consts)

termination pmpLoop
proof (relation "measure (\<lambda>(accept, rounds, deadline, i, now). nat (deadline - now))", goal_cases)
  case (2 accept rounds deadline i now r sent)
  then show ?case using resend_positive [of i] by auto
qed simp

declare pmpLoop.simps [simp del]

text \<open>The network: the dial's outcome (the socket's local address), the rounds a request meets with what
  the gateway becomes, and the source of random nonces.\<close>

record 'w pmpNet =
  pn_dial :: "'w \<Rightarrow> pmpErr + bytes"
  pn_serve :: "bytes \<Rightarrow> 'w \<Rightarrow> (nat \<Rightarrow> pmpRound) \<times> 'w"
  pn_rand :: "'w \<Rightarrow> bytes option \<times> 'w"

definition pmpExchange ::
  "'w pmpNet \<Rightarrow> duration \<Rightarrow> (bytes \<Rightarrow> bytes) \<Rightarrow> (bytes \<Rightarrow> pmpErr + bool) \<Rightarrow> 'w \<Rightarrow> (pmpErr + bytes) \<times> 'w" where
  "pmpExchange net timeout build accept w =
     (case pn_dial net w of
        Inl e \<Rightarrow> (Inl e, w)
      | Inr local \<Rightarrow>
          let (rounds, w) = pn_serve net (build local) w in
          (fst (pmpLoop accept rounds timeout 0 0), w))"

section \<open>The mappings a client keeps\<close>

type_synonym pcpKey = "string \<times> u16"
type_synonym granted = "(pcpKey, u32) gomap"

text \<open>\<open>mapFunc\<close>, with the state it works on.\<close>

type_synonym 'w mapFunc = "string \<Rightarrow> u16 \<Rightarrow> u16 \<Rightarrow> u32 \<Rightarrow> 'w \<Rightarrow> (pmpErr + u16 \<times> u32) \<times> 'w"

definition pm_forget :: "pcpKey \<Rightarrow> granted \<Rightarrow> granted" where
  "pm_forget k g = gdel k g"

definition pm_add ::
  "string \<Rightarrow> 'w mapFunc \<Rightarrow> string \<Rightarrow> u16 \<Rightarrow> u16 \<Rightarrow> u32 \<Rightarrow> granted \<times> 'w \<Rightarrow> pmpErr option \<times> granted \<times> 'w" where
  "pm_add method mapPort protocol internalPort externalPort lifetime s =
     (let (g, w) = s; k = (protocol, internalPort);
          renewing = (gget g k \<noteq> None);
          (r, w) = mapPort protocol internalPort externalPort lifetime w in
      case r of
        Inl err \<Rightarrow>
          (let w = (if \<not> renewing \<and> isOutcomeUnknown err
                    then snd (mapPort protocol internalPort externalPort 0 w) else w) in
           (Some err, g, w))
      | Inr (got, lease) \<Rightarrow>
          if got \<noteq> externalPort
          then (let w = snd (mapPort protocol internalPort got 0 w) in
                (Some (ErrAssignedPort method got externalPort), pm_forget k g, w))
          else if \<not> renewing \<and> lease < minGrantedLease
          then (let w = snd (mapPort protocol internalPort externalPort 0 w) in
                (Some (ErrShortLease method lease), g, w))
          else (None, gput k lease g, w))"

definition pm_remove :: "'w mapFunc \<Rightarrow> string \<Rightarrow> u16 \<Rightarrow> granted \<times> 'w \<Rightarrow> pmpErr option \<times> granted \<times> 'w" where
  "pm_remove mapPort protocol internalPort s =
     (let (g, w) = s; (r, w) = mapPort protocol internalPort internalPort 0 w in
      case r of Inl err \<Rightarrow> (Some err, g, w) | Inr _ \<Rightarrow> (None, pm_forget (protocol, internalPort) g, w))"

definition pm_lease :: "string \<Rightarrow> u16 \<Rightarrow> granted \<Rightarrow> duration option" where
  "pm_lease protocol internalPort g = map_option (\<lambda>v. uint v * second) (gget g (protocol, internalPort))"

section \<open>NAT-PMP\<close>

definition protoUDP :: string where "protoUDP = ''UDP''"
definition protoTCP :: string where "protoTCP = ''TCP''"
definition natPMPVersion :: "8 word" where "natPMPVersion = 0"
definition natPMPOpExternalIP :: "8 word" where "natPMPOpExternalIP = 0"
definition natPMPOpMapUDP :: "8 word" where "natPMPOpMapUDP = 1"
definition natPMPOpMapTCP :: "8 word" where "natPMPOpMapTCP = 2"

lemmas natpmp_consts = protoUDP_def protoTCP_def natPMPVersion_def natPMPOpExternalIP_def natPMPOpMapUDP_def natPMPOpMapTCP_def

definition natPMP_accept :: "8 word \<Rightarrow> nat \<Rightarrow> bytes \<Rightarrow> pmpErr + bool" where
  "natPMP_accept opc minLen b =
     (if 2 \<le> length b \<and> b ! 0 \<noteq> natPMPVersion then Inl ErrPMPVersion
      else if length b < 4 \<or> b ! 1 \<noteq> 128 + opc then Inr False
      else if get16 2 b \<noteq> 0 then Inl (ErrResultCode (unat (get16 2 b)))
      else Inr (minLen \<le> length b))"

definition natPMP_request ::
  "'w pmpNet \<Rightarrow> duration \<Rightarrow> 8 word \<Rightarrow> bytes \<Rightarrow> nat \<Rightarrow> 'w \<Rightarrow> (pmpErr + bytes) \<times> 'w" where
  "natPMP_request net timeout opc req minLen w =
     (case pmpExchange net timeout (\<lambda>_. req) (natPMP_accept opc minLen) w of
        (Inl e, w) \<Rightarrow> (Inl (ErrNATPMP e), w)
      | (Inr res, w) \<Rightarrow> (Inr res, w))"

definition natPMP_op :: "string \<Rightarrow> 8 word" where
  "natPMP_op protocol = (if protocol = protoUDP then natPMPOpMapUDP else natPMPOpMapTCP)"

definition natPMP_mapRequest :: "string \<Rightarrow> u16 \<Rightarrow> u16 \<Rightarrow> u32 \<Rightarrow> bytes" where
  "natPMP_mapRequest protocol internalPort externalPort lifetime =
     (let externalPort = (if lifetime = 0 then 0 else externalPort) in
      [natPMPVersion, natPMP_op protocol, 0, 0] @ be16 internalPort @ be16 externalPort @ be32 lifetime)"

definition natPMP_mapPort :: "'w pmpNet \<Rightarrow> duration \<Rightarrow> 'w mapFunc" where
  "natPMP_mapPort net timeout protocol internalPort externalPort lifetime w =
     (case natPMP_request net timeout (natPMP_op protocol)
             (natPMP_mapRequest protocol internalPort externalPort lifetime) 16 w of
        (Inl e, w) \<Rightarrow> (Inl e, w)
      | (Inr res, w) \<Rightarrow>
          if get16 8 res \<noteq> internalPort then (Inl (ErrInternalPort (get16 8 res) internalPort), w)
          else (Inr (get16 10 res, get32 12 res), w))"

text \<open>The client's operations. An external address stays in its binary form.\<close>

definition natPMP_AddPortMapping ::
  "'w pmpNet \<Rightarrow> duration \<Rightarrow> u16 \<Rightarrow> string \<Rightarrow> u16 \<Rightarrow> u32 \<Rightarrow> granted \<times> 'w \<Rightarrow> pmpErr option \<times> granted \<times> 'w" where
  "natPMP_AddPortMapping net timeout externalPort protocol internalPort lease s =
     pm_add ''nat-pmp'' (natPMP_mapPort net timeout) protocol internalPort externalPort lease s"

definition natPMP_DeletePortMapping ::
  "'w pmpNet \<Rightarrow> duration \<Rightarrow> u16 \<Rightarrow> string \<Rightarrow> granted \<times> 'w \<Rightarrow> pmpErr option \<times> granted \<times> 'w" where
  "natPMP_DeletePortMapping net timeout externalPort protocol s =
     pm_remove (natPMP_mapPort net timeout) protocol externalPort s"

definition natPMP_GetExternalIPAddress :: "'w pmpNet \<Rightarrow> duration \<Rightarrow> 'w \<Rightarrow> (pmpErr + bytes) \<times> 'w" where
  "natPMP_GetExternalIPAddress net timeout w =
     (case natPMP_request net timeout natPMPOpExternalIP [natPMPVersion, natPMPOpExternalIP] 12 w of
        (Inl e, w) \<Rightarrow> (Inl e, w)
      | (Inr res, w) \<Rightarrow> (Inr (take 4 (drop 8 res)), w))"

section \<open>PCP\<close>

definition pcpVersion :: "8 word" where "pcpVersion = 2"
definition pcpOpAnnounce :: "8 word" where "pcpOpAnnounce = 0"
definition pcpOpMap :: "8 word" where "pcpOpMap = 1"
definition pcpHeaderLen :: nat where "pcpHeaderLen = 24"
definition pcpMapLen :: nat where "pcpMapLen = 36"
definition pcpProtocolTCP :: "8 word" where "pcpProtocolTCP = 6"
definition pcpProtocolUDP :: "8 word" where "pcpProtocolUDP = 17"

lemmas pcp_consts = protoUDP_def pcpVersion_def pcpOpAnnounce_def pcpOpMap_def pcpHeaderLen_def pcpMapLen_def
  pcpProtocolTCP_def pcpProtocolUDP_def

text \<open>\<open>net.IP.To16\<close>: an IPv4 address mapped into IPv6, an IPv6 address as it is, and \<open>nil\<close> (nothing to
  copy) for any other length.\<close>

definition to16 :: "bytes \<Rightarrow> bytes" where
  "to16 ip = (if length ip = 4 then replicate 10 0 @ [255, 255] @ ip else if length ip = 16 then ip else [])"

definition ipv4zero :: bytes where
  "ipv4zero = to16 [0, 0, 0, 0]"

text \<open>\<open>copy\<close> into a zeroed array of \<open>n\<close> bytes.\<close>

definition padTo :: "nat \<Rightarrow> bytes \<Rightarrow> bytes" where
  "padTo n b = take n b @ replicate (n - length b) 0"

definition pcpHeader :: "8 word \<Rightarrow> u32 \<Rightarrow> bytes \<Rightarrow> bytes" where
  "pcpHeader opc lifetime local = [pcpVersion, opc, 0, 0] @ be32 lifetime @ padTo 16 (to16 local)"

definition pcpAccept :: "8 word \<Rightarrow> (bytes \<Rightarrow> bool) \<Rightarrow> bytes \<Rightarrow> pmpErr + bool" where
  "pcpAccept opc chk b =
     (if 1 \<le> length b \<and> b ! 0 \<noteq> pcpVersion then Inl ErrPMPVersion
      else if length b < pcpHeaderLen \<or> b ! 1 \<noteq> or 128 opc then Inr False
      else if pcpHeaderLen < length b \<and> \<not> chk b then Inr False
      else if b ! 3 \<noteq> 0 then Inl (ErrResultCode (unat (b ! 3)))
      else Inr (chk b))"

text \<open>A nonce is an array of twelve bytes.\<close>

record pcpClient =
  pc_nonces :: "(pcpKey, bytes) gomap"
  pc_externalIP :: "bytes option"

definition pcp_nonce :: "'w pmpNet \<Rightarrow> string \<Rightarrow> u16 \<Rightarrow> pcpClient \<times> 'w \<Rightarrow> (pmpErr + bytes) \<times> pcpClient \<times> 'w" where
  "pcp_nonce net protocol internalPort s =
     (let (c, w) = s; k = (protocol, internalPort) in
      case gget (pc_nonces c) k of
        Some n \<Rightarrow> (Inr n, c, w)
      | None \<Rightarrow>
          case pn_rand net w of
            (None, w) \<Rightarrow> (Inl ErrRandom, c, w)
          | (Some n, w) \<Rightarrow> (Inr n, c\<lparr>pc_nonces := gput k n (pc_nonces c)\<rparr>, w))"

definition pcp_proto :: "string \<Rightarrow> 8 word" where
  "pcp_proto protocol = (if protocol = protoUDP then pcpProtocolUDP else pcpProtocolTCP)"

definition pcp_mapRequest :: "bytes \<Rightarrow> string \<Rightarrow> u16 \<Rightarrow> u16 \<Rightarrow> u32 \<Rightarrow> bytes \<Rightarrow> bytes" where
  "pcp_mapRequest nonce protocol internalPort externalPort lifetime local =
     pcpHeader pcpOpMap lifetime local @ padTo 12 nonce @ [pcp_proto protocol, 0, 0, 0] @ be16 internalPort @ be16 externalPort @ ipv4zero"

definition pcp_mapCheck :: "bytes \<Rightarrow> string \<Rightarrow> u16 \<Rightarrow> bytes \<Rightarrow> bool" where
  "pcp_mapCheck nonce protocol internalPort b \<longleftrightarrow>
     \<not> length b < pcpHeaderLen + pcpMapLen \<and>
     (let m = drop pcpHeaderLen b in
      take 12 m = padTo 12 nonce \<and> m ! 12 = pcp_proto protocol \<and> get16 16 m = internalPort)"

definition pcp_mapPort :: "'w pmpNet \<Rightarrow> duration \<Rightarrow> (pcpClient \<times> 'w) mapFunc" where
  "pcp_mapPort net timeout protocol internalPort externalPort lifetime s =
     (case pcp_nonce net protocol internalPort s of
        (Inl e, s) \<Rightarrow> (Inl e, s)
      | (Inr nonce, c, w) \<Rightarrow>
          case pmpExchange net timeout (pcp_mapRequest nonce protocol internalPort externalPort lifetime)
                 (pcpAccept pcpOpMap (pcp_mapCheck nonce protocol internalPort)) w of
            (Inl e, w) \<Rightarrow> (Inl (ErrPCP e), c, w)
          | (Inr res, w) \<Rightarrow>
              let m = drop pcpHeaderLen res;
                  c = (if 0 < lifetime then c\<lparr>pc_externalIP := Some (take 16 (drop 20 m))\<rparr> else c) in
              (Inr (get16 18 m, get32 4 res), c, w))"

definition pcp_AddPortMapping ::
  "'w pmpNet \<Rightarrow> duration \<Rightarrow> u16 \<Rightarrow> string \<Rightarrow> u16 \<Rightarrow> u32 \<Rightarrow> granted \<times> pcpClient \<times> 'w \<Rightarrow> pmpErr option \<times> granted \<times> pcpClient \<times> 'w" where
  "pcp_AddPortMapping net timeout externalPort protocol internalPort lease s =
     pm_add ''pcp'' (pcp_mapPort net timeout) protocol internalPort externalPort lease s"

definition pcp_DeletePortMapping ::
  "'w pmpNet \<Rightarrow> duration \<Rightarrow> u16 \<Rightarrow> string \<Rightarrow> granted \<times> pcpClient \<times> 'w \<Rightarrow> pmpErr option \<times> granted \<times> pcpClient \<times> 'w" where
  "pcp_DeletePortMapping net timeout externalPort protocol s =
     pm_remove (pcp_mapPort net timeout) protocol externalPort s"

definition pcp_GetExternalIPAddress :: "pcpClient \<Rightarrow> pmpErr + bytes" where
  "pcp_GetExternalIPAddress c =
     (case pc_externalIP c of None \<Rightarrow> Inl ErrNoExternalIP | Some ip \<Rightarrow> Inr ip)"

definition pcp_announce :: "'w pmpNet \<Rightarrow> duration \<Rightarrow> 'w \<Rightarrow> pmpErr option \<times> 'w" where
  "pcp_announce net timeout w =
     (case pmpExchange net timeout (pcpHeader pcpOpAnnounce 0) (pcpAccept pcpOpAnnounce (\<lambda>_. True)) w of
        (Inl e, w) \<Rightarrow> (Some (ErrPCP e), w)
      | (Inr _, w) \<Rightarrow> (None, w))"

section \<open>Discovery\<close>

text \<open>
  What the wait of \<open>discoverPMP\<close> sees, in order: the probes' answers (\<open>None\<close> for success) and the end of the
  probe bound; a wait that sees nothing more reaches the bound. \<open>ctxErr\<close> is whether the
  caller's own context has ended by then. The client found then talks with \<open>pmpTimeout\<close>.
\<close>

datatype probeEvent = PcpAnswered "pmpErr option" | PmpAnswered "pmpErr option" | BoundEnded

datatype pmpMethod = MethodPCP | MethodNATPMP

definition pmp_choose :: "pmpErr option option \<Rightarrow> pmpErr option option \<Rightarrow> pmpErr + pmpMethod" where
  "pmp_choose pcp pmp =
     (if pcp = Some None then Inr MethodPCP
      else if pmp = Some None then Inr MethodNATPMP
      else (let err = (\<lambda>wrap r. case r of Some (Some e) \<Rightarrow> e | _ \<Rightarrow> wrap ErrContext) in
            Inl (ErrJoined (err ErrPCP pcp) (err ErrNATPMP pmp))))"

fun pmp_wait :: "bool \<Rightarrow> pmpErr option option \<Rightarrow> pmpErr option option \<Rightarrow> probeEvent list \<Rightarrow> pmpErr + pmpMethod" where
  "pmp_wait ctxErr pcp pmp evs =
     (if pcp \<noteq> None \<and> pmp \<noteq> None then pmp_choose pcp pmp
      else case evs of
        PcpAnswered r # evs \<Rightarrow> if r = None then pmp_choose (Some None) pmp else pmp_wait ctxErr (Some r) pmp evs
      | PmpAnswered r # evs \<Rightarrow> pmp_wait ctxErr pcp (Some r) evs
      | _ \<Rightarrow> if ctxErr then Inl ErrContext else pmp_choose pcp pmp)"

declare pmp_wait.simps [simp del]

definition discoverPMP :: "bool \<Rightarrow> pmpErr option \<Rightarrow> bool \<Rightarrow> probeEvent list \<Rightarrow> pmpErr + pmpMethod" where
  "discoverPMP ended findErr ctxErr evs =
     (if ended then Inl ErrContext
      else case findErr of
        Some e \<Rightarrow> Inl (ErrFindGateway e)
      | None \<Rightarrow> pmp_wait ctxErr None None evs)"

end
