(* ===== verification/Pmp_Gateway.thy ===== *)
theory Pmp_Gateway
  imports Pmp_Client
begin

text \<open>
  What the clients of \<open>Pmp_Client\<close> promise: an exchange ends within its time and a handful of sends and says
  when its outcome is unknown, requests and responses survive the wire, and an add that fails leaves no mapping behind on a gateway that keeps
  the contract \<open>mapping_gateway\<close>. A gateway written after RFC 6886, which may lose answers or refuse, is shown to
  keep it when the client speaks to it.
\<close>

section \<open>The wire\<close>

lemma length_be [simp]: "length (be16 w) = 2" "length (be32 v) = 4"
  by (simp_all add: be16_def be32_def)

lemma get16_be16: "i + 1 < length b \<Longrightarrow> take 2 (drop i b) = be16 w \<Longrightarrow> get16 i b = w"
proof -
  assume l: "i + 1 < length b" and "take 2 (drop i b) = be16 w"
  moreover have "take 2 (drop i b) = [b ! i, b ! (i + 1)]"
    using l by (simp add: numeral_2_eq_2 Cons_nth_drop_Suc [symmetric])
  ultimately have "b ! i = ucast (drop_bit 8 w)" "b ! (i + 1) = ucast w" by (simp_all add: be16_def)
  then show ?thesis
    by (simp only: get16_def) (rule bit_word_eqI, auto simp: bit_simps)
qed

lemma get32_be32: "i + 3 < length b \<Longrightarrow> take 4 (drop i b) = be32 w \<Longrightarrow> get32 i b = w"
proof -
  assume l: "i + 3 < length b" and "take 4 (drop i b) = be32 w"
  moreover have "take 4 (drop i b) = [b ! i, b ! (i + 1), b ! (i + 2), b ! (i + 3)]"
    using l by (simp add: numeral_eq_Suc Cons_nth_drop_Suc [symmetric])
  ultimately have "b ! i = ucast (drop_bit 24 w)" "b ! (i + 1) = ucast (drop_bit 16 w)"
    "b ! (i + 2) = ucast (drop_bit 8 w)" "b ! (i + 3) = ucast w" by (simp_all add: be32_def)
  then show ?thesis
    by (simp only: get32_def) (rule bit_word_eqI, rename_tac n, case_tac "n < 16", case_tac [2] "n < 24", auto simp: bit_simps)
qed

section \<open>Exchanges\<close>

text \<open>A send is the last one, or the next one comes a whole resend interval later.\<close>

lemma pmpLoop_step:
  obtains "snd (pmpLoop accept rounds deadline i now) \<le> Suc i"
  | now' where "now' < deadline" "now + pmpFirstResend * 2 ^ i \<le> now'"
      "pmpLoop accept rounds deadline i now = pmpLoop accept rounds deadline (Suc i) now'"
proof -
  let ?now1 = "now + int (pr_writeTook (rounds i))"
  let ?now2 = "max ?now1 (min (?now1 + pmpFirstResend * 2 ^ i) deadline) + int (pr_lateBy (rounds i))"
  have "snd (pmpLoop accept rounds deadline i now) \<le> Suc i
      \<or> ?now2 < deadline \<and> pmpLoop accept rounds deadline i now = pmpLoop accept rounds deadline (Suc i) ?now2"
    by (auto simp: pmpLoop.simps [of accept rounds deadline i now] Let_def split: option.splits)
  moreover have "?now2 < deadline \<Longrightarrow> now + pmpFirstResend * 2 ^ i \<le> ?now2" by linarith
  ultimately show ?thesis using that by blast
qed

lemma pmpLoop_sends:
  "i + d = n \<Longrightarrow> 0 < d \<Longrightarrow> deadline - now \<le> pmpFirstResend * (2 ^ n - 2 ^ i) \<Longrightarrow>
   snd (pmpLoop accept rounds deadline i now) \<le> n"
proof (induction d arbitrary: i now)
  case (Suc d)
  show ?case
  proof (cases rule: pmpLoop_step [of accept rounds deadline i now])
    case (2 now')
    have le: "deadline - now' \<le> pmpFirstResend * (2 ^ n - 2 ^ Suc i)"
      using Suc.prems(3) 2(2) by (simp add: algebra_simps)
    have "0 < d" using le 2(1) Suc.prems(1) by (cases d) auto
    then show ?thesis using Suc.IH [of "Suc i" now'] le Suc.prems(1) 2(3) by simp
  qed (use Suc.prems(1) in simp)
qed simp

lemma takeAnswer_Some:
  "takeAnswer accept bs = Some r \<Longrightarrow>
   \<exists>b \<in> set bs. (case r of Inl e \<Rightarrow> accept (take 1100 b) = Inl e | Inr x \<Rightarrow> x = take 1100 b \<and> accept x = Inr True)"
  by (induction bs) (auto split: sum.splits if_splits)

text \<open>Where a result comes from: nothing was sent, the outcome is unknown, or a datagram brought it.\<close>

lemma pmpLoop_result:
  "pmpLoop accept rounds deadline i now = (r, n) \<Longrightarrow>
   (\<exists>e. r = Inl e \<and> isOutcomeUnknown e) \<or> (n = 0 \<and> (\<exists>e. r = Inl e \<and> pr_writeErr (rounds 0) = Some e))
   \<or> (\<exists>j < n. \<exists>b \<in> set (pr_packets (rounds j)).
        case r of Inl e \<Rightarrow> accept (take 1100 b) = Inl e | Inr x \<Rightarrow> x = take 1100 b \<and> accept x = Inr True)"
proof (induction accept rounds deadline i now rule: pmpLoop.induct)
  case (1 accept rounds deadline i now)
  from 1(2) consider
      (unclear) "\<exists>e. r = Inl e \<and> isOutcomeUnknown e"
    | (unsent) "i = 0" "n = 0" "\<exists>e. r = Inl e \<and> pr_writeErr (rounds 0) = Some e"
    | (answer) "n = Suc i" "takeAnswer accept (pr_packets (rounds i)) = Some r"
    | (more) "pr_writeErr (rounds i) = None" "pr_deadlineErr (rounds i) = None"
        "takeAnswer accept (pr_packets (rounds i)) = None" "pr_readErr (rounds i) = None"
        "max (now + int (pr_writeTook (rounds i))) (min (now + int (pr_writeTook (rounds i)) + pmpFirstResend * 2 ^ i) deadline)
           + int (pr_lateBy (rounds i)) < deadline"
        "pmpLoop accept rounds deadline (Suc i) (max (now + int (pr_writeTook (rounds i)))
           (min (now + int (pr_writeTook (rounds i)) + pmpFirstResend * 2 ^ i) deadline) + int (pr_lateBy (rounds i))) = (r, n)"
    by (auto simp: pmpLoop.simps [of accept rounds deadline i now] Let_def split: option.splits if_splits)
  then show ?case
  proof cases
    case more
    then show ?thesis using 1(1) by simp
  qed (use takeAnswer_Some in \<open>fastforce+\<close>)
qed

lemma pmpLoop_silent:
  assumes "\<And>j. pr_writeErr (rounds j) = None" "\<And>j. pr_deadlineErr (rounds j) = None"
    "\<And>j. pr_packets (rounds j) = []" "\<And>j. pr_readErr (rounds j) = None"
  shows "fst (pmpLoop accept rounds deadline i now) = Inl (ErrOutcomeUnknown ErrNoAnswer)"
proof (induction "nat (deadline - now)" arbitrary: i now rule: less_induct)
  case less
  show ?case
    by (subst pmpLoop.simps)
      (use resend_positive [of i] in \<open>auto simp: Let_def assms intro!: less\<close>)
qed

section \<open>The gateway's contract\<close>

text \<open>
  What the clients rely on, of the mapping a gateway holds for a protocol and an internal port (its external port): a
  request concerns no other mapping, an accepted one takes effect, a refused one has no effect, one whose outcome is
  unknown has all of its effect or none, and a mapping that is asked for again keeps its external port.
\<close>

definition transports :: "string set" where
  "transports = {protoTCP, protoUDP}"

locale mapping_gateway =
  fixes mapPort :: "'w mapFunc" and has :: "'w \<Rightarrow> pcpKey \<Rightarrow> u16 option"
  assumes others: "fst k \<in> transports \<Longrightarrow> protocol \<in> transports \<Longrightarrow> k \<noteq> (protocol, i) \<Longrightarrow>
      has (snd (mapPort protocol i e l w)) k = has w k"
    and accepted: "protocol \<in> transports \<Longrightarrow> 0 < l \<Longrightarrow> fst (mapPort protocol i e l w) = Inr (got, lease) \<Longrightarrow>
      has (snd (mapPort protocol i e l w)) (protocol, i) = Some got"
    and deleted: "protocol \<in> transports \<Longrightarrow> fst (mapPort protocol i e 0 w) = Inr answer \<Longrightarrow>
      has (snd (mapPort protocol i e 0 w)) (protocol, i) = None"
    and refused: "protocol \<in> transports \<Longrightarrow> fst (mapPort protocol i e l w) = Inl err \<Longrightarrow> \<not> isOutcomeUnknown err \<Longrightarrow>
      has (snd (mapPort protocol i e l w)) (protocol, i) = has w (protocol, i)"
    and uncertain: "protocol \<in> transports \<Longrightarrow> fst (mapPort protocol i e 0 w) = Inl err \<Longrightarrow>
      has (snd (mapPort protocol i e 0 w)) (protocol, i) \<in> {None, has w (protocol, i)}"
    and kept: "protocol \<in> transports \<Longrightarrow> 0 < l \<Longrightarrow> has w (protocol, i) = Some x \<Longrightarrow>
      has (snd (mapPort protocol i e l w)) (protocol, i) = Some x"
begin

text \<open>The delete that cleans up after a failed add, answered or not.\<close>

lemma cleanup:
  "protocol \<in> transports \<Longrightarrow> has (snd (mapPort protocol i e 0 w)) (protocol, i) = None
     \<or> (\<exists>err. fst (mapPort protocol i e 0 w) = Inl err)"
  by (cases "fst (mapPort protocol i e 0 w)") (use deleted in \<open>auto\<close>)

lemma add_fresh:
  assumes "protocol \<in> transports" and "0 < l" and "gget g (protocol, i) = None" and "has w (protocol, i) = None"
    and "pm_add method mapPort protocol i e l (g, w) = (r, g', w')"
  shows "(case r of
      None \<Rightarrow> has w' (protocol, i) = Some e \<and> (\<exists>lease \<ge> minGrantedLease. gget g' (protocol, i) = Some lease)
    | Some err \<Rightarrow> gget g' (protocol, i) = None \<and>
        (has w' (protocol, i) = None \<or> (\<exists>x w1 err'. mapPort protocol i x 0 w1 = (Inl err', w'))))"
proof -
  obtain a w1 where a: "mapPort protocol i e l w = (a, w1)" by (metis surj_pair)
  note step = assms(5) [unfolded pm_add_def]
  show ?thesis
  proof (cases a)
    case (Inl err)
    then show ?thesis
      using step a assms(3,4) refused [OF assms(1), of i e l w err] cleanup [OF assms(1), of i e w1]
      by (cases "isOutcomeUnknown err") (auto simp: Let_def split: option.splits, (metis prod.collapse)+)
  next
    case (Inr ans)
    then obtain got lease where ans: "a = Inr (got, lease)" by (cases ans) auto
    then show ?thesis
      using step a assms(3) accepted [OF assms(1,2), of i e w got lease] cleanup [OF assms(1), of i got w1]
      by (auto simp: Let_def pm_forget_def not_less split: option.splits if_splits) (metis prod.collapse)+
  qed
qed

text \<open>A renewal that fails, unless it is granted another port, leaves the mapping on the gateway and with the client.\<close>

lemma add_renewal:
  assumes "protocol \<in> transports" and "0 < l" and "gget g (protocol, i) = Some lease" and "has w (protocol, i) = Some e"
    and "pm_add method mapPort protocol i e l (g, w) = (r, g', w')"
  shows "has w' (protocol, i) = Some e \<and> (if r = None then gget g' (protocol, i) \<noteq> None else g' = g)"
proof -
  obtain a w1 where a: "mapPort protocol i e l w = (a, w1)" by (metis surj_pair)
  have kept1: "has w1 (protocol, i) = Some e" using kept [OF assms(1,2,4), of e] a by simp
  have "got = e" if "a = Inr (got, lease')" for got lease'
    using accepted [OF assms(1,2), of i e w got lease'] a that kept1 by simp
  then show ?thesis
    using assms(3,5) a kept1 by (auto simp: pm_add_def Let_def split: sum.splits prod.splits)
qed

lemma remove_outcome:
  assumes "protocol \<in> transports" and "pm_remove mapPort protocol i (g, w) = (r, g', w')"
  shows "(case r of None \<Rightarrow> has w' (protocol, i) = None \<and> gget g' (protocol, i) = None
    | Some err \<Rightarrow> g' = g \<and> has w' (protocol, i) \<in> {None, has w (protocol, i)})"
  using assms(2) deleted [OF assms(1)] uncertain [OF assms(1)]
  by (auto simp: pm_remove_def Let_def pm_forget_def split: sum.splits prod.splits) (metis fst_conv snd_conv insert_iff singletonD)+

end

section \<open>A gateway after RFC 6886\<close>

text \<open>
  What befalls a request: it is lost, its answer is lost, the gateway refuses it with a non-zero result code, or it is
  granted a port, unless the mapping exists, and a lifetime. The table is keyed by the opcode and the internal port.
\<close>

datatype fate = LoseRequest | LoseAnswer u16 u32 | Refuse u16 | Grant u16 u32

record rfcGateway =
  rg_table :: "(8 word \<times> u16, u16) gomap"
  rg_fates :: "fate list"

definition rfc_map :: "8 word \<times> u16 \<Rightarrow> u16 \<Rightarrow> u32 \<Rightarrow> rfcGateway \<Rightarrow> u16 \<times> rfcGateway" where
  "rfc_map k port lifetime w =
     (if lifetime = 0 then (0, w\<lparr>rg_table := gdel k (rg_table w)\<rparr>)
      else case gget (rg_table w) k of
        Some x \<Rightarrow> (x, w)
      | None \<Rightarrow> (port, w\<lparr>rg_table := gput k port (rg_table w)\<rparr>))"

definition natPMP_reply :: "8 word \<Rightarrow> u16 \<Rightarrow> u16 \<Rightarrow> u16 \<Rightarrow> u32 \<Rightarrow> bytes" where
  "natPMP_reply opc code i port lease = [0, 128 + opc] @ be16 code @ be32 0 @ be16 i @ be16 port @ be32 lease"

definition answer_round :: "bytes list \<Rightarrow> nat \<Rightarrow> pmpRound" where
  "answer_round bs _ = \<lparr>pr_writeErr = None, pr_writeTook = 0, pr_deadlineErr = None, pr_packets = bs, pr_readErr = None, pr_lateBy = 0\<rparr>"

definition rfc_fate :: "u16 \<Rightarrow> u32 \<Rightarrow> rfcGateway \<Rightarrow> fate" where
  "rfc_fate e l w = (if rg_fates w = [] then Grant e l else hd (rg_fates w))"

definition rfc_serve :: "bytes \<Rightarrow> rfcGateway \<Rightarrow> (nat \<Rightarrow> pmpRound) \<times> rfcGateway" where
  "rfc_serve req w =
     (let opc = req ! 1; i = get16 4 req; lifetime = get32 8 req; k = (opc, i);
          w' = w\<lparr>rg_fates := tl (rg_fates w)\<rparr> in
      case rfc_fate (get16 6 req) lifetime w of
        LoseRequest \<Rightarrow> (answer_round [], w')
      | LoseAnswer port lease \<Rightarrow> (answer_round [], snd (rfc_map k port lifetime w'))
      | Refuse code \<Rightarrow> (answer_round [natPMP_reply opc (if code = 0 then 2 else code) i 0 0], w')
      | Grant port lease \<Rightarrow>
          (let (port, w') = rfc_map k port lifetime w' in
           (answer_round [natPMP_reply opc 0 i port (if lifetime = 0 then 0 else lease)], w')))"

definition rfcNet :: "rfcGateway pmpNet" where
  "rfcNet = \<lparr>pn_dial = (\<lambda>_. Inr [192, 168, 1, 2]), pn_serve = rfc_serve, pn_rand = (\<lambda>w. (None, w))\<rparr>"

definition rfc_has :: "rfcGateway \<Rightarrow> pcpKey \<Rightarrow> u16 option" where
  "rfc_has w k = gget (rg_table w) (natPMP_op (fst k), snd k)"

text \<open>The request reads back as it was meant, and so does the reply.\<close>

lemma length_mapRequest [simp]: "length (natPMP_mapRequest protocol i e l) = 12"
  by (simp add: natPMP_mapRequest_def Let_def)

lemma mapRequest_fields:
  "natPMP_mapRequest protocol i e l ! Suc 0 = natPMP_op protocol" "get16 4 (natPMP_mapRequest protocol i e l) = i"
  "get16 6 (natPMP_mapRequest protocol i e l) = (if l = 0 then 0 else e)" "get32 8 (natPMP_mapRequest protocol i e l) = l"
  by (simp add: natPMP_mapRequest_def Let_def)
    (rule get16_be16 get32_be32, simp, simp add: natPMP_mapRequest_def Let_def be16_def)+

lemma length_reply [simp]: "length (natPMP_reply opc code i port lease) = 16"
  by (simp add: natPMP_reply_def)

lemma reply_fields:
  "natPMP_reply opc code i port lease ! 0 = 0" "natPMP_reply opc code i port lease ! Suc 0 = 128 + opc"
  "get16 2 (natPMP_reply opc code i port lease) = code" "get16 8 (natPMP_reply opc code i port lease) = i"
  "get16 10 (natPMP_reply opc code i port lease) = port" "get32 12 (natPMP_reply opc code i port lease) = lease"
  by (simp add: natPMP_reply_def, simp add: natPMP_reply_def)
    (rule get16_be16 get32_be32, simp, simp add: natPMP_reply_def be16_def be32_def)+

lemma loop_answered:
  "takeAnswer accept bs = Some r \<Longrightarrow> fst (pmpLoop accept (answer_round bs) deadline 0 0) = r"
  by (simp add: pmpLoop.simps [of accept "answer_round bs" deadline 0 0] Let_def answer_round_def)

lemma loop_lost: "fst (pmpLoop accept (answer_round []) deadline 0 0) = Inl (ErrOutcomeUnknown ErrNoAnswer)"
  by (rule pmpLoop_silent) (simp_all add: answer_round_def)

lemma accept_reply:
  "takeAnswer (natPMP_accept opc 16) [natPMP_reply opc code i port lease] =
     Some (if code = 0 then Inr (natPMP_reply opc code i port lease) else Inl (ErrResultCode (unat code)))"
  by (simp add: natPMP_accept_def natPMPVersion_def reply_fields)

text \<open>What the client learns of each fate.\<close>

lemma rfc_mapPort:
  "natPMP_mapPort rfcNet timeout protocol i e l w =
     (let k = (natPMP_op protocol, i); w' = w\<lparr>rg_fates := tl (rg_fates w)\<rparr>;
          lost = Inl (ErrNATPMP (ErrOutcomeUnknown ErrNoAnswer)) in
      case rfc_fate (if l = 0 then 0 else e) l w of
        LoseRequest \<Rightarrow> (lost, w')
      | LoseAnswer port lease \<Rightarrow> (lost, snd (rfc_map k port l w'))
      | Refuse code \<Rightarrow> (Inl (ErrNATPMP (ErrResultCode (unat (if code = 0 then 2 else code)))), w')
      | Grant port lease \<Rightarrow> (Inr (fst (rfc_map k port l w'), if l = 0 then 0 else lease), snd (rfc_map k port l w')))"
  by (cases "rfc_fate (if l = 0 then 0 else e) l w")
    (simp_all add: natPMP_mapPort_def natPMP_request_def pmpExchange_def rfcNet_def rfc_serve_def Let_def mapRequest_fields
      loop_lost loop_answered [OF accept_reply] reply_fields split_beta)

lemma natPMP_op_inj: "p \<in> transports \<Longrightarrow> q \<in> transports \<Longrightarrow> natPMP_op p = natPMP_op q \<longleftrightarrow> p = q"
  by (auto simp: transports_def natPMP_op_def natpmp_consts)

lemma rfc_map_has:
  "gget (rg_table (snd (rfc_map k port l w))) k' =
     (if k' \<noteq> k then gget (rg_table w) k' else if l = 0 then None else
      case gget (rg_table w) k of Some x \<Rightarrow> Some x | None \<Rightarrow> Some port)"
  "l \<noteq> 0 \<Longrightarrow> gget (rg_table (snd (rfc_map k port l w))) k = Some (fst (rfc_map k port l w))"
  by (auto simp: rfc_map_def split: option.split)

interpretation rfc: mapping_gateway "natPMP_mapPort rfcNet timeout" rfc_has
proof (unfold_locales, goal_cases)
  case (1 k protocol i e l w)
  then have "(natPMP_op (fst k), snd k) \<noteq> (natPMP_op protocol, i)"
    using natPMP_op_inj [of "fst k" protocol] by (cases k) auto
  then show ?case by (auto simp: rfc_mapPort Let_def rfc_has_def rfc_map_has split: fate.split)
next
  case (2 protocol l i e w got lease)
  then show ?case by (auto simp: rfc_mapPort Let_def rfc_has_def rfc_map_has(2) split: fate.splits)
qed (auto simp: rfc_mapPort Let_def rfc_has_def rfc_map_has(1) split: fate.splits)

section \<open>A gateway after RFC 6887\<close>

text \<open>A PCP gateway keeps with a mapping the nonce that made it, and refuses (\<open>NOT_AUTHORIZED\<close>) a request for it with another.
  Its fates are those of the NAT-PMP gateway.\<close>

record rfcPcp =
  rp_table :: "(8 word \<times> u16, bytes \<times> u16) gomap"
  rp_fates :: "fate list"
  rp_random :: "bytes list"

definition pcp_reply :: "8 word \<Rightarrow> u32 \<Rightarrow> bytes \<Rightarrow> 8 word \<Rightarrow> u16 \<Rightarrow> u16 \<Rightarrow> bytes" where
  "pcp_reply code lease nonce proto i port =
     [2, 129, 0, code] @ be32 lease @ replicate 16 0 @ padTo 12 nonce @ [proto, 0, 0, 0] @ be16 i @ be16 port @ to16 [203, 0, 113, 7]"

definition rfcp_map :: "8 word \<times> u16 \<Rightarrow> bytes \<Rightarrow> u16 \<Rightarrow> u32 \<Rightarrow> rfcPcp \<Rightarrow> u16 option \<times> rfcPcp" where
  "rfcp_map k nonce port lifetime w =
     (case gget (rp_table w) k of
        Some (n, x) \<Rightarrow>
          if n \<noteq> nonce then (None, w)
          else if lifetime = 0 then (Some x, w\<lparr>rp_table := gdel k (rp_table w)\<rparr>) else (Some x, w)
      | None \<Rightarrow>
          if lifetime = 0 then (Some port, w) else (Some port, w\<lparr>rp_table := gput k (nonce, port) (rp_table w)\<rparr>))"

definition rfcp_fate :: "u16 \<Rightarrow> u32 \<Rightarrow> rfcPcp \<Rightarrow> fate" where
  "rfcp_fate e l w = (if rp_fates w = [] then Grant e l else hd (rp_fates w))"

definition rfcp_serve :: "bytes \<Rightarrow> rfcPcp \<Rightarrow> (nat \<Rightarrow> pmpRound) \<times> rfcPcp" where
  "rfcp_serve req w =
     (let lifetime = get32 4 req; nonce = take 12 (drop 24 req); proto = req ! 36; i = get16 40 req; k = (proto, i);
          w' = w\<lparr>rp_fates := tl (rp_fates w)\<rparr> in
      case rfcp_fate (get16 42 req) lifetime w of
        LoseRequest \<Rightarrow> (answer_round [], w')
      | LoseAnswer port lease \<Rightarrow> (answer_round [], snd (rfcp_map k nonce port lifetime w'))
      | Refuse code \<Rightarrow> (answer_round [pcp_reply 8 0 nonce proto i 0], w')
      | Grant port lease \<Rightarrow>
          (case rfcp_map k nonce port lifetime w' of
             (None, w') \<Rightarrow> (answer_round [pcp_reply 2 0 nonce proto i 0], w')
           | (Some x, w') \<Rightarrow> (answer_round [pcp_reply 0 (if lifetime = 0 then 0 else lease) nonce proto i x], w')))"

definition rfcPcpNet :: "rfcPcp pmpNet" where
  "rfcPcpNet = \<lparr>pn_dial = (\<lambda>_. Inr [192, 168, 1, 2]), pn_serve = rfcp_serve,
     pn_rand = (\<lambda>w. case rp_random w of [] \<Rightarrow> (None, w) | n # ns \<Rightarrow> (Some n, w\<lparr>rp_random := ns\<rparr>))\<rparr>"

definition rfcp_has :: "pcpClient \<times> rfcPcp \<Rightarrow> pcpKey \<Rightarrow> u16 option" where
  "rfcp_has s k = map_option snd (gget (rp_table (snd s)) (pcp_proto (fst k), snd k))"

lemma length_padTo [simp]: "length (padTo n b) = n"
  by (simp add: padTo_def)

lemma padTo_id [simp]: "padTo n (padTo n b) = padTo n b"
  by (simp add: padTo_def)

lemma length_pcp [simp]:
  "length (pcpHeader opc l local) = 24" "length ipv4zero = 16" "length (pcp_mapRequest nonce protocol i e l local) = 60"
  "length (pcp_reply code lease nonce proto i port) = 60" "length (to16 [a, b, c, d]) = 16"
  by (simp_all add: pcpHeader_def ipv4zero_def to16_def pcp_mapRequest_def pcp_reply_def)

lemmas pcp_layouts = pcp_mapRequest_def pcpHeader_def pcp_reply_def

lemma pcp_request_fields:
  "pcp_mapRequest nonce protocol i e l local ! 36 = pcp_proto protocol"
  "take 12 (drop 24 (pcp_mapRequest nonce protocol i e l local)) = padTo 12 nonce"
  "get32 4 (pcp_mapRequest nonce protocol i e l local) = l" "get16 40 (pcp_mapRequest nonce protocol i e l local) = i"
  "get16 42 (pcp_mapRequest nonce protocol i e l local) = e"
  by (simp add: pcp_layouts nth_append, simp add: pcp_layouts)
    (rule get16_be16 get32_be32, simp, simp add: pcp_layouts)+

lemma pcp_reply_fields:
  "pcp_reply code lease nonce proto i port ! 0 = 2" "pcp_reply code lease nonce proto i port ! Suc 0 = 129"
  "pcp_reply code lease nonce proto i port ! 3 = code" "get32 4 (pcp_reply code lease nonce proto i port) = lease"
  "take 12 (drop 24 (pcp_reply code lease nonce proto i port)) = padTo 12 nonce"
  "drop 24 (pcp_reply code lease nonce proto i port) ! 12 = proto"
  "get16 16 (drop 24 (pcp_reply code lease nonce proto i port)) = i"
  "get16 18 (drop 24 (pcp_reply code lease nonce proto i port)) = port"
  by (simp_all add: pcp_reply_def nth_append)
    (rule get16_be16 get32_be32, simp, simp add: pcp_reply_def)+

lemma pcp_accept_reply:
  "takeAnswer (pcpAccept pcpOpMap (pcp_mapCheck nonce protocol i)) [pcp_reply code lease (padTo 12 nonce) (pcp_proto protocol) i port] =
     Some (if code = 0 then Inr (pcp_reply code lease (padTo 12 nonce) (pcp_proto protocol) i port) else Inl (ErrResultCode (unat code)))"
  by (simp add: pcpAccept_def pcp_mapCheck_def pcp_consts Let_def pcp_reply_fields)

lemma rfcp_nonce: "pcp_nonce rfcPcpNet protocol i s = (r, c, w) \<Longrightarrow> rp_table w = rp_table (snd s)"
  by (auto simp: pcp_nonce_def rfcPcpNet_def Let_def split: prod.splits option.splits list.splits)

lemma rfcPcpNet_fields: "pn_dial rfcPcpNet w = Inr [192, 168, 1, 2]" "pn_serve rfcPcpNet = rfcp_serve"
  by (simp_all add: rfcPcpNet_def)

lemma rfcp_mapPort:
  assumes "pcp_nonce rfcPcpNet protocol i s = (Inr nonce, c, w)"
  shows "map_prod (\<lambda>r. r) snd (pcp_mapPort rfcPcpNet timeout protocol i e l s) =
     (let step = (\<lambda>port. rfcp_map (pcp_proto protocol, i) (padTo 12 nonce) port l (w\<lparr>rp_fates := tl (rp_fates w)\<rparr>));
          lost = Inl (ErrPCP (ErrOutcomeUnknown ErrNoAnswer)); refuse = (\<lambda>n. Inl (ErrPCP (ErrResultCode n))) in
      case rfcp_fate e l w of
        LoseRequest \<Rightarrow> (lost, w\<lparr>rp_fates := tl (rp_fates w)\<rparr>)
      | LoseAnswer port lease \<Rightarrow> (lost, snd (step port))
      | Refuse code \<Rightarrow> (refuse 8, w\<lparr>rp_fates := tl (rp_fates w)\<rparr>)
      | Grant port lease \<Rightarrow>
          (case fst (step port) of None \<Rightarrow> refuse 2 | Some x \<Rightarrow> Inr (x, if l = 0 then 0 else lease), snd (step port)))"
proof -
  let ?w = "w\<lparr>rp_fates := tl (rp_fates w)\<rparr>"
  have ex: "pmpExchange rfcPcpNet timeout (pcp_mapRequest nonce protocol i e l) accept w =
      (let (rounds, w') = rfcp_serve (pcp_mapRequest nonce protocol i e l [192, 168, 1, 2]) w in (fst (pmpLoop accept rounds timeout 0 0), w'))" for accept
    by (simp add: pmpExchange_def rfcPcpNet_fields)
  note serve = ex rfcp_serve_def pcp_request_fields Let_def loop_lost loop_answered [OF pcp_accept_reply]
    pcp_reply_fields pcpHeaderLen_def
  show ?thesis
  proof (cases "rfcp_fate e l w")
    case (Grant port lease)
    obtain x w' where "rfcp_map (pcp_proto protocol, i) (padTo 12 nonce) port l ?w = (x, w')" by (metis surj_pair)
    with Grant show ?thesis by (cases x) (simp_all add: pcp_mapPort_def assms serve)
  qed (simp_all add: pcp_mapPort_def assms serve)
qed

lemma pcp_proto_inj: "p \<in> transports \<Longrightarrow> q \<in> transports \<Longrightarrow> pcp_proto p = pcp_proto q \<longleftrightarrow> p = q"
  by (auto simp: transports_def pcp_proto_def pcp_consts protoTCP_def)

lemma rfcp_map_has:
  "k' \<noteq> k \<Longrightarrow> gget (rp_table (snd (rfcp_map k n port l w))) k' = gget (rp_table w) k'"
  "fst (rfcp_map k n port l w) = Some x \<Longrightarrow>
     map_option snd (gget (rp_table (snd (rfcp_map k n port l w))) k) = (if l = 0 then None else Some x)"
  "fst (rfcp_map k n port l w) = None \<Longrightarrow> rp_table (snd (rfcp_map k n port l w)) = rp_table w"
  "gget (rp_table w) k = Some p \<Longrightarrow> l \<noteq> 0 \<Longrightarrow> gget (rp_table (snd (rfcp_map k n port l w))) k = Some p"
  "gget (rp_table (snd (rfcp_map k n port 0 w))) k = None \<or> rp_table (snd (rfcp_map k n port 0 w)) = rp_table w"
  by (auto simp: rfcp_map_def split: option.split prod.split)

text \<open>What a request does to the mapping of its own port, and to the others.\<close>

lemma rfcp_effect:
  assumes "pcp_mapPort rfcPcpNet timeout protocol i e l s = (r, s')"
  shows "k \<noteq> (pcp_proto protocol, i) \<Longrightarrow> gget (rp_table (snd s')) k = gget (rp_table (snd s)) k"
    and "r = Inr (x, lease) \<Longrightarrow> map_option snd (gget (rp_table (snd s')) (pcp_proto protocol, i)) = (if l = 0 then None else Some x)"
    and "r = Inl err \<Longrightarrow> \<not> isOutcomeUnknown err \<Longrightarrow> rp_table (snd s') = rp_table (snd s)"
    and "l = 0 \<Longrightarrow> gget (rp_table (snd s')) (pcp_proto protocol, i) = None \<or> rp_table (snd s') = rp_table (snd s)"
    and "l \<noteq> 0 \<Longrightarrow> gget (rp_table (snd s)) (pcp_proto protocol, i) = Some p \<Longrightarrow>
           gget (rp_table (snd s')) (pcp_proto protocol, i) = Some p"
proof -
  obtain a c w where n: "pcp_nonce rfcPcpNet protocol i s = (a, c, w)" by (metis prod_cases3)
  note tab = rfcp_nonce [OF n]
  have all: "(k \<noteq> (pcp_proto protocol, i) \<longrightarrow> gget (rp_table (snd s')) k = gget (rp_table (snd s)) k)
    \<and> (r = Inr (x, lease) \<longrightarrow> map_option snd (gget (rp_table (snd s')) (pcp_proto protocol, i)) = (if l = 0 then None else Some x))
    \<and> (r = Inl err \<and> \<not> isOutcomeUnknown err \<longrightarrow> rp_table (snd s') = rp_table (snd s))
    \<and> (l = 0 \<longrightarrow> gget (rp_table (snd s')) (pcp_proto protocol, i) = None \<or> rp_table (snd s') = rp_table (snd s))
    \<and> (l \<noteq> 0 \<and> gget (rp_table (snd s)) (pcp_proto protocol, i) = Some p \<longrightarrow>
           gget (rp_table (snd s')) (pcp_proto protocol, i) = Some p)" for k x lease err p
  proof (cases a)
    case (Inl e')
    then show ?thesis using assms n tab by (auto simp: pcp_mapPort_def)
  next
    case (Inr nonce)
    let ?k = "(pcp_proto protocol, i)" and ?w = "w\<lparr>rp_fates := tl (rp_fates w)\<rparr>"
    note run = rfcp_mapPort [OF n [unfolded Inr], of timeout e l, unfolded assms, simplified]
    show ?thesis
    proof (cases "rfcp_fate e l w")
      case (LoseAnswer port lease')
      then show ?thesis using run tab rfcp_map_has(1) [where k = ?k and n = "padTo 12 nonce" and port = port and w = ?w] rfcp_map_has(4) [where k = ?k and n = "padTo 12 nonce" and port = port and w = ?w]
          rfcp_map_has(5) [where k = ?k and n = "padTo 12 nonce" and port = port and w = ?w]
        by (auto simp: Let_def)
    next
      case (Grant port lease')
      then show ?thesis using run tab rfcp_map_has(1) [where k = ?k and n = "padTo 12 nonce" and port = port and w = ?w]
          rfcp_map_has(2) [where k = ?k and n = "padTo 12 nonce" and port = port and w = ?w]
          rfcp_map_has(3) [where k = ?k and n = "padTo 12 nonce" and port = port and w = ?w]
          rfcp_map_has(4) [where k = ?k and n = "padTo 12 nonce" and port = port and w = ?w]
          rfcp_map_has(5) [where k = ?k and n = "padTo 12 nonce" and port = port and w = ?w]
        by (cases "fst (rfcp_map ?k (padTo 12 nonce) port l ?w)") (auto simp: Let_def)
    qed (use run tab in \<open>auto simp: Let_def\<close>)
  qed
  show "k \<noteq> (pcp_proto protocol, i) \<Longrightarrow> gget (rp_table (snd s')) k = gget (rp_table (snd s)) k" using all by blast
  show "r = Inr (x, lease) \<Longrightarrow> map_option snd (gget (rp_table (snd s')) (pcp_proto protocol, i)) = (if l = 0 then None else Some x)"
    using all by blast
  show "r = Inl err \<Longrightarrow> \<not> isOutcomeUnknown err \<Longrightarrow> rp_table (snd s') = rp_table (snd s)" using all by blast
  show "l = 0 \<Longrightarrow> gget (rp_table (snd s')) (pcp_proto protocol, i) = None \<or> rp_table (snd s') = rp_table (snd s)" using all by blast
  show "l \<noteq> 0 \<Longrightarrow> gget (rp_table (snd s)) (pcp_proto protocol, i) = Some p \<Longrightarrow>
           gget (rp_table (snd s')) (pcp_proto protocol, i) = Some p" using all by blast
qed

interpretation rfcp: mapping_gateway "pcp_mapPort rfcPcpNet timeout" rfcp_has
proof (unfold_locales, goal_cases)
  case (1 k protocol i e l s)
  then have "(pcp_proto (fst k), snd k) \<noteq> (pcp_proto protocol, i)"
    using pcp_proto_inj [of "fst k" protocol] by (cases k) auto
  then show ?case using rfcp_effect(1) [OF prod.collapse [symmetric]] by (simp add: rfcp_has_def)
next
  case (2 protocol l i e s got lease)
  then show ?case using rfcp_effect(2) [OF prod.collapse [symmetric]] by (auto simp: rfcp_has_def)
next
  case (3 protocol i e s answer)
  then show ?case using rfcp_effect(2) [OF prod.collapse [symmetric], of timeout protocol i e 0 s "fst answer" "snd answer"]
    by (simp add: rfcp_has_def)
next
  case (4 protocol i e l s err)
  then show ?case using rfcp_effect(3) [OF prod.collapse [symmetric]] by (simp add: rfcp_has_def)
next
  case (5 protocol i e s err)
  then show ?case using rfcp_effect(4) [OF prod.collapse [symmetric], where timeout = timeout and protocol = protocol and i = i and e = e and l = 0 and s = s] by (auto simp: rfcp_has_def)
next
  case (6 protocol l s i x e)
  then show ?case using rfcp_effect(5) [OF prod.collapse [symmetric], where timeout = timeout and protocol = protocol and i = i and e = e and l = l and s = s] by (auto simp: rfcp_has_def)
qed

text \<open>C40: an exchange ends. Whatever the network does, a NAT-PMP or PCP request is sent at most four times before its
  two seconds are over. When it fails with an error that is not \<open>errOutcomeUnknown\<close>, either nothing was sent or that error is what a
  datagram of the gateway says; and when it succeeds, it returns a datagram that was accepted.\<close>

theorem exchange_outcome:
  assumes "pmpLoop accept rounds pmpTimeout 0 0 = (r, n)"
  shows "n \<le> 4 \<and>
    (case r of
       Inl e \<Rightarrow> isOutcomeUnknown e \<or> n = 0 \<or> (\<exists>j < n. \<exists>b \<in> set (pr_packets (rounds j)). accept (take 1100 b) = Inl e)
     | Inr x \<Rightarrow> accept x = Inr True \<and> (\<exists>j < n. \<exists>b \<in> set (pr_packets (rounds j)). x = take 1100 b))"
proof -
  have "n \<le> 4"
    using pmpLoop_sends [of 0 4 4 pmpTimeout 0 accept rounds] assms by (simp add: pmp_consts)
  then show ?thesis using pmpLoop_result [OF assms] by (auto split: sum.splits)
qed

definition exampleRounds :: "nat \<Rightarrow> pmpRound" where
  "exampleRounds i = answer_round (if i = 2 then [natPMP_reply 1 0 4000 4000 7200] else []) i"

theorem exchange_outcome_witness:
  "snd (pmpLoop (natPMP_accept 1 16) exampleRounds pmpTimeout 0 0) = 3 \<and>
   fst (pmpLoop (natPMP_accept 1 16) exampleRounds pmpTimeout 0 0) = Inr (natPMP_reply 1 0 4000 4000 7200) \<and>
   natPMP_accept 1 16 (natPMP_reply 1 0 4000 4000 7200) = Inr True"
proof -
  have "pmpLoop (natPMP_accept 1 16) exampleRounds pmpTimeout 0 0 = (Inr (natPMP_reply 1 0 4000 4000 7200), 3)"
    by code_simp
  with exchange_outcome [OF this] show ?thesis by simp
qed

text \<open>C8: a mapping is on the gateway exactly when the client keeps it. On a gateway that keeps its contract, an add of a port that
  was not mapped either succeeds, and then the gateway holds the mapping on the port asked for and the
  client keeps a lease of at least ten seconds; or it fails, and then the client keeps nothing and the
  gateway holds nothing, unless the request that was to remove the mapping again failed too.\<close>

theorem add_leaves_nothing:
  assumes "mapping_gateway mapPort has" and "protocol \<in> transports" and "0 < l"
    and "gget g (protocol, i) = None" and "has w (protocol, i) = None"
    and "pm_add method mapPort protocol i e l (g, w) = (r, g', w')"
  shows "(case r of
      None \<Rightarrow> has w' (protocol, i) = Some e \<and> (\<exists>lease \<ge> minGrantedLease. gget g' (protocol, i) = Some lease)
    | Some err \<Rightarrow> gget g' (protocol, i) = None \<and>
        (has w' (protocol, i) = None \<or> (\<exists>x w1 err'. mapPort protocol i x 0 w1 = (Inl err', w'))))"
  using assms by (rule mapping_gateway.add_fresh)

definition exampleGateway :: rfcGateway where
  "exampleGateway = \<lparr>rg_table = [], rg_fates = [LoseAnswer 4000 3600, Grant 0 0]\<rparr>"

theorem add_leaves_nothing_witness:
  "case pm_add ''nat-pmp'' (natPMP_mapPort rfcNet pmpTimeout) protoTCP 4000 4000 3600 ([], exampleGateway) of
     (r, g', w') \<Rightarrow> r = Some (ErrNATPMP (ErrOutcomeUnknown ErrNoAnswer)) \<and> gget g' (protoTCP, 4000) = None \<and> rfc_has w' (protoTCP, 4000) = None"
proof -
  have run: "pm_add ''nat-pmp'' (natPMP_mapPort rfcNet pmpTimeout) protoTCP 4000 4000 3600 ([], exampleGateway)
      = (Some (ErrNATPMP (ErrOutcomeUnknown ErrNoAnswer)), [], \<lparr>rg_table = [], rg_fates = []\<rparr>)"
    by (simp add: pm_add_def rfc_mapPort rfc_fate_def rfc_map_def exampleGateway_def)
  have "gget ([] :: granted) (protoTCP, 4000) = None \<and> rfc_has exampleGateway (protoTCP, 4000) = None \<and> protoTCP \<in> transports"
    by (simp add: rfc_has_def exampleGateway_def transports_def)
  then show ?thesis
    using add_leaves_nothing [OF rfc.mapping_gateway_axioms _ _ _ _ run] run by (auto simp: rfc_has_def)
qed

end
