(* ===== verification/Port_Forward.thy ===== *)
theory Port_Forward
  imports Pmp_Client
begin

text \<open>
  The forwarder of \<open>portforward/portforward.go\<close>: it holds at most one mapping per protocol on the gateway, renews
  them, and cleans up after adds that nobody waits for any more. The model has one operation per
  stretch of code between two points where other goroutines can run: the calls to the gateway, which can be slow, and the
  lock \<open>f.mu\<close>, which \<open>MapPort\<close> and \<open>UnmapPort\<close> hold throughout. The gateway's own table is part of the state, so that
  what it holds can be compared with what the forwarder tracks.
\<close>

section \<open>Mappings and their renewal times\<close>

type_synonym portKey = "string \<times> u16"

text \<open>\<open>LeaseDuration\<close> is what the gateway granted, when it says; \<open>requested\<close> is what was asked for.\<close>

record mapping =
  mp_ExternalPort :: u16
  mp_InternalPort :: u16
  mp_InternalIP :: string
  mp_Protocol :: string
  mp_LeaseDuration :: duration
  mp_Method :: string
  mp_description :: string
  mp_requested :: u32
  mp_renewed :: time
  mp_retryAt :: time

definition mp_key :: "mapping \<Rightarrow> portKey" where
  "mp_key m = (mp_Protocol m, mp_ExternalPort m)"

definition minRenewInterval :: duration where "minRenewInterval = second"
definition renewCallTimeout :: duration where "renewCallTimeout = 30 * second"
definition addCallTimeout :: duration where "addCallTimeout = renewCallTimeout"
definition upnpCallTimeout :: duration where "upnpCallTimeout = addCallTimeout + 15 * second"

lemmas renew_consts = minRenewInterval_def renewCallTimeout_def time_units

definition renewRetryDelay :: "mapping \<Rightarrow> duration" where
  "renewRetryDelay m = min (max (mp_LeaseDuration m div 8) second) minute"

definition renewPeriod :: "mapping \<Rightarrow> duration \<Rightarrow> duration" where
  "renewPeriod m interval = min interval (max (mp_LeaseDuration m div 2) minRenewInterval)"

definition baseRenewInterval :: "mapping \<Rightarrow> duration" where
  "baseRenewInterval m = max (uint (mp_requested m) * second div 2) minute"

definition mp_due :: "duration \<Rightarrow> mapping \<Rightarrow> time" where
  "mp_due interval m =
     (let due = mp_renewed m + renewPeriod m interval in if due < mp_retryAt m then mp_retryAt m else due)"

fun earliest :: "duration \<Rightarrow> time \<Rightarrow> mapping list \<Rightarrow> time" where
  "earliest interval t [] = t"
| "earliest interval t (m # ms) =
     (let due = mp_due interval m in earliest interval (if t = 0 \<or> due < t then due else t) ms)"

definition nextRenewal :: "time \<Rightarrow> duration \<Rightarrow> mapping list \<Rightarrow> duration" where
  "nextRenewal now interval ms = (if ms = [] then interval else max (earliest interval 0 ms - now) 0)"

section \<open>Outcomes\<close>

text \<open>An add's error is \<open>None\<close> when it succeeded.\<close>

definition mayHaveLanded :: "pmpErr option \<Rightarrow> bool" where
  "mayHaveLanded err \<longleftrightarrow> (case err of None \<Rightarrow> True | Some e \<Rightarrow> isOutcomeUnknown e)"

text \<open>\<open>fault\<close>: the error is a SOAP fault.\<close>

definition upnpOutcome :: "bool \<Rightarrow> pmpErr option \<Rightarrow> pmpErr option" where
  "upnpOutcome fault err =
     (case err of None \<Rightarrow> None | Some e \<Rightarrow> if fault then Some e else Some (ErrOutcomeUnknown e))"

datatype mapErr = ErrProtocol | ErrActive | ErrCleaningUp | ErrCtxDone | ErrNoLocalIP | ErrNoPortForwarding

section \<open>State\<close>

text \<open>
  An add in flight. Its goroutine is in the call, or has put the result into the channel, or has taken over
  the outcome and is deleting what the add made or about to give the port free, or is finished. \<open>op_landed\<close>, which the code
  does not know, is whether the gateway has acted on the request.
\<close>

datatype opPhase = Calling | Answered | Deleting | Releasing | Finished

record addOp =
  op_mapping :: nat
  op_key :: portKey
  op_handled :: bool
  op_phase :: opPhase
  op_result :: "pmpErr option"
  op_landed :: bool

text \<open>The goroutine of \<open>removeLocked\<close>.\<close>

datatype remPhase = RemDeleting | RemReleasing | RemDone

record removal =
  rm_key :: portKey
  rm_phase :: remPhase

text \<open>A goroutine of \<open>renewLoop\<close>: not yet past its start, asleep, going through its snapshot of the mappings (with the count of teardowns read with
  it), waiting for an add's result, or gone.\<close>

datatype renewPc =
    Starting
  | Asleep
  | Renewing "nat list" u64
  | Awaiting nat nat "nat list" u64
  | Ended

record renewLoop =
  rl_canceled :: bool
  rl_interval :: duration
  rl_pc :: renewPc

text \<open>Who holds \<open>f.mu\<close> across a call to the gateway: a \<open>MapPort\<close> waiting for its add, or an \<open>UnmapPort\<close> with the mappings
  still to delete and the protocols whose delete failed.\<close>

datatype holder = Unlocked | InMapPort nat | InUnmapPort "nat list" "string list"

text \<open>
  Mappings are objects: \<open>fw_mappings\<close> and everyone else refers to them by their index in \<open>fw_objs\<close>. The last four fields are the
  world's: the ports mapped on the gateway, the deletes of an \<open>UnmapPort\<close> that stopped waiting for them and which
  are still under way, the ports that were mapped before or whose last clean-up delete failed, and the ports the gateway dropped, by a lease's end or a
  teardown's delete, since an add last took effect on them.
\<close>

record forwarder =
  fw_method :: string
  fw_mappings :: "(string, nat) gomap"
  fw_cancel :: "nat option"
  fw_teardowns :: u64
  fw_wake :: "bool option"
  fw_inflight :: "(portKey, int) gomap"
  fw_objs :: "mapping list"
  fw_ops :: "addOp list"
  fw_rems :: "removal list"
  fw_loops :: "renewLoop list"
  fw_lock :: holder
  gw_ports :: "portKey set"
  gw_strays :: "portKey list"
  gw_leaked :: "portKey set"
  gw_dropped :: "portKey set"

definition newForwarder :: "string \<Rightarrow> portKey set \<Rightarrow> forwarder" where
  "newForwarder method leftovers =
     \<lparr>fw_method = method, fw_mappings = [], fw_cancel = None, fw_teardowns = 0, fw_wake = None, fw_inflight = [],
      fw_objs = [], fw_ops = [], fw_rems = [], fw_loops = [], fw_lock = Unlocked,
      gw_ports = leftovers, gw_strays = [], gw_leaked = leftovers, gw_dropped = {}\<rparr>"

definition obj_key :: "forwarder \<Rightarrow> nat \<Rightarrow> portKey" where
  "obj_key f i = mp_key (fw_objs f ! i)"

definition updOp :: "nat \<Rightarrow> (addOp \<Rightarrow> addOp) \<Rightarrow> forwarder \<Rightarrow> forwarder" where
  "updOp i g f = f\<lparr>fw_ops := (fw_ops f)[i := g (fw_ops f ! i)]\<rparr>"

definition updRem :: "nat \<Rightarrow> (removal \<Rightarrow> removal) \<Rightarrow> forwarder \<Rightarrow> forwarder" where
  "updRem i g f = f\<lparr>fw_rems := (fw_rems f)[i := g (fw_rems f ! i)]\<rparr>"

definition updMapping :: "nat \<Rightarrow> (mapping \<Rightarrow> mapping) \<Rightarrow> forwarder \<Rightarrow> forwarder" where
  "updMapping i g f = f\<lparr>fw_objs := (fw_objs f)[i := g (fw_objs f ! i)]\<rparr>"

definition setLoop :: "nat \<Rightarrow> renewPc \<Rightarrow> forwarder \<Rightarrow> forwarder" where
  "setLoop l pc f = f\<lparr>fw_loops := (fw_loops f)[l := (fw_loops f ! l)\<lparr>rl_pc := pc\<rparr>]\<rparr>"

section \<open>Holding ports, adding and removing\<close>

definition inflight :: "forwarder \<Rightarrow> portKey \<Rightarrow> int" where
  "inflight f k = (case gget (fw_inflight f) k of None \<Rightarrow> 0 | Some n \<Rightarrow> n)"

definition holdLocked :: "portKey \<Rightarrow> forwarder \<Rightarrow> forwarder" where
  "holdLocked k f = f\<lparr>fw_inflight := gput k (inflight f k + 1) (fw_inflight f)\<rparr>"

definition releaseLocked :: "portKey \<Rightarrow> forwarder \<Rightarrow> forwarder" where
  "releaseLocked k f =
     (let n = inflight f k - 1 in
      if n \<le> 0 then f\<lparr>fw_inflight := gdel k (fw_inflight f)\<rparr> else f\<lparr>fw_inflight := gput k n (fw_inflight f)\<rparr>)"

text \<open>The new operation is the last of \<open>fw_ops\<close>.\<close>

definition addLocked :: "nat \<Rightarrow> forwarder \<Rightarrow> forwarder" where
  "addLocked m f =
     (let k = obj_key f m; f = holdLocked k f in
      f\<lparr>fw_ops := fw_ops f @ [\<lparr>op_mapping = m, op_key = k, op_handled = False, op_phase = Calling, op_result = None, op_landed = False\<rparr>]\<rparr>)"

definition claim :: "nat \<Rightarrow> forwarder \<Rightarrow> bool \<times> forwarder" where
  "claim i f =
     (if op_handled (fw_ops f ! i) then (False, f)
      else (True, releaseLocked (op_key (fw_ops f ! i)) (updOp i (op_handled_update (\<lambda>_. True)) f)))"

definition removeLocked :: "nat \<Rightarrow> forwarder \<Rightarrow> forwarder" where
  "removeLocked m f =
     (let k = obj_key f m; f = holdLocked k f in f\<lparr>fw_rems := fw_rems f @ [\<lparr>rm_key = k, rm_phase = RemDeleting\<rparr>]\<rparr>)"

definition untrackedLocked :: "nat \<Rightarrow> forwarder \<Rightarrow> bool" where
  "untrackedLocked m f \<longleftrightarrow>
     (case gget (fw_mappings f) (mp_Protocol (fw_objs f ! m)) of
        None \<Rightarrow> True
      | Some cur \<Rightarrow> cur \<noteq> m \<and> mp_ExternalPort (fw_objs f ! cur) \<noteq> mp_ExternalPort (fw_objs f ! m))"

text \<open>\<open>MapPort\<close> admits the two protocols only, so this is protocol order.\<close>

definition activeMappings :: "forwarder \<Rightarrow> nat list" where
  "activeMappings f = List.map_filter (gget (fw_mappings f)) [protoTCP, protoUDP]"

section \<open>MapPort\<close>

definition requestedLease :: u32 where "requestedLease = 3600"

text \<open>Up to the wait for the add. \<open>ip\<close> is what \<open>localIPLocked\<close> finds.\<close>

definition mapPort_begin :: "bool \<Rightarrow> string option \<Rightarrow> string \<Rightarrow> u16 \<Rightarrow> string \<Rightarrow> forwarder \<Rightarrow> mapErr + forwarder" where
  "mapPort_begin ctxErr ip protocol internalPort description f =
     (if protocol \<noteq> protoTCP \<and> protocol \<noteq> protoUDP then Inl ErrProtocol
      else if gget (fw_mappings f) protocol \<noteq> None then Inl ErrActive
      else if inflight f (protocol, internalPort) > 0 then Inl ErrCleaningUp
      else if ctxErr then Inl ErrCtxDone
      else case ip of
        None \<Rightarrow> Inl ErrNoLocalIP
      | Some addr \<Rightarrow>
          let m = \<lparr>mp_ExternalPort = internalPort, mp_InternalPort = internalPort, mp_InternalIP = addr, mp_Protocol = protocol,
                   mp_LeaseDuration = uint requestedLease * second, mp_Method = fw_method f, mp_description = description,
                   mp_requested = requestedLease, mp_renewed = 0, mp_retryAt = 0\<rparr>;
              f = f\<lparr>fw_objs := fw_objs f @ [m]\<rparr>;
              f = addLocked (length (fw_objs f) - 1) f in
          Inr (f\<lparr>fw_lock := InMapPort (length (fw_ops f) - 1)\<rparr>))"

text \<open>How the wait ends; \<open>ctxErr\<close> is the context's state when the result is looked at, \<open>lease\<close> what a client that is a
  \<open>leaseReporter\<close> says was granted.\<close>

datatype mapWait = Received "pmpErr option" | CtxDone | TimedOut

definition track :: "nat \<Rightarrow> time \<Rightarrow> duration option \<Rightarrow> forwarder \<Rightarrow> forwarder" where
  "track m now lease f =
     (let f = (case lease of Some g \<Rightarrow> updMapping m (mp_LeaseDuration_update (\<lambda>_. g)) f | None \<Rightarrow> f);
          f = updMapping m (mp_renewed_update (\<lambda>_. now)) f;
          f = f\<lparr>fw_mappings := gput (mp_Protocol (fw_objs f ! m)) m (fw_mappings f)\<rparr> in
      f\<lparr>fw_wake := map_option (\<lambda>_. True) (fw_wake f)\<rparr>)"

definition mapPort_end :: "mapWait \<Rightarrow> bool \<Rightarrow> time \<Rightarrow> duration option \<Rightarrow> nat \<Rightarrow> forwarder \<Rightarrow> (mapErr + mapping) \<times> forwarder" where
  "mapPort_end res ctxErr now lease i f =
     (let m = op_mapping (fw_ops f ! i); unlock = fw_lock_update (\<lambda>_. Unlocked) in
      case res of
        CtxDone \<Rightarrow> (Inl ErrCtxDone, unlock f)
      | TimedOut \<Rightarrow> (Inl ErrNoPortForwarding, unlock f)
      | Received err \<Rightarrow>
          let f = snd (claim i f) in
          if ctxErr \<and> mayHaveLanded err then (Inl ErrCtxDone, unlock (removeLocked m f))
          else
            let f = (if err \<noteq> None \<and> mayHaveLanded err then removeLocked m f else f) in
            if err \<noteq> None then (Inl (if ctxErr then ErrCtxDone else ErrNoPortForwarding), unlock f)
            else let f = track m now lease f in (Inr (fw_objs f ! m), unlock f))"

section \<open>UnmapPort\<close>

definition cancelLoop :: "nat option \<Rightarrow> forwarder \<Rightarrow> forwarder" where
  "cancelLoop c f =
     (case c of None \<Rightarrow> f
      | Some l \<Rightarrow> f\<lparr>fw_loops := (fw_loops f)[l := (fw_loops f ! l)\<lparr>rl_canceled := True\<rparr>], fw_cancel := None\<rparr>)"

definition unmapPort_begin :: "forwarder \<Rightarrow> forwarder" where
  "unmapPort_begin f =
     (let f = cancelLoop (fw_cancel f) f; f = f\<lparr>fw_teardowns := fw_teardowns f + 1\<rparr> in
      f\<lparr>fw_lock := InUnmapPort (activeMappings f) []\<rparr>)"

text \<open>One delete of the loop, through \<open>runWithCtx\<close>: it succeeds; it fails, having taken effect or not; the context ends
  first, and the call goes on alone; or the context had ended before, and there is no call.\<close>

datatype delOutcome = Deleted | DeleteFailed bool | GaveUp | Skipped

definition unmapPort_delete :: "delOutcome \<Rightarrow> nat \<Rightarrow> nat list \<Rightarrow> string list \<Rightarrow> forwarder \<Rightarrow> forwarder" where
  "unmapPort_delete d m ms errs f =
     (let k = obj_key f m; p = mp_Protocol (fw_objs f ! m);
          failed = f\<lparr>fw_lock := InUnmapPort ms (errs @ [p])\<rparr> in
      case d of
        Deleted \<Rightarrow> f\<lparr>gw_ports := gw_ports f - {k}, gw_leaked := gw_leaked f - {k}, fw_mappings := gdel p (fw_mappings f), fw_lock := InUnmapPort ms errs\<rparr>
      | DeleteFailed gone \<Rightarrow>
          if gone then failed\<lparr>gw_ports := gw_ports f - {k}, gw_dropped := insert k (gw_dropped f)\<rparr> else failed
      | GaveUp \<Rightarrow> failed\<lparr>gw_strays := gw_strays f @ [k]\<rparr>
      | Skipped \<Rightarrow> failed)"

section \<open>Renewal\<close>

definition startRenewal :: "forwarder \<Rightarrow> forwarder" where
  "startRenewal f =
     (if fw_cancel f \<noteq> None then f
      else case activeMappings f of
        [] \<Rightarrow> f
      | m # _ \<Rightarrow>
          f\<lparr>fw_loops := fw_loops f @ [\<lparr>rl_canceled = False, rl_interval = baseRenewInterval (fw_objs f ! m), rl_pc = Starting\<rparr>],
            fw_cancel := Some (length (fw_loops f))\<rparr>)"

definition loop_start :: "nat \<Rightarrow> forwarder \<Rightarrow> forwarder" where
  "loop_start l f = setLoop l Asleep (f\<lparr>fw_wake := Some (case fw_wake f of None \<Rightarrow> False | Some b \<Rightarrow> b)\<rparr>)"

text \<open>The timer fires: a snapshot of the mappings.\<close>

definition loop_tick :: "nat \<Rightarrow> forwarder \<Rightarrow> forwarder" where
  "loop_tick l f =
     (let ms = activeMappings f in
      if ms = [] then setLoop l Ended f else setLoop l (Renewing ms (fw_teardowns f)) f)"

text \<open>The next mapping of the round, up to \<open>renew\<close>'s wait.\<close>

definition renew_begin :: "nat \<Rightarrow> nat \<Rightarrow> nat list \<Rightarrow> u64 \<Rightarrow> forwarder \<Rightarrow> forwarder" where
  "renew_begin l m ms teardowns f =
     (if rl_canceled (fw_loops f ! l) then setLoop l Ended f
      else if gget (fw_mappings f) (mp_Protocol (fw_objs f ! m)) \<noteq> Some m then setLoop l Ended f
      else setLoop l (Awaiting (length (fw_ops f)) m ms teardowns) (addLocked m f))"

text \<open>The rest of \<open>renew\<close>; \<open>received\<close> is the add's result, or \<open>None\<close> when the wait timed out.\<close>

definition renew_end :: "pmpErr option option \<Rightarrow> time \<Rightarrow> duration option \<Rightarrow> nat \<Rightarrow> nat \<Rightarrow> nat \<Rightarrow> nat list \<Rightarrow> u64 \<Rightarrow> forwarder \<Rightarrow> forwarder" where
  "renew_end received now lease l i m ms teardowns f =
     (let confirmed = (received = Some None);
          tornDown = (fw_teardowns f \<noteq> teardowns);
          f = (case received of
                 None \<Rightarrow> f
               | Some err \<Rightarrow>
                   let (claimed, f) = claim i f in
                   if claimed \<and> mayHaveLanded err \<and> untrackedLocked m f then removeLocked m f else f);
          f = (if confirmed then updMapping m (\<lambda>x. x\<lparr>mp_renewed := now, mp_retryAt := 0\<rparr>) f
               else updMapping m (\<lambda>x. x\<lparr>mp_retryAt := now + renewRetryDelay x\<rparr>) f);
          f = (case lease of
                 Some g \<Rightarrow> if \<not> tornDown \<and> confirmed then updMapping m (mp_LeaseDuration_update (\<lambda>_. g)) f else f
               | None \<Rightarrow> f) in
      setLoop l (if tornDown then Ended else Renewing ms teardowns) f)"

section \<open>The goroutines of adds and removals\<close>

text \<open>The gateway acts on the request of an add.\<close>

definition op_land :: "nat \<Rightarrow> forwarder \<Rightarrow> forwarder" where
  "op_land i f =
     (let k = op_key (fw_ops f ! i) in
      updOp i (op_landed_update (\<lambda>_. True)) (f\<lparr>gw_ports := insert k (gw_ports f), gw_dropped := gw_dropped f - {k}\<rparr>))"

definition op_answer :: "nat \<Rightarrow> pmpErr option \<Rightarrow> forwarder \<Rightarrow> forwarder" where
  "op_answer i err f = updOp i (\<lambda>x. x\<lparr>op_phase := Answered, op_result := err\<rparr>) f"

definition op_check :: "nat \<Rightarrow> forwarder \<Rightarrow> forwarder" where
  "op_check i f =
     (let x = fw_ops f ! i in
      if op_handled x then updOp i (op_phase_update (\<lambda>_. Finished)) f
      else
        let gone = (mayHaveLanded (op_result x) \<and> untrackedLocked (op_mapping x) f) in
        updOp i (\<lambda>x. x\<lparr>op_handled := True, op_phase := if gone then Deleting else Releasing\<rparr>) f)"

text \<open>\<open>deleteUntracked\<close>: the delete succeeds, or it fails, having taken effect or not.\<close>

definition deleteUntracked :: "portKey \<Rightarrow> bool option \<Rightarrow> forwarder \<Rightarrow> forwarder" where
  "deleteUntracked k failed f =
     (case failed of
        None \<Rightarrow> f\<lparr>gw_ports := gw_ports f - {k}, gw_leaked := gw_leaked f - {k}\<rparr>
      | Some gone \<Rightarrow> if gone then f\<lparr>gw_ports := gw_ports f - {k}\<rparr> else f\<lparr>gw_leaked := insert k (gw_leaked f)\<rparr>)"

definition op_delete :: "nat \<Rightarrow> bool option \<Rightarrow> forwarder \<Rightarrow> forwarder" where
  "op_delete i failed f = updOp i (op_phase_update (\<lambda>_. Releasing)) (deleteUntracked (op_key (fw_ops f ! i)) failed f)"

definition op_release :: "nat \<Rightarrow> forwarder \<Rightarrow> forwarder" where
  "op_release i f = updOp i (op_phase_update (\<lambda>_. Finished)) (releaseLocked (op_key (fw_ops f ! i)) f)"

definition rem_delete :: "nat \<Rightarrow> bool option \<Rightarrow> forwarder \<Rightarrow> forwarder" where
  "rem_delete i failed f = updRem i (rm_phase_update (\<lambda>_. RemReleasing)) (deleteUntracked (rm_key (fw_rems f ! i)) failed f)"

definition rem_release :: "nat \<Rightarrow> forwarder \<Rightarrow> forwarder" where
  "rem_release i f = updRem i (rm_phase_update (\<lambda>_. RemDone)) (releaseLocked (rm_key (fw_rems f ! i)) f)"

section \<open>Steps\<close>

text \<open>What the background goroutines can do. An add returns no error only if the gateway acted on it, and a refusal only
  if it did not.\<close>

inductive go_step :: "forwarder \<Rightarrow> forwarder \<Rightarrow> bool" where
  go_answer: "i < length (fw_ops f) \<Longrightarrow> op_phase (fw_ops f ! i) = Calling \<Longrightarrow>
    (err = None \<longrightarrow> op_landed (fw_ops f ! i)) \<Longrightarrow> (\<not> mayHaveLanded err \<longrightarrow> \<not> op_landed (fw_ops f ! i)) \<Longrightarrow>
    go_step f (op_answer i err f)"
| go_check: "fw_lock f = Unlocked \<Longrightarrow> i < length (fw_ops f) \<Longrightarrow> op_phase (fw_ops f ! i) = Answered \<Longrightarrow> go_step f (op_check i f)"
| go_delete: "i < length (fw_ops f) \<Longrightarrow> op_phase (fw_ops f ! i) = Deleting \<Longrightarrow> go_step f (op_delete i failed f)"
| go_release: "fw_lock f = Unlocked \<Longrightarrow> i < length (fw_ops f) \<Longrightarrow> op_phase (fw_ops f ! i) = Releasing \<Longrightarrow> go_step f (op_release i f)"
| go_rem_delete: "i < length (fw_rems f) \<Longrightarrow> rm_phase (fw_rems f ! i) = RemDeleting \<Longrightarrow> go_step f (rem_delete i failed f)"
| go_rem_release: "fw_lock f = Unlocked \<Longrightarrow> i < length (fw_rems f) \<Longrightarrow> rm_phase (fw_rems f ! i) = RemReleasing \<Longrightarrow> go_step f (rem_release i f)"

inductive fw_step :: "forwarder \<Rightarrow> forwarder \<Rightarrow> bool" where
  background: "go_step f f' \<Longrightarrow> fw_step f f'"
| landing: "i < length (fw_ops f) \<Longrightarrow> op_phase (fw_ops f ! i) = Calling \<Longrightarrow> fw_step f (op_land i f)"
| mapping: "fw_lock f = Unlocked \<Longrightarrow> mapPort_begin ctxErr ip protocol port description f = Inr f' \<Longrightarrow> fw_step f f'"
| mapped: "fw_lock f = InMapPort i \<Longrightarrow> op_phase (fw_ops f ! i) = Answered \<Longrightarrow>
    fw_step f (snd (mapPort_end (Received (op_result (fw_ops f ! i))) ctxErr now lease i f))"
| abandoned: "fw_lock f = InMapPort i \<Longrightarrow> res = CtxDone \<or> res = TimedOut \<Longrightarrow> fw_step f (snd (mapPort_end res ctxErr now lease i f))"
| unmapping: "fw_lock f = Unlocked \<Longrightarrow> fw_step f (unmapPort_begin f)"
| unmap_one: "fw_lock f = InUnmapPort (m # ms) errs \<Longrightarrow> fw_step f (unmapPort_delete d m ms errs f)"
| unmapped: "fw_lock f = InUnmapPort [] errs \<Longrightarrow> fw_step f (f\<lparr>fw_lock := Unlocked\<rparr>)"
| renewal: "fw_lock f = Unlocked \<Longrightarrow> fw_step f (startRenewal f)"
| started: "fw_lock f = Unlocked \<Longrightarrow> l < length (fw_loops f) \<Longrightarrow> rl_pc (fw_loops f ! l) = Starting \<Longrightarrow> fw_step f (loop_start l f)"
| canceled: "l < length (fw_loops f) \<Longrightarrow> fw_step f (f\<lparr>fw_loops := (fw_loops f)[l := (fw_loops f ! l)\<lparr>rl_canceled := True\<rparr>]\<rparr>)"
| loop_done: "l < length (fw_loops f) \<Longrightarrow> rl_canceled (fw_loops f ! l) \<Longrightarrow> rl_pc (fw_loops f ! l) = Asleep \<Longrightarrow> fw_step f (setLoop l Ended f)"
| woken: "l < length (fw_loops f) \<Longrightarrow> rl_pc (fw_loops f ! l) = Asleep \<Longrightarrow> fw_wake f = Some True \<Longrightarrow> fw_step f (f\<lparr>fw_wake := Some False\<rparr>)"
| tick: "fw_lock f = Unlocked \<Longrightarrow> l < length (fw_loops f) \<Longrightarrow> rl_pc (fw_loops f ! l) = Asleep \<Longrightarrow> fw_step f (loop_tick l f)"
| round_over: "l < length (fw_loops f) \<Longrightarrow> rl_pc (fw_loops f ! l) = Renewing [] t \<Longrightarrow> fw_step f (setLoop l Asleep f)"
| renewing: "fw_lock f = Unlocked \<Longrightarrow> l < length (fw_loops f) \<Longrightarrow> rl_pc (fw_loops f ! l) = Renewing (m # ms) t \<Longrightarrow>
    fw_step f (renew_begin l m ms t f)"
| renewed: "fw_lock f = Unlocked \<Longrightarrow> l < length (fw_loops f) \<Longrightarrow> rl_pc (fw_loops f ! l) = Awaiting i m ms t \<Longrightarrow>
    op_phase (fw_ops f ! i) \<noteq> Calling \<Longrightarrow> fw_step f (renew_end (Some (op_result (fw_ops f ! i))) now lease l i m ms t f)"
| renew_late: "fw_lock f = Unlocked \<Longrightarrow> l < length (fw_loops f) \<Longrightarrow> rl_pc (fw_loops f ! l) = Awaiting i m ms t \<Longrightarrow>
    fw_step f (renew_end None now lease l i m ms t f)"
| lease_ends: "fw_step f (f\<lparr>gw_ports := gw_ports f - {k}, gw_dropped := insert k (gw_dropped f)\<rparr>)"
| stray_delete: "k \<in> set (gw_strays f) \<Longrightarrow>
    fw_step f (f\<lparr>gw_strays := remove1 k (gw_strays f), gw_ports := gw_ports f - {k}, gw_dropped := insert k (gw_dropped f)\<rparr>)"

definition fw_init :: "forwarder \<Rightarrow> bool" where
  "fw_init f \<longleftrightarrow> (\<exists>method leftovers. f = newForwarder method leftovers)"

end
