(* ===== verification/Port_Invariant.thy ===== *)
theory Port_Invariant
  imports Port_Forward
begin

text \<open>
  The invariant of the forwarder of \<open>Port_Forward\<close>, and that the background goroutines of adds and removals keep it: the counts of
  \<open>inflight\<close> are those of the unresolved adds and removals, a port being cleaned up is not tracked, and a port mapped on the gateway is
  tracked or somebody is still going to deal with it. \<open>Port_Guarantees\<close> does the callers' part.
\<close>

section \<open>The invariant\<close>

definition op_holds :: "addOp \<Rightarrow> bool" where
  "op_holds x \<longleftrightarrow> \<not> op_handled x \<and> op_phase x \<in> {Calling, Answered} \<or> op_phase x \<in> {Deleting, Releasing}"

definition rem_holds :: "removal \<Rightarrow> bool" where
  "rem_holds x \<longleftrightarrow> rm_phase x \<noteq> RemDone"

definition held_count :: "forwarder \<Rightarrow> portKey \<Rightarrow> int" where
  "held_count f k = int (length (filter (\<lambda>x. op_holds x \<and> op_key x = k) (fw_ops f)))
     + int (length (filter (\<lambda>x. rem_holds x \<and> rm_key x = k) (fw_rems f)))"

definition tracked :: "forwarder \<Rightarrow> portKey \<Rightarrow> bool" where
  "tracked f k \<longleftrightarrow> (\<exists>i. gget (fw_mappings f) (fst k) = Some i \<and> obj_key f i = k)"

text \<open>An add whose goroutine or waiting caller has yet to undo it, or is undoing it.\<close>

definition op_dirty :: "addOp \<Rightarrow> bool" where
  "op_dirty x \<longleftrightarrow> \<not> op_handled x \<and> (op_phase x = Calling \<and> op_landed x \<or> op_phase x = Answered \<and> mayHaveLanded (op_result x))
     \<or> op_phase x = Deleting"

definition op_ok :: "forwarder \<Rightarrow> addOp \<Rightarrow> bool" where
  "op_ok f x \<longleftrightarrow> op_mapping x < length (fw_objs f) \<and> obj_key f (op_mapping x) = op_key x
     \<and> (op_phase x = Calling \<longrightarrow> \<not> op_handled x) \<and> (op_phase x \<in> {Deleting, Releasing, Finished} \<longrightarrow> op_handled x)
     \<and> (op_phase x \<noteq> Calling \<longrightarrow> (op_result x = None \<longrightarrow> op_landed x) \<and> (op_landed x \<longrightarrow> mayHaveLanded (op_result x)))"

definition maps_ok :: "forwarder \<Rightarrow> bool" where
  "maps_ok f \<longleftrightarrow> (\<forall>p i. gget (fw_mappings f) p = Some i \<longrightarrow> i < length (fw_objs f) \<and> mp_Protocol (fw_objs f ! i) = p)"

fun loop_ok :: "forwarder \<Rightarrow> renewPc \<Rightarrow> bool" where
  "loop_ok f (Renewing ms t) \<longleftrightarrow> (\<forall>m \<in> set ms. m < length (fw_objs f))"
| "loop_ok f (Awaiting i m ms t) \<longleftrightarrow> i < length (fw_ops f) \<and> op_mapping (fw_ops f ! i) = m \<and> (\<forall>m \<in> set ms. m < length (fw_objs f))"
| "loop_ok f _ \<longleftrightarrow> True"

definition shape :: "forwarder \<Rightarrow> bool" where
  "shape f \<longleftrightarrow> maps_ok f \<and> (\<forall>x \<in> set (fw_ops f). op_ok f x) \<and> (\<forall>l \<in> set (fw_loops f). loop_ok f (rl_pc l))"

definition counts :: "forwarder \<Rightarrow> bool" where
  "counts f \<longleftrightarrow> (\<forall>k. gget (fw_inflight f) k = (if held_count f k = 0 then None else Some (held_count f k)))"

fun lock_ok :: "forwarder \<Rightarrow> holder \<Rightarrow> bool" where
  "lock_ok f (InMapPort i) \<longleftrightarrow> i < length (fw_ops f) \<and> op_holds (fw_ops f ! i) \<and> op_phase (fw_ops f ! i) \<in> {Calling, Answered}
     \<and> gget (fw_mappings f) (fst (op_key (fw_ops f ! i))) = None \<and> held_count f (op_key (fw_ops f ! i)) = 1
     \<and> (op_landed (fw_ops f ! i) \<longrightarrow> op_key (fw_ops f ! i) \<in> gw_ports f \<union> gw_dropped f)"
| "lock_ok f (InUnmapPort ms errs) \<longleftrightarrow> distinct ms \<and> (\<forall>m \<in> set ms. m < length (fw_objs f) \<and> gget (fw_mappings f) (mp_Protocol (fw_objs f ! m)) = Some m)"
| "lock_ok f Unlocked \<longleftrightarrow> True"

text \<open>A clean-up delete is on its way to the port.\<close>

definition undoing :: "forwarder \<Rightarrow> portKey \<Rightarrow> bool" where
  "undoing f k \<longleftrightarrow> (\<exists>x \<in> set (fw_ops f). op_phase x = Deleting \<and> op_key x = k) \<or> (\<exists>x \<in> set (fw_rems f). rm_phase x = RemDeleting \<and> rm_key x = k)"

definition attended :: "forwarder \<Rightarrow> portKey \<Rightarrow> bool" where
  "attended f k \<longleftrightarrow> tracked f k \<or> k \<in> gw_leaked f \<or> (\<exists>x \<in> set (fw_ops f). op_dirty x \<and> op_key x = k) \<or> undoing f k"

definition ports_ok :: "forwarder \<Rightarrow> bool" where
  "ports_ok f \<longleftrightarrow> (\<forall>k. (undoing f k \<longrightarrow> \<not> tracked f k) \<and> (k \<in> gw_ports f \<longrightarrow> attended f k)
     \<and> (tracked f k \<longrightarrow> k \<in> gw_ports f \<or> k \<in> gw_dropped f))"

definition fw_inv :: "forwarder \<Rightarrow> bool" where
  "fw_inv f \<longleftrightarrow> shape f \<and> counts f \<and> lock_ok f (fw_lock f) \<and> ports_ok f"

section \<open>Library\<close>

text \<open>Ports are pairs; statements about all of them stay whole.\<close>

declare split_paired_All [simp del] split_paired_all [simp del] split_paired_Ex [simp del]

subsection \<open>Holding a port\<close>

lemma held_nonneg: "0 \<le> held_count f k"
  by (simp add: held_count_def)

lemma held_cong: "fw_ops f' = fw_ops f \<Longrightarrow> fw_rems f' = fw_rems f \<Longrightarrow> held_count f' k = held_count f k"
  by (simp add: held_count_def)

lemma held_zero: "held_count f k = 0 \<longleftrightarrow> (\<forall>x \<in> set (fw_ops f). \<not> (op_holds x \<and> op_key x = k)) \<and> (\<forall>x \<in> set (fw_rems f). \<not> (rem_holds x \<and> rm_key x = k))"
  unfolding held_count_def filter_none [symmetric] by linarith

lemma held_op: "x \<in> set (fw_ops f) \<Longrightarrow> op_holds x \<Longrightarrow> 0 < held_count f (op_key x)"
  using held_zero [of f "op_key x"] held_nonneg [of f "op_key x"] by fastforce

lemma held_rem: "x \<in> set (fw_rems f) \<Longrightarrow> rem_holds x \<Longrightarrow> 0 < held_count f (rm_key x)"
  using held_zero [of f "rm_key x"] held_nonneg [of f "rm_key x"] by fastforce

lemma held_updOp:
  "i < length (fw_ops f) \<Longrightarrow> op_key (g (fw_ops f ! i)) = op_key (fw_ops f ! i) \<Longrightarrow>
   held_count (updOp i g f) k = held_count f k + (if op_key (fw_ops f ! i) = k then bit1 (op_holds (g (fw_ops f ! i))) - bit1 (op_holds (fw_ops f ! i)) else 0)"
  by (simp add: held_count_def updOp_def filter_upd)

lemma held_updRem:
  "i < length (fw_rems f) \<Longrightarrow> rm_key (g (fw_rems f ! i)) = rm_key (fw_rems f ! i) \<Longrightarrow>
   held_count (updRem i g f) k = held_count f k + (if rm_key (fw_rems f ! i) = k then bit1 (rem_holds (g (fw_rems f ! i))) - bit1 (rem_holds (fw_rems f ! i)) else 0)"
  by (simp add: held_count_def updRem_def filter_upd)

lemma counts_inflight: "counts f \<Longrightarrow> inflight f k = held_count f k"
  by (simp add: counts_def inflight_def del: split_paired_All)

lemma counts_hold:
  assumes "counts f" and "fw_inflight f' = fw_inflight (holdLocked k f)" and "\<And>j. held_count f' j = held_count f j + bit1 (j = k)"
  shows "counts f'"
  using assms held_nonneg [of f k] by (auto simp: counts_def holdLocked_def inflight_def simp del: split_paired_All)

lemma counts_release:
  assumes "counts f" and "fw_inflight f' = fw_inflight (releaseLocked k f)" and "0 < held_count f k" and "\<And>j. held_count f' j = held_count f j - bit1 (j = k)"
  shows "counts f'"
  using assms by (auto simp: counts_def releaseLocked_def counts_inflight [OF assms(1)] Let_def simp del: split_paired_All)

lemma counts_same: "counts f \<Longrightarrow> fw_inflight f' = fw_inflight f \<Longrightarrow> (\<And>j. held_count f' j = held_count f j) \<Longrightarrow> counts f'"
  by (simp add: counts_def)

lemma hold_fields [simp]:
  "fw_mappings (holdLocked k f) = fw_mappings f" "fw_objs (holdLocked k f) = fw_objs f" "fw_ops (holdLocked k f) = fw_ops f"
  "fw_rems (holdLocked k f) = fw_rems f" "fw_loops (holdLocked k f) = fw_loops f" "fw_lock (holdLocked k f) = fw_lock f"
  "gw_ports (holdLocked k f) = gw_ports f" "gw_leaked (holdLocked k f) = gw_leaked f" "gw_dropped (holdLocked k f) = gw_dropped f"
  "gw_strays (holdLocked k f) = gw_strays f" "fw_teardowns (holdLocked k f) = fw_teardowns f"
  by (simp_all add: holdLocked_def)

lemma release_fields [simp]:
  "fw_mappings (releaseLocked k f) = fw_mappings f" "fw_objs (releaseLocked k f) = fw_objs f" "fw_ops (releaseLocked k f) = fw_ops f"
  "fw_rems (releaseLocked k f) = fw_rems f" "fw_loops (releaseLocked k f) = fw_loops f" "fw_lock (releaseLocked k f) = fw_lock f"
  "gw_ports (releaseLocked k f) = gw_ports f" "gw_leaked (releaseLocked k f) = gw_leaked f" "gw_dropped (releaseLocked k f) = gw_dropped f"
  "gw_strays (releaseLocked k f) = gw_strays f" "fw_teardowns (releaseLocked k f) = fw_teardowns f"
  by (simp_all add: releaseLocked_def Let_def)

lemma updOp_fields [simp]:
  "fw_mappings (updOp i g f) = fw_mappings f" "fw_objs (updOp i g f) = fw_objs f" "length (fw_ops (updOp i g f)) = length (fw_ops f)"
  "fw_rems (updOp i g f) = fw_rems f" "fw_loops (updOp i g f) = fw_loops f" "fw_lock (updOp i g f) = fw_lock f"
  "gw_ports (updOp i g f) = gw_ports f" "gw_leaked (updOp i g f) = gw_leaked f" "gw_dropped (updOp i g f) = gw_dropped f"
  "fw_inflight (updOp i g f) = fw_inflight f" "obj_key (updOp i g f) = obj_key f"
  by (simp_all add: updOp_def obj_key_def [abs_def])

lemma updRem_fields [simp]:
  "fw_mappings (updRem i g f) = fw_mappings f" "fw_objs (updRem i g f) = fw_objs f" "fw_ops (updRem i g f) = fw_ops f"
  "fw_loops (updRem i g f) = fw_loops f" "fw_lock (updRem i g f) = fw_lock f"
  "gw_ports (updRem i g f) = gw_ports f" "gw_leaked (updRem i g f) = gw_leaked f" "gw_dropped (updRem i g f) = gw_dropped f"
  "fw_inflight (updRem i g f) = fw_inflight f" "obj_key (updRem i g f) = obj_key f"
  by (simp_all add: updRem_def obj_key_def [abs_def])

subsection \<open>What the parts of the invariant depend on\<close>

lemma tracked_cong: "fw_mappings f' = fw_mappings f \<Longrightarrow> obj_key f' = obj_key f \<Longrightarrow> tracked f' k = tracked f k"
  by (simp add: tracked_def)

lemma obj_key_cong: "fw_objs f' = fw_objs f \<Longrightarrow> obj_key f' = obj_key f"
  by (simp add: obj_key_def [abs_def])

lemma shape_cong:
  assumes "fw_mappings f' = fw_mappings f" "fw_objs f' = fw_objs f" "fw_ops f' = fw_ops f" "fw_loops f' = fw_loops f"
  shows "shape f' = shape f"
proof -
  have "loop_ok f' pc = loop_ok f pc" for pc using assms by (cases pc) simp_all
  then show ?thesis using assms by (simp add: shape_def maps_ok_def op_ok_def obj_key_cong [OF assms(2)])
qed

lemma shape_updOp:
  assumes "shape f" and "i < length (fw_ops f)" and "op_ok f (g (fw_ops f ! i))" and "op_mapping (g (fw_ops f ! i)) = op_mapping (fw_ops f ! i)"
  shows "shape (updOp i g f)"
proof -
  have "loop_ok (updOp i g f) pc" if "loop_ok f pc" for pc
    using that assms(2,4) by (cases pc) (auto simp: updOp_def nth_list_update)
  moreover have "\<forall>x \<in> set (fw_ops (updOp i g f)). op_ok f x"
    using assms(1,3) ball_upd [of "fw_ops f" "op_ok f" "g (fw_ops f ! i)" i] by (simp add: shape_def updOp_def)
  moreover have "op_ok (updOp i g f) = op_ok f" by (simp add: op_ok_def [abs_def])
  ultimately show ?thesis using assms(1) by (simp add: shape_def maps_ok_def)
qed

lemma lock_cong:
  assumes "fw_mappings f' = fw_mappings f" "fw_objs f' = fw_objs f" "fw_ops f' = fw_ops f" "fw_rems f' = fw_rems f"
    "gw_ports f \<union> gw_dropped f \<subseteq> gw_ports f' \<union> gw_dropped f'" "lock_ok f h"
  shows "lock_ok f' h"
  using assms held_cong [of f' f] by (cases h) auto

lemma undoing_cong: "fw_ops f' = fw_ops f \<Longrightarrow> fw_rems f' = fw_rems f \<Longrightarrow> undoing f' k = undoing f k"
  by (simp add: undoing_def)

lemma undoing_held: "undoing f k \<Longrightarrow> 0 < held_count f k"
  using held_op [of _ f] held_rem [of _ f] by (auto simp: undoing_def op_holds_def rem_holds_def)

lemma attended_iff:
  "attended f k \<longleftrightarrow> tracked f k \<or> k \<in> gw_leaked f \<or> (\<exists>x \<in> set (fw_ops f). op_dirty x \<and> op_key x = k)
     \<or> (\<exists>x \<in> set (fw_rems f). rm_phase x = RemDeleting \<and> rm_key x = k)"
  by (auto simp: attended_def undoing_def op_dirty_def)

lemma attended_cong:
  "fw_ops f' = fw_ops f \<Longrightarrow> fw_rems f' = fw_rems f \<Longrightarrow> fw_mappings f' = fw_mappings f \<Longrightarrow> fw_objs f' = fw_objs f \<Longrightarrow>
   gw_leaked f' = gw_leaked f \<Longrightarrow> attended f' k = attended f k"
  using obj_key_cong [of f' f] by (simp add: attended_iff tracked_def)

text \<open>The invariant when only what it does not look at changes, or the gateway drops a port.\<close>

lemma inv_cong:
  assumes "fw_inv f" "fw_ops f' = fw_ops f" "fw_rems f' = fw_rems f" "fw_mappings f' = fw_mappings f" "fw_objs f' = fw_objs f"
    "gw_leaked f' = gw_leaked f" "fw_loops f' = fw_loops f" "fw_inflight f' = fw_inflight f" "fw_lock f' \<in> {fw_lock f, Unlocked}"
    "gw_ports f' \<subseteq> gw_ports f" "gw_ports f \<union> gw_dropped f \<subseteq> gw_ports f' \<union> gw_dropped f'"
  shows "fw_inv f'"
proof -
  have "lock_ok f' (fw_lock f)" using lock_cong [OF assms(4,5,2,3,11)] assms(1) by (simp add: fw_inv_def)
  with assms(9) have "lock_ok f' (fw_lock f')" by (elim insertE) simp_all
  moreover have "ports_ok f'"
    unfolding ports_ok_def attended_cong [OF assms(2,3,4,5,6)] undoing_cong [OF assms(2,3)]
      tracked_cong [OF assms(4) obj_key_cong [OF assms(5)]]
    using assms(1,10,11) unfolding fw_inv_def ports_ok_def by blast
  moreover have "counts f'" using assms held_cong [of f' f] by (simp add: fw_inv_def counts_def)
  ultimately show ?thesis using assms shape_cong [of f' f] by (simp add: fw_inv_def)
qed

lemma inv_loops:
  assumes "fw_inv f" "fw_ops f' = fw_ops f" "fw_rems f' = fw_rems f" "fw_mappings f' = fw_mappings f" "fw_objs f' = fw_objs f"
    "gw_leaked f' = gw_leaked f" "fw_inflight f' = fw_inflight f" "fw_lock f' = fw_lock f"
    "gw_ports f' = gw_ports f" "gw_dropped f' = gw_dropped f" "\<forall>l \<in> set (fw_loops f'). loop_ok f (rl_pc l)"
  shows "fw_inv f'"
proof -
  let ?f = "f'\<lparr>fw_loops := fw_loops f\<rparr>"
  have "fw_inv ?f" using assms by (intro inv_cong [OF assms(1)]) auto
  moreover have "loop_ok f' pc = loop_ok f pc" for pc using assms by (cases pc) simp_all
  ultimately show ?thesis
    using assms(11) held_cong [of f' ?f] lock_cong [of f' ?f "fw_lock f'"] attended_cong [of f' ?f] undoing_cong [of f' ?f]
      tracked_cong [of f' ?f] obj_key_cong [of f' ?f]
    by (simp add: fw_inv_def shape_def maps_ok_def op_ok_def counts_def ports_ok_def del: split_paired_All)
qed

lemma inv_setLoop:
  assumes "fw_inv f" and "loop_ok f pc"
  shows "fw_inv (setLoop l pc f)"
proof (rule inv_loops [OF assms(1)])
  show "\<forall>x \<in> set (fw_loops (setLoop l pc f)). loop_ok f (rl_pc x)"
    using assms ball_upd [of "fw_loops f" "\<lambda>x. loop_ok f (rl_pc x)" "(fw_loops f ! l)\<lparr>rl_pc := pc\<rparr>" l]
    by (simp add: setLoop_def fw_inv_def shape_def)
qed (simp_all add: setLoop_def)

lemma inv_updMapping:
  assumes "fw_inv f" and "\<And>x. mp_key (g x) = mp_key x"
  shows "fw_inv (updMapping m g f)"
proof -
  let ?f = "updMapping m g f"
  have key: "mp_key (fw_objs ?f ! i) = mp_key (fw_objs f ! i)" for i
    using assms(2) by (cases "m < length (fw_objs f)") (simp_all add: updMapping_def nth_list_update list_update_beyond)
  then have proto: "mp_Protocol (fw_objs ?f ! i) = mp_Protocol (fw_objs f ! i)" for i by (simp add: mp_key_def)
  have obj: "obj_key ?f = obj_key f" using key by (simp add: obj_key_def [abs_def])
  have same: "fw_ops ?f = fw_ops f" "fw_rems ?f = fw_rems f" "fw_mappings ?f = fw_mappings f" "length (fw_objs ?f) = length (fw_objs f)"
    "gw_leaked ?f = gw_leaked f" "fw_loops ?f = fw_loops f" "fw_inflight ?f = fw_inflight f" "fw_lock ?f = fw_lock f"
    "gw_ports ?f = gw_ports f" "gw_dropped ?f = gw_dropped f" by (simp_all add: updMapping_def)
  have "loop_ok ?f pc = loop_ok f pc" for pc using same by (cases pc) simp_all
  then have "shape ?f" using assms(1) same obj proto by (simp add: fw_inv_def shape_def maps_ok_def op_ok_def)
  moreover have "lock_ok ?f h = lock_ok f h" for h using same proto held_cong [of ?f f] by (cases h) simp_all
  moreover have "attended ?f k = attended f k" "undoing ?f k = undoing f k" "tracked ?f k = tracked f k" for k
    using same obj by (simp_all add: attended_iff undoing_def tracked_def)
  ultimately show ?thesis
    using assms(1) same held_cong [of ?f f] by (simp add: fw_inv_def counts_def ports_ok_def del: split_paired_All)
qed

subsection \<open>An operation changes\<close>

lemma undoing_updOp:
  "i < length (fw_ops f) \<Longrightarrow> op_key (g (fw_ops f ! i)) = op_key (fw_ops f ! i) \<Longrightarrow> undoing (updOp i g f) k \<Longrightarrow>
   undoing f k \<or> op_phase (g (fw_ops f ! i)) = Deleting \<and> op_key (fw_ops f ! i) = k"
  by (auto simp: undoing_def updOp_def bex_upd)

lemma attended_updOp:
  assumes "attended f k" and "i < length (fw_ops f)" and "op_key (g (fw_ops f ! i)) = op_key (fw_ops f ! i)"
    and "op_key (fw_ops f ! i) = k \<Longrightarrow> op_dirty (fw_ops f ! i) \<Longrightarrow> op_dirty (g (fw_ops f ! i)) \<or> tracked f k \<or> k \<in> gw_leaked f"
  shows "attended (updOp i g f) k"
proof -
  have "tracked (updOp i g f) k = tracked f k" by (simp add: tracked_def)
  then show ?thesis
    using assms bex_other [OF assms(2), of "\<lambda>x. op_dirty x \<and> op_key x = k" "g (fw_ops f ! i)"]
    by (auto simp: attended_iff updOp_def bex_upd)
qed

lemma invD_undoing: "fw_inv f \<Longrightarrow> undoing f k \<Longrightarrow> \<not> tracked f k"
  unfolding fw_inv_def ports_ok_def by blast

lemma invD_attended: "fw_inv f \<Longrightarrow> k \<in> gw_ports f \<Longrightarrow> attended f k"
  unfolding fw_inv_def ports_ok_def by blast

lemma invD_present: "fw_inv f \<Longrightarrow> tracked f k \<Longrightarrow> k \<in> gw_ports f \<or> k \<in> gw_dropped f"
  unfolding fw_inv_def ports_ok_def by blast

lemmas invD = invD_undoing invD_attended invD_present

lemma op_ok_nth: "fw_inv f \<Longrightarrow> i < length (fw_ops f) \<Longrightarrow> op_ok f (fw_ops f ! i)"
  by (simp add: fw_inv_def shape_def)

lemma lock_updOp:
  assumes "lock_ok f h" and "i < length (fw_ops f)" and "op_key (g (fw_ops f ! i)) = op_key (fw_ops f ! i)"
    and "op_holds (g (fw_ops f ! i)) \<longleftrightarrow> op_holds (fw_ops f ! i)"
    and "h = InMapPort i \<Longrightarrow> op_phase (g (fw_ops f ! i)) \<in> {Calling, Answered}
      \<and> (op_landed (g (fw_ops f ! i)) \<longrightarrow> op_key (fw_ops f ! i) \<in> gw_ports f \<union> gw_dropped f)"
  shows "lock_ok (updOp i g f) h"
proof (cases h)
  case (InMapPort j)
  then show ?thesis
    using assms held_updOp [of i f g] by (cases "j = i") (auto simp: updOp_def)
qed (use assms(1) in simp_all)

lemma inv_updOp:
  assumes inv: "fw_inv f" and i: "i < length (fw_ops f)" and key: "op_key (g (fw_ops f ! i)) = op_key (fw_ops f ! i)"
    and m: "op_mapping (g (fw_ops f ! i)) = op_mapping (fw_ops f ! i)" and y: "op_ok f (g (fw_ops f ! i))"
    and h: "op_holds (g (fw_ops f ! i)) \<longleftrightarrow> op_holds (fw_ops f ! i)"
    and del: "op_phase (g (fw_ops f ! i)) = Deleting \<Longrightarrow> \<not> tracked f (op_key (fw_ops f ! i))"
    and dirty: "op_dirty (fw_ops f ! i) \<Longrightarrow> op_dirty (g (fw_ops f ! i)) \<or> tracked f (op_key (fw_ops f ! i))"
    and lock: "fw_lock f = InMapPort i \<Longrightarrow> op_phase (g (fw_ops f ! i)) \<in> {Calling, Answered}
      \<and> (op_landed (g (fw_ops f ! i)) \<longrightarrow> op_key (fw_ops f ! i) \<in> gw_ports f \<union> gw_dropped f)"
  shows "fw_inv (updOp i g f)"
proof -
  have tr: "tracked (updOp i g f) k = tracked f k" for k by (simp add: tracked_def)
  have "ports_ok (updOp i g f)"
    unfolding ports_ok_def tr
  proof (intro allI conjI impI)
    fix k assume "undoing (updOp i g f) k"
    then show "\<not> tracked f k"
      using undoing_updOp [of i f g k] i key del invD [OF inv] by blast
  next
    fix k assume "k \<in> gw_ports (updOp i g f)"
    then show "attended (updOp i g f) k"
      using dirty invD [OF inv] by (intro attended_updOp [of f k i g, OF _ i key]) auto
  qed (use invD [OF inv] in \<open>simp_all; blast\<close>)
  moreover have "counts (updOp i g f)"
  proof (rule counts_same [of f])
    show "held_count (updOp i g f) j = held_count f j" for j using held_updOp [of i f g j, OF i key] by (simp add: h)
  qed (use inv in \<open>simp_all add: fw_inv_def\<close>)
  moreover have "shape (updOp i g f)"
    using inv by (intro shape_updOp [of f i g, OF _ i y m]) (simp add: fw_inv_def)
  moreover have "lock_ok (updOp i g f) (fw_lock f)"
    using inv by (intro lock_updOp [of f _ i g, OF _ i key h lock]) (auto simp: fw_inv_def)
  ultimately show ?thesis by (simp add: fw_inv_def)
qed

lemma inv_op_answer:
  assumes "fw_inv f" "i < length (fw_ops f)" "op_phase (fw_ops f ! i) = Calling"
    "err = None \<longrightarrow> op_landed (fw_ops f ! i)" "\<not> mayHaveLanded err \<longrightarrow> \<not> op_landed (fw_ops f ! i)"
  shows "fw_inv (op_answer i err f)"
  unfolding op_answer_def
proof (rule inv_updOp [OF assms(1,2)])
  assume "fw_lock f = InMapPort i"
  then show "op_phase ((fw_ops f ! i)\<lparr>op_phase := Answered, op_result := err\<rparr>) \<in> {Calling, Answered} \<and>
    (op_landed ((fw_ops f ! i)\<lparr>op_phase := Answered, op_result := err\<rparr>) \<longrightarrow> op_key (fw_ops f ! i) \<in> gw_ports f \<union> gw_dropped f)"
    using assms(1) by (simp add: fw_inv_def)
qed (use op_ok_nth [OF assms(1,2)] assms in \<open>auto simp: op_ok_def op_holds_def op_dirty_def\<close>)

text \<open>A mapping that is not untracked is the tracked one of its port.\<close>

lemma untracked_iff:
  assumes "fw_inv f" and "m < length (fw_objs f)"
  shows "untrackedLocked m f \<longleftrightarrow> \<not> tracked f (obj_key f m)"
  using assms by (auto simp: untrackedLocked_def tracked_def obj_key_def mp_key_def fw_inv_def shape_def maps_ok_def split: option.splits)

lemma inv_op_check:
  assumes "fw_inv f" "fw_lock f = Unlocked" "i < length (fw_ops f)" "op_phase (fw_ops f ! i) = Answered"
  shows "fw_inv (op_check i f)"
proof -
  note ok = op_ok_nth [OF assms(1,3)]
  have un: "untrackedLocked (op_mapping (fw_ops f ! i)) f \<longleftrightarrow> \<not> tracked f (op_key (fw_ops f ! i))"
    using untracked_iff [OF assms(1), of "op_mapping (fw_ops f ! i)"] ok by (simp add: op_ok_def)
  show ?thesis
    unfolding op_check_def Let_def un
    using ok assms by (auto intro!: inv_updOp [OF assms(1,3)] simp: op_ok_def op_holds_def op_dirty_def)
qed

lemma inv_land:
  assumes "fw_inv f" "i < length (fw_ops f)" "op_phase (fw_ops f ! i) = Calling"
  shows "fw_inv (op_land i f)"
proof -
  let ?k = "op_key (fw_ops f ! i)"
  let ?w = "f\<lparr>gw_ports := insert ?k (gw_ports f), gw_dropped := gw_dropped f - {?k}\<rparr>"
  let ?g = "op_landed_update (\<lambda>_. True)"
  note ok = op_ok_nth [OF assms(1,2)]
  have tr: "tracked (updOp i ?g ?w) k = tracked f k" for k by (simp add: tracked_def obj_key_def)
  have un: "undoing (updOp i ?g ?w) k \<Longrightarrow> undoing f k" for k
    using undoing_updOp [of i ?w ?g k] undoing_cong [of ?w f k] assms by simp
  have "ports_ok (updOp i ?g ?w)"
    unfolding ports_ok_def tr
  proof (intro allI conjI impI)
    fix k assume k: "k \<in> gw_ports (updOp i ?g ?w)"
    show "attended (updOp i ?g ?w) k"
    proof (cases "k = ?k")
      case True
      have "op_dirty (?g (fw_ops f ! i))" using ok assms(3) by (simp add: op_dirty_def op_ok_def)
      then show ?thesis using True assms(2) by (auto simp: attended_iff updOp_def bex_upd)
    next
      case False
      then have "attended ?w k" using k invD_attended [OF assms(1), of k] attended_cong [of ?w f k] by simp
      then show ?thesis using assms(2) False by (intro attended_updOp) auto
    qed
  next
    fix k assume "tracked f k"
    then show "k \<in> gw_ports (updOp i ?g ?w) \<or> k \<in> gw_dropped (updOp i ?g ?w)"
      using invD_present [OF assms(1), of k] by (cases "k = ?k") simp_all
  qed (use un invD_undoing [OF assms(1)] in blast)
  moreover have "counts (updOp i ?g ?w)"
  proof (rule counts_same [of f])
    show "held_count (updOp i ?g ?w) j = held_count f j" for j
      using held_updOp [of i ?w ?g j] held_cong [of ?w f j] assms(2) by (simp add: op_holds_def)
  qed (use assms(1) in \<open>simp_all add: fw_inv_def\<close>)
  moreover have "shape (updOp i ?g ?w)"
    by (rule shape_updOp) (use assms ok shape_cong [of ?w f] in \<open>auto simp: fw_inv_def op_ok_def obj_key_def\<close>)
  moreover have "lock_ok (updOp i ?g ?w) (fw_lock f)"
  proof (rule lock_updOp)
    show "lock_ok ?w (fw_lock f)" using assms(1) by (intro lock_cong [of ?w f]) (auto simp: fw_inv_def)
  qed (use assms in \<open>simp_all add: op_holds_def\<close>)
  ultimately show ?thesis by (simp add: fw_inv_def op_land_def Let_def)
qed

subsection \<open>Clean-up deletes\<close>

text \<open>The port of a waiting \<open>MapPort\<close> has no other add or clean-up on it.\<close>

lemma lock_alone:
  assumes "lock_ok f (InMapPort j)"
  shows "\<not> undoing f (op_key (fw_ops f ! j))"
proof
  let ?k = "op_key (fw_ops f ! j)" and ?x = "fw_ops f ! j"
  let ?os = "filter (\<lambda>x. op_holds x \<and> op_key x = ?k) (fw_ops f)" and ?rs = "filter (\<lambda>x. rem_holds x \<and> rm_key x = ?k) (fw_rems f)"
  assume un: "undoing f ?k"
  have x: "?x \<in> set ?os" and ph: "op_phase ?x \<noteq> Deleting" using assms by auto
  have one: "length ?os + length ?rs = 1" using assms by (simp add: held_count_def)
  moreover have "0 < length ?os" using x by (metis length_pos_if_in_set)
  ultimately have "length ?rs = 0" "length ?os = 1" by linarith+
  then have "?rs = []" "length ?os = 1" by simp_all
  then obtain a where a: "?os = [a]" by (auto simp: length_Suc_conv)
  have "\<not> (\<exists>y \<in> set (fw_rems f). rm_phase y = RemDeleting \<and> rm_key y = ?k)"
    using \<open>?rs = []\<close> by (auto simp: filter_empty_conv rem_holds_def)
  then obtain y where "y \<in> set (fw_ops f)" "op_phase y = Deleting" "op_key y = ?k" using un by (auto simp: undoing_def)
  then have "y \<in> set ?os" by (simp add: op_holds_def)
  then have "y = ?x" using x a by simp
  with ph \<open>op_phase y = Deleting\<close> show False by simp
qed

lemma delete_fields [simp]:
  "fw_mappings (deleteUntracked k d f) = fw_mappings f" "fw_objs (deleteUntracked k d f) = fw_objs f" "fw_ops (deleteUntracked k d f) = fw_ops f"
  "fw_rems (deleteUntracked k d f) = fw_rems f" "fw_loops (deleteUntracked k d f) = fw_loops f" "fw_lock (deleteUntracked k d f) = fw_lock f"
  "fw_inflight (deleteUntracked k d f) = fw_inflight f" "gw_dropped (deleteUntracked k d f) = gw_dropped f"
  "j \<noteq> k \<Longrightarrow> j \<in> gw_ports (deleteUntracked k d f) \<longleftrightarrow> j \<in> gw_ports f" "j \<noteq> k \<Longrightarrow> j \<in> gw_leaked (deleteUntracked k d f) \<longleftrightarrow> j \<in> gw_leaked f"
  "k \<in> gw_ports (deleteUntracked k d f) \<Longrightarrow> k \<in> gw_leaked (deleteUntracked k d f)"
  by (auto simp: deleteUntracked_def split: option.splits if_splits)

lemma delete_keeps:
  assumes "fw_inv f" and "undoing f k"
  shows "j \<noteq> k \<Longrightarrow> j \<in> gw_ports f \<Longrightarrow> attended (deleteUntracked k d f) j"
    and "tracked (deleteUntracked k d f) j = tracked f j"
    and "tracked f j \<Longrightarrow> j \<in> gw_ports (deleteUntracked k d f) \<or> j \<in> gw_dropped f"
    and "lock_ok (deleteUntracked k d f) (fw_lock f)"
    and "shape (deleteUntracked k d f)" and "held_count (deleteUntracked k d f) j = held_count f j" and "counts (deleteUntracked k d f)"
    and "undoing (deleteUntracked k d f) j = undoing f j"
proof -
  let ?f = "deleteUntracked k d f"
  show tr: "tracked ?f j = tracked f j" for j by (simp add: tracked_def obj_key_def)
  show "attended ?f j" if "j \<noteq> k" "j \<in> gw_ports f"
    using invD_attended [OF assms(1) that(2)] that(1) by (simp add: attended_iff tr)
  show "j \<in> gw_ports ?f \<or> j \<in> gw_dropped f" if "tracked f j"
    using invD_present [OF assms(1) that] invD_undoing [OF assms] that by (cases "j = k") simp_all
  show held_count: "held_count ?f j = held_count f j" for j by (rule held_cong) simp_all
  show "lock_ok ?f (fw_lock f)"
  proof (cases "fw_lock f")
    case (InMapPort i)
    then have "lock_ok f (InMapPort i)" using assms(1) by (simp add: fw_inv_def)
    moreover then have "op_key (fw_ops f ! i) \<noteq> k" using lock_alone assms(2) by blast
    ultimately show ?thesis by (simp add: InMapPort held_count)
  qed (use assms(1) in \<open>simp_all add: fw_inv_def\<close>)
  show "shape ?f" using shape_cong [of ?f f] assms(1) by (simp add: fw_inv_def)
  show "counts ?f" by (rule counts_same [of f]) (use assms(1) in \<open>simp_all add: fw_inv_def held_count\<close>)
  show "undoing ?f j = undoing f j" by (rule undoing_cong) simp_all
qed

lemma inv_delete:
  assumes "fw_inv f" "i < length (fw_ops f)" "op_phase (fw_ops f ! i) = Deleting"
  shows "fw_inv (op_delete i d f)"
proof -
  let ?k = "op_key (fw_ops f ! i)" and ?g = "op_phase_update (\<lambda>_. Releasing)"
  let ?d = "deleteUntracked ?k d f" and ?f = "op_delete i d f"
  note ok = op_ok_nth [OF assms(1,2)]
  have un: "undoing f ?k" using assms by (auto simp: undoing_def)
  note keep = delete_keeps [OF assms(1) un, where d = d]
  have f: "?f = updOp i ?g ?d" by (simp add: op_delete_def)
  have tr: "tracked ?f k = tracked f k" for k using keep(2) [of k] by (simp add: f tracked_def)
  have "undoing ?f k \<Longrightarrow> undoing f k" for k
    using undoing_updOp [of i ?d ?g k] assms keep(8) [of k] by (simp add: f)
  moreover have "attended ?f k" if "k \<in> gw_ports ?f" for k
  proof (cases "k = ?k")
    case True
    then show ?thesis using that by (simp add: f attended_iff)
  next
    case False
    then show ?thesis using that keep(1) [of k] assms(2) by (auto simp: f intro!: attended_updOp)
  qed
  ultimately have "ports_ok ?f"
    unfolding ports_ok_def tr using invD_undoing [OF assms(1)] keep(3) by (simp add: f)
  moreover have "counts ?f"
    using keep(7) by (rule counts_same) (use held_updOp [of i ?d ?g] assms in \<open>simp_all add: f op_holds_def\<close>)
  moreover have "shape ?f"
    unfolding f by (rule shape_updOp) (use keep(5) assms ok in \<open>auto simp: op_ok_def obj_key_def\<close>)
  moreover have "lock_ok ?f (fw_lock f)"
    unfolding f by (rule lock_updOp) (use keep(4) assms in \<open>auto simp: op_holds_def fw_inv_def\<close>)
  ultimately show ?thesis by (simp add: fw_inv_def f)
qed

lemma shape_updRem: "shape f \<Longrightarrow> shape (updRem i g f)"
  using shape_cong [of "updRem i g f" f] by simp

lemma undoing_updRem:
  "i < length (fw_rems f) \<Longrightarrow> rm_phase (g (fw_rems f ! i)) \<noteq> RemDeleting \<Longrightarrow> undoing (updRem i g f) k \<Longrightarrow> undoing f k"
  by (auto simp: undoing_def updRem_def bex_upd)

lemma attended_updRem:
  assumes "attended f k" and "i < length (fw_rems f)" and "rm_phase (fw_rems f ! i) = RemDeleting \<Longrightarrow> rm_key (fw_rems f ! i) \<noteq> k"
  shows "attended (updRem i g f) k"
proof -
  have "tracked (updRem i g f) k = tracked f k" by (simp add: tracked_def)
  then show ?thesis
    using assms bex_other [OF assms(2), of "\<lambda>x. rm_phase x = RemDeleting \<and> rm_key x = k" "g (fw_rems f ! i)"]
    by (auto simp: attended_iff updRem_def bex_upd)
qed

lemma inv_rem_delete:
  assumes "fw_inv f" "i < length (fw_rems f)" "rm_phase (fw_rems f ! i) = RemDeleting"
  shows "fw_inv (rem_delete i d f)"
proof -
  let ?k = "rm_key (fw_rems f ! i)" and ?g = "rm_phase_update (\<lambda>_. RemReleasing)"
  let ?d = "deleteUntracked ?k d f" and ?f = "rem_delete i d f"
  have un: "undoing f ?k" using assms by (auto simp: undoing_def)
  note keep = delete_keeps [OF assms(1) un, where d = d]
  have f: "?f = updRem i ?g ?d" by (simp add: rem_delete_def)
  have tr: "tracked ?f k = tracked f k" for k using keep(2) [of k] by (simp add: f tracked_def)
  have held_count: "held_count ?f k = held_count ?d k" for k using held_updRem [of i ?d ?g k] assms by (simp add: f rem_holds_def)
  have "undoing ?f k \<Longrightarrow> undoing f k" for k
    using undoing_updRem [of i ?d ?g k] assms keep(8) [of k] by (simp add: f)
  moreover have "attended ?f k" if "k \<in> gw_ports ?f" for k
  proof (cases "k = ?k")
    case True
    then show ?thesis using that by (simp add: f attended_iff)
  next
    case False
    then show ?thesis using that keep(1) [of k] assms(2) by (auto simp: f intro!: attended_updRem)
  qed
  ultimately have "ports_ok ?f"
    unfolding ports_ok_def tr using invD_undoing [OF assms(1)] keep(3) by (simp add: f)
  moreover have "counts ?f" using keep(7) by (rule counts_same) (simp_all add: held_count, simp add: f)
  moreover have "shape ?f" using shape_updRem [OF keep(5)] by (simp add: f)
  moreover have "lock_ok ?f (fw_lock f)" using keep(4) held_count by (cases "fw_lock f") (simp_all add: f)
  ultimately show ?thesis by (simp add: fw_inv_def f)
qed

subsection \<open>Giving ports free\<close>

lemma inv_release:
  assumes "fw_inv f" "fw_lock f = Unlocked" "i < length (fw_ops f)" "op_phase (fw_ops f ! i) = Releasing"
  shows "fw_inv (op_release i f)"
proof -
  let ?k = "op_key (fw_ops f ! i)" and ?g = "op_phase_update (\<lambda>_. Finished)"
  let ?r = "releaseLocked ?k f" and ?f = "op_release i f"
  have f: "?f = updOp i ?g ?r" by (simp add: op_release_def)
  have tr: "tracked ?f k = tracked f k" for k by (simp add: f tracked_def obj_key_def)
  have "attended ?f k" if "k \<in> gw_ports ?f" for k
    unfolding f by (rule attended_updOp)
      (use that invD_attended [OF assms(1), of k] attended_cong [of ?r f k] assms in \<open>auto simp: f op_dirty_def\<close>)
  moreover have "undoing ?f k \<Longrightarrow> undoing f k" for k
    using undoing_updOp [of i ?r ?g k] undoing_cong [of ?r f k] assms by (simp add: f)
  ultimately have "ports_ok ?f"
    unfolding ports_ok_def tr using invD [OF assms(1)] by (simp add: f)
  moreover have "counts ?f"
    by (rule counts_release [of f _ ?k])
      (use assms held_op [of "fw_ops f ! i" f] held_updOp [of i ?r ?g] held_cong [of ?r f] in \<open>auto simp: f fw_inv_def op_holds_def\<close>)
  moreover have "shape ?f"
    unfolding f by (rule shape_updOp) (use assms op_ok_nth [OF assms(1,3)] shape_cong [of ?r f] in \<open>auto simp: fw_inv_def op_ok_def obj_key_def\<close>)
  ultimately show ?thesis by (simp add: fw_inv_def f assms(2))
qed

lemma inv_rem_release:
  assumes "fw_inv f" "fw_lock f = Unlocked" "i < length (fw_rems f)" "rm_phase (fw_rems f ! i) = RemReleasing"
  shows "fw_inv (rem_release i f)"
proof -
  let ?k = "rm_key (fw_rems f ! i)" and ?g = "rm_phase_update (\<lambda>_. RemDone)"
  let ?r = "releaseLocked ?k f" and ?f = "rem_release i f"
  have f: "?f = updRem i ?g ?r" by (simp add: rem_release_def)
  have tr: "tracked ?f k = tracked f k" for k by (simp add: f tracked_def obj_key_def)
  have "attended ?f k" if "k \<in> gw_ports ?f" for k
    unfolding f by (rule attended_updRem)
      (use that invD_attended [OF assms(1), of k] attended_cong [of ?r f k] assms in \<open>auto simp: f\<close>)
  moreover have "undoing ?f k \<Longrightarrow> undoing f k" for k
    using undoing_updRem [of i ?r ?g k] undoing_cong [of ?r f k] assms by (simp add: f)
  ultimately have "ports_ok ?f"
    unfolding ports_ok_def tr using invD [OF assms(1)] by (simp add: f)
  moreover have "counts ?f"
    by (rule counts_release [of f _ ?k])
      (use assms held_rem [of "fw_rems f ! i" f] held_updRem [of i ?r ?g] held_cong [of ?r f] in \<open>auto simp: f fw_inv_def rem_holds_def\<close>)
  moreover have "shape ?f" using shape_updRem [of ?r i ?g] shape_cong [of ?r f] assms by (simp add: f fw_inv_def)
  ultimately show ?thesis by (simp add: fw_inv_def f assms(2))
qed

lemma inv_go: "fw_inv f \<Longrightarrow> go_step f f' \<Longrightarrow> fw_inv f'"
  by (erule go_step.cases) (auto intro: inv_op_answer inv_op_check inv_delete inv_release inv_rem_delete inv_rem_release)

subsection \<open>Taking over an add's outcome\<close>

lemma inv_setLock:
  assumes "shape f" "counts f" "ports_ok f" "lock_ok f h"
  shows "fw_inv (f\<lparr>fw_lock := h\<rparr>)"
proof -
  let ?f = "f\<lparr>fw_lock := h\<rparr>"
  have "ports_ok ?f"
    using assms(3) attended_cong [of ?f f] undoing_cong [of ?f f] tracked_cong [of ?f f] obj_key_cong [of ?f f] by (simp add: ports_ok_def)
  moreover have "counts ?f" using assms(2) held_cong [of ?f f] by (simp add: counts_def)
  moreover have "lock_ok ?f h" by (rule lock_cong [of ?f f]) (use assms(4) in simp_all)
  ultimately show ?thesis using assms(1) shape_cong [of ?f f] by (simp add: fw_inv_def)
qed

text \<open>The invariant but for the lock and for who attends to one port.\<close>

definition nearly :: "forwarder \<Rightarrow> portKey \<Rightarrow> bool" where
  "nearly f k \<longleftrightarrow> shape f \<and> counts f \<and> (\<forall>j. (undoing f j \<longrightarrow> \<not> tracked f j) \<and> (j \<in> gw_ports f \<and> j \<noteq> k \<longrightarrow> attended f j)
     \<and> (tracked f j \<longrightarrow> j \<in> gw_ports f \<or> j \<in> gw_dropped f))"

lemma nearly_ports: "nearly f k \<Longrightarrow> (k \<in> gw_ports f \<Longrightarrow> attended f k) \<Longrightarrow> shape f \<and> counts f \<and> ports_ok f"
  unfolding nearly_def ports_ok_def by blast

lemma claim_effect:
  assumes inv: "fw_inv f" and i: "i < length (fw_ops f)" and x: "\<not> op_handled (fw_ops f ! i)" "op_phase (fw_ops f ! i) = Answered"
  shows "nearly (snd (claim i f)) (op_key (fw_ops f ! i))"
    and "\<not> mayHaveLanded (op_result (fw_ops f ! i)) \<or> tracked f (op_key (fw_ops f ! i)) \<Longrightarrow> ports_ok (snd (claim i f))"
    and "held_count (snd (claim i f)) k = held_count f k - bit1 (k = op_key (fw_ops f ! i))"
    and "tracked (snd (claim i f)) k = tracked f k"
proof -
  let ?k = "op_key (fw_ops f ! i)" and ?g = "op_handled_update (\<lambda>_. True)"
  let ?u = "updOp i ?g f" and ?f = "snd (claim i f)"
  note ok = op_ok_nth [OF inv i]
  have f: "?f = releaseLocked ?k ?u" using x by (simp add: claim_def)
  show tr: "tracked ?f k = tracked f k" for k by (simp add: f tracked_def obj_key_def)
  show held_count: "held_count ?f k = held_count f k - bit1 (k = ?k)" for k
    using held_updOp [of i f ?g k] held_cong [of ?f ?u k] i x by (simp add: f op_holds_def)
  have att: "attended ?f k" if "k \<in> gw_ports f" "k = ?k \<Longrightarrow> \<not> mayHaveLanded (op_result (fw_ops f ! i)) \<or> tracked f ?k" for k
  proof -
    have "attended ?u k"
      using that invD_attended [OF inv, of k] i x by (intro attended_updOp) (auto simp: op_dirty_def)
    then show ?thesis using attended_cong [of ?f ?u k] by (simp add: f)
  qed
  have un: "undoing ?f k \<Longrightarrow> undoing f k" for k
    using undoing_updOp [of i f ?g k] undoing_cong [of ?f ?u k] i x by (simp add: f)
  have "counts ?f"
    by (rule counts_release [of f _ ?k])
      (use inv held_count held_op [of "fw_ops f ! i" f] i x in \<open>auto simp: fw_inv_def op_holds_def f releaseLocked_def inflight_def Let_def\<close>)
  moreover have "shape ?u"
    by (rule shape_updOp) (use inv i ok x in \<open>auto simp: fw_inv_def op_ok_def\<close>)
  then have "shape ?f" using shape_cong [of ?f ?u] by (simp add: f)
  ultimately show near: "nearly ?f ?k"
    unfolding nearly_def tr using un att invD [OF inv] by (simp add: f) blast
  show "ports_ok ?f" if "\<not> mayHaveLanded (op_result (fw_ops f ! i)) \<or> tracked f ?k"
    using nearly_ports [OF near] att [of ?k] that by (simp add: f)
qed

lemma claim_fields [simp]:
  "fw_mappings (snd (claim i f)) = fw_mappings f" "fw_objs (snd (claim i f)) = fw_objs f" "gw_ports (snd (claim i f)) = gw_ports f"
  "gw_dropped (snd (claim i f)) = gw_dropped f" "fw_lock (snd (claim i f)) = fw_lock f" "obj_key (snd (claim i f)) = obj_key f"
  "fw_loops (snd (claim i f)) = fw_loops f" "length (fw_ops (snd (claim i f))) = length (fw_ops f)"
  by (simp_all add: claim_def obj_key_def [abs_def])

lemma remove_effect:
  assumes "nearly f (obj_key f m)" and "\<not> tracked f (obj_key f m)"
  shows "shape (removeLocked m f) \<and> counts (removeLocked m f) \<and> ports_ok (removeLocked m f)"
proof (rule nearly_ports)
  let ?k = "obj_key f m" and ?f = "removeLocked m f"
  have tr: "tracked ?f k = tracked f k" for k by (simp add: removeLocked_def Let_def tracked_def obj_key_def)
  have held_count: "held_count ?f k = held_count f k + bit1 (k = ?k)" for k by (simp add: removeLocked_def Let_def held_count_def rem_holds_def)
  have un: "undoing ?f k \<longleftrightarrow> undoing f k \<or> k = ?k" for k by (auto simp: removeLocked_def Let_def undoing_def)
  have att: "attended ?f k \<longleftrightarrow> attended f k \<or> k = ?k" for k
    using tr [of k] un [of k] by (auto simp: attended_def) (auto simp: removeLocked_def Let_def)
  have "counts ?f" by (rule counts_hold [of f _ ?k]) (use assms(1) held_count in \<open>auto simp: nearly_def removeLocked_def Let_def\<close>)
  moreover have "shape ?f" using shape_cong [of ?f f] assms(1) by (simp add: nearly_def removeLocked_def Let_def)
  ultimately show "nearly ?f ?k"
    using assms unfolding nearly_def tr un att by (auto simp: removeLocked_def Let_def)
  show "attended ?f ?k" by (simp add: att)
qed

lemma remove_fields [simp]:
  "fw_mappings (removeLocked m f) = fw_mappings f" "fw_objs (removeLocked m f) = fw_objs f" "fw_ops (removeLocked m f) = fw_ops f"
  "gw_ports (removeLocked m f) = gw_ports f" "fw_loops (removeLocked m f) = fw_loops f" "fw_lock (removeLocked m f) = fw_lock f"
  by (simp_all add: removeLocked_def Let_def)

lemma add_effect:
  assumes "shape f" "counts f" "ports_ok f" "m < length (fw_objs f)"
  shows "shape (addLocked m f) \<and> counts (addLocked m f) \<and> ports_ok (addLocked m f)"
proof -
  let ?k = "obj_key f m" and ?f = "addLocked m f"
  let ?x = "\<lparr>op_mapping = m, op_key = ?k, op_handled = False, op_phase = Calling, op_result = None, op_landed = False\<rparr>"
  have ops: "fw_ops ?f = fw_ops f @ [?x]" and rest: "fw_mappings ?f = fw_mappings f" "fw_objs ?f = fw_objs f" "fw_rems ?f = fw_rems f"
    "fw_loops ?f = fw_loops f" "gw_ports ?f = gw_ports f" "gw_leaked ?f = gw_leaked f" "gw_dropped ?f = gw_dropped f"
    by (simp_all add: addLocked_def Let_def)
  have obj: "obj_key ?f = obj_key f" by (rule obj_key_cong) (rule rest)
  have tr: "tracked ?f k = tracked f k" for k by (rule tracked_cong) (simp_all add: rest obj)
  have held_count: "held_count ?f k = held_count f k + bit1 (k = ?k)" for k by (simp add: held_count_def ops rest op_holds_def)
  have "counts ?f" by (rule counts_hold [OF assms(2) _ held_count]) (simp add: addLocked_def Let_def)
  moreover have "loop_ok ?f pc" if "loop_ok f pc" for pc using that by (cases pc) (auto simp: ops rest nth_append)
  then have "shape ?f" using assms(1,4) by (auto simp: shape_def maps_ok_def ops rest op_ok_def obj)
  moreover have "undoing ?f k \<longleftrightarrow> undoing f k" "attended ?f k \<longleftrightarrow> attended f k" for k
    by (simp_all add: undoing_def attended_iff ops rest tr op_dirty_def)
  then have "ports_ok ?f" using assms(3) by (simp add: ports_ok_def tr rest)
  ultimately show ?thesis by blast
qed

end
