(* ===== verification/Port_Guarantees.thy ===== *)
theory Port_Guarantees
  imports Port_Invariant
begin

text \<open>
  What the forwarder of \<open>Port_Forward\<close> guarantees however its callers, its renewals and the gateway's answers interleave:
  no mapping is left on the gateway that nobody tracks or is removing, no clean-up removes a mapping that is tracked, and a port is
  refused only while something on it is unresolved, which always comes to an end.
\<close>

section \<open>Mapping\<close>

lemma maps_okD: "fw_inv f \<Longrightarrow> gget (fw_mappings f) p = Some i \<Longrightarrow> i < length (fw_objs f) \<and> mp_Protocol (fw_objs f ! i) = p"
  by (simp add: fw_inv_def shape_def maps_ok_def)

text \<open>A new mapping object changes nothing yet.\<close>

lemma newObj_effect:
  assumes "fw_inv f" and "f' = f\<lparr>fw_objs := fw_objs f @ [m]\<rparr>"
  shows "shape f' \<and> counts f' \<and> ports_ok f'"
proof -
  have key: "i < length (fw_objs f) \<Longrightarrow> obj_key f' i = obj_key f i" for i by (simp add: assms(2) obj_key_def nth_append)
  have tr: "tracked f' k = tracked f k" for k
    using maps_okD [OF assms(1)] key by (simp add: tracked_def assms(2)) (metis (no_types, lifting))
  have "loop_ok f' pc" if "loop_ok f pc" for pc using that by (cases pc) (auto simp: assms(2))
  then have "shape f'"
    using assms(1) key by (fastforce simp: fw_inv_def shape_def maps_ok_def op_ok_def assms(2) nth_append)
  moreover have "undoing f' k = undoing f k" "attended f' k = attended f k" for k
    using tr by (simp_all add: undoing_def attended_iff assms(2))
  then have "ports_ok f'" using assms(1) by (simp add: fw_inv_def ports_ok_def tr) (simp add: assms(2))
  moreover have "counts f'" using assms(1) held_cong [of f' f] by (simp add: fw_inv_def counts_def assms(2))
  ultimately show ?thesis by blast
qed

lemma length_addLocked: "length (fw_ops (addLocked m f)) = Suc (length (fw_ops f))"
  by (simp add: addLocked_def Let_def)

lemma mapPort_begin_Inr:
  assumes "mapPort_begin ctxErr ip protocol port description f = Inr f'"
  shows "gget (fw_mappings f) protocol = None \<and> \<not> inflight f (protocol, port) > 0 \<and>
    (\<exists>m. mp_key m = (protocol, port) \<and>
       f' = (addLocked (length (fw_objs f)) (f\<lparr>fw_objs := fw_objs f @ [m]\<rparr>))\<lparr>fw_lock := InMapPort (length (fw_ops f))\<rparr>)"
proof -
  from assms have pre: "gget (fw_mappings f) protocol = None" "\<not> inflight f (protocol, port) > 0" "ip \<noteq> None" "\<not> ctxErr"
    "protocol = protoTCP \<or> protocol = protoUDP"
    by (auto simp: mapPort_begin_def split: if_splits option.splits)
  then obtain addr where ip: "ip = Some addr" by blast
  let ?m = "\<lparr>mp_ExternalPort = port, mp_InternalPort = port, mp_InternalIP = addr, mp_Protocol = protocol,
    mp_LeaseDuration = uint requestedLease * second, mp_Method = fw_method f, mp_description = description,
    mp_requested = requestedLease, mp_renewed = 0, mp_retryAt = 0\<rparr>"
  have "f' = (addLocked (length (fw_objs f)) (f\<lparr>fw_objs := fw_objs f @ [?m]\<rparr>))\<lparr>fw_lock := InMapPort (length (fw_ops f))\<rparr>"
    using assms pre ip by (auto simp: mapPort_begin_def Let_def length_addLocked)
  moreover have "mp_key ?m = (protocol, port)" by (simp add: mp_key_def)
  ultimately show ?thesis using pre by blast
qed

lemma inv_mapPort_begin:
  assumes inv: "fw_inv f" and "mapPort_begin ctxErr ip protocol port description f = Inr f'"
  shows "fw_inv f'"
proof -
  from mapPort_begin_Inr [OF assms(2)] obtain m0 where none: "gget (fw_mappings f) protocol = None"
    and idle: "\<not> inflight f (protocol, port) > 0" and m0: "mp_key m0 = (protocol, port)"
    and f': "f' = (addLocked (length (fw_objs f)) (f\<lparr>fw_objs := fw_objs f @ [m0]\<rparr>))\<lparr>fw_lock := InMapPort (length (fw_ops f))\<rparr>"
    by blast
  let ?o = "f\<lparr>fw_objs := fw_objs f @ [m0]\<rparr>" and ?m = "length (fw_objs f)"
  let ?a = "addLocked ?m ?o"
  have new: "obj_key ?o ?m = (protocol, port)" using m0 by (simp add: obj_key_def)
  have a: "shape ?a \<and> counts ?a \<and> ports_ok ?a"
    using newObj_effect [OF inv refl, of m0] by (intro add_effect) simp_all
  have "held_count f (protocol, port) = 0"
    using idle counts_inflight [of f "(protocol, port)"] inv held_nonneg [of f "(protocol, port)"] by (simp add: fw_inv_def)
  then have "held_count ?a (protocol, port) = 1"
    using new by (simp add: held_count_def addLocked_def Let_def op_holds_def)
  then have "lock_ok ?a (InMapPort (length (fw_ops f)))"
    using none new by (simp add: addLocked_def Let_def op_holds_def nth_append)
  then show ?thesis unfolding f' using a by (intro inv_setLock) simp_all
qed

lemma track_as_updMapping:
  "\<exists>g. (\<forall>x. mp_key (g x) = mp_key x) \<and>
     track m now lease f = updMapping m g (f\<lparr>fw_mappings := gput (mp_Protocol (fw_objs f ! m)) m (fw_mappings f), fw_wake := map_option (\<lambda>_. True) (fw_wake f)\<rparr>)"
proof (cases "m < length (fw_objs f)")
  case True
  show ?thesis
  proof (cases lease)
    case None
    then show ?thesis using True
      by (intro exI [of _ "mp_renewed_update (\<lambda>_. now)"]) (simp add: track_def updMapping_def mp_key_def Let_def)
  next
    case (Some d)
    then show ?thesis using True
      by (intro exI [of _ "\<lambda>x. x\<lparr>mp_LeaseDuration := d, mp_renewed := now\<rparr>"]) (simp add: track_def updMapping_def mp_key_def Let_def)
  qed
next
  case False
  then show ?thesis
    by (intro exI [of _ "\<lambda>x. x"]) (cases lease, simp_all add: track_def updMapping_def Let_def list_update_beyond)
qed

lemma inv_track:
  assumes "nearly f k" "m < length (fw_objs f)" "obj_key f m = k" "gget (fw_mappings f) (fst k) = None" "held_count f k = 0"
    and "k \<in> gw_ports f \<union> gw_dropped f"
  shows "fw_inv ((track m now lease f)\<lparr>fw_lock := Unlocked\<rparr>)"
proof -
  have p: "mp_Protocol (fw_objs f ! m) = fst k" using assms(3) by (auto simp: obj_key_def mp_key_def)
  let ?t = "f\<lparr>fw_mappings := gput (fst k) m (fw_mappings f), fw_wake := map_option (\<lambda>_. True) (fw_wake f)\<rparr>"
  have obj: "obj_key ?t = obj_key f" by (rule obj_key_cong) simp
  have tr: "tracked ?t j \<longleftrightarrow> tracked f j \<or> j = k" for j
    using assms(3,4) by (auto simp: tracked_def obj)
  have un: "undoing ?t j = undoing f j" for j by (rule undoing_cong) simp_all
  have idle: "\<not> undoing f k" using undoing_held [of f k] assms(5) by auto
  have att: "attended ?t j \<longleftrightarrow> attended f j \<or> j = k" for j by (auto simp: attended_iff tr)
  have "loop_ok ?t pc = loop_ok f pc" for pc by (cases pc) simp_all
  then have "shape ?t"
    using assms(1,2) p by (auto simp: nearly_def shape_def maps_ok_def op_ok_def obj)
  moreover have "counts ?t" using assms(1) held_cong [of ?t f] by (simp add: nearly_def counts_def)
  moreover have "ports_ok ?t"
    unfolding ports_ok_def tr un att using assms(1,6) idle by (auto simp: nearly_def)
  ultimately have "fw_inv (?t\<lparr>fw_lock := Unlocked\<rparr>)" by (intro inv_setLock) simp_all
  moreover obtain g where g: "\<forall>x. mp_key (g x) = mp_key x" "track m now lease f = updMapping m g ?t"
    using track_as_updMapping [of m now lease f] p by auto
  ultimately have "fw_inv (updMapping m g (?t\<lparr>fw_lock := Unlocked\<rparr>))" by (intro inv_updMapping) simp_all
  moreover have "updMapping m g (?t\<lparr>fw_lock := Unlocked\<rparr>) = (updMapping m g ?t)\<lparr>fw_lock := Unlocked\<rparr>" by (simp add: updMapping_def)
  ultimately show ?thesis by (simp add: g(2))
qed

lemma inv_mapped:
  assumes inv: "fw_inv f" and lock: "fw_lock f = InMapPort i" and ph: "op_phase (fw_ops f ! i) = Answered"
  shows "fw_inv (snd (mapPort_end (Received (op_result (fw_ops f ! i))) ctxErr now lease i f))"
proof -
  let ?x = "fw_ops f ! i" and ?f = "snd (claim i f)"
  let ?m = "op_mapping ?x" and ?k = "op_key ?x"
  have lk: "i < length (fw_ops f)" "\<not> op_handled ?x" "gget (fw_mappings f) (fst ?k) = None" "held_count f ?k = 1"
    "op_landed ?x \<longrightarrow> ?k \<in> gw_ports f \<union> gw_dropped f"
    using inv lock ph by (auto simp: fw_inv_def op_holds_def)
  note ok = op_ok_nth [OF inv lk(1), unfolded op_ok_def] and cl = claim_effect [OF inv lk(1,2) ph]
  have un: "\<not> tracked f ?k" using lk(3) by (simp add: tracked_def)
  have key: "obj_key ?f ?m = ?k" using ok by simp
  have removed: "fw_inv ((removeLocked ?m ?f)\<lparr>fw_lock := Unlocked\<rparr>)"
    using remove_effect [of ?f ?m] cl(1) cl(4) [of ?k] un key by (intro inv_setLock) simp_all
  have refused: "fw_inv (?f\<lparr>fw_lock := Unlocked\<rparr>)" if "\<not> mayHaveLanded (op_result ?x)"
    using cl(1) cl(2) that by (intro inv_setLock) (simp_all add: nearly_def)
  have taken: "fw_inv ((track ?m now lease ?f)\<lparr>fw_lock := Unlocked\<rparr>)" if "op_result ?x = None"
    using that ok ph lk cl(1) cl(3) [of ?k] key by (intro inv_track) auto
  show ?thesis
    using removed refused taken by (auto simp: mapPort_end_def Let_def mayHaveLanded_def split: option.splits)
qed

lemma inv_unlock: "fw_inv f \<Longrightarrow> fw_inv (f\<lparr>fw_lock := Unlocked\<rparr>)"
  by (rule inv_setLock) (simp_all add: fw_inv_def)

lemma inv_abandoned:
  "fw_inv f \<Longrightarrow> res = CtxDone \<or> res = TimedOut \<Longrightarrow> fw_inv (snd (mapPort_end res ctxErr now lease i f))"
  using inv_unlock [of f] by (auto simp: mapPort_end_def Let_def)

section \<open>Unmapping\<close>

lemma active_iff: "m \<in> set (activeMappings f) \<longleftrightarrow> (\<exists>p \<in> {protoTCP, protoUDP}. gget (fw_mappings f) p = Some m)"
  by (auto simp: activeMappings_def map_filter_def)

lemma active_ok:
  assumes "fw_inv f"
  shows "distinct (activeMappings f)"
    and "m \<in> set (activeMappings f) \<Longrightarrow> m < length (fw_objs f) \<and> gget (fw_mappings f) (mp_Protocol (fw_objs f ! m)) = Some m"
proof -
  show "distinct (activeMappings f)"
    using maps_okD [OF assms, of protoTCP] maps_okD [OF assms, of protoUDP]
    by (auto simp: activeMappings_def map_filter_def protoTCP_def protoUDP_def)
  show "m \<in> set (activeMappings f) \<Longrightarrow> m < length (fw_objs f) \<and> gget (fw_mappings f) (mp_Protocol (fw_objs f ! m)) = Some m"
    using maps_okD [OF assms] by (auto simp: active_iff)
qed

lemma cancel_loops:
  assumes "\<forall>l \<in> set ls. loop_ok f (rl_pc l)"
  shows "\<forall>l \<in> set (ls[i := (ls ! i)\<lparr>rl_canceled := True\<rparr>]). loop_ok f (rl_pc l)"
proof (cases "i < length ls")
  case True
  then show ?thesis using assms by (intro ball_upd [OF assms]) simp
qed (use assms in \<open>simp add: list_update_beyond\<close>)

lemma inv_unmapPort_begin:
  assumes "fw_inv f"
  shows "fw_inv (unmapPort_begin f)"
proof -
  let ?c = "cancelLoop (fw_cancel f) f"
  let ?t = "?c\<lparr>fw_teardowns := fw_teardowns ?c + 1\<rparr>"
  have "\<forall>l \<in> set (fw_loops ?t). loop_ok f (rl_pc l)"
    using assms cancel_loops [of "fw_loops f" f] by (simp add: cancelLoop_def fw_inv_def shape_def split: option.splits)
  then have t: "fw_inv ?t"
    by (intro inv_loops [OF assms]) (simp_all add: cancelLoop_def split: option.splits)
  then have "lock_ok ?t (InUnmapPort (activeMappings ?t) [])" using active_ok [OF t] by auto
  with t show ?thesis by (simp add: unmapPort_begin_def Let_def) (rule inv_setLock, simp_all add: fw_inv_def)
qed

lemma inv_unmapPort_delete:
  assumes inv: "fw_inv f" and lock: "fw_lock f = InUnmapPort (m # ms) errs"
  shows "fw_inv (unmapPort_delete d m ms errs f)"
proof -
  let ?k = "obj_key f m" and ?p = "mp_Protocol (fw_objs f ! m)"
  have lk: "distinct (m # ms)" "\<forall>m \<in> set (m # ms). m < length (fw_objs f) \<and> gget (fw_mappings f) (mp_Protocol (fw_objs f ! m)) = Some m"
    using inv lock by (auto simp: fw_inv_def)
  have p: "fst ?k = ?p" by (simp add: obj_key_def mp_key_def)
  have lost: "fw_inv (f\<lparr>fw_lock := InUnmapPort ms es\<rparr>)" for es
    using inv lk by (intro inv_setLock) (auto simp: fw_inv_def)
  show ?thesis
  proof (cases d)
    case Deleted
    let ?f = "f\<lparr>gw_ports := gw_ports f - {?k}, gw_leaked := gw_leaked f - {?k}, fw_mappings := gdel ?p (fw_mappings f)\<rparr>"
    have obj: "obj_key ?f = obj_key f" by (rule obj_key_cong) simp
    have tr: "tracked ?f j \<longleftrightarrow> tracked f j \<and> fst j \<noteq> ?p" for j by (auto simp: tracked_def obj)
    have own: "tracked f j \<Longrightarrow> fst j = ?p \<Longrightarrow> j = ?k" for j using lk by (auto simp: tracked_def)
    have un: "undoing ?f j = undoing f j" for j by (rule undoing_cong) simp_all
    have att: "attended ?f j" if "j \<in> gw_ports f" "j \<noteq> ?k" for j
      using invD_attended [OF inv that(1)] own [of j] that(2) by (auto simp: attended_iff tr)
    have "loop_ok ?f pc = loop_ok f pc" for pc by (cases pc) simp_all
    then have "shape ?f" using inv by (simp add: fw_inv_def shape_def maps_ok_def op_ok_def obj)
    moreover have "counts ?f" using inv held_cong [of ?f f] by (simp add: fw_inv_def counts_def)
    moreover have "ports_ok ?f"
      unfolding ports_ok_def tr un using att invD [OF inv] p by (simp, metis)
    moreover have "lock_ok ?f (InUnmapPort ms errs)"
      using lk by (simp, metis option.inject)
    ultimately have "fw_inv (?f\<lparr>fw_lock := InUnmapPort ms errs\<rparr>)" by (intro inv_setLock)
    then show ?thesis by (simp add: unmapPort_delete_def Let_def Deleted)
  next
    case (DeleteFailed gone)
    show ?thesis
      by (rule inv_cong [OF lost [of "errs @ [?p]"]]) (auto simp: unmapPort_delete_def Let_def DeleteFailed)
  next
    case GaveUp
    show ?thesis
      by (rule inv_cong [OF lost [of "errs @ [?p]"]]) (auto simp: unmapPort_delete_def Let_def GaveUp)
  next
    case Skipped
    then show ?thesis using lost by (simp add: unmapPort_delete_def Let_def)
  qed
qed

section \<open>Renewing\<close>

lemma loops_okD: "fw_inv f \<Longrightarrow> \<forall>l \<in> set (fw_loops f). loop_ok f (rl_pc l)"
  by (simp add: fw_inv_def shape_def)

lemma inv_startRenewal: "fw_inv f \<Longrightarrow> fw_inv (startRenewal f)"
  using loops_okD [of f] by (auto simp: startRenewal_def split: list.splits intro!: inv_loops [of f])

lemma inv_canceled:
  "fw_inv f \<Longrightarrow> fw_inv (f\<lparr>fw_loops := (fw_loops f)[l := (fw_loops f ! l)\<lparr>rl_canceled := True\<rparr>]\<rparr>)"
  using cancel_loops [OF loops_okD] by (auto intro!: inv_loops [of f])

lemma inv_loop_start: "fw_inv f \<Longrightarrow> fw_inv (loop_start l f)"
  unfolding loop_start_def by (rule inv_setLoop, erule inv_cong) simp_all

lemma inv_loop_tick: "fw_inv f \<Longrightarrow> fw_inv (loop_tick l f)"
  using active_ok(2) [of f] by (auto simp: loop_tick_def Let_def intro!: inv_setLoop)

lemma inv_renew_begin:
  assumes inv: "fw_inv f" and "fw_lock f = Unlocked" and l: "l < length (fw_loops f)" "rl_pc (fw_loops f ! l) = Renewing (m # ms) t"
  shows "fw_inv (renew_begin l m ms t f)"
proof -
  have "loop_ok f (rl_pc (fw_loops f ! l))" using inv l(1) by (simp add: fw_inv_def shape_def)
  then have ms: "\<forall>x \<in> set (m # ms). x < length (fw_objs f)" by (simp add: l(2))
  have "fw_inv (addLocked m f)"
    using add_effect [of f m] inv ms assms(2) by (simp add: fw_inv_def addLocked_def Let_def)
  then have "fw_inv (setLoop l (Awaiting (length (fw_ops f)) m ms t) (addLocked m f))"
    using ms by (intro inv_setLoop) (simp_all add: addLocked_def Let_def)
  then show ?thesis using inv_setLoop [OF inv, of Ended] by (simp add: renew_begin_def)
qed

text \<open>The first half of \<open>renew_end\<close>: taking over the outcome.\<close>

lemma inv_renew_claim:
  assumes inv: "fw_inv f" and lock: "fw_lock f = Unlocked" and i: "i < length (fw_ops f)" "op_mapping (fw_ops f ! i) = m"
    and ph: "op_phase (fw_ops f ! i) \<noteq> Calling" and err: "err = op_result (fw_ops f ! i)"
    and f': "f' = (case claim i f of (claimed, g) \<Rightarrow> if claimed \<and> mayHaveLanded err \<and> untrackedLocked m g then removeLocked m g else g)"
  shows "fw_inv f' \<and> length (fw_objs f') = length (fw_objs f)"
proof (cases "op_handled (fw_ops f ! i)")
  case True
  then show ?thesis using inv by (simp add: f' claim_def)
next
  case False
  note ok = op_ok_nth [OF inv i(1), unfolded op_ok_def]
  let ?f = "snd (claim i f)" and ?k = "op_key (fw_ops f ! i)"
  have ph': "op_phase (fw_ops f ! i) = Answered" using ok ph False by (cases "op_phase (fw_ops f ! i)") auto
  note cl = claim_effect [OF inv i(1) False ph']
  have key: "obj_key ?f m = ?k" using ok i(2) by simp
  have un: "untrackedLocked m ?f \<longleftrightarrow> \<not> tracked f ?k"
    using untracked_iff [OF inv, of m] ok i(2) by (simp add: untrackedLocked_def cong: option.case_cong)
  have "claim i f = (True, ?f)" using False by (simp add: claim_def)
  then have cases': "f' = (if mayHaveLanded err \<and> \<not> tracked f ?k then removeLocked m ?f else ?f)"
    unfolding f' un [symmetric] by (cases "claim i f") auto
  show ?thesis
  proof (cases "mayHaveLanded err \<and> \<not> tracked f ?k")
    case True
    then have "shape f' \<and> counts f' \<and> ports_ok f'"
      using remove_effect [of ?f m] cl(1) cl(4) [of ?k] key by (simp add: cases')
    then show ?thesis using True lock by (simp add: fw_inv_def cases')
  next
    case False
    then have "shape f' \<and> counts f' \<and> ports_ok f'" using cl(1,2) err by (auto simp: cases' nearly_def)
    moreover have "f' = ?f" using False by (auto simp: cases')
    ultimately show ?thesis using lock by (simp add: fw_inv_def)
  qed
qed

lemma inv_renew_end:
  assumes inv: "fw_inv f" and "fw_lock f = Unlocked" and l: "l < length (fw_loops f)" "rl_pc (fw_loops f ! l) = Awaiting i m ms t"
    and r: "received = None \<or> received = Some (op_result (fw_ops f ! i)) \<and> op_phase (fw_ops f ! i) \<noteq> Calling"
  shows "fw_inv (renew_end received now lease l i m ms t f)"
proof -
  have "loop_ok f (rl_pc (fw_loops f ! l))" using inv l(1) by (simp add: fw_inv_def shape_def)
  then have lo: "i < length (fw_ops f)" "op_mapping (fw_ops f ! i) = m" "\<forall>x \<in> set ms. x < length (fw_objs f)" by (simp_all add: l(2))
  define f1 where "f1 = (case received of None \<Rightarrow> f | Some err \<Rightarrow>
     (case claim i f of (claimed, g) \<Rightarrow> if claimed \<and> mayHaveLanded err \<and> untrackedLocked m g then removeLocked m g else g))"
  have f1: "fw_inv f1 \<and> length (fw_objs f1) = length (fw_objs f)"
    using r inv inv_renew_claim [OF inv assms(2) lo(1,2) _ refl refl] by (auto simp: f1_def)
  define f2 where "f2 = (if received = Some None then updMapping m (\<lambda>x. x\<lparr>mp_renewed := now, mp_retryAt := 0\<rparr>) f1
    else updMapping m (\<lambda>x. x\<lparr>mp_retryAt := now + renewRetryDelay x\<rparr>) f1)"
  have f2: "fw_inv f2 \<and> length (fw_objs f2) = length (fw_objs f)"
    using f1 inv_updMapping [of f1] by (auto simp: f2_def mp_key_def) (simp_all add: updMapping_def)
  define f3 where "f3 = (case lease of Some g \<Rightarrow> if \<not> fw_teardowns f \<noteq> t \<and> received = Some None
      then updMapping m (mp_LeaseDuration_update (\<lambda>_. g)) f2 else f2 | None \<Rightarrow> f2)"
  have f3: "fw_inv f3 \<and> length (fw_objs f3) = length (fw_objs f)"
    using f2 inv_updMapping [of f2] by (auto simp: f3_def mp_key_def split: option.splits) (simp_all add: updMapping_def)
  have "renew_end received now lease l i m ms t f = setLoop l (if fw_teardowns f \<noteq> t then Ended else Renewing ms t) f3"
    by (simp add: renew_end_def f3_def f2_def f1_def Let_def split: option.splits)
  then show ?thesis using f3 lo(3) inv_setLoop by simp
qed

section \<open>Every step\<close>

lemma inv_fw_step:
  assumes "fw_step f f'" and "fw_inv f"
  shows "fw_inv f'"
  using assms
proof (induction rule: fw_step.induct)
  case background
  show ?case using background by (blast intro: inv_go)
next
  case landing
  show ?case using landing by (blast intro: inv_land)
next
  case mapping
  show ?case using mapping by (blast intro: inv_mapPort_begin)
next
  case mapped
  show ?case using mapped by (blast intro: inv_mapped)
next
  case abandoned
  show ?case using abandoned by (blast intro: inv_abandoned)
next
  case unmapping
  then show ?case by (simp only: inv_unmapPort_begin)
next
  case unmap_one
  show ?case using unmap_one by (blast intro: inv_unmapPort_delete)
next
  case unmapped
  then show ?case by (simp only: inv_unlock)
next
  case renewal
  then show ?case by (simp only: inv_startRenewal)
next
  case started
  then show ?case by (simp only: inv_loop_start)
next
  case canceled
  then show ?case by (simp only: inv_canceled)
next
  case loop_done
  then show ?case by (simp add: inv_setLoop)
next
  case woken
  then show ?case by (elim inv_cong) simp_all
next
  case tick
  then show ?case by (simp only: inv_loop_tick)
next
  case round_over
  then show ?case by (simp add: inv_setLoop)
next
  case renewing
  show ?case using renewing by (blast intro: inv_renew_begin)
next
  case renewed
  then show ?case by (intro inv_renew_end) simp_all
next
  case renew_late
  then show ?case by (intro inv_renew_end) simp_all
next
  case lease_ends
  then show ?case by (elim inv_cong) auto
next
  case stray_delete
  then show ?case by (elim inv_cong) auto
qed

lemma inv_fw_new: "fw_init f \<Longrightarrow> fw_inv f"
  by (auto simp: fw_init_def newForwarder_def fw_inv_def shape_def maps_ok_def counts_def held_count_def ports_ok_def undoing_def attended_def tracked_def)

interpretation fwd: invariant_system fw_init fw_step fw_inv
  by unfold_locales (fact inv_fw_new, rule inv_fw_step)

section \<open>Guarantees\<close>

lemma dirty_held: "x \<in> set (fw_ops f) \<Longrightarrow> op_dirty x \<Longrightarrow> 0 < held_count f (op_key x)"
  by (rule held_op) (auto simp: op_dirty_def op_holds_def)

lemma attended_settled: "attended f k \<Longrightarrow> held_count f k = 0 \<Longrightarrow> k \<notin> gw_leaked f \<Longrightarrow> tracked f k"
  using dirty_held [of _ f] undoing_held [of f k] by (fastforce simp: attended_def)

lemma inflight_held: "fw_inv f \<Longrightarrow> inflight f k = held_count f k"
  by (simp add: fw_inv_def counts_inflight)

text \<open>A run used below: a port is mapped, and an \<open>UnmapPort\<close> whose caller does not wait for the gateway's answer leaves its delete behind.\<close>

definition exampleMapped :: "forwarder \<Rightarrow> forwarder" where
  "exampleMapped f =
     (case mapPort_begin False (Some ''192.168.1.2'') protoTCP 4000 ''peer'' f of
        Inl _ \<Rightarrow> f
      | Inr g \<Rightarrow>
          let i = length (fw_ops g) - 1 in
          snd (mapPort_end (Received None) False 1 None i (op_answer i None (op_land i g))))"

definition exampleUnmapped :: "delOutcome \<Rightarrow> forwarder \<Rightarrow> forwarder" where
  "exampleUnmapped d f =
     (case fw_lock (unmapPort_begin f) of
        InUnmapPort [m] errs \<Rightarrow> (unmapPort_delete d m [] errs (unmapPort_begin f))\<lparr>fw_lock := Unlocked\<rparr>
      | _ \<Rightarrow> f)"

definition exampleFresh :: forwarder where "exampleFresh = newForwarder ''upnp-igd2'' {}"
definition exampleOnce :: forwarder where "exampleOnce = exampleMapped exampleFresh"
definition exampleStray :: forwarder where "exampleStray = exampleUnmapped Deleted (exampleUnmapped GaveUp exampleOnce)"
definition exampleAgain :: forwarder where "exampleAgain = exampleMapped exampleStray"

lemma exampleMapped_reaches:
  assumes "reaches fw_init fw_step f" "fw_lock f = Unlocked"
    and "mapPort_begin False (Some ''192.168.1.2'') protoTCP 4000 ''peer'' f = Inr g"
  shows "reaches fw_init fw_step (exampleMapped f)"
proof -
  let ?i = "length (fw_ops g) - 1"
  let ?l = "op_land ?i g" let ?a = "op_answer ?i None ?l"
  have g: "reaches fw_init fw_step g" using assms by (meson mapping reaches_step)
  obtain m where m: "g = (addLocked (length (fw_objs f)) (f\<lparr>fw_objs := fw_objs f @ [m]\<rparr>))\<lparr>fw_lock := InMapPort (length (fw_ops f))\<rparr>"
    using mapPort_begin_Inr [OF assms(3)] by blast
  have i: "?i = length (fw_ops f)" "?i < length (fw_ops g)" "op_phase (fw_ops g ! ?i) = Calling" "fw_lock g = InMapPort ?i"
    by (simp_all add: m length_addLocked) (simp add: addLocked_def Let_def)
  have l: "?i < length (fw_ops ?l)" "op_phase (fw_ops ?l ! ?i) = Calling" "op_landed (fw_ops ?l ! ?i)" "fw_lock ?l = InMapPort ?i"
    using i by (simp_all add: op_land_def Let_def updOp_def)
  have a: "op_phase (fw_ops ?a ! ?i) = Answered" "op_result (fw_ops ?a ! ?i) = None" "fw_lock ?a = InMapPort ?i"
    using l by (simp_all add: op_answer_def updOp_def)
  have "reaches fw_init fw_step ?l" using g landing [OF i(2,3)] by (rule reaches_step)
  then have "reaches fw_init fw_step ?a"
    by (rule reaches_step) (rule background, rule go_answer, use l in \<open>simp_all add: mayHaveLanded_def\<close>)
  then have "reaches fw_init fw_step (snd (mapPort_end (Received None) False 1 None ?i ?a))"
    using mapped [OF a(3,1), of False 1 None] unfolding a(2) by (rule reaches_step)
  then show ?thesis by (simp add: exampleMapped_def assms(3) Let_def)
qed

lemma exampleUnmapped_reaches:
  assumes "reaches fw_init fw_step f" "fw_lock f = Unlocked"
  shows "reaches fw_init fw_step (exampleUnmapped d f)"
proof (cases "\<exists>m errs. fw_lock (unmapPort_begin f) = InUnmapPort [m] errs")
  case True
  then obtain m errs where lock: "fw_lock (unmapPort_begin f) = InUnmapPort [m] errs" by blast
  let ?d = "unmapPort_delete d m [] errs (unmapPort_begin f)"
  have "reaches fw_init fw_step (unmapPort_begin f)" using assms by (meson unmapping reaches_step)
  then have r: "reaches fw_init fw_step ?d" using unmap_one [OF lock] by (rule reaches_step)
  obtain es where es: "fw_lock ?d = InUnmapPort [] es" by (cases d) (auto simp: unmapPort_delete_def Let_def)
  have "reaches fw_init fw_step (?d\<lparr>fw_lock := Unlocked\<rparr>)" using r fw_step.unmapped [OF es] by (rule reaches_step)
  then show ?thesis by (simp add: exampleUnmapped_def lock)
next
  case False
  then show ?thesis using assms by (auto simp: exampleUnmapped_def split: holder.splits list.splits)
qed

lemma example_runs:
  "reaches fw_init fw_step exampleOnce" "reaches fw_init fw_step exampleStray" "reaches fw_init fw_step exampleAgain"
proof -
  have "reaches fw_init fw_step exampleFresh" by (rule reaches_init) (auto simp: fw_init_def exampleFresh_def)
  then show once: "reaches fw_init fw_step exampleOnce"
    unfolding exampleOnce_def by (rule exampleMapped_reaches) (simp add: exampleFresh_def newForwarder_def,
      simp add: exampleFresh_def newForwarder_def mapPort_begin_def inflight_def protoTCP_def protoUDP_def Let_def)
  have "fw_lock exampleOnce = Unlocked" "fw_lock (exampleUnmapped GaveUp exampleOnce) = Unlocked" "fw_lock exampleStray = Unlocked"
    by code_simp+
  then show stray: "reaches fw_init fw_step exampleStray"
    unfolding exampleStray_def using once exampleUnmapped_reaches by blast
  have "\<exists>g. mapPort_begin False (Some ''192.168.1.2'') protoTCP 4000 ''peer'' exampleStray = Inr g"
  proof -
    have "gget (fw_mappings exampleStray) protoTCP = None" "inflight exampleStray (protoTCP, 4000) = 0" by code_simp+
    then show ?thesis by (simp add: mapPort_begin_def Let_def)
  qed
  then show "reaches fw_init fw_step exampleAgain"
    unfolding exampleAgain_def using stray \<open>fw_lock exampleStray = Unlocked\<close> exampleMapped_reaches by blast
qed

text \<open>Port 4000 over TCP.\<close>

abbreviation port4000 :: portKey where
  "port4000 \<equiv> (protoTCP, 4000)"

text \<open>C6: nothing is left behind on the gateway. Once no add and no clean-up of a port is unresolved, a
  mapping the gateway holds on it is the one the forwarder tracks, unless it was there before the forwarder or the last clean-up's
  delete failed: whatever callers gave up on, timed out, tore down or renewed in between.\<close>

theorem no_mapping_left_behind:
  assumes "reaches fw_init fw_step f" and "k \<in> gw_ports f" and "inflight f k = 0" and "k \<notin> gw_leaked f"
  shows "tracked f k"
proof -
  have inv: "fw_inv f" using fwd.reaches_inv [OF assms(1)] .
  then show ?thesis using invD_attended [OF inv assms(2)] attended_settled inflight_held [OF inv] assms(3,4) by simp
qed

theorem no_mapping_left_behind_witness:
  "reaches fw_init fw_step exampleOnce \<and> tracked exampleOnce port4000"
proof -
  have "port4000 \<in> gw_ports exampleOnce" "inflight exampleOnce port4000 = 0" "port4000 \<notin> gw_leaked exampleOnce" by code_simp+
  then show ?thesis using no_mapping_left_behind [OF example_runs(1), of port4000] example_runs(1) by blast
qed

lemma go_step_ports:
  assumes "fw_inv f" and "go_step f f'" and "tracked f k"
  shows "k \<in> gw_ports f' \<longleftrightarrow> k \<in> gw_ports f" and "tracked f' k"
proof -
  have del: "k \<in> gw_ports (deleteUntracked j d f) \<longleftrightarrow> k \<in> gw_ports f" if "undoing f j" for j d
    using invD_undoing [OF assms(1) that] assms(3) by (cases "k = j") simp_all
  from assms(2) show "k \<in> gw_ports f' \<longleftrightarrow> k \<in> gw_ports f"
  proof cases
    case (go_delete i failed)
    then have "undoing f (op_key (fw_ops f ! i))" by (auto simp: undoing_def)
    then show ?thesis using del go_delete by (simp add: op_delete_def)
  next
    case (go_rem_delete i failed)
    then have "undoing f (rm_key (fw_rems f ! i))" by (auto simp: undoing_def)
    then show ?thesis using del go_rem_delete by (simp add: rem_delete_def)
  qed (simp_all add: op_answer_def op_check_def op_release_def rem_release_def Let_def)
  from assms(2,3) show "tracked f' k"
    by cases (simp_all add: op_answer_def op_check_def op_release_def rem_release_def op_delete_def rem_delete_def Let_def tracked_def obj_key_def)
qed

text \<open>C7: a clean-up never hits a live mapping. No background goroutine ever takes a tracked mapping off the gateway; so a
  tracked mapping that the gateway does not hold was dropped by the gateway itself, at a lease's end, or by the delete of an \<open>UnmapPort\<close>.\<close>

theorem cleanup_spares_tracked:
  assumes "reaches fw_init fw_step f" and "tracked f k"
  shows "(k \<in> gw_ports f \<or> k \<in> gw_dropped f) \<and> (\<forall>f'. go_step f f' \<longrightarrow> tracked f' k \<and> (k \<in> gw_ports f' \<longleftrightarrow> k \<in> gw_ports f))"
proof -
  have inv: "fw_inv f" using fwd.reaches_inv [OF assms(1)] .
  then show ?thesis using invD_present [OF inv assms(2)] go_step_ports [OF inv _ assms(2)] by blast
qed

theorem cleanup_spares_tracked_witness:
  "tracked exampleAgain port4000 \<and> port4000 \<in> gw_ports exampleAgain"
proof -
  have t: "tracked exampleAgain port4000"
  proof -
    have "gget (fw_mappings exampleAgain) protoTCP = Some 1" "obj_key exampleAgain 1 = port4000" by code_simp+
    then show ?thesis by (simp add: tracked_def)
  qed
  have "port4000 \<notin> gw_dropped exampleAgain" by code_simp
  then show ?thesis using t cleanup_spares_tracked [OF example_runs(3) t] by blast
qed

text \<open>The delete an abandoned \<open>UnmapPort\<close> left behind is not counted in flight: a later \<open>UnmapPort\<close> succeeds, the port is mapped anew,
  and then the old delete removes the new mapping.\<close>

lemma stray_delete_hits_new_mapping:
  "reaches fw_init fw_step exampleAgain \<and> tracked exampleAgain port4000 \<and> inflight exampleAgain port4000 = 0 \<and>
   (\<exists>f'. fw_step exampleAgain f' \<and> tracked f' port4000 \<and> port4000 \<notin> gw_ports f')"
proof -
  let ?f = "exampleAgain"
  let ?g = "?f\<lparr>gw_strays := remove1 port4000 (gw_strays ?f), gw_ports := gw_ports ?f - {port4000}, gw_dropped := insert port4000 (gw_dropped ?f)\<rparr>"
  have run: "gget (fw_mappings ?f) protoTCP = Some 1" "obj_key ?f 1 = port4000" "inflight ?f port4000 = 0" "port4000 \<in> set (gw_strays ?f)"
    by code_simp+
  have "fw_step ?f ?g" using run(4) by (rule stray_delete)
  moreover have "tracked ?f port4000" "tracked ?g port4000" using run(1,2) by (simp_all add: tracked_def obj_key_def)
  ultimately show ?thesis using run(3) example_runs(3) by auto
qed

section \<open>Ports come free\<close>

fun op_work :: "opPhase \<Rightarrow> nat" where
  "op_work Calling = 4" | "op_work Answered = 3" | "op_work Deleting = 2" | "op_work Releasing = 1" | "op_work Finished = 0"

fun rem_work :: "remPhase \<Rightarrow> nat" where
  "rem_work RemDeleting = 2" | "rem_work RemReleasing = 1" | "rem_work RemDone = 0"

definition work :: "forwarder \<Rightarrow> nat" where
  "work f = (\<Sum>x\<leftarrow>fw_ops f. op_work (op_phase x)) + (\<Sum>x\<leftarrow>fw_rems f. rem_work (rm_phase x))"

lemma sum_list_upd_less:
  "i < length xs \<Longrightarrow> (w :: _ \<Rightarrow> nat) y < w (xs ! i) \<Longrightarrow> (\<Sum>x\<leftarrow>xs[i := y]. w x) < (\<Sum>x\<leftarrow>xs. w x)"
proof (induction xs arbitrary: i)
  case (Cons x xs)
  then show ?case by (cases i) auto
qed simp

lemma go_step_works: "go_step f f' \<Longrightarrow> work f' < work f"
proof (induction rule: go_step.induct)
  case (go_check f i)
  then show ?case by (auto simp: op_check_def Let_def work_def updOp_def intro!: sum_list_upd_less)
qed (auto simp: op_answer_def op_delete_def op_release_def rem_delete_def rem_release_def work_def updOp_def updRem_def
    intro!: sum_list_upd_less)

text \<open>With the lock free, a goroutine that still holds its port can go on.\<close>

lemma go_step_enabled:
  assumes "fw_lock f = Unlocked" and "0 < held_count f k"
  shows "\<exists>f'. go_step f f'"
proof -
  from assms(2) consider x where "x \<in> set (fw_ops f)" "op_holds x" | x where "x \<in> set (fw_rems f)" "rem_holds x"
    using held_zero [of f k] by fastforce
  then show ?thesis
  proof cases
    case 1
    then obtain i where i: "i < length (fw_ops f)" "fw_ops f ! i = x" by (auto simp: in_set_conv_nth)
    show ?thesis
    proof (cases "op_phase x")
      case Calling
      have "go_step f (op_answer i (if op_landed x then None else Some ErrNoAnswer) f)"
        by (rule go_answer) (use i Calling in \<open>auto simp: mayHaveLanded_def\<close>)
      then show ?thesis by blast
    next
      case Answered
      then show ?thesis using go_check [OF assms(1) i(1)] i(2) by auto
    next
      case Deleting
      then show ?thesis using go_delete [OF i(1)] i(2) by auto
    next
      case Releasing
      then show ?thesis using go_release [OF assms(1) i(1)] i(2) by auto
    qed (use 1 in \<open>auto simp: op_holds_def\<close>)
  next
    case 2
    then obtain i where i: "i < length (fw_rems f)" "fw_rems f ! i = x" by (auto simp: in_set_conv_nth)
    show ?thesis
    proof (cases "rm_phase x")
      case RemDeleting
      then show ?thesis using go_rem_delete [OF i(1)] i(2) by auto
    next
      case RemReleasing
      then show ?thesis using go_rem_release [OF assms(1) i(1)] i(2) by auto
    qed (use 2 in \<open>auto simp: rem_holds_def\<close>)
  qed
qed

text \<open>C39: a port that is refused because it is still being cleaned up comes free. The background goroutines make only finitely many steps on their own,
  however they are scheduled and whatever the gateway answers; and with the lock free they stop only when no port is
  in flight, so that \<open>MapPort\<close> does not refuse one for that reason.\<close>

theorem ports_come_free:
  shows "wfP (\<lambda>f' f. go_step f f') \<and>
    (\<forall>f. reaches fw_init fw_step f \<and> fw_lock f = Unlocked \<and> (\<nexists>f'. go_step f f') \<longrightarrow>
       fw_inflight f = [] \<and> (\<forall>ctxErr ip protocol port description. mapPort_begin ctxErr ip protocol port description f \<noteq> Inl ErrCleaningUp))"
proof (intro conjI allI impI)
  show "wfP (\<lambda>f' f. go_step f f')"
    unfolding wfp_def by (rule wf_subset [OF wf_measure [of work]]) (auto dest: go_step_works)
next
  fix f assume a: "reaches fw_init fw_step f \<and> fw_lock f = Unlocked \<and> (\<nexists>f'. go_step f f')"
  then have inv: "fw_inv f" using fwd.reaches_inv by blast
  have idle: "held_count f k = 0" for k
    using a go_step_enabled [of f k] held_nonneg [of f k] by (metis le_less)
  then have "gget (fw_inflight f) k = None" for k using inv by (simp add: fw_inv_def counts_def)
  then have none: "gget (fw_inflight f) k = None" for k .
  show empty: "fw_inflight f = []"
  proof (cases "fw_inflight f")
    case (Cons p ps)
    then show ?thesis using none [of "fst p"] by (cases p) simp
  qed
  fix ctxErr ip protocol port description
  show "mapPort_begin ctxErr ip protocol port description f \<noteq> Inl ErrCleaningUp"
    by (auto simp: mapPort_begin_def inflight_def empty Let_def split: option.splits)
qed

definition exampleSettled :: forwarder where "exampleSettled = op_check 0 exampleOnce"

theorem ports_come_free_witness:
  "reaches fw_init fw_step exampleSettled \<and> fw_inflight exampleSettled = [] \<and>
   mapPort_begin False (Some ''192.168.1.2'') protoUDP 4000 ''peer'' exampleSettled \<noteq> Inl ErrCleaningUp"
proof -
  have "fw_lock exampleOnce = Unlocked" "0 < length (fw_ops exampleOnce)" "op_phase (fw_ops exampleOnce ! 0) = Answered" by code_simp+
  then have r: "reaches fw_init fw_step exampleSettled"
    unfolding exampleSettled_def by (intro reaches_step [OF example_runs(1)] background go_check)
  have "fw_lock exampleSettled = Unlocked" "length (fw_ops exampleSettled) = 1" "op_phase (fw_ops exampleSettled ! 0) = Finished"
    "fw_rems exampleSettled = []" by code_simp+
  moreover then have "\<nexists>f'. go_step exampleSettled f'" by (auto elim!: go_step.cases)
  ultimately show ?thesis using ports_come_free r by blast
qed

section \<open>Renewals come in time\<close>

lemma mp_due_positive: "0 < mp_renewed m \<Longrightarrow> second \<le> interval \<Longrightarrow> 0 < mp_due interval m"
  by (auto simp: mp_due_def renewPeriod_def Let_def renew_consts)

lemma earliest_le:
  assumes "\<forall>x \<in> set ms. 0 < mp_due interval x" and "0 \<le> t"
  shows "(0 < t \<longrightarrow> 0 < earliest interval t ms \<and> earliest interval t ms \<le> t) \<and> (\<forall>m \<in> set ms. earliest interval t ms \<le> mp_due interval m)"
  using assms
proof (induction ms arbitrary: t)
  case (Cons x ms)
  let ?t = "if t = 0 \<or> mp_due interval x < t then mp_due interval x else t"
  have "0 < ?t" using Cons.prems by auto
  then have "0 < earliest interval ?t ms \<and> earliest interval ?t ms \<le> ?t" "\<forall>m \<in> set ms. earliest interval ?t ms \<le> mp_due interval m"
    using Cons.IH [of ?t] Cons.prems by auto
  then show ?case by (auto simp: Let_def split: if_splits)
qed simp

lemma earliest_mem: "ms \<noteq> [] \<Longrightarrow> \<forall>x \<in> set ms. 0 < mp_due interval x \<Longrightarrow> \<exists>m \<in> set ms. earliest interval 0 ms = mp_due interval m"
proof -
  have "\<forall>x \<in> set ms. 0 < mp_due interval x \<Longrightarrow> 0 < t \<Longrightarrow> earliest interval t ms = t \<or> (\<exists>m \<in> set ms. earliest interval t ms = mp_due interval m)" for t ms
    by (induction ms arbitrary: t) (auto simp: Let_def)
  then show "ms \<noteq> [] \<Longrightarrow> \<forall>x \<in> set ms. 0 < mp_due interval x \<Longrightarrow> \<exists>m \<in> set ms. earliest interval 0 ms = mp_due interval m"
    by (cases ms) (auto simp: Let_def)
qed

text \<open>Renewals come in time, and not in a spin. The renewal loop sleeps no longer than until half the lease of each
  mapping is over (or a second, whichever is more) or its failed renewal is to be tried again, and such a try comes after an eighth of
  the lease, a second and a minute being the limits. It wakes at a time some mapping is due, and a mapping is never due
  within a second of being renewed or of its renewal failing.\<close>

lemma renewals_in_time:
  assumes "m \<in> set ms" and "\<forall>x \<in> set ms. 0 < mp_renewed x" and "minute \<le> interval"
  shows "now + nextRenewal now interval ms \<le> max now (max (mp_retryAt m) (mp_renewed m + max (mp_LeaseDuration m div 2) second))
    \<and> (\<exists>x \<in> set ms. now + nextRenewal now interval ms = max now (mp_due interval x))
    \<and> mp_renewed m + second \<le> mp_due interval m \<and> mp_retryAt m \<le> mp_due interval m
    \<and> renewRetryDelay m \<in> {second..minute} \<and> (8 * second \<le> mp_LeaseDuration m \<longrightarrow> 8 * renewRetryDelay m \<le> mp_LeaseDuration m)"
proof -
  have "second \<le> interval" using assms(3) by (simp add: time_units)
  then have pos: "\<forall>x \<in> set ms. 0 < mp_due interval x" using assms(2) mp_due_positive by blast
  have ne: "ms \<noteq> []" using assms(1) by auto
  have due: "mp_due interval m \<le> max (mp_retryAt m) (mp_renewed m + max (mp_LeaseDuration m div 2) second)"
    "mp_renewed m + second \<le> mp_due interval m" "mp_retryAt m \<le> mp_due interval m"
    using assms(3) by (auto simp: mp_due_def renewPeriod_def Let_def renew_consts)
  have "earliest interval 0 ms \<le> mp_due interval m" using earliest_le [OF pos, of 0] assms(1) by simp
  then have "now + nextRenewal now interval ms \<le> max now (max (mp_retryAt m) (mp_renewed m + max (mp_LeaseDuration m div 2) second))"
    using due(1) ne by (simp add: nextRenewal_def)
  moreover obtain x where "x \<in> set ms" "earliest interval 0 ms = mp_due interval x" using earliest_mem [OF ne pos] by blast
  then have "\<exists>x \<in> set ms. now + nextRenewal now interval ms = max now (mp_due interval x)"
    using ne by (intro bexI [of _ x]) (auto simp: nextRenewal_def)
  moreover have "renewRetryDelay m \<in> {second..minute}" "8 * second \<le> mp_LeaseDuration m \<longrightarrow> 8 * renewRetryDelay m \<le> mp_LeaseDuration m"
    by (auto simp: renewRetryDelay_def time_units)
  ultimately show ?thesis using due(2,3) by blast
qed

definition exampleMapping :: mapping where
  "exampleMapping = (fw_objs exampleOnce ! 0)\<lparr>mp_renewed := unix_epoch, mp_LeaseDuration := 120 * second\<rparr>"

end
