(* ===== verification/Port_Discovery.thy ===== *)
theory Port_Discovery
  imports Port_Forward Go_Strconv
begin

text \<open>
  The rest of \<open>portforward\<close>: which gateway a forwarder is built for and which local address it maps to (\<open>portforward.go\<close>), the forwarder
  of a port mapped by hand (\<open>manual.go\<close>), and the redaction of log lines (\<open>quietlog.go\<close>). Discovery by multicast and the operating system's
  interfaces are arguments.
\<close>

section \<open>Finding a gateway\<close>

text \<open>What a UPnP search returns: the number of clients found, or an error.\<close>

type_synonym search = "pmpErr + nat"

datatype igd = WanIP2 | WanIP1 | WanPPP1

definition discoverIGDv2 :: "search \<Rightarrow> pmpErr + igd option" where
  "discoverIGDv2 ip = (case ip of Inl e \<Rightarrow> Inl e | Inr n \<Rightarrow> if n = 0 then Inr None else Inr (Some WanIP2))"

definition discoverIGDv1 :: "search \<Rightarrow> search \<Rightarrow> pmpErr + igd option" where
  "discoverIGDv1 ip ppp =
     (if (case ip of Inr n \<Rightarrow> 0 < n | Inl _ \<Rightarrow> False) then Inr (Some WanIP1)
      else case ppp of Inl e \<Rightarrow> Inl e | Inr n \<Rightarrow> if n = 0 then Inr None else Inr (Some WanPPP1))"

datatype gatewayClient = PmpGateway pmpMethod | IgdGateway igd

datatype newErr = NewCtxErr | NewNoPortForwarding

definition NewForwarder :: "pmpErr + pmpMethod \<Rightarrow> pmpErr + igd option \<Rightarrow> pmpErr + igd option \<Rightarrow> bool \<Rightarrow> newErr + gatewayClient \<times> forwarder" where
  "NewForwarder pmp igd2 igd1 ctxErr =
     (case pmp of
        Inr meth \<Rightarrow> Inr (PmpGateway meth, newForwarder (case meth of MethodPCP \<Rightarrow> ''pcp'' | MethodNATPMP \<Rightarrow> ''nat-pmp'') {})
      | Inl _ \<Rightarrow>
          case igd2 of
            Inr (Some c) \<Rightarrow> Inr (IgdGateway c, newForwarder ''upnp-igd2'' {})
          | _ \<Rightarrow>
              case igd1 of
                Inr (Some c) \<Rightarrow> Inr (IgdGateway c, newForwarder ''upnp-igd1'' {})
              | _ \<Rightarrow> if ctxErr then Inl NewCtxErr else Inl NewNoPortForwarding)"

definition ProbeUPnP :: "newErr + gatewayClient \<times> forwarder \<Rightarrow> bool" where
  "ProbeUPnP r = (case r of Inl _ \<Rightarrow> False | Inr _ \<Rightarrow> True)"

text \<open>\<open>errOrAbsent\<close>, with the error's text.\<close>

definition errOrAbsent :: "string option \<Rightarrow> bool \<Rightarrow> string" where
  "errOrAbsent err found =
     (case err of Some e \<Rightarrow> e | None \<Rightarrow> if \<not> found then ''no gateway responded'' else ''ok'')"

section \<open>Waiting with a context\<close>

text \<open>\<open>ended\<close>: the context had ended before the call; \<open>first\<close>: it ends before the call returns \<open>r\<close>.\<close>

definition runWithCtx :: "bool \<Rightarrow> bool \<Rightarrow> pmpErr + 'a \<Rightarrow> pmpErr + 'a" where
  "runWithCtx ended first r = (if ended \<or> first then Inl ErrContext else r)"

datatype extErr = ErrGetExternal pmpErr | ErrEmptyExternal

definition ExternalIP :: "bool \<Rightarrow> bool \<Rightarrow> pmpErr + string \<Rightarrow> extErr + string" where
  "ExternalIP ended first answer =
     (case runWithCtx ended first answer of
        Inl e \<Rightarrow> Inl (ErrGetExternal e)
      | Inr ip \<Rightarrow> if ip = '''' then Inl ErrEmptyExternal else Inr ip)"

section \<open>The local address\<close>

text \<open>\<open>net.IP\<close> is its bytes, four or sixteen of them. An interface's address is \<open>None\<close> when it is not an \<open>*net.IPNet\<close>.\<close>

definition to4 :: "bytes \<Rightarrow> bytes option" where
  "to4 ip = (if length ip = 4 then Some ip
     else if length ip = 16 \<and> take 12 ip = replicate 10 0 @ [255, 255] then Some (drop 12 ip) else None)"

definition ip_IsLoopback :: "bytes \<Rightarrow> bool" where
  "ip_IsLoopback ip = (case to4 ip of Some b \<Rightarrow> b ! 0 = 127 | None \<Rightarrow> ip = replicate 15 0 @ [1])"

definition ip_IsLinkLocalUnicast :: "bytes \<Rightarrow> bool" where
  "ip_IsLinkLocalUnicast ip =
     (case to4 ip of Some b \<Rightarrow> b ! 0 = 169 \<and> b ! 1 = 254
      | None \<Rightarrow> length ip = 16 \<and> ip ! 0 = 254 \<and> and (ip ! 1) 192 = 128)"

definition ip4_IsPrivate :: "bytes \<Rightarrow> bool" where
  "ip4_IsPrivate b \<longleftrightarrow> b ! 0 = 10 \<or> b ! 0 = 172 \<and> and (b ! 1) 240 = 16 \<or> b ! 0 = 192 \<and> b ! 1 = 168"

record iface =
  if_up :: bool
  if_loopback :: bool
  if_addrs :: "bytes option list option"

fun scanAddrs :: "bytes option list \<Rightarrow> bytes option" where
  "scanAddrs [] = None"
| "scanAddrs (a # as) =
     (case a of
        None \<Rightarrow> scanAddrs as
      | Some ip \<Rightarrow>
          if ip_IsLoopback ip \<or> ip_IsLinkLocalUnicast ip then scanAddrs as
          else case to4 ip of
            None \<Rightarrow> scanAddrs as
          | Some b \<Rightarrow> if \<not> ip4_IsPrivate b then scanAddrs as else Some b)"

fun scanIfaces :: "iface list \<Rightarrow> bytes option" where
  "scanIfaces [] = None"
| "scanIfaces (i # is) =
     (if \<not> if_up i \<or> if_loopback i then scanIfaces is
      else case if_addrs i of
        None \<Rightarrow> scanIfaces is
      | Some as \<Rightarrow> case scanAddrs as of Some b \<Rightarrow> Some b | None \<Rightarrow> scanIfaces is)"

definition localIPByInterfaceScan :: "iface list option \<Rightarrow> bytes option" where
  "localIPByInterfaceScan ifaces = (case ifaces of None \<Rightarrow> None | Some is \<Rightarrow> scanIfaces is)"

text \<open>\<open>dialed\<close>: the local address of the socket dialed, plainly or under the control; \<open>None\<close> when the dial failed.\<close>

definition localIP :: "bytes option \<Rightarrow> iface list option \<Rightarrow> bytes option" where
  "localIP dialed ifaces = (case dialed of Some ip \<Rightarrow> Some ip | None \<Rightarrow> localIPByInterfaceScan ifaces)"

definition localIPLocked :: "bool \<Rightarrow> bytes option \<Rightarrow> bytes option \<Rightarrow> iface list option \<Rightarrow> bytes option" where
  "localIPLocked controlled dialed controlledDial ifaces =
     (if \<not> controlled then localIP dialed ifaces else controlledDial)"

lemma to4_length: "to4 ip = Some b \<Longrightarrow> length b = 4"
  unfolding to4_def by (simp only: split: if_split_asm) auto

lemma scanAddrs_private: "scanAddrs as = Some b \<Longrightarrow> ip4_IsPrivate b \<and> length b = 4 \<and> (\<exists>ip. Some ip \<in> set as \<and> to4 ip = Some b \<and> \<not> ip_IsLoopback ip)"
proof (induction as)
  case (Cons a as)
  then show ?case using to4_length by (cases a) (auto split: option.splits if_splits)
qed simp

lemma scanIfaces_Some:
  "scanIfaces is = Some b \<Longrightarrow> \<exists>i \<in> set is. if_up i \<and> \<not> if_loopback i \<and> (\<exists>as. if_addrs i = Some as \<and> scanAddrs as = Some b)"
proof (induction "is")
  case (Cons i "is")
  show ?case
  proof (cases "if_up i \<and> \<not> if_loopback i \<and> (\<exists>as. if_addrs i = Some as \<and> scanAddrs as = Some b)")
    case False
    then have "scanIfaces is = Some b" using Cons.prems by (auto split: if_splits option.splits)
    then show ?thesis using Cons.IH by auto
  qed simp
qed simp

lemma local_address_private:
  assumes "localIPByInterfaceScan (Some is) = Some b"
  shows "ip4_IsPrivate b \<and> length b = 4 \<and> (\<exists>i \<in> set is. if_up i \<and> \<not> if_loopback i)"
  using scanIfaces_Some [of "is" b] scanAddrs_private [of _ b] assms by (auto simp: localIPByInterfaceScan_def)

section \<open>A port mapped by hand\<close>

datatype manualErr = ErrParsePort | ErrPortRange int | ErrManualProtocol | ErrPortZero

definition ParseManualPort :: "string \<Rightarrow> manualErr + u16" where
  "ParseManualPort s =
     (case Atoi s of
        None \<Rightarrow> Inl ErrParsePort
      | Some p \<Rightarrow> if p < 1 \<or> p > 65535 then Inl (ErrPortRange p) else Inr (word_of_int p))"

definition manual_MapPort :: "u16 \<Rightarrow> string \<Rightarrow> manualErr + mapping" where
  "manual_MapPort port protocol =
     (if protocol \<noteq> protoTCP \<and> protocol \<noteq> protoUDP then Inl ErrManualProtocol
      else if port = 0 then Inl ErrPortZero
      else Inr \<lparr>mp_ExternalPort = port, mp_InternalPort = port, mp_InternalIP = '''', mp_Protocol = protocol, mp_LeaseDuration = 0,
                mp_Method = ''manual'', mp_description = '''', mp_requested = 0, mp_renewed = 0, mp_retryAt = 0\<rparr>)"

definition manual_ExternalIP :: "string" where
  "manual_ExternalIP = ''''"

text \<open>A port that parses is the number that was written, and it can be mapped.\<close>

lemma manual_port_kept:
  assumes "ParseManualPort s = Inr p"
  shows "Atoi s = Some (uint p) \<and> 1 \<le> uint p \<and> (\<exists>m. manual_MapPort p protoTCP = Inr m \<and> mp_ExternalPort m = p \<and> mp_InternalPort m = p)"
proof -
  from assms obtain n where n: "Atoi s = Some n" "1 \<le> n" "n \<le> 65535" "p = word_of_int n"
    by (auto simp: ParseManualPort_def split: option.splits if_splits)
  then have "uint p = n" by (simp add: uint_word_of_int take_bit_int_eq_self)
  moreover then have "p \<noteq> 0" using n(2) by auto
  ultimately show ?thesis using n by (simp add: manual_MapPort_def)
qed

lemma manual_port_roundtrip: "0 < p \<Longrightarrow> ParseManualPort (Itoa (uint (p :: u16))) = Inr p"
  using uint_bounded [of p] by (simp add: ParseManualPort_def word_less_def)

section \<open>Log lines without addresses\<close>

text \<open>\<open>strings.Fields\<close> for ASCII white space.\<close>

definition spaceChar :: "char \<Rightarrow> bool" where
  "spaceChar c \<longleftrightarrow> c \<in> set (map char_of [9, 10, 11, 12, 13, 32 :: nat])"

function fields :: "string \<Rightarrow> string list" where
  "fields s = (let t = dropWhile spaceChar s in
     if t = [] then [] else takeWhile (\<lambda>c. \<not> spaceChar c) t # fields (dropWhile (\<lambda>c. \<not> spaceChar c) t))"
  by pat_completeness auto

termination fields
proof (relation "measure length", goal_cases)
  case (2 s t)
  from 2(2) obtain c u where t: "t = c # u" by (meson neq_Nil_conv)
  then have "\<not> spaceChar c" using 2 hd_dropWhile [of spaceChar s] by simp
  then have "length (dropWhile (\<lambda>c. \<not> spaceChar c) t) \<le> length u" by (simp add: t length_dropWhile_le)
  also have "length u < length s" using t 2 length_dropWhile_le [of spaceChar s] by simp
  finally show ?case by simp
qed simp

declare fields.simps [simp del]

fun containsStr :: "string \<Rightarrow> string \<Rightarrow> bool" where
  "containsStr pat [] \<longleftrightarrow> pat = []"
| "containsStr pat (c # s) \<longleftrightarrow> take (length pat) (c # s) = pat \<or> containsStr pat s"

definition digitChar :: "char \<Rightarrow> bool" where
  "digitChar c \<longleftrightarrow> digit_val c \<noteq> None"

definition alnumChar :: "char \<Rightarrow> bool" where
  "alnumChar c \<longleftrightarrow> digitChar c \<or> is_upper c \<or> is_lower c"

definition joinChar :: "char \<Rightarrow> bool" where
  "joinChar c \<longleftrightarrow> c = CHR ''.'' \<or> c = CHR '':''"

text \<open>\<open>endpointRE\<close> and \<open>numberRE\<close>.\<close>

fun endpoint :: "string \<Rightarrow> bool" where
  "endpoint (a # b # c # s) \<longleftrightarrow> alnumChar a \<and> joinChar b \<and> (alnumChar c \<or> c = CHR '':'') \<or> endpoint (b # c # s)"
| "endpoint _ \<longleftrightarrow> False"

fun maskNumbers :: "bool \<Rightarrow> string \<Rightarrow> string" where
  "maskNumbers inside [] = []"
| "maskNumbers inside (c # s) =
     (if digitChar c then (if inside then '''' else ''<n>'') @ maskNumbers True s else c # maskNumbers False s)"

definition isAddress :: "string \<Rightarrow> bool" where
  "isAddress t \<longleftrightarrow> containsStr ''://'' t \<or> CHR ''['' \<in> set t \<or> CHR '']'' \<in> set t \<or> containsStr ''::'' t \<or> endpoint t"

fun maskFields :: "string \<Rightarrow> string list \<Rightarrow> string list" where
  "maskFields prev [] = []"
| "maskFields prev (t # ts) = (if isAddress t \<or> prev = ''lookup'' then ''<addr>'' else t) # maskFields (if isAddress t \<or> prev = ''lookup'' then ''<addr>'' else t) ts"

fun joinSpace :: "string list \<Rightarrow> string" where
  "joinSpace [] = []"
| "joinSpace [t] = t"
| "joinSpace (t # ts) = t @ '' '' @ joinSpace ts"

definition redactText :: "string \<Rightarrow> string" where
  "redactText s = maskNumbers False (joinSpace (maskFields '''' (fields s)))"

datatype logArg = LogString string | LogError string | LogOther string

definition quietDropKeys :: "string list" where
  "quietDropKeys = [''external_port'', ''internal_port'', ''internal_ip'']"

definition redactValue :: "string \<Rightarrow> logArg \<Rightarrow> logArg" where
  "redactValue key val =
     (case val of
        LogError e \<Rightarrow> LogString (redactText e)
      | LogString v \<Rightarrow> if key = ''err'' \<or> (4 \<le> length key \<and> drop (length key - 4) key = ''_err'') then LogString (redactText v) else val
      | LogOther v \<Rightarrow> val)"

fun redactArgs :: "logArg list \<Rightarrow> logArg list" where
  "redactArgs (LogString key # val # args) =
     (if key \<in> set quietDropKeys then redactArgs args else LogString key # redactValue key val # redactArgs args)"
| "redactArgs (a # args) = a # redactArgs args"
| "redactArgs [] = []"

definition redactLogArgs :: "bool \<Rightarrow> logArg list \<Rightarrow> logArg list" where
  "redactLogArgs quiet args = (if \<not> quiet then args else redactArgs args)"

text \<open>What the mask puts in is neither a digit nor part of an endpoint.\<close>

lemma mark_chars [simp]:
  "\<not> digitChar CHR ''<''" "\<not> digitChar CHR ''n''" "\<not> digitChar CHR ''>''" "\<not> alnumChar CHR ''<''" "\<not> alnumChar CHR ''>''"
  "\<not> joinChar CHR ''<''" "\<not> joinChar CHR ''>''" "\<not> joinChar CHR ''n''" "\<not> alnumChar CHR '' ''" "\<not> joinChar CHR '' ''" "\<not> digitChar CHR '' ''"
  by code_simp+

lemma endpoint_skip: "\<not> alnumChar a \<Longrightarrow> endpoint (a # s) = endpoint s"
  by (cases "a # s" rule: endpoint.cases) auto

lemma endpoint_skip2: "\<not> joinChar b \<Longrightarrow> endpoint (a # b # s) = endpoint (b # s)"
  by (cases s) auto

lemma endpoint_mark [simp]: "endpoint (CHR ''<'' # CHR ''n'' # CHR ''>'' # s) = endpoint s"
  by (simp only: endpoint_skip endpoint_skip2 mark_chars not_False_eq_True)

lemma maskNumbers_endpoint: "\<not> endpoint s \<Longrightarrow> \<not> endpoint (maskNumbers inside s)"
proof (induction s arbitrary: inside)
  case (Cons a s)
  have tail: "\<not> endpoint s" using Cons.prems by (cases "a # s" rule: endpoint.cases) auto
  show ?case
  proof (cases "digitChar a")
    case True
    then show ?thesis using Cons.IH [OF tail] by (simp add: endpoint_skip endpoint_skip2)
  next
    case False
    note IH = Cons.IH [OF tail, of False]
    show ?thesis
    proof (cases s)
      case (Cons b u)
      show ?thesis
      proof (cases "digitChar b")
        case True
        then show ?thesis using IH False Cons by (simp add: endpoint_skip2)
      next
        case b: False
        show ?thesis
        proof (cases u)
          case Nil
          then show ?thesis using IH False Cons b by simp
        next
          case (Cons c v)
          then show ?thesis using IH False \<open>s = b # u\<close> b Cons.prems \<open>\<not> endpoint (a # s)\<close> by (cases "digitChar c") auto
        qed
      qed
    qed (use False in simp)
  qed
qed simp

lemma maskNumbers_digits: "\<forall>c \<in> set (maskNumbers inside s). \<not> digitChar c"
  by (induction s arbitrary: inside) auto

lemma endpoint_space: "endpoint (t @ CHR '' '' # u) \<Longrightarrow> endpoint t \<or> endpoint u"
proof (induction t)
  case Nil
  then show ?case by (simp add: endpoint_skip)
next
  case (Cons a t)
  show ?case
  proof (cases t)
    case Nil
    then show ?thesis using Cons.prems by (simp add: endpoint_skip2 endpoint_skip)
  next
    case (Cons b v)
    then show ?thesis using Cons.prems Cons.IH \<open>endpoint ((a # t) @ CHR '' '' # u)\<close> by (cases v) (auto simp: endpoint_skip)
  qed
qed

lemma joinSpace_endpoint: "\<forall>t \<in> set ts. \<not> endpoint t \<Longrightarrow> \<not> endpoint (joinSpace ts)"
  by (induction ts rule: joinSpace.induct) (auto dest: endpoint_space)

lemma maskFields_endpoint: "\<forall>t \<in> set (maskFields prev ts). \<not> endpoint t"
proof -
  have "\<not> endpoint ''<addr>''" by code_simp
  then show ?thesis by (induction ts arbitrary: prev) (auto simp: isAddress_def)
qed

text \<open>A quiet log line gives no address or port away. The text of an error, redacted, contains no digit and nowhere a letter, digit or colon joined
  to another by a dot or a colon, the shape of a host name, an address or an endpoint.\<close>

lemma redacted_text_clean:
  "list_all (\<lambda>c. \<not> digitChar c) (redactText s) \<and> \<not> endpoint (redactText s)"
  using maskNumbers_digits maskNumbers_endpoint [OF joinSpace_endpoint [OF maskFields_endpoint]]
  by (simp add: redactText_def list_all_iff)

text \<open>With quiet logs no argument keeps a dropped key, and an error's text is redacted.\<close>

lemma redactArgs_values:
  "key \<notin> set quietDropKeys \<Longrightarrow>
   hd (redactArgs (LogString key # LogError e # args)) = LogString key \<and>
   hd (tl (redactArgs (LogString key # LogError e # args))) = LogString (redactText e)"
  by (simp add: redactValue_def)

section \<open>The order of discovery\<close>

text \<open>A gateway that speaks several protocols is used through PCP first, then NAT-PMP, IGDv2 and IGDv1; the network is called unable only
  when every search completed.\<close>

lemma pmp_wait_pcp:
  "PcpAnswered None \<in> set (takeWhile (\<lambda>e. e \<noteq> BoundEnded) evs) \<Longrightarrow> \<forall>e. PcpAnswered (Some e) \<notin> set evs \<Longrightarrow>
   pmp_wait ctxErr None pmp evs = Inr MethodPCP"
proof (induction evs arbitrary: pmp)
  case (Cons ev evs)
  then show ?case
    by (cases ev) (auto simp: pmp_wait.simps [of _ _ _ "_ # _"] pmp_choose_def split: if_splits)
qed simp

lemma discovery_prefers_pcp:
  "PcpAnswered None \<in> set (takeWhile (\<lambda>e. e \<noteq> BoundEnded) evs) \<Longrightarrow> \<forall>e. PcpAnswered (Some e) \<notin> set evs \<Longrightarrow>
   discoverPMP False None ctxErr evs = Inr MethodPCP \<and>
   fst (projr (NewForwarder (discoverPMP False None ctxErr evs) igd2 igd1 c)) = PmpGateway MethodPCP"
  by (simp add: discoverPMP_def pmp_wait_pcp NewForwarder_def)

lemma new_forwarder_error:
  "NewForwarder pmp igd2 igd1 ctxErr = Inl err \<Longrightarrow>
     (\<exists>e. pmp = Inl e) \<and> (\<forall>c. igd2 \<noteq> Inr (Some c)) \<and> (\<forall>c. igd1 \<noteq> Inr (Some c)) \<and> (err = NewNoPortForwarding \<longleftrightarrow> \<not> ctxErr)"
  by (auto simp: NewForwarder_def split: sum.splits option.splits if_splits)

end
