(* ===== verification/Portal_Sessions.thy ===== *)
theory Portal_Sessions
  imports Box_Prelude
begin

text \<open>
  The sessions of the samizdat portal (\<open>protocol/samizdatreverse/portal.go\<close>): helpers dial in, each session handler publishes its
  session under the tag its short ID is paired with, and reverse outbounds look sessions up by tag. Handlers run
  concurrently with each other and with \<open>Configure\<close>, which changes the pairings; the model has one step per section under \<open>sessMu\<close> and per
  wait between them. The HTTP/2 client of a session is the flag whether it has been closed; its pings are answered or not.
\<close>

section \<open>State\<close>

type_synonym shortID = bytes

record portalSession =
  se_shortID :: shortID
  se_seq :: u64
  se_confirmed :: bool
  se_closed :: bool

text \<open>Where a session handler is: between finding its tag and starting HTTP/2; in \<open>publish\<close>, before a section or waiting for the ping; published, with
  the session it replaced still to be closed, or waiting for the end; past the end, before it gives its place up; returning, with the
  deferred close still to come; or gone. A handler without a session yet has none in \<open>hd_session\<close>.\<close>

datatype handlerPc = Opening | Publishing | Pinging | Replacing nat | Holding | Withdrawing | Returning | Gone

record handler =
  hd_shortID :: shortID
  hd_tag :: tag
  hd_session :: nat
  hd_pc :: handlerPc

text \<open>Sessions are objects, referred to by their index in \<open>pt_objs\<close>. \<open>pt_stale\<close>: the sessions a change of the pairings took out and
  \<open>closeSessions\<close> has yet to close.\<close>

record sessionTable =
  pt_pairings :: "(shortID, tag) gomap"
  pt_sessions :: "(tag, nat) gomap"
  pt_seq :: u64
  pt_objs :: "portalSession list"
  pt_handlers :: "handler list"
  pt_stale :: "nat list"

definition newTable :: sessionTable where
  "newTable = \<lparr>pt_pairings = [], pt_sessions = [], pt_seq = 0, pt_objs = [], pt_handlers = [], pt_stale = []\<rparr>"

text \<open>Reading a Go map gives the empty string for a missing key.\<close>

definition pairing_of :: "sessionTable \<Rightarrow> shortID \<Rightarrow> tag" where
  "pairing_of t sid = (case gget (pt_pairings t) sid of None \<Rightarrow> '''' | Some tag \<Rightarrow> tag)"

definition closeSession :: "nat \<Rightarrow> sessionTable \<Rightarrow> sessionTable" where
  "closeSession i t = t\<lparr>pt_objs := (pt_objs t)[i := (pt_objs t ! i)\<lparr>se_closed := True\<rparr>]\<rparr>"

definition setPc :: "nat \<Rightarrow> handlerPc \<Rightarrow> sessionTable \<Rightarrow> sessionTable" where
  "setPc h pc t = t\<lparr>pt_handlers := (pt_handlers t)[h := (pt_handlers t ! h)\<lparr>hd_pc := pc\<rparr>]\<rparr>"

section \<open>Operations\<close>

definition setPairings :: "(shortID, tag) gomap \<Rightarrow> sessionTable \<Rightarrow> sessionTable" where
  "setPairings pairings t =
     (let t = t\<lparr>pt_pairings := pairings\<rparr>;
          gone = (\<lambda>p. pairing_of t (se_shortID (pt_objs t ! snd p)) \<noteq> fst p) in
      t\<lparr>pt_sessions := filter (\<lambda>p. \<not> gone p) (pt_sessions t), pt_stale := pt_stale t @ map snd (filter gone (pt_sessions t))\<rparr>)"

definition closeStale :: "sessionTable \<Rightarrow> sessionTable" where
  "closeStale t = (case pt_stale t of [] \<Rightarrow> t | i # is \<Rightarrow> closeSession i (t\<lparr>pt_stale := is\<rparr>))"

text \<open>\<open>canTake\<close>: the client's \<open>CanTakeNewRequest\<close>.\<close>

definition Session :: "(nat \<Rightarrow> bool) \<Rightarrow> tag \<Rightarrow> sessionTable \<Rightarrow> nat option" where
  "Session canTake reverseTag t =
     (case gget (pt_sessions t) reverseTag of None \<Rightarrow> None | Some i \<Rightarrow> if canTake i then Some i else None)"

text \<open>A session handler starts: the connection's handshake has not timed out (\<open>started\<close>), and the short ID is paired.\<close>

definition handleSession :: "bool \<Rightarrow> shortID \<Rightarrow> sessionTable \<Rightarrow> sessionTable" where
  "handleSession started sid t =
     (if \<not> started then t
      else case gget (pt_pairings t) sid of
        None \<Rightarrow> t
      | Some tag \<Rightarrow> t\<lparr>pt_handlers := pt_handlers t @ [\<lparr>hd_shortID = sid, hd_tag = tag, hd_session = 0, hd_pc = Opening\<rparr>]\<rparr>)"

definition openSession :: "bool \<Rightarrow> nat \<Rightarrow> sessionTable \<Rightarrow> sessionTable" where
  "openSession http h t =
     (if \<not> http then setPc h Gone t
      else
        let t = t\<lparr>pt_seq := pt_seq t + 1\<rparr>;
            s = \<lparr>se_shortID = hd_shortID (pt_handlers t ! h), se_seq = pt_seq t, se_confirmed = False, se_closed = False\<rparr>;
            t = t\<lparr>pt_objs := pt_objs t @ [s],
                  pt_handlers := (pt_handlers t)[h := (pt_handlers t ! h)\<lparr>hd_session := length (pt_objs t)\<rparr>]\<rparr> in
        setPc h Publishing t)"

text \<open>One section of the loop of \<open>publish\<close>.\<close>

definition publish :: "nat \<Rightarrow> sessionTable \<Rightarrow> sessionTable" where
  "publish h t =
     (let hd = pt_handlers t ! h; i = hd_session hd; s = pt_objs t ! i; tag = hd_tag hd in
      if pairing_of t (se_shortID s) \<noteq> tag then setPc h Returning t
      else case gget (pt_sessions t) tag of
        None \<Rightarrow> setPc h Holding (t\<lparr>pt_sessions := gput tag i (pt_sessions t)\<rparr>)
      | Some c \<Rightarrow>
          let cur = pt_objs t ! c in
          if se_confirmed s \<and> (\<not> se_confirmed cur \<or> se_seq cur < se_seq s)
          then setPc h (Replacing c) (t\<lparr>pt_sessions := gput tag i (pt_sessions t)\<rparr>)
          else if se_confirmed s \<or> (se_confirmed cur \<and> se_seq s < se_seq cur) then setPc h Returning t
          else setPc h Pinging t)"

definition ping :: "bool \<Rightarrow> nat \<Rightarrow> sessionTable \<Rightarrow> sessionTable" where
  "ping answered h t =
     (if \<not> answered then setPc h Returning t
      else
        let i = hd_session (pt_handlers t ! h) in
        setPc h Publishing (t\<lparr>pt_objs := (pt_objs t)[i := (pt_objs t ! i)\<lparr>se_confirmed := True\<rparr>]\<rparr>))"

definition closeReplaced :: "nat \<Rightarrow> nat \<Rightarrow> sessionTable \<Rightarrow> sessionTable" where
  "closeReplaced c h t = setPc h Holding (closeSession c t)"

definition withdraw :: "nat \<Rightarrow> sessionTable \<Rightarrow> sessionTable" where
  "withdraw h t =
     (let hd = pt_handlers t ! h;
          t = (if gget (pt_sessions t) (hd_tag hd) = Some (hd_session hd) then t\<lparr>pt_sessions := gdel (hd_tag hd) (pt_sessions t)\<rparr> else t) in
      setPc h Returning t)"

definition handlerReturn :: "nat \<Rightarrow> sessionTable \<Rightarrow> sessionTable" where
  "handlerReturn h t = setPc h Gone (closeSession (hd_session (pt_handlers t ! h)) t)"

section \<open>Steps\<close>

abbreviation at_pc :: "sessionTable \<Rightarrow> nat \<Rightarrow> handlerPc \<Rightarrow> bool" where
  "at_pc t h pc \<equiv> h < length (pt_handlers t) \<and> hd_pc (pt_handlers t ! h) = pc"

inductive session_table_step :: "sessionTable \<Rightarrow> sessionTable \<Rightarrow> bool" where
  pairings: "distinct (gkeys pairings) \<Longrightarrow> session_table_step t (setPairings pairings t)"
| stale_closed: "session_table_step t (closeStale t)"
| arrives: "session_table_step t (handleSession started sid t)"
| opens: "at_pc t h Opening \<Longrightarrow> session_table_step t (openSession http h t)"
| publishes: "at_pc t h Publishing \<Longrightarrow> session_table_step t (publish h t)"
| pinged: "at_pc t h Pinging \<Longrightarrow> session_table_step t (ping answered h t)"
| replaced: "at_pc t h (Replacing c) \<Longrightarrow> session_table_step t (closeReplaced c h t)"
| ends: "at_pc t h Holding \<Longrightarrow> session_table_step t (setPc h Withdrawing t)"
| withdraws: "at_pc t h Withdrawing \<Longrightarrow> session_table_step t (withdraw h t)"
| returns: "at_pc t h Returning \<Longrightarrow> session_table_step t (handlerReturn h t)"

definition table_init :: "sessionTable \<Rightarrow> bool" where
  "table_init t \<longleftrightarrow> t = newTable"

section \<open>The invariant\<close>

text \<open>
  A handler past its start owns a session of its own with its short ID, and while it waits for a ping that session is not confirmed. A
  published session belongs to a handler that will withdraw it, is published under the tag its short ID is paired with now, and a session is closed
  only when it is in nobody's place or on its way out.
\<close>

definition owner_ok :: "sessionTable \<Rightarrow> handler \<Rightarrow> bool" where
  "owner_ok t h \<longleftrightarrow> (hd_pc h \<notin> {Opening, Gone} \<longrightarrow> hd_session h < length (pt_objs t) \<and> se_shortID (pt_objs t ! hd_session h) = hd_shortID h)
     \<and> (hd_pc h = Pinging \<longrightarrow> \<not> se_confirmed (pt_objs t ! hd_session h))
     \<and> (\<forall>c. hd_pc h = Replacing c \<longrightarrow> c < length (pt_objs t))"

definition in_place :: "handlerPc \<Rightarrow> bool" where
  "in_place pc \<longleftrightarrow> pc \<in> {Holding, Withdrawing} \<or> (\<exists>c. pc = Replacing c)"

definition published_ok :: "sessionTable \<Rightarrow> tag \<Rightarrow> nat \<Rightarrow> bool" where
  "published_ok t tag i \<longleftrightarrow> i < length (pt_objs t) \<and> pairing_of t (se_shortID (pt_objs t ! i)) = tag
     \<and> (\<exists>h \<in> set (pt_handlers t). hd_session h = i \<and> hd_tag h = tag \<and> in_place (hd_pc h))"

text \<open>Every session has exactly one handler.\<close>

definition owners_ok :: "sessionTable \<Rightarrow> bool" where
  "owners_ok t \<longleftrightarrow> (\<forall>a < length (pt_handlers t). \<forall>b < length (pt_handlers t).
      hd_pc (pt_handlers t ! a) \<notin> {Opening, Gone} \<and> hd_pc (pt_handlers t ! b) \<notin> {Opening, Gone}
      \<and> hd_session (pt_handlers t ! a) = hd_session (pt_handlers t ! b) \<longrightarrow> a = b)"

text \<open>A session that is not closed still has a handler that will close it when it returns.\<close>

definition all_owned :: "sessionTable \<Rightarrow> bool" where
  "all_owned t \<longleftrightarrow> (\<forall>i < length (pt_objs t). \<not> se_closed (pt_objs t ! i) \<longrightarrow>
      (\<exists>h \<in> set (pt_handlers t). hd_session h = i \<and> hd_pc h \<notin> {Opening, Gone}))"

definition table_inv :: "sessionTable \<Rightarrow> bool" where
  "table_inv t \<longleftrightarrow> distinct (gkeys (pt_sessions t)) \<and> (\<forall>h \<in> set (pt_handlers t). owner_ok t h) \<and> owners_ok t \<and> all_owned t
     \<and> (\<forall>(tag, i) \<in> set (pt_sessions t). published_ok t tag i) \<and> (\<forall>i \<in> set (pt_stale t). i < length (pt_objs t))"

lemma table_new: "table_init t \<Longrightarrow> table_inv t"
  by (simp add: table_init_def newTable_def table_inv_def owners_ok_def all_owned_def)

lemma setPc_fields [simp]:
  "pt_pairings (setPc h pc t) = pt_pairings t" "pt_sessions (setPc h pc t) = pt_sessions t" "pt_objs (setPc h pc t) = pt_objs t"
  "pt_stale (setPc h pc t) = pt_stale t" "length (pt_handlers (setPc h pc t)) = length (pt_handlers t)" "pt_seq (setPc h pc t) = pt_seq t"
  "pairing_of (setPc h pc t) = pairing_of t"
  by (simp_all add: setPc_def pairing_of_def [abs_def])

lemma closeSession_fields [simp]:
  "pt_pairings (closeSession i t) = pt_pairings t" "pt_sessions (closeSession i t) = pt_sessions t" "pt_handlers (closeSession i t) = pt_handlers t"
  "pt_stale (closeSession i t) = pt_stale t" "length (pt_objs (closeSession i t)) = length (pt_objs t)" "pt_seq (closeSession i t) = pt_seq t"
  "pairing_of (closeSession i t) = pairing_of t"
  by (simp_all add: closeSession_def pairing_of_def [abs_def])

lemma closeSession_obj [simp]:
  "se_shortID (pt_objs (closeSession i t) ! j) = se_shortID (pt_objs t ! j)" "se_confirmed (pt_objs (closeSession i t) ! j) = se_confirmed (pt_objs t ! j)"
  "se_seq (pt_objs (closeSession i t) ! j) = se_seq (pt_objs t ! j)"
  by (cases "i < length (pt_objs t)"; cases "j = i"; simp add: closeSession_def list_update_beyond)+

lemma published_cong:
  assumes "length (pt_objs t') = length (pt_objs t)" "\<And>j. se_shortID (pt_objs t' ! j) = se_shortID (pt_objs t ! j)"
    "pairing_of t' = pairing_of t" "pt_handlers t' = pt_handlers t"
  shows "published_ok t' tag i = published_ok t tag i"
  using assms by (simp add: published_ok_def)

text \<open>Closing a session does not disturb the table.\<close>

lemma inv_closeSession:
  assumes "table_inv t"
  shows "table_inv (closeSession i t)"
proof -
  let ?t = "closeSession i t"
  have "owner_ok ?t = owner_ok t" by (simp add: owner_ok_def [abs_def])
  moreover have "published_ok ?t tag j = published_ok t tag j" for tag j by (rule published_cong) simp_all
  moreover have "se_closed (pt_objs t ! j) \<Longrightarrow> se_closed (pt_objs ?t ! j)" if "j < length (pt_objs t)" for j
    using that by (cases "j = i") (simp_all add: closeSession_def nth_list_update)
  then have "all_owned ?t" using assms by (auto simp: table_inv_def all_owned_def)
  ultimately show ?thesis using assms by (simp add: table_inv_def owners_ok_def)
qed

text \<open>A handler moves on. It may leave its place only when its session is not published, and may return only when its session is closed.\<close>

lemma inv_setPc:
  assumes inv: "table_inv t" and h: "h < length (pt_handlers t)" "hd_pc (pt_handlers t ! h) \<notin> {Opening, Gone}"
    and ok: "owner_ok t ((pt_handlers t ! h)\<lparr>hd_pc := pc\<rparr>)"
    and place: "in_place (hd_pc (pt_handlers t ! h)) \<and> \<not> in_place pc \<Longrightarrow> gget (pt_sessions t) (hd_tag (pt_handlers t ! h)) \<noteq> Some (hd_session (pt_handlers t ! h))"
    and gone: "pc \<notin> {Opening, Gone} \<or> (pc = Gone \<and> se_closed (pt_objs t ! hd_session (pt_handlers t ! h)))"
  shows "table_inv (setPc h pc t)"
proof -
  let ?h = "pt_handlers t ! h" and ?t = "setPc h pc t"
  have hs: "pt_handlers ?t = (pt_handlers t)[h := ?h\<lparr>hd_pc := pc\<rparr>]" by (simp add: setPc_def)
  have "owner_ok ?t = owner_ok t" by (simp add: owner_ok_def [abs_def])
  then have "\<forall>x \<in> set (pt_handlers ?t). owner_ok ?t x"
    using inv ok ball_upd [of "pt_handlers t" "owner_ok t" "?h\<lparr>hd_pc := pc\<rparr>" h] unfolding hs by (simp add: table_inv_def)
  moreover have "owners_ok ?t"
  proof -
    have "hd_session (pt_handlers ?t ! x) = hd_session (pt_handlers t ! x)"
      "hd_pc (pt_handlers ?t ! x) \<notin> {Opening, Gone} \<Longrightarrow> hd_pc (pt_handlers t ! x) \<notin> {Opening, Gone}" for x
      using h by (cases "x = h"; simp add: hs)+
    then show ?thesis using inv unfolding table_inv_def owners_ok_def setPc_fields by metis
  qed
  moreover have "all_owned ?t"
    unfolding all_owned_def
  proof (intro allI impI)
    fix i assume i: "i < length (pt_objs ?t)" "\<not> se_closed (pt_objs ?t ! i)"
    then have "\<exists>x \<in> set (pt_handlers t). hd_session x = i \<and> hd_pc x \<notin> {Opening, Gone}"
      using inv by (simp add: table_inv_def all_owned_def)
    from bex_other [OF h(1) this, of "?h\<lparr>hd_pc := pc\<rparr>"]
    show "\<exists>x \<in> set (pt_handlers ?t). hd_session x = i \<and> hd_pc x \<notin> {Opening, Gone}"
      using gone i(2) unfolding hs bex_upd [OF h(1)] by auto
  qed
  moreover have "published_ok ?t tag i" if "(tag, i) \<in> set (pt_sessions t)" for tag i
  proof -
    have g: "gget (pt_sessions t) tag = Some i" using that inv by (simp add: table_inv_def)
    have p: "published_ok t tag i" using that inv by (auto simp: table_inv_def)
    then have "\<exists>x \<in> set (pt_handlers t). hd_session x = i \<and> hd_tag x = tag \<and> in_place (hd_pc x)" by (simp add: published_ok_def)
    from bex_other [OF h(1) this, of "?h\<lparr>hd_pc := pc\<rparr>"]
    have "\<exists>x \<in> set (pt_handlers ?t). hd_session x = i \<and> hd_tag x = tag \<and> in_place (hd_pc x)"
      using place g unfolding hs bex_upd [OF h(1)] by auto
    then show ?thesis using p by (simp add: published_ok_def)
  qed
  ultimately show ?thesis using inv by (auto simp: table_inv_def)
qed

lemma sessions_iff: "table_inv t \<Longrightarrow> (tag, i) \<in> set (pt_sessions t) \<longleftrightarrow> gget (pt_sessions t) tag = Some i"
  by (simp add: table_inv_def)

lemma owner_nth: "table_inv t \<Longrightarrow> h < length (pt_handlers t) \<Longrightarrow> owner_ok t (pt_handlers t ! h)"
  by (simp add: table_inv_def)

lemma publishedD:
  assumes "table_inv t" and "gget (pt_sessions t) tag = Some i"
  shows "published_ok t tag i"
proof -
  have "(tag, i) \<in> set (pt_sessions t)" by (rule map_of_SomeD [OF assms(2)])
  then show ?thesis using assms(1) unfolding table_inv_def by blast
qed

text \<open>The table with other entries.\<close>

lemma inv_sessions:
  assumes "table_inv t" and "distinct (gkeys ss)" and "\<And>tag i. gget ss tag = Some i \<Longrightarrow> published_ok t tag i"
  shows "table_inv (t\<lparr>pt_sessions := ss\<rparr>)"
proof -
  let ?t = "t\<lparr>pt_sessions := ss\<rparr>"
  have "owner_ok ?t = owner_ok t" by (simp add: owner_ok_def [abs_def])
  moreover have "published_ok ?t tag i = published_ok t tag i" for tag i
    by (rule published_cong) (simp_all add: pairing_of_def [abs_def])
  ultimately show ?thesis using assms by (auto simp: table_inv_def owners_ok_def all_owned_def)
qed

lemma inv_setPairings:
  assumes "table_inv t"
  shows "table_inv (setPairings pairings t)"
proof -
  let ?t = "setPairings pairings t"
  let ?gone = "\<lambda>p. (case gget pairings (se_shortID (pt_objs t ! snd p)) of None \<Rightarrow> '''' | Some tag \<Rightarrow> tag) \<noteq> fst p"
  have t: "?t = t\<lparr>pt_pairings := pairings, pt_sessions := filter (\<lambda>p. \<not> ?gone p) (pt_sessions t),
      pt_stale := pt_stale t @ map snd (filter ?gone (pt_sessions t))\<rparr>"
    by (simp add: setPairings_def Let_def pairing_of_def)
  have "owner_ok ?t = owner_ok t" by (simp add: owner_ok_def [abs_def] t)
  moreover have "published_ok ?t tag i" if "(tag, i) \<in> set (pt_sessions ?t)" for tag i
  proof -
    have "published_ok t tag i" "\<not> ?gone (tag, i)" using that assms by (auto simp: t table_inv_def)
    then show ?thesis by (simp add: published_ok_def t pairing_of_def)
  qed
  moreover have "\<forall>i \<in> set (pt_stale ?t). i < length (pt_objs t)"
    using assms by (auto simp: t table_inv_def published_ok_def)
  ultimately show ?thesis
    using assms by (auto simp: table_inv_def owners_ok_def all_owned_def distinct_map_filter) (auto simp: t distinct_map_filter)
qed

lemma inv_stale:
  assumes "table_inv t" and "set is \<subseteq> set (pt_stale t)"
  shows "table_inv (t\<lparr>pt_stale := is\<rparr>)"
proof -
  let ?t = "t\<lparr>pt_stale := is\<rparr>"
  have "owner_ok ?t = owner_ok t" by (simp add: owner_ok_def [abs_def])
  moreover have "published_ok ?t tag i = published_ok t tag i" for tag i
    by (rule published_cong) (simp_all add: pairing_of_def [abs_def])
  ultimately show ?thesis using assms by (auto simp: table_inv_def owners_ok_def all_owned_def)
qed

lemma inv_closeStale: "table_inv t \<Longrightarrow> table_inv (closeStale t)"
  by (cases "pt_stale t") (auto simp: closeStale_def intro!: inv_closeSession inv_stale)

lemma inv_handleSession:
  assumes "table_inv t"
  shows "table_inv (handleSession started sid t)"
proof -
  have "table_inv (t\<lparr>pt_handlers := pt_handlers t @ [x]\<rparr>)" if "hd_pc x = Opening" for x
  proof -
    let ?t = "t\<lparr>pt_handlers := pt_handlers t @ [x]\<rparr>"
    have "owner_ok ?t = owner_ok t" by (simp add: owner_ok_def [abs_def])
    moreover have "owner_ok t x" using that by (simp add: owner_ok_def)
    moreover have "published_ok t tag i \<Longrightarrow> published_ok ?t tag i" for tag i by (auto simp: published_ok_def pairing_of_def)
    moreover have "owners_ok ?t" using assms that by (auto simp: table_inv_def owners_ok_def nth_append less_Suc_eq)
    moreover have "all_owned ?t" using assms by (auto simp: table_inv_def all_owned_def)
    ultimately show ?thesis using assms by (auto simp: table_inv_def)
  qed
  then show ?thesis using assms by (auto simp: handleSession_def split: option.splits)
qed

text \<open>A handler that has no session yet is replaced by one that has none, or by one with a new session.\<close>

lemma inv_fresh:
  assumes inv: "table_inv t" and h: "at_pc t h Opening"
    and y: "y = (pt_handlers t ! h)\<lparr>hd_session := length (pt_objs t), hd_pc := Publishing\<rparr> \<and> objs = pt_objs t @ [s]
        \<and> se_shortID s = hd_shortID (pt_handlers t ! h)
      \<or> y = (pt_handlers t ! h)\<lparr>hd_pc := Gone\<rparr> \<and> objs = pt_objs t"
  shows "table_inv (t\<lparr>pt_seq := q, pt_objs := objs, pt_handlers := (pt_handlers t)[h := y]\<rparr>)"
proof -
  let ?t = "t\<lparr>pt_seq := q, pt_objs := objs, pt_handlers := (pt_handlers t)[h := y]\<rparr>"
  have old: "i < length (pt_objs t) \<Longrightarrow> i < length objs \<and> objs ! i = pt_objs t ! i" for i using y by (auto simp: nth_append)
  have "owner_ok t x \<Longrightarrow> owner_ok ?t x" for x using old by (auto simp: owner_ok_def)
  moreover have "owner_ok ?t y" using y by (auto simp: owner_ok_def)
  ultimately have "\<forall>x \<in> set (pt_handlers t). owner_ok ?t x" "owner_ok ?t y" using inv unfolding table_inv_def by blast+
  then have "\<forall>x \<in> set (pt_handlers ?t). owner_ok ?t x" using ball_upd [of "pt_handlers t" "owner_ok ?t" y h] by simp
  moreover have "owners_ok ?t"
    unfolding owners_ok_def
  proof (intro allI impI, elim conjE)
    fix a b
    assume ab: "a < length (pt_handlers ?t)" "b < length (pt_handlers ?t)"
      "hd_pc (pt_handlers ?t ! a) \<notin> {Opening, Gone}" "hd_pc (pt_handlers ?t ! b) \<notin> {Opening, Gone}"
      "hd_session (pt_handlers ?t ! a) = hd_session (pt_handlers ?t ! b)"
    have old_session: "hd_session (pt_handlers ?t ! x) < length (pt_objs t)"
      if "x < length (pt_handlers ?t)" "hd_pc (pt_handlers ?t ! x) \<notin> {Opening, Gone}" "x \<noteq> h" for x
      using owner_nth [OF inv, of x] that by (simp add: owner_ok_def)
    have new_session: "hd_session (pt_handlers ?t ! h) = length (pt_objs t)" if "hd_pc (pt_handlers ?t ! h) \<notin> {Opening, Gone}"
      using y h that by auto
    show "a = b"
    proof (cases "a = h \<or> b = h")
      case True
      then show ?thesis using old_session [of a] old_session [of b] new_session ab by (metis nat_less_le)
    next
      case False
      then show ?thesis using inv ab by (simp add: table_inv_def owners_ok_def)
    qed
  qed
  moreover have "all_owned ?t"
    unfolding all_owned_def
  proof (intro allI impI)
    fix i assume i: "i < length (pt_objs ?t)" "\<not> se_closed (pt_objs ?t ! i)"
    show "\<exists>x \<in> set (pt_handlers ?t). hd_session x = i \<and> hd_pc x \<notin> {Opening, Gone}"
    proof (cases "i < length (pt_objs t)")
      case True
      then have "\<exists>x \<in> set (pt_handlers t). hd_session x = i \<and> hd_pc x \<notin> {Opening, Gone}"
        using inv i(2) old [OF True] by (simp add: table_inv_def all_owned_def)
      then show ?thesis using bex_other [OF conjunct1 [OF h], of "\<lambda>x. hd_session x = i \<and> hd_pc x \<notin> {Opening, Gone}" y] h by auto
    next
      case False
      then show ?thesis using i(1) y h by (auto simp: bex_upd less_Suc_eq)
    qed
  qed
  moreover have "published_ok ?t tag i" if "(tag, i) \<in> set (pt_sessions t)" for tag i
  proof -
    have p: "published_ok t tag i" using that inv by (auto simp: table_inv_def)
    then have "\<exists>x \<in> set (pt_handlers t). hd_session x = i \<and> hd_tag x = tag \<and> in_place (hd_pc x)" by (simp add: published_ok_def)
    then have "\<exists>x \<in> set (pt_handlers ?t). hd_session x = i \<and> hd_tag x = tag \<and> in_place (hd_pc x)"
      using bex_other [OF conjunct1 [OF h], of "\<lambda>x. hd_session x = i \<and> hd_tag x = tag \<and> in_place (hd_pc x)" y] h by (auto simp: in_place_def)
    then show ?thesis using p old by (auto simp: published_ok_def pairing_of_def)
  qed
  ultimately show ?thesis using inv old by (auto simp: table_inv_def)
qed

lemma inv_openSession:
  assumes "table_inv t" and "at_pc t h Opening"
  shows "table_inv (openSession http h t)"
proof (cases http)
  case True
  let ?s = "\<lparr>se_shortID = hd_shortID (pt_handlers t ! h), se_seq = pt_seq t + 1, se_confirmed = False, se_closed = False\<rparr>"
  have "openSession http h t = t\<lparr>pt_seq := pt_seq t + 1, pt_objs := pt_objs t @ [?s],
      pt_handlers := (pt_handlers t)[h := (pt_handlers t ! h)\<lparr>hd_session := length (pt_objs t), hd_pc := Publishing\<rparr>]\<rparr>"
    using True assms(2) by (simp add: openSession_def Let_def setPc_def)
  then show ?thesis using inv_fresh [OF assms, of _ "pt_objs t @ [?s]" ?s] by simp
next
  case False
  have "openSession http h t = t\<lparr>pt_seq := pt_seq t, pt_objs := pt_objs t, pt_handlers := (pt_handlers t)[h := (pt_handlers t ! h)\<lparr>hd_pc := Gone\<rparr>]\<rparr>"
    using False by (simp add: openSession_def setPc_def)
  then show ?thesis using inv_fresh [OF assms, of "(pt_handlers t ! h)\<lparr>hd_pc := Gone\<rparr>" "pt_objs t" _ "pt_seq t"] by simp
qed

lemma setPc_sessions: "setPc h pc (t\<lparr>pt_sessions := ss\<rparr>) = (setPc h pc t)\<lparr>pt_sessions := ss\<rparr>"
  by (simp add: setPc_def)

lemma setPc_objs: "setPc h pc (t\<lparr>pt_objs := os\<rparr>) = (setPc h pc t)\<lparr>pt_objs := os\<rparr>"
  by (simp add: setPc_def)

lemma owner_move: "owner_ok t x \<Longrightarrow> hd_pc x \<notin> {Opening, Gone} \<Longrightarrow> pc \<notin> {Pinging} \<Longrightarrow> (\<And>c. pc = Replacing c \<Longrightarrow> c < length (pt_objs t))
    \<Longrightarrow> owner_ok t (x\<lparr>hd_pc := pc\<rparr>)"
  by (simp add: owner_ok_def)

text \<open>The session of a handler takes the place.\<close>

lemma inv_place:
  assumes inv: "table_inv t" and h: "at_pc t h Publishing"
    and pair: "pairing_of t (se_shortID (pt_objs t ! hd_session (pt_handlers t ! h))) = hd_tag (pt_handlers t ! h)"
    and pc: "in_place pc" "\<And>c. pc = Replacing c \<Longrightarrow> c < length (pt_objs t)"
  shows "table_inv (setPc h pc (t\<lparr>pt_sessions := gput (hd_tag (pt_handlers t ! h)) (hd_session (pt_handlers t ! h)) (pt_sessions t)\<rparr>))"
  unfolding setPc_sessions
proof (rule inv_sessions)
  let ?h = "pt_handlers t ! h"
  have own: "owner_ok t ?h" using owner_nth [OF inv] h by blast
  have pcs: "pc \<notin> {Pinging, Opening, Gone}" using pc(1) by (auto simp: in_place_def)
  show moved: "table_inv (setPc h pc t)"
  proof (rule inv_setPc [OF inv])
    show "owner_ok t (?h\<lparr>hd_pc := pc\<rparr>)" using owner_move [OF own] h pc(2) pcs by simp
  qed (use h pcs in \<open>auto simp: in_place_def\<close>)
  show "distinct (gkeys (gput (hd_tag ?h) (hd_session ?h) (pt_sessions t)))"
    using inv by (simp add: table_inv_def)
  fix tag i assume g: "gget (gput (hd_tag ?h) (hd_session ?h) (pt_sessions t)) tag = Some i"
  show "published_ok (setPc h pc t) tag i"
  proof (cases "tag = hd_tag ?h")
    case True
    then have i: "i = hd_session ?h" using g by simp
    have "?h\<lparr>hd_pc := pc\<rparr> \<in> set (pt_handlers (setPc h pc t))"
      using h by (simp add: setPc_def set_update_memI)
    then have "\<exists>x \<in> set (pt_handlers (setPc h pc t)). hd_session x = i \<and> hd_tag x = tag \<and> in_place (hd_pc x)"
      by (rule rev_bexI) (simp add: i True pc(1))
    moreover have "i < length (pt_objs t)" using own h i by (simp add: owner_ok_def)
    ultimately show ?thesis using pair i True by (simp add: published_ok_def)
  next
    case False
    then show ?thesis using publishedD [OF moved, of tag i] g by simp
  qed
qed

lemma inv_publish:
  assumes inv: "table_inv t" and h: "at_pc t h Publishing"
  shows "table_inv (publish h t)"
proof -
  let ?h = "pt_handlers t ! h"
  let ?s = "pt_objs t ! hd_session ?h"
  have own: "owner_ok t ?h" using owner_nth [OF inv] h by blast
  have leave: "table_inv (setPc h Returning t)"
    by (rule inv_setPc [OF inv]) (use h owner_move [OF own, of Returning] in \<open>auto simp: in_place_def\<close>)
  have wait: "table_inv (setPc h Pinging t)" if "\<not> se_confirmed ?s"
    by (rule inv_setPc [OF inv]) (use h own that in \<open>auto simp: in_place_def owner_ok_def\<close>)
  show ?thesis
  proof (cases "pairing_of t (se_shortID ?s) = hd_tag ?h")
    case False
    then show ?thesis using leave by (simp add: publish_def Let_def)
  next
    case True
    note place = inv_place [OF inv h True]
    show ?thesis
    proof (cases "gget (pt_sessions t) (hd_tag ?h)")
      case None
      then show ?thesis using place [of Holding] True by (simp add: publish_def Let_def in_place_def)
    next
      case (Some c)
      have "c < length (pt_objs t)" using publishedD [OF inv Some] by (simp add: published_ok_def)
      then have "table_inv (setPc h (Replacing c) (t\<lparr>pt_sessions := gput (hd_tag ?h) (hd_session ?h) (pt_sessions t)\<rparr>))"
        by (intro place) (simp_all add: in_place_def)
      then show ?thesis using leave wait Some True by (simp add: publish_def Let_def)
    qed
  qed
qed

lemma table_confirm:
  assumes inv: "table_inv t" and "\<And>x. x \<in> set (pt_handlers t) \<Longrightarrow> hd_session x = i \<Longrightarrow> hd_pc x \<noteq> Pinging"
  shows "table_inv (t\<lparr>pt_objs := (pt_objs t)[i := (pt_objs t ! i)\<lparr>se_confirmed := True\<rparr>]\<rparr>)"
proof -
  let ?t = "t\<lparr>pt_objs := (pt_objs t)[i := (pt_objs t ! i)\<lparr>se_confirmed := True\<rparr>]\<rparr>"
  have same: "se_shortID (pt_objs ?t ! j) = se_shortID (pt_objs t ! j)" "se_closed (pt_objs ?t ! j) = se_closed (pt_objs t ! j)"
    "j \<noteq> i \<Longrightarrow> pt_objs ?t ! j = pt_objs t ! j" for j
    by (cases "i < length (pt_objs t)"; cases "j = i"; simp add: list_update_beyond)+
  have "owner_ok ?t x" if "x \<in> set (pt_handlers t)" for x
  proof -
    have "owner_ok t x" using inv that by (simp add: table_inv_def)
    then show ?thesis
      using assms(2) [OF that] same(1) [of "hd_session x"] same(3) [of "hd_session x"]
      by (cases "hd_session x = i") (simp_all add: owner_ok_def)
  qed
  moreover have "published_ok ?t tag j = published_ok t tag j" for tag j
    by (rule published_cong) (use same in \<open>simp_all add: pairing_of_def [abs_def]\<close>)
  moreover have "all_owned ?t" using inv same(2) by (simp add: table_inv_def all_owned_def)
  ultimately show ?thesis using inv by (simp add: table_inv_def owners_ok_def)
qed

lemma sole_owner:
  assumes "table_inv t" "h < length (pt_handlers t)" "hd_pc (pt_handlers t ! h) \<notin> {Opening, Gone}"
    and "x \<in> set (pt_handlers t)" "hd_pc x \<notin> {Opening, Gone}" "hd_session x = hd_session (pt_handlers t ! h)"
  shows "x = pt_handlers t ! h"
  using assms unfolding in_set_conv_nth table_inv_def owners_ok_def by metis

lemma inv_ping:
  assumes inv: "table_inv t" and h: "at_pc t h Pinging"
  shows "table_inv (ping answered h t)"
proof -
  let ?h = "pt_handlers t ! h"
  have own: "owner_ok t ?h" using owner_nth [OF inv] h by blast
  have move: "table_inv (setPc h pc t)" if "pc \<in> {Publishing, Returning}" for pc
    by (rule inv_setPc [OF inv]) (use h own that in \<open>auto simp: in_place_def owner_ok_def\<close>)
  let ?t = "setPc h Publishing t"
  have at: "pt_handlers ?t ! h = ?h\<lparr>hd_pc := Publishing\<rparr>" using h by (simp add: setPc_def)
  have "table_inv (?t\<lparr>pt_objs := (pt_objs ?t)[hd_session ?h := (pt_objs ?t ! hd_session ?h)\<lparr>se_confirmed := True\<rparr>]\<rparr>)"
  proof (rule table_confirm)
    show inv': "table_inv ?t" by (rule move) simp
    fix x assume "x \<in> set (pt_handlers ?t)" "hd_session x = hd_session ?h"
    then show "hd_pc x \<noteq> Pinging" using sole_owner [OF inv', of h x] h at by auto
  qed
  then show ?thesis using move [of Returning] by (simp add: ping_def Let_def setPc_objs)
qed

lemma inv_closeReplaced:
  assumes inv: "table_inv t" and h: "at_pc t h (Replacing c)"
  shows "table_inv (closeReplaced c h t)"
  unfolding closeReplaced_def
  using owner_nth [OF inv_closeSession [OF inv], of h c] h
  by (intro inv_setPc inv_closeSession [OF inv]) (auto simp: in_place_def owner_ok_def)

lemma inv_ends: "table_inv t \<Longrightarrow> at_pc t h Holding \<Longrightarrow> table_inv (setPc h Withdrawing t)"
  using owner_nth [of t h] by (intro inv_setPc) (auto simp: in_place_def owner_ok_def)

lemma inv_withdraw:
  assumes inv: "table_inv t" and h: "at_pc t h Withdrawing"
  shows "table_inv (withdraw h t)"
proof -
  let ?h = "pt_handlers t ! h"
  have move: "table_inv (setPc h Returning u)"
    if "table_inv u" "pt_handlers u = pt_handlers t" "gget (pt_sessions u) (hd_tag ?h) \<noteq> Some (hd_session ?h)" for u
    using owner_nth [OF that(1), of h] h that by (intro inv_setPc) (auto simp: owner_ok_def)
  have "table_inv (t\<lparr>pt_sessions := gdel (hd_tag ?h) (pt_sessions t)\<rparr>)"
  proof (rule inv_sessions [OF inv])
    show "distinct (gkeys (gdel (hd_tag ?h) (pt_sessions t)))" using inv by (simp add: table_inv_def)
  qed (use publishedD [OF inv] in \<open>simp split: if_splits\<close>)
  then show ?thesis using move [of t] move [of "t\<lparr>pt_sessions := gdel (hd_tag ?h) (pt_sessions t)\<rparr>"] inv
    by (simp add: withdraw_def Let_def)
qed

lemma inv_handlerReturn:
  assumes inv: "table_inv t" and h: "at_pc t h Returning"
  shows "table_inv (handlerReturn h t)"
proof -
  let ?i = "hd_session (pt_handlers t ! h)"
  have "?i < length (pt_objs t)" using owner_nth [OF inv, of h] h by (simp add: owner_ok_def)
  then have "se_closed (pt_objs (closeSession ?i t) ! ?i)" by (simp add: closeSession_def)
  then show ?thesis unfolding handlerReturn_def
    using h by (intro inv_setPc inv_closeSession [OF inv]) (auto simp: in_place_def owner_ok_def)
qed

lemmas table_inv_ops = inv_setPairings inv_closeStale inv_handleSession inv_openSession inv_publish inv_ping inv_closeReplaced
  inv_ends inv_withdraw inv_handlerReturn

lemma table_preserved: "session_table_step t t' \<Longrightarrow> table_inv t \<Longrightarrow> table_inv t'"
  by (induction rule: session_table_step.induct) (blast intro: table_inv_ops)+

end
