(* ===== verification/Portal_Config.thy ===== *)
theory Portal_Config
  imports Portal_Sessions
begin

text \<open>
  How the samizdat portal is configured and which identity takes a connection (\<open>protocol/samizdatreverse/portal.go\<close>, \<open>demux.go\<close>):
  \<open>Configure\<close>, \<open>Rebind\<close>, \<open>Close\<close> and the expiry of the previous identity, which exclude each other by \<open>p.mu\<close>, and
  the accept path, which reads the published routes and admits a connection to an identity without it. Identities and connections are objects,
  referred to by their index.

  samizdat's server, the TLS key pair check and X25519 are arguments, gathered in \<open>samizdat\<close>; a bind is its result.
\<close>

section \<open>State\<close>

record PreviousIdentity =
  pi_PrivateKey :: bytes
  pi_CertPEM :: bytes
  pi_KeyPEM :: bytes
  pi_Until :: time

record PortalConfig =
  pc_ListenPort :: u16
  pc_PrivateKey :: bytes
  pc_CertPEM :: bytes
  pc_KeyPEM :: bytes
  pc_Pairings :: "(shortID, tag) gomap"
  pc_Previous :: "PreviousIdentity option"

definition noConfig :: PortalConfig where
  "noConfig = \<lparr>pc_ListenPort = 0, pc_PrivateKey = [], pc_CertPEM = [], pc_KeyPEM = [], pc_Pairings = [], pc_Previous = None\<rparr>"

text \<open>\<open>id_closing\<close>: the goroutine that \<open>release\<close> starts to close the identity is on its way. The short IDs are those its server accepts.\<close>

record identity =
  id_privateKey :: bytes
  id_certPEM :: bytes
  id_keyPEM :: bytes
  id_publicKey :: bytes
  id_shortIDs :: "shortID list"
  id_live :: int
  id_retired :: bool
  id_closed :: bool
  id_closing :: bool

record routes =
  rt_cur :: nat
  rt_prev :: "nat option"
  rt_prevUntil :: time

text \<open>A connection: its ClientHello is being read; an identity has been picked from the routes; that identity has admitted it and is yet to be
  handed it; it has been handed over; it is being masqueraded; or it is closed.\<close>

datatype connPhase = ReadingHello | Picked nat | Admitted nat | Delivered nat | Masqueraded | Dropped

datatype admittedState = admittedPending | admittedSession | admittedTimedOut

record portalConn =
  cn_phase :: connPhase
  cn_state :: admittedState

record portal =
  po_closed :: bool
  po_cfg :: PortalConfig
  po_port :: u16
  po_cur :: "nat option"
  po_prev :: "nat option"
  po_prevUntil :: time
  po_prevTimer :: "nat option"
  po_retired :: "nat list"
  po_ln :: bool
  po_serving :: bool
  po_rebindTimer :: bool
  po_routes :: "routes option"
  po_conns :: "portalConn list"
  po_ids :: "identity list"
  po_table :: sessionTable

definition NewPortal :: portal where
  "NewPortal = \<lparr>po_closed = False, po_cfg = noConfig, po_port = 0, po_cur = None, po_prev = None, po_prevUntil = 0, po_prevTimer = None,
     po_retired = [], po_ln = False, po_serving = False, po_rebindTimer = False, po_routes = None, po_conns = [], po_ids = [],
     po_table = newTable\<rparr>"

record samizdat =
  sz_keyPair :: "bytes \<Rightarrow> bytes \<Rightarrow> bool"
  sz_public :: "bytes \<Rightarrow> bytes"
  sz_newServer :: "bytes \<Rightarrow> bytes \<Rightarrow> bytes \<Rightarrow> shortID list \<Rightarrow> bool"
  sz_setShortIDs :: "shortID list \<Rightarrow> bool"
  sz_sessionID :: "bytes \<Rightarrow> bytes option"
  sz_verify :: "bytes \<Rightarrow> bytes \<Rightarrow> shortID list \<Rightarrow> bool"

datatype portalError = ErrClosed | ErrKeyLength string | ErrCertificate string | ErrSameKey | ErrIdentity | ErrPreviousIdentity
  | ErrShortIDs | ErrListen | ErrStop

abbreviation opt_list :: "'a option \<Rightarrow> 'a list" where
  "opt_list x \<equiv> (case x of None \<Rightarrow> [] | Some a \<Rightarrow> [a])"

definition updIdentity :: "nat \<Rightarrow> (identity \<Rightarrow> identity) \<Rightarrow> portal \<Rightarrow> portal" where
  "updIdentity i f p = p\<lparr>po_ids := (po_ids p)[i := f (po_ids p ! i)]\<rparr>"

definition updPortalConn :: "nat \<Rightarrow> (portalConn \<Rightarrow> portalConn) \<Rightarrow> portal \<Rightarrow> portal" where
  "updPortalConn c f p = p\<lparr>po_conns := (po_conns p)[c := f (po_conns p ! c)]\<rparr>"

definition setPhase :: "nat \<Rightarrow> connPhase \<Rightarrow> portal \<Rightarrow> portal" where
  "setPhase c ph p = updPortalConn c (\<lambda>x. x\<lparr>cn_phase := ph\<rparr>) p"

section \<open>Identities\<close>

definition newIdentity :: "samizdat \<Rightarrow> bytes \<Rightarrow> bytes \<Rightarrow> bytes \<Rightarrow> shortID list \<Rightarrow> portal \<Rightarrow> (nat \<times> portal) option" where
  "newIdentity z privateKey certPEM keyPEM ids p =
     (if length privateKey \<noteq> 32 \<or> \<not> sz_newServer z privateKey certPEM keyPEM ids then None
      else Some (length (po_ids p), p\<lparr>po_ids := po_ids p @ [\<lparr>id_privateKey = privateKey, id_certPEM = certPEM, id_keyPEM = keyPEM,
        id_publicKey = sz_public z privateKey, id_shortIDs = ids, id_live = 0, id_retired = False, id_closed = False, id_closing = False\<rparr>]\<rparr>))"

definition is_identity :: "bytes \<Rightarrow> bytes \<Rightarrow> bytes \<Rightarrow> identity \<Rightarrow> bool" where
  "is_identity privateKey certPEM keyPEM d \<longleftrightarrow> id_privateKey d = privateKey \<and> id_certPEM d = certPEM \<and> id_keyPEM d = keyPEM"

definition authenticates :: "samizdat \<Rightarrow> identity \<Rightarrow> bytes \<Rightarrow> bool" where
  "authenticates z d sessionID = sz_verify z sessionID (id_publicKey d) (id_shortIDs d)"

definition closeIdentity :: "nat \<Rightarrow> portal \<Rightarrow> portal" where
  "closeIdentity i p = updIdentity i (\<lambda>d. d\<lparr>id_closed := True\<rparr>) p"

definition closeIdentities :: "nat list \<Rightarrow> portal \<Rightarrow> portal" where
  "closeIdentities is p = fold closeIdentity is p"

definition id_release :: "nat \<Rightarrow> portal \<Rightarrow> portal" where
  "id_release i p =
     (let p = updIdentity i (\<lambda>d. d\<lparr>id_live := id_live d - 1\<rparr>) p; d = po_ids p ! i in
      if id_retired d \<and> id_live d = 0 then updIdentity i (\<lambda>d. d\<lparr>id_closing := True\<rparr>) p else p)"

definition retireLocked :: "nat \<Rightarrow> portal \<Rightarrow> portal" where
  "retireLocked i p =
     (let p = p\<lparr>po_retired := filter (\<lambda>j. \<not> id_closed (po_ids p ! j)) (po_retired p)\<rparr>;
          p = updIdentity i (\<lambda>d. d\<lparr>id_retired := True\<rparr>) p in
      if id_live (po_ids p ! i) = 0 then closeIdentity i p else p\<lparr>po_retired := po_retired p @ [i]\<rparr>)"

section \<open>The accept path\<close>

definition pick :: "samizdat \<Rightarrow> identity list \<Rightarrow> routes \<Rightarrow> bytes \<Rightarrow> time \<Rightarrow> nat option" where
  "pick z ids r hello now =
     (case sz_sessionID z hello of
        None \<Rightarrow> None
      | Some sessionID \<Rightarrow>
          if authenticates z (ids ! rt_cur r) sessionID then Some (rt_cur r)
          else case rt_prev r of
            None \<Rightarrow> None
          | Some i \<Rightarrow> if now < rt_prevUntil r \<and> authenticates z (ids ! i) sessionID then Some i else None)"

definition accept_conn :: "portal \<Rightarrow> portal" where
  "accept_conn p = p\<lparr>po_conns := po_conns p @ [\<lparr>cn_phase = ReadingHello, cn_state = admittedPending\<rparr>]\<rparr>"

text \<open>\<open>route\<close> up to the choice of an identity; no record when reading it failed.\<close>

definition route_pick :: "samizdat \<Rightarrow> time \<Rightarrow> bytes option \<Rightarrow> nat \<Rightarrow> portal \<Rightarrow> portal" where
  "route_pick z now record c p =
     (case record of
        None \<Rightarrow> setPhase c Dropped p
      | Some rec \<Rightarrow>
          (case po_routes p of
             None \<Rightarrow> setPhase c Dropped p
           | Some r \<Rightarrow>
               (case pick z (po_ids p) r (drop 5 rec) now of
                  None \<Rightarrow> setPhase c Masqueraded p
                | Some i \<Rightarrow> setPhase c (Picked i) p)))"

definition admit :: "nat \<Rightarrow> nat \<Rightarrow> portal \<Rightarrow> portal" where
  "admit c i p =
     (if id_retired (po_ids p ! i) then setPhase c Dropped p
      else setPhase c (Admitted i) (updIdentity i (\<lambda>d. d\<lparr>id_live := id_live d + 1\<rparr>) p))"

text \<open>\<open>Close\<close> of an admitted connection; the first one releases the identity's count.\<close>

definition ac_Close :: "nat \<Rightarrow> nat \<Rightarrow> portal \<Rightarrow> portal" where
  "ac_Close c i p = id_release i (setPhase c Dropped p)"

definition deliver :: "nat \<Rightarrow> nat \<Rightarrow> portal \<Rightarrow> portal" where
  "deliver c i p = (if id_closed (po_ids p ! i) then ac_Close c i p else setPhase c (Delivered i) p)"

text \<open>\<open>stopRoutingLocked\<close> closes the connections that wait for their ClientHello or are masqueraded and waits for every \<open>route\<close> to return: one
  that has picked an identity goes on to its end.\<close>

definition finishRoute :: "nat \<Rightarrow> portal \<Rightarrow> portal" where
  "finishRoute c p =
     (let fin = (\<lambda>p. case cn_phase (po_conns p ! c) of Admitted i \<Rightarrow> deliver c i p | _ \<Rightarrow> p) in
      case cn_phase (po_conns p ! c) of
        ReadingHello \<Rightarrow> setPhase c Dropped p
      | Masqueraded \<Rightarrow> setPhase c Dropped p
      | Picked i \<Rightarrow> fin (admit c i p)
      | _ \<Rightarrow> fin p)"

definition stopRoutingLocked :: "portal \<Rightarrow> portal" where
  "stopRoutingLocked p = fold finishRoute [0..<length (po_conns p)] p"

text \<open>The handshake timeout, and the session handler that disarms it and looks its tag up.\<close>

definition conn_timeout :: "nat \<Rightarrow> portal \<Rightarrow> portal" where
  "conn_timeout c p =
     (if cn_state (po_conns p ! c) = admittedPending then updPortalConn c (\<lambda>x. x\<lparr>cn_state := admittedTimedOut\<rparr>) p else p)"

definition startSession :: "nat \<Rightarrow> shortID \<Rightarrow> portal \<Rightarrow> portal" where
  "startSession c sid p =
     (let started = cn_state (po_conns p ! c) = admittedPending;
          p = (if started then updPortalConn c (\<lambda>x. x\<lparr>cn_state := admittedSession\<rparr>) p else p) in
      p\<lparr>po_table := handleSession started sid (po_table p)\<rparr>)"

section \<open>Configuration\<close>

definition po_setPairings :: "(shortID, tag) gomap \<Rightarrow> portal \<Rightarrow> portal" where
  "po_setPairings ps p = p\<lparr>po_table := setPairings ps (po_table p)\<rparr>"

definition checkIdentity :: "samizdat \<Rightarrow> string \<Rightarrow> bytes \<Rightarrow> bytes \<Rightarrow> bytes \<Rightarrow> portalError option" where
  "checkIdentity z which privateKey certPEM keyPEM =
     (if length privateKey \<noteq> 32 then Some (ErrKeyLength which)
      else if \<not> sz_keyPair z certPEM keyPEM then Some (ErrCertificate which)
      else None)"

text \<open>\<open>x25519Public\<close>: nothing for a key of the wrong length.\<close>

definition x25519Public :: "samizdat \<Rightarrow> bytes \<Rightarrow> bytes" where
  "x25519Public z privateKey = (if length privateKey = 32 then sz_public z privateKey else [])"

definition checkConfig :: "samizdat \<Rightarrow> PortalConfig \<Rightarrow> portalError option" where
  "checkConfig z cfg =
     (case checkIdentity z '''' (pc_PrivateKey cfg) (pc_CertPEM cfg) (pc_KeyPEM cfg) of
        Some err \<Rightarrow> Some err
      | None \<Rightarrow>
          (case pc_Previous cfg of
             None \<Rightarrow> None
           | Some prev \<Rightarrow>
               (case checkIdentity z ''previous '' (pi_PrivateKey prev) (pi_CertPEM prev) (pi_KeyPEM prev) of
                  Some err \<Rightarrow> Some err
                | None \<Rightarrow> if x25519Public z (pi_PrivateKey prev) = x25519Public z (pc_PrivateKey cfg) then Some ErrSameKey else None)))"

definition setPrevLocked :: "nat option \<Rightarrow> time \<Rightarrow> portal \<Rightarrow> portal" where
  "setPrevLocked i untl p =
     (let p = p\<lparr>po_prev := i, po_prevUntil := (if i = None then 0 else untl), po_prevTimer := i\<rparr> in
      p\<lparr>po_routes := Some \<lparr>rt_cur = the (po_cur p), rt_prev = po_prev p, rt_prevUntil = po_prevUntil p\<rparr>\<rparr>)"

definition expire :: "time \<Rightarrow> nat \<Rightarrow> portal \<Rightarrow> portal" where
  "expire now i p =
     (if po_closed p \<or> po_prev p \<noteq> Some i \<or> now < po_prevUntil p then p
      else retireLocked i (setPrevLocked None 0 p))"

definition stopLocked :: "bool \<Rightarrow> portal \<Rightarrow> portalError list \<times> portal" where
  "stopLocked lnErr p =
     (if po_cur p = None then ([], p)
      else
        let p = stopRoutingLocked (p\<lparr>po_serving := False\<rparr>);
            p = p\<lparr>po_prevTimer := None, po_routes := None\<rparr>;
            p = closeIdentities (opt_list (po_cur p) @ opt_list (po_prev p) @ po_retired p) p in
        (if lnErr then [ErrStop] else [],
         p\<lparr>po_cur := None, po_prev := None, po_prevUntil := 0, po_retired := [], po_ln := False\<rparr>))"

definition startServe :: "u16 \<Rightarrow> portal \<Rightarrow> portal" where
  "startServe port p = p\<lparr>po_ln := True, po_port := port, po_serving := True\<rparr>"

text \<open>\<open>find\<close> of \<open>reidentifyLocked\<close>: an identity that is held, or a new one, which is added to those made.\<close>

definition findIdentity ::
  "samizdat \<Rightarrow> nat list \<Rightarrow> bytes \<Rightarrow> bytes \<Rightarrow> bytes \<Rightarrow> shortID list \<Rightarrow> nat list \<times> portal \<Rightarrow> (nat \<times> nat list \<times> portal) option" where
  "findIdentity z held privateKey certPEM keyPEM ids m =
     (case find (\<lambda>i. is_identity privateKey certPEM keyPEM (po_ids (snd m) ! i)) held of
        Some i \<Rightarrow> Some (i, m)
      | None \<Rightarrow>
          (case newIdentity z privateKey certPEM keyPEM ids (snd m) of
             None \<Rightarrow> None
           | Some (i, p) \<Rightarrow> Some (i, fst m @ [i], p)))"

definition setShortIDs :: "shortID list \<Rightarrow> nat \<Rightarrow> portal \<Rightarrow> portal" where
  "setShortIDs ids i p = updIdentity i (\<lambda>d. d\<lparr>id_shortIDs := ids\<rparr>) p"

definition moveTo :: "samizdat \<Rightarrow> PortalConfig \<Rightarrow> shortID list \<Rightarrow> nat list \<Rightarrow> nat list \<Rightarrow> nat \<Rightarrow> nat option \<Rightarrow> portal \<Rightarrow> portalError list \<times> portal" where
  "moveTo z cfg ids held made cur prev p =
     (let p = po_setPairings (pc_Pairings cfg) p;
          p = p\<lparr>po_cur := Some cur\<rparr>;
          p = setPrevLocked prev (case pc_Previous cfg of None \<Rightarrow> 0 | Some v \<Rightarrow> pi_Until v) p;
          p = fold (\<lambda>i p. if i \<noteq> cur \<and> Some i \<noteq> prev then retireLocked i p else p) held p;
          old = filter (\<lambda>i. i \<notin> set made) (cur # opt_list prev @ po_retired p) in
      if old \<noteq> [] \<and> \<not> sz_setShortIDs z ids then ([ErrShortIDs], p)
      else ([], (fold (setShortIDs ids) old p)\<lparr>po_cfg := cfg\<rparr>))"

definition reidentifyLocked :: "samizdat \<Rightarrow> PortalConfig \<Rightarrow> shortID list \<Rightarrow> portal \<Rightarrow> portalError list \<times> portal" where
  "reidentifyLocked z cfg ids p =
     (let held = opt_list (po_cur p) @ opt_list (po_prev p) in
      case findIdentity z held (pc_PrivateKey cfg) (pc_CertPEM cfg) (pc_KeyPEM cfg) ids ([], p) of
        None \<Rightarrow> ([ErrIdentity], p)
      | Some (cur, made, p) \<Rightarrow>
          (case pc_Previous cfg of
             None \<Rightarrow> moveTo z cfg ids held made cur None p
           | Some v \<Rightarrow>
               (case findIdentity z held (pi_PrivateKey v) (pi_CertPEM v) (pi_KeyPEM v) ids (made, p) of
                  None \<Rightarrow> ([ErrPreviousIdentity], closeIdentities made p)
                | Some (prev, made, p) \<Rightarrow> moveTo z cfg ids held made cur (Some prev) p)))"

text \<open>The last part of \<open>configureLocked\<close>: bind and serve with the identities made.\<close>

definition bindAndServe ::
  "(u16 \<Rightarrow> u16 option) \<Rightarrow> bool \<Rightarrow> PortalConfig \<Rightarrow> bool \<Rightarrow> u16 \<Rightarrow> nat \<Rightarrow> nat option \<Rightarrow> portal \<Rightarrow> portalError list \<times> portal" where
  "bindAndServe bind lnErr cfg running bindPort cur prev p =
     (let stop = (\<lambda>p. stopLocked lnErr (po_setPairings [] p));
          (stopErr, p) = (if po_cur p \<noteq> None \<and> \<not> running then stop p else ([], p)) in
      case bind bindPort of
        None \<Rightarrow>
          (let p = closeIdentities (cur # opt_list prev) p in
           (stopErr @ [ErrListen], if running then p else p\<lparr>po_cfg := cfg\<rparr>))
      | Some port \<Rightarrow>
          (let (stopErr, p) = (if running then stop p else (stopErr, p));
               p = po_setPairings (pc_Pairings cfg) p;
               p = p\<lparr>po_cfg := cfg, po_cur := Some cur\<rparr>;
               p = setPrevLocked prev (case pc_Previous cfg of None \<Rightarrow> 0 | Some v \<Rightarrow> pi_Until v) p in
           (stopErr, startServe port p)))"

text \<open>The two parts of \<open>configureLocked\<close> before it: a previous identity whose time is up is left out, and new identities are made.\<close>

definition dropExpired :: "time \<Rightarrow> PortalConfig \<Rightarrow> PortalConfig" where
  "dropExpired now cfg = cfg\<lparr>pc_Previous := (case pc_Previous cfg of None \<Rightarrow> None | Some v \<Rightarrow> if now < pi_Until v then Some v else None)\<rparr>"

definition startAnew ::
  "samizdat \<Rightarrow> (u16 \<Rightarrow> u16 option) \<Rightarrow> bool \<Rightarrow> PortalConfig \<Rightarrow> bool \<Rightarrow> u16 \<Rightarrow> shortID list \<Rightarrow> portal \<Rightarrow> portalError list \<times> portal" where
  "startAnew z bind lnErr cfg running bindPort ids p =
     (case newIdentity z (pc_PrivateKey cfg) (pc_CertPEM cfg) (pc_KeyPEM cfg) ids p of
        None \<Rightarrow> ([ErrIdentity], p)
      | Some (cur, p) \<Rightarrow>
          (case pc_Previous cfg of
             None \<Rightarrow> bindAndServe bind lnErr cfg running bindPort cur None p
           | Some v \<Rightarrow>
               (case newIdentity z (pi_PrivateKey v) (pi_CertPEM v) (pi_KeyPEM v) ids p of
                  None \<Rightarrow> ([ErrPreviousIdentity], closeIdentities [cur] p)
                | Some (prev, p) \<Rightarrow> bindAndServe bind lnErr cfg running bindPort cur (Some prev) p)))"

definition configureLocked ::
  "samizdat \<Rightarrow> time \<Rightarrow> (u16 \<Rightarrow> u16 option) \<Rightarrow> bool \<Rightarrow> PortalConfig \<Rightarrow> portal \<Rightarrow> portalError list \<times> portal" where
  "configureLocked z now bind lnErr cfg p =
     (if po_closed p then ([ErrClosed], p)
      else if pc_Pairings cfg = [] then
        (let (err, p) = stopLocked lnErr (po_setPairings [] p) in (err, p\<lparr>po_cfg := noConfig, po_port := 0\<rparr>))
      else
        let cfg = dropExpired now cfg in
        case checkConfig z cfg of
          Some err \<Rightarrow> ([err], p)
        | None \<Rightarrow>
            (let ids = gkeys (pc_Pairings cfg);
                 bindPort = (if pc_ListenPort cfg = 0 then po_port p else pc_ListenPort cfg);
                 running = (po_cur p \<noteq> None \<and> po_serving p) in
             if running \<and> bindPort = po_port p then reidentifyLocked z cfg ids p
             else startAnew z bind lnErr cfg running bindPort ids p))"

definition rebindLocked :: "samizdat \<Rightarrow> time \<Rightarrow> (u16 \<Rightarrow> u16 option) \<Rightarrow> bool \<Rightarrow> portal \<Rightarrow> portalError list \<times> portal" where
  "rebindLocked z now bind lnErr p =
     (if po_closed p \<or> pc_Pairings (po_cfg p) = [] then ([], p)
      else if po_cur p = None \<or> \<not> po_serving p then configureLocked z now bind lnErr (po_cfg p) p
      else
        let p = p\<lparr>po_serving := False\<rparr> in
        case bind (po_port p) of
          None \<Rightarrow> (let (stopErr, p) = stopLocked False (po_setPairings [] p) in (ErrListen # stopErr, p))
        | Some port \<Rightarrow> ([], startServe port p))"

definition portal_Close :: "bool \<Rightarrow> portal \<Rightarrow> portalError list \<times> portal" where
  "portal_Close lnErr p =
     (let p = p\<lparr>po_rebindTimer := False, po_closed := True\<rparr>;
          (err, p) = stopLocked lnErr (po_setPairings [] p) in
      (err, p\<lparr>po_cfg := noConfig, po_port := 0\<rparr>))"

definition portal_InterfaceUpdated :: "portal \<Rightarrow> portal" where
  "portal_InterfaceUpdated p = p\<lparr>po_rebindTimer := True\<rparr>"

definition rebindAfterUpdate :: "samizdat \<Rightarrow> time \<Rightarrow> (u16 \<Rightarrow> u16 option) \<Rightarrow> bool \<Rightarrow> portal \<Rightarrow> portal" where
  "rebindAfterUpdate z now bind lnErr p = snd (rebindLocked z now bind lnErr (p\<lparr>po_rebindTimer := False\<rparr>))"

section \<open>Steps\<close>

abbreviation in_phase :: "portal \<Rightarrow> nat \<Rightarrow> connPhase \<Rightarrow> bool" where
  "in_phase p c ph \<equiv> c < length (po_conns p) \<and> cn_phase (po_conns p ! c) = ph"

text \<open>A timer that has fired runs even when it is stopped afterwards, so \<open>expire\<close> may come for any identity. The sessions move on their own; only
  a configuration changes the pairings. An accept loop may fail.\<close>

inductive portal_step :: "samizdat \<Rightarrow> portal \<Rightarrow> portal \<Rightarrow> bool" for z :: samizdat where
  configures: "distinct (gkeys (pc_Pairings cfg)) \<Longrightarrow> portal_step z p (snd (configureLocked z now bind lnErr cfg p))"
| rebinds: "portal_step z p (snd (rebindLocked z now bind lnErr p))"
| updated: "portal_step z p (portal_InterfaceUpdated p)"
| rebinds_later: "po_rebindTimer p \<Longrightarrow> portal_step z p (rebindAfterUpdate z now bind lnErr p)"
| closes: "portal_step z p (snd (portal_Close lnErr p))"
| expires: "i < length (po_ids p) \<Longrightarrow> portal_step z p (expire now i p)"
| identity_closes: "i < length (po_ids p) \<Longrightarrow> id_closing (po_ids p ! i) \<Longrightarrow> portal_step z p (closeIdentity i p)"
| accept_fails: "portal_step z p (p\<lparr>po_serving := False\<rparr>)"
| accepts: "po_serving p \<Longrightarrow> portal_step z p (accept_conn p)"
| picks: "in_phase p c ReadingHello \<Longrightarrow> portal_step z p (route_pick z now record c p)"
| admits: "in_phase p c (Picked i) \<Longrightarrow> portal_step z p (admit c i p)"
| delivers: "in_phase p c (Admitted i) \<Longrightarrow> portal_step z p (deliver c i p)"
| masqueraded: "in_phase p c Masqueraded \<Longrightarrow> portal_step z p (setPhase c Dropped p)"
| times_out: "c < length (po_conns p) \<Longrightarrow> portal_step z p (conn_timeout c p)"
| starts: "in_phase p c (Delivered i) \<Longrightarrow> portal_step z p (startSession c sid p)"
| conn_closes: "in_phase p c (Delivered i) \<Longrightarrow> portal_step z p (ac_Close c i p)"
| session_moves: "session_table_step (po_table p) t \<Longrightarrow> pt_pairings t = pt_pairings (po_table p) \<Longrightarrow> portal_step z p (p\<lparr>po_table := t\<rparr>)"

definition portal_init :: "portal \<Rightarrow> bool" where
  "portal_init p \<longleftrightarrow> p = NewPortal"

end
