(* ===== verification/Portal_Identities.thy ===== *)
theory Portal_Identities
  imports Portal_Config
begin

text \<open>
  The invariant of the portal's identities and connections: an identity's count is the number of its open connections, an identity that is not
  closed is the current, the previous or a retired one, a retired one without connections is closing, and the routes, the listener and the
  pairings agree with the configuration.
\<close>

section \<open>Connections\<close>

definition on_id :: "nat \<Rightarrow> connPhase \<Rightarrow> bool" where
  "on_id i ph \<longleftrightarrow> ph = Admitted i \<or> ph = Delivered i"

definition refers :: "nat \<Rightarrow> connPhase \<Rightarrow> bool" where
  "refers i ph \<longleftrightarrow> ph = Picked i \<or> on_id i ph"

definition conns_on :: "portal \<Rightarrow> nat \<Rightarrow> int" where
  "conns_on p i = int (length (filter (\<lambda>x. on_id i (cn_phase x)) (po_conns p)))"

definition live_at :: "identity \<Rightarrow> int \<Rightarrow> bool" where
  "live_at d n \<longleftrightarrow> id_live d = n \<and> (id_retired d \<and> n = 0 \<longrightarrow> id_closed d \<or> id_closing d) \<and> (id_closing d \<longrightarrow> id_retired d \<and> n = 0)"

definition refs_ok :: "portal \<Rightarrow> bool" where
  "refs_ok p \<longleftrightarrow> (\<forall>x \<in> set (po_conns p). \<forall>i. refers i (cn_phase x) \<longrightarrow> i < length (po_ids p))"

definition live_ok :: "portal \<Rightarrow> bool" where
  "live_ok p \<longleftrightarrow> refs_ok p \<and> (\<forall>i < length (po_ids p). live_at (po_ids p ! i) (conns_on p i))"

lemma updIdentity_fields [simp]:
  "po_closed (updIdentity i f p) = po_closed p" "po_cfg (updIdentity i f p) = po_cfg p" "po_port (updIdentity i f p) = po_port p"
  "po_cur (updIdentity i f p) = po_cur p" "po_prev (updIdentity i f p) = po_prev p" "po_prevUntil (updIdentity i f p) = po_prevUntil p"
  "po_prevTimer (updIdentity i f p) = po_prevTimer p" "po_retired (updIdentity i f p) = po_retired p" "po_ln (updIdentity i f p) = po_ln p"
  "po_serving (updIdentity i f p) = po_serving p" "po_routes (updIdentity i f p) = po_routes p" "po_conns (updIdentity i f p) = po_conns p"
  "po_table (updIdentity i f p) = po_table p" "length (po_ids (updIdentity i f p)) = length (po_ids p)"
  "conns_on (updIdentity i f p) = conns_on p" "refs_ok (updIdentity i f p) = refs_ok p"
  by (simp_all add: updIdentity_def conns_on_def [abs_def] refs_ok_def)

lemma updIdentity_nth: "j < length (po_ids p) \<Longrightarrow> po_ids (updIdentity i f p) ! j = (if i = j then f (po_ids p ! j) else po_ids p ! j)"
  by (simp add: updIdentity_def nth_list_update)

lemma setPhase_fields [simp]:
  "po_closed (setPhase c ph p) = po_closed p" "po_cfg (setPhase c ph p) = po_cfg p" "po_port (setPhase c ph p) = po_port p"
  "po_cur (setPhase c ph p) = po_cur p" "po_prev (setPhase c ph p) = po_prev p" "po_prevUntil (setPhase c ph p) = po_prevUntil p"
  "po_prevTimer (setPhase c ph p) = po_prevTimer p" "po_retired (setPhase c ph p) = po_retired p" "po_ln (setPhase c ph p) = po_ln p"
  "po_serving (setPhase c ph p) = po_serving p" "po_routes (setPhase c ph p) = po_routes p" "po_ids (setPhase c ph p) = po_ids p"
  "po_table (setPhase c ph p) = po_table p" "length (po_conns (setPhase c ph p)) = length (po_conns p)"
  by (simp_all add: setPhase_def updPortalConn_def)

lemma setPhase_phase: "c < length (po_conns p) \<Longrightarrow> cn_phase (po_conns (setPhase c ph p) ! c) = ph"
  by (simp add: setPhase_def updPortalConn_def)

lemma conns_setPhase:
  assumes "c < length (po_conns p)"
  shows "conns_on (setPhase c ph p) i = conns_on p i - bit1 (on_id i (cn_phase (po_conns p ! c))) + bit1 (on_id i ph)"
  using filter_upd [OF assms, of "\<lambda>x. on_id i (cn_phase x)" "(po_conns p ! c)\<lparr>cn_phase := ph\<rparr>"]
  by (simp add: conns_on_def setPhase_def updPortalConn_def)

lemma refs_setPhase:
  assumes "refs_ok p" "\<And>i. refers i ph \<Longrightarrow> i < length (po_ids p)"
  shows "refs_ok (setPhase c ph p)"
  using ball_upd [of "po_conns p" "\<lambda>x. \<forall>i. refers i (cn_phase x) \<longrightarrow> i < length (po_ids p)" "(po_conns p ! c)\<lparr>cn_phase := ph\<rparr>" c] assms
  by (simp add: refs_ok_def setPhase_def updPortalConn_def)

lemma refs_nth: "refs_ok p \<Longrightarrow> c < length (po_conns p) \<Longrightarrow> refers i (cn_phase (po_conns p ! c)) \<Longrightarrow> i < length (po_ids p)"
  unfolding refs_ok_def by (meson nth_mem)

lemma live_setPhase:
  assumes "live_ok p" "c < length (po_conns p)" "\<And>i. on_id i ph = on_id i (cn_phase (po_conns p ! c))" "\<And>i. refers i ph \<Longrightarrow> i < length (po_ids p)"
  shows "live_ok (setPhase c ph p)"
  using assms refs_setPhase [of p ph c] by (simp add: live_ok_def conns_setPhase)

lemma live_admit:
  assumes live: "live_ok p" and c: "in_phase p c (Picked i)"
  shows "live_ok (admit c i p)"
proof (cases "id_retired (po_ids p ! i)")
  case True
  then show ?thesis using live_setPhase [OF live, of c Dropped] c by (simp add: admit_def on_id_def refers_def)
next
  case False
  have i: "i < length (po_ids p)" using refs_nth [of p c i] live c by (simp add: live_ok_def refers_def)
  let ?u = "updIdentity i (\<lambda>d. d\<lparr>id_live := id_live d + 1\<rparr>) p"
  have "live_at (po_ids ?u ! j) (conns_on (setPhase c (Admitted i) ?u) j)" if j: "j < length (po_ids p)" for j
  proof -
    have "live_at (po_ids p ! j) (conns_on p j)" using live j by (simp add: live_ok_def)
    then show ?thesis using False c j by (auto simp: conns_setPhase updIdentity_nth live_at_def on_id_def)
  qed
  then show ?thesis using False live i refs_setPhase [of ?u "Admitted i" c] by (simp add: admit_def live_ok_def refers_def on_id_def)
qed

lemma live_ac_Close:
  assumes live: "live_ok p" and c: "c < length (po_conns p)" "on_id i (cn_phase (po_conns p ! c))"
  shows "live_ok (ac_Close c i p)"
proof -
  have i: "i < length (po_ids p)" using refs_nth [of p c i] live c by (simp add: live_ok_def refers_def)
  let ?q = "setPhase c Dropped p"
  have other: "\<not> on_id j (cn_phase (po_conns p ! c))" if "j \<noteq> i" for j using that c(2) by (auto simp: on_id_def)
  have "live_at (po_ids (ac_Close c i p) ! j) (conns_on ?q j)" if j: "j < length (po_ids p)" for j
  proof -
    have "live_at (po_ids p ! j) (conns_on p j)" using live j by (simp add: live_ok_def)
    moreover have "0 \<le> conns_on ?q j" by (simp add: conns_on_def)
    ultimately show ?thesis using c j other [of j]
      by (auto simp: ac_Close_def id_release_def Let_def updIdentity_nth conns_setPhase live_at_def on_id_def i)
  qed
  moreover have "conns_on (ac_Close c i p) = conns_on ?q" "refs_ok (ac_Close c i p) = refs_ok ?q" "length (po_ids (ac_Close c i p)) = length (po_ids p)"
    by (simp_all add: ac_Close_def id_release_def Let_def)
  moreover have "refs_ok ?q" using refs_setPhase [of p Dropped c] live by (simp add: live_ok_def refers_def on_id_def)
  ultimately show ?thesis by (simp add: live_ok_def)
qed

lemma live_deliver:
  assumes "live_ok p" "in_phase p c (Admitted i)"
  shows "live_ok (deliver c i p)"
  using live_ac_Close [of p c i] live_setPhase [of p c "Delivered i"] refs_nth [of p c i] assms
  by (auto simp: deliver_def on_id_def refers_def live_ok_def)

lemma admit_phase: "c < length (po_conns p) \<Longrightarrow> cn_phase (po_conns (admit c i p) ! c) \<in> {Dropped, Admitted i}"
  by (simp add: admit_def setPhase_phase)

lemma live_finishRoute:
  assumes "live_ok p" "c < length (po_conns p)"
  shows "live_ok (finishRoute c p)"
proof (cases "cn_phase (po_conns p ! c)")
  case (Picked i)
  have "live_ok (admit c i p)" "length (po_conns (admit c i p)) = length (po_conns p)"
    using live_admit [of p c i] assms Picked by (simp_all add: admit_def)
  then show ?thesis using live_deliver [of "admit c i p" c i] admit_phase [OF assms(2), of i] assms(2) Picked by (auto simp: finishRoute_def)
qed (use live_deliver [of p c] live_setPhase [of p c Dropped] assms in \<open>simp_all add: finishRoute_def on_id_def refers_def\<close>)

lemma live_updConn:
  assumes live: "live_ok p" and c: "c < length (po_conns p)" and f: "cn_phase (f (po_conns p ! c)) = cn_phase (po_conns p ! c)"
  shows "live_ok (updPortalConn c f p)"
proof -
  let ?y = "f (po_conns p ! c)"
  have "conns_on (updPortalConn c f p) i = conns_on p i" for i
    using filter_upd [OF c, of "\<lambda>x. on_id i (cn_phase x)" ?y] f by (simp add: conns_on_def updPortalConn_def)
  moreover have "refs_ok (updPortalConn c f p)"
    using ball_upd [of "po_conns p" "\<lambda>x. \<forall>i. refers i (cn_phase x) \<longrightarrow> i < length (po_ids p)" ?y c] live f refs_nth [of p c] c
    by (simp add: live_ok_def refs_ok_def updPortalConn_def)
  ultimately show ?thesis using live by (simp add: live_ok_def) (simp add: updPortalConn_def)
qed

text \<open>What connections do to the rest of the portal: they change connections, counts, and mark a retired identity as closing.\<close>

definition same_identity :: "identity \<Rightarrow> identity \<Rightarrow> bool" where
  "same_identity d d' \<longleftrightarrow> id_privateKey d' = id_privateKey d \<and> id_certPEM d' = id_certPEM d \<and> id_keyPEM d' = id_keyPEM d \<and> id_publicKey d' = id_publicKey d
     \<and> id_shortIDs d' = id_shortIDs d \<and> id_retired d' = id_retired d \<and> id_closed d' = id_closed d
     \<and> (id_closing d' \<longrightarrow> id_closing d \<or> id_retired d)"

definition conn_move :: "portal \<Rightarrow> portal \<Rightarrow> bool" where
  "conn_move p p' \<longleftrightarrow> p' = p\<lparr>po_ids := po_ids p', po_conns := po_conns p'\<rparr> \<and> length (po_ids p') = length (po_ids p)
     \<and> (\<forall>i < length (po_ids p). same_identity (po_ids p ! i) (po_ids p' ! i)) \<and> length (po_conns p') = length (po_conns p)"

lemma same_identity_trans: "same_identity d e \<Longrightarrow> same_identity e f \<Longrightarrow> same_identity d f"
  by (auto simp: same_identity_def)

lemma conn_move_refl [simp]: "conn_move p p"
  by (simp add: conn_move_def same_identity_def)

lemma conn_move_trans:
  assumes "conn_move p q" "conn_move q r"
  shows "conn_move p r"
proof -
  have "r = q\<lparr>po_ids := po_ids r, po_conns := po_conns r\<rparr>" "q = p\<lparr>po_ids := po_ids q, po_conns := po_conns q\<rparr>"
    using assms unfolding conn_move_def by blast+
  then have "r = p\<lparr>po_ids := po_ids r, po_conns := po_conns r\<rparr>" by (cases p, cases q, cases r) simp
  then show ?thesis using assms same_identity_trans unfolding conn_move_def by metis
qed

lemma move_setPhase: "conn_move p (setPhase c ph p)"
  by (simp add: conn_move_def same_identity_def setPhase_def updPortalConn_def)

lemma move_admit: "conn_move p (admit c i p)"
  by (auto simp: admit_def move_setPhase conn_move_def same_identity_def updIdentity_nth) (simp_all add: setPhase_def updPortalConn_def updIdentity_def)

lemma move_ac_Close: "conn_move p (ac_Close c i p)"
  by (auto simp: ac_Close_def id_release_def Let_def conn_move_def same_identity_def updIdentity_nth)
    (simp_all add: setPhase_def updPortalConn_def updIdentity_def)

lemma move_deliver: "conn_move p (deliver c i p)"
  by (simp add: deliver_def move_setPhase move_ac_Close)

lemma move_finishRoute: "conn_move p (finishRoute c p)"
  using conn_move_trans [OF move_admit move_deliver]
  by (auto simp: finishRoute_def Let_def move_setPhase move_deliver move_admit split: connPhase.split)

lemma stopRouting_moves:
  assumes "live_ok p"
  shows "live_ok (stopRoutingLocked p) \<and> conn_move p (stopRoutingLocked p)"
proof -
  have "live_ok q \<Longrightarrow> \<forall>c \<in> set cs. c < length (po_conns q) \<Longrightarrow> live_ok (fold finishRoute cs q) \<and> conn_move q (fold finishRoute cs q)" for cs q
  proof (induction cs arbitrary: q)
    case (Cons c cs)
    have "length (po_conns (finishRoute c q)) = length (po_conns q)" using move_finishRoute [of q c] by (simp add: conn_move_def)
    then show ?case using Cons.IH [of "finishRoute c q"] Cons.prems live_finishRoute [of q c]
      conn_move_trans [OF move_finishRoute [of q c], of "fold finishRoute cs (finishRoute c q)"] by simp
  qed simp
  then show ?thesis unfolding stopRoutingLocked_def using assms by simp
qed

section \<open>Identities\<close>

text \<open>While a configuration is at work some identities are held by nobody: those it has made and those it is about to retire. \<open>X\<close> is the
  set of them; it is empty between operations.\<close>

definition open_id :: "identity \<Rightarrow> bool" where
  "open_id d \<longleftrightarrow> \<not> id_retired d \<and> \<not> id_closed d \<and> \<not> id_closing d"

definition front :: "portal \<Rightarrow> nat set" where
  "front p = set (opt_list (po_cur p) @ opt_list (po_prev p))"

definition ids_ok :: "nat set \<Rightarrow> portal \<Rightarrow> bool" where
  "ids_ok X p \<longleftrightarrow> (\<forall>i \<in> front p \<union> X. i < length (po_ids p) \<and> open_id (po_ids p ! i)) \<and> (po_cur p \<noteq> None \<longrightarrow> po_prev p \<noteq> po_cur p)
     \<and> front p \<inter> X = {} \<and> (\<forall>i \<in> set (po_retired p). i < length (po_ids p) \<and> id_retired (po_ids p ! i))
     \<and> (\<forall>i < length (po_ids p). id_closed (po_ids p ! i) \<or> i \<in> front p \<union> set (po_retired p) \<union> X)"

definition wired :: "portal \<Rightarrow> bool" where
  "wired p \<longleftrightarrow> po_routes p = map_option (\<lambda>i. \<lparr>rt_cur = i, rt_prev = po_prev p, rt_prevUntil = po_prevUntil p\<rparr>) (po_cur p)
     \<and> (po_cur p = None \<longrightarrow> po_prev p = None \<and> po_retired p = [])"

definition core :: "nat set \<Rightarrow> portal \<Rightarrow> bool" where
  "core X p \<longleftrightarrow> live_ok p \<and> wired p \<and> ids_ok X p"

lemma core_cong:
  assumes "po_ids p' = po_ids p" "po_conns p' = po_conns p" "po_cur p' = po_cur p" "po_prev p' = po_prev p" "po_prevUntil p' = po_prevUntil p"
    "po_retired p' = po_retired p" "po_routes p' = po_routes p"
  shows "core X p' = core X p"
  using assms by (simp add: core_def live_ok_def refs_ok_def conns_on_def wired_def ids_ok_def front_def)

lemma core_updates [simp]:
  "core X (p\<lparr>po_table := t\<rparr>) = core X p" "core X (p\<lparr>po_cfg := cfg\<rparr>) = core X p" "core X (p\<lparr>po_port := port\<rparr>) = core X p"
  "core X (p\<lparr>po_closed := b\<rparr>) = core X p" "core X (p\<lparr>po_rebindTimer := b\<rparr>) = core X p" "core X (p\<lparr>po_serving := b\<rparr>) = core X p"
  "core X (p\<lparr>po_ln := b\<rparr>) = core X p" "core X (p\<lparr>po_prevTimer := x\<rparr>) = core X p" "core X (po_setPairings ps p) = core X p"
  by (rule core_cong; simp add: po_setPairings_def)+

lemma core_move:
  assumes core: "core X p" and move: "conn_move p p'" and live: "live_ok p'"
  shows "core X p'"
proof -
  have eq: "p' = p\<lparr>po_ids := po_ids p', po_conns := po_conns p'\<rparr>" and len: "length (po_ids p') = length (po_ids p)"
    and same: "\<And>i. i < length (po_ids p) \<Longrightarrow> same_identity (po_ids p ! i) (po_ids p' ! i)"
    using move unfolding conn_move_def by blast+
  have fields: "po_cur p' = po_cur p" "po_prev p' = po_prev p" "po_prevUntil p' = po_prevUntil p" "po_retired p' = po_retired p" "po_routes p' = po_routes p"
    using arg_cong [OF eq, of po_cur] arg_cong [OF eq, of po_prev] arg_cong [OF eq, of po_prevUntil] arg_cong [OF eq, of po_retired]
      arg_cong [OF eq, of po_routes] by simp_all
  have "open_id (po_ids p ! i) \<Longrightarrow> open_id (po_ids p' ! i)" "id_retired (po_ids p' ! i) = id_retired (po_ids p ! i)"
    "id_closed (po_ids p' ! i) = id_closed (po_ids p ! i)" if "i < length (po_ids p)" for i
    using same [OF that] by (auto simp: same_identity_def open_id_def)
  then show ?thesis using core live by (auto simp: core_def ids_ok_def wired_def front_def fields len)
qed

lemma core_new:
  assumes core: "core X p" and new: "newIdentity z privateKey certPEM keyPEM ids p = Some (i, p')"
  shows "core (insert i X) p' \<and> i \<notin> front p \<union> X \<and> front p' = front p"
proof -
  obtain d where d: "p' = p\<lparr>po_ids := po_ids p @ [d]\<rparr>" "i = length (po_ids p)" "open_id d" "id_live d = 0"
    using new by (auto simp: newIdentity_def open_id_def split: if_splits)
  have fresh: "i \<notin> front p \<union> X" using core d(2) by (auto simp: core_def ids_ok_def)
  have "\<not> on_id i (cn_phase x)" if "x \<in> set (po_conns p)" for x
    using core that d(2) by (auto simp: core_def live_ok_def refs_ok_def refers_def)
  then have none: "filter (\<lambda>x. on_id i (cn_phase x)) (po_conns p) = []" by (simp add: filter_empty_conv)
  have "live_at d 0" using d by (simp add: live_at_def open_id_def)
  then have "live_ok p'" using core none
    by (auto simp: core_def live_ok_def refs_ok_def conns_on_def d(1,2) nth_append less_Suc_eq)
  moreover have "wired p'" using core by (simp add: core_def wired_def d(1))
  moreover have "ids_ok (insert i X) p'"
    using core fresh d(3) by (auto simp: core_def ids_ok_def front_def d(1,2) nth_append less_Suc_eq)
  ultimately show ?thesis using fresh by (simp add: core_def front_def d(1))
qed

lemma core_closeIdentity:
  assumes core: "core X p" and i: "i < length (po_ids p)" "i \<notin> front p"
  shows "core (X - {i}) (closeIdentity i p)"
proof -
  let ?p = "closeIdentity i p"
  have "live_at d n \<Longrightarrow> live_at (d\<lparr>id_closed := True\<rparr>) n" for d n by (simp add: live_at_def)
  then have "live_ok ?p" using core by (auto simp: core_def live_ok_def closeIdentity_def updIdentity_nth)
  moreover have "wired ?p" using core by (simp add: core_def wired_def closeIdentity_def)
  moreover have "ids_ok (X - {i}) ?p"
    using core i by (auto simp: core_def ids_ok_def front_def closeIdentity_def updIdentity_nth)
  ultimately show ?thesis by (simp add: core_def)
qed

lemma closeIdentity_fields [simp]:
  "po_cur (closeIdentity i p) = po_cur p" "po_prev (closeIdentity i p) = po_prev p" "length (po_ids (closeIdentity i p)) = length (po_ids p)"
  "po_retired (closeIdentity i p) = po_retired p" "po_routes (closeIdentity i p) = po_routes p" "po_prevUntil (closeIdentity i p) = po_prevUntil p"
  "po_conns (closeIdentity i p) = po_conns p" "po_table (closeIdentity i p) = po_table p" "po_cfg (closeIdentity i p) = po_cfg p"
  "po_ln (closeIdentity i p) = po_ln p" "po_serving (closeIdentity i p) = po_serving p" "po_closed (closeIdentity i p) = po_closed p"
  "po_port (closeIdentity i p) = po_port p"
  by (simp_all add: closeIdentity_def)

lemma closeIdentities_fields [simp]:
  "po_cur (closeIdentities js p) = po_cur p" "po_prev (closeIdentities js p) = po_prev p" "length (po_ids (closeIdentities js p)) = length (po_ids p)"
  "po_retired (closeIdentities js p) = po_retired p" "po_routes (closeIdentities js p) = po_routes p"
  "po_prevUntil (closeIdentities js p) = po_prevUntil p" "po_conns (closeIdentities js p) = po_conns p" "po_table (closeIdentities js p) = po_table p"
  "po_cfg (closeIdentities js p) = po_cfg p" "po_ln (closeIdentities js p) = po_ln p" "po_serving (closeIdentities js p) = po_serving p"
  "po_closed (closeIdentities js p) = po_closed p" "po_port (closeIdentities js p) = po_port p"
  unfolding closeIdentities_def by (induction js arbitrary: p) simp_all

lemma closeIdentities_nth:
  assumes "j < length (po_ids p)"
  shows "po_ids (closeIdentities js p) ! j = (if j \<in> set js then (po_ids p ! j)\<lparr>id_closed := True\<rparr> else po_ids p ! j)"
  unfolding closeIdentities_def using assms
proof (induction js arbitrary: p)
  case (Cons i js)
  then show ?case using Cons.IH [of "closeIdentity i p"] by (simp add: closeIdentity_def updIdentity_nth)
qed simp

lemma live_closeIdentities: "live_ok p \<Longrightarrow> live_ok (closeIdentities js p)"
  by (auto simp: live_ok_def refs_ok_def conns_on_def closeIdentities_nth live_at_def)

lemma core_closeIdentities:
  assumes core: "core X p" and "set js \<inter> front p = {}"
  shows "core (X - set js) (closeIdentities js p)"
proof -
  have "wired (closeIdentities js p)" using core by (simp add: core_def wired_def)
  moreover have "ids_ok (X - set js) (closeIdentities js p)"
    using assms by (auto simp: core_def ids_ok_def front_def closeIdentities_nth)
  ultimately show ?thesis using core live_closeIdentities by (simp add: core_def)
qed

text \<open>A stop closes everything that is held, and leaves the portal down.\<close>

lemma core_stop:
  assumes core: "core X p"
  shows "core X (snd (stopLocked e p))" and "po_cur (snd (stopLocked e p)) = None"
proof -
  have "core X (snd (stopLocked e p)) \<and> po_cur (snd (stopLocked e p)) = None"
  proof (cases "po_cur p = None")
    case False
    let ?q = "stopRoutingLocked (p\<lparr>po_serving := False\<rparr>)"
    have "live_ok (p\<lparr>po_serving := False\<rparr>)" using core by (simp add: core_def live_ok_def refs_ok_def conns_on_def)
    from stopRouting_moves [OF this] have q: "core X ?q"
      using core_move [of X "p\<lparr>po_serving := False\<rparr>" ?q] core by simp
    let ?r = "closeIdentities (opt_list (po_cur ?q) @ opt_list (po_prev ?q) @ po_retired ?q) (?q\<lparr>po_prevTimer := None, po_routes := None\<rparr>)"
    let ?s = "?r\<lparr>po_cur := None, po_prev := None, po_prevUntil := 0, po_retired := [], po_ln := False\<rparr>"
    have "live_ok (?q\<lparr>po_prevTimer := None, po_routes := None\<rparr>)" using q by (simp add: core_def live_ok_def refs_ok_def conns_on_def)
    from live_closeIdentities [OF this] have "live_ok ?s" by (simp add: live_ok_def refs_ok_def conns_on_def)
    moreover have "ids_ok X ?s"
      using q unfolding core_def ids_ok_def by (auto simp: front_def closeIdentities_nth open_id_def)
    moreover have "wired ?s" by (simp add: wired_def)
    moreover have "snd (stopLocked e p) = ?s" unfolding stopLocked_def Let_def if_not_P [OF False] snd_conv by simp
    ultimately show ?thesis by (simp add: core_def)
  qed (use core in \<open>simp add: stopLocked_def\<close>)
  then show "core X (snd (stopLocked e p))" and "po_cur (snd (stopLocked e p)) = None" by auto
qed

lemma core_front:
  assumes core: "core X p" and cur: "cur \<in> X \<union> front p" and prev: "set (opt_list prev) \<subseteq> X \<union> front p" "prev \<noteq> Some cur"
  shows "core ((X \<union> front p) - insert cur (set (opt_list prev))) (setPrevLocked prev u (p\<lparr>po_cur := Some cur\<rparr>))"
proof -
  let ?p = "setPrevLocked prev u (p\<lparr>po_cur := Some cur\<rparr>)"
  have "live_ok ?p" using core by (simp add: core_def live_ok_def refs_ok_def conns_on_def setPrevLocked_def Let_def)
  moreover have "wired ?p" by (simp add: wired_def setPrevLocked_def Let_def)
  moreover have "ids_ok ((X \<union> front p) - insert cur (set (opt_list prev))) ?p"
  proof -
    have f: "front ?p = insert cur (set (opt_list prev))" by (simp add: front_def setPrevLocked_def Let_def)
    have "po_ids ?p = po_ids p" "po_retired ?p = po_retired p" "po_cur ?p = Some cur" "po_prev ?p = prev"
      by (simp_all add: setPrevLocked_def Let_def)
    then show ?thesis using core cur prev unfolding core_def ids_ok_def f by auto
  qed
  ultimately show ?thesis by (simp add: core_def)
qed

lemma core_retire:
  assumes core: "core X p" and i: "i \<in> X" and up: "po_cur p \<noteq> None"
  shows "core (X - {i}) (retireLocked i p) \<and> po_cur (retireLocked i p) = po_cur p \<and> po_prev (retireLocked i p) = po_prev p"
proof -
  have i': "i < length (po_ids p)" "open_id (po_ids p ! i)" "i \<notin> front p" using core i by (auto simp: core_def ids_ok_def)
  have live: "live_at (po_ids p ! j) (conns_on p j)" if "j < length (po_ids p)" for j using core that by (simp add: core_def live_ok_def)
  have at: "live_at (po_ids (retireLocked i p) ! j) (conns_on p j)" if "j < length (po_ids p)" for j
    using live [OF that] i' that by (cases "j = i") (auto simp: retireLocked_def Let_def closeIdentity_def updIdentity_nth live_at_def open_id_def)
  have same: "conns_on (retireLocked i p) = conns_on p" "refs_ok (retireLocked i p) = refs_ok p" "length (po_ids (retireLocked i p)) = length (po_ids p)"
    by (simp_all add: conns_on_def [abs_def] refs_ok_def retireLocked_def Let_def closeIdentity_def)
  have "live_ok (retireLocked i p)" using core at unfolding core_def live_ok_def same by blast
  moreover have "wired (retireLocked i p)" using core up by (auto simp: core_def wired_def retireLocked_def Let_def)
  moreover have "ids_ok (X - {i}) (retireLocked i p)"
  proof -
    have ids: "j \<noteq> i \<Longrightarrow> po_ids (retireLocked i p) ! j = po_ids p ! j" "id_retired (po_ids (retireLocked i p) ! i)"
      "id_live (po_ids p ! i) = 0 \<Longrightarrow> id_closed (po_ids (retireLocked i p) ! i)" if "j < length (po_ids p)" for j
      using i'(1) that by (simp_all add: retireLocked_def Let_def closeIdentity_def updIdentity_nth)
    have ret: "set (po_retired (retireLocked i p)) = {j \<in> set (po_retired p). \<not> id_closed (po_ids p ! j)}
        \<union> (if id_live (po_ids p ! i) = 0 then {} else {i})"
      using i'(1) by (simp add: retireLocked_def Let_def closeIdentity_def updIdentity_nth)
    have fr: "front (retireLocked i p) = front p" "po_cur (retireLocked i p) = po_cur p" "po_prev (retireLocked i p) = po_prev p"
      by (simp_all add: front_def retireLocked_def Let_def)
    have ok: "ids_ok X p" using core by (simp add: core_def)
    have "j < length (po_ids p) \<and> open_id (po_ids (retireLocked i p) ! j)" if "j \<in> front p \<union> (X - {i})" for j
      using ok that i'(3) ids(1) [of j] unfolding ids_ok_def by (cases "j = i") auto
    moreover have "j < length (po_ids p) \<and> id_retired (po_ids (retireLocked i p) ! j)" if "j \<in> set (po_retired (retireLocked i p))" for j
      using ok that i'(1) ids(1) [of j] ids(2) [OF i'(1)] unfolding ids_ok_def ret by (cases "j = i") (auto split: if_splits)
    moreover have "id_closed (po_ids (retireLocked i p) ! j) \<or> j \<in> front p \<union> set (po_retired (retireLocked i p)) \<union> (X - {i})"
      if "j < length (po_ids p)" for j
      using ok that ids [OF that] unfolding ids_ok_def ret by (cases "j = i") auto
    ultimately show ?thesis using ok unfolding ids_ok_def fr same by blast
  qed
  ultimately show ?thesis by (simp add: core_def retireLocked_def Let_def)
qed

end
