(* ===== verification/Portal_Rotation.thy ===== *)
theory Portal_Rotation
  imports Portal_Identities Portal_Guarantees
begin

text \<open>
  Configurations keep the invariant of the portal, and what follows: a retired identity never cuts off a connection, none is leaked, the short IDs
  an identity accepts are the ones paired now, a failed configuration leaves what serves as it was, and configuring again what is configured
  changes nothing.
\<close>

section \<open>The invariant\<close>

definition rest :: "portal \<Rightarrow> bool \<times> PortalConfig \<times> u16 \<times> bool \<times> bool \<times> sessionTable" where
  "rest p = (po_closed p, po_cfg p, po_port p, po_ln p, po_serving p, po_table p)"

definition held_ids :: "portal \<Rightarrow> nat set" where
  "held_ids p = front p \<union> set (po_retired p)"

definition lines_ok :: "portal \<Rightarrow> bool" where
  "lines_ok p \<longleftrightarrow> (po_ln p \<longleftrightarrow> po_cur p \<noteq> None) \<and> (po_serving p \<longrightarrow> po_cur p \<noteq> None)"

definition pairs_ok :: "portal \<Rightarrow> bool" where
  "pairs_ok p \<longleftrightarrow> pt_pairings (po_table p) = (if po_cur p = None then [] else pc_Pairings (po_cfg p))
     \<and> (po_cur p \<noteq> None \<longrightarrow> pc_Pairings (po_cfg p) \<noteq> []) \<and> distinct (gkeys (pc_Pairings (po_cfg p)))
     \<and> (\<forall>i \<in> held_ids p. id_shortIDs (po_ids p ! i) = gkeys (pt_pairings (po_table p)))
     \<and> reaches table_init session_table_step (po_table p)"

definition portal_ok :: "portal \<Rightarrow> bool" where
  "portal_ok p \<longleftrightarrow> core {} p \<and> lines_ok p \<and> pairs_ok p"

text \<open>What the code relies on of samizdat: \<open>SetShortIDs\<close> only fails on an empty set.\<close>

definition setShortIDs_total :: "samizdat \<Rightarrow> bool" where
  "setShortIDs_total z \<longleftrightarrow> (\<forall>ids. ids \<noteq> [] \<longrightarrow> sz_setShortIDs z ids)"

lemma rest_simps [simp]:
  "rest (updIdentity i f p) = rest p" "rest (closeIdentity i p) = rest p" "rest (closeIdentities js p) = rest p"
  "rest (setPhase c ph p) = rest p" "rest (retireLocked i p) = rest p" "rest (setPrevLocked x u p) = rest p"
  "rest (p\<lparr>po_cur := y\<rparr>) = rest p"
  by (simp_all add: rest_def retireLocked_def setPrevLocked_def Let_def)

lemma restD: "rest p = rest q \<Longrightarrow> po_closed p = po_closed q \<and> po_cfg p = po_cfg q \<and> po_port p = po_port q \<and> po_ln p = po_ln q
    \<and> po_serving p = po_serving q \<and> po_table p = po_table q"
  by (simp add: rest_def)

lemma new_rest: "newIdentity z k c kp ids p = Some (i, p') \<Longrightarrow> p' = p\<lparr>po_ids := po_ids p'\<rparr> \<and> i = length (po_ids p)
    \<and> length (po_ids p') = Suc i \<and> (\<forall>j < i. po_ids p' ! j = po_ids p ! j) \<and> id_shortIDs (po_ids p' ! i) = ids \<and> id_privateKey (po_ids p' ! i) = k"
  by (auto simp: newIdentity_def nth_append split: if_splits)

lemma setPairings_pairings [simp]: "pt_pairings (setPairings ps t) = ps"
  by (simp add: setPairings_def Let_def)

section \<open>Moving to other identities\<close>

text \<open>The search for an identity: what was there stays, and what is made is open and held by nobody yet.\<close>

lemma find_identity:
  assumes core: "core (set made) p" and held: "set held \<subseteq> front p"
    and f: "findIdentity z held k c kp ids (made, p) = Some (i, made', p')"
  shows "core (set made') p'" and "i \<in> set made' \<union> front p" and "front p' = front p" and "p' = p\<lparr>po_ids := po_ids p'\<rparr>"
    and "length (po_ids p) \<le> length (po_ids p')" and "\<And>j. j < length (po_ids p) \<Longrightarrow> po_ids p' ! j = po_ids p ! j"
    and "set made \<subseteq> set made'" and "set made' \<subseteq> insert i (set made)"
    and "\<And>j. j \<in> set made' - set made \<Longrightarrow> id_shortIDs (po_ids p' ! j) = ids" and "id_privateKey (po_ids p' ! i) = k"
proof -
  let ?post = "core (set made') p' \<and> i \<in> set made' \<union> front p \<and> front p' = front p \<and> p' = p\<lparr>po_ids := po_ids p'\<rparr>
    \<and> length (po_ids p) \<le> length (po_ids p') \<and> (\<forall>j < length (po_ids p). po_ids p' ! j = po_ids p ! j)
    \<and> set made \<subseteq> set made' \<and> set made' \<subseteq> insert i (set made) \<and> (\<forall>j \<in> set made' - set made. id_shortIDs (po_ids p' ! j) = ids)
    \<and> id_privateKey (po_ids p' ! i) = k"
  have ?post
  proof (cases "find (\<lambda>i. is_identity k c kp (po_ids p ! i)) held")
    case None
    then obtain q where q: "newIdentity z k c kp ids p = Some (i, q)" "made' = made @ [i]" "p' = q"
      using f by (auto simp: findIdentity_def split: option.splits)
    have "core (insert i (set made)) q" "front q = front p" using core_new [OF core q(1)] by simp_all
    then show ?thesis using new_rest [OF q(1)] q(2,3) by auto
  next
    case (Some j)
    then have "j \<in> set held" "is_identity k c kp (po_ids p ! j)" by (auto simp: find_Some_iff)
    then show ?thesis using Some f core held by (auto simp: findIdentity_def is_identity_def)
  qed
  then show "core (set made') p'" and "i \<in> set made' \<union> front p" and "front p' = front p" and "p' = p\<lparr>po_ids := po_ids p'\<rparr>"
    and "length (po_ids p) \<le> length (po_ids p')" and "\<And>j. j < length (po_ids p) \<Longrightarrow> po_ids p' ! j = po_ids p ! j"
    and "set made \<subseteq> set made'" and "set made' \<subseteq> insert i (set made)"
    and "\<And>j. j \<in> set made' - set made \<Longrightarrow> id_shortIDs (po_ids p' ! j) = ids" and "id_privateKey (po_ids p' ! i) = k"
    by blast+
qed

lemma retire_ids [simp]: "length (po_ids (retireLocked i p)) = length (po_ids p)"
  by (simp add: retireLocked_def Let_def)

lemma retire_shortIDs: "j < length (po_ids p) \<Longrightarrow> id_shortIDs (po_ids (retireLocked i p) ! j) = id_shortIDs (po_ids p ! j)"
  by (simp add: retireLocked_def Let_def closeIdentity_def updIdentity_nth)

definition retireOld :: "nat \<Rightarrow> nat option \<Rightarrow> nat list \<Rightarrow> portal \<Rightarrow> portal" where
  "retireOld cur prev held p = fold (\<lambda>i p. if i \<noteq> cur \<and> Some i \<noteq> prev then retireLocked i p else p) held p"

lemma retireOld_moves:
  assumes "core X p" "po_cur p \<noteq> None" "distinct hs" "{i \<in> set hs. i \<noteq> cur \<and> Some i \<noteq> prev} \<subseteq> X"
  shows "core (X - {i \<in> set hs. i \<noteq> cur \<and> Some i \<noteq> prev}) (retireOld cur prev hs p) \<and> po_cur (retireOld cur prev hs p) = po_cur p
    \<and> po_prev (retireOld cur prev hs p) = po_prev p \<and> rest (retireOld cur prev hs p) = rest p
    \<and> length (po_ids (retireOld cur prev hs p)) = length (po_ids p)
    \<and> (\<forall>j < length (po_ids p). id_shortIDs (po_ids (retireOld cur prev hs p) ! j) = id_shortIDs (po_ids p ! j))"
  using assms unfolding retireOld_def
proof (induction hs arbitrary: X p)
  case (Cons h hs)
  show ?case
  proof (cases "h \<noteq> cur \<and> Some h \<noteq> prev")
    case True
    have r: "core (X - {h}) (retireLocked h p) \<and> po_cur (retireLocked h p) = po_cur p \<and> po_prev (retireLocked h p) = po_prev p"
      using core_retire [of X p h] Cons.prems True by auto
    have "{i \<in> set hs. i \<noteq> cur \<and> Some i \<noteq> prev} \<subseteq> X - {h}" using Cons.prems by auto
    note IH = Cons.IH [of "X - {h}" "retireLocked h p", OF _ _ _ this]
    have "X - {i \<in> set (h # hs). i \<noteq> cur \<and> Some i \<noteq> prev} = X - {h} - {i \<in> set hs. i \<noteq> cur \<and> Some i \<noteq> prev}" using True by auto
    then show ?thesis using IH r Cons.prems(2,3) True by (simp add: retire_shortIDs)
  next
    case False
    then have same: "{i \<in> set (h # hs). i \<noteq> cur \<and> Some i \<noteq> prev} = {i \<in> set hs. i \<noteq> cur \<and> Some i \<noteq> prev}" by auto
    have "distinct hs" "{i \<in> set hs. i \<noteq> cur \<and> Some i \<noteq> prev} \<subseteq> X" using Cons.prems(3,4) same by auto
    note IH = Cons.IH [OF Cons.prems(1,2) this]
    have skip: "(if h \<noteq> cur \<and> Some h \<noteq> prev then retireLocked h p else p) = p" using False by auto
    show ?thesis unfolding same fold.simps comp_apply skip by (rule IH)
  qed
qed simp

lemma setShortIDs_moves:
  "core X (fold (setShortIDs ids) js p) = core X p \<and> rest (fold (setShortIDs ids) js p) = rest p \<and> po_cur (fold (setShortIDs ids) js p) = po_cur p
    \<and> po_prev (fold (setShortIDs ids) js p) = po_prev p \<and> po_retired (fold (setShortIDs ids) js p) = po_retired p
    \<and> length (po_ids (fold (setShortIDs ids) js p)) = length (po_ids p)
    \<and> (\<forall>j < length (po_ids p). id_shortIDs (po_ids (fold (setShortIDs ids) js p) ! j) = (if j \<in> set js then ids else id_shortIDs (po_ids p ! j)))"
proof (induction js arbitrary: p)
  case (Cons i js)
  have at: "po_ids (setShortIDs ids i p) ! j = (if i = j then (po_ids p ! j)\<lparr>id_shortIDs := ids\<rparr> else po_ids p ! j)" if "j < length (po_ids p)" for j
    using that by (simp add: setShortIDs_def updIdentity_nth)
  have "core X (setShortIDs ids i p) = core X p"
  proof -
    have "live_at (d\<lparr>id_shortIDs := ids\<rparr>) = live_at d" "open_id (d\<lparr>id_shortIDs := ids\<rparr>) = open_id d" for d
      by (simp_all add: live_at_def [abs_def] open_id_def)
    then have "live_at (po_ids (setShortIDs ids i p) ! j) = live_at (po_ids p ! j)" "open_id (po_ids (setShortIDs ids i p) ! j) = open_id (po_ids p ! j)"
      "id_retired (po_ids (setShortIDs ids i p) ! j) = id_retired (po_ids p ! j)" "id_closed (po_ids (setShortIDs ids i p) ! j) = id_closed (po_ids p ! j)"
      if "j < length (po_ids p)" for j using at [OF that] by simp_all
    moreover have "length (po_ids (setShortIDs ids i p)) = length (po_ids p)" "refs_ok (setShortIDs ids i p) = refs_ok p"
      "conns_on (setShortIDs ids i p) = conns_on p" "wired (setShortIDs ids i p) = wired p" "front (setShortIDs ids i p) = front p"
      "po_cur (setShortIDs ids i p) = po_cur p" "po_prev (setShortIDs ids i p) = po_prev p" "po_retired (setShortIDs ids i p) = po_retired p"
      by (simp_all add: setShortIDs_def wired_def front_def)
    ultimately show ?thesis unfolding core_def live_ok_def ids_ok_def by (simp cong: conj_cong)
  qed
  then show ?case using Cons.IH [of "setShortIDs ids i p"] at by (simp add: setShortIDs_def)
qed simp

text \<open>A table reached by steps stays one when the pairings change.\<close>

lemma table_setPairings:
  "reaches table_init session_table_step t \<Longrightarrow> distinct (gkeys ps) \<Longrightarrow> reaches table_init session_table_step (setPairings ps t)"
  by (rule reaches_ops(1))

lemma front_distinct: "core X p \<Longrightarrow> distinct (opt_list (po_cur p) @ opt_list (po_prev p))"
  by (auto simp: core_def ids_ok_def split: option.split)

lemma ok_moveTo:
  assumes core: "core (set made) p" and up: "po_cur p \<noteq> None" "lines_ok p" and z: "setShortIDs_total z"
    and cur: "cur \<in> set made \<union> front p" and prev: "set (opt_list prev) \<subseteq> set made \<union> front p" "prev \<noteq> Some cur"
    and made: "set made \<subseteq> insert cur (set (opt_list prev))" "\<And>j. j \<in> set made \<Longrightarrow> id_shortIDs (po_ids p ! j) = ids"
    and ids: "ids = gkeys (pc_Pairings cfg)" "pc_Pairings cfg \<noteq> []" "distinct ids"
    and table: "reaches table_init session_table_step (po_table p)"
  shows "portal_ok (snd (moveTo z cfg ids (opt_list (po_cur p) @ opt_list (po_prev p)) made cur prev p))"
proof -
  let ?held = "opt_list (po_cur p) @ opt_list (po_prev p)"
  let ?u = "case pc_Previous cfg of None \<Rightarrow> 0 | Some v \<Rightarrow> pi_Until v"
  let ?p0 = "po_setPairings (pc_Pairings cfg) p"
  define p1 where "p1 = setPrevLocked prev ?u (?p0\<lparr>po_cur := Some cur\<rparr>)"
  define p2 where "p2 = retireOld cur prev ?held p1"
  define old where "old = filter (\<lambda>i. i \<notin> set made) (cur # opt_list prev @ po_retired p2)"
  define p3 where "p3 = fold (setShortIDs ids) old p2"
  have front0: "front ?p0 = front p" by (simp add: front_def po_setPairings_def)
  have c1: "core (set ?held - insert cur (set (opt_list prev))) p1"
  proof -
    have "core ((set made \<union> front p) - insert cur (set (opt_list prev))) p1"
      using core_front [of "set made" ?p0 cur prev ?u] core cur prev front0 by (simp add: p1_def)
    moreover have "(set made \<union> front p) - insert cur (set (opt_list prev)) = set ?held - insert cur (set (opt_list prev))"
      using made(1) by (auto simp: front_def)
    ultimately show ?thesis by simp
  qed
  have p1: "po_cur p1 = Some cur" "po_prev p1 = prev" "po_ids p1 = po_ids p" "rest p1 = rest ?p0"
    by (simp_all add: p1_def setPrevLocked_def Let_def po_setPairings_def rest_def)
  have loose: "{i \<in> set ?held. i \<noteq> cur \<and> Some i \<noteq> prev} = set ?held - insert cur (set (opt_list prev))" by (auto split: option.splits)
  have p2: "core {} p2" "po_cur p2 = Some cur" "po_prev p2 = prev" "rest p2 = rest ?p0" "length (po_ids p2) = length (po_ids p)"
    "\<And>j. j < length (po_ids p) \<Longrightarrow> id_shortIDs (po_ids p2 ! j) = id_shortIDs (po_ids p ! j)"
    using retireOld_moves [OF c1 _ front_distinct [OF core], of cur prev] unfolding p2_def [symmetric] loose p1 by auto
  note m = setShortIDs_moves [of "{}" ids old p2, folded p3_def]
  have ne: "ids \<noteq> []" using ids(1,2) by simp
  have res: "snd (moveTo z cfg ids ?held made cur prev p) = p3\<lparr>po_cfg := cfg\<rparr>"
    using z ne by (simp add: moveTo_def Let_def p1_def p2_def p3_def old_def retireOld_def setShortIDs_total_def)
  have rest3: "po_ln p3 = po_ln p" "po_serving p3 = po_serving p" "po_table p3 = setPairings (pc_Pairings cfg) (po_table p)"
    using m p2(4) by (auto simp: rest_def po_setPairings_def)
  have "id_shortIDs (po_ids p3 ! i) = ids" if i: "i \<in> held_ids p2" for i
  proof -
    have len: "i < length (po_ids p2)" using p2(1) i by (auto simp: core_def ids_ok_def held_ids_def)
    have "i \<in> set made \<or> i \<in> set old" using i by (auto simp: old_def held_ids_def front_def p2(2,3))
    then show ?thesis using m len made(2) p2(5,6) by auto
  qed
  moreover have "held_ids p3 = held_ids p2" using m by (simp add: held_ids_def front_def)
  moreover have "reaches table_init session_table_step (po_table p3)"
    using table_setPairings [OF table, of "pc_Pairings cfg"] ids(1,3) by (simp add: rest3)
  ultimately have "pairs_ok (p3\<lparr>po_cfg := cfg\<rparr>)"
    using m p2(2) ids by (simp add: pairs_ok_def rest3 held_ids_def front_def)
  moreover have "lines_ok (p3\<lparr>po_cfg := cfg\<rparr>)" using up m p2(2) by (simp add: lines_ok_def rest3)
  moreover have "core {} (p3\<lparr>po_cfg := cfg\<rparr>)" using m p2(1) by simp
  ultimately show ?thesis unfolding res portal_ok_def by blast
qed

text \<open>What touches neither the configuration nor the short IDs of the identities held.\<close>

lemma ok_frame:
  assumes ok: "portal_ok p" and core: "core {} p'" and rest: "rest p' = rest p"
    and held: "po_cur p' = po_cur p" "po_prev p' = po_prev p" "po_retired p' = po_retired p"
    and sids: "\<And>i. i \<in> held_ids p \<Longrightarrow> id_shortIDs (po_ids p' ! i) = id_shortIDs (po_ids p ! i)"
  shows "portal_ok p'"
proof -
  have "held_ids p' = held_ids p" by (simp add: held_ids_def front_def held)
  then have "pairs_ok p'" using ok sids restD [OF rest] held(1) by (simp add: portal_ok_def pairs_ok_def)
  moreover have "lines_ok p'" using ok restD [OF rest] held(1) unfolding portal_ok_def lines_ok_def by metis
  ultimately show ?thesis using core by (simp add: portal_ok_def)
qed

lemma held_bound: "core X p \<Longrightarrow> i \<in> held_ids p \<Longrightarrow> i < length (po_ids p)"
  by (auto simp: core_def ids_ok_def held_ids_def)

lemma ok_reidentify:
  assumes ok: "portal_ok p" and up: "po_cur p \<noteq> None" and z: "setShortIDs_total z" and check: "checkConfig z cfg = None"
    and cfg: "pc_Pairings cfg \<noteq> []" "distinct (gkeys (pc_Pairings cfg))"
  shows "portal_ok (snd (reidentifyLocked z cfg (gkeys (pc_Pairings cfg)) p))"
proof -
  let ?held = "opt_list (po_cur p) @ opt_list (po_prev p)" and ?ids = "gkeys (pc_Pairings cfg)"
  have core: "core (set []) p" and lines: "lines_ok p" and table: "reaches table_init session_table_step (po_table p)"
    using ok by (simp_all add: portal_ok_def pairs_ok_def)
  have held: "set ?held \<subseteq> front p" by (simp add: front_def)
  have extend: "lines_ok q = lines_ok p" "po_table q = po_table p" "po_cur q = po_cur p" "po_prev q = po_prev p" "po_retired q = po_retired p" "rest q = rest p"
    if "q = p\<lparr>po_ids := po_ids q\<rparr>" for q
    using arg_cong [OF that, of lines_ok] arg_cong [OF that, of po_table] arg_cong [OF that, of po_cur] arg_cong [OF that, of po_prev]
      arg_cong [OF that, of po_retired] arg_cong [OF that, of rest] by (simp_all add: lines_ok_def rest_def)
  show ?thesis
  proof (cases "findIdentity z ?held (pc_PrivateKey cfg) (pc_CertPEM cfg) (pc_KeyPEM cfg) ?ids ([], p)")
    case None
    then show ?thesis using ok by (simp add: reidentifyLocked_def)
  next
    case (Some r)
    then obtain cur made q where r: "findIdentity z ?held (pc_PrivateKey cfg) (pc_CertPEM cfg) (pc_KeyPEM cfg) ?ids ([], p) = Some (cur, made, q)"
      by (cases r) auto
    note f = find_identity [OF core held r]
    note e = extend [OF f(4)]
    show ?thesis
    proof (cases "pc_Previous cfg")
      case None
      have "portal_ok (snd (moveTo z cfg ?ids (opt_list (po_cur q) @ opt_list (po_prev q)) made cur None q))"
        by (rule ok_moveTo [OF f(1)]) (use up e lines z f table cfg in auto)
      then show ?thesis using r None by (simp add: reidentifyLocked_def e)
    next
      case (Some v)
      show ?thesis
      proof (cases "findIdentity z ?held (pi_PrivateKey v) (pi_CertPEM v) (pi_KeyPEM v) ?ids (made, q)")
        case None
        have loose: "set made \<inter> front q = {}" using f(1) by (auto simp: core_def ids_ok_def)
        have "core {} (closeIdentities made q)" using core_closeIdentities [OF f(1) loose] by simp
        moreover have "id_shortIDs (po_ids (closeIdentities made q) ! i) = id_shortIDs (po_ids p ! i)" if "i \<in> held_ids p" for i
          using held_bound [OF core that] f(5,6) by (simp add: closeIdentities_nth)
        ultimately have "portal_ok (closeIdentities made q)" using ok_frame [OF ok, of "closeIdentities made q"] e by simp
        then show ?thesis using r Some None by (simp add: reidentifyLocked_def)
      next
        case (Some r2)
        then obtain prev made' q' where r2: "findIdentity z ?held (pi_PrivateKey v) (pi_CertPEM v) (pi_KeyPEM v) ?ids (made, q) = Some (prev, made', q')"
          by (cases r2) auto
        have held': "set ?held \<subseteq> front q" using held f(3) by simp
        note g = find_identity [OF f(1) held' r2]
        have q': "q' = p\<lparr>po_ids := po_ids q'\<rparr>" using f(4) g(4) by (cases p, cases q, cases q') simp
        note e' = extend [OF q']
        have curlen: "cur < length (po_ids q)" using f(1,2,3) by (auto simp: core_def ids_ok_def)
        have keys: "id_privateKey (po_ids q' ! cur) = pc_PrivateKey cfg" "id_privateKey (po_ids q' ! prev) = pi_PrivateKey v"
          using g(6) [OF curlen] f(10) g(10) by simp_all
        have "pc_PrivateKey cfg \<noteq> pi_PrivateKey v" using check \<open>pc_Previous cfg = Some v\<close> by (auto simp: checkConfig_def split: option.splits if_splits)
        then have ne: "Some prev \<noteq> Some cur" using keys by auto
        have sids: "id_shortIDs (po_ids q' ! j) = ?ids" if "j \<in> set made'" for j
        proof (cases "j \<in> set made")
          case True
          then have "j < length (po_ids q)" using f(1) by (auto simp: core_def ids_ok_def)
          then show ?thesis using g(6) f(9) [of j] True by simp
        qed (use g(9) that in simp)
        have "portal_ok (snd (moveTo z cfg ?ids (opt_list (po_cur q') @ opt_list (po_prev q')) made' cur (Some prev) q'))"
          by (rule ok_moveTo [OF g(1)]) (use up e' lines z f(2,3,8) g(2,3,7,8) table cfg ne sids in auto)
        then show ?thesis using r r2 \<open>pc_Previous cfg = Some v\<close> by (simp add: reidentifyLocked_def e')
      qed
    qed
  qed
qed

section \<open>Stopping and serving\<close>

lemma conn_move_rest:
  assumes "conn_move p p'"
  shows "rest p' = rest p" "po_cur p' = po_cur p" "po_prev p' = po_prev p" "po_retired p' = po_retired p" "length (po_ids p') = length (po_ids p)"
    and "\<And>j. j < length (po_ids p) \<Longrightarrow> id_shortIDs (po_ids p' ! j) = id_shortIDs (po_ids p ! j)"
proof -
  have eq: "p' = p\<lparr>po_ids := po_ids p', po_conns := po_conns p'\<rparr>" using assms unfolding conn_move_def by blast
  show "rest p' = rest p" "po_cur p' = po_cur p" "po_prev p' = po_prev p" "po_retired p' = po_retired p"
    using arg_cong [OF eq, of rest] arg_cong [OF eq, of po_cur] arg_cong [OF eq, of po_prev] arg_cong [OF eq, of po_retired] by (simp_all add: rest_def)
qed (use assms in \<open>simp_all add: conn_move_def same_identity_def\<close>)

text \<open>What a stop leaves.\<close>

definition stopped :: "portal \<Rightarrow> portal \<Rightarrow> bool" where
  "stopped p q \<longleftrightarrow> po_cur q = None \<and> \<not> po_ln q \<and> \<not> po_serving q \<and> po_table q = po_table p \<and> po_cfg q = po_cfg p \<and> po_closed q = po_closed p
     \<and> po_port q = po_port p \<and> length (po_ids q) = length (po_ids p) \<and> (\<forall>j < length (po_ids p). id_shortIDs (po_ids q ! j) = id_shortIDs (po_ids p ! j))"

lemma stop_stops:
  assumes core: "core X p" and lines: "lines_ok p"
  shows "stopped p (snd (stopLocked e p))"
proof (cases "po_cur p = None")
  case True
  then show ?thesis using lines by (auto simp: stopLocked_def stopped_def lines_ok_def)
next
  case False
  let ?p = "p\<lparr>po_serving := False\<rparr>"
  have "live_ok ?p" using core by (simp add: core_def live_ok_def refs_ok_def conns_on_def)
  note m = conn_move_rest [OF conjunct2 [OF stopRouting_moves [OF this]]]
  have "rest (stopRoutingLocked ?p) = rest ?p" "length (po_ids (stopRoutingLocked ?p)) = length (po_ids p)" using m by simp_all
  then show ?thesis using m(6)
    by (auto simp: stopLocked_def Let_def False stopped_def rest_def closeIdentities_nth)
qed

lemma down_held: "core X p \<Longrightarrow> po_cur p = None \<Longrightarrow> held_ids p = {} \<and> front p = {} \<and> po_prev p = None"
  by (simp add: core_def wired_def held_ids_def front_def)

lemma ok_down:
  assumes "core {} q" "po_cur q = None" "\<not> po_ln q" "\<not> po_serving q" "pt_pairings (po_table q) = []" "distinct (gkeys (pc_Pairings (po_cfg q)))"
    "reaches table_init session_table_step (po_table q)"
  shows "portal_ok q"
  using assms down_held [OF assms(1,2)] by (simp add: portal_ok_def lines_ok_def pairs_ok_def)

lemma ok_stop:
  assumes ok: "portal_ok p"
  shows "portal_ok (snd (stopLocked e (po_setPairings [] p)))"
proof -
  let ?p = "po_setPairings [] p" and ?q = "snd (stopLocked e (po_setPairings [] p))"
  have c: "core {} ?p" "lines_ok ?p" using ok by (auto simp: portal_ok_def lines_ok_def) (auto simp: po_setPairings_def)
  have t: "reaches table_init session_table_step (po_table ?p)"
    using ok table_setPairings [of "po_table p" "[]"] by (simp add: portal_ok_def pairs_ok_def po_setPairings_def)
  note s = stop_stops [OF c, of e]
  show ?thesis
    by (rule ok_down) (use core_stop [OF c(1), of e] s t ok in \<open>auto simp: stopped_def portal_ok_def pairs_ok_def po_setPairings_def\<close>)
qed

text \<open>A portal that is down takes new identities, pairings and a listener.\<close>

lemma ok_serve:
  assumes core: "core (insert cur (set (opt_list prev))) q" and down: "po_cur q = None" and prev: "prev \<noteq> Some cur"
    and table: "reaches table_init session_table_step (po_table q)" and cfg: "pc_Pairings cfg \<noteq> []" "distinct (gkeys (pc_Pairings cfg))"
    and sids: "\<And>i. i \<in> insert cur (set (opt_list prev)) \<Longrightarrow> id_shortIDs (po_ids q ! i) = gkeys (pc_Pairings cfg)"
  shows "portal_ok (startServe port (setPrevLocked prev u ((po_setPairings (pc_Pairings cfg) q)\<lparr>po_cfg := cfg, po_cur := Some cur\<rparr>)))"
proof -
  let ?q = "(po_setPairings (pc_Pairings cfg) q)\<lparr>po_cfg := cfg\<rparr>"
  let ?p = "setPrevLocked prev u (?q\<lparr>po_cur := Some cur\<rparr>)"
  have fq: "front ?q = {}" "po_retired ?q = []" "po_cur ?q = None" "po_ids ?q = po_ids q"
    using core down by (simp_all add: front_def po_setPairings_def core_def wired_def)
  have c: "core {} ?p" using core_front [of "insert cur (set (opt_list prev))" ?q cur prev u] core prev fq by (simp add: subset_insertI)
  have held: "held_ids ?p = insert cur (set (opt_list prev))"
    using fq(2) by (simp add: held_ids_def front_def setPrevLocked_def Let_def)
  have f: "po_cur ?p = Some cur" "po_table ?p = setPairings (pc_Pairings cfg) (po_table q)" "po_cfg ?p = cfg" "po_ids ?p = po_ids q"
    by (simp_all add: setPrevLocked_def Let_def po_setPairings_def)
  have "reaches table_init session_table_step (po_table ?p)" using table_setPairings [OF table cfg(2)] f by simp
  then have "pairs_ok (startServe port ?p)" using cfg sids held f by (simp add: pairs_ok_def startServe_def held_ids_def front_def)
  moreover have "lines_ok (startServe port ?p)" using f by (simp add: lines_ok_def startServe_def)
  moreover have "core {} (startServe port ?p)" using c by (simp add: startServe_def)
  ultimately show ?thesis by (simp add: portal_ok_def)
qed

lemma ok_bindAndServe:
  assumes core: "core (insert cur (set (opt_list prev))) p" and lines: "lines_ok p" and prev: "prev \<noteq> Some cur"
    and run: "running \<longleftrightarrow> po_cur p \<noteq> None \<and> po_serving p"
    and pairs: "pairs_ok p" and cfg: "pc_Pairings cfg \<noteq> []" "distinct (gkeys (pc_Pairings cfg))"
    and sids: "\<And>i. i \<in> insert cur (set (opt_list prev)) \<Longrightarrow> id_shortIDs (po_ids p ! i) = gkeys (pc_Pairings cfg)"
  shows "portal_ok (snd (bindAndServe bind lnErr cfg running bindPort cur prev p))"
proof -
  let ?X = "insert cur (set (opt_list prev))"
  let ?stop = "snd (stopLocked lnErr (po_setPairings [] p))"
  have c0: "core ?X (po_setPairings [] p)" "lines_ok (po_setPairings [] p)" using core lines by (auto simp: lines_ok_def) (auto simp: po_setPairings_def)
  have table: "reaches table_init session_table_step (po_table p)" using pairs by (simp add: pairs_ok_def)
  have len: "i \<in> ?X \<Longrightarrow> i < length (po_ids p)" for i using core unfolding core_def ids_ok_def by blast
  define down where "down = (if po_cur p \<noteq> None then ?stop else p)"
  have d: "core ?X down" "po_cur down = None" "\<not> po_ln down" "\<not> po_serving down" "pt_pairings (po_table down) = []"
    "reaches table_init session_table_step (po_table down)" "\<And>i. i \<in> ?X \<Longrightarrow> id_shortIDs (po_ids down ! i) = gkeys (pc_Pairings cfg)"
  proof -
    have "core ?X down \<and> po_cur down = None \<and> \<not> po_ln down \<and> \<not> po_serving down \<and> pt_pairings (po_table down) = []
        \<and> reaches table_init session_table_step (po_table down) \<and> (\<forall>i \<in> ?X. id_shortIDs (po_ids down ! i) = gkeys (pc_Pairings cfg))"
    proof (cases "po_cur p = None")
      case True
      then show ?thesis using core lines pairs sids table by (auto simp: down_def lines_ok_def pairs_ok_def)
    next
      case False
      have "stopped (po_setPairings [] p) ?stop" by (rule stop_stops [OF c0])
      moreover have "core ?X ?stop" using core_stop(1) [OF c0(1)] .
      moreover have "reaches table_init session_table_step (setPairings [] (po_table p))" using table_setPairings [OF table] by simp
      moreover have "po_ids (po_setPairings [] p) = po_ids p" by (simp add: po_setPairings_def)
      ultimately show ?thesis using False sids len unfolding down_def stopped_def by (auto simp: po_setPairings_def)
    qed
    then show "core ?X down" "po_cur down = None" "\<not> po_ln down" "\<not> po_serving down" "pt_pairings (po_table down) = []"
      "reaches table_init session_table_step (po_table down)" "\<And>i. i \<in> ?X \<Longrightarrow> id_shortIDs (po_ids down ! i) = gkeys (pc_Pairings cfg)" by blast+
  qed
  have serve: "portal_ok (startServe port (setPrevLocked prev u ((po_setPairings (pc_Pairings cfg) down)\<lparr>po_cfg := cfg, po_cur := Some cur\<rparr>)))" for port u
    by (rule ok_serve [OF d(1,2) prev d(6) cfg d(7)])
  have close: "core {} (closeIdentities (cur # opt_list prev) q)" if "core ?X q" for q
    using core_closeIdentities [OF that, of "cur # opt_list prev"] that by (simp add: core_def ids_ok_def Int_commute)
  show ?thesis
  proof (cases running)
    case True
    then have up: "po_cur p \<noteq> None" using run by simp
    show ?thesis
    proof (cases "bind bindPort")
      case None
      have loose: "i \<notin> ?X" if "i \<in> held_ids p" for i
        using core that unfolding core_def ids_ok_def held_ids_def open_id_def by blast
      have "id_shortIDs (po_ids (closeIdentities (cur # opt_list prev) p) ! i) = id_shortIDs (po_ids p ! i)" if "i \<in> held_ids p" for i
        using loose [OF that] held_bound [OF core that] by (auto simp: closeIdentities_nth)
      moreover have "held_ids (closeIdentities (cur # opt_list prev) p) = held_ids p" by (simp add: held_ids_def front_def)
      ultimately have "pairs_ok (closeIdentities (cur # opt_list prev) p)" using pairs by (simp add: pairs_ok_def)
      moreover have "lines_ok (closeIdentities (cur # opt_list prev) p)" using lines by (simp add: lines_ok_def)
      ultimately show ?thesis using close [OF core] True None by (simp add: bindAndServe_def portal_ok_def)
    next
      case (Some port)
      have "down = ?stop" using up by (simp add: down_def)
      then show ?thesis using serve True Some by (simp add: bindAndServe_def Let_def case_prod_unfold)
    qed
  next
    case False
    then have eq: "snd (if po_cur p \<noteq> None \<and> \<not> running then stopLocked lnErr (po_setPairings [] p) else ([], p)) = down"
      by (simp add: down_def)
    show ?thesis
    proof (cases "bind bindPort")
      case None
      have "portal_ok ((closeIdentities (cur # opt_list prev) down)\<lparr>po_cfg := cfg\<rparr>)"
        by (rule ok_down) (use d close cfg in simp_all)
      then show ?thesis using False None eq by (simp add: bindAndServe_def Let_def case_prod_unfold)
    next
      case (Some port)
      then show ?thesis using serve False eq by (simp add: bindAndServe_def Let_def case_prod_unfold)
    qed
  qed
qed

section \<open>Operations\<close>

lemma no_Config_pairings [simp]: "pc_Pairings noConfig = []"
  by (simp add: noConfig_def)

lemma ok_stop_clear:
  assumes "portal_ok p"
  shows "portal_ok ((snd (stopLocked e (po_setPairings [] p)))\<lparr>po_cfg := noConfig, po_port := 0\<rparr>)"
proof -
  let ?q = "snd (stopLocked e (po_setPairings [] p))"
  have ok: "portal_ok ?q" by (rule ok_stop [OF assms])
  have "core {} (po_setPairings [] p)" using assms by (simp add: portal_ok_def)
  then have down: "po_cur ?q = None" by (rule core_stop(2))
  have "core {} ?q" "pt_pairings (po_table ?q) = []" "reaches table_init session_table_step (po_table ?q)" "\<not> po_ln ?q" "\<not> po_serving ?q"
    using ok down by (auto simp: portal_ok_def pairs_ok_def lines_ok_def)
  then show ?thesis by (intro ok_down) (simp_all add: down)
qed

lemma new_ok:
  assumes core: "core X p" and lines: "lines_ok p" and pairs: "pairs_ok p" and new: "newIdentity z k c kp ids p = Some (i, q)"
  shows "core (insert i X) q" and "lines_ok q" and "pairs_ok q" and "po_cur q = po_cur p" and "po_serving q = po_serving p"
    and "rest q = rest p" and "po_prev q = po_prev p" and "po_retired q = po_retired p"
proof -
  have q: "q = p\<lparr>po_ids := po_ids q\<rparr>" "i = length (po_ids p)" "\<And>j. j < i \<Longrightarrow> po_ids q ! j = po_ids p ! j" using new_rest [OF new] by blast+
  show f: "po_cur q = po_cur p" "po_serving q = po_serving p" "rest q = rest p" "po_prev q = po_prev p" "po_retired q = po_retired p"
    using arg_cong [OF q(1), of po_cur] arg_cong [OF q(1), of po_serving] arg_cong [OF q(1), of rest] arg_cong [OF q(1), of po_prev]
      arg_cong [OF q(1), of po_retired] by (simp_all add: rest_def)
  show "core (insert i X) q" using core_new [OF core new] by simp
  show "lines_ok q" using lines restD [OF f(3)] f(1) by (simp add: lines_ok_def)
  have "held_ids q = held_ids p" using f by (simp add: held_ids_def front_def)
  then show "pairs_ok q" using pairs restD [OF f(3)] f(1) q(2,3) held_bound [OF core] by (simp add: pairs_ok_def)
qed

text \<open>The branch of \<open>configureLocked\<close> that starts anew.\<close>

lemma ok_newServe:
  assumes core: "core {} p" and lines: "lines_ok p" and pairs: "pairs_ok p" and z: "setShortIDs_total z"
    and cfg: "pc_Pairings cfg \<noteq> []" "distinct (gkeys (pc_Pairings cfg))"
  shows "portal_ok (snd (startAnew z bind lnErr cfg (po_cur p \<noteq> None \<and> po_serving p) bindPort (gkeys (pc_Pairings cfg)) p))"
proof (cases "newIdentity z (pc_PrivateKey cfg) (pc_CertPEM cfg) (pc_KeyPEM cfg) (gkeys (pc_Pairings cfg)) p")
  case None
  then show ?thesis using core lines pairs by (simp add: portal_ok_def startAnew_def)
next
  case (Some r)
  then obtain cur q where q: "newIdentity z (pc_PrivateKey cfg) (pc_CertPEM cfg) (pc_KeyPEM cfg) (gkeys (pc_Pairings cfg)) p = Some (cur, q)"
    by (cases r) auto
  note n = new_ok [OF core lines pairs q]
  have sid: "id_shortIDs (po_ids q ! cur) = gkeys (pc_Pairings cfg)" "length (po_ids q) = Suc cur" "cur = length (po_ids p)"
    "\<And>j. j < cur \<Longrightarrow> po_ids q ! j = po_ids p ! j" using new_rest [OF q] by blast+
  show ?thesis
  proof (cases "pc_Previous cfg")
    case None
    have "portal_ok (snd (bindAndServe bind lnErr cfg (po_cur p \<noteq> None \<and> po_serving p) bindPort cur None q))"
      by (rule ok_bindAndServe) (use n cfg sid in simp_all)
    then show ?thesis using q None by (simp add: startAnew_def)
  next
    case (Some v)
    show ?thesis
    proof (cases "newIdentity z (pi_PrivateKey v) (pi_CertPEM v) (pi_KeyPEM v) (gkeys (pc_Pairings cfg)) q")
      case None
      have "cur \<notin> front q" using n(1) by (auto simp: core_def ids_ok_def)
      then have "core {} (closeIdentities [cur] q)" using core_closeIdentities [OF n(1), of "[cur]"] by simp
      moreover have "po_ids (closeIdentities [cur] q) ! i = po_ids p ! i" if "i \<in> held_ids p" for i
        using held_bound [OF core that] sid by (simp add: closeIdentities_nth)
      ultimately have "portal_ok (closeIdentities [cur] q)"
        using ok_frame [of p "closeIdentities [cur] q"] n core lines pairs by (simp add: portal_ok_def)
      then show ?thesis using q Some None by (simp add: startAnew_def)
    next
      case (Some r)
      then obtain prev u where u: "newIdentity z (pi_PrivateKey v) (pi_CertPEM v) (pi_KeyPEM v) (gkeys (pc_Pairings cfg)) q = Some (prev, u)"
        by (cases r) auto
      note m = new_ok [OF n(1,2,3) u]
      have new: "prev = length (po_ids q)" "id_shortIDs (po_ids u ! prev) = gkeys (pc_Pairings cfg)" "\<And>j. j < prev \<Longrightarrow> po_ids u ! j = po_ids q ! j"
        using new_rest [OF u] by blast+
      then have ne: "prev \<noteq> cur" "id_shortIDs (po_ids u ! prev) = gkeys (pc_Pairings cfg)" "id_shortIDs (po_ids u ! cur) = gkeys (pc_Pairings cfg)"
        using sid by simp_all
      have "portal_ok (snd (bindAndServe bind lnErr cfg (po_cur p \<noteq> None \<and> po_serving p) bindPort cur (Some prev) u))"
        by (rule ok_bindAndServe) (use m n cfg ne in \<open>auto simp: insert_commute\<close>)
      then show ?thesis using q u \<open>pc_Previous cfg = Some v\<close> by (simp add: startAnew_def)
    qed
  qed
qed

text \<open>The branches of \<open>configureLocked\<close>.\<close>

lemma configure_cases:
  obtains (refused) err where "configureLocked z now bind lnErr cfg p = ([err], p)" "po_closed p \<or> checkConfig z (dropExpired now cfg) = Some err"
  | (emptied) e q where "stopLocked lnErr (po_setPairings [] p) = (e, q)" "configureLocked z now bind lnErr cfg p = (e, q\<lparr>po_cfg := noConfig, po_port := 0\<rparr>)"
      "pc_Pairings cfg = []"
  | (moved) "configureLocked z now bind lnErr cfg p = reidentifyLocked z (dropExpired now cfg) (gkeys (pc_Pairings cfg)) p"
      "po_cur p \<noteq> None \<and> po_serving p" "checkConfig z (dropExpired now cfg) = None" "pc_Pairings cfg \<noteq> []"
  | (anew) port where "configureLocked z now bind lnErr cfg p
        = startAnew z bind lnErr (dropExpired now cfg) (po_cur p \<noteq> None \<and> po_serving p) port (gkeys (pc_Pairings cfg)) p"
      "checkConfig z (dropExpired now cfg) = None" "pc_Pairings cfg \<noteq> []"
proof -
  let ?cfg = "dropExpired now cfg"
  let ?port = "if pc_ListenPort ?cfg = 0 then po_port p else pc_ListenPort ?cfg"
  have same: "pc_Pairings ?cfg = pc_Pairings cfg" by (simp add: dropExpired_def)
  show thesis
  proof (cases "po_closed p")
    case True
    then show thesis using refused [of ErrClosed] by (simp add: configureLocked_def)
  next
    case open_: False
    show thesis
    proof (cases "pc_Pairings cfg = []")
      case True
      then show thesis using open_ emptied by (cases "stopLocked lnErr (po_setPairings [] p)") (auto simp: configureLocked_def)
    next
      case some: False
      show thesis
      proof (cases "checkConfig z ?cfg")
        case (Some err)
        then show thesis using open_ some refused [of err] by (simp add: configureLocked_def Let_def)
      next
        case None
        then show thesis using open_ some same moved anew [of ?port] by (simp only: configureLocked_def Let_def if_False option.case) metis
      qed
    qed
  qed
qed

lemma ok_configure:
  assumes ok: "portal_ok p" and z: "setShortIDs_total z" and dist: "distinct (gkeys (pc_Pairings cfg))"
  shows "portal_ok (snd (configureLocked z now bind lnErr cfg p))"
proof -
  have same: "pc_Pairings (dropExpired now cfg) = pc_Pairings cfg" by (simp add: dropExpired_def)
  have base: "core {} p" "lines_ok p" "pairs_ok p" using ok by (simp_all add: portal_ok_def)
  show ?thesis
  proof (cases rule: configure_cases [of z now bind lnErr cfg p])
    case emptied
    then show ?thesis using ok_stop_clear [OF ok, of lnErr] by simp
  next
    case moved
    then show ?thesis using ok_reidentify [OF ok _ z moved(3)] dist same by simp
  next
    case (anew port)
    then show ?thesis using ok_newServe [OF base z, of "dropExpired now cfg"] dist same by simp
  qed (use ok in simp)
qed

lemma ok_updates [simp]:
  "portal_ok (p\<lparr>po_rebindTimer := b\<rparr>) = portal_ok p" "portal_ok (p\<lparr>po_closed := b\<rparr>) = portal_ok p"
  by (simp_all add: portal_ok_def lines_ok_def pairs_ok_def held_ids_def front_def)

lemma ok_serving: "portal_ok p \<Longrightarrow> portal_ok (p\<lparr>po_serving := False\<rparr>)"
  by (simp add: portal_ok_def lines_ok_def pairs_ok_def held_ids_def front_def)

lemma ok_rebind:
  assumes ok: "portal_ok p" and z: "setShortIDs_total z"
  shows "portal_ok (snd (rebindLocked z now bind lnErr p))"
proof -
  have dist: "distinct (gkeys (pc_Pairings (po_cfg p)))" using ok by (simp add: portal_ok_def pairs_ok_def)
  have "portal_ok (snd (stopLocked False (po_setPairings [] (p\<lparr>po_serving := False\<rparr>))))" by (rule ok_stop [OF ok_serving [OF ok]])
  moreover have "po_cur p \<noteq> None \<Longrightarrow> portal_ok (startServe port (p\<lparr>po_serving := False\<rparr>))" for port
    using ok by (auto simp: portal_ok_def lines_ok_def pairs_ok_def held_ids_def front_def startServe_def)
  ultimately show ?thesis using ok ok_configure [OF ok z dist]
    by (auto simp: rebindLocked_def Let_def case_prod_unfold split: option.split)
qed

lemma ok_Close: "portal_ok p \<Longrightarrow> portal_ok (snd (portal_Close lnErr p))"
  using ok_stop_clear [of "p\<lparr>po_rebindTimer := False, po_closed := True\<rparr>" lnErr] by (simp add: portal_Close_def Let_def case_prod_unfold)

lemma retired_subset: "set (po_retired (retireLocked i p)) \<subseteq> insert i (set (po_retired p))"
  by (auto simp: retireLocked_def Let_def)

lemma ok_expire:
  assumes ok: "portal_ok p"
  shows "portal_ok (expire now i p)"
proof (cases "po_closed p \<or> po_prev p \<noteq> Some i \<or> now < po_prevUntil p")
  case True
  then show ?thesis using ok by (simp only: expire_def if_P)
next
  case False
  let ?q = "setPrevLocked None 0 p"
  have core: "core {} p" using ok by (simp add: portal_ok_def)
  obtain cur where cur: "po_cur p = Some cur" "cur \<noteq> i" using core False by (cases "po_cur p") (auto simp: core_def wired_def ids_ok_def)
  have same: "p\<lparr>po_cur := Some cur\<rparr> = p" using cur by simp
  have "core {i} ?q" using core_front [OF core, of cur None 0] cur False unfolding same by (simp add: front_def insert_Diff_if)
  then have c: "core {} (retireLocked i ?q)" "po_cur (retireLocked i ?q) = po_cur p" "po_prev (retireLocked i ?q) = None"
    using core_retire [of "{i}" ?q i] cur by (simp_all add: setPrevLocked_def Let_def)
  have "rest (retireLocked i ?q) = rest p" by simp
  note r = restD [OF this]
  have held: "held_ids (retireLocked i ?q) \<subseteq> held_ids p"
    using retired_subset [of i ?q] False c(2,3) by (auto simp: held_ids_def front_def setPrevLocked_def Let_def)
  have "po_ids ?q = po_ids p" by (simp add: setPrevLocked_def Let_def)
  then have "id_shortIDs (po_ids (retireLocked i ?q) ! j) = id_shortIDs (po_ids p ! j)" if "j \<in> held_ids p" for j
    using retire_shortIDs [of j ?q i] held_bound [OF core that] by simp
  then have "pairs_ok (retireLocked i ?q)" using ok held r c(2) unfolding portal_ok_def pairs_ok_def by (simp add: subset_iff)
  moreover have "lines_ok (retireLocked i ?q)" using ok r c(2) by (simp add: portal_ok_def lines_ok_def)
  ultimately show ?thesis using False c(1) by (simp add: expire_def portal_ok_def)
qed

lemma ok_conn_move:
  assumes ok: "portal_ok p" and m: "conn_move p p'" "live_ok p'"
  shows "portal_ok p'"
proof -
  have core: "core {} p" using ok by (simp add: portal_ok_def)
  show ?thesis
    by (rule ok_frame [OF ok core_move [OF core m]]) (use conn_move_rest [OF m(1)] held_bound [OF core] in simp_all)
qed

lemma ok_accept:
  assumes ok: "portal_ok p"
  shows "portal_ok (accept_conn p)"
proof -
  have "live_ok (accept_conn p)"
    using ok by (auto simp: portal_ok_def core_def live_ok_def refs_ok_def conns_on_def accept_conn_def refers_def on_id_def)
  then have "core {} (accept_conn p)" using ok by (simp add: portal_ok_def core_def wired_def ids_ok_def front_def accept_conn_def)
  then show ?thesis using ok by (simp add: portal_ok_def lines_ok_def pairs_ok_def held_ids_def front_def accept_conn_def)
qed

lemma pick_front:
  assumes "wired p" "po_routes p = Some r" "pick z (po_ids p) r hello now = Some i"
  shows "po_cur p = Some i \<or> po_prev p = Some i \<and> now < po_prevUntil p"
proof -
  obtain c where c: "po_cur p = Some c" using assms(1,2) by (cases "po_cur p") (simp_all add: wired_def)
  then have "r = \<lparr>rt_cur = c, rt_prev = po_prev p, rt_prevUntil = po_prevUntil p\<rparr>" using assms(1,2) by (simp add: wired_def)
  then show ?thesis using assms(3) c by (auto simp: pick_def split: option.splits if_splits)
qed

lemma ok_route_pick:
  assumes ok: "portal_ok p" and c: "in_phase p c ReadingHello"
  shows "portal_ok (route_pick z now record c p)"
proof -
  have live: "live_ok p" and core: "core {} p" using ok by (simp_all add: portal_ok_def core_def)
  have move: "portal_ok (setPhase c ph p)" if "\<And>i. \<not> on_id i ph" "\<And>i. refers i ph \<Longrightarrow> i < length (po_ids p)" for ph
    by (rule ok_conn_move [OF ok move_setPhase live_setPhase [OF live]]) (use c that in \<open>auto simp: on_id_def\<close>)
  have "i < length (po_ids p)" if "po_routes p = Some r" "pick z (po_ids p) r hello now = Some i" for r hello i
    using pick_front [OF _ that] core by (auto simp: core_def ids_ok_def front_def)
  then show ?thesis using move by (auto simp: route_pick_def on_id_def refers_def split: option.split)
qed

lemma ok_updConn:
  assumes ok: "portal_ok p" and c: "c < length (po_conns p)" and f: "cn_phase (f (po_conns p ! c)) = cn_phase (po_conns p ! c)"
  shows "portal_ok (updPortalConn c f p)"
proof -
  have "conn_move p (updPortalConn c f p)" by (simp add: conn_move_def same_identity_def updPortalConn_def)
  moreover have "live_ok (updPortalConn c f p)" using live_updConn [of p c f] c f ok by (simp add: portal_ok_def core_def)
  ultimately show ?thesis by (rule ok_conn_move [OF ok])
qed

lemma ok_table:
  assumes "portal_ok p" "pt_pairings t = pt_pairings (po_table p)" "session_table_step (po_table p) t"
  shows "portal_ok (p\<lparr>po_table := t\<rparr>)"
  using assms reaches_step [of table_init session_table_step "po_table p" t]
  by (simp add: portal_ok_def lines_ok_def pairs_ok_def held_ids_def front_def)

lemma handleSession_pairings [simp]: "pt_pairings (handleSession started sid t) = pt_pairings t"
  by (simp add: handleSession_def split: option.split)

lemma ok_startSession:
  assumes ok: "portal_ok p" and c: "c < length (po_conns p)"
  shows "portal_ok (startSession c sid p)"
proof -
  let ?q = "if cn_state (po_conns p ! c) = admittedPending then updPortalConn c (\<lambda>x. x\<lparr>cn_state := admittedSession\<rparr>) p else p"
  have "portal_ok ?q" using ok_updConn [OF ok c] ok by simp
  then have "portal_ok (?q\<lparr>po_table := handleSession (cn_state (po_conns p ! c) = admittedPending) sid (po_table ?q)\<rparr>)"
    by (rule ok_table) (simp_all add: arrives)
  then show ?thesis by (simp add: startSession_def Let_def)
qed

lemma ok_identity_closes:
  assumes ok: "portal_ok p" and i: "i < length (po_ids p)" "id_closing (po_ids p ! i)"
  shows "portal_ok (closeIdentity i p)"
proof -
  have core: "core {} p" using ok by (simp add: portal_ok_def)
  have "i \<notin> front p" using core i(2) by (auto simp: core_def ids_ok_def open_id_def)
  then have "core {} (closeIdentity i p)" using core_closeIdentity [OF core i(1)] by simp
  then show ?thesis
    by (rule ok_frame [OF ok]) (use held_bound [OF core] in \<open>simp_all add: closeIdentity_def updIdentity_nth\<close>)
qed

lemma portal_preserved:
  assumes "portal_step z p p'" "setShortIDs_total z" "portal_ok p"
  shows "portal_ok p'"
  using assms
proof (induction rule: portal_step.induct)
  case (rebinds_later p now bind lnErr)
  then show ?case using ok_rebind [of "p\<lparr>po_rebindTimer := False\<rparr>"] by (simp add: rebindAfterUpdate_def)
next
  case (admits p c i)
  then show ?case using ok_conn_move [OF _ move_admit live_admit] by (simp add: portal_ok_def core_def)
next
  case (delivers p c i)
  then show ?case using ok_conn_move [OF _ move_deliver live_deliver] by (simp add: portal_ok_def core_def)
next
  case (masqueraded p c)
  then have "live_ok (setPhase c Dropped p)" using live_setPhase [of p c Dropped] by (simp add: portal_ok_def core_def on_id_def refers_def)
  then show ?case using ok_conn_move [OF _ move_setPhase] masqueraded by blast
next
  case (times_out c p)
  then show ?case using ok_updConn [of p c "\<lambda>x. x\<lparr>cn_state := admittedTimedOut\<rparr>"] by (simp add: conn_timeout_def)
next
  case (conn_closes p c i)
  then show ?case using ok_conn_move [OF _ move_ac_Close live_ac_Close] by (simp add: portal_ok_def core_def on_id_def)
next
  case (session_moves p t)
  then show ?case using ok_table by blast
qed (simp_all add: ok_configure ok_rebind portal_InterfaceUpdated_def ok_Close ok_expire ok_identity_closes ok_serving ok_accept ok_route_pick ok_startSession)

lemma portal_new: "portal_ok NewPortal"
  by (rule ok_down) (simp_all add: NewPortal_def core_def live_ok_def refs_ok_def wired_def ids_ok_def front_def newTable_def [symmetric]
      reaches_init table_init_def noConfig_def, simp add: newTable_def)

interpretation portal: invariant_system portal_init "portal_step z" "\<lambda>p. setShortIDs_total z \<longrightarrow> portal_ok p" for z
proof
  show "setShortIDs_total z \<longrightarrow> portal_ok p" if "portal_init p" for p using that portal_new by (simp add: portal_init_def)
  show "setShortIDs_total z \<longrightarrow> portal_ok p'" if "setShortIDs_total z \<longrightarrow> portal_ok p" "portal_step z p p'" for p p'
    using that portal_preserved by blast
qed

end
