(* ===== verification/Portal_Service.thy ===== *)
theory Portal_Service
  imports Portal_Rotation
begin

text \<open>
  What the samizdat portal guarantees while it is configured, rebound and closed: a rotation of its keys ends no connection, no identity is leaked, a
  ClientHello is taken only by an identity in force and for a short ID paired now, a configuration that fails leaves what serves as it was, and
  one that succeeds is what is served, so that configuring it again changes nothing.
\<close>

section \<open>Closed identities\<close>

abbreviation closed_at :: "portal \<Rightarrow> nat \<Rightarrow> bool" where
  "closed_at p i \<equiv> id_closed (po_ids p ! i)"

text \<open>From \<open>p\<close> to \<open>p'\<close>, identities without connections are closed, or everything is.\<close>

definition closes_idle :: "portal \<Rightarrow> portal \<Rightarrow> bool" where
  "closes_idle p p' \<longleftrightarrow> (\<forall>i < length (po_ids p). closed_at p' i \<longrightarrow> closed_at p i \<or> id_live (po_ids p ! i) = 0)"

definition closes_all :: "portal \<Rightarrow> portal \<Rightarrow> bool" where
  "closes_all p p' \<longleftrightarrow> (\<forall>i < length (po_ids p). closed_at p' i)"

lemma closes_idle_trans:
  assumes "closes_idle q r" "length (po_ids p) \<le> length (po_ids q)"
    and "\<And>j. j < length (po_ids p) \<Longrightarrow> (closed_at q j \<longrightarrow> closed_at p j \<or> id_live (po_ids p ! j) = 0) \<and> id_live (po_ids q ! j) = id_live (po_ids p ! j)"
  shows "closes_idle p r"
  unfolding closes_idle_def
proof (intro allI impI)
  fix i assume i: "i < length (po_ids p)" "closed_at r i"
  then have "closed_at q i \<or> id_live (po_ids q ! i) = 0" using assms(1,2) by (simp add: closes_idle_def)
  then show "closed_at p i \<or> id_live (po_ids p ! i) = 0" using assms(3) [OF i(1)] by auto
qed

lemma stop_closes:
  assumes "core X p" "i < length (po_ids p)" "i \<notin> X" "lines_ok p"
  shows "closed_at (snd (stopLocked e p)) i"
proof -
  have c: "core X (snd (stopLocked e p))" "po_cur (snd (stopLocked e p)) = None" by (rule core_stop [OF assms(1)])+
  have "length (po_ids (snd (stopLocked e p))) = length (po_ids p)" using stop_stops [OF assms(1,4), of e] by (simp add: stopped_def)
  then show ?thesis using c down_held [OF c] assms(2,3) unfolding core_def ids_ok_def held_ids_def by auto
qed

lemma retire_idle:
  assumes "j < length (po_ids p)"
  shows "closed_at (retireLocked i p) j \<longrightarrow> closed_at p j \<or> id_live (po_ids p ! j) = 0" "id_live (po_ids (retireLocked i p) ! j) = id_live (po_ids p ! j)"
  using assms by (auto simp: retireLocked_def Let_def closeIdentity_def updIdentity_nth)

lemma retireOld_idle:
  "length (po_ids (retireOld cur prev hs p)) = length (po_ids p) \<and> closes_idle p (retireOld cur prev hs p)"
  unfolding retireOld_def
proof (induction hs arbitrary: p)
  case (Cons h hs)
  let ?q = "if h \<noteq> cur \<and> Some h \<noteq> prev then retireLocked h p else p"
  let ?r = "fold (\<lambda>i p. if i \<noteq> cur \<and> Some i \<noteq> prev then retireLocked i p else p) hs ?q"
  have len: "length (po_ids ?q) = length (po_ids p)" by simp
  have "closes_idle p ?r"
    by (rule closes_idle_trans [of ?q]) (use Cons.IH [of ?q] retire_idle [of _ p h] in auto)
  moreover have "length (po_ids ?r) = length (po_ids p)" using Cons.IH [of ?q] len by simp
  ultimately show ?case by (simp only: fold.simps comp_apply simp_thms)
qed (simp add: closes_idle_def)

lemma setShortIDs_closed:
  "length (po_ids (fold (setShortIDs ids) js p)) = length (po_ids p) \<and> (\<forall>j < length (po_ids p). closed_at (fold (setShortIDs ids) js p) j = closed_at p j)"
proof (induction js arbitrary: p)
  case (Cons i js)
  then show ?case using Cons.IH [of "setShortIDs ids i p"] by (simp add: setShortIDs_def updIdentity_nth)
qed simp

lemma moveTo_idle: "closes_idle p (snd (moveTo z cfg ids held made cur prev p))"
proof -
  let ?u = "case pc_Previous cfg of None \<Rightarrow> 0 | Some v \<Rightarrow> pi_Until v"
  let ?p = "setPrevLocked prev ?u ((po_setPairings (pc_Pairings cfg) p)\<lparr>po_cur := Some cur\<rparr>)"
  have ids: "po_ids ?p = po_ids p" by (simp add: setPrevLocked_def Let_def po_setPairings_def)
  have r: "length (po_ids (retireOld cur prev held ?p)) = length (po_ids p)" "closes_idle p (retireOld cur prev held ?p)"
    using retireOld_idle [of cur prev held ?p] by (simp_all add: closes_idle_def ids)
  have "closes_idle p (fold (setShortIDs ids') js (retireOld cur prev held ?p))" for ids' js
    using r setShortIDs_closed [of ids' js "retireOld cur prev held ?p"] by (simp add: closes_idle_def)
  then show ?thesis using r(2) by (simp add: moveTo_def Let_def retireOld_def [symmetric] closes_idle_def)
qed

lemma made_new:
  assumes core: "core {} p" and q: "core (set made) q" "front q = front p" "\<And>j. j < length (po_ids p) \<Longrightarrow> po_ids q ! j = po_ids p ! j" and j: "j \<in> set made"
  shows "length (po_ids p) \<le> j"
proof (rule ccontr)
  assume "\<not> length (po_ids p) \<le> j"
  then have "j < length (po_ids p)" by simp
  moreover have "j \<notin> front p" "open_id (po_ids q ! j)" using q(1,2) j by (auto simp: core_def ids_ok_def)
  ultimately show False using core q(3) [of j] by (auto simp: core_def ids_ok_def open_id_def)
qed

lemma reidentify_idle:
  assumes core: "core {} p"
  shows "closes_idle p (snd (reidentifyLocked z cfg ids p))"
proof -
  let ?held = "opt_list (po_cur p) @ opt_list (po_prev p)"
  have held: "set ?held \<subseteq> front p" by (simp add: front_def)
  have core': "core (set []) p" using core by simp
  have via: "closes_idle p r" if "closes_idle q r" "length (po_ids p) \<le> length (po_ids q)" "\<And>j. j < length (po_ids p) \<Longrightarrow> po_ids q ! j = po_ids p ! j" for q r
    by (rule closes_idle_trans [OF that(1,2)]) (simp add: that(3))
  show ?thesis
  proof (cases "findIdentity z ?held (pc_PrivateKey cfg) (pc_CertPEM cfg) (pc_KeyPEM cfg) ids ([], p)")
    case None
    then show ?thesis by (simp add: reidentifyLocked_def closes_idle_def)
  next
    case (Some r)
    then obtain cur made q where r: "findIdentity z ?held (pc_PrivateKey cfg) (pc_CertPEM cfg) (pc_KeyPEM cfg) ids ([], p) = Some (cur, made, q)"
      by (cases r) auto
    note f = find_identity [OF core' held r]
    show ?thesis
    proof (cases "pc_Previous cfg")
      case None
      then show ?thesis using r via [OF moveTo_idle f(5,6)] by (simp add: reidentifyLocked_def)
    next
      case (Some v)
      show ?thesis
      proof (cases "findIdentity z ?held (pi_PrivateKey v) (pi_CertPEM v) (pi_KeyPEM v) ids (made, q)")
        case None
        have "closed_at (closeIdentities made q) j = closed_at p j" if "j < length (po_ids p)" for j
          using that made_new [OF core f(1,3,6), of j] f(5,6) by (auto simp: closeIdentities_nth)
        then show ?thesis using r Some None by (simp add: reidentifyLocked_def closes_idle_def)
      next
        case (Some r2)
        then obtain prev made' q' where r2: "findIdentity z ?held (pi_PrivateKey v) (pi_CertPEM v) (pi_KeyPEM v) ids (made, q) = Some (prev, made', q')"
          by (cases r2) auto
        have held': "set ?held \<subseteq> front q" using held f(3) by simp
        note g = find_identity [OF f(1) held' r2]
        have "closes_idle q (snd (moveTo z cfg ids ?held made' cur (Some prev) q'))"
          by (rule closes_idle_trans [OF moveTo_idle g(5)]) (simp add: g(6))
        from via [OF this f(5,6)] show ?thesis using r r2 \<open>pc_Previous cfg = Some v\<close> by (simp add: reidentifyLocked_def)
      qed
    qed
  qed
qed

lemma bind_closes:
  assumes core: "core X q" and lines: "lines_ok q" and X: "X = insert cur (set (opt_list prev))" and run: "running \<longleftrightarrow> po_cur q \<noteq> None \<and> po_serving q"
    and r: "r = snd (bindAndServe bind lnErr cfg running bindPort cur prev q)"
  shows "(\<forall>j < length (po_ids q). j \<notin> X \<longrightarrow> closed_at r j = closed_at q j) \<or> (\<forall>j < length (po_ids q). j \<notin> X \<longrightarrow> closed_at r j)"
proof -
  let ?stop = "snd (stopLocked lnErr (po_setPairings [] q))"
  have c0: "core X (po_setPairings [] q)" "lines_ok (po_setPairings [] q)" "po_ids (po_setPairings [] q) = po_ids q"
    using core lines by (auto simp: lines_ok_def) (auto simp: po_setPairings_def)
  have stop: "closed_at ?stop j" "length (po_ids ?stop) = length (po_ids q)" if "j < length (po_ids q)" "j \<notin> X" for j
    using stop_closes [OF c0(1) _ that(2) c0(2)] stop_stops [OF c0(1,2), of lnErr] that by (simp_all add: c0(3) stopped_def)
  have keep: "po_ids (startServe port (setPrevLocked prev u ((po_setPairings ps p)\<lparr>po_cfg := cfg, po_cur := y\<rparr>))) = po_ids p" for port u ps y p
    by (simp add: startServe_def setPrevLocked_def Let_def po_setPairings_def)
  have cl: "closed_at (closeIdentities (cur # opt_list prev) p) j = closed_at p j" if "j < length (po_ids p)" "j \<notin> X" for j p
    using that by (auto simp: closeIdentities_nth X)
  show ?thesis
  proof (cases "po_cur q = None")
    case True
    have old: "closed_at q j" if "j < length (po_ids q)" "j \<notin> X" for j
      using core that down_held [OF core True] by (auto simp: core_def ids_ok_def held_ids_def)
    have "po_ids r = po_ids q \<or> po_ids r = po_ids (closeIdentities (cur # opt_list prev) q)"
      using True run by (auto simp: r bindAndServe_def Let_def keep split: option.split)
    then show ?thesis using old cl by auto
  next
    case False
    show ?thesis
    proof (cases "running \<and> bind bindPort = None")
      case True
      then have "r = closeIdentities (cur # opt_list prev) q" using r by (simp add: bindAndServe_def)
      then show ?thesis using cl by simp
    next
      case notyet: False
      have "po_ids r = po_ids ?stop \<or> po_ids r = po_ids (closeIdentities (cur # opt_list prev) ?stop)"
        using False notyet run by (auto simp: r bindAndServe_def Let_def case_prod_unfold keep split: option.split)
      then show ?thesis using stop cl [of _ ?stop] by auto
    qed
  qed
qed

lemma newServe_closes:
  assumes core: "core {} p" and lines: "lines_ok p" and pairs: "pairs_ok p"
    and r: "r = snd (startAnew z bind lnErr cfg (po_cur p \<noteq> None \<and> po_serving p) bindPort ids p)"
  shows "closes_idle p r \<or> closes_all p r"
proof (cases "newIdentity z (pc_PrivateKey cfg) (pc_CertPEM cfg) (pc_KeyPEM cfg) ids p")
  case None
  then show ?thesis using r by (simp add: closes_idle_def startAnew_def)
next
  case (Some y)
  then obtain cur q where q: "newIdentity z (pc_PrivateKey cfg) (pc_CertPEM cfg) (pc_KeyPEM cfg) ids p = Some (cur, q)" by (cases y) auto
  note n = new_ok [OF core lines pairs q]
  have old: "cur = length (po_ids p)" "length (po_ids q) = Suc cur" "\<And>j. j < cur \<Longrightarrow> po_ids q ! j = po_ids p ! j" using new_rest [OF q] by blast+
  have run: "(po_cur p \<noteq> None \<and> po_serving p) \<longleftrightarrow> po_cur q \<noteq> None \<and> po_serving q" using n(4,5) by simp
  show ?thesis
  proof (cases "pc_Previous cfg")
    case None
    have "r = snd (bindAndServe bind lnErr cfg (po_cur p \<noteq> None \<and> po_serving p) bindPort cur None q)" using r q None by (simp add: startAnew_def)
    from bind_closes [OF n(1,2) _ run this] show ?thesis using old by (auto simp: closes_idle_def closes_all_def)
  next
    case (Some v)
    show ?thesis
    proof (cases "newIdentity z (pi_PrivateKey v) (pi_CertPEM v) (pi_KeyPEM v) ids q")
      case None
      have "closed_at (closeIdentities [cur] q) j = closed_at p j" if "j < length (po_ids p)" for j
        using that old by (simp add: closeIdentities_nth)
      then show ?thesis using r q Some None by (simp add: closes_idle_def startAnew_def)
    next
      case (Some w)
      then obtain prev u where u: "newIdentity z (pi_PrivateKey v) (pi_CertPEM v) (pi_KeyPEM v) ids q = Some (prev, u)" by (cases w) auto
      note m = new_ok [OF n(1,2,3) u]
      have old': "prev = length (po_ids q)" "length (po_ids u) = Suc prev" "\<And>j. j < prev \<Longrightarrow> po_ids u ! j = po_ids q ! j" using new_rest [OF u] by blast+
      have run': "(po_cur p \<noteq> None \<and> po_serving p) \<longleftrightarrow> po_cur u \<noteq> None \<and> po_serving u" using run m(4,5) by simp
      have ru: "r = snd (bindAndServe bind lnErr cfg (po_cur p \<noteq> None \<and> po_serving p) bindPort cur (Some prev) u)"
        using r q u \<open>pc_Previous cfg = Some v\<close> by (simp add: startAnew_def)
      have X: "insert prev {cur} = insert cur (set (opt_list (Some prev)))" by auto
      have "j < length (po_ids u)" "j \<notin> insert prev {cur}" "po_ids u ! j = po_ids p ! j" if "j < length (po_ids p)" for j
        using that old old' by simp_all
      then show ?thesis using bind_closes [OF m(1,2) X run' ru] unfolding closes_idle_def closes_all_def by metis
    qed
  qed
qed

lemma configure_closes:
  assumes ok: "portal_ok p"
  shows "closes_idle p (snd (configureLocked z now bind lnErr cfg p)) \<or> closes_all p (snd (configureLocked z now bind lnErr cfg p))"
proof -
  have base: "core {} p" "lines_ok p" "pairs_ok p" using ok by (simp_all add: portal_ok_def)
  show ?thesis
  proof (cases rule: configure_cases [of z now bind lnErr cfg p])
    case (emptied e q)
    have "core {} (po_setPairings [] p)" "lines_ok (po_setPairings [] p)" "po_ids (po_setPairings [] p) = po_ids p"
      using base by (auto simp: lines_ok_def) (auto simp: po_setPairings_def)
    then show ?thesis using stop_closes [of "{}" "po_setPairings [] p" _ lnErr] emptied by (simp add: closes_all_def)
  next
    case moved
    then show ?thesis using reidentify_idle [OF base(1)] by simp
  next
    case (anew port)
    then show ?thesis using newServe_closes [OF base] by simp
  qed (simp add: closes_idle_def)
qed

lemma stop_closes_all:
  assumes "portal_ok p" "po_ids p' = po_ids (snd (stopLocked e (po_setPairings [] p)))"
  shows "closes_all p p'"
proof -
  have "core {} (po_setPairings [] p)" "lines_ok (po_setPairings [] p)" "po_ids (po_setPairings [] p) = po_ids p"
    using assms(1) by (auto simp: portal_ok_def lines_ok_def) (auto simp: po_setPairings_def)
  then show ?thesis using stop_closes [of "{}" "po_setPairings [] p" _ e] assms(2) by (simp add: closes_all_def)
qed

lemma same_closes: "(\<And>i. i < length (po_ids p) \<Longrightarrow> closed_at p' i = closed_at p i) \<Longrightarrow> closes_idle p p'"
  by (simp add: closes_idle_def)

lemma move_closes: "conn_move p p' \<Longrightarrow> closes_idle p p'"
  by (rule same_closes) (simp add: conn_move_def same_identity_def)

lemma rebind_closes:
  assumes ok: "portal_ok p"
  shows "closes_idle p (snd (rebindLocked z now bind lnErr p)) \<or> closes_all p (snd (rebindLocked z now bind lnErr p))"
proof -
  let ?q = "p\<lparr>po_serving := False\<rparr>"
  have "closes_all ?q (snd (stopLocked False (po_setPairings [] ?q)))" by (rule stop_closes_all [OF ok_serving [OF ok] refl])
  then have "closes_all p (snd (stopLocked False (po_setPairings [] ?q)))" by (simp add: closes_all_def)
  then show ?thesis using configure_closes [OF ok, of z now bind lnErr "po_cfg p"]
    by (auto simp: rebindLocked_def Let_def case_prod_unfold startServe_def closes_idle_def split: option.split)
qed

lemma step_closes:
  assumes "portal_step z p p'" "portal_ok p"
  shows "closes_idle p p' \<or> closes_all p p'"
  using assms
proof (induction rule: portal_step.induct)
  case (configures cfg p now bind lnErr)
  then show ?case using configure_closes by simp
next
  case (rebinds p now bind lnErr)
  then show ?case using rebind_closes by simp
next
  case (rebinds_later p now bind lnErr)
  then have "portal_ok (p\<lparr>po_rebindTimer := False\<rparr>)" by simp
  from rebind_closes [OF this, of z now bind lnErr] show ?case by (simp add: rebindAfterUpdate_def closes_idle_def closes_all_def)
next
  case (closes p lnErr)
  let ?q = "p\<lparr>po_rebindTimer := False, po_closed := True\<rparr>"
  have "closes_all ?q (snd (portal_Close lnErr p))"
    by (rule stop_closes_all [of ?q _ lnErr]) (use closes in \<open>simp_all add: portal_Close_def Let_def case_prod_unfold\<close>)
  then show ?case by (simp add: closes_all_def)
next
  case (expires i p now)
  have "closes_idle p (retireLocked i (setPrevLocked None 0 p))"
    using retire_idle(1) [of _ "setPrevLocked None 0 p" i] by (simp add: closes_idle_def setPrevLocked_def Let_def)
  then show ?case by (simp add: expire_def closes_idle_def)
next
  case (identity_closes i p)
  then have "id_live (po_ids p ! i) = 0" by (simp add: portal_ok_def core_def live_ok_def live_at_def)
  then show ?case by (simp add: closes_idle_def closeIdentity_def updIdentity_nth)
next
  case (picks p c now rcd)
  have "conn_move p (route_pick z now rcd c p)" by (simp add: route_pick_def move_setPhase split: option.split)
  then show ?case using move_closes by blast
next
  case (times_out c p)
  show ?case by (simp add: conn_timeout_def updPortalConn_def closes_idle_def)
next
  case (starts p c i sid)
  show ?case by (simp add: startSession_def Let_def updPortalConn_def closes_idle_def)
qed (simp_all add: portal_InterfaceUpdated_def accept_conn_def same_closes move_closes move_admit move_deliver move_setPhase move_ac_Close)

section \<open>What the portal guarantees\<close>

lemma portal_reaches: "reaches portal_init (portal_step z) p \<Longrightarrow> setShortIDs_total z \<Longrightarrow> portal_ok p"
  using portal.reaches_inv [of z p] by blast

text \<open>A portal that rotates its key while a helper is connected: it serves under the first key, then under the second with the first as the previous
  identity, and a helper that still has the first key connects; then the first key is dropped.\<close>

definition exampleSamizdat :: samizdat where
  "exampleSamizdat = \<lparr>sz_keyPair = (\<lambda>c k. True), sz_public = (\<lambda>k. k), sz_newServer = (\<lambda>k c kp ids. True), sz_setShortIDs = (\<lambda>ids. ids \<noteq> []),
     sz_sessionID = Some, sz_verify = (\<lambda>sid pub ids. sid = pub)\<rparr>"

definition firstKey :: bytes where "firstKey = replicate 32 1"

definition secondKey :: bytes where "secondKey = replicate 32 2"

definition exampleConfig :: "bytes \<Rightarrow> PreviousIdentity option \<Rightarrow> PortalConfig" where
  "exampleConfig key prev = \<lparr>pc_ListenPort = 0, pc_PrivateKey = key, pc_CertPEM = [], pc_KeyPEM = [], pc_Pairings = [(exampleID, ''helper'')], pc_Previous = prev\<rparr>"

definition overlap :: PortalConfig where
  "overlap = exampleConfig secondKey (Some \<lparr>pi_PrivateKey = firstKey, pi_CertPEM = [], pi_KeyPEM = [], pi_Until = 100\<rparr>)"

definition exampleBind :: "u16 \<Rightarrow> u16 option" where "exampleBind port = Some 4000"

definition exampleServing :: portal where
  "exampleServing = snd (configureLocked exampleSamizdat 0 exampleBind False overlap
     (snd (configureLocked exampleSamizdat 0 exampleBind False (exampleConfig firstKey None) NewPortal)))"

definition exampleConnected :: portal where
  "exampleConnected = deliver 0 0 (admit 0 0 (route_pick exampleSamizdat 0 (Some (replicate 5 0 @ firstKey)) 0 (accept_conn exampleServing)))"

definition exampleRotated :: portal where
  "exampleRotated = snd (configureLocked exampleSamizdat 1 exampleBind False (exampleConfig secondKey None) exampleConnected)"

definition examplePublished :: portal where
  "examplePublished = (let p = startSession 0 exampleID exampleConnected in p\<lparr>po_table := publish 0 (openSession True 0 (po_table p))\<rparr>)"

lemma exampleSamizdat_total: "setShortIDs_total exampleSamizdat"
  by (simp add: setShortIDs_total_def exampleSamizdat_def)

lemma portal_ops:
  assumes r: "reaches portal_init (portal_step z) p"
  shows "distinct (gkeys (pc_Pairings cfg)) \<Longrightarrow> reaches portal_init (portal_step z) (snd (configureLocked z now bind lnErr cfg p))"
    and "po_serving p \<Longrightarrow> reaches portal_init (portal_step z) (accept_conn p)"
    and "in_phase p c ReadingHello \<Longrightarrow> reaches portal_init (portal_step z) (route_pick z now hello c p)"
    and "in_phase p c (Picked i) \<Longrightarrow> reaches portal_init (portal_step z) (admit c i p)"
    and "in_phase p c (Admitted i) \<Longrightarrow> reaches portal_init (portal_step z) (deliver c i p)"
    and "in_phase p c (Delivered i) \<Longrightarrow> reaches portal_init (portal_step z) (startSession c sid p)"
    and "session_table_step (po_table p) t \<Longrightarrow> pt_pairings t = pt_pairings (po_table p) \<Longrightarrow> reaches portal_init (portal_step z) (p\<lparr>po_table := t\<rparr>)"
  by (rule reaches_step [OF r], blast intro: portal_step.intros)+

lemma example_portal:
  "reaches portal_init (portal_step exampleSamizdat) exampleServing" "reaches portal_init (portal_step exampleSamizdat) exampleConnected"
  "portal_step exampleSamizdat exampleConnected exampleRotated" "reaches portal_init (portal_step exampleSamizdat) exampleRotated"
proof -
  have new: "reaches portal_init (portal_step exampleSamizdat) NewPortal" by (rule reaches_init) (simp add: portal_init_def)
  show serving: "reaches portal_init (portal_step exampleSamizdat) exampleServing"
    unfolding exampleServing_def by (intro portal_ops new) code_simp+
  show conn: "reaches portal_init (portal_step exampleSamizdat) exampleConnected"
    unfolding exampleConnected_def by (intro portal_ops serving) code_simp+
  show step: "portal_step exampleSamizdat exampleConnected exampleRotated"
    unfolding exampleRotated_def by (rule configures) code_simp
  show "reaches portal_init (portal_step exampleSamizdat) exampleRotated" by (rule reaches_step [OF conn step])
qed

text \<open>C9: Rotating keys, changing pairings, the expiry of an identity and the end of other connections cut no connection off. When a step of the portal
  leaves any of its identities open (that is, the portal as a whole was not stopped or moved to another port), an identity that holds an
  admitted connection is not closed by it, for every interleaving of configurations, rebinds, expiries and connections.\<close>

theorem rotation_spares_connections:
  assumes "reaches portal_init (portal_step z) p" and "setShortIDs_total z" and "portal_step z p p'"
    and "c < length (po_conns p)" and "on_id i (cn_phase (po_conns p ! c))" and "\<not> id_closed (po_ids p ! i)"
    and "j < length (po_ids p)" and "\<not> id_closed (po_ids p' ! j)"
  shows "\<not> id_closed (po_ids p' ! i)"
proof -
  have ok: "portal_ok p" by (rule portal_reaches [OF assms(1,2)])
  have live: "live_ok p" using ok by (simp add: portal_ok_def core_def)
  have i: "i < length (po_ids p)" using refs_nth [of p c i] live assms(4,5) by (simp add: live_ok_def refers_def)
  have "filter (\<lambda>x. on_id i (cn_phase x)) (po_conns p) \<noteq> []" using nth_mem [OF assms(4)] assms(5) by (auto simp: filter_empty_conv)
  then have "id_live (po_ids p ! i) \<noteq> 0" using live i by (simp add: live_ok_def live_at_def conns_on_def)
  then show ?thesis using step_closes [OF assms(3) ok] i assms(6,7,8) by (auto simp: closes_idle_def closes_all_def)
qed

theorem rotation_spares_connections_witness:
  "cn_phase (po_conns exampleRotated ! 0) = Delivered 0 \<and> id_retired (po_ids exampleRotated ! 0) \<and> \<not> id_closed (po_ids exampleRotated ! 0)"
proof -
  have "0 < length (po_conns exampleConnected)" "on_id 0 (cn_phase (po_conns exampleConnected ! 0))" "\<not> id_closed (po_ids exampleConnected ! 0)"
    "1 < length (po_ids exampleConnected)" "\<not> id_closed (po_ids exampleRotated ! 1)" by code_simp+
  note rotation_spares_connections [OF example_portal(2) exampleSamizdat_total example_portal(3) this]
  moreover have "cn_phase (po_conns exampleRotated ! 0) = Delivered 0" "id_retired (po_ids exampleRotated ! 0)" by code_simp+
  ultimately show ?thesis by blast
qed

text \<open>C10: No identity is leaked: one whose server still runs is the current one, the previous one, or a retired one on the portal's list that
  still has connections or is about to be closed. Its count is the number of its open connections.\<close>

theorem no_identity_leaks:
  assumes "reaches portal_init (portal_step z) p" and "setShortIDs_total z" and "i < length (po_ids p)" and "\<not> id_closed (po_ids p ! i)"
  shows "(po_cur p = Some i \<or> po_prev p = Some i
      \<or> i \<in> set (po_retired p) \<and> id_retired (po_ids p ! i) \<and> (id_closing (po_ids p ! i) \<or> 0 < conns_on p i))
    \<and> id_live (po_ids p ! i) = conns_on p i"
proof -
  have ok: "portal_ok p" by (rule portal_reaches [OF assms(1,2)])
  have at: "live_at (po_ids p ! i) (conns_on p i)" using ok assms(3) by (simp add: portal_ok_def core_def live_ok_def)
  have ids: "ids_ok {} p" using ok by (simp add: portal_ok_def core_def)
  have nn: "0 \<le> conns_on p i" by (simp add: conns_on_def)
  have "\<forall>i < length (po_ids p). id_closed (po_ids p ! i) \<or> i \<in> front p \<union> set (po_retired p) \<union> {}"
    "\<forall>i \<in> set (po_retired p). i < length (po_ids p) \<and> id_retired (po_ids p ! i)"
    using ids unfolding ids_ok_def by blast+
  then have "i \<in> front p \<or> i \<in> set (po_retired p) \<and> id_retired (po_ids p ! i)" using assms(3,4) by blast
  moreover have "i \<in> front p \<Longrightarrow> po_cur p = Some i \<or> po_prev p = Some i" by (auto simp: front_def split: option.splits)
  moreover have "id_retired (po_ids p ! i) \<Longrightarrow> id_closing (po_ids p ! i) \<or> 0 < conns_on p i"
    using at nn assms(4) by (auto simp: live_at_def)
  ultimately show ?thesis using at unfolding live_at_def by blast
qed

theorem no_identity_leaks_witness:
  "po_cur exampleRotated = Some 1 \<and> po_prev exampleRotated = None \<and> 0 \<in> set (po_retired exampleRotated)
    \<and> (id_closing (po_ids exampleRotated ! 0) \<or> 0 < conns_on exampleRotated 0)"
proof -
  have "0 < length (po_ids exampleRotated)" "\<not> id_closed (po_ids exampleRotated ! 0)" by code_simp+
  note no_identity_leaks [OF example_portal(4) exampleSamizdat_total this]
  moreover have "po_cur exampleRotated = Some 1" "po_prev exampleRotated = None" by code_simp+
  ultimately show ?thesis by simp
qed



section \<open>A failed configuration\<close>

text \<open>Nothing but identities that were made and are closed again.\<close>

definition untouched :: "portal \<Rightarrow> portal \<Rightarrow> bool" where
  "untouched p p' \<longleftrightarrow> p' = p\<lparr>po_ids := po_ids p'\<rparr> \<and> take (length (po_ids p)) (po_ids p') = po_ids p
     \<and> list_all id_closed (drop (length (po_ids p)) (po_ids p'))"

lemma untouched_refl [simp]: "untouched p p"
  by (simp add: untouched_def)

lemma closeIdentities_only: "closeIdentities js p = p\<lparr>po_ids := po_ids (closeIdentities js p)\<rparr>"
  unfolding closeIdentities_def
proof (induction js arbitrary: p)
  case (Cons i js)
  let ?r = "fold closeIdentity js (closeIdentity i p)"
  have "?r = (closeIdentity i p)\<lparr>po_ids := po_ids ?r\<rparr>" by (rule Cons.IH)
  also have "\<dots> = p\<lparr>po_ids := po_ids ?r\<rparr>" unfolding closeIdentity_def [of i p] updIdentity_def by simp
  finally show ?case by simp
qed simp

lemma untouched_close:
  assumes q: "q = p\<lparr>po_ids := po_ids q\<rparr>" "length (po_ids p) \<le> length (po_ids q)" "\<And>j. j < length (po_ids p) \<Longrightarrow> po_ids q ! j = po_ids p ! j"
    and js: "set js = {length (po_ids p)..<length (po_ids q)}"
  shows "untouched p (closeIdentities js q)"
proof -
  let ?r = "closeIdentities js q"
  have "?r = p\<lparr>po_ids := po_ids ?r\<rparr>" using closeIdentities_only [of js q] q(1) by (cases p, cases q, cases ?r) simp
  moreover have "take (length (po_ids p)) (po_ids ?r) = po_ids p"
    by (rule nth_equalityI) (use q js in \<open>simp_all add: closeIdentities_nth\<close>)
  moreover have "list_all id_closed (drop (length (po_ids p)) (po_ids ?r))"
    using q(2) js by (auto simp: list_all_length closeIdentities_nth)
  ultimately show ?thesis by (simp add: untouched_def)
qed

lemma stop_errors: "set (fst (stopLocked e p)) \<subseteq> {ErrStop}"
  by (auto simp: stopLocked_def Let_def)

lemma reidentify_fails:
  assumes core: "core {} p" and z: "setShortIDs_total z" and ids: "ids \<noteq> []" and r: "reidentifyLocked z cfg ids p = (errs, p')" "errs \<noteq> []"
  shows "untouched p p'"
proof -
  let ?held = "opt_list (po_cur p) @ opt_list (po_prev p)"
  have fine: "fst (moveTo z cfg ids held made cur prev q) = []" for held made cur prev q
    using z ids by (simp add: moveTo_def Let_def setShortIDs_total_def)
  show ?thesis
  proof (cases "findIdentity z ?held (pc_PrivateKey cfg) (pc_CertPEM cfg) (pc_KeyPEM cfg) ids ([], p)")
    case None
    then show ?thesis using r by (simp add: reidentifyLocked_def)
  next
    case (Some y)
    then obtain cur made q where f: "findIdentity z ?held (pc_PrivateKey cfg) (pc_CertPEM cfg) (pc_KeyPEM cfg) ids ([], p) = Some (cur, made, q)"
      by (cases y) auto
    have made: "made = [] \<and> q = p \<or> (\<exists>d. made = [length (po_ids p)] \<and> q = p\<lparr>po_ids := po_ids p @ [d]\<rparr>)"
      using f by (auto simp: findIdentity_def newIdentity_def split: option.splits if_splits)
    show ?thesis
    proof (cases "pc_Previous cfg")
      case None
      then show ?thesis using r f fine [of ?held made cur None q] by (simp add: reidentifyLocked_def)
    next
      case (Some v)
      show ?thesis
      proof (cases "findIdentity z ?held (pi_PrivateKey v) (pi_CertPEM v) (pi_KeyPEM v) ids (made, q)")
        case None
        then have "p' = closeIdentities made q" using r f Some by (simp add: reidentifyLocked_def)
        moreover have "untouched p (closeIdentities made q)" by (rule untouched_close) (use made in \<open>auto simp: nth_append\<close>)
        ultimately show ?thesis by simp
      next
        case (Some y)
        then show ?thesis using r f \<open>pc_Previous cfg = Some v\<close> fine by (cases y) (auto simp: reidentifyLocked_def dest: arg_cong [of _ _ fst])
      qed
    qed
  qed
qed

lemma bind_fails:
  assumes "bindAndServe bind lnErr cfg True bindPort cur prev q = (errs, p')" "errs \<noteq> []" "ErrStop \<notin> set errs"
  shows "p' = closeIdentities (cur # opt_list prev) q"
proof (cases "bind bindPort")
  case None
  then show ?thesis using assms(1) by (simp add: bindAndServe_def)
next
  case (Some port)
  then have "errs = fst (stopLocked lnErr (po_setPairings [] q))" using assms(1) by (auto simp: bindAndServe_def Let_def case_prod_unfold)
  then have "set errs \<subseteq> {ErrStop}" using stop_errors by simp
  then show ?thesis using assms(2,3) by (cases errs) auto
qed

lemma anew_fails:
  assumes "startAnew z bind lnErr cfg True port ids p = (errs, p')" "errs \<noteq> []" "ErrStop \<notin> set errs"
  shows "untouched p p'"
proof (cases "newIdentity z (pc_PrivateKey cfg) (pc_CertPEM cfg) (pc_KeyPEM cfg) ids p")
  case None
  then show ?thesis using assms by (simp add: startAnew_def)
next
  case (Some y)
  then obtain d where q: "newIdentity z (pc_PrivateKey cfg) (pc_CertPEM cfg) (pc_KeyPEM cfg) ids p = Some (length (po_ids p), p\<lparr>po_ids := po_ids p @ [d]\<rparr>)"
    by (auto simp: newIdentity_def split: if_splits)
  have one: "untouched p (closeIdentities [length (po_ids p)] (p\<lparr>po_ids := po_ids p @ [d]\<rparr>))"
    by (rule untouched_close) (auto simp: nth_append)
  show ?thesis
  proof (cases "pc_Previous cfg")
    case None
    then show ?thesis using assms q one bind_fails [of bind lnErr cfg port "length (po_ids p)" None] by (simp add: startAnew_def)
  next
    case (Some v)
    show ?thesis
    proof (cases "newIdentity z (pi_PrivateKey v) (pi_CertPEM v) (pi_KeyPEM v) ids (p\<lparr>po_ids := po_ids p @ [d]\<rparr>)")
      case None
      then show ?thesis using assms q one Some by (simp add: startAnew_def)
    next
      case (Some w)
      then obtain d' where u: "newIdentity z (pi_PrivateKey v) (pi_CertPEM v) (pi_KeyPEM v) ids (p\<lparr>po_ids := po_ids p @ [d]\<rparr>)
          = Some (Suc (length (po_ids p)), p\<lparr>po_ids := po_ids p @ [d, d']\<rparr>)"
        by (auto simp: newIdentity_def split: if_splits)
      have "untouched p (closeIdentities [length (po_ids p), Suc (length (po_ids p))] (p\<lparr>po_ids := po_ids p @ [d, d']\<rparr>))"
        by (rule untouched_close) (auto simp: nth_append)
      then show ?thesis using assms q u \<open>pc_Previous cfg = Some v\<close> bind_fails [of bind lnErr cfg port "length (po_ids p)" "Some (Suc (length (po_ids p)))"]
        by (simp add: startAnew_def)
    qed
  qed
qed

text \<open>C11: A configuration that fails on a portal that serves leaves everything as it was: listener, port, identities, routes, pairings, sessions, connections and
  the configuration itself; identities made on the way are closed again. The one error that is reported although the configuration
  has been taken over is that the old listener did not close cleanly.\<close>

theorem failed_configure_keeps_serving:
  assumes "reaches portal_init (portal_step z) p" and "setShortIDs_total z" and "po_cur p \<noteq> None" and "po_serving p"
    and "configureLocked z now bind lnErr cfg p = (errs, p')" and "errs \<noteq> []" and "ErrStop \<notin> set errs"
  shows "untouched p p'"
proof -
  have core: "core {} p" using portal_reaches [OF assms(1,2)] by (simp add: portal_ok_def)
  show ?thesis
  proof (cases rule: configure_cases [of z now bind lnErr cfg p])
    case (emptied e q)
    then have "set errs \<subseteq> {ErrStop}" using assms(5) stop_errors [of lnErr "po_setPairings [] p"] by simp
    then show ?thesis using assms(6,7) by (cases errs) auto
  next
    case moved
    then show ?thesis using reidentify_fails [OF core assms(2), of "gkeys (pc_Pairings cfg)" "dropExpired now cfg" errs p'] assms(5,6) by simp
  next
    case (anew port)
    then have "startAnew z bind lnErr (dropExpired now cfg) True port (gkeys (pc_Pairings cfg)) p = (errs, p')" using assms(3-5) by simp
    then show ?thesis using anew_fails assms(6,7) by blast
  qed (use assms(5) in simp)
qed

theorem failed_configure_keeps_serving_witness:
  "untouched exampleConnected (snd (configureLocked exampleSamizdat 1 (\<lambda>port. None) False ((exampleConfig secondKey None)\<lparr>pc_ListenPort := 5000\<rparr>) exampleConnected))"
proof -
  let ?r = "configureLocked exampleSamizdat 1 (\<lambda>port. None) False ((exampleConfig secondKey None)\<lparr>pc_ListenPort := 5000\<rparr>) exampleConnected"
  have r: "fst ?r = [ErrListen]" "po_cur exampleConnected \<noteq> None" "po_serving exampleConnected" by code_simp+
  show ?thesis
    by (rule failed_configure_keeps_serving [OF example_portal(2) exampleSamizdat_total r(2,3) prod.collapse [symmetric]]) (simp_all add: r(1))
qed

section \<open>A successful configuration\<close>

text \<open>The portal serves \<open>cfg\<close>: under its key and certificate, and under those of its previous identity until that one's time.\<close>

definition serves :: "PortalConfig \<Rightarrow> portal \<Rightarrow> bool" where
  "serves cfg p \<longleftrightarrow> po_serving p \<and> po_cfg p = cfg
     \<and> (\<exists>i. po_cur p = Some i \<and> is_identity (pc_PrivateKey cfg) (pc_CertPEM cfg) (pc_KeyPEM cfg) (po_ids p ! i))
     \<and> po_prevTimer p = po_prev p
     \<and> (case pc_Previous cfg of
          None \<Rightarrow> po_prev p = None \<and> po_prevUntil p = 0
        | Some v \<Rightarrow> po_prevUntil p = pi_Until v
            \<and> (\<exists>i. po_prev p = Some i \<and> is_identity (pi_PrivateKey v) (pi_CertPEM v) (pi_KeyPEM v) (po_ids p ! i)))"

definition same_keys :: "portal \<Rightarrow> portal \<Rightarrow> bool" where
  "same_keys p p' \<longleftrightarrow> (\<forall>i < length (po_ids p). i < length (po_ids p') \<and> (\<forall>k c kp. is_identity k c kp (po_ids p' ! i) = is_identity k c kp (po_ids p ! i)))"

lemma same_keys_trans: "same_keys p q \<Longrightarrow> same_keys q r \<Longrightarrow> same_keys p r"
  by (simp add: same_keys_def)

lemma keys_close: "same_keys p (closeIdentities js p)"
  by (simp add: same_keys_def closeIdentities_nth is_identity_def)

lemma keys_ids: "po_ids p' = po_ids p \<Longrightarrow> same_keys p p'"
  by (simp add: same_keys_def)

lemma keys_move: "conn_move p p' \<Longrightarrow> same_keys p p'"
  by (simp add: same_keys_def conn_move_def same_identity_def is_identity_def)

lemma keys_stop:
  assumes "live_ok p"
  shows "same_keys p (snd (stopLocked e p))"
proof (cases "po_cur p = None")
  case False
  let ?q = "stopRoutingLocked (p\<lparr>po_serving := False\<rparr>)"
  have "live_ok (p\<lparr>po_serving := False\<rparr>)" using assms by (simp add: live_ok_def refs_ok_def conns_on_def)
  then have "same_keys (p\<lparr>po_serving := False\<rparr>) ?q" using stopRouting_moves keys_move by blast
  then have "same_keys p ?q" by (simp add: same_keys_def)
  moreover have "same_keys ?q (closeIdentities js (?q\<lparr>po_prevTimer := None, po_routes := None\<rparr>))" for js
    using keys_close [of "?q\<lparr>po_prevTimer := None, po_routes := None\<rparr>" js] by (simp add: same_keys_def)
  ultimately have "same_keys p (closeIdentities js (?q\<lparr>po_prevTimer := None, po_routes := None\<rparr>))" for js
    by (blast intro: same_keys_trans)
  then show ?thesis unfolding stopLocked_def if_not_P [OF False] Let_def snd_conv by (simp add: same_keys_def)
qed (simp add: stopLocked_def same_keys_def)

lemma keys_retire: "same_keys p (retireLocked i p)"
  by (simp add: same_keys_def retireLocked_def Let_def closeIdentity_def updIdentity_nth is_identity_def)

lemma keys_retireOld: "same_keys p (retireOld cur prev hs p)"
  unfolding retireOld_def
proof (induction hs arbitrary: p)
  case (Cons h hs)
  let ?q = "if h \<noteq> cur \<and> Some h \<noteq> prev then retireLocked h p else p"
  have "same_keys p ?q" using keys_retire keys_ids by simp
  from same_keys_trans [OF this Cons.IH [of ?q]] show ?case by (simp only: fold.simps comp_apply)
qed (simp add: same_keys_def)

lemma keys_setShortIDs: "same_keys p (fold (setShortIDs ids) js p)"
proof (induction js arbitrary: p)
  case (Cons j js)
  have "same_keys p (setShortIDs ids j p)" by (simp add: same_keys_def setShortIDs_def updIdentity_nth is_identity_def)
  from same_keys_trans [OF this Cons.IH [of "setShortIDs ids j p"]] show ?case by simp
qed (simp add: same_keys_def)

lemma new_is: "newIdentity z k c kp ids p = Some (i, q) \<Longrightarrow> is_identity k c kp (po_ids q ! i) \<and> same_keys p q \<and> i < length (po_ids q)"
  by (auto simp: newIdentity_def is_identity_def same_keys_def nth_append split: if_splits)

lemma find_is:
  assumes "findIdentity z held k c kp ids (made, p) = Some (i, made', q)" "\<And>j. j \<in> set held \<Longrightarrow> j < length (po_ids p)"
  shows "is_identity k c kp (po_ids q ! i) \<and> same_keys p q \<and> i < length (po_ids q)"
  using assms new_is by (auto simp: findIdentity_def find_Some_iff same_keys_def split: option.splits)

text \<open>The two places that install identities.\<close>

lemma serves_moveTo:
  assumes "fst (moveTo z cfg ids held made cur prev p) = []" "po_serving p"
    and "cur < length (po_ids p)" "is_identity (pc_PrivateKey cfg) (pc_CertPEM cfg) (pc_KeyPEM cfg) (po_ids p ! cur)"
    and "case pc_Previous cfg of None \<Rightarrow> prev = None
      | Some v \<Rightarrow> (\<exists>i < length (po_ids p). prev = Some i \<and> is_identity (pi_PrivateKey v) (pi_CertPEM v) (pi_KeyPEM v) (po_ids p ! i))"
  shows "serves cfg (snd (moveTo z cfg ids held made cur prev p))"
proof -
  let ?u = "case pc_Previous cfg of None \<Rightarrow> 0 | Some v \<Rightarrow> pi_Until v"
  let ?p = "setPrevLocked prev ?u ((po_setPairings (pc_Pairings cfg) p)\<lparr>po_cur := Some cur\<rparr>)"
  let ?q = "retireOld cur prev held ?p"
  let ?r = "fold (setShortIDs ids) (filter (\<lambda>i. i \<notin> set made) (cur # opt_list prev @ po_retired ?q)) ?q"
  have res: "snd (moveTo z cfg ids held made cur prev p) = ?r\<lparr>po_cfg := cfg\<rparr>"
  proof -
    have "moveTo z cfg ids held made cur prev p
        = (if filter (\<lambda>i. i \<notin> set made) (cur # opt_list prev @ po_retired ?q) \<noteq> [] \<and> \<not> sz_setShortIDs z ids then ([ErrShortIDs], ?q) else ([], ?r\<lparr>po_cfg := cfg\<rparr>))"
      unfolding moveTo_def Let_def retireOld_def by (rule refl)
    then show ?thesis using assms(1) by (metis fst_conv list.distinct(1) snd_conv)
  qed
  have "po_ids ?p = po_ids p" by (simp add: setPrevLocked_def Let_def po_setPairings_def)
  then have keys: "same_keys p ?r"
    using same_keys_trans [OF keys_ids same_keys_trans [OF keys_retireOld keys_setShortIDs], of ?p p] by blast
  have front: "po_cur ?r = Some cur \<and> po_prev ?r = prev \<and> po_prevUntil ?r = (if prev = None then 0 else ?u) \<and> po_prevTimer ?r = prev \<and> po_serving ?r = po_serving p"
  proof -
    have s: "po_cur (fold (setShortIDs ids) js t) = po_cur t \<and> po_prev (fold (setShortIDs ids) js t) = po_prev t \<and> po_prevUntil (fold (setShortIDs ids) js t) = po_prevUntil t
        \<and> po_prevTimer (fold (setShortIDs ids) js t) = po_prevTimer t \<and> po_serving (fold (setShortIDs ids) js t) = po_serving t" for js t
      by (induction js arbitrary: t) (simp_all add: setShortIDs_def)
    have "po_cur (retireOld cur prev hs t) = po_cur t \<and> po_prev (retireOld cur prev hs t) = po_prev t \<and> po_prevUntil (retireOld cur prev hs t) = po_prevUntil t
        \<and> po_prevTimer (retireOld cur prev hs t) = po_prevTimer t \<and> po_serving (retireOld cur prev hs t) = po_serving t" for hs t
      unfolding retireOld_def by (induction hs arbitrary: t) (simp_all add: retireLocked_def Let_def closeIdentity_def)
    then show ?thesis using s by (simp add: setPrevLocked_def Let_def po_setPairings_def)
  qed
  show ?thesis unfolding res serves_def using keys assms(2-5) front
    by (auto simp: same_keys_def split: option.splits)
qed

definition named_prev :: "PortalConfig \<Rightarrow> nat option \<Rightarrow> portal \<Rightarrow> bool" where
  "named_prev cfg prev p \<longleftrightarrow> (case pc_Previous cfg of None \<Rightarrow> prev = None
      | Some v \<Rightarrow> (\<exists>i < length (po_ids p). prev = Some i \<and> is_identity (pi_PrivateKey v) (pi_CertPEM v) (pi_KeyPEM v) (po_ids p ! i)))"

lemma serves_bind:
  assumes r: "bindAndServe bind lnErr cfg running bindPort cur prev q = (errs, p')" "ErrListen \<notin> set errs" and live: "live_ok q"
    and cur: "cur < length (po_ids q)" "is_identity (pc_PrivateKey cfg) (pc_CertPEM cfg) (pc_KeyPEM cfg) (po_ids q ! cur)"
    and prev: "named_prev cfg prev q"
  shows "serves cfg p'"
proof -
  let ?stop = "snd (stopLocked lnErr (po_setPairings [] q))"
  let ?u = "case pc_Previous cfg of None \<Rightarrow> 0 | Some v \<Rightarrow> pi_Until v"
  obtain t port where t: "p' = startServe port (setPrevLocked prev ?u ((po_setPairings (pc_Pairings cfg) t)\<lparr>po_cfg := cfg, po_cur := Some cur\<rparr>))"
      "t = q \<or> t = ?stop"
    using r by (auto simp: bindAndServe_def Let_def case_prod_unfold split: option.splits if_splits)
  have "live_ok (po_setPairings [] q)" using live by (simp add: live_ok_def refs_ok_def conns_on_def po_setPairings_def)
  from keys_stop [OF this, of lnErr] have "same_keys q ?stop" by (simp add: same_keys_def po_setPairings_def)
  then have "same_keys q t" using t(2) keys_ids [of q q] by auto
  moreover have "po_ids p' = po_ids t" by (simp add: t(1) startServe_def setPrevLocked_def Let_def po_setPairings_def)
  ultimately have "same_keys q p'" by (simp add: same_keys_def)
  moreover have "po_cur p' = Some cur" "po_prev p' = prev" "po_prevTimer p' = prev" "po_prevUntil p' = (if prev = None then 0 else ?u)"
    "po_serving p'" "po_cfg p' = cfg"
    by (simp_all add: t(1) startServe_def setPrevLocked_def Let_def)
  ultimately show ?thesis using cur prev by (auto simp: serves_def named_prev_def same_keys_def split: option.splits)
qed

lemma serves_anew:
  assumes r: "startAnew z bind lnErr cfg running port ids p = (errs, p')" "set errs \<subseteq> {ErrStop}" and core: "core {} p"
  shows "serves cfg p'"
proof -
  obtain cur q where q: "newIdentity z (pc_PrivateKey cfg) (pc_CertPEM cfg) (pc_KeyPEM cfg) ids p = Some (cur, q)"
    using r by (auto simp: startAnew_def split: option.splits)
  note n = new_is [OF q]
  have cq: "core {cur} q" using core_new [OF core q] by simp
  show ?thesis
  proof (cases "pc_Previous cfg")
    case None
    then have "bindAndServe bind lnErr cfg running port cur None q = (errs, p')" using r q by (simp add: startAnew_def)
    then show ?thesis
      by (rule serves_bind) (use r(2) cq n None in \<open>auto simp: core_def named_prev_def\<close>)
  next
    case (Some v)
    obtain prev u where u: "newIdentity z (pi_PrivateKey v) (pi_CertPEM v) (pi_KeyPEM v) ids q = Some (prev, u)"
      using r q Some by (auto simp: startAnew_def split: option.splits)
    note m = new_is [OF u]
    have cu: "core {prev, cur} u" using core_new [OF cq u] by simp
    have "bindAndServe bind lnErr cfg running port cur (Some prev) u = (errs, p')" using r q u Some by (simp add: startAnew_def)
    then show ?thesis
      by (rule serves_bind) (use r(2) cu n m Some in \<open>auto simp: core_def named_prev_def same_keys_def\<close>)
  qed
qed

lemma serves_reidentify:
  assumes r: "reidentifyLocked z cfg ids p = (errs, p')" "set errs \<subseteq> {ErrStop}" and core: "core {} p" and up: "po_serving p"
  shows "serves cfg p'"
proof -
  let ?held = "opt_list (po_cur p) @ opt_list (po_prev p)"
  have len: "j \<in> set ?held \<Longrightarrow> j < length (po_ids p)" for j using core by (auto simp: core_def ids_ok_def front_def)
  obtain cur made q where f: "findIdentity z ?held (pc_PrivateKey cfg) (pc_CertPEM cfg) (pc_KeyPEM cfg) ids ([], p) = Some (cur, made, q)"
    using r by (cases "findIdentity z ?held (pc_PrivateKey cfg) (pc_CertPEM cfg) (pc_KeyPEM cfg) ids ([], p)") (auto simp: reidentifyLocked_def)
  note n = find_is [OF f len]
  have sq: "po_serving q" using f up by (auto simp: findIdentity_def newIdentity_def split: option.splits if_splits)
  have only: "errs = [] \<or> errs = [ErrShortIDs]" if "moveTo z cfg ids ?held made' cur prev t = (errs, p')" for made' prev t
    using that by (auto simp: moveTo_def Let_def split: if_splits)
  show ?thesis
  proof (cases "pc_Previous cfg")
    case None
    then have m: "moveTo z cfg ids ?held made cur None q = (errs, p')" using r f by (simp add: reidentifyLocked_def)
    then show ?thesis using serves_moveTo [of z cfg ids ?held made cur None q] only [OF m] r(2) sq n None by auto
  next
    case (Some v)
    obtain prev made' t where g: "findIdentity z ?held (pi_PrivateKey v) (pi_CertPEM v) (pi_KeyPEM v) ids (made, q) = Some (prev, made', t)"
      using r f Some
      by (cases "findIdentity z ?held (pi_PrivateKey v) (pi_CertPEM v) (pi_KeyPEM v) ids (made, q)") (auto simp: reidentifyLocked_def)
    have len': "j \<in> set ?held \<Longrightarrow> j < length (po_ids q)" for j using len n by (simp add: same_keys_def)
    note h = find_is [OF g len']
    have st: "po_serving t" using g sq by (auto simp: findIdentity_def newIdentity_def split: option.splits if_splits)
    have m: "moveTo z cfg ids ?held made' cur (Some prev) t = (errs, p')" using r f g Some by (simp add: reidentifyLocked_def)
    then show ?thesis using serves_moveTo [of z cfg ids ?held made' cur "Some prev" t] only [OF m] r(2) st n h Some by (auto simp: same_keys_def)
  qed
qed

lemma configure_serves:
  assumes core: "core {} p" and "pc_Pairings cfg \<noteq> []" and r: "configureLocked z now bind lnErr cfg p = (errs, p')" "set errs \<subseteq> {ErrStop}"
  shows "serves (dropExpired now cfg) p'"
proof (cases rule: configure_cases [of z now bind lnErr cfg p])
  case (refused err)
  then have "err = ErrStop" "errs = [err]" using r by auto
  then show ?thesis using refused(2) r refused(1) by (auto simp: checkConfig_def checkIdentity_def configureLocked_def split: option.splits if_splits)
next
  case emptied
  then show ?thesis using assms(2) by simp
next
  case moved
  then show ?thesis using serves_reidentify [OF _ r(2) core] r(1) by simp
next
  case (anew port)
  then show ?thesis using serves_anew [OF _ r(2) core] r(1) by simp
qed

text \<open>C12: A configuration that succeeds, or only reports that the old listener did not close cleanly, is what the portal then serves: it accepts connections, the
  current identity has the key and certificate configured, the previous one those of \<open>Previous\<close> until its time unless that is already
  up, the pairings are installed, and both identities accept exactly the paired short IDs.\<close>

theorem configure_takes_effect:
  assumes "reaches portal_init (portal_step z) p" and "setShortIDs_total z" and "distinct (gkeys (pc_Pairings cfg))" and "pc_Pairings cfg \<noteq> []"
    and "configureLocked z now bind lnErr cfg p = (errs, p')" and "set errs \<subseteq> {ErrStop}"
  shows "serves (dropExpired now cfg) p' \<and> pt_pairings (po_table p') = pc_Pairings cfg
    \<and> (\<forall>i. po_cur p' = Some i \<or> po_prev p' = Some i \<longrightarrow> \<not> id_closed (po_ids p' ! i) \<and> id_shortIDs (po_ids p' ! i) = gkeys (pc_Pairings cfg))"
proof -
  have ok: "portal_ok p" by (rule portal_reaches [OF assms(1,2)])
  have core: "core {} p" using ok by (simp add: portal_ok_def)
  have ok': "portal_ok p'" using ok_configure [OF ok assms(2,3), of now bind lnErr] assms(5) by simp
  have s: "serves (dropExpired now cfg) p'" by (rule configure_serves [OF core assms(4-6)])
  have "pc_Pairings (po_cfg p') = pc_Pairings cfg" "po_cur p' \<noteq> None" using s by (auto simp: serves_def dropExpired_def)
  moreover have "i \<in> front p'" if "po_cur p' = Some i \<or> po_prev p' = Some i" for i using that by (auto simp: front_def)
  ultimately show ?thesis using s ok' by (auto simp: portal_ok_def pairs_ok_def held_ids_def core_def ids_ok_def open_id_def)
qed

theorem configure_takes_effect_witness:
  "po_cur exampleRotated = Some 1 \<and> serves (exampleConfig secondKey None) exampleRotated
    \<and> id_shortIDs (po_ids exampleRotated ! 1) = [exampleID]"
proof -
  let ?cfg = "exampleConfig secondKey None"
  have e: "configureLocked exampleSamizdat 1 exampleBind False ?cfg exampleConnected = ([], exampleRotated)"
  proof -
    have "fst (configureLocked exampleSamizdat 1 exampleBind False ?cfg exampleConnected) = []" by code_simp
    then show ?thesis unfolding exampleRotated_def by (metis prod.collapse)
  qed
  have c: "distinct (gkeys (pc_Pairings ?cfg))" "pc_Pairings ?cfg \<noteq> []" "dropExpired 1 ?cfg = ?cfg" "gkeys (pc_Pairings ?cfg) = [exampleID]"
    by (simp_all add: exampleConfig_def dropExpired_def)
  have "po_cur exampleRotated = Some 1" by code_simp
  then show ?thesis using configure_takes_effect [OF example_portal(2) exampleSamizdat_total c(1,2) e] c(3,4) by simp
qed

section \<open>The same configuration again\<close>

lemma setPairings_same:
  assumes "table_inv t"
  shows "setPairings (pt_pairings t) t = t"
proof -
  have "pairing_of t (se_shortID (pt_objs t ! snd e)) = fst e" if "e \<in> set (pt_sessions t)" for e
    using entry_paired [OF assms, of "fst e" "snd e"] that by simp
  then have "filter (\<lambda>e. pairing_of t (se_shortID (pt_objs t ! snd e)) \<noteq> fst e) (pt_sessions t) = []"
    "filter (\<lambda>e. \<not> pairing_of t (se_shortID (pt_objs t ! snd e)) \<noteq> fst e) (pt_sessions t) = pt_sessions t"
    by (simp_all add: filter_empty_conv)
  moreover have "t\<lparr>pt_pairings := pt_pairings t\<rparr> = t" by simp
  ultimately show ?thesis unfolding setPairings_def Let_def by simp
qed

lemma moveTo_same:
  assumes ok: "portal_ok p" and z: "setShortIDs_total z" and cur: "po_cur p = Some cur" and prev: "po_prev p = prev"
    and names: "po_cfg p = cfg" "po_prevTimer p = prev" "po_prevUntil p = (if prev = None then 0 else case pc_Previous cfg of None \<Rightarrow> 0 | Some v \<Rightarrow> pi_Until v)"
    and held: "set held \<subseteq> insert cur (set (opt_list prev))"
  shows "moveTo z cfg (gkeys (pc_Pairings cfg)) held [] cur prev p = ([], p)"
proof -
  let ?ids = "gkeys (pc_Pairings cfg)" and ?u = "case pc_Previous cfg of None \<Rightarrow> 0 | Some v \<Rightarrow> pi_Until v"
  have pairs: "pairs_ok p" "wired p" using ok by (simp_all add: portal_ok_def core_def)
  have table: "pt_pairings (po_table p) = pc_Pairings cfg" "pc_Pairings cfg \<noteq> []" using pairs(1) cur names(1) by (simp_all add: pairs_ok_def)
  have "table_inv (po_table p)" using sessions.reaches_inv [of "po_table p"] pairs(1) by (simp add: pairs_ok_def portal_inv_def)
  then have pairings: "po_setPairings (pc_Pairings cfg) p = p" using setPairings_same [of "po_table p"] table(1) by (simp add: po_setPairings_def)
  have routed: "setPrevLocked prev ?u (p\<lparr>po_cur := Some cur\<rparr>) = p"
    using cur prev names pairs(2) by (cases p) (simp add: setPrevLocked_def Let_def wired_def)
  have kept: "retireOld cur prev held p = p"
  proof -
    have "set hs \<subseteq> insert cur (set (opt_list prev)) \<Longrightarrow> retireOld cur prev hs p = p" for hs
      unfolding retireOld_def by (induction hs) (auto split: option.splits)
    then show ?thesis using held .
  qed
  have same: "fold (setShortIDs ?ids) js p = p" if "set js \<subseteq> held_ids p" for js
  proof -
    have one: "setShortIDs ?ids i p = p" if "i \<in> held_ids p" for i
    proof -
      have "id_shortIDs (po_ids p ! i) = ?ids" using pairs(1) that table(1) by (simp add: pairs_ok_def)
      then have "(po_ids p ! i)\<lparr>id_shortIDs := ?ids\<rparr> = po_ids p ! i" by (cases "po_ids p ! i") simp
      then show ?thesis by (simp add: setShortIDs_def updIdentity_def)
    qed
    show ?thesis using that by (induction js) (simp_all add: one)
  qed
  have "set (filter (\<lambda>i. i \<notin> set []) (cur # opt_list prev @ po_retired p)) \<subseteq> held_ids p"
    using cur prev by (simp add: held_ids_def front_def)
  note shorts = same [OF this]
  have "p\<lparr>po_cfg := cfg\<rparr> = p" "sz_setShortIDs z ?ids" using names(1) z table(2) by (simp_all add: setShortIDs_total_def)
  then show ?thesis unfolding moveTo_def Let_def retireOld_def [symmetric] pairings routed kept shorts by simp
qed

lemma reidentify_same:
  assumes ok: "portal_ok p" and z: "setShortIDs_total z" and serves: "serves cfg p" and check: "checkConfig z cfg = None"
  shows "reidentifyLocked z cfg (gkeys (pc_Pairings cfg)) p = ([], p)"
proof -
  let ?ids = "gkeys (pc_Pairings cfg)"
  obtain cur where cur: "po_cur p = Some cur" "is_identity (pc_PrivateKey cfg) (pc_CertPEM cfg) (pc_KeyPEM cfg) (po_ids p ! cur)"
    using serves by (auto simp: serves_def)
  have held: "opt_list (po_cur p) = [cur]" using cur(1) by simp
  have f: "findIdentity z (cur # xs) (pc_PrivateKey cfg) (pc_CertPEM cfg) (pc_KeyPEM cfg) ?ids ([], p) = Some (cur, [], p)" for xs
    using cur(2) by (simp add: findIdentity_def)
  show ?thesis
  proof (cases "pc_Previous cfg")
    case None
    then have "moveTo z cfg ?ids [cur] [] cur None p = ([], p)"
      by (intro moveTo_same [OF ok z cur(1)]) (use serves in \<open>auto simp: serves_def\<close>)
    then show ?thesis using f [of "[]"] held None serves by (simp add: reidentifyLocked_def serves_def)
  next
    case (Some v)
    obtain prev where prev: "po_prev p = Some prev" "is_identity (pi_PrivateKey v) (pi_CertPEM v) (pi_KeyPEM v) (po_ids p ! prev)"
      using serves Some by (auto simp: serves_def)
    have "pi_PrivateKey v \<noteq> pc_PrivateKey cfg" using check Some by (auto simp: checkConfig_def split: option.splits if_splits)
    then have "findIdentity z [cur, prev] (pi_PrivateKey v) (pi_CertPEM v) (pi_KeyPEM v) ?ids ([], p) = Some (prev, [], p)"
      using cur(2) prev(2) by (simp add: findIdentity_def is_identity_def)
    moreover have "moveTo z cfg ?ids [cur, prev] [] cur (Some prev) p = ([], p)"
      by (intro moveTo_same [OF ok z cur(1)]) (use serves Some prev in \<open>auto simp: serves_def\<close>)
    ultimately show ?thesis using f [of "[prev]"] held prev(1) Some by (simp add: reidentifyLocked_def)
  qed
qed

text \<open>\<open>Configure\<close> does not touch \<open>closed\<close>.\<close>

lemma closed_stop: "core X p \<Longrightarrow> lines_ok p \<Longrightarrow> po_closed (snd (stopLocked e p)) = po_closed p"
  using stop_stops [of X p e] by (simp add: stopped_def)

lemma closed_moveTo: "po_closed (snd (moveTo z cfg ids held made cur prev p)) = po_closed p"
proof -
  have "rest (retireOld cur prev hs t) = rest t" for hs t
    unfolding retireOld_def by (induction hs arbitrary: t) simp_all
  then have "po_closed (retireOld cur prev hs t) = po_closed t" for hs t using restD by blast
  moreover have "po_closed (fold (setShortIDs ids) js t) = po_closed t" for js t
    using setShortIDs_moves [of "{}" ids js t] by (simp add: rest_def)
  ultimately show ?thesis by (simp add: moveTo_def Let_def retireOld_def [symmetric]) (simp add: setPrevLocked_def Let_def po_setPairings_def)
qed

lemma closed_find: "findIdentity z held k c kp ids (made, p) = Some (i, made', q) \<Longrightarrow> po_closed q = po_closed p"
  by (auto simp: findIdentity_def newIdentity_def split: option.splits if_splits)

lemma closed_bind:
  assumes "core X q" "lines_ok q"
  shows "po_closed (snd (bindAndServe bind lnErr cfg running port cur prev q)) = po_closed q"
proof -
  have "core X (po_setPairings [] q)" "lines_ok (po_setPairings [] q)" "po_closed (po_setPairings [] q) = po_closed q"
    using assms by (auto simp: lines_ok_def) (auto simp: po_setPairings_def)
  then have "po_closed (snd (stopLocked lnErr (po_setPairings [] q))) = po_closed q" using closed_stop by metis
  then show ?thesis
    by (simp add: bindAndServe_def Let_def case_prod_unfold startServe_def setPrevLocked_def split: option.split) (simp add: po_setPairings_def)
qed

lemma closed_new: "newIdentity z k c kp ids p = Some (i, q) \<Longrightarrow> po_closed q = po_closed p"
  by (auto simp: newIdentity_def split: if_splits)

lemma closed_anew:
  assumes "core {} p" "lines_ok p" "pairs_ok p"
  shows "po_closed (snd (startAnew z bind lnErr cfg running port ids p)) = po_closed p"
proof (cases "newIdentity z (pc_PrivateKey cfg) (pc_CertPEM cfg) (pc_KeyPEM cfg) ids p")
  case (Some y)
  then obtain cur q where q: "newIdentity z (pc_PrivateKey cfg) (pc_CertPEM cfg) (pc_KeyPEM cfg) ids p = Some (cur, q)" by (cases y) auto
  note n = new_ok [OF assms q]
  show ?thesis
  proof (cases "pc_Previous cfg")
    case None
    then show ?thesis using q closed_bind [OF n(1,2)] closed_new [OF q] by (simp add: startAnew_def)
  next
    case (Some v)
    show ?thesis
    proof (cases "newIdentity z (pi_PrivateKey v) (pi_CertPEM v) (pi_KeyPEM v) ids q")
      case None
      then show ?thesis using q Some closed_new [OF q] by (simp add: startAnew_def)
    next
      case (Some w)
      then obtain prev u where u: "newIdentity z (pi_PrivateKey v) (pi_CertPEM v) (pi_KeyPEM v) ids q = Some (prev, u)" by (cases w) auto
      note m = new_ok [OF n(1,2,3) u]
      show ?thesis using q u \<open>pc_Previous cfg = Some v\<close> closed_bind [OF m(1,2)] closed_new [OF q] closed_new [OF u] by (simp add: startAnew_def)
    qed
  qed
qed (simp add: startAnew_def)

lemma closed_reidentify: "po_closed (snd (reidentifyLocked z cfg ids p)) = po_closed p"
  using closed_find
  by (auto simp: reidentifyLocked_def Let_def closed_moveTo split: option.split)

lemma closed_configure:
  assumes "portal_ok p"
  shows "po_closed (snd (configureLocked z now bind lnErr cfg p)) = po_closed p"
proof -
  have base: "core {} p" "lines_ok p" "pairs_ok p" using assms by (simp_all add: portal_ok_def)
  show ?thesis
  proof (cases rule: configure_cases [of z now bind lnErr cfg p])
    case (emptied e q)
    have "core {} (po_setPairings [] p)" "lines_ok (po_setPairings [] p)" "po_closed (po_setPairings [] p) = po_closed p"
      using base by (auto simp: lines_ok_def) (auto simp: po_setPairings_def)
    then have "po_closed (snd (stopLocked lnErr (po_setPairings [] p))) = po_closed p" using closed_stop by metis
    then show ?thesis using emptied by simp
  next
    case moved
    then show ?thesis using closed_reidentify by simp
  next
    case (anew port)
    then show ?thesis using closed_anew [OF base] by simp
  qed simp
qed



text \<open>C15: The portal and its sessions together: the session \<open>Session\<close> returns for a tag was not closed by the portal, and its short ID is paired with that
  tag in the configuration the portal serves. A portal that is down, was closed or was configured without the pairing hands out nothing.\<close>

theorem session_is_configured:
  assumes "reaches portal_init (portal_step z) p" and "setShortIDs_total z" and "Session canTake tag (po_table p) = Some i" and "tag \<noteq> ''''"
  shows "po_cur p \<noteq> None \<and> gget (pc_Pairings (po_cfg p)) (se_shortID (pt_objs (po_table p) ! i)) = Some tag
    \<and> \<not> se_closed (pt_objs (po_table p) ! i)"
proof -
  have pairs: "pairs_ok p" using portal_reaches [OF assms(1,2)] by (simp add: portal_ok_def)
  then have "portal_inv (po_table p)" using sessions.reaches_inv by (simp add: pairs_ok_def)
  note live = session_live [OF this assms(3)]
  then have "gget (pt_pairings (po_table p)) (se_shortID (pt_objs (po_table p) ! i)) = Some tag"
    using assms(4) by (auto simp: published_ok_def pairing_of_def split: option.splits)
  then show ?thesis using pairs live by (auto simp: pairs_ok_def split: if_splits)
qed

theorem session_is_configured_witness:
  "gget (pc_Pairings (po_cfg examplePublished)) (se_shortID (pt_objs (po_table examplePublished) ! 0)) = Some ''helper''
    \<and> \<not> se_closed (pt_objs (po_table examplePublished) ! 0)"
proof -
  let ?p = "startSession 0 exampleID exampleConnected"
  have "in_phase exampleConnected 0 (Delivered 0)" by code_simp
  then have r: "reaches portal_init (portal_step exampleSamizdat) ?p" by (rule portal_ops(6) [OF example_portal(2)])
  have "at_pc (po_table ?p) 0 Opening" by code_simp
  then have "session_table_step (po_table ?p) (openSession True 0 (po_table ?p))" by (rule opens)
  moreover have "pt_pairings (openSession True 0 (po_table ?p)) = pt_pairings (po_table ?p)" by code_simp
  ultimately have r2: "reaches portal_init (portal_step exampleSamizdat) (?p\<lparr>po_table := openSession True 0 (po_table ?p)\<rparr>)" by (rule portal_ops(7) [OF r])
  have "at_pc (openSession True 0 (po_table ?p)) 0 Publishing" by code_simp
  then have "session_table_step (openSession True 0 (po_table ?p)) (publish 0 (openSession True 0 (po_table ?p)))" by (rule publishes)
  moreover have "pt_pairings (publish 0 (openSession True 0 (po_table ?p))) = pt_pairings (openSession True 0 (po_table ?p))" by code_simp
  ultimately have "reaches portal_init (portal_step exampleSamizdat) examplePublished"
    using portal_ops(7) [OF r2] by (simp add: examplePublished_def Let_def)
  moreover have "Session (\<lambda>i. True) ''helper'' (po_table examplePublished) = Some 0" by code_simp
  ultimately show ?thesis using session_is_configured [of exampleSamizdat examplePublished "\<lambda>i. True" "''helper''" 0] exampleSamizdat_total by simp
qed

end
