(* ===== verification/Portal_Hello.thy ===== *)
theory Portal_Hello
  imports Box_Prelude
begin

text \<open>
  How the samizdat portal peeks at a connection (\<open>protocol/samizdatreverse/demux.go\<close>): it reads one TLS record, whatever the pieces the network
  delivers it in, picks an identity by it, and hands the connection on with the record to be read again.
\<close>

unbundle bit_operations_syntax

section \<open>Reading\<close>

text \<open>A connection delivers its bytes in pieces and then fails or ends: a read takes at most the next piece.\<close>

fun piece_read :: "nat \<Rightarrow> bytes list \<Rightarrow> (bytes \<times> bytes list) option" where
  "piece_read k [] = None"
| "piece_read k (d # r) = Some (take k d, if length d \<le> k then r else drop k d # r)"

text \<open>\<open>io.ReadFull\<close>.\<close>

fun io_ReadFull :: "nat \<Rightarrow> bytes list \<Rightarrow> (bytes \<times> bytes list) option" where
  "io_ReadFull 0 segs = Some ([], segs)"
| "io_ReadFull (Suc n) [] = None"
| "io_ReadFull (Suc n) (d # r) =
     (if length d \<le> Suc n then map_option (apfst ((@) d)) (io_ReadFull (Suc n - length d) r)
      else Some (take (Suc n) d, drop (Suc n) d # r))"

datatype helloError = HelloRead | HelloNotHandshake | HelloTooLarge

definition helloLength :: "bytes \<Rightarrow> nat" where
  "helloLength header = nat (push_bit 8 (uint (header ! 3)) OR uint (header ! 4))"

definition readHelloRecord :: "bytes list \<Rightarrow> helloError + bytes \<times> bytes list" where
  "readHelloRecord segs =
     (case io_ReadFull 5 segs of
        None \<Rightarrow> Inl HelloRead
      | Some (header, segs) \<Rightarrow>
          if header ! 0 \<noteq> 22 then Inl HelloNotHandshake
          else if helloLength header > 16384 then Inl HelloTooLarge
          else (case io_ReadFull (helloLength header) segs of
             None \<Rightarrow> Inl HelloRead
           | Some (body, segs) \<Rightarrow> Inr (header @ body, segs)))"

record replayConn =
  rp_buf :: bytes
  rp_conn :: "bytes list"

definition replay_Read :: "nat \<Rightarrow> replayConn \<Rightarrow> (bytes \<times> replayConn) option" where
  "replay_Read k c =
     (if rp_buf c \<noteq> [] then Some (take k (rp_buf c), c\<lparr>rp_buf := drop k (rp_buf c)\<rparr>)
      else case piece_read k (rp_conn c) of
        None \<Rightarrow> None
      | Some (b, segs) \<Rightarrow> Some (b, c\<lparr>rp_conn := segs\<rparr>))"

text \<open>Reads into buffers of the given sizes, until one fails.\<close>

fun replay_reads :: "nat list \<Rightarrow> replayConn \<Rightarrow> bytes \<times> replayConn" where
  "replay_reads [] c = ([], c)"
| "replay_reads (k # ks) c =
     (case replay_Read k c of
        None \<Rightarrow> ([], c)
      | Some (b, c) \<Rightarrow> (case replay_reads ks c of (bs, c) \<Rightarrow> (b @ bs, c)))"

section \<open>What is read\<close>

lemma ReadFull_exact: "io_ReadFull n segs = Some (b, r) \<Longrightarrow> concat segs = b @ concat r \<and> length b = n"
proof (induction n segs arbitrary: b r rule: io_ReadFull.induct)
  case (3 n d segs)
  show ?case
  proof (cases "length d \<le> Suc n")
    case True
    then obtain b' where "io_ReadFull (Suc n - length d) segs = Some (b', r)" "b = d @ b'" using "3.prems" by auto
    then show ?thesis using "3.IH" [OF True, of b' r] True by simp
  next
    case False
    then have "b = take (Suc n) d" "r = drop (Suc n) d # segs" using "3.prems" by simp_all
    then show ?thesis using False append_take_drop_id [of "Suc n" d] by (simp add: append_assoc [symmetric] del: append_assoc append_take_drop_id)
  qed
qed simp_all

lemma ReadFull_enough: "(io_ReadFull n segs = None) = (length (concat segs) < n)"
proof (induction n segs rule: io_ReadFull.induct)
  case (3 n d segs)
  then show ?case by (cases "length d \<le> Suc n") auto
qed simp_all

lemma piece_exact: "piece_read k segs = Some (b, r) \<Longrightarrow> concat segs = b @ concat r"
  by (cases segs) auto

lemma replay_exact: "replay_Read k c = Some (b, c') \<Longrightarrow> rp_buf c @ concat (rp_conn c) = b @ rp_buf c' @ concat (rp_conn c')"
  using piece_exact [of k "rp_conn c"] by (auto simp: replay_Read_def split: option.splits if_splits)

lemma replay_reads_exact: "replay_reads ks c = (out, c') \<Longrightarrow> rp_buf c @ concat (rp_conn c) = out @ rp_buf c' @ concat (rp_conn c')"
proof (induction ks arbitrary: c out)
  case (Cons k ks)
  show ?case
  proof (cases "replay_Read k c")
    case (Some r)
    then obtain b d where r: "replay_Read k c = Some (b, d)" by (cases r) auto
    then obtain bs where "replay_reads ks d = (bs, c')" "out = b @ bs" using Cons.prems by (auto split: prod.splits)
    then show ?thesis using Cons.IH [of d bs] replay_exact [OF r] by simp
  qed (use Cons.prems in simp)
qed simp

text \<open>The length read from the header alone is the one read from the whole.\<close>

lemma helloLength_append [simp]: "length header = 5 \<Longrightarrow> helloLength (header @ b) = helloLength header"
  by (simp add: helloLength_def nth_append)

lemma hello_parts:
  assumes "readHelloRecord segs = Inr (rec, rest)"
  obtains header body where "rec = header @ body" "length header = 5" "length body = helloLength header" "header ! 0 = 22" "helloLength header \<le> 16384"
    "concat segs = rec @ concat rest"
proof -
  obtain header r where h: "io_ReadFull 5 segs = Some (header, r)" using assms by (auto simp: readHelloRecord_def split: option.splits)
  obtain body where b: "io_ReadFull (helloLength header) r = Some (body, rest)" "rec = header @ body" "header ! 0 = 22" "helloLength header \<le> 16384"
    using assms h by (auto simp: readHelloRecord_def split: option.splits if_splits)
  show thesis using that [of header body] b ReadFull_exact [OF h] ReadFull_exact [OF b(1)] by simp
qed

text \<open>C36: Peeking at a ClientHello is invisible to the identity the connection is handed to: however the network cut the stream into pieces and whatever the
  sizes of the reads, what is read from the wrapped connection and what is left to be read is exactly what the peer sent, in order. The record peeked at is a TLS
  handshake record of at most 16384 bytes after its header, and not a byte more than that was taken.\<close>

theorem hello_replayed:
  assumes "readHelloRecord segs = Inr (rec, rest)" and "replay_reads ks \<lparr>rp_buf = rec, rp_conn = rest\<rparr> = (out, c)"
  shows "out @ rp_buf c @ concat (rp_conn c) = concat segs \<and> rec = take (5 + helloLength rec) (concat segs) \<and> rec ! 0 = 22 \<and> length rec \<le> 5 + 16384"
proof -
  obtain header body where p: "rec = header @ body" "length header = 5" "length body = helloLength header" "header ! 0 = 22" "helloLength header \<le> 16384"
    "concat segs = rec @ concat rest" by (rule hello_parts [OF assms(1)])
  have "rec = take (5 + helloLength rec) (concat segs)" "rec ! 0 = 22" "length rec \<le> 5 + 16384" using p by (simp_all add: nth_append)
  moreover have "out @ rp_buf c @ concat (rp_conn c) = concat segs" using replay_reads_exact [OF assms(2)] p(6) by simp
  ultimately show ?thesis by blast
qed

definition exampleHello :: "bytes list" where
  "exampleHello = [[22, 3], [1, 0, 2, 7], [8, 9], [10]]"

theorem hello_replayed_witness:
  "readHelloRecord exampleHello = Inr ([22, 3, 1, 0, 2, 7, 8], [[9], [10]])
    \<and> replay_reads [4, 4, 4, 4] \<lparr>rp_buf = [22, 3, 1, 0, 2, 7, 8], rp_conn = [[9], [10]]\<rparr> = ([22, 3, 1, 0, 2, 7, 8, 9, 10], \<lparr>rp_buf = [], rp_conn = []\<rparr>)
    \<and> [22, 3, 1, 0, 2, 7, 8, 9, 10] = concat exampleHello"
proof -
  have r: "readHelloRecord exampleHello = Inr ([22, 3, 1, 0, 2, 7, 8], [[9], [10]])" by code_simp
  have o: "replay_reads [4, 4, 4, 4] \<lparr>rp_buf = [22, 3, 1, 0, 2, 7, 8], rp_conn = [[9], [10]]\<rparr>
      = ([22, 3, 1, 0, 2, 7, 8, 9, 10], \<lparr>rp_buf = [], rp_conn = []\<rparr>)" by code_simp
  show ?thesis using hello_replayed [OF r o] r o by simp
qed

text \<open>C37: Whether a ClientHello is taken depends on the bytes the peer sends and not on how the network cuts them: the record is read exactly when the stream begins
  with a handshake record of at most 16384 bytes that arrives in full.\<close>

theorem hello_accepted_iff:
  "(\<exists>r. readHelloRecord segs = Inr r) \<longleftrightarrow>
     5 \<le> length (concat segs) \<and> concat segs ! 0 = 22 \<and> helloLength (concat segs) \<le> 16384 \<and> 5 + helloLength (concat segs) \<le> length (concat segs)"
proof (cases "io_ReadFull 5 segs")
  case None
  then show ?thesis using ReadFull_enough [of 5 segs] by (simp add: readHelloRecord_def)
next
  case (Some y)
  then obtain header r where h: "io_ReadFull 5 segs = Some (header, r)" by (cases y) auto
  note e = ReadFull_exact [OF h]
  have "io_ReadFull (helloLength header) r = None \<longleftrightarrow> length (concat r) < helloLength header" by (rule ReadFull_enough)
  then show ?thesis using h e by (auto simp: readHelloRecord_def nth_append split: option.split)
qed

end
