(* ===== verification/Spec2Isabelle.thy ===== *)
theory Spec2Isabelle
  imports Group_Manager Fallback Helper_Tag Meek_Tunnel Meek_Adapter Client_Frames Data_Cap_Reports
    Pmp_Gateway Port_Guarantees Port_Discovery Portal_Service Portal_Hello
begin

text \<open>
  Verification of lantern-box: its outbound groups, its meek transport, its client info frames, its data caps, its port
  forwarding and its samizdat portal.

  \<^bold>\<open>The program.\<close> lantern-box is a sing-box distribution with its own proxy protocols. What it adds of
  its own logic is how outbounds are grouped and chosen: groups whose members come and go while traffic
  flows (\<open>src/protocol/group\<close>), the manager that creates, adds and removes the members
  (\<open>src/adapter/groups\<close>), and the history that choices rest on (\<open>src/adapter/autoselect_history.go\<close>). The
  manager calls the groups through the interfaces of \<open>src/adapter/group.go\<close>; a group resolves tags with
  sing-box's outbound manager, dials through the chosen member, probes its members, and learns from probes
  and from user traffic which member to choose. Of the protocols, meek carries a byte stream over polls
  that a network may lose, repeat and delay (\<open>src/protocol/meek\<close>). Two trackers work on every connection of a
  server: one reads the info a client put before its first bytes (\<open>src/tracker/clientcontext\<close>), the other
  uses it to count and throttle the traffic of a device (\<open>src/tracker/datacap\<close>). A node behind a home router opens its
  ports there by NAT-PMP, PCP or UPnP (\<open>src/portforward\<close>). An inviter's device runs a portal that helpers dial into
  (\<open>src/protocol/samizdatreverse\<close>).

  \<^bold>\<open>The theories\<close>, in the order in which they build on each other:

  \<^item> \<open>Box_Prelude\<close>: times and durations in nanoseconds, Go maps as association lists with their laws
    (\<open>gomap_simps\<close>), a range over a map in an order chosen by the runtime (\<open>gorange\<close>),
    \<open>sort.SliceStable\<close> with the locale \<open>keyed_less\<close>, reachable states and the locale \<open>invariant_system\<close>.
  \<^item> \<open>History_Storage\<close> (\<open>adapter/autoselect_history.go\<close>): the in-memory store with its hook, the upgrade of
    a stored failure; the contract of the \<open>AutoSelectHistoryStorage\<close> interface is the locale
    \<open>history_storage\<close>.
  \<^item> \<open>Local_History\<close> (\<open>mutableautoselect_history.go\<close>): the record of one member, its window of user
    failures, the recovery gate, the rule \<open>demoted\<close>, and what is written to and read from the store.
  \<^item> \<open>Auto_Config\<close> (\<open>mutableautoselect_protocols.go\<close>, \<open>option/group.go\<close>,
    \<open>resolveMutableAutoSelectOptions\<close>): options and their defaults, probe timeouts by protocol.
  \<^item> \<open>Auto_State\<close>: the fields of \<open>MutableAutoSelect\<close> as the record \<open>mas\<close> and the helpers that read or update
    a few of them; construction.
  \<^item> \<open>Auto_Rank\<close> (\<open>mutableautoselect.go\<close>): \<open>rankLocked\<close> in its passes, the pool of a network,
    stickiness, the replacement after a confirmed failure.
  \<^item> \<open>Auto_Probe\<close> (\<open>mutableautoselect_scheduler.go\<close>): the probe scheduler, one definition per critical
    section: requests, dispatch, completion, watchdog, waiters, ladders, cycles, URL tests, timers.
  \<^item> \<open>Data_Plane\<close> (\<open>mutableautoselect_dataplane.go\<close>): the watchdog of one connection, in the sections that
    other goroutines may run between, and as the step relation \<open>wd_step\<close>.
  \<^item> \<open>Auto_Select\<close> (\<open>mutableautoselect.go\<close>): life cycle, membership, selection, dials and listens.
  \<^item> \<open>Auto_Invariant\<close>: \<open>group_step\<close>, every operation and every timer, return or callback of the auto-select
    group, with its invariant; what the scheduler guarantees. \<open>Auto_Guarantees\<close>: what callers of the group
    may rely on.
  \<^item> \<open>Group_Interface\<close> (\<open>adapter/group.go\<close>): the contract of \<open>MutableOutboundGroup\<close> as the locale
    \<open>mutable_group\<close>, interpreted for the auto-select group there and for the other groups in their
    theories.
  \<^item> \<open>Mutable_Selector\<close> (\<open>mutableselector.go\<close>): the group whose member is selected by hand.
  \<^item> \<open>Url_Test\<close>, \<open>Url_Selection\<close> (\<open>mutableurltest.go\<close>): the group that selects by latency, with its test
    rounds and replacement probes; its invariant and step relation \<open>ut_step\<close>.
  \<^item> \<open>Removal_Queue\<close> and \<open>Group_Manager\<close> (\<open>adapter/groups/manager.go\<close>): delayed removal with its goroutine
    as a program counter, and the manager's operations over all three kinds of groups.
  \<^item> \<open>Fallback\<close> (\<open>fallback.go\<close>) and \<open>Helper_Tag\<close> (\<open>adapter/helper_tag.go\<close>).
  \<^item> \<open>Go_Strconv\<close>, \<open>Go_Json\<close>: what the sources below use of Go's standard library: decimal numbers and header
    names; UTF-8, the quoting of strings and the scanner of \<open>encoding/json\<close>, with their round trips.
  \<^item> \<open>Meek_Client\<close> (\<open>meek/client.go\<close>): the connection, its polls and retries. \<open>Meek_Server\<close>
    (\<open>meek/server.go\<close>): sessions as objects in a store, the read pump, the HTTP handler. \<open>Meek_Tunnel\<close>: client, network
    and server together. \<open>Meek_Adapter\<close> (\<open>meek/outbound.go\<close>, \<open>meek/inbound.go\<close>, \<open>option/meek.go\<close>): options, fronts
    and the SOCKS5 handshake.
  \<^item> \<open>Client_Context\<close> (\<open>tracker/clientcontext\<close>): the frame on the client and on the server; \<open>Client_Frames\<close>: the
    contract of a reader as the locale \<open>byte_reader\<close>, interpreted for a connection, a \<open>MultiReader\<close> and the
    wrapped connection, and what both sides together promise.
  \<^item> \<open>Throttle\<close> (\<open>datacap/throttler.go\<close>, \<open>throttle_registry.go\<close>): the token buckets. \<open>Data_Cap\<close> (\<open>datacap/reporter.go\<close>,
    \<open>conn.go\<close>, \<open>packet_conn.go\<close>): counters, connections and flushes, one step per atomic operation;
    \<open>Data_Cap_Reports\<close>: its invariants.
  \<^item> \<open>Pmp_Client\<close> (\<open>portforward/pmp.go\<close>): the NAT-PMP and PCP clients. \<open>Pmp_Gateway\<close>: the contract of a gateway as the locale
    \<open>mapping_gateway\<close>, interpreted for both clients on gateways written after their RFCs. \<open>Port_Forward\<close>
    (\<open>portforward/portforward.go\<close>): the forwarder, its renewals and clean-ups as the step relation \<open>fw_step\<close>; \<open>Port_Invariant\<close>
    and \<open>Port_Guarantees\<close>: its invariant and what follows from it. \<open>Port_Discovery\<close>: which gateway and local address are used, the
    manual forwarder (\<open>manual.go\<close>), the redaction of log lines (\<open>quietlog.go\<close>).
  \<^item> \<open>Portal_Sessions\<close> (\<open>samizdatreverse/portal.go\<close>): the sessions helpers dial into the portal, one step per section of a
    handler, and the invariant of their table; \<open>Portal_Guarantees\<close>: what follows for every interleaving.
  \<^item> \<open>Portal_Config\<close> (\<open>portal.go\<close>, \<open>demux.go\<close>): configuration, identities and the accept path of the portal as the step relation
    \<open>portal_step\<close>, with the sessions as part of its state; \<open>Portal_Identities\<close> and \<open>Portal_Rotation\<close>: its invariant, for identities and
    connections and then for every operation; \<open>Portal_Service\<close>: what follows. \<open>Portal_Hello\<close> (\<open>demux.go\<close>): the record that is peeked at and
    replayed.

  \<^bold>\<open>State and concurrency.\<close> A Go structure is a record and a method a function on it. A method that holds
  its lock from beginning to end is one function. One that releases a lock and waits, or that starts a
  goroutine or a timer, is split there, and the parts are steps of their own: whatever may happen between them is
  another step of the same relation, so the invariants hold for every interleaving of these sections. Atomic fields
  read outside the lock are read at one point of the section that reads them.

  \<^bold>\<open>The environment.\<close> sing-box is not part of this repository. Its outbound manager is a lookup function, or
  the record \<open>registry\<close> with the laws \<open>registry_ok\<close> where the manager creates and removes; a dial through an
  outbound, a URL test, the cache file and the pause manager are arguments that may return anything.
  samizdat's server, X25519 and the check of a key pair are the record \<open>samizdat\<close>, of which the theorems assume that setting
  short IDs fails only for none (\<open>setShortIDs_total\<close>, instantiated by \<open>exampleSamizdat\<close>).
  The order in which Go visits a map is an argument too, an arbitrary permutation of the keys.

  \<^bold>\<open>Integers.\<close> Counters and delays keep their width (\<open>u16\<close>, \<open>u32\<close>, \<open>u64\<close>) where the code compares or adds
  them; durations are integers with the bounds of \<open>time.Duration\<close> written out where a conversion saturates
  or a configuration is scaled. Where a wrap-around changes the outcome there is a lemma that evaluates
  it (\<open>tolerance_wraps\<close>).

  Byte counts of the trackers are unbounded, and the tokens of a throttler are rational where Go has doubles.

  \<^bold>\<open>Termination.\<close> No loop of the model has fuel. Most are structural recursion or a fold, the failover loop of the
  latency-tested group and the retries of a poll run on the source's own bounds, and the loops that read a
  connection end because every read uses up what is left of it.

  \<^bold>\<open>What is shown.\<close> Invariants of every reachable state (slots, memberships, selections, one charge
  per connection, the removal queue); what selection, ranking, membership changes, dials, replacement and removal
  do on every branch; liveness of dispatch and selection; bounds of windows, tolerances and attempts; the
  round trip of a history; refinement of the undisturbed \<open>noteIO\<close> to the interleaved sections; and
  that a tag added to a group is safe from a removal already decided. For meek: the tunnel neither loses, repeats nor
  reorders a byte while its polls are served on one session, none fails and none is applied late (the
  hypotheses \<open>clean\<close> of \<open>tunnel_keeps_bytes\<close>), a poll is applied once, a clean end is complete, the headers are read back.
  For client info: the server reports what the client sent and the destination gets the stream without the frame,
  however reads cut and delay it. For data caps: no counted byte is lost or reported twice in any interleaving of
  connections and flushes, reports are consistent, and the throttled rate holds. For port forwarding: no mapping is left on a gateway that is neither tracked nor being removed, no clean-up removes
  a tracked one, ports come free again, renewals come in time, exchanges end. For the portal: what is looked up is open and paired now, a place is
  lost only to a confirmed session, handlers leave nothing open; rotating keys cuts no connection off, no identity is leaked, a
  configuration takes effect as a whole or changes nothing, and a ClientHello is taken only by an identity in force. Some lemmas evaluate runs that go
  wrong: \<open>stray_delete_hits_new_mapping\<close>, \<open>zero_delay_loses\<close>, \<open>removed_nested_group_stays_selected\<close>, \<open>lost_wakeup\<close>,
  \<open>requeued_tag_removed_early\<close>, \<open>late_poll_repeats_bytes\<close>, \<open>lost_end_restarts_session\<close>, \<open>closed_session_ends_cleanly\<close>.

  \<^bold>\<open>Not modelled.\<close> Log lines and telemetry; the other protocol adapters, which hand connections to third-party
  libraries; the bypass of sing-box's deadline reader and the host classifier in the trackers; the
  metrics tracker, the node and the command line.
\<close>

end
